(* ===== verification/Prelude.thy ===== *)
theory Prelude
  imports Main "HOL-Library.Word"
begin

text \<open>
  Shared vocabulary of the development: the machine types of the C sources, pointers as
  byte functions, little-endian loads and stores, and the generic lemmas about them.

  A pointer \<^verbatim>\<open>const uint8_t *p\<close> is the memory from \<open>p\<close> on, a function
  \<open>nat \<Rightarrow> byte\<close>; \<open>p + off\<close> is \<open>shift p off\<close>. A buffer of \<open>n\<close> bytes has the same
  type: what lies behind its end is whatever the heap holds there, so a statement that a
  result does not depend on those bytes is a statement about the code staying in bounds.
\<close>

unbundle bit_operations_syntax

type_synonym byte = "8 word"
type_synonym u16 = "16 word"
type_synonym u32 = "32 word"
type_synonym u64 = "64 word"
type_synonym ptr = "nat \<Rightarrow> byte"

named_theorems le_simps \<open>evaluation of little-endian loads and stores\<close>

section \<open>Pointers and buffers\<close>

definition shift :: "ptr \<Rightarrow> nat \<Rightarrow> ptr" where
  "shift p off = (\<lambda>i. p (off + i))"

definition blit :: "ptr \<Rightarrow> nat \<Rightarrow> byte list \<Rightarrow> ptr" where
  \<comment> \<open>memcpy of the bytes \<open>bs\<close> to \<open>p + off\<close>\<close>
  "blit p off bs = (\<lambda>i. if off \<le> i \<and> i < off + length bs then bs ! (i - off) else p i)"

definition memset :: "ptr \<Rightarrow> nat \<Rightarrow> byte \<Rightarrow> nat \<Rightarrow> ptr" where
  \<comment> \<open>memset(p + off, c, n)\<close>
  "memset p off c n = (\<lambda>i. if off \<le> i \<and> i < off + n then c else p i)"

definition bytes_at :: "ptr \<Rightarrow> nat \<Rightarrow> nat \<Rightarrow> byte list" where
  \<comment> \<open>the \<open>n\<close> bytes at \<open>p + off\<close>\<close>
  "bytes_at p off n = map (\<lambda>i. p (off + i)) [0..<n]"

definition of_list :: "byte list \<Rightarrow> ptr" where
  \<comment> \<open>a pointer to a block with the given contents (zero behind its end)\<close>
  "of_list bs = (\<lambda>i. if i < length bs then bs ! i else 0)"

lemma shift_apply [simp]: "shift p off i = p (off + i)"
  by (simp add: shift_def)

lemma shift_0 [simp]: "shift p 0 = p"
  by (simp add: shift_def)

lemma shift_shift [simp]: "shift (shift p a) b = shift p (a + b)"
  by (simp add: shift_def add.assoc)

lemma length_bytes_at [simp]: "length (bytes_at p off n) = n"
  by (simp add: bytes_at_def)

lemma nth_bytes_at [simp]: "i < n \<Longrightarrow> bytes_at p off n ! i = p (off + i)"
  by (simp add: bytes_at_def)

lemma bytes_at_0 [simp]: "bytes_at p off 0 = []"
  by (simp add: bytes_at_def)

lemma bytes_at_add: "bytes_at p off (m + n) = bytes_at p off m @ bytes_at p (off + m) n"
  by (rule nth_equalityI) (auto simp: nth_append add.assoc)

lemma bytes_at_eq_iff: "bytes_at p a n = bytes_at q b n \<longleftrightarrow> (\<forall>i<n. p (a + i) = q (b + i))"
  by (auto simp: list_eq_iff_nth_eq)

lemma bytes_at_shift [simp]: "bytes_at (shift p a) off n = bytes_at p (a + off) n"
  by (simp add: bytes_at_def add.assoc)

lemma take_bytes_at [simp]: "take m (bytes_at p off n) = bytes_at p off (min m n)"
  by (rule nth_equalityI) auto

lemma drop_bytes_at [simp]: "drop m (bytes_at p off n) = bytes_at p (off + m) (n - m)"
  by (rule nth_equalityI) (auto simp: add.assoc)

lemma blit_Nil [simp]: "blit p off [] = p"
  by (auto simp: blit_def fun_eq_iff)

lemma blit_blit: "blit (blit p off xs) (off + length xs) ys = blit p off (xs @ ys)"
  by (auto simp: blit_def fun_eq_iff nth_append)

lemma blit_outside: "i < off \<or> off + length bs \<le> i \<Longrightarrow> blit p off bs i = p i"
  by (auto simp: blit_def)

lemma blit_inside: "i < length bs \<Longrightarrow> blit p off bs (off + i) = bs ! i"
  by (simp add: blit_def)

lemma bytes_at_blit_same [simp]: "n = length bs \<Longrightarrow> bytes_at (blit p off bs) off n = bs"
  by (rule nth_equalityI) (auto simp: blit_def)

lemma bytes_at_blit_disjoint:
  "a + n \<le> off \<or> off + length bs \<le> a \<Longrightarrow> bytes_at (blit p off bs) a n = bytes_at p a n"
  by (rule nth_equalityI) (auto simp: blit_def)

section \<open>Little-endian loads and stores\<close>

primrec le_load :: "nat \<Rightarrow> ptr \<Rightarrow> 'a::len word" where
  "le_load 0 p = 0"
| "le_load (Suc n) p = ucast (p 0) OR push_bit 8 (le_load n (shift p 1))"

definition le_bytes :: "nat \<Rightarrow> 'a::len word \<Rightarrow> byte list" where
  "le_bytes n w = map (\<lambda>i. ucast (drop_bit (8 * i) w)) [0..<n]"

abbreviation ld8 :: "ptr \<Rightarrow> byte" where "ld8 p \<equiv> p 0"
abbreviation ld16 :: "ptr \<Rightarrow> u16" where "ld16 p \<equiv> le_load 2 p"
abbreviation ld32 :: "ptr \<Rightarrow> u32" where "ld32 p \<equiv> le_load 4 p"
abbreviation ld64 :: "ptr \<Rightarrow> u64" where "ld64 p \<equiv> le_load 8 p"

lemma length_le_bytes [simp]: "length (le_bytes n w) = n"
  by (simp add: le_bytes_def)

lemma nth_le_bytes [simp]: "i < n \<Longrightarrow> le_bytes n w ! i = ucast (drop_bit (8 * i) w)"
  by (simp add: le_bytes_def)

lemma bit_le_load:
  "bit (le_load n p :: 'a::len word) k \<longleftrightarrow>
     k < LENGTH('a) \<and> k < 8 * n \<and> bit (p (k div 8)) (k mod 8)"
proof (induction n arbitrary: p k)
  case 0
  then show ?case by simp
next
  case (Suc n)
  show ?case
  proof (cases "k < 8")
    case True
    then show ?thesis
      by (auto simp: bit_or_iff bit_push_bit_iff bit_unsigned_iff)
  next
    case False
    then have k: "k div 8 = Suc ((k - 8) div 8)" "k mod 8 = (k - 8) mod 8"
      by (simp_all add: le_div_geq le_mod_geq)
    have "\<not> bit (p 0) k"
      using False by (auto dest: bit_imp_le_length)
    with False show ?thesis
      by (auto simp: bit_or_iff bit_push_bit_iff bit_unsigned_iff Suc.IH k)
  qed
qed

lemma le_load_eq_iff:
  assumes "LENGTH('a::len) = 8 * n"
  shows "(le_load n p :: 'a word) = le_load n q \<longleftrightarrow> (\<forall>i<n. p i = q i)"
proof
  assume eq: "(le_load n p :: 'a word) = le_load n q"
  show "\<forall>i<n. p i = q i"
  proof (intro allI impI bit_word_eqI)
    fix i j assume "i < n" "j < LENGTH(8)"
    then have j: "(8 * i + j) div 8 = i" "(8 * i + j) mod 8 = j" "8 * i + j < 8 * n"
      by simp_all
    from eq have "bit (le_load n p :: 'a word) (8 * i + j) = bit (le_load n q :: 'a word) (8 * i + j)"
      by simp
    with j assms show "bit (p i) j = bit (q i) j"
      by (simp add: bit_le_load)
  qed
next
  assume "\<forall>i<n. p i = q i"
  then show "(le_load n p :: 'a word) = le_load n q"
    by (intro bit_word_eqI) (auto simp: bit_le_load less_mult_imp_div_less mult.commute)
qed

lemma le_load_le_bytes:
  assumes "LENGTH('a::len) = 8 * n" and "\<And>i. i < n \<Longrightarrow> p i = le_bytes n (w :: 'a word) ! i"
  shows "le_load n p = (w :: 'a word)"
proof (rule bit_word_eqI)
  fix k assume k: "k < LENGTH('a)"
  then have d: "k div 8 < n" using assms(1) by (simp add: less_mult_imp_div_less mult.commute)
  have m: "8 * (k div 8) + k mod 8 = k" by simp
  have "bit (p (k div 8)) (k mod 8) = bit w k"
    using d by (simp add: assms(2) bit_unsigned_iff bit_drop_bit_eq m)
  with k assms(1) show "bit (le_load n p :: 'a word) k = bit w k"
    by (simp add: bit_le_load)
qed

lemma le_bytes_le_load:
  assumes "LENGTH('a::len) = 8 * n"
  shows "le_bytes n (le_load n p :: 'a word) = bytes_at p 0 n"
proof (rule nth_equalityI)
  fix i assume "i < length (le_bytes n (le_load n p :: 'a word))"
  then have i: "i < n" by simp
  have "ucast (drop_bit (8 * i) (le_load n p :: 'a word)) = p i"
  proof (rule bit_word_eqI)
    fix j assume "j < LENGTH(8)"
    then show "bit (ucast (drop_bit (8 * i) (le_load n p :: 'a word)) :: byte) j = bit (p i) j"
      using i assms by (auto simp: bit_unsigned_iff bit_drop_bit_eq bit_le_load)
  qed
  with i show "le_bytes n (le_load n p :: 'a word) ! i = bytes_at p 0 n ! i" by simp
qed simp

lemma le_load_cong:
  "(\<And>i. i < n \<Longrightarrow> p i = q i) \<Longrightarrow> le_load n p = (le_load n q :: 'a::len word)"
proof (induction n arbitrary: p q)
  case (Suc n)
  have "le_load n (shift p 1) = (le_load n (shift q 1) :: 'a word)"
    by (rule Suc.IH) (simp add: Suc.prems)
  moreover have "p 0 = q 0" by (simp add: Suc.prems)
  ultimately show ?case by (simp only: le_load.simps)
qed simp

lemma le_load_blit_same:
  assumes "LENGTH('a::len) = 8 * n"
  shows "le_load n (shift (blit p off (le_bytes n (w :: 'a word))) off) = (w :: 'a word)"
  by (rule le_load_le_bytes [OF assms]) (simp add: blit_def)

lemma le_load_numeral [le_simps]:
  "le_load (numeral k) p = ucast (p 0) OR push_bit 8 (le_load (pred_numeral k) (shift p 1))"
  by (simp add: numeral_eq_Suc)

lemmas [le_simps] = le_load.simps(1)

section \<open>Arithmetic at a width\<close>

definition sub64 :: "nat \<Rightarrow> nat \<Rightarrow> nat" where
  \<comment> \<open>unsigned 64-bit subtraction of in-range operands, with its wrap-around\<close>
  "sub64 a b = (a + 2 ^ 64 - b) mod 2 ^ 64"

lemma sub64_ge: "b \<le> a \<Longrightarrow> a < 2 ^ 64 \<Longrightarrow> sub64 a b = a - b"
proof -
  assume h: "b \<le> a" "a < 2 ^ 64"
  then have "a + 2 ^ 64 - b = (a - b) + 2 ^ 64" and "a - b < 2 ^ 64" by simp_all
  then show ?thesis by (simp only: sub64_def mod_add_self2 mod_less)
qed

lemma sub64_lt: "a < b \<Longrightarrow> b < 2 ^ 64 \<Longrightarrow> sub64 a b = 2 ^ 64 - (b - a)"
  by (simp add: sub64_def)

definition c_int :: "u32 \<Rightarrow> int" where
  \<comment> \<open>the conversion \<^verbatim>\<open>(int)x\<close> of an unsigned 32-bit value\<close>
  "c_int w = sint w"

lemma nat_c_int: "unat w < 2 ^ 31 \<Longrightarrow> nat (c_int w) = unat w"
proof -
  assume "unat w < 2 ^ 31"
  then have "int (unat w) < int (2 ^ 31)" by (simp only: of_nat_less_iff)
  then have "uint w < 2 ^ 31" by simp
  moreover have "- (2 ^ 31) \<le> uint w" by (rule order_trans [of _ 0]) simp_all
  ultimately have "sint w = uint w"
    by (simp add: sint_uint signed_take_bit_int_eq_self)
  then show ?thesis by (simp add: c_int_def)
qed

lemma unat_add_of_nat: "unat a + n < 2 ^ 64 \<Longrightarrow> unat (a + of_nat n) = unat a + n"
  for a :: u64
  by (simp add: unat_word_ariths unat_of_nat)

lemma unat_ucast32: "unat (ucast (w :: u64) :: u32) = unat w mod 2 ^ 32"
  by (simp add: unsigned_ucast_eq unsigned_take_bit_eq take_bit_eq_mod)

lemma unat_diff: "b \<le> a \<Longrightarrow> unat (a - b) = unat a - unat b"
  for a :: u64
  by (simp add: unat_sub word_le_nat_alt)

lemma unat_ucast64: "unat (ucast (w :: u32) :: u64) = unat w"
proof -
  have "unat w < 2 ^ 64" using unsigned_less [of w, where ?'a = nat] by simp
  then show ?thesis by (simp add: unsigned_ucast_eq unsigned_take_bit_eq take_bit_nat_eq_self)
qed

lemma unat_of_nat64: "n < 2 ^ 64 \<Longrightarrow> unat (of_nat n :: u64) = n"
  by (simp add: unat_of_nat)

section \<open>Lists\<close>

lemma filter_upt_Suc_conv: "filter P [a..<Suc b] = (if a \<le> b then filter P [a..<b] @ (if P b then [b] else []) else [])"
  by simp

lemma all_from_iff:
  "i < n \<Longrightarrow> (\<forall>j. i \<le> j \<and> j < n \<longrightarrow> P j) \<longleftrightarrow> P i \<and> (\<forall>j. i + 1 \<le> j \<and> j < n \<longrightarrow> P j)"
  for i n :: nat
  by (auto simp: Suc_le_eq) (metis le_neq_implies_less)

lemma upt_split: "a \<le> b \<Longrightarrow> b \<le> c \<Longrightarrow> [a..<c] = [a..<b] @ [b..<c]"
  using upt_add_eq_append [of a b "c - b"] by simp

lemma upt_shift: "[a..<a + n] = map (\<lambda>j. a + j) [0..<n]"
  using map_add_upt [of a n] by (simp add: add.commute)

lemma filter_shift: "map (\<lambda>j. a + j) (filter (\<lambda>j. P (a + j)) [0..<n]) = filter P [a..<a + n]"
  unfolding upt_shift by (simp add: filter_map comp_def)

section \<open>Counting loops\<close>

text \<open>
  The loop \<^verbatim>\<open>for (; off + width <= len; off += step) body\<close> of the scanners, and the offsets
  it visits. A step of 0 would not terminate; the callers exclude it.
\<close>

function grid_loop :: "(nat \<Rightarrow> 's \<Rightarrow> 's) \<Rightarrow> nat \<Rightarrow> nat \<Rightarrow> nat \<Rightarrow> nat \<Rightarrow> 's \<Rightarrow> 's" where
  "grid_loop body step width len off s =
     (if 0 < step \<and> off + width \<le> len
      then grid_loop body step width len (off + step) (body off s) else s)"
  by pat_completeness auto
termination
  by (relation "measure (\<lambda>(_, _, _, len, off, _). len + 1 - off)") auto

declare grid_loop.simps [simp del]

definition grid :: "nat \<Rightarrow> nat \<Rightarrow> nat \<Rightarrow> nat \<Rightarrow> nat list" where
  "grid step width len off = filter (\<lambda>i. step dvd (i - off) \<and> i + width \<le> len) [off..<Suc len]"

lemma set_grid: "set (grid step width len off) = {i. off \<le> i \<and> step dvd (i - off) \<and> i + width \<le> len}"
  by (auto simp: grid_def)

lemma sorted_grid [simp]: "sorted (grid step width len off)"
  by (simp add: grid_def sorted_wrt_filter del: upt_Suc)

lemma distinct_grid [simp]: "distinct (grid step width len off)"
  by (simp add: grid_def del: upt_Suc)

lemma grid_Nil: "len < off + width \<Longrightarrow> grid step width len off = []"
  by (auto simp: grid_def filter_empty_conv)

lemma grid_Cons:
  assumes "0 < step" "off + width \<le> len"
  shows "grid step width len off = off # grid step width len (off + step)"
proof -
  have shift: "step dvd (i - off) \<longleftrightarrow> step dvd (i - (off + step))" if "off + step \<le> i" for i
    using that dvd_minus_self [of step "i - off"] by (auto simp: diff_diff_add)
  have mid: "\<not> step dvd (i - off)" if "off < i" "i < off + step" for i
    using that by (auto dest: dvd_imp_le)
  show ?thesis
  proof (cases "off + step \<le> len")
    case True
    then have "[off..<Suc len] = off # [Suc off..<off + step] @ [off + step..<Suc len]"
      using assms(1) upt_split [of "Suc off" "off + step" "Suc len"] by (simp add: upt_conv_Cons)
    moreover have "filter (\<lambda>i. step dvd (i - off) \<and> i + width \<le> len) [Suc off..<off + step] = []"
      using mid by (auto simp: filter_empty_conv)
    moreover have "filter (\<lambda>i. step dvd (i - off) \<and> i + width \<le> len) [off + step..<Suc len]
        = filter (\<lambda>i. step dvd (i - (off + step)) \<and> i + width \<le> len) [off + step..<Suc len]"
      using shift by (intro filter_cong) auto
    ultimately show ?thesis using assms(2) by (simp add: grid_def del: upt_Suc)
  next
    case False
    then have "filter (\<lambda>i. step dvd (i - off) \<and> i + width \<le> len) [Suc off..<Suc len] = []"
      using mid by (auto simp: filter_empty_conv simp del: upt_Suc)
    moreover have "grid step width len (off + step) = []"
      using False by (simp add: grid_def)
    ultimately show ?thesis
      using assms(2) by (simp add: grid_def upt_conv_Cons del: upt_Suc)
  qed
qed

lemma grid_loop_fold:
  "0 < step \<Longrightarrow> grid_loop body step width len off s = fold body (grid step width len off) s"
proof (induction body step width len off s rule: grid_loop.induct)
  case (1 body step width len off s)
  then show ?case
    by (subst grid_loop.simps) (auto simp: grid_Cons grid_Nil)
qed

lemma filter_grid_conv:
  assumes "0 < w" "w \<le> len"
  shows "filter P (grid step 0 (len - w) 0) = filter (\<lambda>off. step dvd off \<and> off + w \<le> len \<and> P off) [0..<len]"
proof -
  have "[0..<len] = [0..<Suc (len - w)] @ [Suc (len - w)..<len]"
    using assms by (intro upt_split) auto
  moreover have "filter (\<lambda>off. step dvd off \<and> off + w \<le> len \<and> P off) [Suc (len - w)..<len] = []"
    using assms by (auto simp: filter_empty_conv)
  ultimately have "filter (\<lambda>off. step dvd off \<and> off + w \<le> len \<and> P off) [0..<len]
      = filter (\<lambda>off. step dvd off \<and> off + w \<le> len \<and> P off) [0..<Suc (len - w)]"
    by (simp del: upt_Suc)
  also have "\<dots> = filter P (grid step 0 (len - w) 0)"
    unfolding grid_def filter_filter using assms by (intro filter_cong) auto
  finally show ?thesis by simp
qed

lemma ucast32_of_nat: "ucast (of_nat n :: u64) = (of_nat n :: u32)"
  by (rule bit_word_eqI) (simp add: bit_simps)

end
