(* ===== verification/SoftFloat.thy ===== *)
theory SoftFloat
  imports Prelude
begin

text \<open>
  IEEE 754 binary32 and binary64 arithmetic as the C sources use it (SSE, one rounding per
  operation, round to nearest even, no flush to zero). A bit pattern is decoded to a value;
  an operation computes the exact result as a fraction of naturals and rounds it once. NaN
  payloads are dropped, since the sources only ever compare the results.
\<close>

datatype fp = NaN | Inf bool | Fin bool nat int

text \<open>\<open>Fin s m e\<close> is the number \<open>m * 2 ^ e\<close>, negative if \<open>s\<close>. A format is its number of
  fraction bits and of exponent bits.\<close>

type_synonym fmt = "nat \<times> nat"

definition f32 :: fmt where "f32 = (23, 8)"
definition f64 :: fmt where "f64 = (52, 11)"

definition bias :: "fmt \<Rightarrow> int" where
  "bias F = 2 ^ (snd F - 1) - 1"

definition emin :: "fmt \<Rightarrow> int" where
  \<comment> \<open>weight of the last fraction bit of a subnormal number\<close>
  "emin F = 1 - bias F - int (fst F)"

definition emax :: "fmt \<Rightarrow> int" where
  "emax F = bias F - int (fst F)"

definition fdecode :: "fmt \<Rightarrow> nat \<Rightarrow> fp" where
  "fdecode F b =
     (let fb = fst F; eb = snd F; s = odd (b div 2 ^ (fb + eb));
          e = b div 2 ^ fb mod 2 ^ eb; f = b mod 2 ^ fb
      in if e = 2 ^ eb - 1 then (if f = 0 then Inf s else NaN)
         else if e = 0 then Fin s f (emin F)
         else Fin s (2 ^ fb + f) (int e - bias F - int fb))"

definition to_float :: "u32 \<Rightarrow> fp" where "to_float w = fdecode f32 (unat w)"
definition to_double :: "u64 \<Rightarrow> fp" where "to_double w = fdecode f64 (unat w)"

section \<open>Comparison\<close>

definition fscaled :: "int \<Rightarrow> bool \<Rightarrow> nat \<Rightarrow> int \<Rightarrow> int" where
  \<comment> \<open>the number in units of \<open>2 ^ k\<close>, for \<open>k\<close> at most its exponent\<close>
  "fscaled k s m e = (if s then - (int m * 2 ^ nat (e - k)) else int m * 2 ^ nat (e - k))"

fun feq :: "fp \<Rightarrow> fp \<Rightarrow> bool" where
  "feq (Fin s m e) (Fin s' m' e') = (fscaled (min e e') s m e = fscaled (min e e') s' m' e')"
| "feq (Inf s) (Inf s') = (s = s')"
| "feq _ _ = False"

fun flt :: "fp \<Rightarrow> fp \<Rightarrow> bool" where
  "flt (Fin s m e) (Fin s' m' e') = (fscaled (min e e') s m e < fscaled (min e e') s' m' e')"
| "flt (Inf s) (Inf s') = (s \<and> \<not> s')"
| "flt (Inf s) (Fin _ _ _) = s"
| "flt (Fin _ _ _) (Inf s) = (\<not> s)"
| "flt _ _ = False"

definition fle :: "fp \<Rightarrow> fp \<Rightarrow> bool" where
  "fle a b \<longleftrightarrow> flt a b \<or> feq a b"

section \<open>Arithmetic\<close>

fun blen :: "nat \<Rightarrow> nat" where
  "blen n = (if n = 0 then 0 else Suc (blen (n div 2)))"

declare blen.simps [simp del]

definition round_half_even :: "nat \<Rightarrow> nat \<Rightarrow> nat" where
  "round_half_even n d =
     (let m = n div d; r = n mod d in if 2 * r > d \<or> 2 * r = d \<and> odd m then m + 1 else m)"

definition pow2frac :: "int \<Rightarrow> nat \<Rightarrow> nat \<Rightarrow> nat \<times> nat" where
  \<comment> \<open>\<open>(n / d) / 2 ^ e\<close> as a fraction\<close>
  "pow2frac e n d = (if 0 \<le> e then (n, d * 2 ^ nat e) else (n * 2 ^ nat (- e), d))"

definition fround :: "fmt \<Rightarrow> bool \<Rightarrow> nat \<Rightarrow> nat \<Rightarrow> fp" where
  "fround F s n d =
     (if n = 0 then Fin s 0 (emin F)
      else let e0 = int (blen n) - int (blen d) - 1 - int (fst F);
               (n0, d0) = pow2frac e0 n d;
               e = max (emin F) (if n0 < d0 * 2 ^ (fst F + 1) then e0 else e0 + 1);
               (n1, d1) = pow2frac e n d;
               m = round_half_even n1 d1;
               (m, e) = (if m = 2 ^ (fst F + 1) then (2 ^ fst F, e + 1) else (m, e))
           in if e > emax F then Inf s else Fin s m e)"

definition fround_int :: "fmt \<Rightarrow> bool \<Rightarrow> int \<Rightarrow> int \<Rightarrow> fp" where
  \<comment> \<open>round \<open>v * 2 ^ k\<close>; \<open>s\<close> is the sign of an exact zero\<close>
  "fround_int F s v k =
     (let (n, d) = pow2frac (- k) (nat \<bar>v\<bar>) 1 in fround F (if v = 0 then s else v < 0) n d)"

fun fneg :: "fp \<Rightarrow> fp" where
  "fneg NaN = NaN"
| "fneg (Inf s) = Inf (\<not> s)"
| "fneg (Fin s m e) = Fin (\<not> s) m e"

fun fadd :: "fmt \<Rightarrow> fp \<Rightarrow> fp \<Rightarrow> fp" where
  "fadd F (Fin s m e) (Fin s' m' e') =
     (let k = min e e' in fround_int F (s \<and> s') (fscaled k s m e + fscaled k s' m' e') k)"
| "fadd F (Inf s) (Inf s') = (if s = s' then Inf s else NaN)"
| "fadd F (Inf s) (Fin _ _ _) = Inf s"
| "fadd F (Fin _ _ _) (Inf s) = Inf s"
| "fadd F _ _ = NaN"

definition fsub :: "fmt \<Rightarrow> fp \<Rightarrow> fp \<Rightarrow> fp" where
  "fsub F a b = fadd F a (fneg b)"

fun fmul :: "fmt \<Rightarrow> fp \<Rightarrow> fp \<Rightarrow> fp" where
  "fmul F (Fin s m e) (Fin s' m' e') =
     (let (n, d) = pow2frac (- (e + e')) (m * m') 1 in fround F (s \<noteq> s') n d)"
| "fmul F (Inf s) (Inf s') = Inf (s \<noteq> s')"
| "fmul F (Inf s) (Fin s' m _) = (if m = 0 then NaN else Inf (s \<noteq> s'))"
| "fmul F (Fin s' m _) (Inf s) = (if m = 0 then NaN else Inf (s \<noteq> s'))"
| "fmul F _ _ = NaN"

fun fdiv :: "fmt \<Rightarrow> fp \<Rightarrow> fp \<Rightarrow> fp" where
  "fdiv F (Fin s m e) (Fin s' m' e') =
     (if m' = 0 then (if m = 0 then NaN else Inf (s \<noteq> s'))
      else let (n, d) = pow2frac (e' - e) m m' in fround F (s \<noteq> s') n d)"
| "fdiv F (Inf s) (Fin s' _ _) = Inf (s \<noteq> s')"
| "fdiv F (Fin s _ _) (Inf s') = Fin (s \<noteq> s') 0 (emin F)"
| "fdiv F _ _ = NaN"

fun fconv :: "fmt \<Rightarrow> fp \<Rightarrow> fp" where
  \<comment> \<open>conversion to another format (exact when widening)\<close>
  "fconv F (Fin s m e) = (let (n, d) = pow2frac (- e) m 1 in fround F s n d)"
| "fconv F a = a"

definition fzero :: fp where "fzero = Fin False 0 0"
definition fone :: fp where "fone = Fin False 1 0"

section \<open>Laws\<close>

lemma feq_sym: "feq a b = feq b a"
  by (cases "(a, b)" rule: feq.cases) (auto simp: min.commute)

lemma fneg_fneg [simp]: "fneg (fneg a) = a"
  by (cases a) auto

lemma fadd_commute: "fadd F a b = fadd F b a"
  by (cases "(F, a, b)" rule: fadd.cases) (auto simp: Let_def min.commute add.commute conj_commute)

lemma fscaled_neg: "fscaled k (\<not> s) m e = - fscaled k s m e"
  by (simp add: fscaled_def)

lemma fround_neg: "fround F (\<not> s) n d = fneg (fround F s n d)"
  by (simp add: fround_def Let_def split_beta)

text \<open>Negating both operands of a sum negates the sum, up to the sign of an exact zero.\<close>

definition fsame :: "fp \<Rightarrow> fp \<Rightarrow> bool" where
  \<comment> \<open>equal but for the sign of a zero\<close>
  "fsame a b \<longleftrightarrow> a = b \<or> (\<exists>e. a = Fin False 0 e \<and> b = Fin True 0 e) \<or> (\<exists>e. a = Fin True 0 e \<and> b = Fin False 0 e)"

lemma fsame_refl [simp]: "fsame a a"
  by (simp add: fsame_def)

lemma fround_int_neg: "fsame (fround_int F s (- v) k) (fneg (fround_int F t v k))"
proof (cases "v = 0")
  case True
  then show ?thesis
    by (cases s; cases t) (auto simp: fround_int_def pow2frac_def fround_def fsame_def)
next
  case False
  then have "fround_int F s (- v) k = fneg (fround_int F t v k)"
    using fround_neg [of F "v < 0"] by (cases "v < 0") (auto simp: fround_int_def split_beta fround_neg)
  then show ?thesis by simp
qed

lemma fadd_neg: "fsame (fadd F (fneg a) (fneg b)) (fneg (fadd F a b))"
proof (cases "(F, a, b)" rule: fadd.cases)
  case (1 F' s m e s' m' e')
  define k where "k = min e e'"
  have "fscaled k (\<not> s) m e + fscaled k (\<not> s') m' e' = - (fscaled k s m e + fscaled k s' m' e')"
    by (simp add: fscaled_neg)
  with 1 show ?thesis
    using fround_int_neg by (simp add: k_def [symmetric] Let_def del: minus_add_distrib)
qed auto

lemma fsub_antisym: "fsame (fsub F b a) (fneg (fsub F a b))"
  using fadd_neg [of F a "fneg b"] by (simp add: fsub_def fadd_commute)

end
