(* ===== verification/ScanCompare.thy ===== *)
theory ScanCompare
  imports SoftFloat
begin

text \<open>
  The value comparators: \<^verbatim>\<open>debugger/source/scan_compare.c\<close> and
  \<^verbatim>\<open>debugger/source/scan_compare_simd.c\<close>. Value types 0 to 9 are the unsigned and signed
  integers of 1, 2, 4 and 8 bytes, float and double; 10 is a masked byte pattern.
  Arithmetic of the \<^verbatim>\<open>_BY\<close> macros is done at the width of the type, wrapping (for the signed
  types of 4 and 8 bytes that is what the compiled code does on overflow).
\<close>

section \<open>Typed loads\<close>

definition proc_scan_getSizeOfValueType :: "byte \<Rightarrow> nat" where
  "proc_scan_getSizeOfValueType valType =
     (if valType > 9 then 0 else [1, 1, 2, 2, 4, 4, 8, 8, 4, 8] ! unat valType)"

abbreviation ldf :: "ptr \<Rightarrow> fp" where "ldf p \<equiv> to_float (ld32 p)"
abbreviation ldd :: "ptr \<Rightarrow> fp" where "ldd p \<equiv> to_double (ld64 p)"

datatype relop = GT | LT | NE | EQ

definition rel_int :: "relop \<Rightarrow> int \<Rightarrow> int \<Rightarrow> bool" where
  "rel_int op a b = (case op of GT \<Rightarrow> a > b | LT \<Rightarrow> a < b | NE \<Rightarrow> a \<noteq> b | EQ \<Rightarrow> a = b)"

definition rel_fp :: "relop \<Rightarrow> fp \<Rightarrow> fp \<Rightarrow> bool" where
  "rel_fp op a b = (case op of GT \<Rightarrow> flt b a | LT \<Rightarrow> flt a b | NE \<Rightarrow> \<not> feq a b | EQ \<Rightarrow> feq a b)"

definition ld_int :: "byte \<Rightarrow> ptr \<Rightarrow> int" where
  \<comment> \<open>the integer value of type \<open>valType\<close> (0 to 7) at \<open>p\<close>\<close>
  "ld_int valType p =
     (if valType = 0 then uint (ld8 p) else if valType = 1 then sint (ld8 p)
      else if valType = 2 then uint (ld16 p) else if valType = 3 then sint (ld16 p)
      else if valType = 4 then uint (ld32 p) else if valType = 5 then sint (ld32 p)
      else if valType = 6 then uint (ld64 p) else sint (ld64 p))"

definition PER_VALTYPE_BIN :: "byte \<Rightarrow> relop \<Rightarrow> ptr \<Rightarrow> ptr \<Rightarrow> bool" where
  "PER_VALTYPE_BIN valType op lhs rhs =
     (if valType \<le> 7 then rel_int op (ld_int valType lhs) (ld_int valType rhs)
      else if valType = 8 then rel_fp op (ldf lhs) (ldf rhs)
      else if valType = 9 then rel_fp op (ldd lhs) (ldd rhs)
      else False)"

datatype addop = Plus | Minus

definition bin_word :: "addop \<Rightarrow> 'a::len word \<Rightarrow> 'a word \<Rightarrow> 'a word" where
  "bin_word op a b = (case op of Plus \<Rightarrow> a + b | Minus \<Rightarrow> a - b)"

definition bin_fp :: "addop \<Rightarrow> fmt \<Rightarrow> fp \<Rightarrow> fp \<Rightarrow> fp" where
  "bin_fp op F a b = (case op of Plus \<Rightarrow> fadd F a b | Minus \<Rightarrow> fsub F a b)"

definition PER_VALTYPE_BY :: "byte \<Rightarrow> addop \<Rightarrow> ptr \<Rightarrow> ptr \<Rightarrow> ptr \<Rightarrow> bool" where
  "PER_VALTYPE_BY valType op mem base delta =
     (if valType = 0 \<or> valType = 1 then ld8 mem = bin_word op (ld8 base) (ld8 delta)
      else if valType = 2 \<or> valType = 3 then ld16 mem = bin_word op (ld16 base) (ld16 delta)
      else if valType = 4 \<or> valType = 5 then ld32 mem = bin_word op (ld32 base) (ld32 delta)
      else if valType = 6 \<or> valType = 7 then ld64 mem = bin_word op (ld64 base) (ld64 delta)
      else if valType = 8 then feq (ldf mem) (bin_fp op f32 (ldf base) (ldf delta))
      else if valType = 9 then feq (ldd mem) (bin_fp op f64 (ldd base) (fconv f64 (ldf delta)))
      else False)"

section \<open>The fuzzy floating-point comparison\<close>

definition fabs_c :: "fp \<Rightarrow> fp" where
  \<comment> \<open>the conditional \<^verbatim>\<open>x < 0 ? -x : x\<close>\<close>
  "fabs_c x = (if flt x fzero then fneg x else x)"

definition DBL_MIN :: fp where "DBL_MIN = to_double 0x0010000000000000"
definition FLT_MIN :: fp where "FLT_MIN = to_float 0x00800000"

definition fuzzy_double_compare :: "fp \<Rightarrow> fp \<Rightarrow> fp \<Rightarrow> bool" where
  "fuzzy_double_compare scanV memV tolerance =
     (if feq scanV memV then True
      else let diff = fabs_c (fsub f64 scanV memV);
               abs_scan = fabs_c scanV; abs_mem = fabs_c memV
           in if feq scanV fzero \<or> feq memV fzero then flt diff (fmul f64 DBL_MIN tolerance)
              else let sum = fadd f64 abs_scan abs_mem
                   in if flt sum DBL_MIN then flt diff (fmul f64 DBL_MIN tolerance)
                      else flt (fdiv f64 diff sum) tolerance)"

definition fuzzy_float_compare :: "fp \<Rightarrow> fp \<Rightarrow> fp \<Rightarrow> bool" where
  "fuzzy_float_compare scanV memV tolerance =
     (if feq scanV memV then True
      else let diff_d = fabs_c (fconv f64 (fsub f32 scanV memV));
               diff = fconv f32 diff_d;
               abs_scan = fabs_c scanV; abs_mem = fabs_c memV
           in if feq scanV fzero \<or> feq memV fzero then flt diff (fmul f32 FLT_MIN tolerance)
              else let sum = fadd f32 abs_scan abs_mem
                   in if flt sum FLT_MIN then flt diff (fmul f32 FLT_MIN tolerance)
                      else flt (fdiv f32 diff sum) tolerance)"

section \<open>Byte patterns\<close>

text \<open>The loop of \<^verbatim>\<open>aob_match\<close> from index \<open>i\<close> on.\<close>

function aob_loop :: "nat \<Rightarrow> nat \<Rightarrow> ptr \<Rightarrow> ptr \<Rightarrow> ptr \<Rightarrow> bool" where
  "aob_loop i n pattern memory msk =
     (if i < n
      then if memory i \<noteq> pattern i \<and> msk i = 1 then False
           else aob_loop (i + 1) n pattern memory msk
      else True)"
  by pat_completeness auto
termination
  by (relation "measure (\<lambda>(i, n, _). n - i)") auto

declare aob_loop.simps [simp del]

definition aob_match :: "nat \<Rightarrow> ptr \<Rightarrow> ptr \<Rightarrow> ptr \<Rightarrow> bool" where
  "aob_match pattern_length pattern memory msk =
     (if pattern_length = 0 then True else aob_loop 0 pattern_length pattern memory msk)"

text \<open>The plain byte loops of the exact comparisons.\<close>

function bytes_eq_loop :: "nat \<Rightarrow> nat \<Rightarrow> ptr \<Rightarrow> ptr \<Rightarrow> bool" where
  "bytes_eq_loop j n a b =
     (if j < n then if a j \<noteq> b j then False else bytes_eq_loop (j + 1) n a b else True)"
  by pat_completeness auto
termination
  by (relation "measure (\<lambda>(j, n, _). n - j)") auto

declare bytes_eq_loop.simps [simp del]

section \<open>The comparators\<close>

definition near_one :: "fmt \<Rightarrow> fp \<Rightarrow> fp \<Rightarrow> bool" where
  \<comment> \<open>comparison 1: the difference lies strictly between -1 and 1\<close>
  "near_one F a b = (let diff = fsub F a b in flt diff fone \<and> flt (fneg fone) diff)"

definition BETWEEN_LEGACY :: "byte \<Rightarrow> ptr \<Rightarrow> ptr \<Rightarrow> ptr \<Rightarrow> bool" where
  "BETWEEN_LEGACY valType mem scan extra =
     (if valType \<le> 7 then
        let mv = ld_int valType mem; sv = ld_int valType scan; ev = ld_int valType extra
        in if ev > sv then mv > sv \<and> mv < ev else mv < sv \<and> mv > ev
      else if valType \<le> 9 then
        let ld = (if valType = 8 then (\<lambda>p. ldf p) else (\<lambda>p. ldd p));
            mv = ld mem; sv = ld scan; ev = ld extra
        in if flt sv ev then flt sv mv \<and> flt mv ev else flt mv sv \<and> flt ev mv
      else False)"

definition BETWEEN_ASYNC :: "byte \<Rightarrow> ptr \<Rightarrow> ptr \<Rightarrow> ptr \<Rightarrow> bool" where
  "BETWEEN_ASYNC valType mem scan prev =
     (if valType \<le> 7 then
        let mv = ld_int valType mem; sv = ld_int valType scan; ev = ld_int valType prev
        in if ev > sv then mv \<ge> sv \<and> mv \<le> ev else mv \<le> sv \<and> mv \<ge> ev
      else if valType \<le> 9 then
        let ld = (if valType = 8 then (\<lambda>p. ldf p) else (\<lambda>p. ldd p));
            mv = ld mem; sv = ld scan; ev = ld prev
        in if flt sv ev then fle sv mv \<and> fle mv ev else fle mv sv \<and> fle ev mv
      else False)"

definition proc_scan_legacy_compareValues ::
    "byte \<Rightarrow> byte \<Rightarrow> nat \<Rightarrow> ptr \<Rightarrow> ptr \<Rightarrow> ptr option \<Rightarrow> bool" where
  "proc_scan_legacy_compareValues cmpType valType valueLength pScan pMem extraValue =
     (if 4 \<le> cmpType \<and> cmpType \<le> 10 \<and> extraValue = None then False
      else let pExtra = (case extraValue of Some p \<Rightarrow> p | None \<Rightarrow> (\<lambda>_. 0)) in
        if cmpType = 0 then
          (if valueLength \<le> 1 then False else bytes_eq_loop 0 (valueLength - 1) pScan pMem)
        else if cmpType = 1 then
          (if valType = 8 then near_one f32 (ldf pScan) (ldf pMem)
           else if valType = 9 then near_one f64 (ldd pScan) (ldd pMem)
           else False)
        else if cmpType = 2 then PER_VALTYPE_BIN valType GT pMem pScan
        else if cmpType = 3 then PER_VALTYPE_BIN valType LT pMem pScan
        else if cmpType = 4 then BETWEEN_LEGACY valType pMem pScan pExtra
        else if cmpType = 5 then PER_VALTYPE_BIN valType GT pMem pExtra
        else if cmpType = 6 then PER_VALTYPE_BY valType Plus pMem pExtra pScan
        else if cmpType = 7 then PER_VALTYPE_BIN valType LT pMem pExtra
        else if cmpType = 8 then PER_VALTYPE_BY valType Minus pMem pExtra pScan
        else if cmpType = 9 then PER_VALTYPE_BIN valType NE pMem pExtra
        else if cmpType = 10 then PER_VALTYPE_BIN valType EQ pMem pExtra
        else if cmpType = 11 \<or> cmpType = 12 then True
        else False)"

definition exact_compare :: "byte \<Rightarrow> nat \<Rightarrow> ptr \<Rightarrow> ptr \<Rightarrow> ptr option \<Rightarrow> bool" where
  \<comment> \<open>case 0 of \<^verbatim>\<open>proc_scan_compareValues\<close>\<close>
  "exact_compare valType valueLength pScan pMem msk =
     (if valType = 10 then
        (if valueLength = 0 then True
         else case msk of None \<Rightarrow> True
              | Some pMask \<Rightarrow> aob_loop 0 valueLength pScan pMem pMask)
      else if valType = 8 then
        (if ld32 pScan = 0 then ld32 pMem = 0
         else fuzzy_float_compare (ldf pScan) (ldf pMem) (to_float 0x358637BD))
      else if valType = 9 then
        (if ld64 pScan = 0 then ld64 pMem = 0
         else fuzzy_double_compare (ldd pScan) (ldd pMem) (to_double 0x3EB0C6F7A0B5ED8D))
      else if valueLength = 0 then True
      else bytes_eq_loop 0 valueLength pScan pMem)"

definition unknown_initial :: "byte \<Rightarrow> ptr \<Rightarrow> bool" where
  \<comment> \<open>case 11: the value is not zero\<close>
  "unknown_initial valType pMem =
     (if valType = 0 \<or> valType = 1 then ld8 pMem \<noteq> 0
      else if valType = 2 \<or> valType = 3 then ld16 pMem \<noteq> 0
      else if valType = 4 \<or> valType = 5 then ld32 pMem \<noteq> 0
      else if valType = 6 \<or> valType = 7 then ld64 pMem \<noteq> 0
      else if valType = 8 then \<not> feq (ldf pMem) fzero
      else if valType = 9 then \<not> feq (ldd pMem) fzero
      else False)"

definition unknown_initial_low :: "byte \<Rightarrow> ptr \<Rightarrow> ptr \<Rightarrow> bool" where
  \<comment> \<open>case 12: not zero and at most the given bound; the signed types compare sign-extended
     values as unsigned 64-bit numbers\<close>
  "unknown_initial_low valType pMem pScan =
     (if valType = 0 then ld8 pMem \<noteq> 0 \<and> ld8 pMem \<le> ld8 pScan
      else if valType = 1 then ld8 pMem \<noteq> 0 \<and> (scast (ld8 pMem) :: u64) \<le> scast (ld8 pScan)
      else if valType = 2 then ld16 pMem \<noteq> 0 \<and> ld16 pMem \<le> ld16 pScan
      else if valType = 3 then ld16 pMem \<noteq> 0 \<and> (scast (ld16 pMem) :: u64) \<le> scast (ld16 pScan)
      else if valType = 4 then ld32 pMem \<noteq> 0 \<and> ld32 pMem \<le> ld32 pScan
      else if valType = 5 then ld32 pMem \<noteq> 0 \<and> (scast (ld32 pMem) :: u64) \<le> scast (ld32 pScan)
      else if valType = 6 \<or> valType = 7 then ld64 pMem \<noteq> 0 \<and> ld64 pMem \<le> ld64 pScan
      else if valType = 8 then
        (let mv = ldf pMem in if feq mv fzero then False
         else fle (fconv f64 (fabs_c mv)) (fconv f64 (ldf pScan)))
      else if valType = 9 then
        (let mv = ldd pMem in if feq mv fzero then False else fle (fabs_c mv) (ldd pScan))
      else False)"

definition proc_scan_compareValues ::
    "byte \<Rightarrow> byte \<Rightarrow> nat \<Rightarrow> ptr \<Rightarrow> ptr \<Rightarrow> ptr option \<Rightarrow> ptr option \<Rightarrow> bool" where
  "proc_scan_compareValues cmpType valType valueLength pScan pMem prevValue msk =
     (if 4 \<le> cmpType \<and> cmpType \<le> 10 \<and> prevValue = None then False
      else let pPrev = (case prevValue of Some p \<Rightarrow> p | None \<Rightarrow> (\<lambda>_. 0)) in
        if cmpType = 0 then exact_compare valType valueLength pScan pMem msk
        else if cmpType = 1 then
          (if valType = 8 then near_one f32 (ldf pScan) (ldf pMem)
           else if valType = 9 then near_one f64 (ldd pScan) (ldd pMem)
           else False)
        else if cmpType = 2 then PER_VALTYPE_BIN valType GT pMem pScan
        else if cmpType = 3 then PER_VALTYPE_BIN valType LT pMem pScan
        else if cmpType = 4 then BETWEEN_ASYNC valType pMem pScan pPrev
        else if cmpType = 5 then PER_VALTYPE_BIN valType GT pMem pPrev
        else if cmpType = 6 then PER_VALTYPE_BY valType Plus pMem pPrev pScan
        else if cmpType = 7 then PER_VALTYPE_BIN valType LT pMem pPrev
        else if cmpType = 8 then PER_VALTYPE_BY valType Minus pMem pPrev pScan
        else if cmpType = 9 then PER_VALTYPE_BIN valType NE pMem pPrev
        else if cmpType = 10 then PER_VALTYPE_BIN valType EQ pMem pPrev
        else if cmpType = 11 then unknown_initial valType pMem
        else if cmpType = 12 then unknown_initial_low valType pMem pScan
        else False)"

definition g_cmptype_needs_value :: "byte list" where
  "g_cmptype_needs_value = [1,1,1,1,1,0,1,0,1,0,0,0,1,0,0,0]"
definition g_cmptype_needs_extra :: "byte list" where
  "g_cmptype_needs_extra = [0,0,0,0,1,0,0,0,0,0,0,0,0,0,0,0]"
definition g_cmptype_needs_previous :: "byte list" where
  "g_cmptype_needs_previous = [0,0,0,0,0,1,1,1,1,1,1,0,0,0,0,0]"

section \<open>Lemmas\<close>

lemma aob_loop_iff: "aob_loop i n pat mem msk \<longleftrightarrow> (\<forall>j. i \<le> j \<and> j < n \<and> msk j = 1 \<longrightarrow> mem j = pat j)"
proof (induction i n pat mem msk rule: aob_loop.induct)
  case (1 i n pat mem msk)
  show ?case
  proof (cases "i < n")
    case True
    then show ?thesis
      using 1 all_from_iff [OF True, of "\<lambda>j. msk j = 1 \<longrightarrow> mem j = pat j"]
      by (subst aob_loop.simps) auto
  qed (auto simp: aob_loop.simps)
qed

lemma bytes_eq_loop_iff: "bytes_eq_loop j n a b \<longleftrightarrow> (\<forall>i. j \<le> i \<and> i < n \<longrightarrow> a i = b i)"
proof (induction j n a b rule: bytes_eq_loop.induct)
  case (1 j n a b)
  show ?case
  proof (cases "j < n")
    case True
    then show ?thesis
      using 1 all_from_iff [OF True, of "\<lambda>i. a i = b i"]
      by (subst bytes_eq_loop.simps) auto
  qed (auto simp: bytes_eq_loop.simps)
qed

lemma byte_cases_le7:
  "(x :: byte) \<le> 7 \<Longrightarrow> x = 0 \<or> x = 1 \<or> x = 2 \<or> x = 3 \<or> x = 4 \<or> x = 5 \<or> x = 6 \<or> x = 7"
  by (simp add: word_le_nat_alt word_unat_eq_iff) arith

lemma byte_cases_le9: "(x :: byte) \<le> 9 \<Longrightarrow> x \<le> 7 \<or> x = 8 \<or> x = 9"
  by (simp add: word_le_nat_alt word_unat_eq_iff) arith

lemma ld_int_eq_iff:
  assumes "vt \<le> 7"
  shows "ld_int vt p = ld_int vt q \<longleftrightarrow> (\<forall>i<proc_scan_getSizeOfValueType vt. p i = q i)"
  using byte_cases_le7 [OF assms]
  by (elim disjE) (simp_all add: ld_int_def proc_scan_getSizeOfValueType_def
      le_load_eq_iff flip: word_eq_iff_unsigned word_eq_iff_signed)

lemma size_bounds:
  "vt \<le> 9 \<Longrightarrow> 0 < proc_scan_getSizeOfValueType vt \<and> proc_scan_getSizeOfValueType vt \<le> 8"
  using byte_cases_le9 [of vt] byte_cases_le7 [of vt]
  by (auto simp: proc_scan_getSizeOfValueType_def)

lemma ld_int_cong: "vt \<le> 7 \<Longrightarrow> (\<And>i. i < proc_scan_getSizeOfValueType vt \<Longrightarrow> p i = q i) \<Longrightarrow> ld_int vt p = ld_int vt q"
  by (simp add: ld_int_eq_iff)

lemma ldf_cong: "(\<And>i. i < 4 \<Longrightarrow> p i = q i) \<Longrightarrow> ldf p = ldf q"
  by (rule arg_cong [where f = to_float], rule le_load_cong)

lemma ldd_cong: "(\<And>i. i < 8 \<Longrightarrow> p i = q i) \<Longrightarrow> ldd p = ldd q"
  by (rule arg_cong [where f = to_double], rule le_load_cong)

text \<open>
  A comparison looks at the first \<open>valueLength\<close> bytes of memory only, provided the length is
  the one of the value type: the scanners never judge a value by bytes behind it.
\<close>

lemma byte_le7_le9: "(vt :: byte) \<le> 7 \<Longrightarrow> vt \<le> 9"
  by (simp add: word_le_nat_alt)

lemma typed_loads_cong:
  assumes "vt \<le> 9" "\<forall>i<proc_scan_getSizeOfValueType vt. p i = q i"
  shows "vt \<le> 7 \<Longrightarrow> ld_int vt p = ld_int vt q" "vt = 8 \<Longrightarrow> ldf p = ldf q" "vt = 9 \<Longrightarrow> ldd p = ldd q"
    "vt = 0 \<or> vt = 1 \<Longrightarrow> ld8 p = ld8 q" "vt = 2 \<or> vt = 3 \<Longrightarrow> ld16 p = ld16 q"
    "vt = 4 \<or> vt = 5 \<or> vt = 8 \<Longrightarrow> ld32 p = ld32 q" "vt = 6 \<or> vt = 7 \<or> vt = 9 \<Longrightarrow> ld64 p = ld64 q"
  using assms(2) by (auto simp: proc_scan_getSizeOfValueType_def intro!: ld_int_cong ldf_cong ldd_cong le_load_cong)

definition agree :: "byte \<Rightarrow> nat \<Rightarrow> ptr \<Rightarrow> ptr \<Rightarrow> bool" where
  \<comment> \<open>the same first \<open>n\<close> bytes, where \<open>n\<close> is at least the size of the value type\<close>
  "agree vt n p q \<longleftrightarrow> (\<forall>i<n. p i = q i) \<and> (vt \<le> 9 \<longrightarrow> proc_scan_getSizeOfValueType vt \<le> n)"

lemma agree_refl: "(vt \<le> 9 \<Longrightarrow> proc_scan_getSizeOfValueType vt \<le> n) \<Longrightarrow> agree vt n p p"
  by (simp add: agree_def)

lemma agree_loads:
  assumes "agree vt n p q"
  shows "vt \<le> 7 \<Longrightarrow> ld_int vt p = ld_int vt q" "vt = 8 \<Longrightarrow> ldf p = ldf q" "vt = 9 \<Longrightarrow> ldd p = ldd q"
    "vt = 0 \<or> vt = 1 \<Longrightarrow> ld8 p = ld8 q" "vt = 2 \<or> vt = 3 \<Longrightarrow> ld16 p = ld16 q"
    "vt = 4 \<or> vt = 5 \<or> vt = 8 \<or> vt = 9 \<Longrightarrow> ld32 p = ld32 q" "vt = 6 \<or> vt = 7 \<or> vt = 9 \<Longrightarrow> ld64 p = ld64 q"
proof -
  have eq: "\<forall>i<proc_scan_getSizeOfValueType vt. p i = q i" if "vt \<le> 9"
    using assms that by (auto simp: agree_def)
  note c = typed_loads_cong [OF _ eq]
  show "vt \<le> 7 \<Longrightarrow> ld_int vt p = ld_int vt q" using c(1) byte_le7_le9 by blast
  show "vt = 8 \<Longrightarrow> ldf p = ldf q" "vt = 9 \<Longrightarrow> ldd p = ldd q"
    "vt = 0 \<or> vt = 1 \<Longrightarrow> ld8 p = ld8 q" "vt = 2 \<or> vt = 3 \<Longrightarrow> ld16 p = ld16 q"
    "vt = 6 \<or> vt = 7 \<or> vt = 9 \<Longrightarrow> ld64 p = ld64 q"
    using c by auto
  show "vt = 4 \<or> vt = 5 \<or> vt = 8 \<or> vt = 9 \<Longrightarrow> ld32 p = ld32 q"
    using eq by (auto simp: proc_scan_getSizeOfValueType_def intro!: le_load_cong)
qed

lemma typed_cong:
  assumes "agree vt n p p'" "agree vt n x x'" "agree vt n y y'"
  shows "PER_VALTYPE_BIN vt op p x = PER_VALTYPE_BIN vt op p' x'"
    and "PER_VALTYPE_BY vt aop p x y = PER_VALTYPE_BY vt aop p' x' y'"
    and "BETWEEN_ASYNC vt p x y = BETWEEN_ASYNC vt p' x' y'"
    and "unknown_initial vt p = unknown_initial vt p'"
    and "unknown_initial_low vt p x = unknown_initial_low vt p' x'"
proof -
  note c = agree_loads [OF assms(1)] agree_loads [OF assms(2)] agree_loads [OF assms(3)]
  show "PER_VALTYPE_BIN vt op p x = PER_VALTYPE_BIN vt op p' x'" using c by (simp add: PER_VALTYPE_BIN_def)
  show "PER_VALTYPE_BY vt aop p x y = PER_VALTYPE_BY vt aop p' x' y'" using c by (simp add: PER_VALTYPE_BY_def)
  show "BETWEEN_ASYNC vt p x y = BETWEEN_ASYNC vt p' x' y'"
    using c byte_cases_le9 [of vt] by (auto simp: BETWEEN_ASYNC_def)
  show "unknown_initial vt p = unknown_initial vt p'" using c by (simp add: unknown_initial_def)
  show "unknown_initial_low vt p x = unknown_initial_low vt p' x'" using c by (simp add: unknown_initial_low_def)
qed

lemma exact_compare_cong:
  assumes "agree vt n p p'" "agree vt n x x'" "rel_option (agree vt n) mk mk'"
  shows "exact_compare vt n x p mk = exact_compare vt n x' p' mk'"
proof -
  note c = agree_loads [OF assms(1)] agree_loads [OF assms(2)]
  have e: "\<forall>i<n. p i = p' i" "\<forall>i<n. x i = x' i" using assms(1,2) by (auto simp: agree_def)
  have "aob_loop 0 n x p m = aob_loop 0 n x' p' m'" if "agree vt n m m'" for m m'
    using e that by (auto simp: aob_loop_iff agree_def)
  moreover have "bytes_eq_loop 0 n x p = bytes_eq_loop 0 n x' p'" using e by (auto simp: bytes_eq_loop_iff)
  ultimately show ?thesis
    using c assms(3) by (auto simp: exact_compare_def split: option.splits)
qed

lemma compareValues_cong:
  assumes "agree vt n p p'" "agree vt n x x'" "rel_option (agree vt n) y y'" "rel_option (agree vt n) mk mk'"
  shows "proc_scan_compareValues ct vt n x p y mk = proc_scan_compareValues ct vt n x' p' y' mk'"
proof -
  note c = agree_loads [OF assms(1)] agree_loads [OF assms(2)]
  have "agree vt n (case y of Some p \<Rightarrow> p | None \<Rightarrow> (\<lambda>_. 0)) (case y' of Some p \<Rightarrow> p | None \<Rightarrow> (\<lambda>_. 0))"
    using assms(1,3) by (auto simp: agree_def split: option.splits)
  note t = typed_cong [OF assms(1,2) this] typed_cong [OF assms(1) this assms(2)]
  have "y = None \<longleftrightarrow> y' = None" using assms(3) by (auto simp: option.rel_distinct split: option.splits)
  then show ?thesis
    using c t exact_compare_cong [OF assms(1,2,4)]
    by (simp add: proc_scan_compareValues_def Let_def)
qed

section \<open>Properties\<close>

text \<open>
  \<^verbatim>\<open>aob_match\<close> decides masked equality: the pattern matches exactly when every position
  whose mask byte is 1 agrees; positions with any other mask byte are wildcards.
\<close>

lemma aob_match_iff:
  "aob_match n pattern memory msk \<longleftrightarrow> (\<forall>i<n. msk i = 1 \<longrightarrow> memory i = pattern i)"
  by (auto simp: aob_match_def aob_loop_iff)

text \<open>
  The "between" comparison on the integer types is the closed interval spanned by the two
  bounds, in whichever order the client sends them.
\<close>

theorem between_interval:
  assumes "valType \<le> 7"
  shows "proc_scan_compareValues 4 valType n scan mem (Some extra) msk \<longleftrightarrow>
    ld_int valType mem \<in> {min (ld_int valType scan) (ld_int valType extra)
                          .. max (ld_int valType scan) (ld_int valType extra)}"
  using assms by (auto simp: proc_scan_compareValues_def BETWEEN_ASYNC_def Let_def)

theorem between_interval_witness:
  "(1 :: byte) \<le> 7 \<and>
   (proc_scan_compareValues 4 1 1 (of_list [5]) (of_list [0xFF]) (Some (of_list [0xFE])) None \<longleftrightarrow>
    ld_int 1 (of_list [0xFF]) \<in> {min (ld_int 1 (of_list [5])) (ld_int 1 (of_list [0xFE]))
                          .. max (ld_int 1 (of_list [5])) (ld_int 1 (of_list [0xFE]))})"
  using between_interval [of 1 1 "of_list [5]" "of_list [0xFF]" "of_list [0xFE]" None] by simp

end
