(* ===== verification/ScanSimd.thy ===== *)
theory ScanSimd
  imports ScanCompare
begin

text \<open>
  \<^verbatim>\<open>debugger/source/scan_compare_simd.c\<close>: the exact-value search of the turbo scanner, with
  its AVX2 path for aligned 32-bit values, and the point comparison of the rescan. A search
  returns the number of hits and the offsets it stored, the first \<^verbatim>\<open>max\<close> of them.
\<close>

definition elem_size :: "byte \<Rightarrow> nat" where
  "elem_size vt =
     (if vt = 0 \<or> vt = 1 then 1 else if vt = 2 \<or> vt = 3 then 2
      else if vt = 4 \<or> vt = 5 \<or> vt = 8 then 4 else if vt = 6 \<or> vt = 7 \<or> vt = 9 then 8 else 0)"

definition put :: "nat \<Rightarrow> nat \<Rightarrow> nat \<times> u32 list \<Rightarrow> nat \<times> u32 list" where
  \<comment> \<open>\<^verbatim>\<open>if (cnt < max) out[cnt] = off; cnt++\<close>\<close>
  "put mx off = (\<lambda>(cnt, out). (cnt + 1, if cnt < mx then out @ [of_nat off] else out))"

text \<open>
  The vector code: eight 32-bit lanes are compared at once, \<^verbatim>\<open>movemask\<close> gathers one bit per
  lane and the set bits are emitted in order.
\<close>

definition movemask_ps :: "bool list \<Rightarrow> u32" where
  "movemask_ps lanes = horner_sum of_bool 2 lanes"

function avx_loop :: "ptr \<Rightarrow> nat \<Rightarrow> u32 \<Rightarrow> nat \<Rightarrow> nat \<Rightarrow> nat \<times> u32 list \<Rightarrow> nat \<times> nat \<times> u32 list" where
  "avx_loop buf n target mx i st =
     (if i + 8 \<le> n then
        let eq = map (\<lambda>b. ld32 (shift buf (4 * (i + b))) = target) [0..<8];
            msk = movemask_ps eq;
            st = (if msk \<noteq> 0
                  then fold (\<lambda>b st. if msk AND push_bit b 1 \<noteq> 0 then put mx ((i + b) * 4) st else st)
                         [0..<8] st
                  else st)
        in avx_loop buf n target mx (i + 8) st
      else (i, st))"
  by pat_completeness auto
termination
  by (relation "measure (\<lambda>(_, n, _, _, i, _). n - i)") auto

declare avx_loop.simps [simp del]

definition find_u32_avx2 :: "ptr \<Rightarrow> nat \<Rightarrow> u32 \<Rightarrow> nat \<Rightarrow> nat \<times> u32 list" where
  "find_u32_avx2 buf len target mx =
     (let n = len div 4;
          (i, st) = avx_loop buf n target mx 0 (0, [])
      in grid_loop (\<lambda>i st. if ld32 (shift buf (4 * i)) = target then put mx (i * 4) st else st)
           1 1 n i st)"

definition simd_eq :: "byte \<Rightarrow> ptr \<Rightarrow> ptr \<Rightarrow> bool" where
  \<comment> \<open>the switch of \<^verbatim>\<open>find_scalar\<close>\<close>
  "simd_eq vt m val =
     (if vt = 0 \<or> vt = 1 then ld8 m = ld8 val
      else if vt = 2 \<or> vt = 3 then ld16 m = ld16 val
      else if vt = 4 \<or> vt = 5 then ld32 m = ld32 val
      else if vt = 6 \<or> vt = 7 then ld64 m = ld64 val
      else if vt = 8 then feq (ldf m) (ldf val)
      else feq (ldd m) (ldd val))"

definition find_scalar :: "byte \<Rightarrow> ptr \<Rightarrow> nat \<Rightarrow> ptr \<Rightarrow> u32 \<Rightarrow> nat \<Rightarrow> nat \<times> u32 list" where
  "find_scalar vt buf len val step mx =
     (let esz = elem_size vt in
      if esz = 0 \<or> step = 0 \<or> len < esz then (0, [])
      else grid_loop (\<lambda>off st. if simd_eq vt (shift buf off) val then put mx off st else st)
             (unat step) 0 (len - esz) 0 (0, []))"

text \<open>The three pointer arguments are never \<^verbatim>\<open>NULL\<close> at the call sites.\<close>

definition scan_simd_find_exact :: "byte \<Rightarrow> ptr \<Rightarrow> nat \<Rightarrow> ptr \<Rightarrow> u32 \<Rightarrow> nat \<Rightarrow> nat \<times> u32 list" where
  "scan_simd_find_exact valtype buf len value step max_out =
     (if (valtype = 4 \<or> valtype = 5) \<and> step = 4
      then find_u32_avx2 buf len (ld32 value) max_out
      else find_scalar valtype buf len value step max_out)"

definition SPC_BIN :: "byte \<Rightarrow> relop \<Rightarrow> ptr \<Rightarrow> ptr \<Rightarrow> bool" where
  "SPC_BIN valType op lhs rhs =
     (if valType = 0 then rel_int op (uint (ld8 lhs)) (uint (ld8 rhs))
      else if valType = 1 then rel_int op (sint (ld8 lhs)) (sint (ld8 rhs))
      else if valType = 2 then rel_int op (uint (ld16 lhs)) (uint (ld16 rhs))
      else if valType = 3 then rel_int op (sint (ld16 lhs)) (sint (ld16 rhs))
      else if valType = 4 then rel_int op (uint (ld32 lhs)) (uint (ld32 rhs))
      else if valType = 5 then rel_int op (sint (ld32 lhs)) (sint (ld32 rhs))
      else if valType = 6 then rel_int op (uint (ld64 lhs)) (uint (ld64 rhs))
      else if valType = 7 then rel_int op (sint (ld64 lhs)) (sint (ld64 rhs))
      else if valType = 8 then rel_fp op (ldf lhs) (ldf rhs)
      else if valType = 9 then rel_fp op (ldd lhs) (ldd rhs)
      else False)"

definition SPC_BY :: "byte \<Rightarrow> addop \<Rightarrow> ptr \<Rightarrow> ptr \<Rightarrow> ptr \<Rightarrow> bool" where
  "SPC_BY valType op mem base delta =
     (if valType = 0 \<or> valType = 1 then ld8 mem = bin_word op (ld8 base) (ld8 delta)
      else if valType = 2 \<or> valType = 3 then ld16 mem = bin_word op (ld16 base) (ld16 delta)
      else if valType = 4 \<or> valType = 5 then ld32 mem = bin_word op (ld32 base) (ld32 delta)
      else if valType = 6 \<or> valType = 7 then ld64 mem = bin_word op (ld64 base) (ld64 delta)
      else if valType = 8 then feq (ldf mem) (bin_fp op f32 (ldf base) (ldf delta))
      else if valType = 9 then feq (ldd mem) (bin_fp op f64 (ldd base) (fconv f64 (ldf delta)))
      else False)"

definition scan_point_turbo_supported :: "byte \<Rightarrow> byte \<Rightarrow> bool" where
  "scan_point_turbo_supported cmpType valType =
     (if valType > 9 then False
      else if cmpType = 0 then valType \<le> 7
      else cmpType \<in> {5, 6, 7, 8, 9, 10})"

definition scan_point_compare :: "byte \<Rightarrow> byte \<Rightarrow> ptr \<Rightarrow> ptr \<Rightarrow> ptr \<Rightarrow> bool" where
  "scan_point_compare cmpType valType pMem pScan pPrev =
     (if cmpType = 0 then SPC_BIN valType EQ pMem pScan
      else if cmpType = 5 then SPC_BIN valType GT pMem pPrev
      else if cmpType = 6 then SPC_BY valType Plus pMem pPrev pScan
      else if cmpType = 7 then SPC_BIN valType LT pMem pPrev
      else if cmpType = 8 then SPC_BY valType Minus pMem pPrev pScan
      else if cmpType = 9 then SPC_BIN valType NE pMem pPrev
      else if cmpType = 10 then SPC_BIN valType EQ pMem pPrev
      else False)"

section \<open>Emission\<close>

text \<open>What a loop that stores matching offsets leaves behind.\<close>

definition collected :: "nat \<Rightarrow> nat list \<Rightarrow> nat \<times> u32 list" where
  "collected mx hits = (length hits, map of_nat (take mx hits))"

lemma put_collected: "put mx off (collected mx hits) = collected mx (hits @ [off])"
  by (simp add: put_def collected_def)

lemma fold_put:
  "fold (\<lambda>off st. if P off then put mx (f off) st else st) offs (collected mx hits)
     = collected mx (hits @ map f (filter P offs))"
  by (induction offs arbitrary: hits) (simp_all add: put_collected)

lemma collected_Nil: "(0, []) = collected mx []"
  by (simp add: collected_def)

section \<open>The vector search\<close>

lemma bit_movemask: "length lanes \<le> 32 \<Longrightarrow> bit (movemask_ps lanes) b \<longleftrightarrow> b < length lanes \<and> lanes ! b"
  by (auto simp: movemask_ps_def bit_horner_sum_bit_word_iff)

lemma movemask_zero: "length lanes \<le> 32 \<Longrightarrow> movemask_ps lanes = 0 \<Longrightarrow> b < length lanes \<Longrightarrow> \<not> lanes ! b"
  using bit_movemask [of lanes b] by simp

lemma and_push_bit_1: "(w :: u32) AND push_bit b 1 \<noteq> 0 \<longleftrightarrow> bit w b"
  by (simp add: push_bit_of_1 and_exp_eq_0_iff_not_bit)

lemma avx_block:
  fixes target :: u32
  defines "msk \<equiv> \<lambda>i buf. movemask_ps (map (\<lambda>b. ld32 (shift buf (4 * (i + b))) = target) [0..<8])"
  shows "(if msk i buf \<noteq> 0
      then fold (\<lambda>b st. if msk i buf AND push_bit b 1 \<noteq> 0 then put mx ((i + b) * 4) st else st) [0..<8]
             (collected mx hits)
      else collected mx hits)
    = collected mx (hits @ map (\<lambda>j. j * 4) (filter (\<lambda>j. ld32 (shift buf (4 * j)) = target) [i..<i + 8]))"
proof -
  let ?P = "\<lambda>b. ld32 (shift buf (4 * (i + b))) = target"
  have bits: "msk i buf AND push_bit b 1 \<noteq> 0 \<longleftrightarrow> b < 8 \<and> ?P b" for b
    unfolding msk_def and_push_bit_1 by (subst bit_movemask) auto
  have idx: "[i..<i + 8] = map (\<lambda>b. i + b) [0..<8]"
    by (rule upt_shift)
  have sel: "filter (\<lambda>b. b < 8 \<and> ?P b) [0..<8] = filter ?P [0..<8]"
    by (intro filter_cong) auto
  show ?thesis
  proof (cases "msk i buf = 0")
    case True
    then have "\<not> ?P b" if "b < 8" for b
      using bits [of b] that by simp
    then have "filter ?P [0..<8] = []" by (auto simp: filter_empty_conv)
    with True show ?thesis by (simp add: idx filter_map comp_def)
  next
    case False
    then show ?thesis
      unfolding bits fold_put sel idx filter_map by (simp add: comp_def)
  qed
qed

lemma avx_loop_spec:
  "i \<le> n \<Longrightarrow> \<exists>i'. avx_loop buf n target mx i (collected mx hits) =
      (i', collected mx (hits @ map (\<lambda>j. j * 4) (filter (\<lambda>j. ld32 (shift buf (4 * j)) = target) [i..<i'])))
      \<and> i \<le> i' \<and> i' \<le> n"
proof (induction "n - i" arbitrary: i hits rule: less_induct)
  case less
  let ?hits = "\<lambda>a b. map (\<lambda>j. j * 4) (filter (\<lambda>j. ld32 (shift buf (4 * j)) = target) [a..<b])"
  show ?case
  proof (cases "i + 8 \<le> n")
    case True
    then have "avx_loop buf n target mx i (collected mx hits)
        = avx_loop buf n target mx (i + 8) (collected mx (hits @ ?hits i (i + 8)))"
      by (subst avx_loop.simps) (simp only: Let_def avx_block if_True)
    moreover obtain i' where "avx_loop buf n target mx (i + 8) (collected mx (hits @ ?hits i (i + 8)))
        = (i', collected mx ((hits @ ?hits i (i + 8)) @ ?hits (i + 8) i'))" "i + 8 \<le> i'" "i' \<le> n"
      using less.hyps [of "i + 8" "hits @ ?hits i (i + 8)"] True by fastforce
    ultimately show ?thesis
      using upt_split [of i "i + 8" i'] by (intro exI [of _ i']) auto
  next
    case False
    then show ?thesis
      using less.prems by (intro exI [of _ i]) (simp add: avx_loop.simps)
  qed
qed

lemma grid_1_1: "grid 1 1 n i = [i..<n]"
proof -
  have "grid 1 1 n i = filter (\<lambda>j. j < n) [i..<n] @ filter (\<lambda>j. j < n) [n..<Suc n]" if "i \<le> n"
    using that upt_split [of i n "Suc n"] by (simp add: grid_def Suc_le_eq del: upt_Suc)
  moreover have "filter (\<lambda>j. j < n) [i..<n] = [i..<n]" by (simp add: filter_id_conv)
  ultimately show ?thesis
    by (cases "i \<le> n") (auto simp: grid_def filter_empty_conv)
qed

lemma find_u32_avx2_collected:
  "find_u32_avx2 buf len target mx =
     collected mx (map (\<lambda>j. j * 4) (filter (\<lambda>j. ld32 (shift buf (4 * j)) = target) [0..<len div 4]))"
proof -
  let ?P = "\<lambda>j. ld32 (shift buf (4 * j)) = target"
  obtain i where i: "avx_loop buf (len div 4) target mx 0 (collected mx []) =
      (i, collected mx (map (\<lambda>j. j * 4) (filter ?P [0..<i])))" "i \<le> len div 4"
    using avx_loop_spec [of 0 "len div 4" buf target mx "[]"] by auto
  have "find_u32_avx2 buf len target mx = fold (\<lambda>i st. if ?P i then put mx (i * 4) st else st)
      [i..<len div 4] (collected mx (map (\<lambda>j. j * 4) (filter ?P [0..<i])))"
    using i(1) by (simp add: find_u32_avx2_def collected_Nil [of mx] grid_loop_fold grid_1_1 [simplified])
  also have "\<dots> = collected mx (map (\<lambda>j. j * 4) (filter ?P [0..<i]) @ map (\<lambda>j. j * 4) (filter ?P [i..<len div 4]))"
    by (rule fold_put)
  finally show ?thesis using upt_split [of 0 i "len div 4"] i(2) by simp
qed

lemma find_scalar_collected:
  "find_scalar vt buf len val step mx =
     (if elem_size vt = 0 \<or> step = 0 \<or> len < elem_size vt then collected mx []
      else collected mx (filter (\<lambda>off. simd_eq vt (shift buf off) val)
             (grid (unat step) 0 (len - elem_size vt) 0)))"
  using fold_put [where f = "\<lambda>i. i" and hits = "[]" and mx = mx and P = "\<lambda>off. simd_eq vt (shift buf off) val"]
  by (auto simp: find_scalar_def Let_def grid_loop_fold unat_gt_0 collected_Nil [of mx])

section \<open>Properties\<close>

lemma elem_size_eq: "elem_size vt = proc_scan_getSizeOfValueType vt"
proof (cases "vt \<le> 9")
  case True
  then show ?thesis
    using byte_cases_le9 [OF True] byte_cases_le7 [of vt]
    by (auto simp: elem_size_def proc_scan_getSizeOfValueType_def)
next
  case False
  then have "9 < vt" by simp
  moreover have "elem_size vt = 0" using False by (auto simp: elem_size_def)
  ultimately show ?thesis by (simp add: proc_scan_getSizeOfValueType_def)
qed

lemma simd_eq_point:
  assumes "vt \<le> 9"
  shows "simd_eq vt m val = scan_point_compare 0 vt m val prev"
  using byte_cases_le9 [OF assms] byte_cases_le7 [of vt]
  by (auto simp: simd_eq_def scan_point_compare_def SPC_BIN_def rel_int_def rel_fp_def
      simp flip: word_eq_iff_unsigned word_eq_iff_signed)

text \<open>The offsets at which the search should report a hit.\<close>

definition exact_hits :: "byte \<Rightarrow> ptr \<Rightarrow> nat \<Rightarrow> ptr \<Rightarrow> nat \<Rightarrow> nat list" where
  "exact_hits vt buf len value step =
     filter (\<lambda>off. step dvd off \<and> off + proc_scan_getSizeOfValueType vt \<le> len
                 \<and> scan_point_compare 0 vt (shift buf off) value value) [0..<len]"

lemma filter_multiples_4:
  "map (\<lambda>j. j * 4) (filter (\<lambda>j. P (4 * j)) [0..<n div 4]) = filter (\<lambda>off. 4 dvd off \<and> off + 4 \<le> n \<and> P off) [0..<n]"
  (is "?l n = ?r n")
proof (rule sorted_distinct_set_unique)
  have "sorted_wrt (\<lambda>a b. a * 4 \<le> b * (4 :: nat)) (filter (\<lambda>j. P (4 * j)) [0..<n div 4])"
    by (rule sorted_wrt_mono_rel [of _ "(\<le>)"]) (auto intro: sorted_wrt_filter)
  then show "sorted (?l n)" by (simp add: sorted_wrt_map)
  show "distinct (?l n)" by (simp add: distinct_map inj_on_def)
  have j: "j < n div 4 \<longleftrightarrow> j * 4 + 4 \<le> n" for j by arith
  show "set (?l n) = set (?r n)"
  proof (intro set_eqI iffI)
    fix off assume "off \<in> set (?r n)"
    then obtain k where "off = k * 4" "k * 4 + 4 \<le> n" "P off"
      by (auto simp: dvd_def mult.commute)
    then show "off \<in> set (?l n)" using j [of k] by (auto simp: mult.commute)
  next
    fix off assume "off \<in> set (?l n)"
    then obtain k where "off = k * 4" "k < n div 4" "P (4 * k)" by auto
    then show "off \<in> set (?r n)" using j [of k] by (auto simp: mult.commute)
  qed
qed (auto intro: sorted_wrt_filter)

lemma scan_simd_find_exact_hits:
  "scan_simd_find_exact vt buf len value step max_out =
     (if 9 < vt \<or> step = 0 then (0, [])
      else let hits = exact_hits vt buf len value (unat step)
           in (length hits, map of_nat (take max_out hits)))"
proof -
  have scalar: "find_scalar vt buf len value step max_out =
      (if 9 < vt \<or> step = 0 then (0, []) else collected max_out (exact_hits vt buf len value (unat step)))"
  proof (cases "9 < vt \<or> step = 0")
    case True
    then show ?thesis
      by (auto simp: find_scalar_collected elem_size_eq proc_scan_getSizeOfValueType_def collected_def)
  next
    case False
    then have vt: "vt \<le> 9" by (simp add: not_less)
    note sz = size_bounds [OF vt]
    show ?thesis
    proof (cases "len < proc_scan_getSizeOfValueType vt")
      case True
      then have "exact_hits vt buf len value (unat step) = []"
        by (auto simp: exact_hits_def filter_empty_conv)
      with True False show ?thesis by (simp add: find_scalar_collected elem_size_eq collected_def)
    next
      case le: False
      with False sz show ?thesis
        by (simp add: find_scalar_collected elem_size_eq filter_grid_conv exact_hits_def
            simd_eq_point [OF vt, where prev = "value"])
    qed
  qed
  have vector: "find_u32_avx2 buf len (ld32 value) max_out = collected max_out (exact_hits vt buf len value 4)"
    if "vt = 4 \<or> vt = 5"
  proof -
    have "(ld32 (shift buf off) = ld32 value) = scan_point_compare 0 vt (shift buf off) value value" for off
      using that simd_eq_point [of vt "shift buf off" "value" "value"] by (auto simp: simd_eq_def)
    then show ?thesis
      using that filter_multiples_4 [of "\<lambda>off. ld32 (shift buf off) = ld32 value" len]
      by (auto simp: find_u32_avx2_collected exact_hits_def proc_scan_getSizeOfValueType_def)
  qed
  show ?thesis
    using scalar vector by (auto simp: scan_simd_find_exact_def collected_def Let_def)
qed

text \<open>
  C32: the exact search is correct on both of its paths. It returns the number of aligned
  offsets inside the buffer at which the value type's equality holds and stores the first
  \<open>max_out\<close> of them in ascending order; the AVX2 path is equivalent to the scalar one.
\<close>

theorem scan_simd_find_exact_correct:
  "scan_simd_find_exact vt buf len value step max_out =
     (if 9 < vt \<or> step = 0 then (0, [])
      else let hits = exact_hits vt buf len value (unat step)
           in (length hits, map of_nat (take max_out hits)))"
  by (rule scan_simd_find_exact_hits)

text \<open>
  Where the turbo rescan takes its short cut, the point comparison gives the verdict of
  the general comparator, for every comparison and value type it declares supported.
\<close>

theorem scan_point_compare_agrees:
  assumes "scan_point_turbo_supported cmpType valType"
  shows "scan_point_compare cmpType valType mem scan prev
    = proc_scan_compareValues cmpType valType (proc_scan_getSizeOfValueType valType) scan mem (Some prev) msk"
proof (cases "cmpType = 0")
  case True
  with assms have vt: "valType \<le> 7" by (simp add: scan_point_turbo_supported_def split: if_splits)
  then have "valType \<noteq> 8" "valType \<noteq> 9" "valType \<noteq> 10" by auto
  moreover have "scan_point_compare 0 valType mem scan prev
      \<longleftrightarrow> ld_int valType mem = ld_int valType scan"
    using byte_cases_le7 [OF vt]
    by (auto simp: scan_point_compare_def SPC_BIN_def rel_int_def ld_int_def)
  ultimately show ?thesis
    using vt True
    by (auto simp: proc_scan_compareValues_def exact_compare_def ld_int_eq_iff bytes_eq_loop_iff)
next
  case False
  with assms have "valType \<le> 9" "cmpType \<in> {5, 6, 7, 8, 9, 10}"
    by (auto simp: scan_point_turbo_supported_def split: if_splits)
  then have "SPC_BIN valType op a b = PER_VALTYPE_BIN valType op a b" for op a b
    using byte_cases_le9 [of valType] byte_cases_le7 [of valType]
    by (auto simp: SPC_BIN_def PER_VALTYPE_BIN_def ld_int_def)
  with \<open>cmpType \<in> {5, 6, 7, 8, 9, 10}\<close> show ?thesis
    by (auto simp: scan_point_compare_def proc_scan_compareValues_def SPC_BY_def PER_VALTYPE_BY_def)
qed

theorem scan_point_compare_agrees_witness:
  "scan_point_turbo_supported 6 2 \<and>
   scan_point_compare 6 2 (of_list [4, 1]) (of_list [5, 0]) (of_list [0xFF, 0]) =
   proc_scan_compareValues 6 2 (proc_scan_getSizeOfValueType 2) (of_list [5, 0]) (of_list [4, 1])
     (Some (of_list [0xFF, 0])) None"
  using scan_point_compare_agrees [of 6 2] by (simp add: scan_point_turbo_supported_def)

end
