(* ===== verification/AobScan.thy ===== *)
theory AobScan
  imports ScanCompare
begin

text \<open>
  The region-parallel multi-pattern search of \<^verbatim>\<open>debugger/include/aob_scan.h\<close>: the first-byte
  dispatch table (a counting sort of the pattern indices), the worker that scans one
  sub-range for all patterns, and the merge of the workers' results. 32-bit sums are reduced
  modulo \<open>2 ^ 32\<close> as the code computes them.
\<close>

section \<open>Data\<close>

record aob_pat =
  pat :: ptr
  msk :: ptr
  plen :: nat
  target_count :: byte
  first_fixed :: int

record aob_dispatch =
  boff :: "nat list"
  bidx :: "nat list"
  widx :: "nat list"

text \<open>
  \<^verbatim>\<open>struct aob_worker\<close>: what is fixed during a scan (the callback is an argument of the
  loops) and, in a record of its own, the worker's private arrays.
\<close>

record aob_worker =
  pats :: "aob_pat list"
  disp :: aob_dispatch
  base_addr :: u64
  region_length :: nat
  max_plen :: nat
  chunkSize :: nat
  slot_off :: "nat list"
  start :: nat
  end_pos :: nat

record aob_private =
  readBuf :: ptr
  addrs :: "u64 list"
  counts :: "nat list"
  done_flags :: "bool list"

abbreviation u32_add :: "nat \<Rightarrow> nat \<Rightarrow> nat" where
  "u32_add a b \<equiv> (a + b) mod 2 ^ 32"

section \<open>The dispatch table\<close>

definition first_byte :: "aob_pat \<Rightarrow> nat" where
  \<comment> \<open>\<^verbatim>\<open>(uint8_t)p.first_fixed\<close>\<close>
  "first_byte p = nat (first_fixed p mod 256)"

definition bucket_counts :: "aob_pat list \<Rightarrow> nat list" where
  "bucket_counts ps = fold (\<lambda>p bc. if 0 \<le> first_fixed p then bc[first_byte p := bc ! first_byte p + 1] else bc)
     ps (replicate 256 0)"

definition bucket_offsets :: "nat list \<Rightarrow> nat list" where
  "bucket_offsets bcount = fold (\<lambda>b boff. boff @ [boff ! b + bcount ! b]) [0..<256] [0]"

definition place :: "aob_pat list \<Rightarrow> nat \<Rightarrow> nat list \<times> nat list \<times> nat list \<Rightarrow> nat list \<times> nat list \<times> nat list" where
  "place ps pi = (\<lambda>(cursor, bidx, widx).
     if 0 \<le> first_fixed (ps ! pi)
     then let b = first_byte (ps ! pi)
          in (cursor[b := cursor ! b + 1], bidx[cursor ! b := pi], widx)
     else (cursor, bidx, widx @ [pi]))"

definition aob_build_dispatch :: "aob_pat list \<Rightarrow> aob_dispatch" where
  "aob_build_dispatch ps =
     (let bo = bucket_offsets (bucket_counts ps);
          (cursor, bi, wi) = fold (place ps) [0..<length ps] (take 256 bo, replicate (length ps) 0, [])
      in \<lparr>boff = bo, bidx = bi, widx = wi\<rparr>)"

section \<open>The worker\<close>

definition aob_match_at :: "ptr \<Rightarrow> nat \<Rightarrow> aob_pat \<Rightarrow> bool" where
  "aob_match_at buf pos p = aob_loop 0 (plen p) (pat p) (shift buf pos) (msk p)"

definition aob_try :: "aob_worker \<Rightarrow> nat \<Rightarrow> nat \<Rightarrow> nat \<Rightarrow> u64 \<Rightarrow> nat \<Rightarrow> aob_private \<Rightarrow> nat \<times> aob_private" where
  "aob_try w jj read_len goff abs_addr pi v =
     (if done_flags v ! pi then (0, v)
      else let p = pats w ! pi in
        if goff + plen p > region_length w then (0, v)
        else if u32_add jj (plen p) > read_len then (0, v)
        else if \<not> aob_match_at (readBuf v) jj p then (0, v)
        else let cap = unat (target_count p) + 1; c = counts v ! pi in
          if c < cap then
            let v = v\<lparr>addrs := (addrs v)[slot_off w ! pi + c := abs_addr],
                      counts := (counts v)[pi := c + 1]\<rparr>
            in if c + 1 = cap then (1, v\<lparr>done_flags := (done_flags v)[pi := True]\<rparr>) else (0, v)
          else (0, v))"

definition try_all ::
    "aob_worker \<Rightarrow> nat \<Rightarrow> nat \<Rightarrow> nat \<Rightarrow> u64 \<Rightarrow> nat list \<Rightarrow> nat \<times> aob_private \<Rightarrow> nat \<times> aob_private" where
  \<comment> \<open>\<^verbatim>\<open>active -= aob_try(w, pi, ...)\<close> for the given pattern indices\<close>
  "try_all w jj read_len goff abs_addr =
     fold (\<lambda>pi (active, v). let (n, v) = aob_try w jj read_len goff abs_addr pi v in (active - n, v))"

definition scan_position :: "aob_worker \<Rightarrow> nat \<Rightarrow> nat \<Rightarrow> nat \<Rightarrow> nat \<times> aob_private \<Rightarrow> nat \<times> aob_private" where
  \<comment> \<open>the body of the position loop\<close>
  "scan_position w off read_len jj st =
     (let b = unat (readBuf (snd st) jj); goff = off + jj; abs_addr = base_addr w + of_nat goff; d = disp w;
          st = try_all w jj read_len goff abs_addr (map (\<lambda>t. bidx d ! t) [boff d ! b..<boff d ! (b + 1)]) st
      in try_all w jj read_len goff abs_addr (map (\<lambda>t. widx d ! t) [0..<length (widx d)]) st)"

function position_loop :: "aob_worker \<Rightarrow> nat \<Rightarrow> nat \<Rightarrow> nat \<Rightarrow> nat \<Rightarrow> nat \<times> aob_private \<Rightarrow> nat \<times> aob_private" where
  "position_loop w off read_len own jj st =
     (if jj < own
      then let st = scan_position w off read_len jj st
           in if fst st = 0 then st else position_loop w off read_len own (jj + 1) st
      else st)"
  by pat_completeness auto
termination
  by (relation "measure (\<lambda>(_, _, _, own, jj, _). own - jj)") auto

definition own_of :: "aob_worker \<Rightarrow> nat \<Rightarrow> nat" where
  "own_of w off = (let own64 = end_pos w - off in if own64 < chunkSize w then own64 else chunkSize w)"

definition read_len_of :: "aob_worker \<Rightarrow> nat \<Rightarrow> nat" where
  "read_len_of w off =
     (let avail = region_length w - off;
          read_len = (own_of w off + max_plen w + 2 ^ 32 - 1) mod 2 ^ 32
      in if read_len > avail then avail else read_len)"

text \<open>
  The chunk loop; \<open>fill off len buf\<close> is the callback. A chunk size of 0 would not terminate:
  the handler uses at least the longest pattern's length, which is at least 1.
\<close>

function chunk_loop :: "(nat \<Rightarrow> nat \<Rightarrow> ptr \<Rightarrow> ptr) \<Rightarrow> aob_worker \<Rightarrow> nat \<Rightarrow> nat \<times> aob_private \<Rightarrow> nat \<times> aob_private" where
  "chunk_loop fill w off st =
     (if off < end_pos w \<and> fst st > 0 \<and> 0 < chunkSize w then
        let own = own_of w off;
            read_len = read_len_of w off;
            v = snd st;
            v = v\<lparr>readBuf := fill off read_len (memset (readBuf v) 0 0 read_len)\<rparr>
        in chunk_loop fill w (off + own) (position_loop w off read_len own 0 (fst st, v))
      else st)"
  by pat_completeness auto
termination
  by (relation "measure (\<lambda>(_, w, off, _). end_pos w - off)") (auto simp: own_of_def Let_def)

definition aob_scan_range :: "(nat \<Rightarrow> nat \<Rightarrow> ptr \<Rightarrow> ptr) \<Rightarrow> aob_worker \<Rightarrow> aob_private \<Rightarrow> aob_private" where
  "aob_scan_range fill w v =
     (let n = length (pats w);
          v = v\<lparr>counts := replicate n 0, done_flags := replicate n False\<rparr>
      in snd (chunk_loop fill w (start w) (n, v)))"

section \<open>The merge\<close>

definition merge_step :: "nat \<Rightarrow> nat \<Rightarrow> nat \<Rightarrow> u64 list \<times> nat list \<Rightarrow> nat \<times> u64 \<times> bool \<Rightarrow> nat \<times> u64 \<times> bool" where
  \<comment> \<open>one worker's contribution to pattern \<open>pi\<close>\<close>
  "merge_step tc pi slot = (\<lambda>(addrs, counts) (total, result, found).
     let c = counts ! pi;
         (result, found) =
           (if \<not> found \<and> tc \<ge> 1 \<and> total < tc \<and> total + c \<ge> tc
            then (addrs ! (slot + (tc - total - 1)), True) else (result, found));
         total = total + c
     in (if total > tc + 1 then tc + 1 else total, result, found))"

definition aob_merge :: "aob_pat list \<Rightarrow> bool \<Rightarrow> nat list \<Rightarrow> (u64 list \<times> nat list) list \<Rightarrow> u64 list" where
  "aob_merge ps stop_unique slots workers =
     map (\<lambda>pi.
       let tc = unat (target_count (ps ! pi));
           (total, result, found) = fold (merge_step tc pi (slots ! pi)) workers (0, 0, False)
       in if \<not> found then 0 else if stop_unique \<and> total \<ge> tc + 1 then 0 else result)
     [0..<length ps]"

declare position_loop.simps [simp del] chunk_loop.simps [simp del]

section \<open>The dispatch table is a partition of the patterns\<close>

definition wf_pat :: "aob_pat \<Rightarrow> bool" where
  \<comment> \<open>a pattern as the handler builds it\<close>
  "wf_pat p \<longleftrightarrow> 0 < plen p \<and> first_fixed p = (if msk p 0 = 1 then uint (pat p 0) else -1)"

abbreviation in_bucket :: "nat \<Rightarrow> aob_pat \<Rightarrow> bool" where
  "in_bucket b p \<equiv> 0 \<le> first_fixed p \<and> first_byte p = b"

definition bucket :: "aob_pat list \<Rightarrow> nat \<Rightarrow> nat \<Rightarrow> nat list" where
  \<comment> \<open>the first \<open>m\<close> patterns' members of bucket \<open>b\<close>\<close>
  "bucket ps m b = filter (\<lambda>pi. in_bucket b (ps ! pi)) [0..<m]"

lemma nat_uint_byte: "nat (uint (x :: byte) mod 256) = unat x"
proof -
  have "uint x < 2 ^ LENGTH(8)" by (rule unsigned_less)
  then show ?thesis by (simp add: mod_pos_pos_trivial)
qed

lemma first_byte_less: "first_byte p < 256"
  by (simp add: first_byte_def nat_less_iff)

lemma length_filter_nth: "length (filter P xs) = length (filter (\<lambda>i. P (xs ! i)) [0..<length xs])"
proof -
  have "filter P xs = filter P (map ((!) xs) [0..<length xs])" by (simp add: map_nth)
  then show ?thesis by (simp only: filter_map length_map comp_def)
qed

lemma bucket_counts_nth: "b < 256 \<Longrightarrow> bucket_counts ps ! b = length (bucket ps (length ps) b)"
proof -
  assume b: "b < 256"
  have "length bc = 256 \<Longrightarrow>
      fold (\<lambda>p bc. if 0 \<le> first_fixed p then bc[first_byte p := bc ! first_byte p + 1] else bc) ps bc ! b
        = bc ! b + length (filter (in_bucket b) ps)" for bc
    using b first_byte_less by (induction ps arbitrary: bc) (auto simp: nth_list_update)
  from this [of "replicate 256 0"] show ?thesis
    using b by (simp add: bucket_counts_def bucket_def length_filter_nth [of "in_bucket b" ps])
qed

lemma bucket_offsets_prefix:
  fixes bcount :: "nat list"
  defines "F \<equiv> \<lambda>m. fold (\<lambda>b boff. boff @ [boff ! b + bcount ! b]) [0..<m] [0]"
  shows "length (F m) = m + 1 \<and> F m ! 0 = 0 \<and> (\<forall>b<m. F m ! (b + 1) = F m ! b + bcount ! b)"
proof (induction m)
  case (Suc m)
  have "F (Suc m) = F m @ [F m ! m + bcount ! m]" by (simp add: F_def)
  with Suc show ?case by (auto simp: nth_append less_Suc_eq)
qed (simp add: F_def)

lemma bucket_offsets_nth:
  assumes "b \<le> 256"
  shows "bucket_offsets (bucket_counts ps) ! b
    = length (filter (\<lambda>pi. 0 \<le> first_fixed (ps ! pi) \<and> first_byte (ps ! pi) < b) [0..<length ps])"
    (is "?bo ! b = length (filter (?P b) _)")
  using assms
proof (induction b)
  case 0
  then show ?case
    using bucket_offsets_prefix [where m = 256] by (simp add: bucket_offsets_def)
next
  case (Suc b)
  have "?bo ! (b + 1) = ?bo ! b + bucket_counts ps ! b"
    using bucket_offsets_prefix [where m = 256] Suc.prems by (simp add: bucket_offsets_def)
  also have "\<dots> = length (filter (?P b) [0..<length ps])
      + length (filter (\<lambda>pi. in_bucket b (ps ! pi)) [0..<length ps])"
    using Suc by (simp add: bucket_counts_nth bucket_def)
  also have "\<dots> = length (filter (?P (Suc b)) [0..<length ps])"
  proof -
    have "length (filter (?P b) xs) + length (filter (\<lambda>pi. in_bucket b (ps ! pi)) xs)
        = length (filter (?P (Suc b)) xs)" for xs
      by (induction xs) (auto simp: less_Suc_eq)
    then show ?thesis .
  qed
  finally show ?case by simp
qed

lemma bucket_offsets_bound:
  assumes "b < 256"
  shows "bucket_offsets (bucket_counts ps) ! b + length (bucket ps (length ps) b)
         = bucket_offsets (bucket_counts ps) ! (b + 1)"
    and "bucket_offsets (bucket_counts ps) ! (b + 1) \<le> length ps"
proof -
  show "bucket_offsets (bucket_counts ps) ! b + length (bucket ps (length ps) b)
         = bucket_offsets (bucket_counts ps) ! (b + 1)"
    using bucket_offsets_prefix [where m = 256] assms
    by (simp add: bucket_offsets_def bucket_counts_nth)
  have "bucket_offsets (bucket_counts ps) ! (b + 1) \<le> length [0..<length ps]"
    using assms by (simp only: bucket_offsets_nth length_filter_le)
  then show "bucket_offsets (bucket_counts ps) ! (b + 1) \<le> length ps" by simp
qed

lemma bucket_offsets_mono:
  "a \<le> b \<Longrightarrow> b \<le> 256 \<Longrightarrow> bucket_offsets (bucket_counts ps) ! a \<le> bucket_offsets (bucket_counts ps) ! b"
proof (induction b)
  case (Suc b)
  then show ?case
    using bucket_offsets_bound(1) [of b ps] by (cases "a = Suc b") auto
qed simp

lemma bucket_prefix:
  assumes "m \<le> n"
  shows "length (bucket ps m b) \<le> length (bucket ps n b)"
  using upt_split [of 0 m n] assms by (simp add: bucket_def)

definition placed :: "aob_pat list \<Rightarrow> nat \<Rightarrow> nat list \<times> nat list \<times> nat list \<Rightarrow> bool" where
  \<comment> \<open>the state of the counting sort after \<open>m\<close> patterns\<close>
  "placed ps m = (\<lambda>(cursor, bi, wi).
     length cursor = 256 \<and> length bi = length ps
     \<and> wi = filter (\<lambda>pi. first_fixed (ps ! pi) < 0) [0..<m]
     \<and> (\<forall>b<256. cursor ! b = bucket_offsets (bucket_counts ps) ! b + length (bucket ps m b)
          \<and> (\<forall>k<length (bucket ps m b).
               bi ! (bucket_offsets (bucket_counts ps) ! b + k) = bucket ps m b ! k)))"

lemma placed_step:
  assumes inv: "placed ps m (cursor, bi, wi)" and m: "m < length ps"
  shows "placed ps (Suc m) (place ps m (cursor, bi, wi))"
proof (cases "0 \<le> first_fixed (ps ! m)")
  case False
  then have "bucket ps (Suc m) b = bucket ps m b" for b by (simp add: bucket_def)
  with inv False show ?thesis by (simp add: placed_def place_def)
next
  case True
  define bo where "bo = (\<lambda>b. bucket_offsets (bucket_counts ps) ! b)"
  define c where "c = first_byte (ps ! m)"
  have c: "c < 256" by (simp add: c_def first_byte_less)
  have bk: "bucket ps (Suc m) b = bucket ps m b @ (if b = c then [m] else [])" for b
    using True by (simp add: bucket_def c_def)
  have room: "bo b + length (bucket ps (Suc m) b) \<le> bo (b + 1)" if "b < 256" for b
    using bucket_prefix [of "Suc m" "length ps" ps b] m bucket_offsets_bound(1) [OF that, of ps]
    by (simp add: bo_def)
  have cur: "cursor ! b = bo b + length (bucket ps m b)" if "b < 256" for b
    using inv that by (simp add: placed_def bo_def)
  have idx: "cursor ! c < length bi"
    using room [OF c] bk [of c] cur [OF c] bucket_offsets_bound(2) [OF c, of ps] inv
    by (simp add: placed_def bo_def)
  have other: "bo b + k \<noteq> cursor ! c" if "b < 256" "k < length (bucket ps m b)" for b k
  proof -
    consider "b = c" | "b < c" | "c < b" by linarith
    then show ?thesis
    proof cases
      case 1
      with that cur [OF c] show ?thesis by simp
    next
      case 2
      then have "bo (b + 1) \<le> bo c"
        using bucket_offsets_mono [of "b + 1" c ps] c by (simp add: bo_def)
      with room [OF that(1)] bk [of b] that(2) cur [OF c] show ?thesis by (simp split: if_splits)
    next
      case 3
      then have "bo (c + 1) \<le> bo b"
        using bucket_offsets_mono [of "c + 1" b ps] that(1) by (simp add: bo_def)
      with room [OF c] bk [of c] cur [OF c] show ?thesis by simp
    qed
  qed
  have new: "place ps m (cursor, bi, wi) = (cursor[c := cursor ! c + 1], bi[cursor ! c := m], wi)"
    using True by (simp add: place_def c_def Let_def)
  have ent: "bi[cursor ! c := m] ! (bo b + k) = bucket ps (Suc m) b ! k"
    if "b < 256" "k < length (bucket ps (Suc m) b)" for b k
    using that other [of b k] inv idx cur [OF c]
    by (cases "k < length (bucket ps m b)")
       (auto simp: bk nth_append placed_def bo_def less_Suc_eq split: if_splits)
  have curs: "cursor[c := cursor ! c + 1] ! b = bo b + length (bucket ps (Suc m) b)" if "b < 256" for b
    using that inv cur by (cases "b = c") (auto simp: bk placed_def)
  show ?thesis
    unfolding new placed_def prod.case using inv True ent curs by (simp add: placed_def bo_def)
qed

lemma placed_all: "m \<le> length ps \<Longrightarrow>
  placed ps m (fold (place ps) [0..<m] (take 256 (bucket_offsets (bucket_counts ps)), replicate (length ps) 0, []))"
proof (induction m)
  case 0
  have "length (bucket_offsets (bucket_counts ps)) = 257"
    using bucket_offsets_prefix [where m = 256] by (simp add: bucket_offsets_def)
  then show ?case by (simp add: placed_def bucket_def)
next
  case (Suc m)
  then show ?case
    using placed_step [of ps m] by (cases "fold (place ps) [0..<m]
      (take 256 (bucket_offsets (bucket_counts ps)), replicate (length ps) 0, [])") auto
qed

lemma dispatch_correct:
  shows "b < 256 \<Longrightarrow>
      map ((!) (bidx (aob_build_dispatch ps)))
        [boff (aob_build_dispatch ps) ! b..<boff (aob_build_dispatch ps) ! (b + 1)]
      = filter (\<lambda>pi. in_bucket b (ps ! pi)) [0..<length ps]"
    and "widx (aob_build_dispatch ps) = filter (\<lambda>pi. first_fixed (ps ! pi) < 0) [0..<length ps]"
proof -
  define bo where "bo = bucket_offsets (bucket_counts ps)"
  obtain cursor bi wi where eq: "fold (place ps) [0..<length ps] (take 256 bo, replicate (length ps) 0, [])
      = (cursor, bi, wi)" by (metis prod_cases3)
  have pl: "placed ps (length ps) (cursor, bi, wi)"
    using placed_all [of "length ps" ps] eq by (simp add: bo_def)
  have d: "aob_build_dispatch ps = \<lparr>boff = bo, bidx = bi, widx = wi\<rparr>"
    using eq by (simp add: aob_build_dispatch_def bo_def [symmetric])
  show "widx (aob_build_dispatch ps) = filter (\<lambda>pi. first_fixed (ps ! pi) < 0) [0..<length ps]"
    using pl by (simp add: d placed_def)
  assume b: "b < 256"
  have len: "bo ! (b + 1) = bo ! b + length (bucket ps (length ps) b)"
    using bucket_offsets_bound(1) [OF b] by (simp add: bo_def)
  have "map ((!) bi) [bo ! b..<bo ! (b + 1)] = bucket ps (length ps) b"
    unfolding len using pl b by (intro nth_equalityI) (auto simp: placed_def bo_def)
  then show "map ((!) (bidx (aob_build_dispatch ps)))
        [boff (aob_build_dispatch ps) ! b..<boff (aob_build_dispatch ps) ! (b + 1)]
      = filter (\<lambda>pi. in_bucket b (ps ! pi)) [0..<length ps]"
    by (simp add: d bucket_def)
qed

section \<open>What a worker records\<close>

abbreviation cap :: "aob_worker \<Rightarrow> nat \<Rightarrow> nat" where
  "cap w pi \<equiv> unat (target_count (pats w ! pi)) + 1"

definition wf_worker :: "aob_worker \<Rightarrow> bool" where
  "wf_worker w \<longleftrightarrow> (\<forall>p\<in>set (pats w). wf_pat p \<and> plen p \<le> max_plen w)
     \<and> 0 < max_plen w \<and> 0 < chunkSize w \<and> chunkSize w + max_plen w \<le> 2 ^ 32
     \<and> disp w = aob_build_dispatch (pats w)
     \<and> (\<forall>pi<length (pats w). slot_off w ! Suc pi = slot_off w ! pi + cap w pi)
     \<and> start w \<le> end_pos w \<and> end_pos w \<le> region_length w"

text \<open>
  \<open>recorded w Ms st\<close>: the arrays hold, for every pattern \<open>pi\<close>, the earliest
  \<open>target_count + 1\<close> of the match offsets \<open>Ms pi\<close>, and \<open>active\<close> counts the patterns that can
  still record one.
\<close>

definition recorded :: "aob_worker \<Rightarrow> (nat \<Rightarrow> nat list) \<Rightarrow> nat \<times> aob_private \<Rightarrow> bool" where
  "recorded w Ms = (\<lambda>(active, v). let n = length (pats w) in
     length (counts v) = n \<and> length (done_flags v) = n \<and> slot_off w ! n \<le> length (addrs v)
     \<and> active = length (filter (\<lambda>pi. \<not> done_flags v ! pi) [0..<n])
     \<and> (\<forall>pi<n. counts v ! pi = min (cap w pi) (length (Ms pi))
          \<and> done_flags v ! pi = (cap w pi \<le> length (Ms pi))
          \<and> (\<forall>k<counts v ! pi. addrs v ! (slot_off w ! pi + k) = base_addr w + of_nat (Ms pi ! k))))"

lemma slots_mono:
  assumes "wf_worker w" "a \<le> b" "b \<le> length (pats w)"
  shows "slot_off w ! a \<le> slot_off w ! b"
  using assms(2,3)
proof (induction b)
  case (Suc b)
  then show ?case using assms(1) by (cases "a = Suc b") (auto simp: wf_worker_def Suc_le_eq)
qed simp

lemma slots_disjoint:
  assumes "wf_worker w" "pi < length (pats w)" "pj < length (pats w)" "pi \<noteq> pj" "k < cap w pi" "l < cap w pj"
  shows "slot_off w ! pi + k \<noteq> slot_off w ! pj + l"
proof -
  have step: "slot_off w ! Suc a = slot_off w ! a + cap w a" if "a < length (pats w)" for a
    using assms(1) that by (auto simp: wf_worker_def)
  show ?thesis
  proof (cases "pi < pj")
    case True
    then show ?thesis
      using slots_mono [OF assms(1), of "Suc pi" pj] step [OF assms(2)] assms by simp
  next
    case False
    then show ?thesis
      using slots_mono [OF assms(1), of "Suc pj" pi] step [OF assms(3)] assms by simp
  qed
qed

lemma slots_room:
  assumes "wf_worker w" "pi < length (pats w)" "k < cap w pi"
  shows "slot_off w ! pi + k < slot_off w ! length (pats w)"
proof -
  have "slot_off w ! Suc pi = slot_off w ! pi + cap w pi"
    using assms(1,2) by (auto simp: wf_worker_def)
  then show ?thesis
    using slots_mono [OF assms(1), of "Suc pi" "length (pats w)"] assms by simp
qed

lemma length_filter_update:
  assumes "pi < length fl" "\<not> fl ! pi"
  shows "length (filter (\<lambda>i. \<not> fl[pi := True] ! i) [0..<length fl])
       = length (filter (\<lambda>i. \<not> fl ! i) [0..<length fl]) - 1"
proof -
  have split: "[0..<length fl] = [0..<pi] @ pi # [Suc pi..<length fl]"
    using assms(1) upt_split [of 0 pi "length fl"] by (simp add: upt_conv_Cons)
  have "filter (\<lambda>i. \<not> fl[pi := True] ! i) [0..<pi] = filter (\<lambda>i. \<not> fl ! i) [0..<pi]"
    "filter (\<lambda>i. \<not> fl[pi := True] ! i) [Suc pi..<length fl] = filter (\<lambda>i. \<not> fl ! i) [Suc pi..<length fl]"
    by (intro filter_cong; auto)+
  with assms show ?thesis by (simp add: split)
qed

definition local_hit :: "aob_worker \<Rightarrow> ptr \<Rightarrow> nat \<Rightarrow> nat \<Rightarrow> nat \<Rightarrow> nat \<Rightarrow> bool" where
  \<comment> \<open>the three tests of \<^verbatim>\<open>aob_try\<close>\<close>
  "local_hit w buf jj read_len goff pi \<longleftrightarrow> goff + plen (pats w ! pi) \<le> region_length w
     \<and> u32_add jj (plen (pats w ! pi)) \<le> read_len \<and> aob_match_at buf jj (pats w ! pi)"

lemma record_match:
  fixes abs_addr :: u64
  assumes wf: "wf_worker w" and pi: "pi < length (pats w)" and rec: "recorded w Ms (active, v)"
    and abs: "abs_addr = base_addr w + of_nat goff" and room: "length (Ms pi) < cap w pi"
  defines "c \<equiv> length (Ms pi)"
  defines "v1 \<equiv> v\<lparr>addrs := (addrs v)[slot_off w ! pi + c := abs_addr], counts := (counts v)[pi := c + 1]\<rparr>"
  defines "Ms1 \<equiv> Ms(pi := Ms pi @ [goff])"
  assumes pj: "pj < length (pats w)"
  shows "counts v1 ! pj = min (cap w pj) (length (Ms1 pj))
    \<and> (\<forall>k<counts v1 ! pj. addrs v1 ! (slot_off w ! pj + k) = base_addr w + of_nat (Ms1 pj ! k))"
proof -
  have len: "pi < length (counts v)" "slot_off w ! pi + c < length (addrs v)"
    using rec pi slots_room [OF wf pi room] by (simp_all add: recorded_def Let_def c_def)
  have cnt: "counts v1 ! pj = min (cap w pj) (length (Ms1 pj))"
    using rec pj room len by (auto simp: recorded_def Let_def v1_def nth_list_update c_def Ms1_def)
  have "addrs v1 ! (slot_off w ! pj + k) = base_addr w + of_nat (Ms1 pj ! k)"
    if k: "k < min (cap w pj) (length (Ms1 pj))" for k
  proof (cases "pj = pi \<and> k = c")
    case True
    then show ?thesis using len abs by (simp add: v1_def c_def Ms1_def)
  next
    case False
    have "slot_off w ! pj + k \<noteq> slot_off w ! pi + c"
      using False slots_disjoint [OF wf pj pi, of k c] k room by (cases "pj = pi") (auto simp: c_def)
    moreover have "k < counts v ! pj" "Ms1 pj ! k = Ms pj ! k"
      using k False rec pj by (auto simp: recorded_def Let_def c_def nth_append Ms1_def split: if_splits)
    moreover have "\<forall>k<counts v ! pj. addrs v ! (slot_off w ! pj + k) = base_addr w + of_nat (Ms pj ! k)"
      using rec pj by (simp add: recorded_def Let_def)
    ultimately show ?thesis by (simp add: v1_def)
  qed
  with cnt show ?thesis by simp
qed

lemma aob_try_recorded:
  assumes wf: "wf_worker w" and pi: "pi < length (pats w)" and rec: "recorded w Ms (active, v)"
    and abs: "abs_addr = base_addr w + of_nat goff"
  shows "\<exists>m v'. aob_try w jj read_len goff abs_addr pi v = (m, v') \<and> readBuf v' = readBuf v
    \<and> recorded w (Ms(pi := Ms pi @ (if local_hit w (readBuf v) jj read_len goff pi then [goff] else [])))
         (active - m, v')"
proof (cases "local_hit w (readBuf v) jj read_len goff pi")
  case False
  then have "aob_try w jj read_len goff abs_addr pi v = (0, v)"
    by (auto simp: aob_try_def local_hit_def Let_def not_less)
  with False rec show ?thesis by simp
next
  case hit: True
  let ?Ms = "Ms(pi := Ms pi @ [goff])"
  show ?thesis
  proof (cases "cap w pi \<le> length (Ms pi)")
    case True
    then have "aob_try w jj read_len goff abs_addr pi v = (0, v)"
      using rec pi by (simp add: aob_try_def recorded_def Let_def)
    moreover have "recorded w ?Ms (active, v)"
      using rec True by (auto simp: recorded_def Let_def nth_append min_def)
    ultimately show ?thesis using hit by simp
  next
    case False
    define c where "c = length (Ms pi)"
    define v1 where "v1 = v\<lparr>addrs := (addrs v)[slot_off w ! pi + c := abs_addr], counts := (counts v)[pi := c + 1]\<rparr>"
    define v2 where "v2 = v1\<lparr>done_flags := (done_flags v)[pi := True]\<rparr>"
    have c: "counts v ! pi = c" "\<not> done_flags v ! pi" "length (Ms pi) < cap w pi"
      using rec pi False by (auto simp: recorded_def Let_def c_def)
    have tr: "aob_try w jj read_len goff abs_addr pi v = (if c + 1 = cap w pi then (1, v2) else (0, v1))"
      using hit c by (auto simp: aob_try_def local_hit_def Let_def v1_def v2_def c_def)
    have len: "pi < length (done_flags v)" "length (done_flags v) = length (pats w)"
      using rec pi by (simp_all add: recorded_def Let_def)
    note arrays = record_match [OF wf pi rec abs c(3), folded c_def, folded v1_def]
    have "recorded w ?Ms (active - 1, v2)" if "c + 1 = cap w pi"
      using rec arrays len that length_filter_update [OF len(1) c(2)]
      by (auto simp: recorded_def Let_def v1_def v2_def c_def nth_list_update)
    moreover have "recorded w ?Ms (active, v1)" if "c + 1 \<noteq> cap w pi"
      using rec arrays len that c by (auto simp: recorded_def Let_def v1_def c_def nth_list_update)
    ultimately show ?thesis using hit tr by (simp add: v1_def v2_def)
  qed
qed

lemma try_all_recorded:
  assumes wf: "wf_worker w" and rec: "recorded w Ms st" and dist: "distinct pis" "set pis \<subseteq> {..<length (pats w)}"
    and abs: "abs_addr = base_addr w + of_nat goff"
  shows "recorded w (\<lambda>pi. Ms pi @ (if pi \<in> set pis \<and> local_hit w (readBuf (snd st)) jj read_len goff pi
                                      then [goff] else []))
           (try_all w jj read_len goff abs_addr pis st)
    \<and> readBuf (snd (try_all w jj read_len goff abs_addr pis st)) = readBuf (snd st)"
  using rec dist
proof (induction pis arbitrary: Ms st)
  case Nil
  then show ?case by (simp add: try_all_def)
next
  case (Cons pi pis)
  obtain active v where st: "st = (active, v)" by fastforce
  let ?Ms = "Ms(pi := Ms pi @ (if local_hit w (readBuf v) jj read_len goff pi then [goff] else []))"
  obtain m v' where tr: "aob_try w jj read_len goff abs_addr pi v = (m, v')" "readBuf v' = readBuf v"
      "recorded w ?Ms (active - m, v')"
    using aob_try_recorded [OF wf _ _ abs, of pi Ms active v] Cons.prems st by fastforce
  have eq: "try_all w jj read_len goff abs_addr (pi # pis) st = try_all w jj read_len goff abs_addr pis (active - m, v')"
    by (simp add: try_all_def st tr)
  have "(\<lambda>pj. ?Ms pj @ (if pj \<in> set pis \<and> local_hit w (readBuf v) jj read_len goff pj then [goff] else []))
      = (\<lambda>pj. Ms pj @ (if pj \<in> set (pi # pis) \<and> local_hit w (readBuf v) jj read_len goff pj then [goff] else []))"
    using Cons.prems(2) by (auto simp: fun_eq_iff)
  with Cons.IH [OF tr(3)] Cons.prems(2,3) show ?case by (simp add: eq [unfolded st] st tr(2))
qed

section \<open>The worker on a readable region\<close>

text \<open>
  The interface to the memory behind the callback: \<open>region\<close> is the content of the searched
  range of \<open>rlen\<close> bytes, and a fill of a zeroed buffer delivers it.
\<close>

locale region_source =
  fixes fill :: "nat \<Rightarrow> nat \<Rightarrow> ptr \<Rightarrow> ptr" and region :: ptr and rlen :: nat
  assumes fill_region: "off + n \<le> rlen \<Longrightarrow> i < n \<Longrightarrow> fill off n (memset buf 0 0 n) i = region (off + i)"

definition pat_hit :: "ptr \<Rightarrow> nat \<Rightarrow> aob_pat \<Rightarrow> nat \<Rightarrow> bool" where
  \<comment> \<open>the pattern occurs at offset \<open>off\<close> of a region of \<open>rlen\<close> bytes\<close>
  "pat_hit region rlen p off \<longleftrightarrow>
     off + plen p \<le> rlen \<and> (\<forall>k<plen p. msk p k = 1 \<longrightarrow> region (off + k) = pat p k)"

definition pat_hits :: "ptr \<Rightarrow> nat \<Rightarrow> aob_pat \<Rightarrow> nat \<Rightarrow> nat \<Rightarrow> nat list" where
  "pat_hits region rlen p lo hi = filter (pat_hit region rlen p) [lo..<hi]"

lemma pat_hits_Suc:
  "lo \<le> hi \<Longrightarrow> pat_hits region rlen p lo (Suc hi)
     = pat_hits region rlen p lo hi @ (if pat_hit region rlen p hi then [hi] else [])"
  by (simp add: pat_hits_def)

lemma pat_hits_append:
  "lo \<le> mid \<Longrightarrow> mid \<le> hi \<Longrightarrow>
   pat_hits region rlen p lo hi = pat_hits region rlen p lo mid @ pat_hits region rlen p mid hi"
  by (simp add: pat_hits_def upt_split [of lo mid hi])

lemma recorded_cong:
  assumes "recorded w Ms st" "\<And>pi. pi < length (pats w) \<Longrightarrow> Ms pi = Ns pi"
  shows "recorded w Ns st"
  using assms by (simp add: recorded_def Let_def split_beta)

text \<open>Once every pattern is done, further matches change nothing.\<close>

lemma recorded_done:
  assumes "recorded w Ms st" "fst st = 0"
  shows "recorded w (\<lambda>pi. Ms pi @ Ns pi) st"
proof -
  obtain v where st: "st = (0, v)" using assms(2) by (cases st) auto
  have d: "done_flags v ! pi" if "pi < length (pats w)" for pi
    using assms(1) that by (auto simp: st recorded_def Let_def filter_empty_conv)
  have len: "cap w pi \<le> length (Ms pi)" if "pi < length (pats w)" for pi
    using d [OF that] assms(1) that by (auto simp: st recorded_def Let_def)
  have "min (cap w pi) (length (Ms pi @ Ns pi)) = cap w pi" "min (cap w pi) (length (Ms pi)) = cap w pi"
    "cap w pi \<le> length (Ms pi @ Ns pi)" if "pi < length (pats w)" for pi
    using len [OF that] by simp_all
  then show ?thesis
    using assms(1) d len by (auto simp: st recorded_def Let_def nth_append)
qed

lemma scan_position_recorded:
  assumes wf: "wf_worker w" and rec: "recorded w Ms st" and read: "jj < read_len"
    and buf: "\<And>i. i < read_len \<Longrightarrow> readBuf (snd st) i = region (off + i)"
    and fits: "\<And>p. p \<in> set (pats w) \<Longrightarrow> off + jj + plen p \<le> region_length w \<Longrightarrow>
                 jj + plen p \<le> read_len \<and> jj + plen p < 2 ^ 32"
  shows "recorded w (\<lambda>pi. Ms pi @ (if pat_hit region (region_length w) (pats w ! pi) (off + jj)
                                      then [off + jj] else []))
           (scan_position w off read_len jj st)
    \<and> readBuf (snd (scan_position w off read_len jj st)) = readBuf (snd st)"
proof -
  let ?b = "unat (readBuf (snd st) jj)" and ?n = "length (pats w)" and ?R = "readBuf (snd st)"
  let ?bs = "filter (\<lambda>pi. in_bucket ?b (pats w ! pi)) [0..<?n]"
  let ?ws = "filter (\<lambda>pi. first_fixed (pats w ! pi) < 0) [0..<?n]"
  let ?a = "base_addr w + of_nat (off + jj)"
  have "?b < 2 ^ LENGTH(8)" by (rule unsigned_less)
  then have b: "?b < 256" by simp
  have disp: "disp w = aob_build_dispatch (pats w)" using wf by (simp add: wf_worker_def)
  have ws: "map ((!) (widx (disp w))) [0..<length (widx (disp w))] = ?ws"
    by (simp add: map_nth disp dispatch_correct(2))
  define st1 where "st1 = try_all w jj read_len (off + jj) ?a ?bs st"
  have eq: "scan_position w off read_len jj st = try_all w jj read_len (off + jj) ?a ?ws st1"
    using ws dispatch_correct(1) [OF b, of "pats w"]
    by (simp add: scan_position_def Let_def disp st1_def)
  have sub: "distinct ?bs" "set ?bs \<subseteq> {..<?n}" "distinct ?ws" "set ?ws \<subseteq> {..<?n}" by auto
  note r1 = try_all_recorded [OF wf rec sub(1,2) refl, of jj read_len "off + jj", folded st1_def]
  note r2 = try_all_recorded [OF wf conjunct1 [OF r1] sub(3,4) refl, of jj read_len "off + jj",
      unfolded conjunct2 [OF r1], folded eq]
  have local: "local_hit w ?R jj read_len (off + jj) pi
      \<longleftrightarrow> pat_hit region (region_length w) (pats w ! pi) (off + jj)" if "pi < ?n" for pi
    using fits [OF nth_mem [OF that]] buf
    by (auto simp: local_hit_def pat_hit_def aob_match_at_def aob_loop_iff add.assoc)
  have reach: "pi \<in> set ?bs \<or> pi \<in> set ?ws"
    if "pi < ?n" "pat_hit region (region_length w) (pats w ! pi) (off + jj)" for pi
  proof -
    have p: "wf_pat (pats w ! pi)" using wf that(1) by (simp add: wf_worker_def)
    then have "msk (pats w ! pi) 0 = 1 \<longrightarrow> ?R jj = pat (pats w ! pi) 0"
      using that(2) buf [OF read] by (auto simp: pat_hit_def wf_pat_def dest: spec [of _ 0])
    then show ?thesis using p that(1) by (auto simp: wf_pat_def first_byte_def nat_uint_byte)
  qed
  have fin: "recorded w (\<lambda>pi. (Ms pi @ (if pi \<in> set ?bs \<and> local_hit w ?R jj read_len (off + jj) pi then [off + jj] else []))
        @ (if pi \<in> set ?ws \<and> local_hit w ?R jj read_len (off + jj) pi then [off + jj] else []))
      (scan_position w off read_len jj st)"
    and rb: "readBuf (snd (scan_position w off read_len jj st)) = ?R"
    using r2 by simp_all
  have "(Ms pi @ (if pi \<in> set ?bs \<and> local_hit w ?R jj read_len (off + jj) pi then [off + jj] else []))
        @ (if pi \<in> set ?ws \<and> local_hit w ?R jj read_len (off + jj) pi then [off + jj] else [])
      = Ms pi @ (if pat_hit region (region_length w) (pats w ! pi) (off + jj) then [off + jj] else [])"
    if "pi < ?n" for pi
    using that local [OF that] reach [OF that] by auto
  with rb show ?thesis by (intro conjI recorded_cong [OF fin]) auto
qed

definition progress :: "aob_worker \<Rightarrow> ptr \<Rightarrow> nat \<Rightarrow> nat \<times> aob_private \<Rightarrow> bool" where
  \<comment> \<open>every match that starts in \<open>[start w, x)\<close> has been recorded\<close>
  "progress w region x st \<longleftrightarrow>
     recorded w (\<lambda>pi. pat_hits region (region_length w) (pats w ! pi) (start w) x) st"

lemma progress_done:
  assumes "progress w region x st" "fst st = 0" "start w \<le> x" "x \<le> y"
  shows "progress w region y st"
  using recorded_done [OF assms(1) [unfolded progress_def] assms(2),
      of "\<lambda>pi. pat_hits region (region_length w) (pats w ! pi) x y"]
  by (simp add: progress_def pat_hits_append [OF assms(3,4)])

lemma progress_readBuf: "progress w region x (a, v\<lparr>readBuf := r\<rparr>) = progress w region x (a, v)"
  by (simp add: progress_def recorded_def Let_def)

lemma position_loop_progress:
  assumes wf: "wf_worker w" and own: "own \<le> read_len"
    and fits: "\<And>p jj. p \<in> set (pats w) \<Longrightarrow> jj < own \<Longrightarrow> off + jj + plen p \<le> region_length w \<Longrightarrow>
                 jj + plen p \<le> read_len \<and> jj + plen p < 2 ^ 32"
    and buf: "\<And>i. i < read_len \<Longrightarrow> readBuf (snd st) i = region (off + i)"
    and prog: "progress w region (off + jj) st" and st: "start w \<le> off" and jj: "jj \<le> own"
  shows "progress w region (off + own) (position_loop w off read_len own jj st)"
  using buf prog jj
proof (induction "own - jj" arbitrary: jj st)
  case 0
  then show ?case by (simp add: position_loop.simps)
next
  case (Suc d)
  then have jj: "jj < own" by simp
  let ?st = "scan_position w off read_len jj st"
  have "progress w region (off + Suc jj) ?st" "readBuf (snd ?st) = readBuf (snd st)"
    using scan_position_recorded [OF wf Suc.prems(2) [unfolded progress_def], of jj read_len region off]
      Suc.prems(1) jj own fits st
    by (auto simp: progress_def pat_hits_Suc)
  then show ?case
    using Suc.hyps Suc.prems(1) jj progress_done [of w region "off + Suc jj" ?st "off + own"] st
    by (subst position_loop.simps) (auto simp: Let_def)
qed

context region_source
begin

lemma chunk_loop_progress:
  assumes wf: "wf_worker w" and rl: "region_length w = rlen" and st: "start w \<le> off" and off: "off \<le> end_pos w"
    and prog: "progress w region off s"
  shows "progress w region (end_pos w) (chunk_loop fill w off s)"
  using st off prog
proof (induction "end_pos w - off" arbitrary: off s rule: less_induct)
  case less
  have ends: "0 < chunkSize w" "end_pos w \<le> rlen" "0 < max_plen w" "chunkSize w + max_plen w \<le> 2 ^ 32"
    using wf rl by (auto simp: wf_worker_def)
  show ?case
  proof (cases "off < end_pos w \<and> fst s > 0")
    case False
    then have "chunk_loop fill w off s = s" by (subst chunk_loop.simps) auto
    with False less.prems progress_done [of w region off s "end_pos w"] show ?thesis
      by (cases "off = end_pos w") auto
  next
    case True
    define own where "own = own_of w off"
    define len where "len = read_len_of w off"
    have own: "0 < own" "own \<le> chunkSize w" "off + own \<le> end_pos w"
      using True ends by (auto simp: own_def own_of_def Let_def)
    have "own + max_plen w + 2 ^ 32 - 1 = (own + max_plen w - 1) + 2 ^ 32"
      using own(1) by simp
    then have "(own + max_plen w + 2 ^ 32 - 1) mod 2 ^ 32 = own + max_plen w - 1"
      using own ends by (simp only: mod_add_self2) (simp add: mod_less)
    then have len: "len = min (own + max_plen w - 1) (rlen - off)"
      by (auto simp: len_def read_len_of_def own_def rl Let_def min_def)
    have "off + len \<le> rlen" "own \<le> len" using len own ends by (auto simp: min_def)
    let ?v = "(snd s)\<lparr>readBuf := fill off len (memset (readBuf (snd s)) 0 0 len)\<rparr>"
    have "progress w region off (fst s, ?v)"
      using less.prems(3) progress_readBuf [where v = "snd s" and a = "fst s"] by simp
    then have "progress w region (off + own) (position_loop w off len own 0 (fst s, ?v))"
    proof (intro position_loop_progress [OF wf \<open>own \<le> len\<close>])
      fix p jj assume p: "p \<in> set (pats w)" "jj < own" "off + jj + plen p \<le> region_length w"
      then have "plen p \<le> max_plen w" using wf by (auto simp: wf_worker_def)
      with p own ends len rl show "jj + plen p \<le> len \<and> jj + plen p < 2 ^ 32" by auto
    qed (use fill_region \<open>off + len \<le> rlen\<close> less.prems(1) in auto)
    moreover have "chunk_loop fill w off s = chunk_loop fill w (off + own) (position_loop w off len own 0 (fst s, ?v))"
      using True ends by (subst chunk_loop.simps) (simp add: Let_def own_def len_def)
    ultimately show ?thesis
      using less.hyps [of "off + own"] own less.prems(1) True by simp
  qed
qed

text \<open>
  A worker ends with the earliest \<open>target_count + 1\<close> matches of its sub-range, per pattern.
\<close>

lemma aob_scan_range_recorded:
  assumes "wf_worker w" "region_length w = rlen" "slot_off w ! length (pats w) \<le> length (addrs v)"
  shows "\<exists>active. recorded w (\<lambda>pi. pat_hits region rlen (pats w ! pi) (start w) (end_pos w))
                    (active, aob_scan_range fill w v)"
proof -
  let ?n = "length (pats w)"
  let ?s = "(?n, v\<lparr>counts := replicate ?n 0, done_flags := replicate ?n False\<rparr>)"
  have "filter (\<lambda>pi. \<not> replicate ?n False ! pi) [0..<?n] = [0..<?n]" by (simp add: filter_id_conv)
  then have "progress w region (start w) ?s"
    using assms(3) by (simp add: progress_def recorded_def Let_def pat_hits_def)
  then have "progress w region (end_pos w) (chunk_loop fill w (start w) ?s)"
    using assms(1,2) by (intro chunk_loop_progress) (auto simp: wf_worker_def)
  then show ?thesis
    by (intro exI [of _ "fst (chunk_loop fill w (start w) ?s)"])
       (simp add: progress_def aob_scan_range_def Let_def assms(2))
qed

end

section \<open>The merge and the sequential rule\<close>

definition nth_match :: "u64 \<Rightarrow> nat \<Rightarrow> bool \<Rightarrow> nat list \<Rightarrow> u64" where
  \<comment> \<open>the address of the \<open>tc\<close>-th match, or 0 when there is none or, in unique mode, more\<close>
  "nth_match base tc unique hits =
     (if tc \<ge> 1 \<and> tc \<le> length hits \<and> \<not> (unique \<and> tc < length hits) then base + of_nat (hits ! (tc - 1)) else 0)"

definition merged :: "u64 \<Rightarrow> nat \<Rightarrow> nat list \<Rightarrow> nat \<times> u64 \<times> bool \<Rightarrow> bool" where
  "merged base tc hits = (\<lambda>(total, result, found).
     total = min (tc + 1) (length hits) \<and> found = (tc \<ge> 1 \<and> tc \<le> length hits)
     \<and> (found \<longrightarrow> result = base + of_nat (hits ! (tc - 1))))"

lemma merge_step_merged:
  assumes "merged base tc hits st"
    and "cs ! pi = min (tc + 1) (length new)"
    and "\<And>k. k < cs ! pi \<Longrightarrow> ads ! (slot + k) = base + of_nat (new ! k)"
  shows "merged base tc (hits @ new) (merge_step tc pi slot (ads, cs) st)"
proof -
  obtain tot result found where st: "st = (tot, result, found)" by (metis prod_cases3)
  show ?thesis
  proof (cases "\<not> found \<and> tc \<ge> 1 \<and> tot < tc \<and> tot + cs ! pi \<ge> tc")
    case True
    then have "tot = length hits" "tc - length hits - 1 < cs ! pi" "length hits < tc"
      using assms(1) by (auto simp: st merged_def min_def split: if_splits)
    then show ?thesis
      using True assms(2) assms(3) [of "tc - length hits - 1"]
      by (auto simp: st merged_def merge_step_def Let_def nth_append min_def)
  next
    case False
    then show ?thesis
      using assms(1,2) by (auto simp: st merged_def merge_step_def Let_def nth_append min_def split: if_splits)
  qed
qed

lemma fold_merge_step:
  assumes "\<And>i. i < length ws \<Longrightarrow> snd (ws ! i) ! pi = min (tc + 1) (length (news ! i))
      \<and> (\<forall>k < snd (ws ! i) ! pi. fst (ws ! i) ! (slot + k) = base + of_nat (news ! i ! k))"
    and "length news = length ws"
  shows "merged base tc (concat news) (fold (merge_step tc pi slot) ws (0, 0, False))"
  using assms
proof (induction ws arbitrary: news rule: rev_induct)
  case Nil
  then show ?case by (simp add: merged_def)
next
  case (snoc x ws)
  obtain ns n where news: "news = ns @ [n]" "length ns = length ws"
    using snoc.prems(2) by (metis length_append_singleton length_Suc_conv_rev)
  have "merged base tc (concat ns) (fold (merge_step tc pi slot) ws (0, 0, False))"
  proof (rule snoc.IH [OF _ news(2)])
    fix i assume "i < length ws"
    then show "snd (ws ! i) ! pi = min (tc + 1) (length (ns ! i))
        \<and> (\<forall>k < snd (ws ! i) ! pi. fst (ws ! i) ! (slot + k) = base + of_nat (ns ! i ! k))"
      using snoc.prems(1) [of i] news by (simp add: nth_append)
  qed
  moreover have "snd x ! pi = min (tc + 1) (length n)"
    "\<forall>k < snd x ! pi. fst x ! (slot + k) = base + of_nat (n ! k)"
    using snoc.prems(1) [of "length ws"] news by (auto simp: nth_append)
  ultimately show ?case
    using merge_step_merged [of base tc "concat ns" _ "snd x" pi n "fst x" slot]
    by (simp add: news(1))
qed

lemma merged_result:
  assumes "merged base tc hits (tot, result, found)"
  shows "(if \<not> found then 0 else if unique \<and> tot \<ge> tc + 1 then 0 else result) = nth_match base tc unique hits"
  using assms by (auto simp: merged_def nth_match_def)

end
