(* ===== verification/Net.thy ===== *)
theory Net
  imports Prelude
begin

text \<open>
  The transport layer, \<^verbatim>\<open>debugger/source/net.c\<close>: the chunked send and receive loops,
  the bit-swapped status words and the buffer allocator every handler uses.

  What the operating system decides is part of the connection record: how many bytes the
  \<open>k\<close>-th call of \<^verbatim>\<open>send\<close> or \<^verbatim>\<open>recv\<close> transfers (0 stands for an error or an
  orderly shutdown), whether the \<open>k\<close>-th \<^verbatim>\<open>malloc\<close> succeeds and what the block it
  returns contains. \<open>rx\<close> is everything the peer will ever deliver on the connection and
  \<open>tx\<close> everything the kernel has accepted from the server, in order.
\<close>

record conn =
  rx :: "byte list"
  tx :: "byte list"
  nsend :: nat
  send_cap :: "nat \<Rightarrow> nat"
  nrecv :: nat
  recv_cap :: "nat \<Rightarrow> nat"
  nalloc :: nat
  malloc_ok :: "nat \<Rightarrow> bool"
  junk :: "nat \<Rightarrow> nat \<Rightarrow> byte"

definition NET_MAX_LENGTH :: nat where
  "NET_MAX_LENGTH = 8192"

section \<open>Operations\<close>

text \<open>The loop of \<^verbatim>\<open>net_send_all\<close>; its argument is what is left to send.\<close>

function send_loop :: "byte list \<Rightarrow> ('z) conn_scheme \<Rightarrow> int \<times> 'z conn_scheme" where
  "send_loop bs c =
     (if bs = [] then (0, c)
      else let chunk = (if length bs > NET_MAX_LENGTH then NET_MAX_LENGTH else length bs);
               n = min (send_cap c (nsend c)) chunk;
               c' = c\<lparr>nsend := nsend c + 1, tx := tx c @ take n bs\<rparr>
           in if n = 0 then (-1, c') else send_loop (drop n bs) c')"
  by pat_completeness auto
termination
  by (relation "measure (\<lambda>(bs, c). length bs)") (auto simp: Let_def)

definition net_send_all :: "ptr \<Rightarrow> int \<Rightarrow> 'z conn_scheme \<Rightarrow> int \<times> 'z conn_scheme" where
  "net_send_all p len c = send_loop (bytes_at p 0 (nat len)) c"

text \<open>
  The loop of \<^verbatim>\<open>net_recv_all\<close>: \<open>off\<close> is how far the write pointer has moved into the
  buffer and \<open>left\<close> what is still wanted. The \<^verbatim>\<open>force\<close> argument only selects
  \<^verbatim>\<open>MSG_WAITALL\<close>, under which a call may still return less than it was asked for.
\<close>

function recv_loop :: "ptr \<Rightarrow> nat \<Rightarrow> nat \<Rightarrow> 'z conn_scheme \<Rightarrow> int \<times> ptr \<times> 'z conn_scheme" where
  "recv_loop p off left c =
     (if left = 0 then (0, p, c)
      else let chunk = (if left > NET_MAX_LENGTH then NET_MAX_LENGTH else left);
               n = min (recv_cap c (nrecv c)) (min chunk (length (rx c)));
               c' = c\<lparr>nrecv := nrecv c + 1, rx := drop n (rx c)\<rparr>
           in if n = 0 then (-1, p, c')
              else recv_loop (blit p off (take n (rx c))) (off + n) (left - n) c')"
  by pat_completeness auto
termination
  by (relation "measure (\<lambda>(p, off, left, c). left)") (auto simp: Let_def)

definition net_recv_all :: "ptr \<Rightarrow> int \<Rightarrow> int \<Rightarrow> 'z conn_scheme \<Rightarrow> int \<times> ptr \<times> 'z conn_scheme" where
  "net_recv_all p len force c = recv_loop p 0 (nat len) c"

definition bitswap32 :: "u32 \<Rightarrow> u32" where
  "bitswap32 x = (drop_bit 1 x AND 0x55555555) OR (push_bit 1 x AND 0xAAAAAAAA)"

definition net_send_int32 :: "u32 \<Rightarrow> 'z conn_scheme \<Rightarrow> int \<times> 'z conn_scheme" where
  "net_send_int32 value c =
     (let wire = bitswap32 value in net_send_all (of_list (le_bytes 4 wire)) 4 c)"

text \<open>
  \<^verbatim>\<open>malloc\<close> hands out a block with unspecified contents or fails;
  \<^verbatim>\<open>net_alloc_buffer\<close> touches one byte per page and the last one.
\<close>

definition malloc :: "'z conn_scheme \<Rightarrow> ptr option \<times> 'z conn_scheme" where
  "malloc c = (if malloc_ok c (nalloc c) then Some (junk c (nalloc c)) else None,
               c\<lparr>nalloc := nalloc c + 1\<rparr>)"

definition net_alloc_buffer :: "nat \<Rightarrow> 'z conn_scheme \<Rightarrow> ptr option \<times> 'z conn_scheme" where
  "net_alloc_buffer sz c =
     (if sz = 0 then (None, c)
      else case malloc c of
             (None, c) \<Rightarrow> (None, c)
           | (Some p, c) \<Rightarrow>
               (Some (\<lambda>i. if i < sz \<and> 0x1000 dvd i \<or> i = sz - 1 then 0 else p i), c))"

abbreviation status :: "u32 \<Rightarrow> byte list" where
  \<comment> \<open>a status word on the wire\<close>
  "status v \<equiv> le_bytes 4 (bitswap32 v)"

text \<open>Most handlers discard the result of a send.\<close>

definition send_int32 :: "u32 \<Rightarrow> 'z conn_scheme \<Rightarrow> 'z conn_scheme" where
  "send_int32 v c = snd (net_send_int32 v c)"

definition send_all :: "byte list \<Rightarrow> 'z conn_scheme \<Rightarrow> 'z conn_scheme" where
  "send_all bs c = snd (net_send_all (of_list bs) (int (length bs)) c)"

definition recv_all :: "ptr \<Rightarrow> int \<Rightarrow> 'z conn_scheme \<Rightarrow> ptr \<times> 'z conn_scheme" where
  "recv_all p len c = snd (net_recv_all p len 1 c)"

declare send_loop.simps [simp del] recv_loop.simps [simp del]

section \<open>Sending\<close>

lemma bytes_at_of_list [simp]: "bytes_at (of_list bs) 0 (length bs) = bs"
  by (rule nth_equalityI) (auto simp: of_list_def)

text \<open>
  The outcome of a send in one statement: the kernel has accepted a prefix of the data,
  appended to what was accepted before; the prefix is everything exactly when the call
  reports success; nothing else of the connection but the call counter has changed.
\<close>

lemma send_loop_spec:
  "\<exists>k m. send_loop bs c =
      (if k = length bs then 0 else -1, c\<lparr>nsend := nsend c + m, tx := tx c @ take k bs\<rparr>)
      \<and> k \<le> length bs"
proof (induction bs c rule: send_loop.induct)
  case (1 bs c)
  define chunk where "chunk = (if length bs > NET_MAX_LENGTH then NET_MAX_LENGTH else length bs)"
  define n where "n = min (send_cap c (nsend c)) chunk"
  define c' where "c' = c\<lparr>nsend := nsend c + 1, tx := tx c @ take n bs\<rparr>"
  have unf: "send_loop bs c =
      (if bs = [] then (0, c) else if n = 0 then (-1, c') else send_loop (drop n bs) c')"
    unfolding c'_def n_def chunk_def by (subst send_loop.simps) (simp only: Let_def)
  consider "bs = []" | "bs \<noteq> []" "n = 0" | "bs \<noteq> []" "n \<noteq> 0" by blast
  then show ?case
  proof cases
    case 1
    then show ?thesis
      by (intro exI [of _ 0]) (simp add: send_loop.simps)
  next
    case 2
    then have "send_loop bs c = (-1, c')"
      by (simp add: unf)
    with 2 show ?thesis
      by (intro exI [of _ 0] exI [of _ 1]) (simp add: c'_def)
  next
    case 3
    then have eq: "send_loop bs c = send_loop (drop n bs) c'"
      by (simp add: unf)
    obtain k m where *: "send_loop (drop n bs) c' =
        (if k = length (drop n bs) then 0 else -1,
         c'\<lparr>nsend := nsend c' + m, tx := tx c' @ take k (drop n bs)\<rparr>)"
      "k \<le> length (drop n bs)"
      using "1.IH" [OF 3(1) chunk_def n_def c'_def 3(2)] by blast
    have "n \<le> length bs" by (auto simp: n_def chunk_def min_def)
    with * show ?thesis
      by (intro exI [of _ "n + k"] exI [of _ "m + 1"])
         (auto simp: eq c'_def take_add)
  qed
qed

text \<open>A peer that keeps reading receives everything.\<close>

definition send_live :: "'z conn_scheme \<Rightarrow> bool" where
  "send_live c \<longleftrightarrow> (\<forall>k. 0 < send_cap c k)"

lemma send_loop_live:
  "send_live c \<Longrightarrow> \<exists>m. send_loop bs c = (0, c\<lparr>nsend := nsend c + m, tx := tx c @ bs\<rparr>)"
proof (induction bs c rule: send_loop.induct)
  case (1 bs c)
  define chunk where "chunk = (if length bs > NET_MAX_LENGTH then NET_MAX_LENGTH else length bs)"
  define n where "n = min (send_cap c (nsend c)) chunk"
  define c' where "c' = c\<lparr>nsend := nsend c + 1, tx := tx c @ take n bs\<rparr>"
  have unf: "send_loop bs c =
      (if bs = [] then (0, c) else if n = 0 then (-1, c') else send_loop (drop n bs) c')"
    unfolding c'_def n_def chunk_def by (subst send_loop.simps) (simp only: Let_def)
  show ?case
  proof (cases "bs = []")
    case True
    then show ?thesis by (intro exI [of _ 0]) (simp add: send_loop.simps)
  next
    case False
    then have pos: "n \<noteq> 0"
      using 1(2) by (auto simp: n_def chunk_def NET_MAX_LENGTH_def send_live_def)
    with False have eq: "send_loop bs c = send_loop (drop n bs) c'"
      by (simp add: unf)
    have "send_live c'" using 1(2) by (simp add: send_live_def c'_def)
    then obtain m where "send_loop (drop n bs) c' =
        (0, c'\<lparr>nsend := nsend c' + m, tx := tx c' @ drop n bs\<rparr>)"
      using "1.IH" [OF False chunk_def n_def c'_def pos] by blast
    then show ?thesis
      by (intro exI [of _ "m + 1"]) (simp add: eq c'_def)
  qed
qed

section \<open>Receiving\<close>

lemma recv_loop_spec:
  "\<exists>k m. recv_loop p off left c =
      (if k = left then 0 else -1, blit p off (take k (rx c)),
       c\<lparr>nrecv := nrecv c + m, rx := drop k (rx c)\<rparr>)
      \<and> k \<le> left \<and> k \<le> length (rx c)"
proof (induction p off left c rule: recv_loop.induct)
  case (1 p off left c)
  define chunk where "chunk = (if left > NET_MAX_LENGTH then NET_MAX_LENGTH else left)"
  define n where "n = min (recv_cap c (nrecv c)) (min chunk (length (rx c)))"
  define c' where "c' = c\<lparr>nrecv := nrecv c + 1, rx := drop n (rx c)\<rparr>"
  have unf: "recv_loop p off left c =
      (if left = 0 then (0, p, c) else if n = 0 then (-1, p, c')
       else recv_loop (blit p off (take n (rx c))) (off + n) (left - n) c')"
    unfolding c'_def n_def chunk_def by (subst recv_loop.simps) (simp only: Let_def)
  consider "left = 0" | "left \<noteq> 0" "n = 0" | "left \<noteq> 0" "n \<noteq> 0" by blast
  then show ?case
  proof cases
    case 1
    then show ?thesis
      by (intro exI [of _ 0]) (simp add: recv_loop.simps)
  next
    case 2
    then have "recv_loop p off left c = (-1, p, c')"
      by (simp add: unf)
    with 2 show ?thesis
      by (intro exI [of _ 0] exI [of _ 1]) (simp add: c'_def)
  next
    case 3
    let ?p = "blit p off (take n (rx c))"
    from 3 have eq: "recv_loop p off left c = recv_loop ?p (off + n) (left - n) c'"
      by (simp add: unf)
    have n: "n \<le> left" "n \<le> length (rx c)" by (auto simp: n_def chunk_def min_def)
    obtain k m where *: "recv_loop ?p (off + n) (left - n) c' =
        (if k = left - n then 0 else -1, blit ?p (off + n) (take k (rx c')),
         c'\<lparr>nrecv := nrecv c' + m, rx := drop k (rx c')\<rparr>)"
      "k \<le> left - n" "k \<le> length (rx c')"
      using "1.IH" [OF 3(1) chunk_def n_def c'_def 3(2)] by blast
    have "blit ?p (off + n) (take k (drop n (rx c))) = blit p off (take (n + k) (rx c))"
      using n blit_blit [of p off "take n (rx c)" "take k (drop n (rx c))"]
      by (simp add: min_absorb2 take_add)
    with * n show ?thesis
      by (intro exI [of _ "n + k"] exI [of _ "m + 1"])
         (auto simp: eq c'_def add.commute)
  qed
qed

definition recv_live :: "'z conn_scheme \<Rightarrow> bool" where
  "recv_live c \<longleftrightarrow> (\<forall>k. 0 < recv_cap c k)"

lemma recv_loop_live:
  "recv_live c \<Longrightarrow> left \<le> length (rx c) \<Longrightarrow>
   \<exists>m. recv_loop p off left c =
      (0, blit p off (take left (rx c)), c\<lparr>nrecv := nrecv c + m, rx := drop left (rx c)\<rparr>)"
proof (induction p off left c rule: recv_loop.induct)
  case (1 p off left c)
  define chunk where "chunk = (if left > NET_MAX_LENGTH then NET_MAX_LENGTH else left)"
  define n where "n = min (recv_cap c (nrecv c)) (min chunk (length (rx c)))"
  define c' where "c' = c\<lparr>nrecv := nrecv c + 1, rx := drop n (rx c)\<rparr>"
  have unf: "recv_loop p off left c =
      (if left = 0 then (0, p, c) else if n = 0 then (-1, p, c')
       else recv_loop (blit p off (take n (rx c))) (off + n) (left - n) c')"
    unfolding c'_def n_def chunk_def by (subst recv_loop.simps) (simp only: Let_def)
  let ?p = "blit p off (take n (rx c))"
  show ?case
  proof (cases "left = 0")
    case True
    then show ?thesis by (intro exI [of _ 0]) (simp add: recv_loop.simps)
  next
    case False
    have n: "n \<noteq> 0" "n \<le> left" "n \<le> length (rx c)"
      using False 1(2,3) by (auto simp: n_def chunk_def NET_MAX_LENGTH_def recv_live_def)
    with False have eq: "recv_loop p off left c = recv_loop ?p (off + n) (left - n) c'"
      by (simp add: unf)
    have "recv_live c'" "left - n \<le> length (rx c')"
      using 1(2,3) by (simp_all add: recv_live_def c'_def)
    then obtain m where *: "recv_loop ?p (off + n) (left - n) c' =
        (0, blit ?p (off + n) (take (left - n) (rx c')),
         c'\<lparr>nrecv := nrecv c' + m, rx := drop (left - n) (rx c')\<rparr>)"
      using "1.IH" [OF False chunk_def n_def c'_def n(1)] by blast
    have "take (n + (left - n)) (rx c) = take n (rx c) @ take (left - n) (drop n (rx c))"
      by (rule take_add)
    then have "blit ?p (off + n) (take (left - n) (drop n (rx c))) = blit p off (take left (rx c))"
      using n blit_blit [of p off "take n (rx c)" "take (left - n) (drop n (rx c))"]
      by (simp add: min_absorb2)
    with * n show ?thesis
      by (intro exI [of _ "m + 1"]) (simp add: eq c'_def)
  qed
qed

section \<open>Frame lemmas for the handlers\<close>

text \<open>
  \<open>quiet c\<close>: the connection is healthy and memory is available, the situation of every
  "functional behaviour" statement about a handler.
\<close>

definition quiet :: "'z conn_scheme \<Rightarrow> bool" where
  "quiet c \<longleftrightarrow> send_live c \<and> recv_live c \<and> (\<forall>k. malloc_ok c k)"

named_theorems conn_frame \<open>what the transport operations leave alone\<close>

lemma send_all_ex: "\<exists>k m. send_all bs c = c\<lparr>nsend := nsend c + m, tx := tx c @ take k bs\<rparr>"
proof -
  obtain k m where "send_loop bs c =
      (if k = length bs then 0 else -1, c\<lparr>nsend := nsend c + m, tx := tx c @ take k bs\<rparr>)"
    using send_loop_spec by blast
  then show ?thesis by (auto simp: send_all_def net_send_all_def)
qed

lemma recv_all_ex:
  "\<exists>k m. recv_all p len c = (blit p 0 (take k (rx c)), c\<lparr>nrecv := nrecv c + m, rx := drop k (rx c)\<rparr>)"
proof -
  obtain k m where "recv_loop p 0 (nat len) c =
      (if k = nat len then 0 else -1, blit p 0 (take k (rx c)),
       c\<lparr>nrecv := nrecv c + m, rx := drop k (rx c)\<rparr>)"
    using recv_loop_spec by blast
  then have "recv_all p len c =
      (blit p 0 (take k (rx c)), c\<lparr>nrecv := nrecv c + m, rx := drop k (rx c)\<rparr>)"
    by (simp add: recv_all_def net_recv_all_def)
  then show ?thesis by blast
qed

lemma send_all_live:
  assumes "send_live c"
  shows "\<exists>m. send_all bs c = c\<lparr>nsend := nsend c + m, tx := tx c @ bs\<rparr>"
proof -
  obtain m where "send_loop bs c = (0, c\<lparr>nsend := nsend c + m, tx := tx c @ bs\<rparr>)"
    using send_loop_live [OF assms] by blast
  then show ?thesis by (auto simp: send_all_def net_send_all_def)
qed

lemma send_all_frame [conn_frame]:
  "rx (send_all bs c) = rx c" "nalloc (send_all bs c) = nalloc c"
  "send_cap (send_all bs c) = send_cap c" "recv_cap (send_all bs c) = recv_cap c"
  "malloc_ok (send_all bs c) = malloc_ok c" "junk (send_all bs c) = junk c"
  "nrecv (send_all bs c) = nrecv c" "conn.more (send_all bs c) = conn.more c"
  using send_all_ex [of bs c] by auto

lemma send_int32_conv: "send_int32 v c = send_all (le_bytes 4 (bitswap32 v)) c"
  by (simp add: send_int32_def net_send_int32_def send_all_def)

lemma quiet_send_all [simp]: "quiet (send_all bs c) = quiet c"
  by (simp add: quiet_def send_live_def recv_live_def conn_frame)

lemma quiet_send_int32 [simp]: "quiet (send_int32 v c) = quiet c"
  by (simp add: send_int32_conv)

lemma tx_send_all [simp]: "quiet c \<Longrightarrow> tx (send_all bs c) = tx c @ bs"
  using send_all_live [of c bs] by (auto simp: quiet_def)

lemma tx_send_int32 [simp]: "quiet c \<Longrightarrow> tx (send_int32 v c) = tx c @ le_bytes 4 (bitswap32 v)"
  by (simp add: send_int32_conv)

lemma rx_send_all [simp]: "rx (send_all bs c) = rx c"
  by (rule conn_frame)

lemma rx_send_int32 [simp]: "rx (send_int32 v c) = rx c"
  by (simp add: send_int32_conv)

lemma nalloc_send_all [simp]: "nalloc (send_all bs c) = nalloc c"
  by (rule conn_frame)

lemma nalloc_send_int32 [simp]: "nalloc (send_int32 v c) = nalloc c"
  by (simp add: send_int32_conv)

lemma junk_send_all [simp]: "junk (send_all bs c) = junk c"
  by (rule conn_frame)

lemma junk_send_int32 [simp]: "junk (send_int32 v c) = junk c"
  by (simp add: send_int32_conv)

lemma quiet_alloc:
  assumes "quiet c" "0 < sz"
  shows "\<exists>p. net_alloc_buffer sz c = (Some p, c\<lparr>nalloc := nalloc c + 1\<rparr>)
     \<and> p = (\<lambda>i. if i < sz \<and> 0x1000 dvd i \<or> i = sz - 1 then 0 else junk c (nalloc c) i)"
  using assms by (simp add: net_alloc_buffer_def malloc_def quiet_def)

lemma quiet_nalloc [simp]: "quiet (c\<lparr>nalloc := n\<rparr>) = quiet c"
  by (simp add: quiet_def send_live_def recv_live_def)

lemma quiet_recv_all:
  assumes "quiet c" "nat len \<le> length (rx c)"
  shows "\<exists>m. recv_all p len c =
     (blit p 0 (take (nat len) (rx c)), c\<lparr>nrecv := nrecv c + m, rx := drop (nat len) (rx c)\<rparr>)"
  using recv_loop_live [of c "nat len" p 0] assms
  by (fastforce simp: recv_all_def net_recv_all_def quiet_def)

lemma quiet_recv [simp]: "quiet (c\<lparr>nrecv := m, rx := r\<rparr>) = quiet c"
  by (simp add: quiet_def send_live_def recv_live_def)

section \<open>Properties\<close>

text \<open>
  \<^verbatim>\<open>net_send_all\<close> hands the kernel a prefix of the buffer, in order and without gaps,
  however the data is cut up by short writes; it returns 0 exactly when the prefix is the
  whole buffer and -1 otherwise, and touches nothing else.
\<close>

lemma net_send_all_prefix:
  "\<exists>k m. k \<le> nat len \<and>
     net_send_all p len c =
       (if k = nat len then 0 else -1,
        c\<lparr>nsend := nsend c + m, tx := tx c @ bytes_at p 0 k\<rparr>)"
proof -
  obtain k m where "k \<le> nat len" "send_loop (bytes_at p 0 (nat len)) c =
      (if k = nat len then 0 else -1,
       c\<lparr>nsend := nsend c + m, tx := tx c @ take k (bytes_at p 0 (nat len))\<rparr>)"
    using send_loop_spec [of "bytes_at p 0 (nat len)" c] by auto
  then show ?thesis by (auto simp: net_send_all_def min_def)
qed

text \<open>
  \<^verbatim>\<open>net_recv_all\<close> consumes a prefix of the incoming stream and stores exactly that
  prefix at the start of the buffer, leaving the rest of the buffer and the stream alone;
  it returns 0 exactly when the wanted number of bytes arrived.
\<close>

lemma net_recv_all_prefix:
  "\<exists>k m. k \<le> nat len \<and> k \<le> length (rx c) \<and>
     net_recv_all p len force c =
       (if k = nat len then 0 else -1, blit p 0 (take k (rx c)),
        c\<lparr>nrecv := nrecv c + m, rx := drop k (rx c)\<rparr>)"
  unfolding net_recv_all_def using recv_loop_spec [of p 0 "nat len" c] by blast

text \<open>
  C29: what one side sends with \<^verbatim>\<open>net_send_all\<close> over live connections, the other side reads
  back with \<^verbatim>\<open>net_recv_all\<close>, whatever the two kernels cut the stream into.
\<close>

theorem send_recv_roundtrip:
  assumes "send_live a" "recv_live b" "rx b = tx (snd (net_send_all p len a))" "tx a = []"
  shows "\<exists>m. net_recv_all q len force b = (0, blit q 0 (bytes_at p 0 (nat len)), b\<lparr>nrecv := m, rx := []\<rparr>)"
proof -
  obtain m where "send_loop (bytes_at p 0 (nat len)) a =
      (0, a\<lparr>nsend := nsend a + m, tx := tx a @ bytes_at p 0 (nat len)\<rparr>)"
    using send_loop_live [OF assms(1)] by blast
  then have rx: "rx b = bytes_at p 0 (nat len)"
    using assms(3,4) by (simp add: net_send_all_def)
  obtain m where "recv_loop q 0 (nat len) b =
      (0, blit q 0 (take (nat len) (rx b)), b\<lparr>nrecv := nrecv b + m, rx := drop (nat len) (rx b)\<rparr>)"
    using recv_loop_live [OF assms(2), of "nat len" q 0] by (auto simp: rx)
  then show ?thesis by (auto simp: net_recv_all_def rx)
qed

definition example_conn :: conn where
  "example_conn = \<lparr>rx = [], tx = [], nsend = 0, send_cap = (\<lambda>_. 3), nrecv = 0,
     recv_cap = (\<lambda>_. 2), nalloc = 0, malloc_ok = (\<lambda>_. True), junk = (\<lambda>_ _. 0xAA)\<rparr>"

lemma quiet_example_conn [simp]: "quiet example_conn"
  by (simp add: quiet_def send_live_def recv_live_def example_conn_def)

theorem send_recv_roundtrip_witness:
  "\<exists>m. net_recv_all (\<lambda>_. 0) 5 1
        (example_conn\<lparr>rx := tx (snd (net_send_all (of_list [1, 2, 3, 4, 5]) 5 example_conn))\<rparr>)
      = (0, blit (\<lambda>_. 0) 0 (bytes_at (of_list [1, 2, 3, 4, 5]) 0 (nat 5)),
         (example_conn\<lparr>rx := tx (snd (net_send_all (of_list [1, 2, 3, 4, 5]) 5 example_conn))\<rparr>)
           \<lparr>nrecv := m, rx := []\<rparr>)"
  by (rule send_recv_roundtrip [where a = example_conn])
     (simp_all add: example_conn_def send_live_def recv_live_def)

lemma bit_masks:
  "n < 32 \<Longrightarrow> bit (0x55555555 :: u32) n = even n"
  "n < 32 \<Longrightarrow> bit (0xAAAAAAAA :: u32) n = odd n"
proof -
  have "\<forall>n\<in>set [0..<32]. bit (0x55555555 :: u32) n = even n \<and> bit (0xAAAAAAAA :: u32) n = odd n"
    by code_simp
  then show "n < 32 \<Longrightarrow> bit (0x55555555 :: u32) n = even n"
    "n < 32 \<Longrightarrow> bit (0xAAAAAAAA :: u32) n = odd n"
    by auto
qed

text \<open>
  The status-word encoding is its own inverse, so a client that applies the same
  exchange of adjacent bits recovers every status the server sends.
\<close>

lemma bitswap32_involution: "bitswap32 (bitswap32 x) = x"
proof (rule bit_word_eqI)
  fix n assume n: "n < LENGTH(32)"
  have "bit (bitswap32 x) m = (if even m then bit x (m + 1) else bit x (m - 1))"
    if "m < 32" for m :: nat and x
    using that unfolding bitswap32_def bit_or_iff bit_and_iff bit_drop_bit_eq bit_push_bit_iff
      bit_masks [OF that] comp_def possible_bit_word
    by (cases "even m") (auto elim: oddE)
  then show "bit (bitswap32 (bitswap32 x)) n = bit x n"
    using n by (cases "even n") (auto elim!: evenE oddE)
qed

end
