(* ===== verification/Reader.thy ===== *)
theory Reader
  imports Net
begin

text \<open>
  The interface between the scanners and the memory of the inspected process.
  \<^verbatim>\<open>proc_read_mem(pid, addr, len, buf)\<close> has no result: it leaves the bytes it could read in
  the buffer. A scan handler takes it as the function \<open>rd pid addr len buf\<close>, the buffer after
  the call. The locale states what a scanner relies on for a readable range; the theories of
  the lower layers show that the debugger's own \<^verbatim>\<open>proc_read_mem\<close> meets it.
\<close>

type_synonym reader = "u32 \<Rightarrow> u64 \<Rightarrow> nat \<Rightarrow> ptr \<Rightarrow> ptr"

locale target_reader =
  fixes rd :: reader
    and mem :: "u32 \<Rightarrow> u64 \<Rightarrow> byte"
    and readable :: "u32 \<Rightarrow> u64 \<Rightarrow> nat \<Rightarrow> bool"
  assumes rd_read: "readable pid a n \<Longrightarrow> i < n \<Longrightarrow> rd pid a n buf i = mem pid (a + of_nat i)"
    and readable_sub: "readable pid a n \<Longrightarrow> k + m \<le> n \<Longrightarrow> readable pid (a + of_nat k) m"

definition window :: "(u64 \<Rightarrow> byte) \<Rightarrow> u64 \<Rightarrow> ptr" where
  \<comment> \<open>memory seen from an address on\<close>
  "window m a = (\<lambda>i. m (a + of_nat i))"

lemma window_apply: "window m a i = m (a + of_nat i)"
  by (simp add: window_def)

lemma shift_window: "shift (window m a) k = window m (a + of_nat k)"
  by (simp add: fun_eq_iff add.assoc window_apply)

context target_reader
begin

lemma rd_window: "readable pid a n \<Longrightarrow> i < n \<Longrightarrow> rd pid a n buf i = window (mem pid) a i"
  by (simp add: rd_read window_apply)

lemma rd_bytes: "readable pid a n \<Longrightarrow> off + k \<le> n \<Longrightarrow>
  bytes_at (rd pid a n buf) off k = bytes_at (window (mem pid) a) off k"
  by (rule nth_equalityI) (auto simp: rd_read window_apply)

end

section \<open>What a handler did to its connection\<close>

text \<open>
  \<open>io c ins outs c'\<close>: between \<open>c\<close> and \<open>c'\<close> the bytes \<open>ins\<close> were received and \<open>outs\<close> sent;
  nothing else changed but the counters of system calls and allocations.
\<close>

definition io :: "'z conn_scheme \<Rightarrow> byte list \<Rightarrow> byte list \<Rightarrow> 'z conn_scheme \<Rightarrow> bool" where
  "io c ins outs c' \<longleftrightarrow> rx c = ins @ rx c' \<and>
     (\<exists>ns nr na. c' = c\<lparr>nsend := ns, nrecv := nr, nalloc := na, rx := rx c', tx := tx c @ outs\<rparr>)"

lemma io_intro:
  "d = c\<lparr>nsend := a, nrecv := b, nalloc := n, rx := r, tx := tx c @ outs\<rparr> \<Longrightarrow> rx c = ins @ r \<Longrightarrow> io c ins outs d"
  unfolding io_def by auto

lemma io_refl [simp]: "io c [] [] c"
  by (rule io_intro [where a = "nsend c" and b = "nrecv c" and n = "nalloc c" and r = "rx c"]) simp_all

lemma io_trans:
  assumes "io c i1 o1 d" "io d i2 o2 e"
  shows "io c (i1 @ i2) (o1 @ o2) e"
proof -
  obtain a b n where d: "d = c\<lparr>nsend := a, nrecv := b, nalloc := n, rx := rx d, tx := tx c @ o1\<rparr>" "rx c = i1 @ rx d"
    using assms(1) by (auto simp: io_def)
  obtain a' b' n' where e: "e = d\<lparr>nsend := a', nrecv := b', nalloc := n', rx := rx e, tx := tx d @ o2\<rparr>" "rx d = i2 @ rx e"
    using assms(2) by (auto simp: io_def)
  have "tx d = tx c @ o1" by (subst d(1)) simp
  then have "e = c\<lparr>nsend := a', nrecv := b', nalloc := n', rx := rx e, tx := tx c @ o1 @ o2\<rparr>"
    by (subst e(1), subst d(1)) simp
  with d(2) e(2) show ?thesis unfolding io_def by auto
qed

lemma io_fields:
  assumes "io c ins outs d"
  shows "quiet d = quiet c" "rx c = ins @ rx d" "tx d = tx c @ outs" "junk d = junk c"
    "malloc_ok d = malloc_ok c" "conn.more d = conn.more c"
proof -
  obtain a b n where d: "d = c\<lparr>nsend := a, nrecv := b, nalloc := n, rx := rx d, tx := tx c @ outs\<rparr>"
    using assms by (auto simp: io_def)
  show "rx c = ins @ rx d" using assms by (simp add: io_def)
  show "quiet d = quiet c" by (subst d) (simp add: quiet_def send_live_def recv_live_def)
  show "tx d = tx c @ outs" by (subst d) simp
  show "junk d = junk c" by (subst d) simp
  show "malloc_ok d = malloc_ok c" by (subst d) simp
  show "conn.more d = conn.more c" by (subst d) simp
qed

lemma io_send_all: "quiet c \<Longrightarrow> io c [] bs (send_all bs c)"
proof -
  assume "quiet c"
  then obtain m where "send_all bs c = c\<lparr>nsend := nsend c + m, tx := tx c @ bs\<rparr>"
    using send_all_live [of c bs] by (auto simp: quiet_def)
  then show ?thesis
    by (intro io_intro [where a = "nsend c + m" and b = "nrecv c" and n = "nalloc c" and r = "rx c"]) simp_all
qed

lemma io_send_int32: "quiet c \<Longrightarrow> io c [] (status v) (send_int32 v c)"
  by (simp add: send_int32_conv io_send_all)

lemma io_nalloc: "io c [] [] (c\<lparr>nalloc := n\<rparr>)"
  by (rule io_intro [where a = "nsend c" and b = "nrecv c" and n = n and r = "rx c"]) simp_all

lemma io_recv:
  assumes "quiet c" "rx c = bs @ rest" "nat len = length bs"
  obtains d where "recv_all p len c = (blit p 0 bs, d)" "io c bs [] d" "rx d = rest"
proof -
  obtain m where "recv_all p len c = (blit p 0 bs, c\<lparr>nrecv := nrecv c + m, rx := rest\<rparr>)"
    using quiet_recv_all [of c len p] assms by auto
  moreover have "io c bs [] (c\<lparr>nrecv := nrecv c + m, rx := rest\<rparr>)"
    using assms(2)
    by (intro io_intro [where a = "nsend c" and b = "nrecv c + m" and n = "nalloc c" and r = rest]) simp_all
  ultimately show thesis using that by simp
qed

lemma net_recv_quiet:
  assumes "quiet c" "rx c = bs @ rest" "nat len = length bs"
  obtains d where "net_recv_all p len 1 c = (0, blit p 0 bs, d)" "io c bs [] d" "rx d = rest"
proof (rule io_recv [OF assms, of p])
  fix d assume d: "recv_all p len c = (blit p 0 bs, d)" "io c bs [] d" "rx d = rest"
  obtain k m where r: "net_recv_all p len 1 c = (if k = nat len then 0 else -1, blit p 0 (take k (rx c)),
      c\<lparr>nrecv := nrecv c + m, rx := drop k (rx c)\<rparr>)" "k \<le> nat len" "k \<le> length (rx c)"
    using recv_loop_spec [of p 0 "nat len" c] unfolding net_recv_all_def by blast
  then have "d = c\<lparr>nrecv := nrecv c + m, rx := drop k (rx c)\<rparr>" using d(1) by (simp add: recv_all_def)
  then have "rx d = drop k (rx c)" by simp
  then have "drop k (bs @ rest) = rest" using d(3) assms(2) by simp
  then have "length (drop k (bs @ rest)) = length rest" by simp
  then have "k = nat len" using r(2) assms(3) by simp
  then show thesis using that d r by (auto simp: recv_all_def)
qed

section \<open>Allocation\<close>

definition alloc_all :: "nat list \<Rightarrow> 'z conn_scheme \<Rightarrow> ptr option list \<times> 'z conn_scheme" where
  \<comment> \<open>several \<^verbatim>\<open>net_alloc_buffer\<close> calls in a row; sizes are 32-bit arguments\<close>
  "alloc_all szs c = fold (\<lambda>sz (ps, c). let (p, c) = net_alloc_buffer (sz mod 2 ^ 32) c in (ps @ [p], c)) szs ([], c)"

lemma alloc_all_Nil [simp]: "alloc_all [] c = ([], c)"
  by (simp add: alloc_all_def)

lemma alloc_all_snoc:
  "alloc_all (szs @ [sz]) c =
     (let (ps, c) = alloc_all szs c; (p, c) = net_alloc_buffer (sz mod 2 ^ 32) c in (ps @ [p], c))"
  by (simp add: alloc_all_def Let_def split_beta)

definition alloc_block :: "'z conn_scheme \<Rightarrow> nat \<Rightarrow> nat \<Rightarrow> ptr" where
  \<comment> \<open>the block the \<open>k\<close>-th allocation returns\<close>
  "alloc_block c k sz = (\<lambda>i. if i < sz \<and> 0x1000 dvd i \<or> i = sz - 1 then 0 else junk c k i)"

lemma quiet_alloc_block:
  "quiet c \<Longrightarrow> 0 < sz \<Longrightarrow>
   net_alloc_buffer sz c = (Some (alloc_block c (nalloc c) sz), c\<lparr>nalloc := nalloc c + 1\<rparr>)"
  using quiet_alloc [of c sz] by (auto simp: alloc_block_def)

lemma quiet_alloc_all:
  assumes "quiet c" "\<forall>sz\<in>set szs. 0 < sz mod 2 ^ 32"
  shows "\<exists>ps. alloc_all szs c = (map Some ps, c\<lparr>nalloc := nalloc c + length szs\<rparr>) \<and> length ps = length szs"
  using assms(2)
proof (induction szs rule: rev_induct)
  case Nil
  then show ?case by (intro exI [of _ "[]"]) simp
next
  case (snoc sz szs)
  then obtain ps where ps: "alloc_all szs c = (map Some ps, c\<lparr>nalloc := nalloc c + length szs\<rparr>)"
      "length ps = length szs" by auto
  let ?c = "c\<lparr>nalloc := nalloc c + length szs\<rparr>"
  have "net_alloc_buffer (sz mod 2 ^ 32) ?c =
      (Some (alloc_block ?c (nalloc ?c) (sz mod 2 ^ 32)), ?c\<lparr>nalloc := nalloc ?c + 1\<rparr>)"
    using assms(1) snoc.prems by (intro quiet_alloc_block) auto
  then show ?case
    using ps by (intro exI [of _ "ps @ [alloc_block ?c (nalloc ?c) (sz mod 2 ^ 32)]"]) (simp add: alloc_all_snoc)
qed

lemma io_alloc:
  assumes "quiet c" "0 < sz"
  obtains p d where "net_alloc_buffer sz c = (Some p, d)" "io c [] [] d"
  using quiet_alloc_block [OF assms] io_nalloc that by blast

lemma io_alloc_all:
  assumes "quiet c" "\<forall>sz\<in>set szs. 0 < sz mod 2 ^ 32"
  obtains ps d where "alloc_all szs c = (map Some ps, d)" "length ps = length szs" "io c [] [] d"
  using quiet_alloc_all [OF assms] io_nalloc that by blast

section \<open>Scan windows\<close>

definition window_size :: "nat \<Rightarrow> nat" where
  \<comment> \<open>1 MiB, rounded down to a multiple of the unit; 0 for a unit above 1 MiB\<close>
  "window_size unit =
     (let chunk_size = 0x100000
      in if chunk_size mod unit \<noteq> 0 then (chunk_size div unit) * unit else chunk_size)"

lemma window_size_bounds:
  assumes "0 < unit" "unit \<le> 0x100000"
  shows "unit \<le> window_size unit" "window_size unit \<le> 0x100000" "unit dvd window_size unit"
proof -
  have "1 \<le> 0x100000 div unit" using assms div_le_mono [of unit "0x100000" unit] by simp
  then have "unit \<le> (0x100000 div unit) * unit" by simp
  then show "unit \<le> window_size unit" using assms(2) by (simp add: window_size_def Let_def)
  have "(0x100000 div unit) * unit \<le> 0x100000" by simp
  then show "window_size unit \<le> 0x100000" by (simp add: window_size_def Let_def)
  show "unit dvd window_size unit" by (auto simp: window_size_def Let_def)
qed

section \<open>A flat memory\<close>

text \<open>The reader of a process whose memory is given and all readable, for concrete examples.\<close>

definition flat_rd :: "(u32 \<Rightarrow> u64 \<Rightarrow> byte) \<Rightarrow> reader" where
  "flat_rd m pid a n buf = (\<lambda>i. if i < n then m pid (a + of_nat i) else buf i)"

interpretation flat: target_reader "flat_rd m" m "\<lambda>_ _ _. True" for m
  by unfold_locales (simp_all add: flat_rd_def)

end
