(* ===== verification/Protocol.thy ===== *)
theory Protocol
  imports Prelude
begin

text \<open>
  The wire vocabulary of \<^verbatim>\<open>common/include/protocol.h\<close>: status words, command name
  spaces, the request header and the packed request bodies the modelled handlers read. A
  body is a record together with the function that reads it from the received bytes at the
  offsets of the packed C struct.
\<close>

definition CMD_SUCCESS :: u32 where "CMD_SUCCESS = 0x40000000"
definition CMD_DATA_NULL :: u32 where "CMD_DATA_NULL = 0xF0000003"
definition CMD_ERROR :: u32 where "CMD_ERROR = 0xF0000002"

definition VALID_CMD :: "u32 \<Rightarrow> bool" where
  "VALID_CMD cmd \<longleftrightarrow> drop_bit 24 cmd = 0xBD"
definition VALID_PROC_CMD :: "u32 \<Rightarrow> bool" where
  "VALID_PROC_CMD cmd \<longleftrightarrow> drop_bit 16 cmd AND 0xFF = 0xAA"
definition VALID_DEBUG_CMD :: "u32 \<Rightarrow> bool" where
  "VALID_DEBUG_CMD cmd \<longleftrightarrow> drop_bit 16 cmd AND 0xFF = 0xBB"
definition VALID_KERN_CMD :: "u32 \<Rightarrow> bool" where
  "VALID_KERN_CMD cmd \<longleftrightarrow> drop_bit 16 cmd AND 0xFF = 0xCC"
definition VALID_CONSOLE_CMD :: "u32 \<Rightarrow> bool" where
  "VALID_CONSOLE_CMD cmd \<longleftrightarrow> drop_bit 16 cmd AND 0xFF = 0xDD"

text \<open>\<^verbatim>\<open>data\<close> is \<^verbatim>\<open>NULL\<close> for a request without a body.\<close>

record cmd_packet =
  magic :: u32
  cmd :: u32
  datalen :: u32
  data :: "ptr option"

definition sentinel64 :: "byte list" where
  \<comment> \<open>the eight 0xFF bytes that close a result stream\<close>
  "sentinel64 = le_bytes 8 (0xFFFFFFFFFFFFFFFF :: u64)"

section \<open>Request bodies\<close>

record cmd_proc_auth_packet =
  ap_magic :: u32
  ap_flags :: u32

definition auth_packet :: "ptr \<Rightarrow> cmd_proc_auth_packet" where
  "auth_packet p = \<lparr>ap_magic = ld32 p, ap_flags = ld32 (shift p 4)\<rparr>"

record cmd_proc_scan_packet =
  sc_pid :: u32
  sc_valueType :: byte
  sc_compareType :: byte
  sc_lenData :: u32

definition scan_packet :: "ptr \<Rightarrow> cmd_proc_scan_packet" where
  "scan_packet p = \<lparr>sc_pid = ld32 p, sc_valueType = ld8 (shift p 4),
     sc_compareType = ld8 (shift p 5), sc_lenData = ld32 (shift p 6)\<rparr>"

record cmd_proc_scan_aob_packet =
  ao_pid :: u32
  ao_address :: u64
  ao_length :: u32
  ao_max_matches :: byte
  ao_stop_flag :: byte
  ao_pattern_length :: u32

definition scan_aob_packet :: "ptr \<Rightarrow> cmd_proc_scan_aob_packet" where
  "scan_aob_packet p = \<lparr>ao_pid = ld32 p, ao_address = ld64 (shift p 4), ao_length = ld32 (shift p 12),
     ao_max_matches = ld8 (shift p 16), ao_stop_flag = ld8 (shift p 17),
     ao_pattern_length = ld32 (shift p 18)\<rparr>"

record cmd_proc_scan_aob_multi_packet =
  am_pid :: u32
  am_address :: u64
  am_length :: u32
  am_stop_flag :: byte
  am_patterns_length :: u32

definition scan_aob_multi_packet :: "ptr \<Rightarrow> cmd_proc_scan_aob_multi_packet" where
  "scan_aob_multi_packet p = \<lparr>am_pid = ld32 p, am_address = ld64 (shift p 4),
     am_length = ld32 (shift p 12), am_stop_flag = ld8 (shift p 16),
     am_patterns_length = ld32 (shift p 17)\<rparr>"

record cmd_proc_scan_start_packet =
  ss_pid :: u32
  ss_address :: u64
  ss_length :: u32
  ss_valueType :: byte
  ss_compareType :: byte
  ss_alignment :: byte
  ss_lenData :: u32

definition scan_start_packet :: "ptr \<Rightarrow> cmd_proc_scan_start_packet" where
  "scan_start_packet p = \<lparr>ss_pid = ld32 p, ss_address = ld64 (shift p 4), ss_length = ld32 (shift p 12),
     ss_valueType = ld8 (shift p 16), ss_compareType = ld8 (shift p 17),
     ss_alignment = ld8 (shift p 18), ss_lenData = ld32 (shift p 19)\<rparr>"

record cmd_proc_scan_count_packet =
  cn_pid :: u32
  cn_base_address :: u64
  cn_valueType :: byte
  cn_compareType :: byte
  cn_lenData :: u32

definition scan_count_packet :: "ptr \<Rightarrow> cmd_proc_scan_count_packet" where
  "scan_count_packet p = \<lparr>cn_pid = ld32 p, cn_base_address = ld64 (shift p 4),
     cn_valueType = ld8 (shift p 12), cn_compareType = ld8 (shift p 13),
     cn_lenData = ld32 (shift p 14)\<rparr>"

record cmd_proc_scan_get_packet =
  gt_pid :: u32
  gt_count :: u32

definition scan_get_packet :: "ptr \<Rightarrow> cmd_proc_scan_get_packet" where
  "scan_get_packet p = \<lparr>gt_pid = ld32 p, gt_count = ld32 (shift p 4)\<rparr>"

end
