(* ===== verification/ScanAob.thy ===== *)
theory ScanAob
  imports AobScan Reader Protocol
begin

text \<open>
  The byte-pattern handlers of \<^verbatim>\<open>debugger/source/scan.c\<close>: \<^verbatim>\<open>proc_scan_aob_handle\<close> (one
  pattern, sequential) and \<^verbatim>\<open>proc_scan_aob_multi_handle\<close> (many patterns, split over worker
  threads). The threads share read-only data and write disjoint arrays, so they are modelled
  as one call per worker; a thread that cannot be created runs in line in the source too.
\<close>

section \<open>The sequential handler\<close>

record aob_search =
  match_count :: nat
  match_addr :: u64
  invalidated :: bool
  found_done :: bool

text \<open>The position loop; it stops at the first decisive match.\<close>

function aob_positions ::
    "nat \<Rightarrow> ptr \<Rightarrow> ptr \<Rightarrow> ptr \<Rightarrow> nat \<Rightarrow> bool \<Rightarrow> u64 \<Rightarrow> nat \<Rightarrow> nat \<Rightarrow> aob_search \<Rightarrow> aob_search" where
  "aob_positions pl pattern mk read_buf max_matches stop_unique address limit j s =
     (if j \<le> limit then
        if aob_match pl pattern (shift read_buf j) mk then
          let s = s\<lparr>match_count := match_count s + 1\<rparr> in
          if match_count s = max_matches then
            let s = s\<lparr>match_addr := address + of_nat j\<rparr> in
            if \<not> stop_unique then s\<lparr>found_done := True\<rparr>
            else aob_positions pl pattern mk read_buf max_matches stop_unique address limit (j + 1) s
          else if match_count s > max_matches \<and> stop_unique then
            s\<lparr>match_addr := 0, invalidated := True\<rparr>
          else aob_positions pl pattern mk read_buf max_matches stop_unique address limit (j + 1) s
        else aob_positions pl pattern mk read_buf max_matches stop_unique address limit (j + 1) s
      else s)"
  by pat_completeness auto
termination
  by (relation "measure (\<lambda>(_, _, _, _, _, _, _, limit, j, _). Suc limit - j)") auto

declare aob_positions.simps [simp del]

text \<open>The window loop. \<open>pl \<le> chunk_size\<close> holds at the call: otherwise the window
  buffer has size 0 and is not allocated.\<close>

function aob_windows ::
    "reader \<Rightarrow> u32 \<Rightarrow> nat \<Rightarrow> ptr \<Rightarrow> ptr \<Rightarrow> nat \<Rightarrow> bool \<Rightarrow> nat \<Rightarrow> ptr \<Rightarrow> u64 \<Rightarrow> nat \<Rightarrow> aob_search \<Rightarrow> aob_search" where
  "aob_windows rd pid pl pattern mk max_matches stop_unique chunk_size read_buf address remaining s =
     (if remaining > 0 then
        let to_read = (if chunk_size < remaining then chunk_size else remaining);
            read_buf = rd pid address to_read (memset read_buf 0 0 to_read);
            limit = (if to_read \<ge> pl then to_read - pl else 0);
            s = aob_positions pl pattern mk read_buf max_matches stop_unique address limit 0 s
        in if found_done s \<or> invalidated s then s
           else if chunk_size \<ge> remaining \<or> chunk_size < pl then s
           else let advance = chunk_size - pl + 1
                in aob_windows rd pid pl pattern mk max_matches stop_unique chunk_size read_buf
                     (address + of_nat advance) (if remaining > advance then remaining - advance else 0) s
      else s)"
  by pat_completeness auto
termination
  by (relation "measure (\<lambda>(_, _, _, _, _, _, _, _, _, _, remaining, _). remaining)") auto

declare aob_windows.simps [simp del]

definition proc_scan_aob_handle :: "reader \<Rightarrow> cmd_packet \<Rightarrow> 'z conn_scheme \<Rightarrow> int \<times> 'z conn_scheme" where
  "proc_scan_aob_handle rd packet c =
     (case data packet of
        None \<Rightarrow> (1, send_int32 CMD_DATA_NULL c)
      | Some dp \<Rightarrow>
        let sp = scan_aob_packet dp; pl = unat (ao_pattern_length sp) in
        if pl = 0 then (1, send_int32 CMD_DATA_NULL c)
        else
          let step_unit = proc_scan_getSizeOfValueType 10;
              step_unit = (if step_unit = 0 then pl else step_unit)
          in case net_alloc_buffer pl c of
               (None, c) \<Rightarrow> (1, send_int32 CMD_DATA_NULL c)
             | (Some pattern, c) \<Rightarrow>
          (case net_alloc_buffer step_unit c of
               (None, c) \<Rightarrow> (1, send_int32 CMD_DATA_NULL c)
             | (Some mk, c) \<Rightarrow>
          let c = send_int32 CMD_SUCCESS c;
              (pattern, c) = recv_all pattern (c_int (ao_pattern_length sp)) c;
              (mk, c) = recv_all mk (c_int (of_nat step_unit)) c;
              chunk_size = window_size step_unit
          in case net_alloc_buffer chunk_size c of
               (None, c) \<Rightarrow> (1, send_int32 CMD_DATA_NULL c)
             | (Some read_buf, c) \<Rightarrow>
          let c = send_int32 CMD_SUCCESS c;
              s = aob_windows rd (ao_pid sp) pl pattern mk (unat (ao_max_matches sp)) (ao_stop_flag sp = 1)
                    chunk_size read_buf (ao_address sp) (unat (ao_length sp))
                    \<lparr>match_count = 0, match_addr = 0, invalidated = False, found_done = False\<rparr>;
              c = send_all (le_bytes 8 (match_addr s)) c
          in (0, send_int32 CMD_SUCCESS c)))"

section \<open>The parallel handler\<close>

text \<open>
  The first pass over the pattern blob. Its cursor is a 32-bit number that a malformed
  pattern length can move backwards, so the loop need not end: \<open>None\<close> stands for that.
\<close>

partial_function (option) count_patterns :: "ptr \<Rightarrow> nat \<Rightarrow> nat \<Rightarrow> nat \<Rightarrow> nat \<Rightarrow> (nat \<times> nat) option" where
  "count_patterns blob patterns_length cursor pat_count mpl =
     (if u32_add cursor 5 \<le> patterns_length
      then let pl = unat (ld32 (shift blob (cursor + 1)))
           in count_patterns blob patterns_length ((cursor + 5 + 2 * pl) mod 2 ^ 32)
                ((pat_count + 1) mod 2 ^ 16) (if pl > mpl then pl else mpl)
      else Some (pat_count, mpl))"

primrec build_patterns :: "ptr \<Rightarrow> nat \<Rightarrow> nat \<Rightarrow> aob_pat list" where
  "build_patterns blob cursor 0 = []"
| "build_patterns blob cursor (Suc n) =
     (let pl = unat (ld32 (shift blob (cursor + 1)));
          p = shift blob (cursor + 5);
          m = shift p pl
      in \<lparr>pat = p, msk = m, plen = pl, target_count = blob cursor,
           first_fixed = (if m 0 = 1 then uint (p 0) else -1)\<rparr>
         # build_patterns blob ((cursor + 5 + 2 * pl) mod 2 ^ 32) n)"

definition slot_offsets :: "aob_pat list \<Rightarrow> nat list" where
  "slot_offsets ps = fold (\<lambda>p so. so @ [last so + (unat (target_count p) + 1)]) ps [0]"

definition AOB_SCAN_THREADS_MAX :: nat where "AOB_SCAN_THREADS_MAX = 16"

definition worker_limit :: "nat \<Rightarrow> nat \<Rightarrow> nat" where
  "worker_limit threads len =
     (let n = threads;
          n = (if n < 1 then 1 else n);
          n = (if n > AOB_SCAN_THREADS_MAX then AOB_SCAN_THREADS_MAX else n)
      in if n > len then (if len > 0 then len else 1) else n)"

definition worker_span :: "nat \<Rightarrow> nat \<Rightarrow> nat" where
  "worker_span n len = (let span = (len + n - 1) div n in if span = 0 then 1 else span)"

definition split_workers :: "nat \<Rightarrow> nat \<Rightarrow> nat \<times> nat" where
  \<comment> \<open>number of workers and positions per worker\<close>
  "split_workers threads len =
     (let span = worker_span (worker_limit threads len) len;
          n = (len + span - 1) div span;
          n = (if n < 1 then 1 else n);
          n = (if n > AOB_SCAN_THREADS_MAX then AOB_SCAN_THREADS_MAX else n)
      in (n, span))"

definition aob_ps5_fill_fn :: "reader \<Rightarrow> u32 \<Rightarrow> u64 \<Rightarrow> nat \<Rightarrow> nat \<Rightarrow> ptr \<Rightarrow> ptr" where
  "aob_ps5_fill_fn rd pid base off len buf = rd pid (base + of_nat off) len buf"

definition make_worker :: "aob_pat list \<Rightarrow> u64 \<Rightarrow> nat \<Rightarrow> nat \<Rightarrow> nat \<Rightarrow> nat \<Rightarrow> nat \<Rightarrow> aob_worker" where
  "make_worker ps base len mpl chunk span w =
     (let s = w * span; e = s + span
      in \<lparr>pats = ps, disp = aob_build_dispatch ps, base_addr = base, region_length = len,
          max_plen = mpl, chunkSize = chunk, slot_off = slot_offsets ps,
          start = (if s > len then len else s), end_pos = (if e > len then len else e)\<rparr>)"

definition worker_arrays :: "ptr \<Rightarrow> ptr \<Rightarrow> nat \<Rightarrow> nat \<Rightarrow> nat \<Rightarrow> aob_private" where
  \<comment> \<open>the slices of the shared allocations that belong to worker \<open>w\<close>\<close>
  "worker_arrays readbufs waddrs buf_size total_slots w =
     \<lparr>readBuf = shift readbufs (w * buf_size),
      addrs = map (\<lambda>i. ld64 (shift waddrs (8 * (w * total_slots + i)))) [0..<total_slots],
      counts = [], done_flags = []\<rparr>"

definition run_workers ::
    "reader \<Rightarrow> u32 \<Rightarrow> u64 \<Rightarrow> nat \<Rightarrow> aob_pat list \<Rightarrow> bool \<Rightarrow> nat \<Rightarrow> nat \<Rightarrow> nat \<times> nat \<Rightarrow> ptr \<Rightarrow> ptr \<Rightarrow> u64 list" where
  "run_workers rd pid base len ps stop_unique mpl chunk = (\<lambda>(num, span) readbufs waddrs.
     let slots = slot_offsets ps; total_slots = slots ! length ps;
         results = map (\<lambda>w.
           let v = aob_scan_range (aob_ps5_fill_fn rd pid base)
                     (make_worker ps base len mpl chunk span w)
                     (worker_arrays readbufs waddrs (chunk + mpl) total_slots w)
           in (addrs v, counts v)) [0..<num]
     in aob_merge ps stop_unique slots results)"

definition proc_scan_aob_multi_handle ::
    "reader \<Rightarrow> nat \<Rightarrow> nat \<Rightarrow> cmd_packet \<Rightarrow> 'z conn_scheme \<Rightarrow> (int \<times> 'z conn_scheme) option" where
  "proc_scan_aob_multi_handle rd g_aob_scan_threads g_aob_chunk_size packet c =
     (case data packet of
        None \<Rightarrow> Some (1, send_int32 CMD_DATA_NULL c)
      | Some dp \<Rightarrow>
        let mp = scan_aob_multi_packet dp; patterns_length = unat (am_patterns_length mp) in
        if patterns_length = 0 then Some (1, send_int32 CMD_DATA_NULL c)
        else case net_alloc_buffer patterns_length c of
          (None, c) \<Rightarrow> Some (1, send_int32 CMD_DATA_NULL c)
        | (Some blob, c) \<Rightarrow>
          let c = send_int32 CMD_SUCCESS c;
              (blob, c) = recv_all blob (c_int (am_patterns_length mp)) c
          in case count_patterns blob patterns_length 0 0 1 of
               None \<Rightarrow> None
             | Some (pat_count, mpl) \<Rightarrow>
               let chunk = (if g_aob_chunk_size < mpl then mpl else g_aob_chunk_size);
                   len = unat (am_length mp);
                   (bs, c) = alloc_all [pat_count * 24, pat_count * 4, pat_count * 4, (pat_count + 1) * 4, pat_count * 8] c
               in if None \<in> set bs then Some (1, send_int32 CMD_DATA_NULL c)
                  else
                    let ps = build_patterns blob 0 pat_count;
                        total_slots = slot_offsets ps ! pat_count;
                        (num, span) = split_workers g_aob_scan_threads len;
                        (ws, c) = alloc_all [num * (chunk + mpl), num * total_slots * 8, num * pat_count * 4, num * pat_count] c
                    in if None \<in> set ws then Some (1, send_int32 CMD_DATA_NULL c)
                       else
                         let c = send_int32 CMD_SUCCESS c;
                             output = run_workers rd (am_pid mp) (am_address mp) len ps (am_stop_flag mp = 1)
                                        mpl chunk (num, span) (the (ws ! 0)) (the (ws ! 1));
                             c = send_all (concat (map (le_bytes 8) output)) c
                         in Some (0, send_int32 CMD_SUCCESS c))"

section \<open>The sequential search\<close>

definition search_ok :: "u64 \<Rightarrow> nat \<Rightarrow> bool \<Rightarrow> nat list \<Rightarrow> aob_search \<Rightarrow> bool" where
  \<comment> \<open>the search state after the matches \<open>hits\<close>: decided for good, or still counting\<close>
  "search_ok base mm uq hits s \<longleftrightarrow>
     (if found_done s \<or> invalidated s then \<forall>ext. match_addr s = nth_match base mm uq (hits @ ext)
      else match_count s = length hits \<and> match_addr s = nth_match base mm uq hits
           \<and> (uq \<longrightarrow> length hits \<le> mm) \<and> (\<not> uq \<longrightarrow> length hits < mm \<or> mm = 0))"

lemma search_ok_stopped:
  "search_ok base mm uq hits s \<Longrightarrow> found_done s \<or> invalidated s \<Longrightarrow> search_ok base mm uq (hits @ ext) s"
  by (simp add: search_ok_def)

lemma search_ok_result: "search_ok base mm uq hits s \<Longrightarrow> match_addr s = nth_match base mm uq hits"
  unfolding search_ok_def by (metis append.right_neutral)

lemma aob_positions_ok:
  assumes "search_ok base mm uq hits s" "\<not> found_done s" "\<not> invalidated s"
  shows "search_ok base mm uq
      (hits @ map (\<lambda>j. woff + j) (filter (\<lambda>j. aob_match pl pattern (shift buf j) mk) [j..<Suc limit]))
      (aob_positions pl pattern mk buf mm uq (base + of_nat woff) limit j s)"
  using assms
proof (induction "Suc limit - j" arbitrary: j s hits)
  case 0
  then show ?case by (subst aob_positions.simps) simp
next
  case (Suc d)
  let ?M = "\<lambda>j. aob_match pl pattern (shift buf j) mk"
  let ?rest = "map (\<lambda>j. woff + j) (filter ?M [j + 1..<Suc limit])"
  from Suc.hyps(2) have j: "j \<le> limit" "d = Suc limit - (j + 1)" by simp_all
  then have upt: "[j..<Suc limit] = j # [j + 1..<Suc limit]" by (simp add: upt_conv_Cons del: upt_Suc)
  note IH = Suc.hyps(1) [OF j(2)]
  show ?case
  proof (cases "?M j")
    case False
    then show ?thesis
      using IH [OF Suc.prems] j(1) by (subst aob_positions.simps) (simp add: upt del: upt_Suc)
  next
    case True
    let ?s = "s\<lparr>match_count := match_count s + 1\<rparr>"
    have st: "match_count s = length hits" "match_addr s = nth_match base mm uq hits"
      "uq \<longrightarrow> length hits \<le> mm" "\<not> uq \<longrightarrow> length hits < mm \<or> mm = 0"
      using Suc.prems by (auto simp: search_ok_def)
    consider (last) "length hits + 1 = mm" "\<not> uq" | (uniq) "length hits + 1 = mm" "uq"
      | (invalid) "length hits + 1 > mm" "uq" | (more) "length hits + 1 \<noteq> mm" "\<not> (length hits + 1 > mm \<and> uq)"
      by linarith
    then show ?thesis
    proof cases
      case last
      then show ?thesis
        using True st j(1)
        by (subst aob_positions.simps) (auto simp: upt search_ok_def nth_match_def nth_append add.assoc simp del: upt_Suc)
    next
      case uniq
      then have "search_ok base mm uq (hits @ [woff + j]) (?s\<lparr>match_addr := base + of_nat (woff + j)\<rparr>)"
        using st Suc.prems by (auto simp: search_ok_def nth_match_def nth_append)
      from IH [OF this] uniq True st j(1) Suc.prems show ?thesis
        by (subst aob_positions.simps) (simp add: upt add.assoc Let_def del: upt_Suc)
    next
      case invalid
      then show ?thesis
        using True st j(1)
        by (subst aob_positions.simps) (auto simp: upt search_ok_def nth_match_def simp del: upt_Suc)
    next
      case more
      then have "search_ok base mm uq (hits @ [woff + j]) ?s"
        using st Suc.prems by (auto simp: search_ok_def nth_match_def)
      from IH [OF this] more True st j(1) Suc.prems show ?thesis
        by (subst aob_positions.simps) (auto simp: upt add.assoc Let_def simp del: upt_Suc)
    qed
  qed
qed

text \<open>The offsets at which a pattern occurs in a range, found by the reference definition.\<close>

definition occurs :: "ptr \<Rightarrow> nat \<Rightarrow> ptr \<Rightarrow> ptr \<Rightarrow> nat \<Rightarrow> bool" where
  "occurs region pl pattern mk off \<longleftrightarrow> (\<forall>k<pl. mk k = 1 \<longrightarrow> region (off + k) = pattern k)"

definition aob_hits :: "ptr \<Rightarrow> nat \<Rightarrow> nat \<Rightarrow> ptr \<Rightarrow> ptr \<Rightarrow> nat list" where
  "aob_hits region len pl pattern mk =
     filter (\<lambda>off. off + pl \<le> len \<and> occurs region pl pattern mk off) [0..<len]"

lemma aob_match_occurs: "aob_match pl pattern (shift buf j) mk = occurs buf pl pattern mk j"
  by (auto simp: aob_match_def aob_loop_iff occurs_def)

lemma aob_hits_conv:
  assumes "0 < pl" "pl \<le> len"
  shows "filter (occurs region pl pattern mk) [0..<Suc (len - pl)] = aob_hits region len pl pattern mk"
proof -
  have "[0..<len] = [0..<Suc (len - pl)] @ [Suc (len - pl)..<len]"
    using assms by (intro upt_split) auto
  moreover have "filter (\<lambda>off. off + pl \<le> len \<and> occurs region pl pattern mk off) [Suc (len - pl)..<len] = []"
    using assms by (auto simp: filter_empty_conv)
  ultimately have "aob_hits region len pl pattern mk
      = filter (\<lambda>off. off + pl \<le> len \<and> occurs region pl pattern mk off) [0..<Suc (len - pl)]"
    by (simp add: aob_hits_def del: upt_Suc)
  also have "\<dots> = filter (occurs region pl pattern mk) [0..<Suc (len - pl)]"
    using assms by (intro filter_cong) auto
  finally show ?thesis by simp
qed

locale readable_region = target_reader +
  fixes pid :: u32 and base :: u64 and rlen :: nat
  assumes region_readable: "readable pid base rlen"
begin

lemma read_window:
  assumes "off + n \<le> rlen" "i < n"
  shows "rd pid (base + of_nat off) n buf i = window (mem pid) base (off + i)"
proof -
  have "readable pid (base + of_nat off) n"
    using readable_sub [OF region_readable assms(1)] .
  from rd_read [OF this assms(2)] show ?thesis by (simp add: add.assoc window_apply)
qed

lemma aob_windows_ok:
  assumes chunk: "0 < pl" "pl \<le> chunk_size" and off: "woff + remaining = rlen" "pl \<le> remaining"
    and s: "search_ok base mm uq (filter (occurs (window (mem pid) base) pl pattern mk) [0..<woff]) s"
      "\<not> found_done s" "\<not> invalidated s"
  shows "search_ok base mm uq
      (filter (occurs (window (mem pid) base) pl pattern mk) [0..<Suc (rlen - pl)])
      (aob_windows rd pid pl pattern mk mm uq chunk_size read_buf (base + of_nat woff) remaining s)"
  using off s
proof (induction remaining arbitrary: woff s read_buf rule: less_induct)
  case (less remaining)
  let ?M = "occurs (window (mem pid) base) pl pattern mk"
  define to_read where "to_read = (if chunk_size < remaining then chunk_size else remaining)"
  define buf where "buf = rd pid (base + of_nat woff) to_read (memset read_buf 0 0 to_read)"
  define s' where "s' = aob_positions pl pattern mk buf mm uq (base + of_nat woff) (to_read - pl) 0 s"
  have tr: "pl \<le> to_read" "woff + to_read \<le> rlen"
    using less.prems(1,2) chunk by (auto simp: to_read_def)
  have new: "map (\<lambda>j. woff + j) (filter (\<lambda>j. aob_match pl pattern (shift buf j) mk) [0..<Suc (to_read - pl)])
      = filter ?M [woff..<woff + Suc (to_read - pl)]"
  proof -
    have "aob_match pl pattern (shift buf j) mk = ?M (woff + j)" if "j < Suc (to_read - pl)" for j
      using that tr read_window [of woff to_read]
      by (auto simp: aob_match_occurs occurs_def buf_def add.assoc)
    then have "filter (\<lambda>j. aob_match pl pattern (shift buf j) mk) [0..<Suc (to_read - pl)]
        = filter (\<lambda>j. ?M (woff + j)) [0..<Suc (to_read - pl)]"
      by (intro filter_cong) (auto simp del: upt_Suc)
    then show ?thesis
      by (simp only: filter_shift [of woff ?M "Suc (to_read - pl)"])
  qed
  have split: "[0..<woff + Suc (to_read - pl)] = [0..<woff] @ [woff..<woff + Suc (to_read - pl)]"
    by (rule upt_split) simp_all
  have ok: "search_ok base mm uq (filter ?M [0..<woff + Suc (to_read - pl)]) s'"
    unfolding s'_def split filter_append new [symmetric]
    by (rule aob_positions_ok [OF less.prems(3-5)])
  have unf: "aob_windows rd pid pl pattern mk mm uq chunk_size read_buf (base + of_nat woff) remaining s =
      (if found_done s' \<or> invalidated s' then s' else if chunk_size \<ge> remaining then s'
       else aob_windows rd pid pl pattern mk mm uq chunk_size buf (base + of_nat (woff + (chunk_size - pl + 1)))
              (remaining - (chunk_size - pl + 1)) s')"
  proof -
    have simps: "(remaining > 0) = True" "(if pl \<le> to_read then to_read - pl else 0) = to_read - pl"
      "(chunk_size \<ge> remaining \<or> chunk_size < pl) = (chunk_size \<ge> remaining)"
      "(if remaining > chunk_size - pl + 1 then remaining - (chunk_size - pl + 1) else 0) = remaining - (chunk_size - pl + 1)"
      using chunk less.prems(2) tr by auto
    show ?thesis
      by (subst aob_windows.simps)
         (simp only: Let_def simps if_True to_read_def [symmetric] buf_def [symmetric] s'_def [symmetric]
           of_nat_add [of woff] add.assoc [of base])
  qed
  consider "found_done s' \<or> invalidated s'" | "\<not> (found_done s' \<or> invalidated s')" "chunk_size \<ge> remaining"
    | "\<not> (found_done s' \<or> invalidated s')" "chunk_size < remaining" by linarith
  then show ?case
  proof cases
    case 1
    have "[0..<Suc (rlen - pl)] = [0..<woff + Suc (to_read - pl)] @ [woff + Suc (to_read - pl)..<Suc (rlen - pl)]"
      using tr by (intro upt_split) simp_all
    with 1 show ?thesis
      unfolding unf by (simp only: if_True filter_append search_ok_stopped [OF ok 1])
  next
    case 2
    then have "woff + Suc (to_read - pl) = Suc (rlen - pl)"
      using less.prems(1,2) by (simp add: to_read_def)
    with 2 ok unf show ?thesis by (simp del: upt_Suc)
  next
    case 3
    let ?adv = "chunk_size - pl + 1"
    have adv: "Suc (to_read - pl) = ?adv" "woff + ?adv + (remaining - ?adv) = rlen"
        "pl \<le> remaining - ?adv" "remaining - ?adv < remaining"
      using 3 less.prems(1,2) chunk by (auto simp: to_read_def)
    have "\<not> found_done s'" "\<not> invalidated s'" using 3 by auto
    from less.IH [OF adv(4,2,3) ok [unfolded adv(1)] this] 3 show ?thesis
      unfolding unf by (simp only: if_False not_le [symmetric])
  qed
qed

end

lemma occurs_cong:
  assumes "\<And>k. k < pl \<Longrightarrow> pattern k = pattern' k" "\<And>k. k < pl \<Longrightarrow> mk k = mk' k"
  shows "occurs region pl pattern mk = occurs region pl pattern' mk'"
  using assms by (auto simp: occurs_def fun_eq_iff)

lemma blit_of_list: "k < length bs \<Longrightarrow> blit p 0 bs k = of_list bs k"
  by (simp add: blit_def of_list_def)

lemma aob_windows_result:
  assumes "target_reader rd mem readable" "readable pid base rlen"
    and "0 < pl" "pl \<le> chunk_size" "pl \<le> rlen" "length ps = pl" "length ms = pl"
  shows "match_addr (aob_windows rd pid pl (blit p 0 ps) (blit q 0 ms) mm uq chunk_size buf base rlen
           \<lparr>match_count = 0, match_addr = 0, invalidated = False, found_done = False\<rparr>)
    = nth_match base mm uq (aob_hits (window (mem pid) base) rlen pl (of_list ps) (of_list ms))"
    (is "match_addr ?s = _")
proof -
  have region: "readable_region rd mem readable pid base rlen"
    using assms(1,2) by (simp add: readable_region_def readable_region_axioms_def)
  have "search_ok base mm uq [] \<lparr>match_count = 0, match_addr = 0, invalidated = False, found_done = False\<rparr>"
    by (auto simp: search_ok_def nth_match_def)
  then have "search_ok base mm uq
      (filter (occurs (window (mem pid) base) pl (blit p 0 ps) (blit q 0 ms)) [0..<Suc (rlen - pl)]) ?s"
    using readable_region.aob_windows_ok [OF region assms(3,4), of 0 rlen mm uq "blit p 0 ps" "blit q 0 ms"
        "\<lparr>match_count = 0, match_addr = 0, invalidated = False, found_done = False\<rparr>" buf] assms(5)
    by (simp del: upt_Suc)
  moreover have "occurs (window (mem pid) base) pl (blit p 0 ps) (blit q 0 ms)
      = occurs (window (mem pid) base) pl (of_list ps) (of_list ms)"
    by (rule occurs_cong) (simp_all add: blit_of_list assms)
  ultimately show ?thesis
    using search_ok_result aob_hits_conv [OF assms(3,5)] by simp
qed

text \<open>
  C21: the sequential pattern search. On a healthy connection, for a pattern of at most 1 MiB
  that fits into a readable range, the handler consumes the pattern and its mask and answers
  with the address of the \<open>max_matches\<close>-th occurrence, or 0 when there are fewer or, in unique
  mode, more; occurrences across the boundaries of its 1 MiB windows are neither missed nor
  counted twice.
\<close>

theorem proc_scan_aob_handle_correct:
  assumes "target_reader rd mem readable" "quiet c" "data packet = Some dp" "scan_aob_packet dp = sp"
    and "unat (ao_pattern_length sp) = pl" "0 < pl" "pl \<le> 0x100000" "pl \<le> unat (ao_length sp)"
    and "rx c = ps @ ms @ rest" "length ps = pl" "length ms = pl"
    and "readable (ao_pid sp) (ao_address sp) (unat (ao_length sp))"
  shows "\<exists>c'. proc_scan_aob_handle rd packet c = (0, c') \<and>
    io c (ps @ ms) (status CMD_SUCCESS @ status CMD_SUCCESS @
       le_bytes 8 (nth_match (ao_address sp) (unat (ao_max_matches sp)) (ao_stop_flag sp = 1)
         (aob_hits (window (mem (ao_pid sp)) (ao_address sp)) (unat (ao_length sp)) pl (of_list ps) (of_list ms)))
       @ status CMD_SUCCESS) c'"
proof -
  define chunk where "chunk = window_size pl"
  have chunk: "pl \<le> chunk" using window_size_bounds [OF assms(6,7)] by (simp add: chunk_def)
  have plw: "ao_pattern_length sp = of_nat pl" using assms(5) by (simp flip: assms(5))
  have lens: "nat (c_int (ao_pattern_length sp)) = length ps" "nat (c_int (of_nat pl)) = length ms"
    using nat_c_int [of "ao_pattern_length sp"] assms(5,7,10,11) plw by simp_all
  obtain p c1 where 1: "net_alloc_buffer pl c = (Some p, c1)" "io c [] [] c1"
    using io_alloc [OF assms(2,6)] .
  have q1: "quiet c1" using io_fields [OF 1(2)] assms(2) by simp
  obtain q c2 where 2: "net_alloc_buffer pl c1 = (Some q, c2)" "io c1 [] [] c2"
    using io_alloc [OF q1 assms(6)] .
  note c2 = io_trans [OF 1(2) 2(2)]
  note c3 = io_trans [OF c2 io_send_int32 [of c2 CMD_SUCCESS]]
  have q2: "quiet c2" "quiet (send_int32 CMD_SUCCESS c2)" "rx (send_int32 CMD_SUCCESS c2) = ps @ ms @ rest"
    using io_fields [OF c2] assms(2,9) by simp_all
  obtain c4 where 4: "recv_all p (c_int (ao_pattern_length sp)) (send_int32 CMD_SUCCESS c2) = (blit p 0 ps, c4)"
      "io (send_int32 CMD_SUCCESS c2) ps [] c4" "rx c4 = ms @ rest"
    using io_recv [OF q2(2,3) lens(1)] .
  have q4: "quiet c4" using io_fields [OF 4(2)] q2 by simp
  obtain c5 where 5: "recv_all q (c_int (of_nat pl)) c4 = (blit q 0 ms, c5)" "io c4 ms [] c5"
    using io_recv [OF q4 4(3) lens(2)] .
  have q5: "quiet c5" using io_fields [OF 5(2)] q4 by simp
  obtain r c6 where 6: "net_alloc_buffer chunk c5 = (Some r, c6)" "io c5 [] [] c6"
    using io_alloc [OF q5, of chunk] chunk assms(6) by auto
  have q6: "quiet c6" using io_fields [OF 6(2)] q5 by simp
  note win = aob_windows_result [OF assms(1,12,6) chunk assms(8,10,11)]
  note c6 = io_trans [OF io_trans [OF io_trans [OF c3 4(2)] 5(2)] 6(2)]
  have "proc_scan_getSizeOfValueType 10 = 0" by (simp add: proc_scan_getSizeOfValueType_def)
  then have "proc_scan_aob_handle rd packet c =
      (0, send_int32 CMD_SUCCESS (send_all (le_bytes 8 (nth_match (ao_address sp) (unat (ao_max_matches sp))
        (ao_stop_flag sp = 1) (aob_hits (window (mem (ao_pid sp)) (ao_address sp)) (unat (ao_length sp)) pl
          (of_list ps) (of_list ms)))) (send_int32 CMD_SUCCESS c6)))"
    unfolding proc_scan_aob_handle_def assms(3) option.case assms(4) Let_def
    using assms(6) by (simp add: assms(5) 1 2 4 5 6 chunk_def [symmetric] win)
  moreover note io_trans [OF c6 io_trans [OF io_send_int32 [OF q6] io_trans [OF io_send_all io_send_int32]]]
  ultimately show ?thesis using q2 q6 by simp
qed

definition example_mem :: "u32 \<Rightarrow> u64 \<Rightarrow> byte" where
  "example_mem pid a = (if a = 0x1003 then 7 else if a = 0x1004 then 9 else 0)"

definition example_aob_data :: ptr where
  "example_aob_data = of_list [1, 0, 0, 0, 0, 0x10, 0, 0, 0, 0, 0, 0, 8, 0, 0, 0, 1, 1, 2, 0, 0, 0]"

definition example_aob_packet :: cmd_packet where
  "example_aob_packet = \<lparr>magic = 0xFFAABBCC, cmd = 0xBDAA000A, datalen = 22, data = Some example_aob_data\<rparr>"

lemma example_aob_fields:
  "scan_aob_packet example_aob_data = \<lparr>ao_pid = 1, ao_address = 0x1000, ao_length = 8,
     ao_max_matches = 1, ao_stop_flag = 1, ao_pattern_length = 2\<rparr>"
  by (simp add: scan_aob_packet_def example_aob_data_def of_list_def le_simps)

lemma example_aob_hits:
  "aob_hits (window (example_mem 1) 0x1000) 8 2 (of_list [7, 9]) (of_list [1, 1]) = [3]"
proof -
  have "occurs (window (example_mem 1) 0x1000) 2 (of_list [7, 9]) (of_list [1, 1]) off
      \<longleftrightarrow> example_mem 1 (0x1000 + of_nat off) = 7 \<and> example_mem 1 (0x1000 + (1 + of_nat off)) = 9" for off
    by (auto simp: occurs_def window_apply of_list_def numeral_2_eq_2 All_less_Suc)
  then show ?thesis
    by (simp add: aob_hits_def upt_rec example_mem_def)
qed

theorem proc_scan_aob_handle_correct_witness:
  "\<exists>c'. proc_scan_aob_handle (flat_rd example_mem) example_aob_packet (example_conn\<lparr>rx := [7, 9, 1, 1]\<rparr>) = (0, c')
     \<and> tx c' = status CMD_SUCCESS @ status CMD_SUCCESS @ le_bytes 8 (0x1003 :: u64) @ status CMD_SUCCESS"
proof -
  let ?c = "example_conn\<lparr>rx := [7, 9, 1, 1]\<rparr>"
  have q: "quiet ?c" by (simp add: quiet_def send_live_def recv_live_def example_conn_def)
  have rx: "rx ?c = [7, 9] @ [1, 1] @ []" by simp
  have d: "data example_aob_packet = Some example_aob_data" by (simp add: example_aob_packet_def)
  have m: "nth_match 0x1000 (Suc 0) True [3] = 0x1003" by (simp add: nth_match_def)
  obtain c' where c': "proc_scan_aob_handle (flat_rd example_mem) example_aob_packet ?c = (0, c')"
    and i: "io ?c ([7, 9] @ [1, 1]) (status CMD_SUCCESS @ status CMD_SUCCESS
        @ le_bytes 8 (nth_match 0x1000 (unat (1 :: byte)) True [3]) @ status CMD_SUCCESS) c'"
    using proc_scan_aob_handle_correct [OF flat.target_reader_axioms [of example_mem] q d refl _ _ _ _ rx, of 2]
    by (auto simp: example_aob_fields example_aob_hits)
  from io_fields(3) [OF i] c' show ?thesis by (simp add: m) (simp add: example_conn_def)
qed

section \<open>The workers cover the range\<close>

lemma slot_offsets_spec:
  "length (slot_offsets ps) = length ps + 1 \<and>
   (\<forall>pi<length ps. slot_offsets ps ! Suc pi = slot_offsets ps ! pi + (unat (target_count (ps ! pi)) + 1))"
proof (induction ps rule: rev_induct)
  case Nil
  then show ?case by (simp add: slot_offsets_def)
next
  case (snoc p ps)
  have "slot_offsets (ps @ [p]) = slot_offsets ps @ [last (slot_offsets ps) + (unat (target_count p) + 1)]"
    by (simp add: slot_offsets_def)
  moreover have "slot_offsets ps \<noteq> []" using snoc by auto
  then have "last (slot_offsets ps) = slot_offsets ps ! length ps"
    using snoc by (simp add: last_conv_nth)
  ultimately show ?case using snoc by (auto simp: nth_append less_Suc_eq)
qed

lemma split_workers_cover:
  assumes "split_workers threads len = (num, span)"
  shows "len \<le> num * span" "0 < span" "num \<le> 16" "0 < num"
proof -
  define n where "n = worker_limit threads len"
  define s where "s = worker_span n len"
  define q where "q = (len + s - 1) div s"
  have n: "0 < n" "n \<le> 16" by (auto simp: n_def worker_limit_def AOB_SCAN_THREADS_MAX_def Let_def)
  have ceil: "a \<le> ((a + b - 1) div b) * b" if "0 < b" for a b :: nat
  proof -
    have "(a + b - 1) mod b < b" using that by simp
    then show ?thesis using div_mult_mod_eq [of "a + b - 1" b] by linarith
  qed
  have s: "0 < s" "len \<le> n * s"
    using ceil [OF n(1), of len] n by (auto simp: s_def worker_span_def Let_def mult.commute split: if_splits)
  have "len + s - 1 < (n + 1) * s" using s by (simp add: algebra_simps)
  then have "q < n + 1" by (simp add: q_def less_mult_imp_div_less)
  then have "q \<le> 16" using n by simp
  have eq: "split_workers threads len = ((if q < 1 then 1 else q), s)"
    using \<open>q \<le> 16\<close> by (simp add: split_workers_def Let_def s_def n_def q_def AOB_SCAN_THREADS_MAX_def)
  with assms s ceil [OF s(1), of len] \<open>q \<le> 16\<close>
  show "len \<le> num * span" "0 < span" "num \<le> 16" "0 < num"
    by (auto simp: q_def split: if_splits)
qed

lemma concat_pat_hits:
  "concat (map (\<lambda>w. pat_hits R len p (min (w * span) len) (min (w * span + span) len)) [0..<n])
     = pat_hits R len p 0 (min (n * span) len)"
proof (induction n)
  case (Suc n)
  have "min (n * span + span) len = min (Suc n * span) len" by (simp add: add.commute)
  with Suc pat_hits_append [of 0 "min (n * span) len" "min (Suc n * span) len" R len p]
  show ?case by (simp add: min.coboundedI1 min_le_iff_disj)
qed (simp add: pat_hits_def)

sublocale readable_region \<subseteq> region_source "aob_ps5_fill_fn rd pid base" "window (mem pid) base" rlen
  by unfold_locales (simp add: aob_ps5_fill_fn_def read_window)

context readable_region
begin

lemma run_workers_correct:
  assumes ps: "\<And>p. p \<in> set ps \<Longrightarrow> wf_pat p \<and> plen p \<le> mpl"
    and sizes: "0 < mpl" "0 < chunk" "chunk + mpl \<le> 2 ^ 32"
    and split: "split_workers threads rlen = (num, span)"
  shows "run_workers rd pid base rlen ps uq mpl chunk (num, span) rb wa
    = map (\<lambda>p. nth_match base (unat (target_count p)) uq (pat_hits (window (mem pid) base) rlen p 0 rlen)) ps"
proof (rule nth_equalityI)
  fix pi assume "pi < length (run_workers rd pid base rlen ps uq mpl chunk (num, span) rb wa)"
  then have pi: "pi < length ps" by (simp add: run_workers_def aob_merge_def Let_def)
  let ?R = "window (mem pid) base" and ?tc = "unat (target_count (ps ! pi))"
  let ?w = "make_worker ps base rlen mpl chunk span"
  let ?v = "worker_arrays rb wa (chunk + mpl) (slot_offsets ps ! length ps)"
  let ?res = "\<lambda>w. aob_scan_range (aob_ps5_fill_fn rd pid base) (?w w) (?v w)"
  define ws where "ws = map (\<lambda>w. (addrs (?res w), counts (?res w))) [0..<num]"
  define news where "news = map (\<lambda>w. pat_hits ?R rlen (ps ! pi) (min (w * span) rlen) (min (w * span + span) rlen)) [0..<num]"
  have "snd (ws ! w) ! pi = min (?tc + 1) (length (news ! w))
      \<and> (\<forall>k < snd (ws ! w) ! pi. fst (ws ! w) ! (slot_offsets ps ! pi + k) = base + of_nat (news ! w ! k))"
    if "w < num" for w
  proof -
    have wf: "wf_worker (?w w)" and rl: "region_length (?w w) = rlen"
      using ps sizes slot_offsets_spec [of ps] by (auto simp: wf_worker_def make_worker_def Let_def)
    have room: "slot_off (?w w) ! length (pats (?w w)) \<le> length (addrs (?v w))"
      by (simp add: make_worker_def worker_arrays_def Let_def)
    have ends: "start (?w w) = min (w * span) rlen" "end_pos (?w w) = min (w * span + span) rlen"
      "pats (?w w) = ps" "slot_off (?w w) = slot_offsets ps" "base_addr (?w w) = base"
      by (auto simp: make_worker_def Let_def min_def)
    from aob_scan_range_recorded [OF wf rl room] pi that show ?thesis
      by (auto simp: recorded_def ends ws_def news_def Let_def)
  qed
  then have "merged base ?tc (concat news) (fold (merge_step ?tc pi (slot_offsets ps ! pi)) ws (0, 0, False))"
    by (intro fold_merge_step) (auto simp: ws_def news_def)
  moreover have "concat news = pat_hits ?R rlen (ps ! pi) 0 rlen"
    using split_workers_cover(1) [OF split] by (simp add: news_def concat_pat_hits min_absorb2)
  ultimately show "run_workers rd pid base rlen ps uq mpl chunk (num, span) rb wa ! pi
      = map (\<lambda>p. nth_match base (unat (target_count p)) uq (pat_hits ?R rlen p 0 rlen)) ps ! pi"
    using pi merged_result
    by (cases "fold (merge_step ?tc pi (slot_offsets ps ! pi)) ws (0, 0, False)")
       (simp add: run_workers_def aob_merge_def Let_def ws_def [unfolded Let_def, symmetric] split_beta)
qed (simp add: run_workers_def aob_merge_def Let_def)

end

section \<open>The pattern blob\<close>

text \<open>The wire form of a pattern: occurrence number, length, bytes, mask.\<close>

type_synonym wire_pattern = "byte \<times> byte list \<times> byte list"

definition enc_pattern :: "wire_pattern \<Rightarrow> byte list" where
  "enc_pattern e = (case e of (tc, ps, ms) \<Rightarrow> tc # le_bytes 4 (of_nat (length ps) :: u32) @ ps @ ms)"

definition wf_wire :: "wire_pattern \<Rightarrow> bool" where
  "wf_wire e = (case e of (tc, ps, ms) \<Rightarrow> 0 < length ps \<and> length ms = length ps)"

abbreviation enc_patterns :: "wire_pattern list \<Rightarrow> byte list" where
  "enc_patterns es \<equiv> concat (map enc_pattern es)"

definition parsed :: "wire_pattern \<Rightarrow> aob_pat \<Rightarrow> bool" where
  "parsed e p = (case e of (tc, ps, ms) \<Rightarrow> wf_pat p \<and> target_count p = tc \<and> plen p = length ps
     \<and> (\<forall>k<length ps. pat p k = ps ! k \<and> msk p k = ms ! k))"

lemma length_enc_pattern: "wf_wire (tc, ps, ms) \<Longrightarrow> length (enc_pattern (tc, ps, ms)) = 5 + 2 * length ps"
  by (simp add: enc_pattern_def wf_wire_def)

lemma enc_pattern_at:
  assumes at: "bytes_at b cur n = enc_pattern (tc, ps, ms) @ rest" and wf: "wf_wire (tc, ps, ms)" "length ps < 2 ^ 32"
  shows "b cur = tc" "unat (ld32 (shift b (cur + 1))) = length ps"
    and "\<And>k. k < length ps \<Longrightarrow> b (cur + 5 + k) = ps ! k \<and> b (cur + 5 + length ps + k) = ms ! k"
    and "bytes_at b (cur + 5 + 2 * length ps) (n - (5 + 2 * length ps)) = rest"
proof -
  let ?L = "enc_pattern (tc, ps, ms) @ rest"
  have n: "n = length ?L" using arg_cong [OF at, of length] by simp
  have b: "b (cur + i) = ?L ! i" if "i < length ?L" for i
    using that at nth_bytes_at [of i n b cur] n by metis
  have enc: "?L = tc # le_bytes 4 (of_nat (length ps) :: u32) @ ps @ ms @ rest"
    by (simp add: enc_pattern_def)
  show "b cur = tc" using b [of 0] by (simp add: enc)
  have "ld32 (shift b (cur + 1)) = (of_nat (length ps) :: u32)"
  proof (rule le_load_le_bytes)
    fix i :: nat assume "i < 4"
    then show "shift b (cur + 1) i = le_bytes 4 (of_nat (length ps) :: u32) ! i"
      using b [of "1 + i"] by (simp add: enc nth_append add.assoc del: nth_le_bytes)
  qed simp
  then show "unat (ld32 (shift b (cur + 1))) = length ps" using wf(2) by (simp add: unat_of_nat)
  show "b (cur + 5 + k) = ps ! k \<and> b (cur + 5 + length ps + k) = ms ! k" if "k < length ps" for k
    using that wf(1) b [of "5 + k"] b [of "5 + length ps + k"]
    by (simp add: enc nth_append wf_wire_def add.assoc nth_Cons' del: nth_le_bytes)
  have "drop (5 + 2 * length ps) (bytes_at b cur n) = rest"
    by (simp add: at length_enc_pattern [OF wf(1)])
  then show "bytes_at b (cur + 5 + 2 * length ps) (n - (5 + 2 * length ps)) = rest"
    by (simp add: add.assoc)
qed

lemma enc_patterns_parsed:
  assumes "bytes_at b cur n = enc_patterns es" "\<forall>e\<in>set es. wf_wire e" "cur + n + 5 < 2 ^ 32" "k < 2 ^ 16"
  shows "\<exists>mpl. count_patterns b (cur + n) cur k m = Some ((k + length es) mod 2 ^ 16, mpl)
          \<and> m \<le> mpl \<and> mpl \<le> max m n \<and> (\<forall>p\<in>set (build_patterns b cur (length es)). plen p \<le> mpl)
          \<and> list_all2 parsed es (build_patterns b cur (length es))"
  using assms
proof (induction es arbitrary: cur n k m)
  case Nil
  then have "n = 0" by (cases n) (auto simp: bytes_at_def)
  with Nil.prems show ?case by (subst count_patterns.simps) simp
next
  case (Cons e es)
  obtain tc ps ms where e: "e = (tc, ps, ms)" by (metis prod_cases3)
  have wf: "wf_wire (tc, ps, ms)" using Cons.prems(2) e by simp
  have n: "n = 5 + 2 * length ps + length (enc_patterns es)"
    using arg_cong [OF Cons.prems(1), of length] length_enc_pattern [OF wf] e by simp
  have small: "length ps < 2 ^ 32" using n Cons.prems(3) by simp
  have at: "bytes_at b cur n = enc_pattern (tc, ps, ms) @ enc_patterns es" using Cons.prems(1) e by simp
  note f = enc_pattern_at [OF at wf small]
  define cur' where "cur' = cur + 5 + 2 * length ps"
  define n' where "n' = n - (5 + 2 * length ps)"
  have cur': "cur' mod 2 ^ 32 = cur'" "cur' + n' = cur + n" using Cons.prems(3) n by (simp_all add: cur'_def n'_def)
  define k' where "k' = (k + 1) mod 2 ^ 16"
  define m' where "m' = (if length ps > m then length ps else m)"
  obtain mpl where IH: "count_patterns b (cur' + n') cur' k' m' = Some ((k' + length es) mod 2 ^ 16, mpl)"
      "m' \<le> mpl" "mpl \<le> max m' n'" "\<forall>p\<in>set (build_patterns b cur' (length es)). plen p \<le> mpl"
      "list_all2 parsed es (build_patterns b cur' (length es))"
    using Cons.IH [of cur' n' k' m'] Cons.prems(2,3) f(4) cur'
    by (auto simp: cur'_def [symmetric] n'_def [symmetric] k'_def)
  define p where "p = \<lparr>pat = shift b (cur + 5), msk = shift b (cur + 5 + length ps), plen = length ps,
      target_count = tc, first_fixed = (if b (cur + 5 + length ps) = 1 then uint (b (cur + 5)) else -1)\<rparr>"
  have "0 < length ps" using wf by (simp add: wf_wire_def)
  then have p: "parsed e p" "plen p \<le> m'" using f(3) by (auto simp: parsed_def wf_pat_def p_def e m'_def)
  have build: "build_patterns b cur (length (e # es)) = p # build_patterns b cur' (length es)"
    using cur'(1) f(1,2) by (simp add: Let_def cur'_def p_def)
  have count: "count_patterns b (cur + n) cur k m = count_patterns b (cur' + n') cur' k' m'"
    using n Cons.prems(3) cur' f(2)
    by (subst count_patterns.simps) (simp add: Let_def m'_def k'_def cur'_def [symmetric])
  have "(k' + length es) mod 2 ^ 16 = (k + length (e # es)) mod 2 ^ 16"
    by (simp add: k'_def mod_simps)
  moreover have "m \<le> mpl" "mpl \<le> max m n" using IH(2,3) n by (auto simp: m'_def n'_def split: if_splits)
  ultimately show ?case
    unfolding build count IH(1) using IH(2,4,5) p
    by (intro exI [of _ mpl]) (auto simp del: build_patterns.simps)
qed

text \<open>The answer the client expects for one pattern of the blob.\<close>

definition aob_answer :: "ptr \<Rightarrow> u64 \<Rightarrow> nat \<Rightarrow> bool \<Rightarrow> wire_pattern \<Rightarrow> u64" where
  "aob_answer region base len unique e =
     (case e of (tc, ps, ms) \<Rightarrow>
        nth_match base (unat tc) unique (aob_hits region len (length ps) (of_list ps) (of_list ms)))"

lemma parsed_answer:
  assumes "parsed e p" "wf_wire e"
  shows "nth_match base (unat (target_count p)) uq (pat_hits region len p 0 len) = aob_answer region base len uq e"
proof -
  obtain tc ps ms where e: "e = (tc, ps, ms)" by (metis prod_cases3)
  have "pat_hit region len p off \<longleftrightarrow> off + length ps \<le> len \<and> occurs region (length ps) (of_list ps) (of_list ms) off" for off
    using assms by (auto simp: e parsed_def wf_wire_def pat_hit_def occurs_def of_list_def)
  then have "pat_hits region len p 0 len = aob_hits region len (length ps) (of_list ps) (of_list ms)"
    unfolding pat_hits_def aob_hits_def by (intro filter_cong) auto
  then show ?thesis using assms(1) by (simp add: aob_answer_def e parsed_def)
qed

lemma slot_offsets_bounds:
  "length ps \<le> slot_offsets ps ! length ps \<and> slot_offsets ps ! length ps \<le> length ps * 256"
proof (induction ps rule: rev_induct)
  case Nil
  then show ?case by (simp add: slot_offsets_def)
next
  case (snoc p ps)
  have len: "length (slot_offsets ps) = length ps + 1" using slot_offsets_spec by blast
  then have "last (slot_offsets ps) = slot_offsets ps ! length ps"
    by (metis add_diff_cancel_right' last_conv_nth length_0_conv add_is_0 one_neq_zero)
  moreover have "slot_offsets (ps @ [p]) = slot_offsets ps @ [last (slot_offsets ps) + (unat (target_count p) + 1)]"
    by (simp add: slot_offsets_def)
  moreover have "unat (target_count p) < 2 ^ LENGTH(8)" by (rule unsigned_less)
  ultimately show ?case using snoc len by (simp add: nth_append)
qed

text \<open>All patterns of a decoded blob, answered by the workers.\<close>

context readable_region
begin

lemma workers_answer:
  assumes "list_all2 parsed es ps" "\<forall>e\<in>set es. wf_wire e" "\<forall>p\<in>set ps. plen p \<le> mpl"
    and "0 < mpl" "0 < chunk" "chunk + mpl \<le> 2 ^ 32" "split_workers threads rlen = (num, span)"
  shows "run_workers rd pid base rlen ps uq mpl chunk (num, span) rb wa
    = map (aob_answer (window (mem pid) base) base rlen uq) es"
proof -
  have "wf_pat p" if "p \<in> set ps" for p
    using assms(1) that by (auto simp: list_all2_conv_all_nth in_set_conv_nth parsed_def)
  then have "run_workers rd pid base rlen ps uq mpl chunk (num, span) rb wa
      = map (\<lambda>p. nth_match base (unat (target_count p)) uq (pat_hits (window (mem pid) base) rlen p 0 rlen)) ps"
    using assms(3) by (intro run_workers_correct [OF _ assms(4-7)]) auto
  also have "\<dots> = map (aob_answer (window (mem pid) base) base rlen uq) es"
    using assms(1,2) parsed_answer by (intro nth_equalityI) (auto simp: list_all2_conv_all_nth)
  finally show ?thesis .
qed

end

lemma worker_sizes:
  fixes n num slots ch mpl :: nat
  assumes "0 < num" "num \<le> 16" "0 < n" "n < 2 ^ 16" "n \<le> slots" "slots \<le> n * 256"
    and "0 < ch" "ch \<le> 2 ^ 24" "mpl \<le> 2 ^ 24"
  shows "\<forall>sz\<in>set [num * (ch + mpl), num * slots * 8, num * n * 4, num * n]. 0 < sz mod 2 ^ 32"
proof -
  have "num * (ch + mpl) \<le> 16 * (2 ^ 24 + 2 ^ 24)" "num * slots \<le> 16 * (2 ^ 16 * 256)" "num * n \<le> 16 * 2 ^ 16"
    using assms by (intro mult_le_mono; simp)+
  then have "num * (ch + mpl) < 2 ^ 32" "num * slots * 8 < 2 ^ 32" "num * n * 4 < 2 ^ 32" "num * n < 2 ^ 32"
    by (simp_all add: mult.commute [of num n])
  moreover have "0 < num * (ch + mpl)" "0 < num * slots * 8" "0 < num * n * 4" "0 < num * n"
    using assms by simp_all
  ultimately show ?thesis by (simp only: list.set ball_simps mod_less simp_thms)
qed

text \<open>
  C15: the parallel multi-pattern search. For any well-formed blob of fewer than 65536 patterns
  and any readable range, the answer holds for every pattern, in order, the address of its
  requested occurrence under the sequential rule of C12's search, for every number of worker
  threads and every chunk size: splitting the range, the first-byte dispatch, the capped
  per-worker records and the merge lose and duplicate nothing.
\<close>

theorem proc_scan_aob_multi_handle_correct:
  assumes "target_reader rd mem readable" "quiet c" "data packet = Some dp" "scan_aob_multi_packet dp = mp"
    and "rx c = enc_patterns es @ rest" "unat (am_patterns_length mp) = length (enc_patterns es)"
    and "es \<noteq> []" "\<forall>e\<in>set es. wf_wire e" "length es < 2 ^ 16" "length (enc_patterns es) \<le> 2 ^ 24"
    and "0 < chunk" "chunk \<le> 2 ^ 24"
    and "readable (am_pid mp) (am_address mp) (unat (am_length mp))"
  shows "\<exists>c'. proc_scan_aob_multi_handle rd threads chunk packet c = Some (0, c') \<and>
    io c (enc_patterns es) (status CMD_SUCCESS @ status CMD_SUCCESS @
       concat (map (le_bytes 8) (map (aob_answer (window (mem (am_pid mp)) (am_address mp)) (am_address mp)
          (unat (am_length mp)) (am_stop_flag mp = 1)) es))
       @ status CMD_SUCCESS) c'"
proof -
  let ?L = "length (enc_patterns es)" and ?n = "length es" and ?len = "unat (am_length mp)"
  have "enc_patterns es \<noteq> []" using assms(7) by (cases es) (auto simp: enc_pattern_def split: prod.splits)
  then have L: "0 < ?L" by (simp only: length_greater_0_conv not_False_eq_True)
  have region: "readable_region rd mem readable (am_pid mp) (am_address mp) ?len"
    using assms(1,13) by (simp add: readable_region_def readable_region_axioms_def)
  obtain b c1 where 1: "net_alloc_buffer ?L c = (Some b, c1)" "io c [] [] c1" using io_alloc [OF assms(2) L] .
  have q1: "quiet c1" using io_fields [OF 1(2)] assms(2) by simp
  note c2 = io_trans [OF 1(2) io_send_int32 [OF q1, of CMD_SUCCESS]]
  have q2: "quiet (send_int32 CMD_SUCCESS c1)" "rx (send_int32 CMD_SUCCESS c1) = enc_patterns es @ rest"
    using io_fields [OF 1(2)] q1 assms(5) by simp_all
  have "nat (c_int (am_patterns_length mp)) = ?L" using nat_c_int [of "am_patterns_length mp"] assms(6,10) by simp
  from io_recv [OF q2 this] obtain c3 where 3: "recv_all b (c_int (am_patterns_length mp)) (send_int32 CMD_SUCCESS c1)
      = (blit b 0 (enc_patterns es), c3)" "io (send_int32 CMD_SUCCESS c1) (enc_patterns es) [] c3" by metis
  have q3: "quiet c3" using io_fields [OF 3(2)] q2 by simp
  let ?blob = "blit b 0 (enc_patterns es)" and ?ps = "build_patterns (blit b 0 (enc_patterns es)) 0 ?n"
  obtain mpl where mpl: "count_patterns ?blob ?L 0 0 1 = Some (?n, mpl)" "1 \<le> mpl" "mpl \<le> ?L"
      "\<forall>p\<in>set ?ps. plen p \<le> mpl" "list_all2 parsed es ?ps"
    using enc_patterns_parsed [of ?blob 0 ?L es 0 1] assms(8-10) L by (auto simp: max_def split: if_splits)
  define ch where "ch = (if chunk < mpl then mpl else chunk)"
  have ch: "0 < ch" "ch \<le> 2 ^ 24" "mpl \<le> 2 ^ 24" using assms(10-12) mpl(3) by (auto simp: ch_def)
  obtain num span where split: "split_workers threads ?len = (num, span)" by fastforce
  note num = split_workers_cover(3,4) [OF split]
  let ?szs = "[?n * 24, ?n * 4, ?n * 4, (?n + 1) * 4, ?n * 8]"
  have "\<forall>sz\<in>set ?szs. 0 < sz mod 2 ^ 32" using assms(7,9) by auto
  then obtain bs c4 where 4: "alloc_all ?szs c3 = (map Some bs, c4)" "io c3 [] [] c4" using io_alloc_all [OF q3] by metis
  have q4: "quiet c4" using io_fields [OF 4(2)] q3 by simp
  define slots where "slots = slot_offsets ?ps ! ?n"
  have len_ps: "length ?ps = ?n" using list_all2_lengthD [OF mpl(5)] by (rule sym)
  have "?n \<le> slots" "slots \<le> ?n * 256" using slot_offsets_bounds [of ?ps] len_ps by (simp_all add: slots_def)
  moreover have "0 < ?n" using assms(7) by simp
  ultimately have "\<forall>sz\<in>set [num * (ch + mpl), num * slots * 8, num * ?n * 4, num * ?n]. 0 < sz mod 2 ^ 32"
    using worker_sizes [OF num(2,1) _ assms(9) _ _ ch] by blast
  then obtain wb c5 where 5: "alloc_all [num * (ch + mpl), num * slots * 8, num * ?n * 4, num * ?n] c4 = (map Some wb, c5)"
      "io c4 [] [] c5" using io_alloc_all [OF q4] by metis
  have q5: "quiet c5" using io_fields [OF 5(2)] q4 by simp
  define ans where "ans = map (aob_answer (window (mem (am_pid mp)) (am_address mp)) (am_address mp) ?len (am_stop_flag mp = 1)) es"
  have run: "run_workers rd (am_pid mp) (am_address mp) ?len ?ps (am_stop_flag mp = 1) mpl ch (num, span) rb wa = ans" for rb wa
    unfolding ans_def using mpl ch assms(8) split
    by (intro readable_region.workers_answer [OF region, where threads = threads]) auto
  have no: "(None \<in> set (map Some xs)) = False" for xs :: "ptr list" by auto
  have L0: "(?L = 0) = False" using L by simp
  have "proc_scan_aob_multi_handle rd threads chunk packet c =
      Some (0, send_int32 CMD_SUCCESS (send_all (concat (map (le_bytes 8) ans)) (send_int32 CMD_SUCCESS c5)))"
    unfolding proc_scan_aob_multi_handle_def assms(3) option.case Let_def assms(4)
    by (simp only: assms(6) L0 1(1) 3(1) mpl(1) ch_def [symmetric] 4(1) slots_def [symmetric] split 5(1) run no
        prod.case option.case if_False)
  moreover note io_trans [OF io_trans [OF io_trans [OF io_trans [OF c2 3(2)] 4(2)] 5(2)]
      io_trans [OF io_send_int32 [OF q5] io_trans [OF io_send_all io_send_int32]]]
  ultimately show ?thesis using q5 by (simp add: ans_def)
qed

definition example_multi_data :: ptr where
  "example_multi_data = of_list [1, 0, 0, 0, 0, 0x10, 0, 0, 0, 0, 0, 0, 8, 0, 0, 0, 0, 9, 0, 0, 0]"

definition example_multi_packet :: cmd_packet where
  "example_multi_packet = \<lparr>magic = 0xFFAABBCC, cmd = 0xBDAACC05, datalen = 21, data = Some example_multi_data\<rparr>"

lemma example_multi_fields:
  "scan_aob_multi_packet example_multi_data = \<lparr>am_pid = 1, am_address = 0x1000, am_length = 8,
     am_stop_flag = 0, am_patterns_length = 9\<rparr>"
  by (simp add: scan_aob_multi_packet_def example_multi_data_def of_list_def le_simps)

lemma example_enc: "enc_patterns [(1, [7, 9], [1, 1])] = [1, 2, 0, 0, 0, 7, 9, 1, 1]"
  by (simp add: enc_pattern_def le_bytes_def upt_rec)

theorem proc_scan_aob_multi_handle_correct_witness:
  "\<exists>c'. proc_scan_aob_multi_handle (flat_rd example_mem) 3 0x40000 example_multi_packet
       (example_conn\<lparr>rx := [1, 2, 0, 0, 0, 7, 9, 1, 1]\<rparr>) = Some (0, c')
     \<and> tx c' = status CMD_SUCCESS @ status CMD_SUCCESS @ le_bytes 8 (0x1003 :: u64) @ status CMD_SUCCESS"
proof -
  let ?c = "example_conn\<lparr>rx := [1, 2, 0, 0, 0, 7, 9, 1, 1]\<rparr>"
  have q: "quiet ?c" by (simp add: quiet_def send_live_def recv_live_def example_conn_def)
  have rx: "rx ?c = enc_patterns [(1, [7, 9], [1, 1])] @ []" by (simp only: example_enc) simp
  have d: "data example_multi_packet = Some example_multi_data" by (simp add: example_multi_packet_def)
  have m: "map (aob_answer (window (example_mem 1) 0x1000) 0x1000 8 False) [(1, [7, 9], [1, 1])] = [0x1003]"
    using example_aob_hits by (simp add: aob_answer_def nth_match_def numeral_2_eq_2)
  have "\<exists>c'. proc_scan_aob_multi_handle (flat_rd example_mem) 3 0x40000 example_multi_packet ?c = Some (0, c') \<and>
    io ?c (enc_patterns [(1, [7, 9], [1, 1])]) (status CMD_SUCCESS @ status CMD_SUCCESS @
       concat (map (le_bytes 8) (map (aob_answer (window (example_mem 1) 0x1000) 0x1000 8 False) [(1, [7, 9], [1, 1])]))
       @ status CMD_SUCCESS) c'"
    using proc_scan_aob_multi_handle_correct [OF flat.target_reader_axioms [of example_mem] q d refl rx, of "0x40000" 3]
    by (simp add: example_multi_fields example_enc wf_wire_def del: list.map map_map)
  then obtain c' where c': "proc_scan_aob_multi_handle (flat_rd example_mem) 3 0x40000 example_multi_packet ?c = Some (0, c')"
    and i: "io ?c (enc_patterns [(1, [7, 9], [1, 1])])
      (status CMD_SUCCESS @ status CMD_SUCCESS @ le_bytes 8 (0x1003 :: u64) @ status CMD_SUCCESS) c'"
    unfolding m by auto
  from io_fields(3) [OF i] c' show ?thesis by simp (simp add: example_conn_def)
qed

end
