(* ===== verification/Auth.thy ===== *)
theory Auth
  imports Net Protocol
begin

text \<open>
  The challenge-response handshake of \<^verbatim>\<open>debugger/source/auth.c\<close>. The file-local generator
  state \<^verbatim>\<open>s_lfsr_s1..s4\<close> and the global \<^verbatim>\<open>g_proc_auth_state\<close> extend the connection
  record; the scan handlers test bit 1 of the latter.
\<close>

record auth = conn +
  s_lfsr_s1 :: u32
  s_lfsr_s2 :: u32
  s_lfsr_s3 :: u32
  s_lfsr_s4 :: u32
  g_proc_auth_state :: u32

section \<open>Operations\<close>

definition auth_lfsr_next :: "'z auth_scheme \<Rightarrow> u32 \<times> 'z auth_scheme" where
  "auth_lfsr_next c =
     (let s1 = s_lfsr_s1 c; s2 = s_lfsr_s2 c; s3 = s_lfsr_s3 c; s4 = s_lfsr_s4 c;
          s1 = (push_bit 18 s1 AND 0xFFF80000) XOR drop_bit 13 (s1 XOR push_bit 6 s1);
          s2 = (push_bit 2 s2 AND 0xFFFFFFE0) XOR drop_bit 27 (s2 XOR push_bit 2 s2);
          s3 = (push_bit 7 s3 AND 0xFFFFF800) XOR drop_bit 21 (s3 XOR push_bit 13 s3);
          s4 = (push_bit 13 s4 AND 0xFFF00000) XOR drop_bit 12 (s4 XOR push_bit 3 s4)
      in (s1 XOR s2 XOR s3 XOR s4,
          c\<lparr>s_lfsr_s1 := s1, s_lfsr_s2 := s2, s_lfsr_s3 := s3, s_lfsr_s4 := s4\<rparr>))"

definition auth_lfsr_set_state :: "u32 \<Rightarrow> u32 \<Rightarrow> u32 \<Rightarrow> u32 \<Rightarrow> 'z auth_scheme \<Rightarrow> 'z auth_scheme" where
  "auth_lfsr_set_state a b d e c =
     c\<lparr>s_lfsr_s1 := a, s_lfsr_s2 := b, s_lfsr_s3 := d, s_lfsr_s4 := e\<rparr>"

text \<open>\<open>draw f n\<close>: \<open>n\<close> generator outputs in order, each passed through \<open>f\<close>.\<close>

primrec draw :: "(u32 \<Rightarrow> byte) \<Rightarrow> nat \<Rightarrow> 'z auth_scheme \<Rightarrow> byte list \<times> 'z auth_scheme" where
  "draw f 0 c = ([], c)"
| "draw f (Suc n) c =
     (let (r, c) = auth_lfsr_next c; (bs, c) = draw f n c in (f r # bs, c))"

definition auth_keystream_fill :: "'z auth_scheme \<Rightarrow> byte list \<times> 'z auth_scheme" where
  "auth_keystream_fill c = draw ucast 256 (auth_lfsr_set_state 200 300 400 500 c)"

definition proc_auth_xor_keystream ::
    "byte list \<Rightarrow> u16 \<Rightarrow> 'z auth_scheme \<Rightarrow> byte list \<times> 'z auth_scheme" where
  "proc_auth_xor_keystream inp len c =
     (let (keystream, c) = auth_keystream_fill c
      in (map (\<lambda>i. inp ! i XOR keystream ! (i mod 256)) [0..<unat len], c))"

definition auth_challenge :: "'z auth_scheme \<Rightarrow> byte list \<times> 'z auth_scheme" where
  "auth_challenge c = draw (\<lambda>r. ucast (r + r div 255)) 64 c"

definition CMD_PROC_AUTH_MAGIC_BSWAP :: u32 where
  "CMD_PROC_AUTH_MAGIC_BSWAP = 0x7780D98E"

definition proc_auth_handle :: "cmd_packet \<Rightarrow> 'z auth_scheme \<Rightarrow> int \<times> 'z auth_scheme" where
  "proc_auth_handle packet c =
     (case data packet of
        None \<Rightarrow> (1, send_int32 CMD_DATA_NULL c)
      | Some p \<Rightarrow>
          let ap = auth_packet p in
          if bitswap32 (ap_magic ap) \<noteq> CMD_PROC_AUTH_MAGIC_BSWAP
          then (1, send_int32 CMD_DATA_NULL c)
          else
            let c = send_int32 CMD_SUCCESS c;
                (challenge, c) = auth_challenge c;
                (expected, c) = proc_auth_xor_keystream challenge 64 c;
                c = send_all (le_bytes 2 (64 :: u16)) c;
                c = send_all challenge c;
                (response, c) = recv_all (junk c (nalloc c)) 64 c
            in if bytes_at response 0 64 \<noteq> expected
               then (1, send_int32 CMD_DATA_NULL c)
               else
                 let c = (if ap_flags ap AND 1 \<noteq> 0 then c\<lparr>g_proc_auth_state := 0x14001\<rparr> else c);
                     c = (if ap_flags ap AND 2 \<noteq> 0 then c\<lparr>g_proc_auth_state := 0x14002\<rparr> else c)
                 in (0, send_int32 CMD_SUCCESS c))"

definition auth_granted :: "'z auth_scheme \<Rightarrow> bool" where
  \<comment> \<open>the guard \<^verbatim>\<open>g_proc_auth_state & 2\<close> of the scan handlers\<close>
  "auth_granted c \<longleftrightarrow> g_proc_auth_state c AND 2 \<noteq> 0"

section \<open>The generator\<close>

definition lfsr :: "'z auth_scheme \<Rightarrow> u32 \<times> u32 \<times> u32 \<times> u32" where
  "lfsr c = (s_lfsr_s1 c, s_lfsr_s2 c, s_lfsr_s3 c, s_lfsr_s4 c)"

lemma auth_lfsr_next_cong:
  "lfsr c = lfsr d \<Longrightarrow>
   fst (auth_lfsr_next c) = fst (auth_lfsr_next d) \<and>
   lfsr (snd (auth_lfsr_next c)) = lfsr (snd (auth_lfsr_next d))"
  by (simp add: auth_lfsr_next_def lfsr_def Let_def)

lemma draw_cong:
  "lfsr c = lfsr d \<Longrightarrow> fst (draw f n c) = fst (draw f n d) \<and> lfsr (snd (draw f n c)) = lfsr (snd (draw f n d))"
proof (induction n arbitrary: c d)
  case (Suc n)
  obtain r c' where c: "auth_lfsr_next c = (r, c')" by fastforce
  obtain s d' where d: "auth_lfsr_next d = (s, d')" by fastforce
  have "r = s" "lfsr c' = lfsr d'"
    using auth_lfsr_next_cong [OF Suc.prems] c d by auto
  with Suc.IH [of c' d'] c d show ?case
    by (auto split: prod.splits)
qed simp

lemma length_draw [simp]: "length (fst (draw f n c)) = n"
  by (induction n arbitrary: c) (auto split: prod.splits, metis fst_conv)

lemma draw_frame:
  "conn.more (snd (draw f n c)) = conn.more (snd (draw f n c)) \<and>
   g_proc_auth_state (snd (draw f n c)) = g_proc_auth_state c \<and>
   conn.truncate (snd (draw f n c)) = conn.truncate c"
proof (induction n arbitrary: c)
  case (Suc n)
  obtain r c' where c: "auth_lfsr_next c = (r, c')" by fastforce
  then have "g_proc_auth_state c' = g_proc_auth_state c" "conn.truncate c' = conn.truncate c"
    by (auto simp: auth_lfsr_next_def Let_def conn.defs)
  with Suc.IH [of c'] c show ?case by (auto split: prod.splits)
qed simp

lemma draw_conn:
  "rx (snd (draw f n c)) = rx c" "tx (snd (draw f n c)) = tx c"
  "quiet (snd (draw f n c)) = quiet c"
  using draw_frame [of f n c] by (auto simp: conn.defs quiet_def send_live_def recv_live_def)

lemma draw_auth_state: "g_proc_auth_state (snd (draw f n c)) = g_proc_auth_state c"
  using draw_frame by blast

lemma draw_zero:
  "lfsr c = (0, 0, 0, 0) \<Longrightarrow> fst (draw f n c) = replicate n (f 0) \<and> lfsr (snd (draw f n c)) = (0, 0, 0, 0)"
proof (induction n arbitrary: c)
  case (Suc n)
  obtain r c' where c: "auth_lfsr_next c = (r, c')" by fastforce
  with Suc.prems have "r = 0" "lfsr c' = (0, 0, 0, 0)"
    by (auto simp: auth_lfsr_next_def lfsr_def Let_def)
  with Suc.IH [of c'] c show ?case by (auto split: prod.splits)
qed simp

lemma lfsr_transport [simp]:
  "lfsr (send_all bs c) = lfsr c" "lfsr (send_int32 v c) = lfsr c"
  "lfsr (snd (recv_all p len c)) = lfsr c"
  using send_all_ex [of bs c] send_all_ex [of "le_bytes 4 (bitswap32 v)" c] recv_all_ex [of p len c]
  by (auto simp: lfsr_def send_int32_conv)

lemma auth_state_transport [simp]:
  "g_proc_auth_state (send_all bs c) = g_proc_auth_state c"
  "g_proc_auth_state (send_int32 v c) = g_proc_auth_state c"
  "g_proc_auth_state (snd (recv_all p len c)) = g_proc_auth_state c"
  using send_all_ex [of bs c] send_all_ex [of "le_bytes 4 (bitswap32 v)" c] recv_all_ex [of p len c]
  by (auto simp: send_int32_conv)

text \<open>The keystream is drawn from a fixed seed, so it does not depend on the state.\<close>

lemma keystream_fixed:
  "fst (auth_keystream_fill c) = fst (auth_keystream_fill d)"
  "lfsr (snd (auth_keystream_fill c)) = lfsr (snd (auth_keystream_fill d))"
proof -
  have "lfsr (auth_lfsr_set_state 200 300 400 500 c) = lfsr (auth_lfsr_set_state 200 300 400 500 d)"
    by (simp add: lfsr_def auth_lfsr_set_state_def)
  from draw_cong [OF this] show
    "fst (auth_keystream_fill c) = fst (auth_keystream_fill d)"
    "lfsr (snd (auth_keystream_fill c)) = lfsr (snd (auth_keystream_fill d))"
    by (simp_all add: auth_keystream_fill_def)
qed

lemma xor_keystream_conv:
  "proc_auth_xor_keystream inp len c =
     (map (\<lambda>i. inp ! i XOR fst (auth_keystream_fill c) ! (i mod 256)) [0..<unat len],
      snd (auth_keystream_fill c))"
  by (simp add: proc_auth_xor_keystream_def split: prod.splits)

lemma keystream_conn [simp]:
  "rx (snd (auth_keystream_fill c)) = rx c" "tx (snd (auth_keystream_fill c)) = tx c"
  "quiet (snd (auth_keystream_fill c)) = quiet c"
  "g_proc_auth_state (snd (auth_keystream_fill c)) = g_proc_auth_state c"
  by (simp_all add: auth_keystream_fill_def draw_conn draw_auth_state auth_lfsr_set_state_def
      quiet_def send_live_def recv_live_def)
     (use draw_frame [of ucast 256 "auth_lfsr_set_state 200 300 400 500 c"] in
       \<open>simp_all add: conn.defs auth_lfsr_set_state_def\<close>)

lemma challenge_conn [simp]:
  "rx (snd (auth_challenge c)) = rx c" "tx (snd (auth_challenge c)) = tx c"
  "quiet (snd (auth_challenge c)) = quiet c"
  "g_proc_auth_state (snd (auth_challenge c)) = g_proc_auth_state c"
  "length (fst (auth_challenge c)) = 64"
  by (simp_all add: auth_challenge_def draw_conn draw_auth_state)

lemma quiet_auth_state [simp]: "quiet (c\<lparr>g_proc_auth_state := s\<rparr>) = quiet c"
  by (simp add: quiet_def send_live_def recv_live_def)

section \<open>Properties\<close>

definition auth_response :: "'z auth_scheme \<Rightarrow> byte list" where
  \<comment> \<open>the bytes a client must answer with: the challenge under the keystream\<close>
  "auth_response c = fst (proc_auth_xor_keystream (fst (auth_challenge c)) 64 c)"

lemma auth_response_eq:
  assumes "lfsr d = lfsr c"
  shows "map (\<lambda>i. fst (auth_challenge d) ! i XOR fst (auth_keystream_fill e) ! (i mod 256)) [0..<64]
     = auth_response c"
proof -
  have "fst (auth_challenge d) = fst (auth_challenge c)"
    using draw_cong [OF assms] by (simp add: auth_challenge_def)
  moreover have "fst (auth_keystream_fill e) = fst (auth_keystream_fill c)"
    by (rule keystream_fixed)
  ultimately show ?thesis
    by (simp add: auth_response_def xor_keystream_conv)
qed

lemma u32_and_3: "(x :: u32) AND 3 = 0 \<longleftrightarrow> x AND 1 = 0 \<and> x AND 2 = 0"
proof -
  have "x AND 3 = (x AND 1) OR (x AND 2)"
    by (simp flip: bit.conj_disj_distrib)
  then show ?thesis by (simp add: or_eq_0_iff)
qed

lemma handle_conv:
  assumes "data packet = Some p"
    and "bitswap32 (ap_magic (auth_packet p)) = CMD_PROC_AUTH_MAGIC_BSWAP"
  shows "proc_auth_handle packet c =
     (let c1 = send_int32 CMD_SUCCESS c;
          c3 = snd (auth_keystream_fill (snd (auth_challenge c1)));
          c4 = send_all (fst (auth_challenge c)) (send_all (le_bytes 2 (64 :: u16)) c3);
          (response, c5) = recv_all (junk c4 (nalloc c4)) 64 c4
      in if bytes_at response 0 64 \<noteq> auth_response c
         then (1, send_int32 CMD_DATA_NULL c5)
         else
           let c6 = (if ap_flags (auth_packet p) AND 1 \<noteq> 0 then c5\<lparr>g_proc_auth_state := 0x14001\<rparr> else c5);
               c7 = (if ap_flags (auth_packet p) AND 2 \<noteq> 0 then c6\<lparr>g_proc_auth_state := 0x14002\<rparr> else c6)
           in (0, send_int32 CMD_SUCCESS c7))"
proof -
  let ?c1 = "send_int32 CMD_SUCCESS c"
  have "fst (auth_challenge ?c1) = fst (auth_challenge c)"
    using draw_cong [of ?c1 c] by (simp add: auth_challenge_def)
  moreover have "fst (proc_auth_xor_keystream (fst (auth_challenge ?c1)) 64 (snd (auth_challenge ?c1)))
      = auth_response c"
    using auth_response_eq [of ?c1 c "snd (auth_challenge ?c1)"] by (simp add: xor_keystream_conv)
  moreover have "snd (proc_auth_xor_keystream (fst (auth_challenge ?c1)) 64 (snd (auth_challenge ?c1)))
      = snd (auth_keystream_fill (snd (auth_challenge ?c1)))"
    by (simp add: xor_keystream_conv)
  ultimately show ?thesis
    unfolding proc_auth_handle_def Let_def by (simp add: assms split_beta)
qed

text \<open>
  C30: the handshake on a healthy connection. A request with the right magic is acknowledged,
  the 64-byte challenge follows, and the client is accepted (result 0) exactly when its 64
  bytes are the challenge XORed with the keystream. Only an accepted client changes the
  authorisation, and it gains the scan right (bit 1) iff it asked for flag 2.
\<close>

theorem proc_auth_handle_correct:
  assumes "quiet c" "data packet = Some p" "64 \<le> length (rx c)"
    and "bitswap32 (ap_magic (auth_packet p)) = CMD_PROC_AUTH_MAGIC_BSWAP"
  shows "\<exists>c'. proc_auth_handle packet c = (if take 64 (rx c) = auth_response c then 0 else 1, c')
    \<and> auth_granted c' =
        (if take 64 (rx c) = auth_response c \<and> ap_flags (auth_packet p) AND 3 \<noteq> 0
         then ap_flags (auth_packet p) AND 2 \<noteq> 0 else auth_granted c)
    \<and> rx c' = drop 64 (rx c)
    \<and> tx c' = tx c @ le_bytes 4 (bitswap32 CMD_SUCCESS) @ [64, 0] @ fst (auth_challenge c)
        @ le_bytes 4 (bitswap32 (if take 64 (rx c) = auth_response c then CMD_SUCCESS else CMD_DATA_NULL))"
proof -
  define c1 where "c1 = send_int32 CMD_SUCCESS c"
  define c3 where "c3 = snd (auth_keystream_fill (snd (auth_challenge c1)))"
  define c4 where "c4 = send_all (fst (auth_challenge c)) (send_all (le_bytes 2 (64 :: u16)) c3)"
  define r where "r = blit (junk c4 (nalloc c4)) 0 (take 64 (rx c))"
  have q: "quiet c1" "quiet c3" "quiet c4"
    using assms(1) by (simp_all add: c1_def c3_def c4_def)
  have rx: "rx c4 = rx c" by (simp add: c1_def c3_def c4_def)
  have "le_bytes 2 (64 :: u16) = [64, 0]" by (simp add: le_bytes_def upt_rec)
  then have tx: "tx c4 = tx c @ le_bytes 4 (bitswap32 CMD_SUCCESS) @ [64, 0] @ fst (auth_challenge c)"
    using assms(1) q by (simp add: c4_def c3_def c1_def)
  obtain m where rv: "recv_all (junk c4 (nalloc c4)) 64 c4 = (r, c4\<lparr>nrecv := nrecv c4 + m, rx := drop 64 (rx c)\<rparr>)"
    using quiet_recv_all [OF q(3), of 64 "junk c4 (nalloc c4)"] assms(3) by (auto simp: rx r_def)
  define c5 where "c5 = c4\<lparr>nrecv := nrecv c4 + m, rx := drop 64 (rx c)\<rparr>"
  have r: "bytes_at r 0 64 = take 64 (rx c)"
    using assms(3) by (simp add: r_def)
  have c5: "quiet c5" "rx c5 = drop 64 (rx c)" "tx c5 = tx c4" "auth_granted c5 = auth_granted c"
    using q by (simp_all add: c5_def auth_granted_def c4_def c3_def c1_def)
  show ?thesis
    using c5 tx rv
    unfolding handle_conv [OF assms(2,4)] c1_def [symmetric] c3_def [symmetric] c4_def [symmetric]
    by (auto simp: Let_def auth_granted_def u32_and_3 r c5_def [symmetric] c1_def [symmetric]
      c3_def [symmetric] c4_def [symmetric]
      simp del: junk_send_all nalloc_send_all junk_send_int32 nalloc_send_int32)
qed

definition example_auth :: auth where
  "example_auth = conn.extend example_conn
     \<lparr>s_lfsr_s1 = 0, s_lfsr_s2 = 0, s_lfsr_s3 = 0, s_lfsr_s4 = 0, g_proc_auth_state = 0\<rparr>"

definition example_auth_packet :: cmd_packet where
  "example_auth_packet = \<lparr>magic = 0xFFAABBCC, cmd = 0xBDAACCFF, datalen = 8,
     data = Some (of_list [0x4D, 0xE6, 0x40, 0xBB, 2, 0, 0, 0])\<rparr>"

lemma example_auth_packet_fields:
  "bitswap32 (ap_magic (auth_packet (of_list [0x4D, 0xE6, 0x40, 0xBB, 2, 0, 0, 0])))
     = CMD_PROC_AUTH_MAGIC_BSWAP"
  "ap_flags (auth_packet (of_list [0x4D, 0xE6, 0x40, 0xBB, 2, 0, 0, 0])) = 2"
  by (simp_all add: auth_packet_def le_simps of_list_def bitswap32_def CMD_PROC_AUTH_MAGIC_BSWAP_def)

lemma quiet_example_auth: "quiet (example_auth\<lparr>rx := r\<rparr>)"
  by (simp add: quiet_def send_live_def recv_live_def example_auth_def example_conn_def conn.extend_def)

lemma auth_response_rx: "auth_response (c\<lparr>rx := r\<rparr>) = auth_response c"
  using auth_response_eq [of "c\<lparr>rx := r\<rparr>" c "c\<lparr>rx := r\<rparr>"]
  by (simp add: lfsr_def auth_response_def xor_keystream_conv)

lemma length_auth_response [simp]: "length (auth_response c) = 64"
  by (simp add: auth_response_def xor_keystream_conv)

theorem proc_auth_handle_correct_witness:
  "\<exists>c'. proc_auth_handle example_auth_packet (example_auth\<lparr>rx := auth_response example_auth\<rparr>) = (0, c')
      \<and> auth_granted c'"
proof -
  let ?c = "example_auth\<lparr>rx := auth_response example_auth\<rparr>"
  let ?p = "of_list [0x4D, 0xE6, 0x40, 0xBB, 2, 0, 0, 0]"
  have "data example_auth_packet = Some ?p" by (simp add: example_auth_packet_def)
  moreover have "64 \<le> length (rx ?c)" by simp
  ultimately show ?thesis
    using proc_auth_handle_correct [of ?c example_auth_packet ?p]
    by (auto simp: quiet_example_auth example_auth_packet_fields auth_response_rx)
qed

text \<open>
  The keystream cipher is its own inverse on every message of the announced length,
  whatever generator state the two applications start from.
\<close>

lemma proc_auth_xor_keystream_roundtrip:
  assumes "length inp = unat len"
  shows "fst (proc_auth_xor_keystream (fst (proc_auth_xor_keystream inp len c)) len d) = inp"
proof (rule nth_equalityI)
  fix i
  assume "i < length (fst (proc_auth_xor_keystream (fst (proc_auth_xor_keystream inp len c)) len d))"
  then have "i < unat len" by (simp add: xor_keystream_conv)
  then show "fst (proc_auth_xor_keystream (fst (proc_auth_xor_keystream inp len c)) len d) ! i = inp ! i"
    using keystream_fixed(1) [of c d] by (simp add: xor_keystream_conv xor.assoc)
qed (simp add: xor_keystream_conv assms)

lemma lfsr_after_handle:
  assumes "data packet = Some p"
    and "bitswap32 (ap_magic (auth_packet p)) = CMD_PROC_AUTH_MAGIC_BSWAP"
  shows "lfsr (snd (proc_auth_handle packet c)) = lfsr (snd (auth_keystream_fill d))"
proof -
  have upd: "lfsr (e\<lparr>g_proc_auth_state := s\<rparr>) = lfsr e" for e :: "'a auth_scheme" and s
    by (simp add: lfsr_def)
  let ?c3 = "snd (auth_keystream_fill (snd (auth_challenge (send_int32 CMD_SUCCESS c))))"
  let ?c4 = "send_all (fst (auth_challenge c)) (send_all (le_bytes 2 (64 :: u16)) ?c3)"
  obtain r c5 where rv: "recv_all (junk ?c4 (nalloc ?c4)) 64 ?c4 = (r, c5)"
    by fastforce
  then have "lfsr c5 = lfsr ?c3"
    using lfsr_transport(3) [of "junk ?c4 (nalloc ?c4)" 64 ?c4] by simp
  also have "\<dots> = lfsr (snd (auth_keystream_fill d))" by (rule keystream_fixed(2))
  finally show ?thesis
    unfolding handle_conv [OF assms] Let_def rv by (simp add: upd)
qed

text \<open>
  C31: the handshake can be replayed. The keystream fill reseeds the generator with constants, so
  after any request with the right magic (accepted or not) the next challenge, and the answer it
  wants, is always the same one; and the challenge of a freshly started server, whose generator
  state is zero, consists of zero bytes.
\<close>

theorem auth_challenge_replay:
  assumes "data packet = Some p" "data packet' = Some p'"
    and "bitswap32 (ap_magic (auth_packet p)) = CMD_PROC_AUTH_MAGIC_BSWAP"
    and "bitswap32 (ap_magic (auth_packet p')) = CMD_PROC_AUTH_MAGIC_BSWAP"
    and "lfsr (d :: 'z auth_scheme) = (0, 0, 0, 0)"
  shows "auth_response (snd (proc_auth_handle packet (c :: 'z auth_scheme)))
         = auth_response (snd (proc_auth_handle packet' (c' :: 'z auth_scheme)))
    \<and> fst (auth_challenge d) = replicate 64 0"
proof
  let ?h = "snd (proc_auth_handle packet c)" and ?h' = "snd (proc_auth_handle packet' c')"
  have "lfsr ?h = lfsr ?h'"
    using lfsr_after_handle [OF assms(1,3), of c d] lfsr_after_handle [OF assms(2,4), of c' d] by simp
  then show "auth_response ?h = auth_response ?h'"
    using auth_response_eq [of ?h ?h' ?h] by (simp add: auth_response_def xor_keystream_conv)
  show "fst (auth_challenge d) = replicate 64 0"
    using draw_zero [OF assms(5)] by (simp add: auth_challenge_def)
qed

theorem auth_challenge_replay_witness:
  "auth_response (snd (proc_auth_handle example_auth_packet example_auth))
     = auth_response (snd (proc_auth_handle example_auth_packet (example_auth\<lparr>rx := [1, 2]\<rparr>)))
   \<and> fst (auth_challenge example_auth) = replicate 64 0"
  by (rule auth_challenge_replay [where p = "of_list [0x4D, 0xE6, 0x40, 0xBB, 2, 0, 0, 0]"
        and p' = "of_list [0x4D, 0xE6, 0x40, 0xBB, 2, 0, 0, 0]"])
     (simp_all add: example_auth_packet_fields example_auth_packet_def example_auth_def
        lfsr_def conn.extend_def)

end
