(* ===== verification/ScanHandlers.thy ===== *)
theory ScanHandlers
  imports Auth ScanCompare Reader
begin

text \<open>
  The value-scan handlers of \<^verbatim>\<open>debugger/source/scan.c\<close>: the legacy whole-process scan, the
  streaming first scan (\<^verbatim>\<open>proc_scan_start_handle\<close>), the rescan of client-held candidates
  (\<^verbatim>\<open>proc_scan_count_handle\<close>) and the batched reads (\<^verbatim>\<open>proc_scan_get_handle\<close>).
  Releasing a buffer has no effect in the model.
\<close>

definition recv_opt :: "ptr option \<Rightarrow> int \<Rightarrow> 'z conn_scheme \<Rightarrow> ptr option \<times> 'z conn_scheme" where
  \<comment> \<open>\<^verbatim>\<open>if (p) net_recv_all(fd, p, len, 1)\<close>\<close>
  "recv_opt p len c = (case p of
       None \<Rightarrow> (None, c)
     | Some q \<Rightarrow> let (q, c) = recv_all q len c in (Some q, c))"

section \<open>The legacy scan\<close>

record vm_entry =
  vm_name :: "byte list"
  vm_start :: u64
  vm_end :: u64
  vm_offset :: u64
  vm_prot :: u16

text \<open>One section of the address space, from offset \<open>j\<close> on. The window buffer is reloaded
  whenever the offset is a multiple of 16 KiB.\<close>

function legacy_section ::
    "reader \<Rightarrow> u32 \<Rightarrow> byte \<Rightarrow> byte \<Rightarrow> nat \<Rightarrow> ptr \<Rightarrow> ptr option \<Rightarrow> u64 \<Rightarrow> nat \<Rightarrow> nat \<Rightarrow> ptr \<times> 'z conn_scheme
      \<Rightarrow> ptr \<times> 'z conn_scheme" where
  "legacy_section rd pid cmpType valType value_length scan extra start section_len j st =
     (if j < section_len \<and> 0 < value_length then
        let (scan_buf, c) = st;
            off = j mod 0x4000;
            scan_buf = (if j = 0 \<or> off = 0 then rd pid start 0x4000 scan_buf else scan_buf);
            c = (if proc_scan_legacy_compareValues cmpType valType value_length scan (shift scan_buf off) extra
                 then send_all (le_bytes 8 (start + of_nat j)) c else c)
        in legacy_section rd pid cmpType valType value_length scan extra start section_len (j + value_length) (scan_buf, c)
      else st)"
  by pat_completeness auto
termination
  by (relation "measure (\<lambda>(_, _, _, _, _, _, _, _, len, j, _). len - j)") auto

declare legacy_section.simps [simp del]

definition legacy_entry ::
    "reader \<Rightarrow> u32 \<Rightarrow> byte \<Rightarrow> byte \<Rightarrow> nat \<Rightarrow> ptr \<Rightarrow> ptr option \<Rightarrow> vm_entry \<Rightarrow> ptr \<times> 'z conn_scheme
      \<Rightarrow> ptr \<times> 'z conn_scheme" where
  "legacy_entry rd pid cmpType valType value_length scan extra e st =
     (if vm_prot e AND 1 = 0 then st
      else let section_len = vm_end e - vm_start e
           in if section_len = 0 then st
              else legacy_section rd pid cmpType valType value_length scan extra (vm_start e) (unat section_len) 0 st)"

definition proc_scan_handle ::
    "reader \<Rightarrow> (u32 \<Rightarrow> vm_entry list option) \<Rightarrow> cmd_packet \<Rightarrow> 'z conn_scheme \<Rightarrow> int \<times> 'z conn_scheme" where
  "proc_scan_handle rd vm_map packet c =
     (case data packet of
        None \<Rightarrow> (1, send_int32 CMD_DATA_NULL c)
      | Some dp \<Rightarrow>
        let sp = scan_packet dp;
            value_length = proc_scan_getSizeOfValueType (sc_valueType sp);
            value_length = (if value_length = 0 then unat (sc_lenData sp) else value_length)
        in case net_alloc_buffer (unat (sc_lenData sp)) c of
             (None, c) \<Rightarrow> (1, send_int32 CMD_DATA_NULL c)
           | (Some buf, c) \<Rightarrow>
             let c = send_int32 CMD_SUCCESS c;
                 (buf, c) = recv_all buf (c_int (sc_lenData sp)) c
             in case vm_map (sc_pid sp) of
                  None \<Rightarrow> (1, send_int32 CMD_ERROR c)
                | Some maps \<Rightarrow>
                  let c = send_int32 CMD_SUCCESS c;
                      extra = (if unat (sc_lenData sp) = value_length then None else Some (shift buf value_length));
                      (scan_buf, c) = net_alloc_buffer 0x4000 c;
                      c = (case scan_buf of
                             None \<Rightarrow> c
                           | Some sb \<Rightarrow>
                               snd (fold (legacy_entry rd (sc_pid sp) (sc_compareType sp) (sc_valueType sp)
                                            value_length buf extra) maps (sb, c)))
                  in (0, send_all sentinel64 c))"

section \<open>Result runs\<close>

text \<open>
  The handlers collect \<open>(offset, value)\<close> records behind an 8-byte header and send a run, the
  header holding its length, when the next record might not fit.
\<close>

definition run_frame :: "byte list \<Rightarrow> byte list" where
  "run_frame pend = le_bytes 8 (of_nat (length pend) :: u64) @ pend"

definition add_result :: "nat \<Rightarrow> byte list \<Rightarrow> byte list \<times> 'z conn_scheme \<Rightarrow> byte list \<times> 'z conn_scheme" where
  "add_result flush_thresh record = (\<lambda>(pend, c).
     let (pend, c) = (if length pend > flush_thresh then ([], send_all (run_frame pend) c) else (pend, c))
     in (pend @ record, c))"

definition flush_results :: "byte list \<times> 'z conn_scheme \<Rightarrow> 'z conn_scheme" where
  "flush_results = (\<lambda>(pend, c). if pend = [] then c else send_all (run_frame pend) c)"

section \<open>The streaming first scan\<close>

record scan_request =
  rq_pid :: u32
  rq_address :: u64
  rq_cmp :: byte
  rq_val :: byte
  rq_vlen :: nat
  rq_step :: nat
  rq_pattern :: "ptr option"
  rq_prev :: "ptr option"
  rq_mask :: "ptr option"

definition ptr_of :: "ptr option \<Rightarrow> ptr" where
  \<comment> \<open>a pointer that is only dereferenced where it is not \<^verbatim>\<open>NULL\<close>\<close>
  "ptr_of p = (case p of Some q \<Rightarrow> q | None \<Rightarrow> (\<lambda>_. 0))"

definition rq_match :: "scan_request \<Rightarrow> ptr \<Rightarrow> bool" where
  "rq_match r m = proc_scan_compareValues (rq_cmp r) (rq_val r) (rq_vlen r) (ptr_of (rq_pattern r)) m (rq_prev r) (rq_mask r)"

definition scan_window ::
    "scan_request \<Rightarrow> nat \<Rightarrow> u64 \<Rightarrow> ptr \<Rightarrow> nat \<Rightarrow> byte list \<times> 'z conn_scheme \<Rightarrow> byte list \<times> 'z conn_scheme" where
  \<comment> \<open>the position loop over one window of \<open>to_read\<close> bytes at \<open>addr\<close>\<close>
  "scan_window r flush_thresh addr read_buf to_read st =
     (let limit = (if to_read \<ge> rq_vlen r then to_read - rq_vlen r else 0)
      in grid_loop (\<lambda>j st.
           if rq_match r (shift read_buf j)
           then add_result flush_thresh
                  (le_bytes 4 (ucast ((addr + of_nat j) - rq_address r) :: u32) @ bytes_at read_buf j (rq_vlen r)) st
           else st) (rq_step r) 0 limit 0 st)"

definition window_advance :: "nat \<Rightarrow> nat \<Rightarrow> nat \<Rightarrow> nat" where
  "window_advance to_read step value_length =
     (let advance = sub64 (to_read + step) value_length
      in if advance = 0 \<or> advance > to_read then to_read else advance)"

function scan_windows ::
    "reader \<Rightarrow> scan_request \<Rightarrow> nat \<Rightarrow> nat \<Rightarrow> ptr \<Rightarrow> u64 \<Rightarrow> nat \<Rightarrow> byte list \<times> 'z conn_scheme \<Rightarrow> byte list \<times> 'z conn_scheme" where
  "scan_windows rd r chunk_size flush_thresh read_buf addr remaining st =
     (if remaining > 0 \<and> 0 < chunk_size then
        let to_read = (if remaining > chunk_size then chunk_size else remaining);
            read_buf = rd (rq_pid r) addr to_read (memset read_buf 0 0 to_read);
            st = scan_window r flush_thresh addr read_buf to_read st;
            advance = window_advance to_read (rq_step r) (rq_vlen r)
        in scan_windows rd r chunk_size flush_thresh read_buf (addr + of_nat advance)
             (if remaining > advance then remaining - advance else 0) st
      else st)"
  by pat_completeness auto
termination
  by (relation "measure (\<lambda>(_, _, _, _, _, _, remaining, _). remaining)")
     (auto simp: window_advance_def Let_def)

declare scan_windows.simps [simp del]

definition start_request :: "cmd_proc_scan_start_packet \<Rightarrow> nat \<Rightarrow> ptr option \<Rightarrow> ptr option \<Rightarrow> scan_request" where
  "start_request sp value_length pattern mk =
     \<lparr>rq_pid = ss_pid sp, rq_address = ss_address sp, rq_cmp = ss_compareType sp, rq_val = ss_valueType sp,
      rq_vlen = value_length,
      rq_step = (if ss_alignment sp \<noteq> 0 then unat (ss_alignment sp) else value_length),
      rq_pattern = pattern,
      rq_prev = (if ss_compareType sp = 4 then Some (shift (ptr_of pattern) value_length) else None),
      rq_mask = mk\<rparr>"

definition scan_start_run ::
    "reader \<Rightarrow> cmd_proc_scan_start_packet \<Rightarrow> nat \<Rightarrow> ptr option \<Rightarrow> ptr option \<Rightarrow> ptr \<Rightarrow> 'z conn_scheme \<Rightarrow> 'z conn_scheme" where
  \<comment> \<open>from the second acknowledgement to the end of the result stream\<close>
  "scan_start_run rd sp value_length pattern mk read_buf c =
     (let r = start_request sp value_length pattern mk;
          st = scan_windows rd r (window_size value_length) (sub64 0x3FFE8 value_length) read_buf
                 (ss_address sp) (unat (ss_length sp)) ([], c)
      in send_all sentinel64 (flush_results st))"

definition start_needs_value :: "cmd_proc_scan_start_packet \<Rightarrow> bool" where
  "start_needs_value sp \<longleftrightarrow> bit (0x114F :: u32) (unat (ss_compareType sp)) \<or> ss_compareType sp = 4"

definition proc_scan_start_handle :: "reader \<Rightarrow> cmd_packet \<Rightarrow> 'z auth_scheme \<Rightarrow> int \<times> 'z auth_scheme" where
  "proc_scan_start_handle rd packet c =
     (if \<not> auth_granted c then (1, send_int32 CMD_DATA_NULL c)
      else case data packet of
        None \<Rightarrow> (1, send_int32 CMD_DATA_NULL c)
      | Some dp \<Rightarrow>
        let sp = scan_start_packet dp in
        if ss_compareType sp > 12 \<or> ss_lenData sp = 0 then (1, send_int32 CMD_DATA_NULL c)
        else
          let needs_scan_value = start_needs_value sp;
              is_arrbytes = (ss_valueType sp = 10);
              value_length = proc_scan_getSizeOfValueType (ss_valueType sp);
              value_length = (if value_length = 0 then unat (ss_lenData sp) else value_length);
              (pattern, c) = (if needs_scan_value then net_alloc_buffer (unat (ss_lenData sp)) c else (None, c))
          in if needs_scan_value \<and> pattern = None then (1, send_int32 CMD_DATA_NULL c)
             else
               let c = send_int32 CMD_SUCCESS c;
                   (pattern, c) = recv_opt pattern (c_int (ss_lenData sp)) c;
                   (mk, c) = (if is_arrbytes then net_alloc_buffer value_length c else (None, c))
               in if is_arrbytes \<and> mk = None then (1, send_int32 CMD_DATA_NULL c)
                  else
                    let (mk, c) = recv_opt mk (c_int (of_nat value_length)) c;
                        (read_buf, c) = net_alloc_buffer (window_size value_length) c;
                        (result_buf, c) = net_alloc_buffer 0x40000 c
                    in if read_buf = None \<or> result_buf = None then (1, send_int32 CMD_DATA_NULL c)
                       else
                         let c = send_int32 CMD_SUCCESS c;
                             c = scan_start_run rd sp value_length pattern mk (the read_buf) c
                         in (0, send_int32 CMD_SUCCESS c))"

section \<open>The rescan\<close>

record count_request =
  cq_pid :: u32
  cq_base :: u64
  cq_cmp :: byte
  cq_val :: byte
  cq_vlen :: nat
  cq_prev :: bool
  cq_entry :: nat
  cq_pattern :: "ptr option"
  cq_between :: "ptr option"
  cq_mask :: "ptr option"

definition entry_addr :: "count_request \<Rightarrow> ptr \<Rightarrow> nat \<Rightarrow> u64" where
  "entry_addr r chunk_buf off = cq_base r + ucast (ld32 (shift chunk_buf off))"

text \<open>How far the read for a candidate at \<open>addr\<close> can be extended over its successors.\<close>

function extend_window :: "count_request \<Rightarrow> ptr \<Rightarrow> nat \<Rightarrow> u64 \<Rightarrow> nat \<Rightarrow> u64 \<Rightarrow> u64" where
  "extend_window r chunk_buf chunk_len addr next_off covered_end =
     (if next_off + cq_entry r \<le> chunk_len \<and> 0 < cq_entry r then
        let next_addr = entry_addr r chunk_buf next_off in
        if next_addr < covered_end
        then extend_window r chunk_buf chunk_len addr (next_off + cq_entry r) covered_end
        else if next_addr - covered_end > 0x8000 then covered_end
        else if (next_addr + of_nat (cq_vlen r)) - addr > 0x100000 then covered_end
        else extend_window r chunk_buf chunk_len addr (next_off + cq_entry r) (next_addr + of_nat (cq_vlen r))
      else covered_end)"
  by pat_completeness auto
termination
  by (relation "measure (\<lambda>(r, _, chunk_len, _, off, _). chunk_len + 1 - off)") auto

declare extend_window.simps [simp del]

record count_state =
  cs_mem :: ptr
  cs_start :: u64
  cs_end :: u64
  cs_pend :: "byte list"

definition ensure_window :: "reader \<Rightarrow> count_request \<Rightarrow> ptr \<Rightarrow> nat \<Rightarrow> nat \<Rightarrow> count_state \<Rightarrow> count_state" where
  \<comment> \<open>reload the shared read window unless it holds the candidate's address\<close>
  "ensure_window rd r chunk_buf chunk_len off s =
     (let addr = entry_addr r chunk_buf off in
      if addr \<ge> cs_end s \<or> addr < cs_start s then
        let covered_end = extend_window r chunk_buf chunk_len addr (off + cq_entry r) (addr + of_nat (cq_vlen r));
            read_size = unat (ucast (covered_end - addr) :: u32)
        in s\<lparr>cs_mem := rd (cq_pid r) addr read_size (memset (cs_mem s) 0 0 read_size),
             cs_start := addr, cs_end := addr + of_nat read_size\<rparr>
      else s)"

definition count_entry ::
    "reader \<Rightarrow> count_request \<Rightarrow> ptr \<Rightarrow> nat \<Rightarrow> nat \<Rightarrow> count_state \<times> 'z conn_scheme \<Rightarrow> count_state \<times> 'z conn_scheme" where
  "count_entry rd r chunk_buf chunk_len off = (\<lambda>(s, c).
     let addr = entry_addr r chunk_buf off;
         prev = (if cq_prev r then Some (shift chunk_buf (off + 4)) else cq_between r);
         s = ensure_window rd r chunk_buf chunk_len off s;
         m = shift (cs_mem s) (unat (addr - cs_start s))
     in if proc_scan_compareValues (cq_cmp r) (cq_val r) (cq_vlen r) (ptr_of (cq_pattern r)) m prev (cq_mask r)
        then let (pend, c) = add_result (sub64 0x3FFE8 (2 * cq_vlen r))
                               (bytes_at chunk_buf off 4 @ bytes_at m 0 (cq_vlen r)) (cs_pend s, c)
             in (s\<lparr>cs_pend := pend\<rparr>, c)
        else (s, c))"

definition count_chunk :: "reader \<Rightarrow> count_request \<Rightarrow> ptr \<Rightarrow> nat \<Rightarrow> ptr \<Rightarrow> 'z conn_scheme \<Rightarrow> ptr \<times> 'z conn_scheme" where
  \<comment> \<open>all candidates of one chunk, the results and the chunk's sentinel\<close>
  "count_chunk rd r chunk_buf chunk_len mem_buf c =
     (let (s, c) = grid_loop (count_entry rd r chunk_buf chunk_len) (cq_entry r) (cq_entry r) chunk_len 0
                     (\<lparr>cs_mem = mem_buf, cs_start = 0, cs_end = 0, cs_pend = []\<rparr>, c)
      in (cs_mem s, send_all sentinel64 (flush_results (cs_pend s, c))))"

text \<open>
  The chunk loop. It leaves only on a terminator or an oversized chunk; the header is zeroed
  before each receive, whose failure is not noticed, so it need not end: \<open>None\<close>.
\<close>

partial_function (option) count_chunks ::
    "reader \<Rightarrow> count_request \<Rightarrow> ptr \<Rightarrow> ptr \<Rightarrow> 'z conn_scheme \<Rightarrow> 'z conn_scheme option" where
  "count_chunks rd r chunk_buf mem_buf c =
     (let (hdr, c) = recv_all (\<lambda>_. 0) 4 c; chunk_len = ld32 hdr in
      if chunk_len = 0xFFFFFFFF then Some c
      else if chunk_len = 0 then count_chunks rd r chunk_buf mem_buf (send_all sentinel64 c)
      else if chunk_len > 0x40000 then Some c
      else let (chunk_buf, c) = recv_all chunk_buf (c_int chunk_len) c;
               (mem_buf, c) = count_chunk rd r chunk_buf (unat chunk_len) mem_buf c
           in count_chunks rd r chunk_buf mem_buf c)"

definition count_run ::
    "reader \<Rightarrow> cmd_proc_scan_count_packet \<Rightarrow> nat \<Rightarrow> ptr option \<Rightarrow> ptr option \<Rightarrow> ptr \<Rightarrow> ptr \<Rightarrow> 'z conn_scheme \<Rightarrow> 'z conn_scheme option" where
  \<comment> \<open>from the acknowledgement to the end of the chunk loop\<close>
  "count_run rd cp value_length pattern mk chunk_buf mem_buf c =
     (let c = send_int32 CMD_SUCCESS c;
          (pattern, c) = recv_opt pattern (c_int (cn_lenData cp)) c;
          (mk, c) = recv_opt mk (c_int (of_nat value_length)) c;
          between_hi = (if cn_compareType cp = 4 \<and> pattern \<noteq> None \<and> unat (cn_lenData cp) \<ge> 2 * value_length
                        then Some (shift (ptr_of pattern) value_length) else None);
          includes_prev = (g_cmptype_needs_previous ! unat (cn_compareType cp) \<noteq> 0);
          r = \<lparr>cq_pid = cn_pid cp, cq_base = cn_base_address cp, cq_cmp = cn_compareType cp, cq_val = cn_valueType cp,
               cq_vlen = value_length, cq_prev = includes_prev,
               cq_entry = (if includes_prev then 4 + value_length else 4),
               cq_pattern = pattern, cq_between = between_hi, cq_mask = mk\<rparr>
      in count_chunks rd r chunk_buf mem_buf c)"

definition proc_scan_count_handle :: "reader \<Rightarrow> cmd_packet \<Rightarrow> 'z auth_scheme \<Rightarrow> (int \<times> 'z auth_scheme) option" where
  "proc_scan_count_handle rd packet c =
     (if \<not> auth_granted c then Some (1, send_int32 CMD_DATA_NULL c)
      else case data packet of
        None \<Rightarrow> Some (1, send_int32 CMD_DATA_NULL c)
      | Some dp \<Rightarrow>
        let cp = scan_count_packet dp in
        if cn_compareType cp > 12 then Some (1, send_int32 CMD_DATA_NULL c)
        else
          let needs_scan_value = (g_cmptype_needs_value ! unat (cn_compareType cp) \<noteq> 0
                                  \<or> g_cmptype_needs_extra ! unat (cn_compareType cp) \<noteq> 0);
              is_arrbytes = (cn_valueType cp = 10);
              value_length = proc_scan_getSizeOfValueType (cn_valueType cp);
              value_length = (if value_length = 0 then unat (cn_lenData cp) else value_length);
              wants_pattern = (needs_scan_value \<and> cn_lenData cp \<noteq> 0)
          in if value_length = 0 \<or> value_length > 0x1000 then Some (1, send_int32 CMD_DATA_NULL c)
             else
               let (pattern, c) = (if wants_pattern then net_alloc_buffer (unat (cn_lenData cp)) c else (None, c))
               in if wants_pattern \<and> pattern = None then Some (1, send_int32 CMD_DATA_NULL c)
                  else
                    let (mk, c) = (if is_arrbytes then net_alloc_buffer value_length c else (None, c))
                    in if is_arrbytes \<and> mk = None then Some (1, send_int32 CMD_DATA_NULL c)
                       else
                         let (bs, c) = alloc_all [0x40000, 0x40000, 0x100000] c
                         in if None \<in> set bs then Some (1, send_int32 CMD_DATA_NULL c)
                            else map_option (\<lambda>c. (0, send_int32 CMD_SUCCESS c))
                                   (count_run rd cp value_length pattern mk (the (bs ! 0)) (the (bs ! 2)) c))"

section \<open>Batched reads\<close>

function get_range :: "reader \<Rightarrow> u32 \<Rightarrow> u64 \<Rightarrow> nat \<Rightarrow> ptr \<times> 'z conn_scheme \<Rightarrow> ptr \<times> 'z conn_scheme" where
  "get_range rd pid addr len st =
     (if len > 0 then
        let (buf, c) = st;
            to_read = (if len > 0x100000 then 0x100000 else len);
            buf = rd pid addr to_read (memset buf 0 0 to_read);
            c = send_all (bytes_at buf 0 to_read) c
        in get_range rd pid (addr + of_nat to_read) (len - to_read) (buf, c)
      else st)"
  by pat_completeness auto
termination
  by (relation "measure (\<lambda>(_, _, _, len, _). len)") auto

declare get_range.simps [simp del]

definition get_entry :: "reader \<Rightarrow> u32 \<Rightarrow> ptr \<Rightarrow> nat \<Rightarrow> ptr \<times> 'z conn_scheme \<Rightarrow> ptr \<times> 'z conn_scheme" where
  "get_entry rd pid entries i st =
     get_range rd pid (ld64 (shift entries (12 * i))) (unat (ld32 (shift entries (12 * i + 8)))) st"

definition proc_scan_get_handle :: "reader \<Rightarrow> cmd_packet \<Rightarrow> 'z auth_scheme \<Rightarrow> int \<times> 'z auth_scheme" where
  "proc_scan_get_handle rd packet c =
     (if \<not> auth_granted c then (1, send_int32 CMD_DATA_NULL c)
      else case data packet of
        None \<Rightarrow> (1, send_int32 CMD_DATA_NULL c)
      | Some dp \<Rightarrow>
        let gp = scan_get_packet dp; entries_len = gt_count gp * 12 in
        case net_alloc_buffer (unat entries_len) c of
          (None, c) \<Rightarrow> (1, send_int32 CMD_DATA_NULL c)
        | (Some entries, c) \<Rightarrow>
          let c = send_int32 CMD_SUCCESS c;
              (entries, c) = recv_all entries (c_int entries_len) c
          in case net_alloc_buffer 0x100000 c of
               (None, c) \<Rightarrow> (1, send_int32 CMD_DATA_NULL c)
             | (Some buf, c) \<Rightarrow>
               let (buf, c) = fold (get_entry rd (gt_pid gp) entries) [0..<unat (gt_count gp)] (buf, c)
               in (0, send_all sentinel64 c))"

section \<open>Streams of result runs\<close>

text \<open>
  \<open>streamed c0 lim recs st\<close>: the records \<open>recs\<close> have been added since \<open>c0\<close>; those not pending any
  more went out in non-empty runs that each fit, with their header, into \<open>lim\<close> bytes.
\<close>

definition streamed :: "'z conn_scheme \<Rightarrow> nat \<Rightarrow> byte list list \<Rightarrow> byte list \<times> 'z conn_scheme \<Rightarrow> bool" where
  "streamed c0 lim recs = (\<lambda>(pend, c). \<exists>runs. concat runs @ pend = concat recs
     \<and> (\<forall>run\<in>set runs. run \<noteq> [] \<and> length run + 8 \<le> lim) \<and> length pend + 8 \<le> lim
     \<and> io c0 [] (concat (map run_frame runs)) c)"

definition run_stream :: "nat \<Rightarrow> byte list list \<Rightarrow> byte list \<Rightarrow> bool" where
  \<comment> \<open>a byte stream of runs that carries the records, in order\<close>
  "run_stream lim recs bs \<longleftrightarrow> (\<exists>runs. concat runs = concat recs
     \<and> (\<forall>run\<in>set runs. run \<noteq> [] \<and> length run + 8 \<le> lim) \<and> bs = concat (map run_frame runs))"

lemma streamed_Nil: "8 \<le> lim \<Longrightarrow> streamed c lim [] ([], c)"
  by (auto simp: streamed_def intro!: exI [of _ "[]"])

lemma streamed_add:
  assumes "streamed c0 lim recs st" "quiet c0" "thr + length rec + 8 \<le> lim"
  shows "streamed c0 lim (recs @ [rec]) (add_result thr rec st)"
proof -
  obtain pend c runs where st: "st = (pend, c)" and r: "concat runs @ pend = concat recs"
      "\<forall>run\<in>set runs. run \<noteq> [] \<and> length run + 8 \<le> lim" "length pend + 8 \<le> lim"
      "io c0 [] (concat (map run_frame runs)) c"
    using assms(1) by (auto simp: streamed_def)
  have q: "quiet c" using io_fields [OF r(4)] assms(2) by simp
  show ?thesis
  proof (cases "length pend > thr")
    case True
    have "io c0 [] (concat (map run_frame (runs @ [pend]))) (send_all (run_frame pend) c)"
      using io_trans [OF r(4) io_send_all [OF q, of "run_frame pend"]] by simp
    moreover have "concat (runs @ [pend]) @ rec = concat (recs @ [rec])" using r(1) by simp
    moreover have "pend \<noteq> []" using True by auto
    ultimately show ?thesis
      using True r assms(3) unfolding streamed_def st add_result_def
      by (auto simp: Let_def intro!: exI [of _ "runs @ [pend]"])
  next
    case False
    then show ?thesis
      using r assms(3) unfolding streamed_def st add_result_def
      by (auto simp: Let_def intro!: exI [of _ runs])
  qed
qed

lemma streamed_fold:
  assumes "streamed c0 lim recs st" "quiet c0" "\<And>x. x \<in> set xs \<Longrightarrow> thr + length (rec x) + 8 \<le> lim"
  shows "streamed c0 lim (recs @ map rec (filter P xs))
           (fold (\<lambda>x st. if P x then add_result thr (rec x) st else st) xs st)"
  using assms
proof (induction xs arbitrary: recs st)
  case (Cons x xs)
  show ?case
  proof (cases "P x")
    case True
    have "streamed c0 lim (recs @ [rec x]) (add_result thr (rec x) st)"
      using Cons.prems by (intro streamed_add) auto
    from Cons.IH [OF this Cons.prems(2)] Cons.prems(3) True show ?thesis by simp
  next
    case False
    with Cons show ?thesis by simp
  qed
qed simp

lemma streamed_flush:
  assumes "streamed c0 lim recs st" "quiet c0"
  shows "\<exists>bs. run_stream lim recs bs \<and> io c0 [] bs (flush_results st)"
proof -
  obtain pend c runs where st: "st = (pend, c)" and r: "concat runs @ pend = concat recs"
      "\<forall>run\<in>set runs. run \<noteq> [] \<and> length run + 8 \<le> lim" "length pend + 8 \<le> lim"
      "io c0 [] (concat (map run_frame runs)) c"
    using assms(1) by (auto simp: streamed_def)
  have q: "quiet c" using io_fields [OF r(4)] assms(2) by simp
  show ?thesis
  proof (cases "pend = []")
    case True
    then show ?thesis
      using r by (intro exI [of _ "concat (map run_frame runs)"])
        (auto simp: st flush_results_def run_stream_def intro!: exI [of _ runs])
  next
    case False
    have "io c0 [] (concat (map run_frame (runs @ [pend]))) (send_all (run_frame pend) c)"
      using io_trans [OF r(4) io_send_all [OF q, of "run_frame pend"]] by simp
    with False r show ?thesis
      by (intro exI [of _ "concat (map run_frame (runs @ [pend]))"])
         (auto simp: st flush_results_def run_stream_def intro!: exI [of _ "runs @ [pend]"])
  qed
qed

section \<open>The first scan finds every aligned match\<close>

definition wf_request :: "scan_request \<Rightarrow> bool" where
  "wf_request r \<longleftrightarrow> 0 < rq_vlen r \<and> 0 < rq_step r \<and> (rq_val r \<le> 9 \<longrightarrow> rq_vlen r = proc_scan_getSizeOfValueType (rq_val r))"

lemma rq_match_cong:
  assumes "wf_request r" "\<And>i. i < rq_vlen r \<Longrightarrow> p i = q i"
  shows "rq_match r p = rq_match r q"
proof -
  have "agree (rq_val r) (rq_vlen r) x x" for x using assms(1) by (intro agree_refl) (auto simp: wf_request_def)
  moreover have "agree (rq_val r) (rq_vlen r) p q" using assms by (auto simp: agree_def wf_request_def)
  ultimately show ?thesis
    unfolding rq_match_def by (intro compareValues_cong option.rel_refl)
qed

definition scan_offsets :: "scan_request \<Rightarrow> ptr \<Rightarrow> nat \<Rightarrow> nat \<Rightarrow> nat \<Rightarrow> nat list" where
  \<comment> \<open>the aligned offsets in \<open>[lo, hi)\<close> whose value lies inside the range and matches\<close>
  "scan_offsets r region len lo hi =
     filter (\<lambda>off. rq_step r dvd off \<and> off + rq_vlen r \<le> len \<and> rq_match r (shift region off)) [lo..<hi]"

definition scan_record :: "scan_request \<Rightarrow> ptr \<Rightarrow> nat \<Rightarrow> byte list" where
  "scan_record r region off = le_bytes 4 (of_nat off :: u32) @ bytes_at region off (rq_vlen r)"

lemma scan_window_streamed:
  assumes r: "wf_request r" "rq_vlen r dvd rq_step r" "rq_step r dvd woff" "rq_vlen r dvd to_read"
    and len: "0 < to_read" "woff + to_read \<le> len"
    and buf: "\<And>i. i < to_read \<Longrightarrow> buf i = region (woff + i)"
    and st: "streamed c0 lim recs st" "quiet c0" "thr + 4 + rq_vlen r + 8 \<le> lim"
  shows "streamed c0 lim (recs @ map (scan_record r region) (scan_offsets r region len woff (woff + to_read)))
           (scan_window r thr (rq_address r + of_nat woff) buf to_read st)"
proof -
  let ?v = "rq_vlen r" and ?s = "rq_step r"
  let ?P = "\<lambda>j. rq_match r (shift buf j)"
  let ?rec = "\<lambda>j. le_bytes 4 (ucast ((rq_address r + of_nat woff + of_nat j) - rq_address r) :: u32) @ bytes_at buf j ?v"
  have v: "0 < ?v" "?v \<le> to_read" "0 < ?s"
    using r len by (auto simp: wf_request_def dest: dvd_imp_le)
  define js where "js = grid ?s 0 (to_read - ?v) 0"
  have js: "set js = {j. ?s dvd j \<and> j + ?v \<le> to_read}" using v by (auto simp: js_def set_grid)
  have inside: "?P j = rq_match r (shift region (woff + j))" "?rec j = scan_record r region (woff + j)" if "j \<in> set js" for j
  proof -
    have "bytes_at buf j ?v = bytes_at region (woff + j) ?v"
      using that js buf by (auto simp: bytes_at_eq_iff add.assoc)
    then show "?rec j = scan_record r region (woff + j)"
      by (simp add: scan_record_def add.assoc ucast32_of_nat flip: of_nat_add)
    show "?P j = rq_match r (shift region (woff + j))"
      using that js buf by (intro rq_match_cong [OF r(1)]) (auto simp: add.assoc)
  qed
  have offs: "map (\<lambda>j. woff + j) (filter ?P js) = scan_offsets r region len woff (woff + to_read)"
  proof -
    have fit: "j + ?v \<le> to_read \<longleftrightarrow> woff + j + ?v \<le> len" if "j < to_read" "?s dvd j" for j
    proof -
      have "?v dvd to_read - j" using r(2,4) that(2) by (meson dvd_diff_nat dvd_trans)
      then have "?v \<le> to_read - j" using that(1) by (simp add: dvd_imp_le)
      then show ?thesis using that(1) len(2) by auto
    qed
    have "filter ?P js = filter (\<lambda>j. ?s dvd j \<and> j + ?v \<le> to_read \<and> ?P j) [0..<to_read]"
      unfolding js_def using v by (intro filter_grid_conv) auto
    also have "\<dots> = filter (\<lambda>j. ?s dvd woff + j \<and> woff + j + ?v \<le> len \<and> rq_match r (shift region (woff + j))) [0..<to_read]"
      using fit inside(1) r(3) js by (intro filter_cong) (auto simp: dvd_add_right_iff)
    finally show ?thesis
      by (simp only: scan_offsets_def filter_shift [where P = "\<lambda>off. ?s dvd off \<and> off + ?v \<le> len \<and> rq_match r (shift region off)"])
  qed
  have "scan_window r thr (rq_address r + of_nat woff) buf to_read st
      = fold (\<lambda>j st. if ?P j then add_result thr (?rec j) st else st) js st"
    using v by (simp add: scan_window_def Let_def grid_loop_fold js_def)
  moreover have "streamed c0 lim (recs @ map ?rec (filter ?P js)) \<dots>"
    using st by (intro streamed_fold) auto
  moreover have "map ?rec (filter ?P js) = map (scan_record r region) (map (\<lambda>j. woff + j) (filter ?P js))"
    using inside(2) by (simp add: comp_def)
  ultimately show ?thesis by (simp only: offs)
qed

text \<open>The window loop, for a step that is a multiple of the value length.\<close>

lemma window_advance_full:
  assumes "vl dvd step" "0 < vl" "0 < step" "to_read + step < 2 ^ 64" "0 < to_read"
  shows "window_advance to_read step vl = to_read"
proof -
  have "vl \<le> step" using assms by (simp add: dvd_imp_le)
  then have "sub64 (to_read + step) vl = to_read + step - vl" using assms by (intro sub64_ge) auto
  with \<open>vl \<le> step\<close> assms show ?thesis by (auto simp: window_advance_def Let_def)
qed

context target_reader
begin

lemma scan_windows_streamed:
  assumes r: "wf_request r" "rq_vlen r dvd rq_step r" "rq_step r dvd chunk" "0 < chunk" "chunk + rq_step r < 2 ^ 64"
    and rd: "readable (rq_pid r) (rq_address r) len"
    and q: "quiet c0" and lim: "thr + 4 + rq_vlen r + 8 \<le> lim"
    and pos: "woff + remaining = len" "rq_step r dvd woff" "rq_vlen r dvd len"
    and st: "streamed c0 lim (map (scan_record r (window (mem (rq_pid r)) (rq_address r)))
               (scan_offsets r (window (mem (rq_pid r)) (rq_address r)) len 0 woff)) st"
  shows "streamed c0 lim (map (scan_record r (window (mem (rq_pid r)) (rq_address r)))
            (scan_offsets r (window (mem (rq_pid r)) (rq_address r)) len 0 len))
          (scan_windows rd r chunk thr buf (rq_address r + of_nat woff) remaining st)"
  using pos st
proof (induction remaining arbitrary: woff st buf rule: less_induct)
  case (less remaining)
  let ?R = "window (mem (rq_pid r)) (rq_address r)" and ?v = "rq_vlen r" and ?s = "rq_step r"
  show ?case
  proof (cases "remaining = 0")
    case True
    with less.prems show ?thesis by (subst scan_windows.simps) simp
  next
    case False
    define n where "n = (if remaining > chunk then chunk else remaining)"
    define b where "b = rd (rq_pid r) (rq_address r + of_nat woff) n (memset buf 0 0 n)"
    define st' where "st' = scan_window r thr (rq_address r + of_nat woff) b n st"
    have n: "0 < n" "n \<le> remaining" "n \<le> chunk" "woff + n \<le> len"
      using False r(4) less.prems(1) by (auto simp: n_def)
    have pos: "0 < ?v" "0 < ?s" using r(1) by (auto simp: wf_request_def)
    have vw: "?v dvd woff" "?v dvd chunk" using r(2,3) less.prems(2) by (auto intro: dvd_trans)
    then have "?v dvd remaining" using less.prems(1,3) by (metis dvd_add_right_iff)
    then have vn: "?v dvd n" using vw by (simp add: n_def)
    have adv: "window_advance n ?s ?v = n" using r(2,5) pos n by (intro window_advance_full) auto
    have "readable (rq_pid r) (rq_address r + of_nat woff) n" using readable_sub [OF rd n(4)] .
    then have buf: "b i = ?R (woff + i)" if "i < n" for i
      using rd_read that by (simp add: b_def window_apply add.assoc)
    have st': "streamed c0 lim (map (scan_record r ?R) (scan_offsets r ?R len 0 (woff + n))) st'"
      using scan_window_streamed [where region = ?R and buf = b, OF r(1,2) less.prems(2) vn n(1,4) buf less.prems(4) q lim]
      by (simp add: st'_def scan_offsets_def upt_split [of 0 woff "woff + n"])
    have eq: "scan_windows rd r chunk thr buf (rq_address r + of_nat woff) remaining st
        = scan_windows rd r chunk thr b (rq_address r + of_nat (woff + n)) (remaining - n) st'"
      using False r(4) n(2) by (subst scan_windows.simps)
        (simp add: Let_def n_def [symmetric] b_def [symmetric] st'_def [symmetric] adv add.assoc)
    show ?thesis
    proof (cases "remaining - n = 0")
      case True
      then have "woff + n = len" using n less.prems(1) by simp
      with True st' show ?thesis by (subst eq, subst scan_windows.simps) simp
    next
      case more: False
      then have "n = chunk" by (simp add: n_def split: if_splits)
      then have "?s dvd woff + n" using r(3) less.prems(2) by simp
      from less.IH [OF _ _ this less.prems(3) st', of "remaining - n"] n less.prems(1) show ?thesis
        by (simp add: eq)
    qed
  qed
qed

end

section \<open>Optional buffers\<close>

lemma io_opt_alloc:
  assumes "quiet c" "0 < sz"
  obtains p d where "(if b then net_alloc_buffer sz c else (None, c)) = (p, d)" "(p = None) = (\<not> b)" "io c [] [] d"
proof (cases b)
  case True
  obtain p d where "net_alloc_buffer sz c = (Some p, d)" "io c [] [] d" using io_alloc [OF assms] .
  with True show thesis by (intro that [of "Some p" d]) simp_all
next
  case False
  then show thesis by (intro that [of None c]) simp_all
qed

lemma io_recv_opt:
  assumes "quiet c" "rx c = bs @ rest" "length bs = (if p = None then 0 else nat len)"
  obtains d where "recv_opt p len c = (map_option (\<lambda>q. blit q 0 bs) p, d)" "io c bs [] d" "rx d = rest"
proof (cases p)
  case None
  then show ?thesis using assms that [of c] by (simp add: recv_opt_def)
next
  case (Some q)
  then have "nat len = length bs" using assms(3) by simp
  then obtain d where "recv_all q len c = (blit q 0 bs, d)" "io c bs [] d" "rx d = rest"
    using io_recv [OF assms(1,2)] by metis
  with Some show ?thesis by (intro that [of d]) (simp_all add: recv_opt_def)
qed

section \<open>The first scan on the wire\<close>

definition client_request :: "cmd_proc_scan_start_packet \<Rightarrow> nat \<Rightarrow> byte list \<Rightarrow> byte list \<Rightarrow> scan_request" where
  \<comment> \<open>the request as the client means it: the value and mask bytes it sends\<close>
  "client_request sp vl ps ms = start_request sp vl
     (if start_needs_value sp then Some (of_list ps) else None)
     (if ss_valueType sp = 10 then Some (of_list ms) else None)"

definition wf_client :: "cmd_proc_scan_start_packet \<Rightarrow> nat \<Rightarrow> byte list \<Rightarrow> byte list \<Rightarrow> bool" where
  \<comment> \<open>a request with a value length the result buffer can hold, an alignment that is a multiple
     of it, and enough value bytes\<close>
  "wf_client sp vl ps ms \<longleftrightarrow> ss_compareType sp \<le> 12 \<and> ss_lenData sp \<noteq> 0 \<and> unat (ss_lenData sp) < 2 ^ 31
     \<and> vl = (if proc_scan_getSizeOfValueType (ss_valueType sp) = 0 then unat (ss_lenData sp)
             else proc_scan_getSizeOfValueType (ss_valueType sp))
     \<and> vl \<le> 0x3FFE8
     \<and> vl dvd rq_step (client_request sp vl ps ms) \<and> rq_step (client_request sp vl ps ms) dvd window_size vl
     \<and> vl dvd unat (ss_length sp)
     \<and> length ps = (if start_needs_value sp then unat (ss_lenData sp) else 0)
     \<and> length ms = (if ss_valueType sp = 10 then vl else 0)
     \<and> (start_needs_value sp \<longrightarrow> vl \<le> unat (ss_lenData sp))
     \<and> (ss_compareType sp = 4 \<longrightarrow> 2 * vl \<le> unat (ss_lenData sp))"

lemma wf_clientD:
  assumes "wf_client sp vl ps ms"
  shows "ss_compareType sp \<le> 12" "ss_lenData sp \<noteq> 0" "unat (ss_lenData sp) < 2 ^ 31" "vl \<le> 0x3FFE8"
    "vl = (if proc_scan_getSizeOfValueType (ss_valueType sp) = 0 then unat (ss_lenData sp)
             else proc_scan_getSizeOfValueType (ss_valueType sp))"
    "vl dvd rq_step (client_request sp vl ps ms)" "rq_step (client_request sp vl ps ms) dvd window_size vl"
    "vl dvd unat (ss_length sp)"
    "start_needs_value sp \<Longrightarrow> length ps = unat (ss_lenData sp) \<and> vl \<le> length ps"
    "\<not> start_needs_value sp \<Longrightarrow> ps = []"
    "ss_valueType sp = 10 \<Longrightarrow> length ms = vl" "ss_valueType sp \<noteq> 10 \<Longrightarrow> ms = []"
    "ss_compareType sp = 4 \<Longrightarrow> start_needs_value sp \<and> 2 * vl \<le> length ps"
  using assms unfolding wf_client_def start_needs_value_def by auto

lemma wf_client_vl: "wf_client sp vl ps ms \<Longrightarrow> 0 < vl"
  unfolding wf_client_def by (auto simp: unat_gt_0 split: if_splits)

lemma client_match:
  assumes wf: "wf_client sp vl ps ms" and p: "(p = None) = (\<not> start_needs_value sp)" "(m = None) = (ss_valueType sp \<noteq> 10)"
  shows "rq_match (start_request sp vl (map_option (\<lambda>q. blit q 0 ps) p) (map_option (\<lambda>q. blit q 0 ms) m))
    = rq_match (client_request sp vl ps ms)"
proof
  fix x
  let ?A = "agree (ss_valueType sp) vl"
  have big: "ss_valueType sp \<le> 9 \<longrightarrow> proc_scan_getSizeOfValueType (ss_valueType sp) \<le> vl"
    using wf size_bounds [of "ss_valueType sp"] by (auto simp: wf_client_def)
  have blit: "?A (shift (blit q 0 bs) k) (shift (of_list bs) k)" if "k + vl \<le> length bs" for q bs k
    using that big by (auto simp: agree_def blit_def of_list_def)
  have pat: "?A (ptr_of (map_option (\<lambda>q. blit q 0 ps) p)) (ptr_of (if start_needs_value sp then Some (of_list ps) else None))"
    using p(1) wf_clientD(9) [OF wf] blit [of 0 ps] big by (cases p) (auto simp: ptr_of_def agree_def)
  have prev: "?A (shift (ptr_of (map_option (\<lambda>q. blit q 0 ps) p)) vl)
      (shift (ptr_of (if start_needs_value sp then Some (of_list ps) else None)) vl)" if "ss_compareType sp = 4"
    using p(1) wf_clientD(13) [OF wf that] blit [of vl ps] by (cases p) (auto simp: ptr_of_def)
  have mk: "rel_option ?A (map_option (\<lambda>q. blit q 0 ms) m) (if ss_valueType sp = 10 then Some (of_list ms) else None)"
    using p(2) wf_clientD(11) [OF wf] blit [of 0 ms] by (cases m) auto
  have self: "?A x x" using big by (simp add: agree_def)
  have prevs: "rel_option ?A
      (if ss_compareType sp = 4 then Some (shift (ptr_of (map_option (\<lambda>q. blit q 0 ps) p)) vl) else None)
      (if ss_compareType sp = 4 then Some (shift (ptr_of (if start_needs_value sp then Some (of_list ps) else None)) vl) else None)"
    using prev by simp
  show "rq_match (start_request sp vl (map_option (\<lambda>q. blit q 0 ps) p) (map_option (\<lambda>q. blit q 0 ms) m)) x
      = rq_match (client_request sp vl ps ms) x"
    unfolding rq_match_def client_request_def start_request_def scan_request.simps
    by (rule compareValues_cong [OF self pat prevs mk])
qed

lemma scan_start_run_io:
  assumes rd: "target_reader rd mem readable" "readable (ss_pid sp) (ss_address sp) (unat (ss_length sp))"
    and q: "quiet c" and wf: "wf_client sp vl ps ms"
    and p: "(p = None) = (\<not> start_needs_value sp)" "(m = None) = (ss_valueType sp \<noteq> 10)"
  shows "\<exists>bs. run_stream 0x40000
      (map (scan_record (client_request sp vl ps ms) (window (mem (ss_pid sp)) (ss_address sp)))
        (scan_offsets (client_request sp vl ps ms) (window (mem (ss_pid sp)) (ss_address sp))
           (unat (ss_length sp)) 0 (unat (ss_length sp)))) bs
    \<and> io c [] (bs @ sentinel64)
        (scan_start_run rd sp vl (map_option (\<lambda>q. blit q 0 ps) p) (map_option (\<lambda>q. blit q 0 ms) m) rb c)"
proof -
  define r where "r = start_request sp vl (map_option (\<lambda>q. blit q 0 ps) p) (map_option (\<lambda>q. blit q 0 ms) m)"
  let ?r = "client_request sp vl ps ms" and ?R = "window (mem (ss_pid sp)) (ss_address sp)" and ?len = "unat (ss_length sp)"
  let ?recs = "map (scan_record ?r ?R) (scan_offsets ?r ?R ?len 0 ?len)"
  have vl: "0 < vl" "vl \<le> 0x3FFE8" using wf_client_vl [OF wf] wf_clientD(4) [OF wf] by simp_all
  note divs = wf_clientD(6-8) [OF wf]
  have m: "rq_match r = rq_match ?r" using client_match [OF wf p] by (simp add: r_def)
  have f: "rq_vlen r = vl" "rq_vlen ?r = vl" "rq_step r = rq_step ?r" "rq_pid r = ss_pid sp" "rq_address r = ss_address sp"
    by (simp_all add: r_def start_request_def client_request_def)
  have w: "wf_request r"
    using wf_clientD(5) [OF wf] size_bounds [of "ss_valueType sp"] vl
    by (auto simp: wf_request_def r_def start_request_def unat_gt_0)
  have ws: "0 < window_size vl" "window_size vl \<le> 0x100000"
    using window_size_bounds [of vl] vl by auto
  have "rq_step r \<le> window_size vl" using divs(2) ws f(3) by (simp add: dvd_imp_le)
  then have room: "window_size vl + rq_step r < 2 ^ 64" using ws by simp
  have thr: "sub64 0x3FFE8 vl = 0x3FFE8 - vl" using vl by (simp add: sub64_ge)
  have recs: "map (scan_record r ?R) (scan_offsets r ?R ?len 0 ?len) = ?recs"
    using m f by (simp add: scan_offsets_def scan_record_def [abs_def])
  have init: "streamed c 0x40000 (map (scan_record r ?R) (scan_offsets r ?R ?len 0 0)) ([], c)"
    by (simp add: scan_offsets_def streamed_Nil)
  have "streamed c 0x40000 ?recs (scan_windows rd r (window_size vl) (sub64 0x3FFE8 vl) rb (ss_address sp) ?len ([], c))"
    using target_reader.scan_windows_streamed [OF rd(1) w _ _ ws(1) room, of ?len c "sub64 0x3FFE8 vl" "0x40000" 0 ?len "([], c)" rb]
      divs rd(2) q vl init recs f by (simp add: thr)
  from streamed_flush [OF this q] obtain bs where bs: "run_stream 0x40000 ?recs bs"
    "io c [] bs (flush_results (scan_windows rd r (window_size vl) (sub64 0x3FFE8 vl) rb (ss_address sp) ?len ([], c)))"
    by blast
  have "io c [] (bs @ sentinel64) (scan_start_run rd sp vl (map_option (\<lambda>q. blit q 0 ps) p) (map_option (\<lambda>q. blit q 0 ms) m) rb c)"
    using io_trans [OF bs(2) io_send_all] io_fields(1) [OF bs(2)] q
    by (simp add: scan_start_run_def Let_def r_def)
  with bs(1) show ?thesis by blast
qed


definition example_scan_mem :: "u32 \<Rightarrow> u64 \<Rightarrow> byte" where
  "example_scan_mem pid a = (if a = 0x1004 then 7 else if a = 0x1005 then 9 else 0)"

definition example_start_data :: ptr where
  "example_start_data = of_list [1, 0, 0, 0, 0, 0x10, 0, 0, 0, 0, 0, 0, 8, 0, 0, 0, 2, 0, 0, 2, 0, 0, 0]"

definition example_start_packet :: cmd_packet where
  "example_start_packet = \<lparr>magic = 0xFFAABBCC, cmd = 0xBDAACC01, datalen = 23, data = Some example_start_data\<rparr>"

definition example_client :: auth where
  "example_client = (example_auth\<lparr>rx := [7, 9]\<rparr>)\<lparr>g_proc_auth_state := 0x14002\<rparr>"

lemma example_client_ok: "quiet example_client" "auth_granted example_client" "rx example_client = [7, 9] @ [] @ []"
  by (simp_all add: example_client_def quiet_example_auth auth_granted_def)

lemma example_start_fields:
  "scan_start_packet example_start_data = \<lparr>ss_pid = 1, ss_address = 0x1000, ss_length = 8, ss_valueType = 2,
     ss_compareType = 0, ss_alignment = 0, ss_lenData = 2\<rparr>" (is "_ = ?sp")
  by (simp add: scan_start_packet_def example_start_data_def of_list_def le_simps)

lemma example_start_wf: "wf_client (scan_start_packet example_start_data) 2 [7, 9] []"
  by (simp add: example_start_fields wf_client_def client_request_def start_request_def start_needs_value_def
      proc_scan_getSizeOfValueType_def window_size_def Let_def)

lemma example_start_hits:
  "map (scan_record (client_request (scan_start_packet example_start_data) 2 [7, 9] []) (window (example_scan_mem 1) 0x1000))
     (scan_offsets (client_request (scan_start_packet example_start_data) 2 [7, 9] []) (window (example_scan_mem 1) 0x1000) 8 0 8)
   = [[4, 0, 0, 0, 7, 9]]"
proof -
  have "rq_match (client_request (scan_start_packet example_start_data) 2 [7, 9] []) m \<longleftrightarrow> m 0 = 7 \<and> m 1 = 9" for m
    by (auto simp: example_start_fields client_request_def start_request_def start_needs_value_def rq_match_def
        proc_scan_compareValues_def exact_compare_def ptr_of_def bytes_eq_loop_iff of_list_def less_2_cases_iff)
  then show ?thesis
    by (simp add: scan_offsets_def scan_record_def upt_rec example_scan_mem_def window_apply bytes_at_def le_bytes_def
        client_request_def start_request_def example_start_fields)
qed


end
