(* ===== verification/ScanRescan.thy ===== *)
theory ScanRescan
  imports ScanHandlers
begin

text \<open>
  What the rescan (\<^verbatim>\<open>proc_scan_count_handle\<close>) and the batched reads
  (\<^verbatim>\<open>proc_scan_get_handle\<close>) of \<^verbatim>\<open>debugger/source/scan.c\<close> answer. The read window that the
  rescan shares between neighbouring candidates is shown to be invisible, and the chunk loop
  is shown not to return on a connection that was closed.
\<close>

section \<open>Batched reads\<close>

definition enc_range :: "u64 \<times> u32 \<Rightarrow> byte list" where
  \<comment> \<open>one request of the client: an address and a length\<close>
  "enc_range = (\<lambda>(a, n). le_bytes 8 a @ le_bytes 4 n)"

lemma length_enc_range [simp]: "length (enc_range e) = 12"
  by (simp add: enc_range_def split: prod.split)

lemma length_concat_enc: "length (concat (map enc_range es)) = 12 * length es"
  by (induction es) simp_all

lemma enc_range_nth:
  assumes "k < length es" "i < 12"
  shows "concat (map enc_range es) ! (12 * k + i) = enc_range (es ! k) ! i"
  using assms
proof (induction es arbitrary: k)
  case (Cons e es)
  then show ?case by (cases k) (simp_all add: nth_append)
qed simp

lemma enc_range_loads:
  assumes "k < length es" "es ! k = (a, n)"
  shows "ld64 (shift (blit p 0 (concat (map enc_range es))) (12 * k)) = a"
    and "ld32 (shift (blit p 0 (concat (map enc_range es))) (12 * k + 8)) = n"
proof -
  have nth: "blit p 0 (concat (map enc_range es)) (12 * k + i) = enc_range (a, n) ! i" if "i < 12" for i
    using that enc_range_nth [OF assms(1) that] assms by (simp add: blit_def length_concat_enc)
  show "ld64 (shift (blit p 0 (concat (map enc_range es))) (12 * k)) = a"
    by (rule le_load_le_bytes) (simp_all add: nth, simp add: enc_range_def nth_append)
  have "blit p 0 (concat (map enc_range es)) (12 * k + 8 + i) = le_bytes 4 n ! i" if "i < 4" for i
    using nth [of "8 + i"] that by (simp add: enc_range_def nth_append add.assoc)
  then show "ld32 (shift (blit p 0 (concat (map enc_range es))) (12 * k + 8)) = n"
    by (intro le_load_le_bytes) simp_all
qed

context target_reader
begin

lemma get_range_io:
  "quiet c \<Longrightarrow> readable pid addr len \<Longrightarrow>
   \<exists>buf' c'. get_range rd pid addr len (buf, c) = (buf', c') \<and> io c [] (bytes_at (window (mem pid) addr) 0 len) c'"
proof (induction len arbitrary: addr buf c rule: less_induct)
  case (less len)
  show ?case
  proof (cases "len = 0")
    case True
    then show ?thesis by (subst get_range.simps) simp
  next
    case False
    let ?n = "if len > 0x100000 then 0x100000 else len"
    let ?b = "rd pid addr ?n (memset buf 0 0 ?n)" and ?M = "window (mem pid) addr"
    have n: "0 < ?n" "?n \<le> len" using False by auto
    have unf: "get_range rd pid addr len (buf, c)
        = get_range rd pid (addr + of_nat ?n) (len - ?n) (?b, send_all (bytes_at ?b 0 ?n) c)"
      by (subst get_range.simps) (use False in \<open>simp add: Let_def\<close>)
    have b: "bytes_at ?b 0 ?n = bytes_at ?M 0 ?n"
      using readable_sub [OF less.prems(2), of 0 ?n] n by (intro rd_bytes) simp_all
    have step: "io c [] (bytes_at ?M 0 ?n) (send_all (bytes_at ?b 0 ?n) c)"
      using io_send_all [OF less.prems(1)] by (simp only: b)
    have q: "quiet (send_all (bytes_at ?b 0 ?n) c)" using io_fields(1) [OF step] less.prems(1) by simp
    have r: "readable pid (addr + of_nat ?n) (len - ?n)"
      by (rule readable_sub [OF less.prems(2)]) (use n in simp)
    have lt: "len - ?n < len" using n by linarith
    obtain buf' c' where rec: "get_range rd pid (addr + of_nat ?n) (len - ?n) (?b, send_all (bytes_at ?b 0 ?n) c) = (buf', c')"
        "io (send_all (bytes_at ?b 0 ?n) c) [] (bytes_at (window (mem pid) (addr + of_nat ?n)) 0 (len - ?n)) c'"
      using less.IH [OF lt q r] by blast
    have "bytes_at ?M 0 ?n @ bytes_at (window (mem pid) (addr + of_nat ?n)) 0 (len - ?n) = bytes_at ?M 0 len"
      unfolding shift_window [symmetric] bytes_at_shift
      using bytes_at_add [of ?M 0 ?n "len - ?n"] by (simp only: le_add_diff_inverse [OF n(2)] add_0 add_0_right)
    then show ?thesis
      using io_trans [OF step rec(2)] unf rec(1) by simp
  qed
qed

lemma get_entries_io:
  assumes "quiet c" "\<forall>e\<in>set es. readable pid (fst e) (unat (snd e))"
    and "\<And>k. k < length es \<Longrightarrow> ld64 (shift p (12 * k)) = fst (es ! k) \<and> ld32 (shift p (12 * k + 8)) = snd (es ! k)"
  shows "\<exists>buf' c'. fold (get_entry rd pid p) [0..<length es] (buf, c) = (buf', c')
    \<and> io c [] (concat (map (\<lambda>(a, n). bytes_at (window (mem pid) a) 0 (unat n)) es)) c'"
  using assms(2,3)
proof (induction es rule: rev_induct)
  case (snoc e es)
  have "\<And>k. k < length es \<Longrightarrow> ld64 (shift p (12 * k)) = fst (es ! k) \<and> ld32 (shift p (12 * k + 8)) = snd (es ! k)"
    using snoc.prems(2) by (metis length_append_singleton less_Suc_eq nth_append)
  moreover have "\<forall>e\<in>set es. readable pid (fst e) (unat (snd e))" using snoc.prems(1) by simp
  ultimately obtain buf' c' where 1: "fold (get_entry rd pid p) [0..<length es] (buf, c) = (buf', c')"
      "io c [] (concat (map (\<lambda>(a, n). bytes_at (window (mem pid) a) 0 (unat n)) es)) c'"
    using snoc.IH by blast
  have e: "ld64 (shift p (12 * length es)) = fst e" "ld32 (shift p (12 * length es + 8)) = snd e"
    using snoc.prems(2) [of "length es"] unfolding nth_append_length length_append_singleton by blast+
  have "quiet c'" using io_fields(1) [OF 1(2)] assms(1) by simp
  then obtain buf'' c'' where 2: "get_range rd pid (fst e) (unat (snd e)) (buf', c') = (buf'', c'')"
      "io c' [] (bytes_at (window (mem pid) (fst e)) 0 (unat (snd e))) c''"
    using get_range_io [of c' pid "fst e" "unat (snd e)" buf'] snoc.prems(1) by auto
  show ?case
    using io_trans [OF 1(2) 2(2)] 1(1) 2(1) e by (cases e) (simp add: get_entry_def [of rd pid p "length es"])
qed simp

end

text \<open>
  The batched reads. An authorised client that names \<open>n\<close> readable ranges receives the
  acknowledgement, the contents of the ranges in the order asked for, each in full however many
  1 MiB transfers it takes, and the sentinel.
\<close>

theorem proc_scan_get_handle_correct:
  assumes "target_reader rd mem readable" "quiet c" "auth_granted c" "data packet = Some dp"
    and "scan_get_packet dp = gp" "es \<noteq> []" "unat (gt_count gp) = length es" "12 * length es < 2 ^ 31"
    and "rx c = concat (map enc_range es) @ rest"
    and "\<forall>e\<in>set es. readable (gt_pid gp) (fst e) (unat (snd e))"
  shows "\<exists>c'. proc_scan_get_handle rd packet c = (0, c')
    \<and> io c (concat (map enc_range es))
        (status CMD_SUCCESS @ concat (map (\<lambda>(a, n). bytes_at (window (mem (gt_pid gp)) a) 0 (unat n)) es) @ sentinel64) c'"
proof -
  let ?n = "12 * length es" and ?bs = "concat (map enc_range es)"
  have "unat (gt_count gp * 12) = unat (gt_count gp) * 12 mod 2 ^ 32"
    by (simp add: unat_word_ariths)
  then have L: "unat (gt_count gp * 12) = ?n" using assms(7,8) by simp
  have pos: "0 < ?n" using assms(6) by simp
  obtain p c1 where 1: "net_alloc_buffer ?n c = (Some p, c1)" "io c [] [] c1" using io_alloc [OF assms(2) pos] .
  have q1: "quiet c1" "rx c1 = ?bs @ rest" using io_fields [OF 1(2)] assms(2,9) by simp_all
  let ?c2 = "send_int32 CMD_SUCCESS c1"
  have q2: "quiet ?c2" "rx ?c2 = ?bs @ rest" using q1 by simp_all
  have "nat (c_int (gt_count gp * 12)) = length ?bs"
    using nat_c_int [of "gt_count gp * 12"] L assms(8) by (simp add: length_concat_enc)
  then obtain c3 where 3: "recv_all p (c_int (gt_count gp * 12)) ?c2 = (blit p 0 ?bs, c3)" "io ?c2 ?bs [] c3"
    using io_recv [OF q2] by metis
  have q3: "quiet c3" using io_fields(1) [OF 3(2)] q2 by simp
  obtain b c4 where 4: "net_alloc_buffer 0x100000 c3 = (Some b, c4)" "io c3 [] [] c4"
    using io_alloc [OF q3, of "0x100000"] by auto
  have q4: "quiet c4" using io_fields(1) [OF 4(2)] q3 by simp
  have "ld64 (shift (blit p 0 ?bs) (12 * k)) = fst (es ! k) \<and> ld32 (shift (blit p 0 ?bs) (12 * k + 8)) = snd (es ! k)"
    if "k < length es" for k
    using enc_range_loads [OF that, of "fst (es ! k)" "snd (es ! k)"] by simp
  then obtain b' c5 where 5: "fold (get_entry rd (gt_pid gp) (blit p 0 ?bs)) [0..<length es] (b, c4) = (b', c5)"
      "io c4 [] (concat (map (\<lambda>(a, n). bytes_at (window (mem (gt_pid gp)) a) 0 (unat n)) es)) c5"
    using target_reader.get_entries_io [OF assms(1) q4 assms(10)] by blast
  have q5: "quiet c5" using io_fields(1) [OF 5(2)] q4 by simp
  have "proc_scan_get_handle rd packet c = (0, send_all sentinel64 c5)"
    unfolding proc_scan_get_handle_def assms(4) option.case Let_def assms(5)
    by (simp add: assms(3,7) L 1(1) 3(1) 4(1) 5(1))
  moreover note io_trans [OF 1(2) io_trans [OF io_send_int32 [OF q1(1), of CMD_SUCCESS] io_trans [OF 3(2)
     io_trans [OF 4(2) io_trans [OF 5(2) io_send_all [OF q5, of sentinel64]]]]]]
  ultimately show ?thesis by simp
qed

definition example_get_data :: ptr where
  "example_get_data = of_list [1, 0, 0, 0, 2, 0, 0, 0]"

definition example_get_packet :: cmd_packet where
  "example_get_packet = \<lparr>magic = 0xFFAABBCC, cmd = 0xBDAACC03, datalen = 8, data = Some example_get_data\<rparr>"

theorem proc_scan_get_handle_correct_witness:
  "\<exists>c'. proc_scan_get_handle (flat_rd example_scan_mem) example_get_packet
       (example_client\<lparr>rx := concat (map enc_range [(0x1004, 2), (0x1003, 3)])\<rparr>) = (0, c')
     \<and> tx c' = status CMD_SUCCESS @ [7, 9, 0, 7, 9] @ sentinel64"
proof -
  let ?c = "example_client\<lparr>rx := concat (map enc_range [(0x1004, 2), (0x1003, 3)])\<rparr>"
  have c: "quiet ?c" "auth_granted ?c" using example_client_ok(1,2) by (simp_all add: auth_granted_def quiet_def send_live_def recv_live_def)
  have d: "data example_get_packet = Some example_get_data" by (simp add: example_get_packet_def)
  have f: "scan_get_packet example_get_data = \<lparr>gt_pid = 1, gt_count = 2\<rparr>"
    by (simp add: scan_get_packet_def example_get_data_def of_list_def le_simps)
  have rx: "rx ?c = concat (map enc_range [(0x1004, 2), (0x1003, 3)]) @ []" by simp
  have b: "concat (map (\<lambda>(a, n). bytes_at (window (example_scan_mem 1) a) 0 (unat n)) [(0x1004, 2), (0x1003, 3 :: u32)])
      = [7, 9, 0, 7, 9]"
    by (simp add: bytes_at_def window_apply example_scan_mem_def upt_rec)
  obtain c' where "proc_scan_get_handle (flat_rd example_scan_mem) example_get_packet ?c = (0, c')"
      "io ?c (concat (map enc_range [(0x1004, 2), (0x1003, 3)])) (status CMD_SUCCESS @ [7, 9, 0, 7, 9] @ sentinel64) c'"
    using proc_scan_get_handle_correct [OF flat.target_reader_axioms [of example_scan_mem] c d f, of "[(0x1004, 2), (0x1003, 3)]" "[]"] rx b
    by (auto simp del: concat.simps list.map)
  moreover have "tx ?c = []" by (simp add: example_client_def example_auth_def example_conn_def conn.extend_def)
  ultimately show ?thesis using io_fields(3) [of ?c] by auto
qed

section \<open>The shared read window\<close>

text \<open>
  A chunk of \<open>n\<close> candidates of \<open>e\<close> bytes each, at ascending addresses that leave room for the
  value in between. \<open>A k\<close> is the address of the \<open>k\<close>-th candidate.
\<close>

definition spaced :: "count_request \<Rightarrow> ptr \<Rightarrow> nat \<Rightarrow> (nat \<Rightarrow> nat) \<Rightarrow> bool" where
  "spaced r cb n A \<longleftrightarrow> 0 < cq_entry r \<and> 0 < cq_vlen r \<and> cq_vlen r \<le> 0x1000
     \<and> (\<forall>k<n. unat (entry_addr r cb (k * cq_entry r)) = A k \<and> A k + cq_vlen r < 2 ^ 64)
     \<and> (\<forall>j k. j < k \<and> k < n \<longrightarrow> A j + cq_vlen r \<le> A k)"

lemma spacedD:
  assumes "spaced r cb n A"
  shows "0 < cq_entry r" "0 < cq_vlen r" "cq_vlen r \<le> 0x1000"
    "k < n \<Longrightarrow> unat (entry_addr r cb (k * cq_entry r)) = A k"
    "k < n \<Longrightarrow> A k + cq_vlen r < 2 ^ 64"
    "j < k \<Longrightarrow> k < n \<Longrightarrow> A j + cq_vlen r \<le> A k"
  using assms unfolding spaced_def by blast+

lemma spaced_mono: "spaced r cb n A \<Longrightarrow> j \<le> k \<Longrightarrow> k < n \<Longrightarrow> A j \<le> A k"
  using spacedD(6) [of r cb n A j k] by (cases "j = k") auto

lemma extend_window_spaced:
  assumes sp: "spaced r cb n A" and k: "i < k" "k \<le> n" "A (k - 1) + cq_vlen r - A i \<le> 0x100000"
  defines "ad \<equiv> \<lambda>k. entry_addr r cb (k * cq_entry r)"
  shows "\<exists>j. k - 1 \<le> j \<and> j < n \<and> A j + cq_vlen r - A i \<le> 0x100000 \<and>
    extend_window r cb (n * cq_entry r) (ad i) (k * cq_entry r) (ad (k - 1) + of_nat (cq_vlen r))
      = ad j + of_nat (cq_vlen r)"
  using k
proof (induction "n - k" arbitrary: k)
  case 0
  then have "\<not> k * cq_entry r + cq_entry r \<le> n * cq_entry r" using spacedD(1) [OF sp] by simp
  then show ?case
    using 0 by (intro exI [of _ "k - 1"], subst extend_window.simps) (simp add: less_diff_conv)
next
  case (Suc d)
  let ?v = "cq_vlen r" and ?e = "cq_entry r"
  from Suc.hyps(2) Suc.prems have k: "k < n" "k - 1 < k" "k - 1 < n" "i < n" by auto
  note D = spacedD [OF sp]
  have "k * ?e + ?e \<le> n * ?e" using k(1) by (metis Suc_leI add.commute mult_Suc mult_le_mono1)
  then have inb: "k * ?e + ?e \<le> n * ?e \<and> 0 < ?e" using D(1) by simp
  have u: "unat (ad k) = A k" "unat (ad i) = A i" "unat (ad (k - 1) + of_nat ?v) = A (k - 1) + ?v"
      "unat (ad k + of_nat ?v) = A k + ?v"
    using D(4,5) k unat_add_of_nat [of _ ?v] by (simp_all add: ad_def)
  have ge: "A (k - 1) + ?v \<le> A k" "A i + ?v \<le> A k" using D(6) k Suc.prems(1) by simp_all
  have nlt: "\<not> ad k < ad (k - 1) + of_nat ?v" using u ge by (simp add: word_less_nat_alt)
  let ?gap = "ad k - (ad (k - 1) + of_nat ?v) > 0x8000" and ?big = "(ad k + of_nat ?v) - ad i > 0x100000"
  have unf: "extend_window r cb (n * ?e) (ad i) (k * ?e) (ad (k - 1) + of_nat ?v)
      = (if ?gap \<or> ?big then ad (k - 1) + of_nat ?v
         else extend_window r cb (n * ?e) (ad i) (Suc k * ?e) (ad k + of_nat ?v))"
    by (subst extend_window.simps)
      (use inb nlt in \<open>simp add: ad_def Let_def add.commute [of "k * ?e" ?e]\<close>)
  show ?case
  proof (cases "?gap \<or> ?big")
    case True
    then show ?thesis using unf Suc.prems k by (intro exI [of _ "k - 1"]) simp
  next
    case False
    have "ad i \<le> ad k + of_nat ?v" using u ge by (simp add: word_le_nat_alt)
    then have "unat ((ad k + of_nat ?v) - ad i) = A k + ?v - A i" using u by (simp add: unat_diff)
    then have "A k + ?v - A i \<le> 0x100000" using False by (simp add: word_less_nat_alt)
    moreover have "d = n - Suc k" using Suc.hyps(2) by simp
    ultimately obtain j where "k \<le> j" "j < n" "A j + ?v - A i \<le> 0x100000"
        "extend_window r cb (n * ?e) (ad i) (Suc k * ?e) (ad k + of_nat ?v) = ad j + of_nat ?v"
      using Suc.hyps(1) [of "Suc k"] Suc.hyps(2) Suc.prems k by auto
    with unf False show ?thesis by (intro exI [of _ j]) auto
  qed
qed

definition window_inv :: "(u64 \<Rightarrow> byte) \<Rightarrow> count_request \<Rightarrow> ptr \<Rightarrow> nat \<Rightarrow> (nat \<Rightarrow> nat) \<Rightarrow> nat \<Rightarrow> count_state \<Rightarrow> bool" where
  \<comment> \<open>before candidate \<open>k\<close>: nothing read yet, or a window from candidate \<open>i\<close> to the end of candidate \<open>j\<close>\<close>
  "window_inv m r cb n A k s \<longleftrightarrow> (k = 0 \<and> cs_end s = 0) \<or>
     (\<exists>i j. i < k \<and> k \<le> Suc j \<and> j < n \<and> cs_start s = entry_addr r cb (i * cq_entry r)
        \<and> cs_end s = entry_addr r cb (j * cq_entry r) + of_nat (cq_vlen r)
        \<and> (\<forall>x < A j + cq_vlen r - A i. cs_mem s x = window m (entry_addr r cb (i * cq_entry r)) x))"

text \<open>The part of the window that serves the candidate holds the bytes of the target.\<close>

definition serves :: "(u64 \<Rightarrow> byte) \<Rightarrow> count_request \<Rightarrow> u64 \<Rightarrow> count_state \<Rightarrow> bool" where
  "serves m r addr s \<longleftrightarrow>
     (\<forall>x<cq_vlen r. shift (cs_mem s) (unat (addr - cs_start s)) x = window m addr x)"

lemma window_inv_serves:
  assumes sp: "spaced r cb n A" and ij: "i \<le> k" "k \<le> j" "j < n"
    and s: "cs_start s = entry_addr r cb (i * cq_entry r)"
    and m: "\<forall>x < A j + cq_vlen r - A i. cs_mem s x = window m (entry_addr r cb (i * cq_entry r)) x"
  shows "serves m r (entry_addr r cb (k * cq_entry r)) s"
proof -
  let ?ad = "\<lambda>k. entry_addr r cb (k * cq_entry r)" and ?v = "cq_vlen r"
  note D = spacedD [OF sp]
  have u: "unat (?ad k) = A k" "unat (?ad i) = A i" using D(4) ij by simp_all
  have le: "A i \<le> A k" "A k \<le> A j" using spaced_mono [OF sp] ij by simp_all
  then have ge: "?ad i \<le> ?ad k" using u by (simp add: word_le_nat_alt)
  then have d: "unat (?ad k - ?ad i) = A k - A i" using u by (simp add: unat_diff)
  have "?ad i + of_nat (A k - A i) = ?ad k" unfolding d [symmetric] by simp
  then have "shift (window m (?ad i)) (A k - A i) = window m (?ad k)" by (simp only: shift_window)
  then have "window m (?ad i) (A k - A i + x) = window m (?ad k) x" for x by (metis shift_apply)
  then show ?thesis
    using m le by (simp add: serves_def s d)
qed

context target_reader
begin

lemma ensure_window_step:
  assumes sp: "spaced r cb n A" and k: "k < n" and inv: "window_inv (mem (cq_pid r)) r cb n A k s"
    and rdb: "readable (cq_pid r) (entry_addr r cb 0) (A (n - 1) + cq_vlen r - A 0)"
  defines "s' \<equiv> ensure_window rd r cb (n * cq_entry r) (k * cq_entry r) s"
  shows "window_inv (mem (cq_pid r)) r cb n A (Suc k) s'" "cs_pend s' = cs_pend s"
    "serves (mem (cq_pid r)) r (entry_addr r cb (k * cq_entry r)) s'"
proof -
  let ?ad = "\<lambda>k. entry_addr r cb (k * cq_entry r)" and ?v = "cq_vlen r" and ?e = "cq_entry r"
  let ?M = "mem (cq_pid r)"
  note D = spacedD [OF sp]
  have "window_inv ?M r cb n A (Suc k) s' \<and> cs_pend s' = cs_pend s \<and> serves ?M r (?ad k) s'"
  proof (cases "?ad k \<ge> cs_end s \<or> ?ad k < cs_start s")
    case False
    then have "\<not> (k = 0 \<and> cs_end s = 0)" by auto
    then obtain i j where w: "i < k" "k \<le> Suc j" "j < n" "cs_start s = ?ad i" "cs_end s = ?ad j + of_nat ?v"
        "\<forall>x < A j + ?v - A i. cs_mem s x = window ?M (?ad i) x"
      using inv unfolding window_inv_def by blast
    have "unat (?ad j + of_nat ?v) = A j + ?v" using D(4,5) w(3) unat_add_of_nat by simp
    then have "A k < A j + ?v" using False w(5) D(4) [OF k] by (auto simp: word_le_nat_alt not_le)
    then have kj: "k \<le> j" using D(6) [of j k] k by (metis not_le leD)
    have "s' = s" using False by (simp add: s'_def ensure_window_def)
    moreover have "serves ?M r (?ad k) s" using window_inv_serves [OF sp _ kj w(3,4,6)] w(1) by simp
    moreover have "window_inv ?M r cb n A (Suc k) s"
      unfolding window_inv_def using w kj by (intro disjI2 exI [of _ i] exI [of _ j]) auto
    ultimately show ?thesis by simp
  next
    case True
    have "A (Suc k - 1) + ?v - A k \<le> 0x100000" using D(3) by simp
    then obtain j where j: "k \<le> j" "j < n" "A j + ?v - A k \<le> 0x100000"
        "extend_window r cb (n * ?e) (?ad k) (k * ?e + ?e) (?ad k + of_nat ?v) = ?ad j + of_nat ?v"
      using extend_window_spaced [OF sp, of k "Suc k"] k by (auto simp: add.commute)
    have u: "unat (?ad k) = A k" "unat (?ad j + of_nat ?v) = A j + ?v"
      using D(4,5) k j(2) unat_add_of_nat by simp_all
    have le: "A k \<le> A j" "A 0 \<le> A k" "A j \<le> A (n - 1)"
      using spaced_mono [OF sp] j(1,2) k by simp_all
    have "?ad k \<le> ?ad j + of_nat ?v" using u le by (simp add: word_le_nat_alt)
    then have d: "unat ((?ad j + of_nat ?v) - ?ad k) = A j + ?v - A k" using u by (simp add: unat_diff)
    define rs where "rs = A j + ?v - A k"
    have rsw: "unat (ucast ((?ad j + of_nat ?v) - ?ad k) :: u32) = rs"
      using d j(3) by (simp add: unat_ucast32 rs_def)
    have s': "s' = s\<lparr>cs_mem := rd (cq_pid r) (?ad k) rs (memset (cs_mem s) 0 0 rs), cs_start := ?ad k,
        cs_end := ?ad k + of_nat rs\<rparr>"
      unfolding s'_def ensure_window_def Let_def if_P [OF True] j(4) rsw ..
    have ad0: "?ad k = entry_addr r cb 0 + of_nat (A k - A 0)"
    proof -
      have "unat (entry_addr r cb 0) = A 0" using D(4) [of 0] k by simp
      then have "unat (?ad k - entry_addr r cb 0) = A k - A 0"
        using u le by (simp add: unat_diff word_le_nat_alt)
      then have "of_nat (A k - A 0) = (of_nat (unat (?ad k - entry_addr r cb 0)) :: u64)" by (simp only:)
      then show ?thesis by simp
    qed
    have "readable (cq_pid r) (?ad k) rs"
      unfolding ad0 by (rule readable_sub [OF rdb]) (use le in \<open>simp add: rs_def\<close>)
    then have mem: "\<forall>x<rs. cs_mem s' x = window ?M (?ad k) x" by (simp add: s' rd_window)
    have "of_nat rs = (of_nat (unat ((?ad j + of_nat ?v) - ?ad k)) :: u64)" by (simp only: d rs_def)
    then have ce: "cs_end s' = ?ad j + of_nat ?v" by (simp add: s')
    have st: "cs_start s' = ?ad k" by (simp add: s')
    have "serves ?M r (?ad k) s'"
      using window_inv_serves [OF sp _ j(1,2) st] mem by (simp add: rs_def)
    moreover have "window_inv ?M r cb n A (Suc k) s'"
      unfolding window_inv_def using j mem st ce by (intro disjI2 exI [of _ k] exI [of _ j]) (auto simp: rs_def)
    moreover have "cs_pend s' = cs_pend s" by (simp add: s')
    ultimately show ?thesis by blast
  qed
  then show "window_inv ?M r cb n A (Suc k) s'" "cs_pend s' = cs_pend s" "serves ?M r (?ad k) s'" by blast+
qed

end

section \<open>One chunk of candidates\<close>

type_synonym candidate = "u32 \<times> byte list"

definition cand_addr :: "count_request \<Rightarrow> candidate \<Rightarrow> u64" where
  "cand_addr r d = cq_base r + ucast (fst d)"

definition cand_hit :: "count_request \<Rightarrow> (u64 \<Rightarrow> byte) \<Rightarrow> candidate \<Rightarrow> bool" where
  \<comment> \<open>the comparison of the request, applied to the target's memory at the candidate\<close>
  "cand_hit r m d = proc_scan_compareValues (cq_cmp r) (cq_val r) (cq_vlen r) (ptr_of (cq_pattern r))
     (window m (cand_addr r d)) (if cq_prev r then Some (of_list (snd d)) else cq_between r) (cq_mask r)"

definition cand_record :: "count_request \<Rightarrow> (u64 \<Rightarrow> byte) \<Rightarrow> candidate \<Rightarrow> byte list" where
  "cand_record r m d = le_bytes 4 (fst d) @ bytes_at (window m (cand_addr r d)) 0 (cq_vlen r)"

definition enc_cand :: "candidate \<Rightarrow> byte list" where
  "enc_cand d = le_bytes 4 (fst d) @ snd d"

abbreviation enc_chunk :: "candidate list \<Rightarrow> byte list" where
  "enc_chunk ds \<equiv> concat (map enc_cand ds)"

definition wf_count :: "count_request \<Rightarrow> bool" where
  "wf_count r \<longleftrightarrow> 0 < cq_vlen r \<and> cq_vlen r \<le> 0x1000 \<and> cq_entry r = (if cq_prev r then 4 + cq_vlen r else 4)
     \<and> (cq_val r \<le> 9 \<longrightarrow> proc_scan_getSizeOfValueType (cq_val r) \<le> cq_vlen r)"

definition wf_chunk :: "count_request \<Rightarrow> candidate list \<Rightarrow> bool" where
  \<comment> \<open>ascending candidates that do not overlap, each with its previous value if the comparison needs it\<close>
  "wf_chunk r ds \<longleftrightarrow> (\<forall>d\<in>set ds. length (snd d) = cq_entry r - 4 \<and> unat (cq_base r) + unat (fst d) + cq_vlen r < 2 ^ 64)
     \<and> sorted_wrt (\<lambda>d d'. unat (fst d) + cq_vlen r \<le> unat (fst d')) ds"

lemma wf_count_entry: "wf_count r \<Longrightarrow> 4 \<le> cq_entry r" "wf_count r \<Longrightarrow> 0 < cq_entry r"
  by (auto simp: wf_count_def)

lemma length_enc_chunk:
  "wf_count r \<Longrightarrow> wf_chunk r ds \<Longrightarrow> length (enc_chunk ds) = length ds * cq_entry r"
  using wf_count_entry(1) [of r] by (induction ds) (auto simp: wf_chunk_def enc_cand_def)

lemma enc_chunk_nth:
  assumes "wf_count r" "wf_chunk r ds" "k < length ds" "i < cq_entry r"
  shows "enc_chunk ds ! (k * cq_entry r + i) = enc_cand (ds ! k) ! i"
  using assms(2-)
proof (induction ds arbitrary: k)
  case (Cons d ds)
  have len: "length (enc_cand d) = cq_entry r"
    using Cons.prems(1) wf_count_entry(1) [OF assms(1)] by (simp add: wf_chunk_def enc_cand_def)
  show ?case
  proof (cases k)
    case 0
    then show ?thesis using Cons.prems len by (simp add: nth_append)
  next
    case (Suc j)
    then show ?thesis
      using Cons.IH [of j] Cons.prems len by (simp add: nth_append wf_chunk_def)
  qed
qed simp

lemma chunk_loads:
  assumes wf: "wf_count r" "wf_chunk r ds" and k: "k < length ds"
    and cb: "\<forall>i<length (enc_chunk ds). cb i = enc_chunk ds ! i"
  shows "entry_addr r cb (k * cq_entry r) = cand_addr r (ds ! k)"
    "bytes_at cb (k * cq_entry r) 4 = le_bytes 4 (fst (ds ! k))"
    "i < cq_entry r - 4 \<Longrightarrow> cb (k * cq_entry r + 4 + i) = snd (ds ! k) ! i"
proof -
  have e: "cb (k * cq_entry r + i) = enc_cand (ds ! k) ! i" if "i < cq_entry r" for i
  proof -
    have "Suc k * cq_entry r \<le> length ds * cq_entry r" using k by (intro mult_le_mono1) simp
    then show ?thesis using that cb enc_chunk_nth [OF wf k that] length_enc_chunk [OF wf] by simp
  qed
  have b: "cb (k * cq_entry r + i) = le_bytes 4 (fst (ds ! k)) ! i" if "i < 4" for i
    using that e [of i] wf_count_entry(1) [OF wf(1)] by (simp add: enc_cand_def nth_append)
  have "ld32 (shift cb (k * cq_entry r)) = fst (ds ! k)"
    by (rule le_load_le_bytes) (simp_all add: b)
  then show "entry_addr r cb (k * cq_entry r) = cand_addr r (ds ! k)"
    by (simp only: entry_addr_def cand_addr_def)
  show "bytes_at cb (k * cq_entry r) 4 = le_bytes 4 (fst (ds ! k))"
    by (rule nth_equalityI) (simp_all add: b)
  show "cb (k * cq_entry r + 4 + i) = snd (ds ! k) ! i" if "i < cq_entry r - 4"
    using e [of "4 + i"] that by (simp add: enc_cand_def nth_append add.assoc)
qed

lemma chunk_spaced:
  assumes "wf_count r" "wf_chunk r ds" and cb: "\<forall>i<length (enc_chunk ds). cb i = enc_chunk ds ! i"
  shows "spaced r cb (length ds) (\<lambda>k. unat (cand_addr r (ds ! k)))"
proof -
  have "unat (cand_addr r d) = unat (cq_base r) + unat (fst d)" if "d \<in> set ds" for d
    using that assms(2) unsigned_less [of "fst d", where ?'a = nat]
    by (auto simp: cand_addr_def wf_chunk_def unat_word_ariths unat_ucast64)
  then show ?thesis
    using assms(1,2) chunk_loads(1) [OF assms(1,2) _ cb]
    by (auto simp: spaced_def wf_count_def wf_chunk_def sorted_wrt_iff_nth_less)
qed

lemma grid_mult: "0 < e \<Longrightarrow> grid e e (n * e) (k * e) = map (\<lambda>i. i * e) [k..<n]"
proof (induction "n - k" arbitrary: k)
  case 0
  have "n * e \<le> k * e" by (rule mult_le_mono1) (use 0 in simp)
  then have "n * e < k * e + e" using 0(2) by linarith
  from grid_Nil [OF this] 0 show ?case by simp
next
  case (Suc d)
  then have "Suc k * e \<le> n * e" by (intro mult_le_mono1) simp
  then have "grid e e (n * e) (k * e) = k * e # grid e e (n * e) (Suc k * e)"
    using Suc.prems by (simp add: grid_Cons add.commute)
  with Suc.hyps(1) [of "Suc k"] Suc.hyps(2) Suc.prems show ?case by (simp add: upt_conv_Cons)
qed

context target_reader
begin

lemma count_entry_streamed:
  assumes wf: "wf_count r" "wf_chunk r ds" and cb: "\<forall>i<length (enc_chunk ds). cb i = enc_chunk ds ! i"
    and k: "k < length ds" and q: "quiet c0"
    and rdb: "readable (cq_pid r) (entry_addr r cb 0)
      (unat (cand_addr r (ds ! (length ds - 1))) + cq_vlen r - unat (cand_addr r (ds ! 0)))"
    and inv: "window_inv (mem (cq_pid r)) r cb (length ds) (\<lambda>k. unat (cand_addr r (ds ! k))) k s"
    and str: "streamed c0 0x40000 recs (cs_pend s, c)"
  shows "\<exists>s' c'. count_entry rd r cb (length ds * cq_entry r) (k * cq_entry r) (s, c) = (s', c')
    \<and> window_inv (mem (cq_pid r)) r cb (length ds) (\<lambda>k. unat (cand_addr r (ds ! k))) (Suc k) s'
    \<and> streamed c0 0x40000 (recs @ map (cand_record r (mem (cq_pid r))) (filter (cand_hit r (mem (cq_pid r))) [ds ! k])) (cs_pend s', c')"
proof -
  let ?M = "mem (cq_pid r)" and ?d = "ds ! k" and ?n = "length ds" and ?e = "cq_entry r" and ?v = "cq_vlen r"
  define s' where "s' = ensure_window rd r cb (?n * ?e) (k * ?e) s"
  note E = ensure_window_step [OF chunk_spaced [OF wf cb] k inv rdb, folded s'_def]
  note L = chunk_loads [OF wf k cb]
  define m where "m = shift (cs_mem s') (unat (cand_addr r ?d - cs_start s'))"
  have m: "\<forall>x<?v. m x = window ?M (cand_addr r ?d) x" using E(3) by (simp only: serves_def L(1) m_def)
  let ?A = "agree (cq_val r) ?v"
  have self: "?A x x" for x using wf(1) by (simp add: agree_def wf_count_def)
  have am: "?A m (window ?M (cand_addr r ?d))" using m self by (simp add: agree_def)
  have ap: "rel_option ?A (if cq_prev r then Some (shift cb (k * ?e + 4)) else cq_between r)
      (if cq_prev r then Some (of_list (snd ?d)) else cq_between r)"
    using L(3) wf k self by (auto simp: agree_def wf_count_def wf_chunk_def of_list_def add.assoc option.rel_refl)
  have hit: "proc_scan_compareValues (cq_cmp r) (cq_val r) ?v (ptr_of (cq_pattern r)) m
      (if cq_prev r then Some (shift cb (k * ?e + 4)) else cq_between r) (cq_mask r) = cand_hit r ?M ?d"
    unfolding cand_hit_def by (intro compareValues_cong am self ap option.rel_refl)
  have bm: "bytes_at m 0 ?v = bytes_at (window ?M (cand_addr r ?d)) 0 ?v" using m by (simp add: bytes_at_eq_iff)
  have thr: "sub64 0x3FFE8 (2 * ?v) = 0x3FFE8 - 2 * ?v" using wf(1) by (simp add: sub64_ge wf_count_def)
  have add: "streamed c0 0x40000 (recs @ [cand_record r ?M ?d])
      (add_result (sub64 0x3FFE8 (2 * ?v)) (cand_record r ?M ?d) (cs_pend s', c))"
    using str wf(1) by (intro streamed_add q) (simp_all add: E(2) thr cand_record_def wf_count_def)
  obtain pend c' where pc: "add_result (sub64 0x3FFE8 (2 * ?v)) (cand_record r ?M ?d) (cs_pend s', c) = (pend, c')"
    by fastforce
  have unf: "count_entry rd r cb (?n * ?e) (k * ?e) (s, c)
      = (if cand_hit r ?M ?d then (s'\<lparr>cs_pend := pend\<rparr>, c') else (s', c))"
    unfolding count_entry_def prod.case Let_def s'_def [symmetric] L(1) m_def [symmetric] hit L(2) bm
      cand_record_def [symmetric] pc ..
  have inv': "window_inv ?M r cb ?n (\<lambda>k. unat (cand_addr r (ds ! k))) (Suc k) (s'\<lparr>cs_pend := pend\<rparr>)"
    using E(1) by (simp add: window_inv_def)
  show ?thesis
    using unf inv' E(1,2) add str pc by (cases "cand_hit r ?M ?d") auto
qed

lemma count_chunk_io:
  assumes wf: "wf_count r" "wf_chunk r ds" and cb: "\<forall>i<length (enc_chunk ds). cb i = enc_chunk ds ! i"
    and q: "quiet c" and ne: "ds \<noteq> []"
    and rdb: "readable (cq_pid r) (cand_addr r (hd ds))
      (unat (cand_addr r (last ds)) + cq_vlen r - unat (cand_addr r (hd ds)))"
  shows "\<exists>mb' c' bs. count_chunk rd r cb (length ds * cq_entry r) mb c = (mb', c')
    \<and> run_stream 0x40000 (map (cand_record r (mem (cq_pid r))) (filter (cand_hit r (mem (cq_pid r))) ds)) bs
    \<and> io c [] (bs @ sentinel64) c'"
proof -
  let ?M = "mem (cq_pid r)" and ?n = "length ds" and ?e = "cq_entry r"
  let ?A = "\<lambda>k. unat (cand_addr r (ds ! k))" and ?s0 = "\<lparr>cs_mem = mb, cs_start = 0, cs_end = 0, cs_pend = []\<rparr>"
  have "entry_addr r cb 0 = cand_addr r (hd ds)" using chunk_loads(1) [OF wf _ cb, of 0] ne by (simp add: hd_conv_nth)
  then have rdb': "readable (cq_pid r) (entry_addr r cb 0) (?A (?n - 1) + cq_vlen r - ?A 0)"
    using rdb ne by (simp add: hd_conv_nth last_conv_nth)
  have loop: "k \<le> ?n \<Longrightarrow> \<exists>s c'. fold (count_entry rd r cb (?n * ?e)) (map (\<lambda>i. i * ?e) [0..<k]) (?s0, c) = (s, c')
      \<and> window_inv ?M r cb ?n ?A k s
      \<and> streamed c 0x40000 (map (cand_record r ?M) (filter (cand_hit r ?M) (take k ds))) (cs_pend s, c')" for k
  proof (induction k)
    case 0
    then show ?case by (simp add: window_inv_def streamed_Nil)
  next
    case (Suc k)
    then obtain s c1 where 1: "fold (count_entry rd r cb (?n * ?e)) (map (\<lambda>i. i * ?e) [0..<k]) (?s0, c) = (s, c1)"
        "window_inv ?M r cb ?n ?A k s"
        "streamed c 0x40000 (map (cand_record r ?M) (filter (cand_hit r ?M) (take k ds))) (cs_pend s, c1)" by auto
    have k: "k < ?n" using Suc.prems by simp
    obtain s' c' where 2: "count_entry rd r cb (?n * ?e) (k * ?e) (s, c1) = (s', c')"
      "window_inv ?M r cb ?n ?A (Suc k) s'"
      "streamed c 0x40000 (map (cand_record r ?M) (filter (cand_hit r ?M) (take k ds))
         @ map (cand_record r ?M) (filter (cand_hit r ?M) [ds ! k])) (cs_pend s', c')"
      using count_entry_streamed [OF wf cb k q rdb' 1(2,3)] by blast
    have "fold (count_entry rd r cb (?n * ?e)) (map (\<lambda>i. i * ?e) [0..<Suc k]) (?s0, c) = (s', c')"
      using 1(1) 2(1) by simp
    with 2 k show ?case by (simp add: take_Suc_conv_app_nth del: upt_Suc)
  qed
  from loop [of ?n] obtain s c1 where s: "fold (count_entry rd r cb (?n * ?e)) (map (\<lambda>i. i * ?e) [0..<?n]) (?s0, c) = (s, c1)"
      "streamed c 0x40000 (map (cand_record r ?M) (filter (cand_hit r ?M) ds)) (cs_pend s, c1)" by auto
  have e: "0 < ?e" by (rule wf_count_entry(2) [OF wf(1)])
  have g: "grid_loop (count_entry rd r cb (?n * ?e)) ?e ?e (?n * ?e) 0 (?s0, c) = (s, c1)"
    using grid_mult [OF e, of ?n 0] s(1) by (simp add: grid_loop_fold [OF e])
  obtain bs where bs: "run_stream 0x40000 (map (cand_record r ?M) (filter (cand_hit r ?M) ds)) bs"
      "io c [] bs (flush_results (cs_pend s, c1))" using streamed_flush [OF s(2) q] by blast
  have "quiet (flush_results (cs_pend s, c1))" using io_fields(1) [OF bs(2)] q by simp
  from io_trans [OF bs(2) io_send_all [OF this, of sentinel64]]
  have "io c [] (bs @ sentinel64) (send_all sentinel64 (flush_results (cs_pend s, c1)))" by simp
  moreover have "count_chunk rd r cb (?n * ?e) mb c = (cs_mem s, send_all sentinel64 (flush_results (cs_pend s, c1)))"
    using g by (simp add: count_chunk_def)
  ultimately show ?thesis using bs(1) by blast
qed

end

section \<open>The chunk loop\<close>

definition enc_frame :: "candidate list \<Rightarrow> byte list" where
  \<comment> \<open>a chunk on the wire, behind its length\<close>
  "enc_frame ds = le_bytes 4 (of_nat (length (enc_chunk ds)) :: u32) @ enc_chunk ds"

definition chunk_end :: "byte list" where
  \<comment> \<open>the terminator of the chunk sequence\<close>
  "chunk_end = le_bytes 4 (0xFFFFFFFF :: u32)"

lemma recv_header:
  assumes "quiet c" "rx c = le_bytes 4 (w :: u32) @ rest"
  obtains d where "recv_all (\<lambda>_. 0) 4 c = (blit (\<lambda>_. 0) 0 (le_bytes 4 w), d)" "io c (le_bytes 4 w) [] d" "rx d = rest"
    "ld32 (blit (\<lambda>_. 0) 0 (le_bytes 4 w)) = w"
proof -
  have "ld32 (shift (blit (\<lambda>_. 0) 0 (le_bytes 4 w)) 0) = w" by (rule le_load_blit_same) simp
  with io_recv [OF assms, of 4 "\<lambda>_. 0"] that show thesis by auto
qed

definition wf_chunks :: "count_request \<Rightarrow> (u32 \<Rightarrow> u64 \<Rightarrow> nat \<Rightarrow> bool) \<Rightarrow> candidate list list \<Rightarrow> bool" where
  \<comment> \<open>chunks that fit the buffer, each spanning readable memory\<close>
  "wf_chunks r readable dss \<longleftrightarrow> (\<forall>ds\<in>set dss. wf_chunk r ds \<and> length (enc_chunk ds) \<le> 0x40000
     \<and> (ds \<noteq> [] \<longrightarrow> readable (cq_pid r) (cand_addr r (hd ds))
          (unat (cand_addr r (last ds)) + cq_vlen r - unat (cand_addr r (hd ds)))))"

definition kept :: "count_request \<Rightarrow> (u64 \<Rightarrow> byte) \<Rightarrow> candidate list \<Rightarrow> byte list list" where
  \<comment> \<open>the candidates of a chunk that still match, with their current values\<close>
  "kept r m ds = map (cand_record r m) (filter (cand_hit r m) ds)"

context target_reader
begin

lemma count_chunks_Cons:
  assumes wf: "wf_count r" "wf_chunks r readable [ds]" and q: "quiet c" and rx: "rx c = enc_frame ds @ rest"
  shows "\<exists>cb' mb' c' bs. count_chunks rd r cb mb c = count_chunks rd r cb' mb' c'
    \<and> run_stream 0x40000 (kept r (mem (cq_pid r)) ds) bs \<and> io c (enc_frame ds) (bs @ sentinel64) c'"
proof -
  let ?L = "length (enc_chunk ds)" and ?w = "of_nat (length (enc_chunk ds)) :: u32" and ?M = "mem (cq_pid r)"
  have ds: "wf_chunk r ds" "?L \<le> 0x40000" using wf(2) by (simp_all add: wf_chunks_def)
  obtain d where 1: "recv_all (\<lambda>_. 0) 4 c = (blit (\<lambda>_. 0) 0 (le_bytes 4 ?w), d)" "io c (le_bytes 4 ?w) [] d"
      "rx d = enc_chunk ds @ rest" "ld32 (blit (\<lambda>_. 0) 0 (le_bytes 4 ?w)) = ?w"
    using recv_header [OF q, of ?w "enc_chunk ds @ rest"] rx by (auto simp: enc_frame_def)
  have qd: "quiet d" using io_fields(1) [OF 1(2)] q by simp
  have u: "unat ?w = ?L" using ds(2) by (simp add: unat_of_nat)
  show ?thesis
  proof (cases "ds = []")
    case True
    have "count_chunks rd r cb mb c = count_chunks rd r cb mb (send_all sentinel64 d)"
      by (subst count_chunks.simps) (use True 1 in simp)
    moreover have "io c (enc_frame ds) ([] @ sentinel64) (send_all sentinel64 d)"
      using io_trans [OF 1(2) io_send_all [OF qd, of sentinel64]] True by (simp add: enc_frame_def)
    moreover have "run_stream 0x40000 (kept r ?M ds) []"
      using True by (auto simp: kept_def run_stream_def intro!: exI [of _ "[]"])
    ultimately show ?thesis by blast
  next
    case False
    have L: "?L = length ds * cq_entry r" by (rule length_enc_chunk [OF wf(1) ds(1)])
    then have pos: "0 < ?L" using False wf_count_entry(2) [OF wf(1)] by simp
    have guards: "?w \<noteq> 0xFFFFFFFF" "?w \<noteq> 0" "\<not> ?w > 0x40000"
      using pos ds(2) u by (auto simp: word_less_nat_alt dest: arg_cong [of _ _ unat])
    have "nat (c_int ?w) = ?L" using nat_c_int [of ?w] u ds(2) by simp
    then obtain e where 2: "recv_all cb (c_int ?w) d = (blit cb 0 (enc_chunk ds), e)" "io d (enc_chunk ds) [] e"
      using io_recv [OF qd 1(3)] by metis
    have qe: "quiet e" using io_fields(1) [OF 2(2)] qd by simp
    have "\<forall>i<?L. blit cb 0 (enc_chunk ds) i = enc_chunk ds ! i" by (simp add: blit_def)
    then obtain mb' c' bs where 3: "count_chunk rd r (blit cb 0 (enc_chunk ds)) ?L mb e = (mb', c')"
        "run_stream 0x40000 (kept r ?M ds) bs" "io e [] (bs @ sentinel64) c'"
      using count_chunk_io [OF wf(1) ds(1) _ qe False, of "blit cb 0 (enc_chunk ds)" mb] wf(2) False
      by (auto simp: wf_chunks_def kept_def L)
    have "count_chunks rd r cb mb c = count_chunks rd r (blit cb 0 (enc_chunk ds)) mb' c'"
      by (subst count_chunks.simps) (simp only: 1(1,4) Let_def prod.case guards if_False 2(1) u 3(1))
    with 3(2) io_trans [OF 1(2) io_trans [OF 2(2) 3(3)]] show ?thesis
      by (auto simp: enc_frame_def)
  qed
qed

lemma count_chunks_io:
  assumes wf: "wf_count r"
  shows "wf_chunks r readable dss \<Longrightarrow> quiet c \<Longrightarrow> rx c = concat (map enc_frame dss) @ chunk_end @ rest \<Longrightarrow>
    \<exists>c' bss. count_chunks rd r cb mb c = Some c' \<and> list_all2 (run_stream 0x40000) (map (kept r (mem (cq_pid r))) dss) bss
      \<and> io c (concat (map enc_frame dss) @ chunk_end) (concat (map (\<lambda>bs. bs @ sentinel64) bss)) c'"
proof (induction dss arbitrary: cb mb c)
  case Nil
  then obtain d where 1: "recv_all (\<lambda>_. 0) 4 c = (blit (\<lambda>_. 0) 0 (le_bytes 4 (0xFFFFFFFF :: u32)), d)" "io c chunk_end [] d"
      "ld32 (blit (\<lambda>_. 0) 0 (le_bytes 4 (0xFFFFFFFF :: u32))) = 0xFFFFFFFF"
    using recv_header [of c "0xFFFFFFFF" rest] by (auto simp: chunk_end_def)
  have "count_chunks rd r cb mb c = Some d"
    by (subst count_chunks.simps) (simp only: 1(1,3) Let_def prod.case if_True refl)
  with 1(2) show ?case by simp
next
  case (Cons ds dss)
  have w: "wf_chunks r readable [ds]" "wf_chunks r readable dss" using Cons.prems(1) by (simp_all add: wf_chunks_def)
  have rx: "rx c = enc_frame ds @ concat (map enc_frame dss) @ chunk_end @ rest" using Cons.prems(3) by simp
  obtain cb' mb' c' bs where 1: "count_chunks rd r cb mb c = count_chunks rd r cb' mb' c'"
      "run_stream 0x40000 (kept r (mem (cq_pid r)) ds) bs" "io c (enc_frame ds) (bs @ sentinel64) c'"
    using count_chunks_Cons [OF wf w(1) Cons.prems(2) rx] by blast
  have "quiet c'" "rx c' = concat (map enc_frame dss) @ chunk_end @ rest"
    using io_fields(1,2) [OF 1(3)] Cons.prems(2) rx by simp_all
  from Cons.IH [OF w(2) this] obtain c'' bss where 2: "count_chunks rd r cb' mb' c' = Some c''"
      "list_all2 (run_stream 0x40000) (map (kept r (mem (cq_pid r))) dss) bss"
      "io c' (concat (map enc_frame dss) @ chunk_end) (concat (map (\<lambda>bs. bs @ sentinel64) bss)) c''" by blast
  from io_trans [OF 1(3) 2(3)] 1(1,2) 2(1,2) show ?case
    by (intro exI [of _ c''] exI [of _ "bs # bss"]) simp
qed

end

section \<open>The rescan on the wire\<close>

definition count_wants :: "cmd_proc_scan_count_packet \<Rightarrow> bool" where
  \<comment> \<open>the comparison takes a value from the client\<close>
  "count_wants cp \<longleftrightarrow> (g_cmptype_needs_value ! unat (cn_compareType cp) \<noteq> 0
     \<or> g_cmptype_needs_extra ! unat (cn_compareType cp) \<noteq> 0) \<and> cn_lenData cp \<noteq> 0"

definition client_count :: "cmd_proc_scan_count_packet \<Rightarrow> nat \<Rightarrow> ptr option \<Rightarrow> ptr option \<Rightarrow> count_request" where
  \<comment> \<open>the request for given value and mask bytes\<close>
  "client_count cp vl p m =
     \<lparr>cq_pid = cn_pid cp, cq_base = cn_base_address cp, cq_cmp = cn_compareType cp, cq_val = cn_valueType cp,
      cq_vlen = vl, cq_prev = (g_cmptype_needs_previous ! unat (cn_compareType cp) \<noteq> 0),
      cq_entry = (if g_cmptype_needs_previous ! unat (cn_compareType cp) \<noteq> 0 then 4 + vl else 4),
      cq_pattern = p,
      cq_between = (if cn_compareType cp = 4 \<and> p \<noteq> None \<and> unat (cn_lenData cp) \<ge> 2 * vl
                    then Some (shift (ptr_of p) vl) else None),
      cq_mask = m\<rparr>"

definition wf_count_client :: "cmd_proc_scan_count_packet \<Rightarrow> nat \<Rightarrow> bool" where
  "wf_count_client cp vl \<longleftrightarrow> cn_compareType cp \<le> 12 \<and> unat (cn_lenData cp) < 2 ^ 31
     \<and> vl = (if proc_scan_getSizeOfValueType (cn_valueType cp) = 0 then unat (cn_lenData cp)
             else proc_scan_getSizeOfValueType (cn_valueType cp))
     \<and> 0 < vl \<and> vl \<le> 0x1000"

lemma client_count_wf: "wf_count_client cp vl \<Longrightarrow> wf_count (client_count cp vl p m)"
  using size_bounds [of "cn_valueType cp"]
  by (auto simp: wf_count_client_def wf_count_def client_count_def)

text \<open>Up to the acknowledgement, the handler allocates and nothing else.\<close>

lemma count_handle_unfold:
  assumes "quiet c" "auth_granted c" "data packet = Some dp" "scan_count_packet dp = cp" "wf_count_client cp vl"
  obtains p m cb mb c' where "io c [] [] c'" "(p = None) = (\<not> count_wants cp)" "(m = None) = (cn_valueType cp \<noteq> 10)"
    "proc_scan_count_handle rd packet c = map_option (\<lambda>c. (0, send_int32 CMD_SUCCESS c)) (count_run rd cp vl p m cb mb c')"
proof -
  let ?L = "unat (cn_lenData cp)" and ?needs = "count_wants cp" and ?arr = "cn_valueType cp = 10"
  have vl: "0 < vl" "vl \<le> 0x1000" "(if proc_scan_getSizeOfValueType (cn_valueType cp) = 0 then ?L
      else proc_scan_getSizeOfValueType (cn_valueType cp)) = vl"
    using assms(5) by (simp_all add: wf_count_client_def)
  have "\<exists>p d. (if ?needs then net_alloc_buffer ?L c else (None, c)) = (p, d) \<and> (p = None) = (\<not> ?needs) \<and> io c [] [] d"
  proof (cases ?needs)
    case True
    then have "0 < ?L" by (simp add: count_wants_def unat_gt_0)
    then show ?thesis using io_alloc [OF assms(1)] True by (metis option.distinct(1))
  qed simp
  then obtain p c1 where 1: "(if ?needs then net_alloc_buffer ?L c else (None, c)) = (p, c1)"
      "(p = None) = (\<not> ?needs)" "io c [] [] c1" by blast
  have q1: "quiet c1" using io_fields(1) [OF 1(3)] assms(1) by simp
  obtain m c2 where 2: "(if ?arr then net_alloc_buffer vl c1 else (None, c1)) = (m, c2)"
      "(m = None) = (\<not> ?arr)" "io c1 [] [] c2" using io_opt_alloc [OF q1 vl(1)] by metis
  have q2: "quiet c2" using io_fields(1) [OF 2(3)] q1 by simp
  have "\<forall>sz\<in>set [0x40000, 0x40000, 0x100000 :: nat]. 0 < sz mod 2 ^ 32" by simp
  from io_alloc_all [OF q2 this] obtain bs c3 where
    3: "alloc_all [0x40000, 0x40000, 0x100000] c2 = (map Some bs, c3)" "io c2 [] [] c3" by metis
  have guards: "(\<not> auth_granted c) = False" "(cn_compareType cp > 12) = False" "(vl = 0 \<or> vl > 0x1000) = False"
      "(?needs \<and> p = None) = False" "(?arr \<and> m = None) = False" "(None \<in> set (map Some bs)) = False"
    using assms(2,5) vl 1(2) 2(2) by (auto simp: wf_count_client_def)
  have "proc_scan_count_handle rd packet c
      = map_option (\<lambda>c. (0, send_int32 CMD_SUCCESS c)) (count_run rd cp vl p m (the (map Some bs ! 0)) (the (map Some bs ! 2)) c3)"
    unfolding proc_scan_count_handle_def Let_def assms(3) option.case assms(4) vl(3) count_wants_def [symmetric]
    by (simp only: guards if_False 1(1) 2(1) 3(1) prod.case)
  then show thesis using that [of c3 p m] io_trans [OF 1(3) io_trans [OF 2(3) 3(2)]] 1(2) 2(2) by simp
qed

text \<open>What a candidate is compared with does not depend on what the heap held behind the
  received bytes.\<close>

lemma cand_hit_count:
  assumes wf: "wf_count_client cp vl" and p: "(p = None) = (\<not> count_wants cp)" "(m = None) = (cn_valueType cp \<noteq> 10)"
    and len: "count_wants cp \<Longrightarrow> length ps = unat (cn_lenData cp) \<and> vl \<le> length ps" "cn_valueType cp = 10 \<Longrightarrow> length ms = vl"
  shows "cand_hit (client_count cp vl (map_option (\<lambda>q. blit q 0 ps) p) (map_option (\<lambda>q. blit q 0 ms) m))
    = cand_hit (client_count cp vl (if count_wants cp then Some (of_list ps) else None)
        (if cn_valueType cp = 10 then Some (of_list ms) else None))"
proof (intro ext)
  fix M d
  let ?A = "agree (cn_valueType cp) vl"
  have self: "?A x x" for x using wf size_bounds [of "cn_valueType cp"] by (auto simp: agree_def wf_count_client_def)
  have blit: "?A (shift (blit q 0 bs) k) (shift (of_list bs) k)" if "k + vl \<le> length bs" for q bs k
    using that self by (auto simp: agree_def blit_def of_list_def)
  have pat: "?A (ptr_of (map_option (\<lambda>q. blit q 0 ps) p)) (ptr_of (if count_wants cp then Some (of_list ps) else None))"
    using p(1) len(1) blit [of 0 ps] self by (cases p) (auto simp: ptr_of_def)
  have mk: "rel_option ?A (map_option (\<lambda>q. blit q 0 ms) m) (if cn_valueType cp = 10 then Some (of_list ms) else None)"
    using p(2) len(2) blit [of 0 ms] by (cases m) auto
  have hi: "?A (shift (ptr_of (map_option (\<lambda>q. blit q 0 ps) p)) vl) (shift (ptr_of (if count_wants cp then Some (of_list ps) else None)) vl)"
    if "p \<noteq> None" "2 * vl \<le> unat (cn_lenData cp)"
    using p(1) that len(1) blit [of vl ps] by (auto simp: ptr_of_def)
  show "cand_hit (client_count cp vl (map_option (\<lambda>q. blit q 0 ps) p) (map_option (\<lambda>q. blit q 0 ms) m)) M d
    = cand_hit (client_count cp vl (if count_wants cp then Some (of_list ps) else None)
        (if cn_valueType cp = 10 then Some (of_list ms) else None)) M d"
    unfolding cand_hit_def client_count_def cand_addr_def count_request.simps
    by (rule compareValues_cong [OF self pat _ mk]) (use hi p(1) self in \<open>auto simp: option.rel_refl\<close>)
qed

lemma client_count_sel [simp]:
  "cq_pid (client_count cp vl p m) = cn_pid cp" "cq_vlen (client_count cp vl p m) = vl"
  by (simp_all add: client_count_def)

lemma client_count_kept:
  assumes "cand_hit (client_count cp vl p m) = cand_hit (client_count cp vl p' m')"
  shows "kept (client_count cp vl p m) = kept (client_count cp vl p' m')"
    and "wf_chunks (client_count cp vl p m) = wf_chunks (client_count cp vl p' m')"
proof -
  have a: "cand_addr (client_count cp vl p m) = cand_addr (client_count cp vl p' m')"
    by (simp add: fun_eq_iff cand_addr_def client_count_def)
  then have "cand_record (client_count cp vl p m) = cand_record (client_count cp vl p' m')"
    by (simp add: cand_record_def [abs_def])
  then show "kept (client_count cp vl p m) = kept (client_count cp vl p' m')"
    using assms by (simp add: kept_def [abs_def])
  have "wf_chunk (client_count cp vl p m) = wf_chunk (client_count cp vl p' m')"
    by (simp add: fun_eq_iff wf_chunk_def client_count_def)
  then show "wf_chunks (client_count cp vl p m) = wf_chunks (client_count cp vl p' m')"
    by (simp add: fun_eq_iff wf_chunks_def a)
qed


definition example_count_data :: ptr where
  "example_count_data = of_list [1, 0, 0, 0, 0, 0x10, 0, 0, 0, 0, 0, 0, 2, 0, 2, 0, 0, 0]"

definition example_count_packet :: cmd_packet where
  "example_count_packet = \<lparr>magic = 0xFFAABBCC, cmd = 0xBDAACC02, datalen = 18, data = Some example_count_data\<rparr>"

lemma example_count_data: "data example_count_packet = Some example_count_data"
  by (simp add: example_count_packet_def)

lemma example_count_fields:
  "scan_count_packet example_count_data = \<lparr>cn_pid = 1, cn_base_address = 0x1000, cn_valueType = 2, cn_compareType = 0, cn_lenData = 2\<rparr>"
  by (simp add: scan_count_packet_def example_count_data_def of_list_def le_simps)

lemma example_count_wf:
  "wf_count_client (scan_count_packet example_count_data) 2" "count_wants (scan_count_packet example_count_data)"
  by (simp_all add: example_count_fields wf_count_client_def count_wants_def proc_scan_getSizeOfValueType_def g_cmptype_needs_value_def)

definition example_count :: count_request where
  "example_count = client_count (scan_count_packet example_count_data) 2 (Some (of_list [7, 9])) None"

lemma example_count_sel: "cq_base example_count = 0x1000" "cq_vlen example_count = 2" "cq_entry example_count = 4" "cq_pid example_count = 1"
  by (simp_all add: example_count_def client_count_def example_count_fields g_cmptype_needs_previous_def)

lemma example_count_chunks: "wf_chunks example_count (\<lambda>_ _ _. True) [[(2, []), (4, [])], []]"
  by (simp add: wf_chunks_def wf_chunk_def example_count_sel enc_cand_def)

lemma example_kept: "kept example_count (example_scan_mem 1) [(2, []), (4, [])] = [[4, 0, 0, 0, 7, 9]]"
proof -
  have hit: "cand_hit example_count M d \<longleftrightarrow> M (cand_addr example_count d) = 7 \<and> M (cand_addr example_count d + 1) = 9" for M d
    by (auto simp: cand_hit_def example_count_def client_count_def example_count_fields g_cmptype_needs_previous_def
        proc_scan_compareValues_def exact_compare_def ptr_of_def bytes_eq_loop_iff of_list_def less_2_cases_iff window_apply)
  show ?thesis
    unfolding kept_def filter.simps hit cand_record_def cand_addr_def example_count_sel
    by (simp add: example_scan_mem_def bytes_at_def le_bytes_def window_apply upt_rec)
qed


section \<open>A connection that was closed\<close>

lemma recv_all_closed: "rx c = [] \<Longrightarrow> 0 < len \<Longrightarrow> \<exists>m. recv_all p len c = (p, c\<lparr>nrecv := m\<rparr>)"
  by (simp add: recv_all_def net_recv_all_def recv_loop.simps [of p 0 "nat len" c] Let_def)
    (metis conn.surjective conn.update_convs(1,5) old.unit.exhaust)

lemma count_chunks_needs_input: "count_chunks rd r cb mb c = Some c' \<Longrightarrow> rx c \<noteq> []"
proof (rule count_chunks.raw_induct [of "\<lambda>rd r cb mb c _. rx c \<noteq> []", rotated])
  fix f rd r cb mb and c :: "'a conn_scheme" and c'
  assume IH: "\<And>rd r cb mb c c'. f rd r cb mb c = Some c' \<Longrightarrow> rx (c :: 'a conn_scheme) \<noteq> []"
    and eq: "(let (hdr, c) = recv_all (\<lambda>_. 0) 4 c; chunk_len = ld32 hdr in
      if chunk_len = 0xFFFFFFFF then Some c
      else if chunk_len = 0 then f rd r cb mb (send_all sentinel64 c)
      else if chunk_len > 0x40000 then Some c
      else let (chunk_buf, c) = recv_all cb (c_int chunk_len) c;
               (mem_buf, c) = count_chunk rd r chunk_buf (unat chunk_len) mb c
           in f rd r chunk_buf mem_buf c) = Some c'"
  show "rx c \<noteq> []"
  proof
    assume "rx c = []"
    then obtain m where m: "recv_all (\<lambda>_. 0) 4 c = (\<lambda>_. 0, c\<lparr>nrecv := m\<rparr>)" using recv_all_closed [of c 4] by auto
    have z: "ld32 (\<lambda>_. 0) = 0" by (simp add: le_simps shift_def)
    have "f rd r cb mb (send_all sentinel64 (c\<lparr>nrecv := m\<rparr>)) = Some c'" using eq unfolding m Let_def prod.case z by simp
    from IH [OF this] \<open>rx c = []\<close> show False by simp
  qed
qed

text \<open>
  C33: a rescan whose client disconnects does not return. If the client closes the connection
  after a well-formed request, the chunk loop receives a zeroed header for ever: the handler, and
  with it the thread that runs it, never ends.
\<close>

theorem proc_scan_count_handle_disconnect:
  assumes "quiet c" "auth_granted c" "data packet = Some dp" "scan_count_packet dp = cp" "wf_count_client cp vl" "rx c = []"
  shows "proc_scan_count_handle rd packet c = None"
proof -
  obtain p m cb mb c1 where 1: "io c [] [] c1"
      "proc_scan_count_handle rd packet c = map_option (\<lambda>c. (0, send_int32 CMD_SUCCESS c)) (count_run rd cp vl p m cb mb c1)"
    using count_handle_unfold [OF assms(1-5)] by metis
  have drained: "rx (snd (recv_opt q len d)) = []" if "rx d = []" for q len and d :: "'a auth_scheme"
  proof (cases q)
    case (Some b)
    obtain k n where "recv_all b len d = (blit b 0 (take k (rx d)), d\<lparr>nrecv := nrecv d + n, rx := drop k (rx d)\<rparr>)"
      using recv_all_ex by blast
    with Some that show ?thesis by (simp add: recv_opt_def)
  qed (use that in \<open>simp add: recv_opt_def\<close>)
  obtain p2 c2 where 2: "recv_opt p (c_int (cn_lenData cp)) (send_int32 CMD_SUCCESS c1) = (p2, c2)" by fastforce
  obtain m3 c3 where 3: "recv_opt m (c_int (of_nat vl)) c2 = (m3, c3)" by fastforce
  have "rx (send_int32 CMD_SUCCESS c1) = []" using io_fields(2) [OF 1(1)] assms(6) by simp
  from drained [OF this, of p "c_int (cn_lenData cp)"] have "rx c2 = []" by (simp add: 2)
  from drained [OF this, of m "c_int (of_nat vl)"] have rx: "rx c3 = []" by (simp add: 3)
  have "count_chunks rd r' cb mb c3 = None" for r'
    using count_chunks_needs_input [of rd r' cb mb c3] rx by (cases "count_chunks rd r' cb mb c3") auto
  then have "count_run rd cp vl p m cb mb c1 = None" unfolding count_run_def Let_def 2 3 prod.case .
  with 1(2) show ?thesis by simp
qed

theorem proc_scan_count_handle_disconnect_witness:
  "proc_scan_count_handle (flat_rd example_scan_mem) example_count_packet (example_client\<lparr>rx := []\<rparr>) = None"
  using proc_scan_count_handle_disconnect [of "example_client\<lparr>rx := []\<rparr>" example_count_packet example_count_data]
    example_client_ok(1,2) example_count_wf(1) example_count_data
  by (simp add: auth_granted_def quiet_def send_live_def recv_live_def)

end
