(* ===== verification/Kernel.thy ===== *)
theory Kernel
  imports Reader
begin

text \<open>
  The interface between the kernel read/write primitive and its users. \<^verbatim>\<open>kernel_copyout_fast\<close>
  copies kernel memory to a buffer of the caller, \<^verbatim>\<open>kernel_copyin_fast\<close> the other way. Users
  take them as the functions \<open>out\<close> and \<open>inn\<close> over an abstract kernel state; the locale says what
  they rely on. A buffer that is passed by address is a list of bytes: its old contents go in,
  its new contents come out, and the length stays.
\<close>

type_synonym 'k copyout = "u64 \<Rightarrow> byte list \<Rightarrow> 'k \<Rightarrow> int \<times> byte list \<times> 'k"
type_synonym 'k copyin = "byte list \<Rightarrow> u64 \<Rightarrow> 'k \<Rightarrow> int \<times> 'k"

definition poke :: "(u64 \<Rightarrow> byte) \<Rightarrow> u64 \<Rightarrow> byte list \<Rightarrow> u64 \<Rightarrow> byte" where
  \<comment> \<open>memory after the bytes are stored at the address\<close>
  "poke m a bs = (\<lambda>x. if unat (x - a) < length bs then bs ! unat (x - a) else m x)"

definition peek :: "(u64 \<Rightarrow> byte) \<Rightarrow> u64 \<Rightarrow> nat \<Rightarrow> byte list" where
  "peek m a n = bytes_at (window m a) 0 n"

definition word_of :: "byte list \<Rightarrow> 'a::len word" where
  \<comment> \<open>the value of a little-endian variable\<close>
  "word_of bs = le_load (length bs) (of_list bs)"

lemma length_peek [simp]: "length (peek m a n) = n"
  by (simp add: peek_def)

lemma nth_peek [simp]: "i < n \<Longrightarrow> peek m a n ! i = m (a + of_nat i)"
  by (simp add: peek_def window_apply)

lemma word_of_le_bytes: "LENGTH('a::len) = 8 * n \<Longrightarrow> word_of (le_bytes n (w :: 'a word)) = w"
  unfolding word_of_def by (rule le_load_le_bytes) (simp_all add: of_list_def)

lemma peek_poke_same: "length bs \<le> 2 ^ 64 \<Longrightarrow> peek (poke m a bs) a (length bs) = bs"
  by (rule nth_equalityI) (simp_all add: poke_def unat_of_nat)

lemma poke_other: "length bs \<le> unat (x - a) \<Longrightarrow> poke m a bs x = m x"
  by (simp add: poke_def)

lemma poke_unchanged:
  assumes "\<And>i. i < length bs \<Longrightarrow> x \<noteq> a + of_nat i"
  shows "poke m a bs x = m x"
proof (rule poke_other, rule leI, rule notI)
  assume "unat (x - a) < length bs"
  then have "x \<noteq> a + of_nat (unat (x - a))" by (rule assms)
  then show False by simp
qed

section \<open>The contract\<close>

text \<open>
  \<open>view k m\<close> says that the primitive works in state \<open>k\<close> and that the kernel's memory is \<open>m\<close>;
  \<open>safe a n\<close> that the range is away from the objects the primitive itself lives on. A call that
  reports success on a safe range has copied the memory; one that fails has changed nothing.
\<close>

locale kernel_memory =
  fixes out :: "'k copyout" and inn :: "'k copyin"
    and view :: "'k \<Rightarrow> (u64 \<Rightarrow> byte) \<Rightarrow> bool" and safe :: "u64 \<Rightarrow> nat \<Rightarrow> bool"
  assumes out_view: "view k m \<Longrightarrow> out a buf k = (rc, bs, k') \<Longrightarrow> view k' m"
    and out_ok: "view k m \<Longrightarrow> out a buf k = (0, bs, k') \<Longrightarrow> safe a (length buf) \<Longrightarrow> bs = peek m a (length buf)"
    and inn_ok: "view k m \<Longrightarrow> inn bs a k = (0, k') \<Longrightarrow> safe a (length bs) \<Longrightarrow> view k' (poke m a bs)"
    and inn_fail: "view k m \<Longrightarrow> inn bs a k = (rc, k') \<Longrightarrow> rc \<noteq> 0 \<Longrightarrow> view k' m"
    and safe_bytes: "n \<le> 0x40000000 \<Longrightarrow> (\<And>i. i < n \<Longrightarrow> safe (a + of_nat i) 1) \<Longrightarrow> safe a n"

text \<open>A kernel in which no call fails.\<close>

locale reliable_kernel = kernel_memory +
  assumes out_rc: "view k m \<Longrightarrow> fst (out a buf k) = 0"
    and inn_rc: "view k m \<Longrightarrow> fst (inn bs a k) = 0"
begin

lemma out_peek:
  assumes "view k m" "safe a (length buf)"
  obtains k' where "out a buf k = (0, peek m a (length buf), k')" "view k' m"
proof -
  obtain rc bs k' where *: "out a buf k = (rc, bs, k')" by (metis prod_cases3)
  moreover have "rc = 0" using out_rc [OF assms(1), of a buf] * by simp
  ultimately show thesis
    using that out_ok [OF assms(1), of a buf bs k'] out_view [OF assms(1) *] assms(2) by simp
qed

lemma inn_poke:
  assumes "view k m" "safe a (length bs)"
  obtains k' where "inn bs a k = (0, k')" "view k' (poke m a bs)"
proof -
  obtain rc k' where *: "inn bs a k = (rc, k')" by fastforce
  moreover have "rc = 0" using inn_rc [OF assms(1), of bs a] * by simp
  ultimately show thesis using that inn_ok [OF assms(1), of bs a k'] assms(2) by simp
qed

end

section \<open>Reading variables\<close>

definition out64 :: "'k copyout \<Rightarrow> u64 \<Rightarrow> u64 \<Rightarrow> 'k \<Rightarrow> int \<times> u64 \<times> 'k" where
  \<comment> \<open>\<^verbatim>\<open>kernel_copyout_fast(a, &v, 8)\<close>, from the old to the new value of \<open>v\<close>\<close>
  "out64 out a v k = (let (rc, bs, k) = out a (le_bytes 8 v) k in (rc, word_of bs, k))"

definition out32 :: "'k copyout \<Rightarrow> u64 \<Rightarrow> u32 \<Rightarrow> 'k \<Rightarrow> int \<times> u32 \<times> 'k" where
  "out32 out a v k = (let (rc, bs, k) = out a (le_bytes 4 v) k in (rc, word_of bs, k))"

definition mem64 :: "(u64 \<Rightarrow> byte) \<Rightarrow> u64 \<Rightarrow> u64" where
  "mem64 m a = ld64 (window m a)"

definition mem32 :: "(u64 \<Rightarrow> byte) \<Rightarrow> u64 \<Rightarrow> u32" where
  "mem32 m a = ld32 (window m a)"

lemma word_of_peek64: "word_of (peek m a 8) = mem64 m a"
  unfolding word_of_def mem64_def length_peek
  by (rule le_load_cong) (simp add: of_list_def peek_def)

lemma word_of_peek32: "word_of (peek m a 4) = mem32 m a"
  unfolding word_of_def mem32_def length_peek
  by (rule le_load_cong) (simp add: of_list_def peek_def)

lemma mem64_unchanged:
  assumes "\<And>i j. i < length bs \<Longrightarrow> j < 8 \<Longrightarrow> a + of_nat j \<noteq> b + of_nat i"
  shows "mem64 (poke m b bs) a = mem64 m a"
  unfolding mem64_def by (rule le_load_cong) (use assms in \<open>simp add: window_apply poke_unchanged\<close>)

lemma mem32_unchanged:
  assumes "\<And>i j. i < length bs \<Longrightarrow> j < 4 \<Longrightarrow> a + of_nat j \<noteq> b + of_nat i"
  shows "mem32 (poke m b bs) a = mem32 m a"
  unfolding mem32_def by (rule le_load_cong) (use assms in \<open>simp add: window_apply poke_unchanged\<close>)

context kernel_memory
begin

lemma out64_ok:
  "view k m \<Longrightarrow> out64 out a v k = (rc, w, k') \<Longrightarrow> view k' m \<and> (rc = 0 \<longrightarrow> safe a 8 \<longrightarrow> w = mem64 m a)"
  using out_view [of k m a "le_bytes 8 v"] out_ok [of k m a "le_bytes 8 v"]
  by (auto simp: out64_def word_of_peek64 split: prod.splits)

lemma out32_ok:
  "view k m \<Longrightarrow> out32 out a v k = (rc, w, k') \<Longrightarrow> view k' m \<and> (rc = 0 \<longrightarrow> safe a 4 \<longrightarrow> w = mem32 m a)"
  using out_view [of k m a "le_bytes 4 v"] out_ok [of k m a "le_bytes 4 v"]
  by (auto simp: out32_def word_of_peek32 split: prod.splits)

end

context reliable_kernel
begin

lemma out64_read:
  assumes "view k m" "safe a 8"
  obtains k' where "out64 out a v k = (0, mem64 m a, k')" "view k' m"
proof (rule out_peek [OF assms(1), of a "le_bytes 8 v"])
  show "safe a (length (le_bytes 8 v))" using assms by simp
qed (simp add: out64_def word_of_peek64 that)

lemma out32_read:
  assumes "view k m" "safe a 4"
  obtains k' where "out32 out a v k = (0, mem32 m a, k')" "view k' m"
proof (rule out_peek [OF assms(1), of a "le_bytes 4 v"])
  show "safe a (length (le_bytes 4 v))" using assms by simp
qed (simp add: out32_def word_of_peek32 that)

end

section \<open>A flat kernel\<close>

text \<open>A kernel whose memory is the state, for concrete examples.\<close>

definition flat_out :: "(u64 \<Rightarrow> byte) copyout" where
  "flat_out a buf m = (0, peek m a (length buf), m)"

definition flat_in :: "(u64 \<Rightarrow> byte) copyin" where
  "flat_in bs a m = (0, poke m a bs)"

interpretation flat_kernel: reliable_kernel flat_out flat_in "\<lambda>k m. k = m" "\<lambda>_ _. True"
  by unfold_locales (auto simp: flat_out_def flat_in_def)

end
