(* ===== verification/KernRw.thy ===== *)
theory KernRw
  imports Kernel
begin

text \<open>
  The kernel read/write primitive, \<^verbatim>\<open>debugger/source/kern_rw_fast.c\<close>. Two overlapping sockets
  give a write of 20 bytes anywhere in kernel memory; the code uses it to forge the header of a
  pipe's buffer (fill count, read and write position, capacity, base address) and then lets
  \<^verbatim>\<open>read\<close> or \<^verbatim>\<open>write\<close> on the pipe copy the data. The system calls are parameters of the model.
  The theory shows that the sequence implements the contract of \<open>kernel_memory\<close>. The mutex
  around the sequence makes it atomic; the model runs it in one step.
\<close>

record 'o kern_os =
  sys_setsockopt :: "int \<Rightarrow> byte list \<Rightarrow> 'o \<Rightarrow> int \<times> 'o"
  sys_read :: "int \<Rightarrow> byte list \<Rightarrow> 'o \<Rightarrow> byte list \<times> 'o"
  sys_write :: "int \<Rightarrow> byte list \<Rightarrow> 'o \<Rightarrow> 'o"

record payload_args =
  rwpair :: "(int \<times> int) option"
  rwpipe :: "(int \<times> int) option"
  kpipe_addr :: u64

record 'o krw =
  kos :: 'o
  kr_rwpair_0 :: int
  kr_rwpair_1 :: int
  kr_rwpipe_0 :: int
  kr_rwpipe_1 :: int
  kr_kpipe_addr :: u64
  kr_initialized :: bool

section \<open>Operations\<close>

definition kr_write_setup_const :: "u64 list" where
  "kr_write_setup_const = [0, 0x4000000000000000]"

definition kr_read_setup_const :: "u64 list" where
  "kr_read_setup_const = [0x4000000040000000, 0x4000000000000000]"

definition kr_lazy_init :: "payload_args option \<Rightarrow> 'o krw \<Rightarrow> int \<times> 'o krw" where
  "kr_lazy_init args s = (case args of
       None \<Rightarrow> (-1, s)
     | Some a \<Rightarrow>
       (case (rwpair a, rwpipe a) of
          (Some (p0, p1), Some (q0, q1)) \<Rightarrow>
            if kpipe_addr a = 0 then (-1, s)
            else (0, s\<lparr>kr_rwpair_0 := p0, kr_rwpair_1 := p1, kr_rwpipe_0 := q0, kr_rwpipe_1 := q1,
                       kr_kpipe_addr := kpipe_addr a, kr_initialized := True\<rparr>)
        | _ \<Rightarrow> (-1, s)))"

definition kr_setsockopt :: "'o kern_os \<Rightarrow> int \<Rightarrow> u64 \<times> u64 \<times> u64 \<Rightarrow> 'o krw \<Rightarrow> int \<times> 'o krw" where
  \<comment> \<open>\<^verbatim>\<open>__crt_syscall(0x69, fd, 0x29, 0x2e, f, 0x14)\<close>: the first 20 of the 24 bytes at \<open>f\<close>\<close>
  "kr_setsockopt K fd f s = (case f of (f0, f1, f2) \<Rightarrow>
     let (rc, w) = sys_setsockopt K fd (take 0x14 (le_bytes 8 f0 @ le_bytes 8 f1 @ le_bytes 8 f2)) (kos s)
     in (rc, s\<lparr>kos := w\<rparr>))"

definition kr_forge :: "'o kern_os \<Rightarrow> u64 list \<Rightarrow> u64 \<Rightarrow> 'o krw \<Rightarrow> int \<times> 'o krw" where
  \<comment> \<open>the four calls that both directions share\<close>
  "kr_forge K setup kaddr s =
     (let kp = kr_kpipe_addr s;
          (rc, s) = kr_setsockopt K (kr_rwpair_0 s) (kp, 0, 0) s in
      if rc \<noteq> 0 then (-1, s) else
      let (rc, s) = kr_setsockopt K (kr_rwpair_1 s) (setup ! 0, setup ! 1, 0) s in
      if rc \<noteq> 0 then (-1, s) else
      let (rc, s) = kr_setsockopt K (kr_rwpair_0 s) (kp + 0x10, 0, 0) s in
      if rc \<noteq> 0 then (-1, s) else
      let (rc, s) = kr_setsockopt K (kr_rwpair_1 s) (kaddr, 0, 0) s in
      if rc \<noteq> 0 then (-1, s) else (0, s))"

definition kernel_copyin_fast_inner :: "'o kern_os \<Rightarrow> byte list \<Rightarrow> u64 \<Rightarrow> 'o krw \<Rightarrow> int \<times> 'o krw" where
  "kernel_copyin_fast_inner K udata kaddr s =
     (let (rc, s) = kr_forge K kr_write_setup_const kaddr s in
      if rc \<noteq> 0 then (-1, s) else (0, s\<lparr>kos := sys_write K (kr_rwpipe_1 s) udata (kos s)\<rparr>))"

definition kernel_copyin_fast :: "'o kern_os \<Rightarrow> payload_args option \<Rightarrow> 'o krw copyin" where
  "kernel_copyin_fast K args udata kaddr s =
     (let (rc, s) = (if kr_initialized s then (0, s) else kr_lazy_init args s) in
      if rc \<noteq> 0 then (-1, s) else kernel_copyin_fast_inner K udata kaddr s)"

definition kernel_copyout_fast_inner :: "'o kern_os \<Rightarrow> u64 \<Rightarrow> byte list \<Rightarrow> 'o krw \<Rightarrow> int \<times> byte list \<times> 'o krw" where
  "kernel_copyout_fast_inner K kaddr ubuf s =
     (let (rc, s) = kr_forge K kr_read_setup_const kaddr s in
      if rc \<noteq> 0 then (-1, ubuf, s)
      else let (ubuf, w) = sys_read K (kr_rwpipe_0 s) ubuf (kos s) in (0, ubuf, s\<lparr>kos := w\<rparr>))"

definition kernel_copyout_fast :: "'o kern_os \<Rightarrow> payload_args option \<Rightarrow> 'o krw copyout" where
  "kernel_copyout_fast K args kaddr ubuf s =
     (let (rc, s) = (if kr_initialized s then (0, s) else kr_lazy_init args s) in
      if rc \<noteq> 0 then (-1, ubuf, s) else kernel_copyout_fast_inner K kaddr ubuf s)"

section \<open>What the kernel provides\<close>

text \<open>
  \<open>mem\<close> is kernel memory and \<open>victim\<close> the address the second socket of the pair writes to. An
  option set on the first socket moves \<open>victim\<close>; one set on the second stores the data there.
  A pipe whose header at \<open>kp\<close> says that \<open>cnt\<close> bytes are buffered copies from its base address;
  one with room copies to it. Both may update the header.
\<close>

record pipebuf =
  pb_cnt :: u32
  pb_in :: u32
  pb_out :: u32
  pb_size :: u32
  pb_buffer :: u64

definition pipe_header :: "(u64 \<Rightarrow> byte) \<Rightarrow> u64 \<Rightarrow> pipebuf" where
  "pipe_header m kp = \<lparr>pb_cnt = mem32 m kp, pb_in = mem32 m (kp + 4), pb_out = mem32 m (kp + 8),
     pb_size = mem32 m (kp + 12), pb_buffer = mem64 m (kp + 16)\<rparr>"

definition same_but :: "u64 \<Rightarrow> nat \<Rightarrow> (u64 \<Rightarrow> byte) \<Rightarrow> (u64 \<Rightarrow> byte) \<Rightarrow> bool" where
  "same_but a n m m' \<longleftrightarrow> (\<forall>x. n \<le> unat (x - a) \<longrightarrow> m' x = m x)"

locale pipe_primitive =
  fixes K :: "'o kern_os" and args :: "payload_args option"
    and mem :: "'o \<Rightarrow> u64 \<Rightarrow> byte" and victim :: "'o \<Rightarrow> u64"
    and p0 p1 q0 q1 :: int and kp :: u64
  assumes args: "args = Some \<lparr>rwpair = Some (p0, p1), rwpipe = Some (q0, q1), kpipe_addr = kp\<rparr>" "kp \<noteq> 0"
    and master: "length d = 20 \<Longrightarrow> sys_setsockopt K p0 d w = (0, w') \<Longrightarrow> victim w' = word_of (take 8 d)"
    and master_mem: "sys_setsockopt K p0 d w = (rc, w') \<Longrightarrow> mem w' = mem w"
    and slave: "length d = 20 \<Longrightarrow> sys_setsockopt K p1 d w = (0, w') \<Longrightarrow> mem w' = poke (mem w) (victim w) d \<and> victim w' = victim w"
    and slave_fail: "sys_setsockopt K p1 d w = (rc, w') \<Longrightarrow> rc \<noteq> 0 \<Longrightarrow> mem w' = mem w"
    and pipe_read: "pipe_header (mem w) kp = h \<Longrightarrow> length buf \<le> unat (pb_cnt h) \<Longrightarrow>
      unat (pb_out h) + length buf \<le> unat (pb_size h) \<Longrightarrow> sys_read K q0 buf w = (bs, w') \<Longrightarrow>
      bs = peek (mem w) (pb_buffer h + ucast (pb_out h)) (length buf)"
    and pipe_read_mem: "sys_read K q0 buf w = (bs, w') \<Longrightarrow> same_but kp 24 (mem w) (mem w')"
    and pipe_write: "pipe_header (mem w) kp = h \<Longrightarrow> pb_cnt h = 0 \<Longrightarrow> unat (pb_in h) + length bs \<le> unat (pb_size h) \<Longrightarrow>
      same_but kp 24 (poke (mem w) (pb_buffer h + ucast (pb_in h)) bs) (mem (sys_write K q1 bs w))"

definition initialised :: "int \<Rightarrow> int \<Rightarrow> int \<Rightarrow> int \<Rightarrow> u64 \<Rightarrow> 'o krw \<Rightarrow> bool" where
  \<comment> \<open>the descriptors are cached or will be read from the payload's arguments\<close>
  "initialised p0 p1 q0 q1 kp s \<longleftrightarrow> kr_initialized s \<longrightarrow>
     kr_rwpair_0 s = p0 \<and> kr_rwpair_1 s = p1 \<and> kr_rwpipe_0 s = q0 \<and> kr_rwpipe_1 s = q1 \<and> kr_kpipe_addr s = kp"

definition outside :: "u64 \<Rightarrow> u64 \<Rightarrow> nat \<Rightarrow> bool" where
  \<comment> \<open>a range of at most 1 GiB that does not touch the forged header\<close>
  "outside kp a n \<longleftrightarrow> n \<le> 0x40000000 \<and> (\<forall>i<n. 36 \<le> unat (a + of_nat i - kp))"

definition visible :: "('o \<Rightarrow> u64 \<Rightarrow> byte) \<Rightarrow> u64 \<Rightarrow> 'o krw \<Rightarrow> u64 \<Rightarrow> byte" where
  \<comment> \<open>kernel memory without the header\<close>
  "visible mem kp s x = (if unat (x - kp) < 36 then 0 else mem (kos s) x)"

section \<open>The forged header\<close>

lemma take_frame [simp]: "take 4 (le_bytes 8 (0 :: u64)) = replicate 4 0"
  by (simp add: le_bytes_def upt_rec numeral_nat)

lemma window_poke_at:
  assumes "j \<le> i" "i < 2 ^ 64"
  shows "window (poke m (a + of_nat j) bs) a i = (if i - j < length bs then bs ! (i - j) else window m a i)"
proof -
  have "a + of_nat i - (a + of_nat j) = (of_nat (i - j) :: u64)" using assms(1) by (simp add: of_nat_diff)
  moreover have "unat (of_nat (i - j) :: u64) = i - j" by (rule unat_of_nat64) (use assms in simp)
  ultimately show ?thesis by (simp only: window_apply poke_def)
qed

lemma window_poke_below:
  assumes "i < j" "length bs + j \<le> 2 ^ 64"
  shows "window (poke m (a + of_nat j) bs) a i = window m a i"
proof -
  have "(of_nat (2 ^ 64 - (j - i)) :: u64) = of_nat (2 ^ 64) - of_nat (j - i)"
    using assms by (intro of_nat_diff) simp
  then have "a + of_nat i - (a + of_nat j) = (of_nat (2 ^ 64 - (j - i)) :: u64)"
    using assms(1) by (simp add: of_nat_diff)
  moreover have "unat (of_nat (2 ^ 64 - (j - i)) :: u64) = 2 ^ 64 - (j - i)"
    by (rule unat_of_nat64) (use assms in simp)
  moreover have "\<not> 2 ^ 64 - (j - i) < length bs" using assms by linarith
  ultimately show ?thesis by (simp only: window_apply poke_def if_False)
qed

text \<open>The header after the two stores: the setup words and the address to copy from or to.\<close>

lemma forged_header:
  assumes "M = poke (poke m kp (le_bytes 8 c0 @ le_bytes 8 c1 @ replicate 4 0)) (kp + 0x10)
             (le_bytes 8 kaddr @ le_bytes 8 0 @ replicate 4 0)"
  shows "pipe_header M kp = \<lparr>pb_cnt = ucast c0, pb_in = ucast (drop_bit 32 c0), pb_out = ucast c1,
    pb_size = ucast (drop_bit 32 c1), pb_buffer = kaddr\<rparr>"
proof -
  have kp: "kp + 0x10 = kp + of_nat 16" "kp = kp + of_nat 0" by simp_all
  have lo: "window M kp i = (if i < 8 then le_bytes 8 c0 ! i else le_bytes 8 c1 ! (i - 8))" if "i < 16" for i
    using that window_poke_at [of 0 i m kp] window_poke_below [of i 16] less_diff_conv2 [of 8 i 8]
    by (cases "i < 8") (simp_all add: assms kp(1) nth_append del: nth_le_bytes of_nat_numeral)
  have hi: "window M kp (16 + i) = le_bytes 8 kaddr ! i" if "i < 8" for i
    using that window_poke_at [of 16 "16 + i"]
    by (simp add: assms kp(1) nth_append del: nth_le_bytes of_nat_numeral)
  have w: "window M (kp + numeral n) i = window M kp (numeral n + i)" for n i
    by (simp add: window_apply add.assoc)
  have "mem64 M (kp + 16) = kaddr"
    unfolding mem64_def by (rule le_load_le_bytes) (simp_all add: w hi del: nth_le_bytes)
  moreover have "mem32 M kp = ucast c0"
    unfolding mem32_def by (rule le_load_le_bytes) (auto simp: lo intro!: bit_word_eqI simp: bit_simps)
  moreover have "mem32 M (kp + 4) = ucast (drop_bit 32 c0)"
    unfolding mem32_def by (rule le_load_le_bytes) (auto simp: w lo intro!: bit_word_eqI simp: bit_simps ac_simps)
  moreover have "mem32 M (kp + 8) = ucast c1"
    unfolding mem32_def by (rule le_load_le_bytes) (auto simp: w lo intro!: bit_word_eqI simp: bit_simps)
  moreover have "mem32 M (kp + 12) = ucast (drop_bit 32 c1)"
    unfolding mem32_def by (rule le_load_le_bytes) (auto simp: w lo intro!: bit_word_eqI simp: bit_simps ac_simps)
  ultimately show ?thesis by (simp add: pipe_header_def)
qed

section \<open>The sequence implements the contract\<close>

lemma visible_cong: "same_but kp 36 (mem (kos s)) (mem (kos s')) \<Longrightarrow> visible mem kp s' = visible mem kp s"
  by (auto simp: visible_def same_but_def fun_eq_iff)

lemma same_but_mono: "same_but a n m m' \<Longrightarrow> n \<le> n' \<Longrightarrow> same_but a n' m m'"
  by (auto simp: same_but_def)

lemma same_but_trans: "same_but a n m m' \<Longrightarrow> same_but a n m' m'' \<Longrightarrow> same_but a n m m''"
  by (auto simp: same_but_def)

lemma same_but_poke: "j + length bs \<le> n \<Longrightarrow> n < 2 ^ 64 \<Longrightarrow> same_but a n m (poke m (a + of_nat j) bs)"
proof (unfold same_but_def, intro allI impI)
  fix x assume h: "j + length bs \<le> n" "n < 2 ^ 64" "n \<le> unat (x - a)"
  let ?i = "unat (x - a)"
  have "\<not> ?i - j < length bs" "j \<le> ?i" using h by linarith+
  then have "window (poke m (a + of_nat j) bs) a ?i = window m a ?i"
    using window_poke_at [of j ?i m a bs] unsigned_less [of "x - a", where ?'a = nat] by simp
  then show "poke m (a + of_nat j) bs x = m x" by (simp add: window_apply)
qed

lemma peek_same_but:
  assumes "outside kp a n" "same_but kp 36 m m'"
  shows "peek m' a n = peek m a n"
  using assms by (intro nth_equalityI) (simp_all add: outside_def same_but_def)

lemma peek_visible: "outside kp a n \<Longrightarrow> peek (visible mem kp s) a n = peek (mem (kos s)) a n"
  by (rule nth_equalityI) (auto simp: outside_def visible_def)

context pipe_primitive
begin

abbreviation ok_state :: "'a krw \<Rightarrow> bool" where
  "ok_state s \<equiv> initialised p0 p1 q0 q1 kp s \<and> kr_initialized s"

lemma master_call:
  assumes "ok_state s" "kr_setsockopt K (kr_rwpair_0 s) (f, 0, 0) s = (rc, s')"
  shows "ok_state s'" "mem (kos s') = mem (kos s)" "rc = 0 \<Longrightarrow> victim (kos s') = f"
proof -
  let ?d = "le_bytes 8 f @ le_bytes 8 (0 :: u64) @ replicate 4 0"
  obtain w where w: "sys_setsockopt K p0 ?d (kos s) = (rc, w)" "s' = s\<lparr>kos := w\<rparr>"
    using assms by (auto simp: kr_setsockopt_def initialised_def split: prod.splits)
  show "ok_state s'" using assms(1) by (simp add: w(2) initialised_def)
  show "mem (kos s') = mem (kos s)" using master_mem [OF w(1)] by (simp add: w(2))
  show "victim (kos s') = f" if "rc = 0"
    using master [of ?d "kos s" w] w that word_of_le_bytes [of 8 f] by (simp add: w(2))
qed

lemma slave_call:
  assumes "ok_state s" "kr_setsockopt K (kr_rwpair_1 s) (f0, f1, 0) s = (rc, s')"
  shows "ok_state s'" "rc \<noteq> 0 \<Longrightarrow> mem (kos s') = mem (kos s)"
    "rc = 0 \<Longrightarrow> mem (kos s') = poke (mem (kos s)) (victim (kos s)) (le_bytes 8 f0 @ le_bytes 8 f1 @ replicate 4 0)"
proof -
  let ?d = "le_bytes 8 f0 @ le_bytes 8 f1 @ replicate 4 0"
  obtain w where w: "sys_setsockopt K p1 ?d (kos s) = (rc, w)" "s' = s\<lparr>kos := w\<rparr>"
    using assms by (auto simp: kr_setsockopt_def initialised_def split: prod.splits)
  show "ok_state s'" using assms(1) by (simp add: w(2) initialised_def)
  show "mem (kos s') = mem (kos s)" if "rc \<noteq> 0" using slave_fail [OF w(1) that] by (simp add: w(2))
  show "mem (kos s') = poke (mem (kos s)) (victim (kos s)) ?d" if "rc = 0"
    using slave [of ?d "kos s" w] w that by (simp add: w(2))
qed

lemma kr_forge_spec:
  assumes ok: "ok_state s" and run: "kr_forge K setup kaddr s = (rc, s')"
  shows "ok_state s'" "same_but kp 36 (mem (kos s)) (mem (kos s'))"
    "rc = 0 \<Longrightarrow> pipe_header (mem (kos s')) kp = \<lparr>pb_cnt = ucast (setup ! 0), pb_in = ucast (drop_bit 32 (setup ! 0)),
        pb_out = ucast (setup ! 1), pb_size = ucast (drop_bit 32 (setup ! 1)), pb_buffer = kaddr\<rparr>"
proof -
  let ?D1 = "le_bytes 8 (setup ! 0) @ le_bytes 8 (setup ! 1) @ replicate 4 0"
  let ?D2 = "le_bytes 8 kaddr @ le_bytes 8 (0 :: u64) @ replicate 4 0"
  have kp: "kr_kpipe_addr s = kp" using ok by (simp add: initialised_def)
  have b1: "same_but kp 36 m (poke m kp ?D1)" for m using same_but_poke [of 0 ?D1 36 kp m] by simp
  have b2: "same_but kp 36 m (poke m (kp + 0x10) ?D2)" for m using same_but_poke [of 16 ?D2 36 kp m] by simp
  have refl: "same_but kp 36 m m" for m by (simp add: same_but_def)
  obtain r1 s1 where 1: "kr_setsockopt K (kr_rwpair_0 s) (kp, 0, 0) s = (r1, s1)" by fastforce
  note m1 = master_call [OF ok 1]
  obtain r2 s2 where 2: "kr_setsockopt K (kr_rwpair_1 s1) (setup ! 0, setup ! 1, 0) s1 = (r2, s2)" by fastforce
  note m2 = slave_call [OF m1(1) 2]
  obtain r3 s3 where 3: "kr_setsockopt K (kr_rwpair_0 s2) (kp + 0x10, 0, 0) s2 = (r3, s3)" by fastforce
  note m3 = master_call [OF m2(1) 3]
  obtain r4 s4 where 4: "kr_setsockopt K (kr_rwpair_1 s3) (kaddr, 0, 0) s3 = (r4, s4)" by fastforce
  note m4 = slave_call [OF m3(1) 4]
  have c: "(rc, s') = (if r1 \<noteq> 0 then (-1, s1) else if r2 \<noteq> 0 then (-1, s2) else if r3 \<noteq> 0 then (-1, s3)
      else if r4 \<noteq> 0 then (-1, s4) else (0, s4))"
    using run unfolding kr_forge_def Let_def kp 1 2 3 4 prod.case by (simp only:)
  then show "ok_state s'" using m1(1) m2(1) m3(1) m4(1) by (auto split: if_splits)
  have e2: "same_but kp 36 (mem (kos s)) (mem (kos s2))" if "r1 = 0"
    using m1(2) m1(3) [OF that] m2(2,3) b1 refl by (cases "r2 = 0") simp_all
  have e4: "same_but kp 36 (mem (kos s)) (mem (kos s4))" if "r1 = 0" "r3 = 0"
    using e2 [OF that(1)] same_but_trans [OF e2 [OF that(1)] b2] m3(2) m3(3) [OF that(2)] m4(2,3)
    by (cases "r4 = 0") simp_all
  show "same_but kp 36 (mem (kos s)) (mem (kos s'))"
    using c m1(2) m3(2) refl e2 e4 by (auto split: if_splits)
  assume "rc = 0"
  then have z: "r1 = 0" "r2 = 0" "r3 = 0" "r4 = 0" "s' = s4" using c by (auto split: if_splits)
  then have "mem (kos s') = poke (poke (mem (kos s)) kp ?D1) (kp + 0x10) ?D2"
    using m1 m2 m3 m4 by simp
  from forged_header [OF this] show "pipe_header (mem (kos s')) kp = \<lparr>pb_cnt = ucast (setup ! 0), pb_in = ucast (drop_bit 32 (setup ! 0)),
        pb_out = ucast (setup ! 1), pb_size = ucast (drop_bit 32 (setup ! 1)), pb_buffer = kaddr\<rparr>" .
qed

lemma lazy_init_ok:
  assumes "initialised p0 p1 q0 q1 kp s" "(if kr_initialized s then (0, s) else kr_lazy_init args s) = (rc, s')"
  shows "rc = 0" "ok_state s'" "kos s' = kos s"
  using assms args(2) by (auto simp: kr_lazy_init_def args(1) initialised_def split: if_splits)

lemma copyout_spec:
  assumes "initialised p0 p1 q0 q1 kp s" "kernel_copyout_fast K args a buf s = (rc, bs, s')"
  shows "initialised p0 p1 q0 q1 kp s'" "visible mem kp s' = visible mem kp s"
    "rc = 0 \<Longrightarrow> outside kp a (length buf) \<Longrightarrow> bs = peek (visible mem kp s) a (length buf)"
proof -
  obtain r0 s0 where 0: "(if kr_initialized s then (0, s) else kr_lazy_init args s) = (r0, s0)" by fastforce
  note i = lazy_init_ok [OF assms(1) 0]
  obtain r1 s1 where 1: "kr_forge K kr_read_setup_const a s0 = (r1, s1)" by fastforce
  note f = kr_forge_spec [OF i(2) 1]
  obtain u w where 2: "sys_read K (kr_rwpipe_0 s1) buf (kos s1) = (u, w)" by fastforce
  have c: "(rc, bs, s') = (if r1 \<noteq> 0 then (-1, buf, s1) else (0, u, s1\<lparr>kos := w\<rparr>))"
    using assms(2) i(1) unfolding kernel_copyout_fast_def kernel_copyout_fast_inner_def Let_def 0 1 2 prod.case
    by simp
  show "initialised p0 p1 q0 q1 kp s'" using c f(1) by (auto simp: initialised_def split: if_splits)
  have q: "kr_rwpipe_0 s1 = q0" using f(1) by (simp add: initialised_def)
  have rd: "r1 = 0 \<Longrightarrow> length buf \<le> 0x40000000 \<Longrightarrow> u = peek (mem (kos s1)) a (length buf)"
    using pipe_read [OF f(3) _ _ 2 [unfolded q]] by (simp add: kr_read_setup_const_def)
  have "same_but kp 36 (mem (kos s1)) (mem w)"
    using same_but_mono [OF pipe_read_mem [OF 2 [unfolded q]], of 36] by simp
  then have "same_but kp 36 (mem (kos s)) (mem (kos s'))"
    using c f(2) i(3) same_but_trans by (fastforce split: if_splits)
  then show "visible mem kp s' = visible mem kp s" by (rule visible_cong)
  show "bs = peek (visible mem kp s) a (length buf)" if "rc = 0" "outside kp a (length buf)"
    using c that rd f(2) i(3) peek_same_but [of kp a "length buf" "mem (kos s)" "mem (kos s1)"]
    by (auto simp: peek_visible outside_def split: if_splits)
qed

lemma copyin_spec:
  assumes "initialised p0 p1 q0 q1 kp s" "kernel_copyin_fast K args bs a s = (rc, s')"
  shows "initialised p0 p1 q0 q1 kp s'" "rc \<noteq> 0 \<Longrightarrow> visible mem kp s' = visible mem kp s"
    "rc = 0 \<Longrightarrow> outside kp a (length bs) \<Longrightarrow> visible mem kp s' = poke (visible mem kp s) a bs"
proof -
  obtain r0 s0 where 0: "(if kr_initialized s then (0, s) else kr_lazy_init args s) = (r0, s0)" by fastforce
  note i = lazy_init_ok [OF assms(1) 0]
  obtain r1 s1 where 1: "kr_forge K kr_write_setup_const a s0 = (r1, s1)" by fastforce
  note f = kr_forge_spec [OF i(2) 1]
  have c: "(rc, s') = (if r1 \<noteq> 0 then (-1, s1) else (0, s1\<lparr>kos := sys_write K (kr_rwpipe_1 s1) bs (kos s1)\<rparr>))"
    using assms(2) i(1) unfolding kernel_copyin_fast_def kernel_copyin_fast_inner_def Let_def 0 1 prod.case
    by simp
  show "initialised p0 p1 q0 q1 kp s'" using c f(1) by (auto simp: initialised_def split: if_splits)
  show "visible mem kp s' = visible mem kp s" if "rc \<noteq> 0"
    using c that f(2) i(3) visible_cong [of kp mem s s'] by (auto split: if_splits)
  assume h: "rc = 0" "outside kp a (length bs)"
  then have r1: "r1 = 0" and s': "s' = s1\<lparr>kos := sys_write K q1 bs (kos s1)\<rparr>"
    using c f(1) by (auto simp: initialised_def split: if_splits)
  have w: "same_but kp 24 (poke (mem (kos s1)) a bs) (mem (kos s'))"
    using pipe_write [OF f(3) [OF r1], of bs] h(2) by (simp add: s' kr_write_setup_const_def outside_def)
  show "visible mem kp s' = poke (visible mem kp s) a bs"
  proof
    fix x
    show "visible mem kp s' x = poke (visible mem kp s) a bs x"
    proof (cases "unat (x - kp) < 36")
      case True
      have "\<not> unat (x - a) < length bs"
      proof
        assume "unat (x - a) < length bs"
        then have "36 \<le> unat (a + of_nat (unat (x - a)) - kp)" using h(2) by (simp only: outside_def)
        with True show False by simp
      qed
      with True show ?thesis by (simp add: visible_def poke_def)
    next
      case False
      then have "mem (kos s') x = poke (mem (kos s1)) a bs x" "mem (kos s1) x = mem (kos s) x"
        using w f(2) i(3) by (auto simp: same_but_def)
      with False show ?thesis by (simp add: visible_def poke_def)
    qed
  qed
qed

end

definition krw_view :: "('o \<Rightarrow> u64 \<Rightarrow> byte) \<Rightarrow> int \<Rightarrow> int \<Rightarrow> int \<Rightarrow> int \<Rightarrow> u64 \<Rightarrow> 'o krw \<Rightarrow> (u64 \<Rightarrow> byte) \<Rightarrow> bool" where
  "krw_view mem p0 p1 q0 q1 kp s m \<longleftrightarrow> initialised p0 p1 q0 q1 kp s \<and> m = visible mem kp s"

sublocale pipe_primitive \<subseteq> kernel_memory "kernel_copyout_fast K args" "kernel_copyin_fast K args"
    "krw_view mem p0 p1 q0 q1 kp" "outside kp"
proof
  fix k m a buf rc bs k'
  assume v: "krw_view mem p0 p1 q0 q1 kp k m" and r: "kernel_copyout_fast K args a buf k = (rc, bs, k')"
  then show "krw_view mem p0 p1 q0 q1 kp k' m"
    using copyout_spec(1,2) [OF _ r] by (simp add: krw_view_def)
next
  fix k m a buf bs k'
  assume "krw_view mem p0 p1 q0 q1 kp k m" "kernel_copyout_fast K args a buf k = (0, bs, k')" "outside kp a (length buf)"
  then show "bs = peek m a (length buf)" using copyout_spec(3) by (simp add: krw_view_def)
next
  fix k m bs a k'
  assume v: "krw_view mem p0 p1 q0 q1 kp k m" and r: "kernel_copyin_fast K args bs a k = (0, k')" and "outside kp a (length bs)"
  then show "krw_view mem p0 p1 q0 q1 kp k' (poke m a bs)"
    using copyin_spec(1,3) [OF _ r] by (simp add: krw_view_def)
next
  fix k m bs a rc k'
  assume v: "krw_view mem p0 p1 q0 q1 kp k m" and r: "kernel_copyin_fast K args bs a k = (rc, k')" and "rc \<noteq> 0"
  then show "krw_view mem p0 p1 q0 q1 kp k' m"
    using copyin_spec(1,2) [OF _ r] by (simp add: krw_view_def)
next
  fix n :: nat and a :: u64
  assume "n \<le> 0x40000000" "\<And>i. i < n \<Longrightarrow> outside kp (a + of_nat i) 1"
  then show "outside kp a n" by (simp add: outside_def)
qed

section \<open>A machine with a pipe\<close>

record pipe_machine =
  pm_mem :: "u64 \<Rightarrow> byte"
  pm_victim :: u64

definition pm_setsockopt :: "int \<Rightarrow> byte list \<Rightarrow> pipe_machine \<Rightarrow> int \<times> pipe_machine" where
  "pm_setsockopt fd d w =
     (if fd = 4 then (0, w\<lparr>pm_victim := word_of (take 8 d)\<rparr>)
      else if fd = 5 then (0, w\<lparr>pm_mem := poke (pm_mem w) (pm_victim w) d\<rparr>) else (-1, w))"

definition pm_read :: "u64 \<Rightarrow> int \<Rightarrow> byte list \<Rightarrow> pipe_machine \<Rightarrow> byte list \<times> pipe_machine" where
  "pm_read kp fd buf w = (let h = pipe_header (pm_mem w) kp in
     if length buf \<le> unat (pb_cnt h) then (peek (pm_mem w) (pb_buffer h + ucast (pb_out h)) (length buf), w) else (buf, w))"

definition pm_write :: "u64 \<Rightarrow> int \<Rightarrow> byte list \<Rightarrow> pipe_machine \<Rightarrow> pipe_machine" where
  "pm_write kp fd bs w = (let h = pipe_header (pm_mem w) kp in
     if pb_cnt h = 0 then w\<lparr>pm_mem := poke (pm_mem w) (pb_buffer h + ucast (pb_in h)) bs\<rparr> else w)"

definition pm_os :: "u64 \<Rightarrow> pipe_machine kern_os" where
  "pm_os kp = \<lparr>sys_setsockopt = pm_setsockopt, sys_read = pm_read kp, sys_write = pm_write kp\<rparr>"

definition pm_args :: "payload_args option" where
  "pm_args = Some \<lparr>rwpair = Some (4, 5), rwpipe = Some (6, 7), kpipe_addr = 0x8000\<rparr>"

definition pm_start :: "(u64 \<Rightarrow> byte) \<Rightarrow> pipe_machine krw" where
  "pm_start m = \<lparr>kos = \<lparr>pm_mem = m, pm_victim = 0\<rparr>, kr_rwpair_0 = 0, kr_rwpair_1 = 0, kr_rwpipe_0 = 0, kr_rwpipe_1 = 0,
     kr_kpipe_addr = 0, kr_initialized = False\<rparr>"

interpretation pm: pipe_primitive "pm_os 0x8000" pm_args pm_mem pm_victim 4 5 6 7 "0x8000"
  by unfold_locales
    (auto simp: pm_os_def pm_args_def pm_setsockopt_def pm_read_def pm_write_def Let_def same_but_def
      split: if_splits)

text \<open>
  C24: reading kernel memory through the forged pipe. Whatever the buffer held, a call that
  reports success on a range of at most 1 GiB away from the pipe's header returns the bytes of
  kernel memory at the address, and leaves all of kernel memory but the header as it was,
  also when one of the system calls fails half way.
\<close>

theorem kernel_copyout_fast_correct:
  assumes "pipe_primitive K args mem victim p0 p1 q0 q1 kp" "initialised p0 p1 q0 q1 kp s"
    and "kernel_copyout_fast K args a buf s = (rc, bs, s')"
  shows "visible mem kp s' = visible mem kp s \<and> initialised p0 p1 q0 q1 kp s'
    \<and> (rc = 0 \<and> outside kp a (length buf) \<longrightarrow> bs = peek (visible mem kp s) a (length buf))"
  using pipe_primitive.copyout_spec [OF assms] by simp

theorem kernel_copyout_fast_correct_witness:
  "\<exists>s'. kernel_copyout_fast (pm_os 0x8000) pm_args 0x1000 [0, 0] (pm_start (\<lambda>x. ucast x)) = (0, [0, 1], s')"
proof -
  let ?s = "pm_start (\<lambda>x. ucast x)"
  obtain rc bs s' where r: "kernel_copyout_fast (pm_os 0x8000) pm_args 0x1000 [0, 0] ?s = (rc, bs, s')" by (metis prod_cases3)
  have i: "initialised 4 5 6 7 0x8000 ?s" by (simp add: initialised_def pm_start_def)
  have "outside 0x8000 0x1000 2" by (auto simp: outside_def less_2_cases_iff)
  then have "rc = 0 \<longrightarrow> bs = peek (visible pm_mem 0x8000 ?s) 0x1000 2"
    using kernel_copyout_fast_correct [OF pm.pipe_primitive_axioms i r] by (simp add: numeral_2_eq_2)
  moreover have "rc = 0"
    using r by (auto simp: kernel_copyout_fast_def kernel_copyout_fast_inner_def kr_lazy_init_def pm_args_def pm_start_def
        kr_forge_def kr_setsockopt_def pm_os_def pm_setsockopt_def Let_def split: prod.splits)
  moreover have "peek (visible pm_mem 0x8000 ?s) 0x1000 2 = [0, 1]"
    by (simp add: peek_def bytes_at_def window_apply visible_def pm_start_def upt_rec)
  ultimately show ?thesis using r by simp
qed

text \<open>
  Writing kernel memory through the forged pipe. A call that reports success on a range of at
  most 1 GiB away from the header stores exactly the given bytes at the address; a call that
  fails leaves kernel memory outside the header unchanged.
\<close>

theorem kernel_copyin_fast_correct:
  assumes "pipe_primitive K args mem victim p0 p1 q0 q1 kp" "initialised p0 p1 q0 q1 kp s"
    and "kernel_copyin_fast K args bs a s = (rc, s')" "outside kp a (length bs)"
  shows "visible mem kp s' = (if rc = 0 then poke (visible mem kp s) a bs else visible mem kp s)
    \<and> initialised p0 p1 q0 q1 kp s'"
  using pipe_primitive.copyin_spec [OF assms(1-3)] assms(4) by simp

theorem kernel_copyin_fast_correct_witness:
  "visible pm_mem 0x8000 (snd (kernel_copyin_fast (pm_os 0x8000) pm_args [9] 0x1000 (pm_start (\<lambda>_. 0)))) 0x1000 = 9"
proof -
  let ?s = "pm_start (\<lambda>_. 0)"
  obtain rc s' where r: "kernel_copyin_fast (pm_os 0x8000) pm_args [9] 0x1000 ?s = (rc, s')" by fastforce
  have i: "initialised 4 5 6 7 0x8000 ?s" by (simp add: initialised_def pm_start_def)
  have o: "outside 0x8000 0x1000 (length [9])" by (simp add: outside_def)
  have "rc = 0"
    using r by (auto simp: kernel_copyin_fast_def kernel_copyin_fast_inner_def kr_lazy_init_def pm_args_def pm_start_def
        kr_forge_def kr_setsockopt_def pm_os_def pm_setsockopt_def Let_def split: prod.splits)
  with kernel_copyin_fast_correct [OF pm.pipe_primitive_axioms i r o] r show ?thesis by (simp add: poke_def)
qed

end
