(* ===== verification/KernProc.thy ===== *)
theory KernProc
  imports Kernel
begin

text \<open>
  Finding and editing kernel objects of a process, the second half of
  \<^verbatim>\<open>debugger/source/kern_rw_fast.c\<close>: the walk over the kernel's list of processes with its
  eight-slot cache, the credentials, and the walk over the modules of a process. Lists in kernel
  memory may be circular, so every walk is an option: \<open>None\<close> where it does not end.
\<close>

record proc_slot =
  ps_pid :: u32
  ps_kproc :: u64

record 'k kstate =
  kern :: 'k
  kr_proc_cache :: "proc_slot list"
  kr_proc_cache_next :: nat

definition KR_PROC_CACHE_N :: nat where "KR_PROC_CACHE_N = 8"

definition empty_slot :: proc_slot where
  "empty_slot = \<lparr>ps_pid = 0, ps_kproc = 0\<rparr>"

text \<open>\<^verbatim>\<open>kernel_copyout_fast\<close> and \<^verbatim>\<open>kernel_copyin_fast\<close> on the state with the cache.\<close>

definition kout64 :: "'k copyout \<Rightarrow> u64 \<Rightarrow> u64 \<Rightarrow> ('k, 'z) kstate_scheme \<Rightarrow> int \<times> u64 \<times> ('k, 'z) kstate_scheme" where
  "kout64 out a v s = (let (rc, w, k) = out64 out a v (kern s) in (rc, w, s\<lparr>kern := k\<rparr>))"

definition kout32 :: "'k copyout \<Rightarrow> u64 \<Rightarrow> u32 \<Rightarrow> ('k, 'z) kstate_scheme \<Rightarrow> int \<times> u32 \<times> ('k, 'z) kstate_scheme" where
  "kout32 out a v s = (let (rc, w, k) = out32 out a v (kern s) in (rc, w, s\<lparr>kern := k\<rparr>))"

definition kout :: "'k copyout \<Rightarrow> u64 \<Rightarrow> byte list \<Rightarrow> ('k, 'z) kstate_scheme \<Rightarrow> int \<times> byte list \<times> ('k, 'z) kstate_scheme" where
  "kout out a buf s = (let (rc, bs, k) = out a buf (kern s) in (rc, bs, s\<lparr>kern := k\<rparr>))"

definition kin :: "'k copyin \<Rightarrow> byte list \<Rightarrow> u64 \<Rightarrow> ('k, 'z) kstate_scheme \<Rightarrow> int \<times> ('k, 'z) kstate_scheme" where
  "kin inn bs a s = (let (rc, k) = inn bs a (kern s) in (rc, s\<lparr>kern := k\<rparr>))"

section \<open>The process list and its cache\<close>

definition kern_proc_cache_flush :: "('k, 'z) kstate_scheme \<Rightarrow> ('k, 'z) kstate_scheme" where
  "kern_proc_cache_flush s = s\<lparr>kr_proc_cache := map (\<lambda>_. empty_slot) (kr_proc_cache s)\<rparr>"

definition kern_proc_cache_invalidate :: "u32 \<Rightarrow> ('k, 'z) kstate_scheme \<Rightarrow> ('k, 'z) kstate_scheme" where
  "kern_proc_cache_invalidate pid s =
     s\<lparr>kr_proc_cache := map (\<lambda>e. if ps_pid e = pid then empty_slot else e) (kr_proc_cache s)\<rparr>"

partial_function (option) walk_loop ::
    "'k copyout \<Rightarrow> u32 \<Rightarrow> u64 \<Rightarrow> u64 \<Rightarrow> u32 \<Rightarrow> ('k, 'z) kstate_scheme \<Rightarrow> (u64 \<times> ('k, 'z) kstate_scheme) option" where
  "walk_loop out pid cur next cur_pid s =
     (if cur = 0 then Some (0, s)
      else let (rc, cur_pid, s) = kout32 out (cur + 0xBC) cur_pid s in
        if rc \<noteq> 0 then Some (0, s)
        else if cur_pid = pid then Some (cur, s)
        else let (rc, next, s) = kout64 out cur next s in
          if rc \<noteq> 0 then Some (0, s) else walk_loop out pid next next cur_pid s)"

definition kr_walk_allproc :: "'k copyout \<Rightarrow> u64 \<Rightarrow> u32 \<Rightarrow> ('k, 'z) kstate_scheme \<Rightarrow> (u64 \<times> ('k, 'z) kstate_scheme) option" where
  "kr_walk_allproc out allproc pid s =
     (let (rc, cur, s) = kout64 out allproc 0 s
      in if rc \<noteq> 0 then Some (0, s) else walk_loop out pid cur 0 0 s)"

text \<open>The search of the cache: the slot found, if any, and the state after checking it.\<close>

definition cache_slot :: "u32 \<Rightarrow> proc_slot list \<Rightarrow> nat option" where
  "cache_slot pid c = List.find (\<lambda>i. ps_pid (c ! i) = pid \<and> ps_kproc (c ! i) \<noteq> 0) [0..<length c]"

definition cache_lookup :: "'k copyout \<Rightarrow> u32 \<Rightarrow> ('k, 'z) kstate_scheme \<Rightarrow> u64 option \<times> ('k, 'z) kstate_scheme" where
  "cache_lookup out pid s = (case cache_slot pid (kr_proc_cache s) of
       None \<Rightarrow> (None, s)
     | Some i \<Rightarrow>
       let kproc = ps_kproc (kr_proc_cache s ! i);
           (rc, v, s) = kout32 out (kproc + 0xBC) 0 s
       in if rc = 0 \<and> v = pid then (Some kproc, s)
          else (None, s\<lparr>kr_proc_cache := (kr_proc_cache s)[i := empty_slot]\<rparr>))"

definition cache_store :: "u32 \<Rightarrow> u64 \<Rightarrow> ('k, 'z) kstate_scheme \<Rightarrow> ('k, 'z) kstate_scheme" where
  "cache_store pid kp s =
     s\<lparr>kr_proc_cache := (kr_proc_cache s)[kr_proc_cache_next s := \<lparr>ps_pid = pid, ps_kproc = kp\<rparr>],
       kr_proc_cache_next := (kr_proc_cache_next s + 1) mod KR_PROC_CACHE_N\<rparr>"

definition kernel_get_proc_fast ::
    "'k copyout \<Rightarrow> u64 \<Rightarrow> u32 \<Rightarrow> ('k, 'z) kstate_scheme \<Rightarrow> (u64 \<times> ('k, 'z) kstate_scheme) option" where
  "kernel_get_proc_fast out allproc pid s = (case cache_lookup out pid s of
       (Some kproc, s) \<Rightarrow> Some (kproc, s)
     | (None, s) \<Rightarrow>
       map_option (\<lambda>(kp, s). (kp, if kp \<noteq> 0 then cache_store pid kp s else s)) (kr_walk_allproc out allproc pid s))"

section \<open>Credentials\<close>

definition kernel_get_proc_ucred_fast ::
    "'k copyout \<Rightarrow> u64 \<Rightarrow> u32 \<Rightarrow> ('k, 'z) kstate_scheme \<Rightarrow> (u64 \<times> ('k, 'z) kstate_scheme) option" where
  "kernel_get_proc_ucred_fast out allproc pid s =
     map_option (\<lambda>(kproc, s).
       if kproc = 0 then (0, s)
       else let (rc, ucred, s) = kout64 out (kproc + 0x40) 0 s in if rc \<noteq> 0 then (0, s) else (ucred, s))
     (kernel_get_proc_fast out allproc pid s)"

definition kernel_get_ucred_authid_fast ::
    "'k copyout \<Rightarrow> u64 \<Rightarrow> u32 \<Rightarrow> ('k, 'z) kstate_scheme \<Rightarrow> (u64 \<times> ('k, 'z) kstate_scheme) option" where
  "kernel_get_ucred_authid_fast out allproc pid s =
     map_option (\<lambda>(ucred, s).
       if ucred = 0 then (0, s)
       else let (rc, authid, s) = kout64 out (ucred + 0x58) 0 s in if rc \<noteq> 0 then (0, s) else (authid, s))
     (kernel_get_proc_ucred_fast out allproc pid s)"

definition kernel_set_ucred_authid_fast ::
    "'k copyout \<Rightarrow> 'k copyin \<Rightarrow> u64 \<Rightarrow> u32 \<Rightarrow> u64 \<Rightarrow> ('k, 'z) kstate_scheme \<Rightarrow> (int \<times> ('k, 'z) kstate_scheme) option" where
  "kernel_set_ucred_authid_fast out inn allproc pid new_authid s =
     map_option (\<lambda>(ucred, s).
       if ucred = 0 then (-1, s) else kin inn (le_bytes 8 new_authid) (ucred + 0x58) s)
     (kernel_get_proc_ucred_fast out allproc pid s)"

definition kernel_get_ucred_caps_fast ::
    "'k copyout \<Rightarrow> u64 \<Rightarrow> u32 \<Rightarrow> byte list \<Rightarrow> ('k, 'z) kstate_scheme \<Rightarrow> (int \<times> byte list \<times> ('k, 'z) kstate_scheme) option" where
  \<comment> \<open>\<open>caps\<close> are the 16 bytes of the caller's buffer\<close>
  "kernel_get_ucred_caps_fast out allproc pid caps s =
     map_option (\<lambda>(ucred, s).
       if ucred = 0 then (-1, caps, s)
       else let (rc, caps, s) = kout out (ucred + 0x60) caps s in (if rc \<noteq> 0 then -1 else 0, caps, s))
     (kernel_get_proc_ucred_fast out allproc pid s)"

definition kernel_set_ucred_caps_fast ::
    "'k copyout \<Rightarrow> 'k copyin \<Rightarrow> u64 \<Rightarrow> u32 \<Rightarrow> byte list \<Rightarrow> ('k, 'z) kstate_scheme \<Rightarrow> (int \<times> ('k, 'z) kstate_scheme) option" where
  "kernel_set_ucred_caps_fast out inn allproc pid caps s =
     map_option (\<lambda>(ucred, s).
       if ucred = 0 then (-1, s)
       else let (rc, s) = kin inn caps (ucred + 0x60) s in (if rc \<noteq> 0 then -1 else 0, s))
     (kernel_get_proc_ucred_fast out allproc pid s)"

definition kernel_get_proc_struct_fast ::
    "'k copyout \<Rightarrow> u64 \<Rightarrow> byte list option \<Rightarrow> u32 \<Rightarrow> ('k, 'z) kstate_scheme \<Rightarrow> (byte list option \<times> ('k, 'z) kstate_scheme) option" where
  \<comment> \<open>\<open>block\<close> is what \<^verbatim>\<open>malloc(0xC90)\<close> returns\<close>
  "kernel_get_proc_struct_fast out allproc block pid s =
     (if pid = 0 then Some (None, s)
      else map_option (\<lambda>(kproc, s).
             if kproc = 0 then (None, s)
             else case block of
                    None \<Rightarrow> (None, s)
                  | Some buf \<Rightarrow> let (rc, bs, s) = kout out kproc buf s in (if rc = 0 then Some bs else None, s))
           (kernel_get_proc_fast out allproc pid s))"

section \<open>Modules\<close>

definition splice :: "byte list \<Rightarrow> nat \<Rightarrow> byte list \<Rightarrow> byte list" where
  \<comment> \<open>a buffer after a copy into it at an offset\<close>
  "splice xs off bs = take off xs @ bs @ drop (off + length bs) xs"

definition field64 :: "byte list \<Rightarrow> nat \<Rightarrow> u64" where
  "field64 bs off = ld64 (shift (of_list bs) off)"

definition field32 :: "byte list \<Rightarrow> nat \<Rightarrow> u32" where
  "field32 bs off = ld32 (shift (of_list bs) off)"

text \<open>The search for the record of a module; \<open>buf2\<close> holds the record's handle at 0x28 on the way.\<close>

partial_function (option) sprx_loop ::
    "'k copyout \<Rightarrow> u64 \<Rightarrow> u64 \<Rightarrow> byte list \<Rightarrow> ('k, 'z) kstate_scheme \<Rightarrow> (u64 option \<times> byte list \<times> ('k, 'z) kstate_scheme) option" where
  "sprx_loop out want kaddr buf2 s =
     (let (rc, kaddr, s) = kout64 out kaddr kaddr s in
      if rc \<noteq> 0 then Some (None, buf2, s)
      else if kaddr = 0 then Some (None, buf2, s)
      else let (rc, m, s) = kout out (kaddr + 0x28) (take 8 (drop 0x28 buf2)) s;
               buf2 = splice buf2 0x28 m in
        if rc \<noteq> 0 then Some (None, buf2, s)
        else if field64 buf2 0x28 \<noteq> want then sprx_loop out want kaddr buf2 s
        else Some (Some kaddr, buf2, s))"

definition kern_setup_sprx_dispatch_fast ::
    "'k copyout \<Rightarrow> u64 \<Rightarrow> u32 \<Rightarrow> u32 \<Rightarrow> byte list \<Rightarrow> byte list \<Rightarrow> ('k, 'z) kstate_scheme \<Rightarrow>
      (int \<times> byte list \<times> byte list \<times> ('k, 'z) kstate_scheme) option" where
  \<comment> \<open>\<^verbatim>\<open>kaddr\<close> is not initialised, which the first read, if it fails, does not matter for\<close>
  "kern_setup_sprx_dispatch_fast out allproc pid sprx_handle buf1 buf2 s =
     Option.bind (kernel_get_proc_fast out allproc pid s) (\<lambda>(_, s).
     Option.bind (kernel_get_proc_fast out allproc pid s) (\<lambda>(kproc, s).
       if kproc = 0 then Some (0, buf1, buf2, s)
       else let (rc, kaddr, s) = kout64 out (kproc + 0x3E8) 0 s in
         if rc \<noteq> 0 then Some (0, buf1, buf2, s)
         else map_option (\<lambda>(found, buf2, s). case found of
                None \<Rightarrow> (0, buf1, buf2, s)
              | Some kaddr \<Rightarrow>
                let (rc, buf2, s) = kout out kaddr buf2 s in
                if rc \<noteq> 0 then (0, buf1, buf2, s)
                else let (rc, buf1, s) = kout out (field64 buf2 0x148) buf1 s
                     in (if rc < 0 then 0 else 1, buf1, buf2, s))
              (sprx_loop out (ucast sprx_handle) kaddr buf2 s)))"

fun nid_match :: "ptr \<Rightarrow> byte list \<Rightarrow> nat \<Rightarrow> nat \<Rightarrow> bool" where
  \<comment> \<open>the comparison of at most 11 characters, from character \<open>i\<close> on, \<open>k\<close> of them left\<close>
  "nid_match nid got i 0 = False"
| "nid_match nid got i (Suc k) =
     (if nid i \<noteq> got ! i then False else if nid i = 0 then True else if i = 10 then True else nid_match nid got (i + 1) k)"

partial_function (option) resolve_loop ::
    "'k copyout \<Rightarrow> ptr \<Rightarrow> u64 \<Rightarrow> u64 \<Rightarrow> u64 \<Rightarrow> u64 \<Rightarrow> byte list \<Rightarrow> byte list \<Rightarrow> ('k, 'z) kstate_scheme \<Rightarrow> (u64 \<times> ('k, 'z) kstate_scheme) option" where
  "resolve_loop out nid nid_strbase module_base limit cur entry nid_read s =
     (if \<not> cur < limit then Some (0, s)
      else let (rc, entry, s) = kout out cur entry s in
        if rc \<noteq> 0 then Some (0, s)
        else let (rc, nid_read, s) = kout out (ucast (ld32 (of_list entry)) + nid_strbase) nid_read s in
          if rc \<noteq> 0 then Some (0, s)
          else if nid_match nid nid_read 0 11 then Some (field64 entry 8 + module_base, s)
          else resolve_loop out nid nid_strbase module_base limit (cur + 0x18) entry nid_read s)"

definition kernel_dynlib_resolve_fast ::
    "'k copyout \<Rightarrow> u64 \<Rightarrow> byte list \<times> byte list \<times> byte list \<times> byte list \<Rightarrow> u32 \<Rightarrow> u32 \<Rightarrow> ptr \<Rightarrow> ('k, 'z) kstate_scheme \<Rightarrow>
      (u64 \<times> ('k, 'z) kstate_scheme) option" where
  \<comment> \<open>\<open>stack\<close> is what the four uninitialised buffers hold on entry\<close>
  "kernel_dynlib_resolve_fast out allproc stack pid module_sel nid s = (case stack of (d0, r0, e0, n0) \<Rightarrow>
     Option.bind (kern_setup_sprx_dispatch_fast out allproc pid module_sel d0 r0 s)
       (\<lambda>(ok, dispatch_table, module_record, s).
         if ok = 0 then Some (0, s)
         else let kaddr_table = field64 dispatch_table 0x28;
                  table_size = field64 dispatch_table 0x30;
                  nid_strbase = field64 dispatch_table 0x38;
                  module_base = field64 module_record 0x30;
                  limit = kaddr_table + table_size
              in if kaddr_table \<ge> limit then Some (0, s)
                 else resolve_loop out nid nid_strbase module_base limit kaddr_table e0 n0 s))"

partial_function (option) mapbase_loop ::
    "'k copyout \<Rightarrow> u32 \<Rightarrow> u64 \<Rightarrow> ('k, 'z) kstate_scheme \<Rightarrow> (u64 \<times> ('k, 'z) kstate_scheme) option" where
  "mapbase_loop out sel cur s =
     (if cur = 0 then let (rc, fallback, s) = kout64 out 0x30 0 s in Some (fallback, s)
      else let (rc, entry_sel, s) = kout32 out (cur + 0x28) 0xFFFFFFFF s in
        if rc \<noteq> 0 then Some (-1, s)
        else if entry_sel = 0xFFFFFFFF then Some (-1, s)
        else if entry_sel = sel then let (rc, mapbase, s) = kout64 out (cur + 0x30) 0 s in Some (mapbase, s)
        else let (rc, cur, s) = kout64 out cur cur s in
          if rc \<noteq> 0 then Some (-1, s) else mapbase_loop out sel cur s)"

definition kernel_dynlib_mapbase_addr_by_proc_fast ::
    "'k copyout \<Rightarrow> u64 \<Rightarrow> u32 \<Rightarrow> ('k, 'z) kstate_scheme \<Rightarrow> (u64 \<times> ('k, 'z) kstate_scheme) option" where
  "kernel_dynlib_mapbase_addr_by_proc_fast out proc sel s =
     (let cur = proc + 0x3E8; (rc, cur, s) = kout64 out cur cur s in
      if rc \<noteq> 0 then Some (-1, s)
      else let (rc, cur, s) = kout64 out cur cur s in
        if rc \<noteq> 0 then Some (-1, s) else mapbase_loop out sel cur s)"

section \<open>What the walks find\<close>

lemma field64_peek: "off + 8 \<le> n \<Longrightarrow> field64 (peek m a n) off = mem64 m (a + of_nat off)"
  unfolding field64_def mem64_def
  by (rule le_load_cong) (simp add: of_list_def window_apply add.assoc)

lemma field32_peek: "off + 4 \<le> n \<Longrightarrow> field32 (peek m a n) off = mem32 m (a + of_nat off)"
  unfolding field32_def mem32_def
  by (rule le_load_cong) (simp add: of_list_def window_apply add.assoc)

text \<open>A null-terminated list in kernel memory, linked through the first field.\<close>

primrec klist :: "(u64 \<Rightarrow> byte) \<Rightarrow> u64 \<Rightarrow> u64 list \<Rightarrow> bool" where
  "klist m a [] \<longleftrightarrow> a = 0"
| "klist m a (p # ps) \<longleftrightarrow> a = p \<and> p \<noteq> 0 \<and> klist m (mem64 m p) ps"

definition proc_pid :: "(u64 \<Rightarrow> byte) \<Rightarrow> u64 \<Rightarrow> u32" where
  "proc_pid m p = mem32 m (p + 0xBC)"

definition cache_ok :: "('k, 'z) kstate_scheme \<Rightarrow> bool" where
  "cache_ok s \<longleftrightarrow> length (kr_proc_cache s) = KR_PROC_CACHE_N \<and> kr_proc_cache_next s < KR_PROC_CACHE_N"

lemma cache_slot_Some: "cache_slot pid c = Some i \<Longrightarrow> i < length c \<and> ps_pid (c ! i) = pid \<and> ps_kproc (c ! i) \<noteq> 0"
  by (auto simp: cache_slot_def find_Some_iff)

text \<open>\<open>kframe s s'\<close>: only the kernel changed, not the cache.\<close>

definition kframe :: "('k, 'z) kstate_scheme \<Rightarrow> ('k, 'z) kstate_scheme \<Rightarrow> bool" where
  "kframe s s' \<longleftrightarrow> (\<exists>k. s' = s\<lparr>kern := k\<rparr>)"

lemma kframe_refl [simp]: "kframe s s"
  unfolding kframe_def by (intro exI [of _ "kern s"]) simp

lemma kframe_trans: "kframe s s' \<Longrightarrow> kframe s' s'' \<Longrightarrow> kframe s s''"
  by (auto simp: kframe_def)

lemma kframe_cache: "kframe s s' \<Longrightarrow> kr_proc_cache s' = kr_proc_cache s \<and> kr_proc_cache_next s' = kr_proc_cache_next s"
  by (auto simp: kframe_def)

lemma kframe_more: "kframe s s' \<Longrightarrow> kstate.more s' = kstate.more s"
  by (auto simp: kframe_def)

context kernel_memory
begin

lemma kout64_ok:
  "view (kern s) m \<Longrightarrow> kout64 out a v s = (rc, w, s') \<Longrightarrow>
   view (kern s') m \<and> kframe s s' \<and> (rc = 0 \<longrightarrow> safe a 8 \<longrightarrow> w = mem64 m a)"
  using out64_ok [of "kern s" m a v] by (auto simp: kout64_def kframe_def split: prod.splits)

lemma kout32_ok:
  "view (kern s) m \<Longrightarrow> kout32 out a v s = (rc, w, s') \<Longrightarrow>
   view (kern s') m \<and> kframe s s' \<and> (rc = 0 \<longrightarrow> safe a 4 \<longrightarrow> w = mem32 m a)"
  using out32_ok [of "kern s" m a v] by (auto simp: kout32_def kframe_def split: prod.splits)

lemma kout_ok:
  "view (kern s) m \<Longrightarrow> kout out a buf s = (rc, bs, s') \<Longrightarrow>
   view (kern s') m \<and> kframe s s' \<and> (rc = 0 \<longrightarrow> safe a (length buf) \<longrightarrow> bs = peek m a (length buf))"
  using out_view [of "kern s" m a buf] out_ok [of "kern s" m a buf]
  by (auto simp: kout_def kframe_def split: prod.splits)

definition found :: "(u64 \<Rightarrow> byte) \<Rightarrow> u32 \<Rightarrow> ('k, 'z) kstate_scheme \<Rightarrow> u64 \<times> ('k, 'z) kstate_scheme \<Rightarrow> bool" where
  \<comment> \<open>what a walk may return: nothing, or a process with the wanted identifier\<close>
  "found m pid s y \<longleftrightarrow> view (kern (snd y)) m \<and> kframe s (snd y)
     \<and> (fst y \<noteq> 0 \<longrightarrow> safe (fst y + 0xBC) 4 \<longrightarrow> proc_pid m (fst y) = pid)"

lemma walk_loop_sound:
  "walk_loop out' pid cur next cp s = Some y \<Longrightarrow> out' = out \<longrightarrow> view (kern s) m \<longrightarrow> found m pid s y"
proof (rule walk_loop.raw_induct [of "\<lambda>out' pid cur next cp s y. out' = out \<longrightarrow> view (kern s) m \<longrightarrow> found m pid s y", rotated])
  fix f out' pid cur nx cp and s :: "('k, 'b) kstate_scheme" and y
  assume IH: "\<And>out' pid cur next cp s y. f out' pid cur next cp s = Some y \<Longrightarrow>
      out' = out \<longrightarrow> view (kern s) m \<longrightarrow> found m pid (s :: ('k, 'b) kstate_scheme) y"
    and eq: "(if cur = 0 then Some (0, s)
      else let (rc, cur_pid, s) = kout32 out' (cur + 0xBC) cp s in
        if rc \<noteq> 0 then Some (0, s)
        else if cur_pid = pid then Some (cur, s)
        else let (rc, next, s) = kout64 out' cur nx s in
          if rc \<noteq> 0 then Some (0, s) else f out' pid next next cur_pid s) = Some y"
  show "out' = out \<longrightarrow> view (kern s) m \<longrightarrow> found m pid s y"
  proof (intro impI)
    assume o: "out' = out" and v: "view (kern s) m"
    obtain r1 p1 s1 where 1: "kout32 out (cur + 0xBC) cp s = (r1, p1, s1)" by (metis prod_cases3)
    note k1 = kout32_ok [OF v 1]
    obtain r2 n2 s2 where 2: "kout64 out cur nx s1 = (r2, n2, s2)" by (metis prod_cases3)
    have k2: "view (kern s2) m" "kframe s s2" using kout64_ok [OF _ 2, of m] k1 kframe_trans by blast+
    have "found m pid s2 y \<Longrightarrow> found m pid s y" using k2(2) kframe_trans by (auto simp: found_def)
    with IH [of out pid n2 n2 p1 s2 y] eq o v k1 k2 show "found m pid s y"
      by (auto simp: 1 2 found_def proc_pid_def split: if_splits)
  qed
qed

end

definition first_proc :: "(u64 \<Rightarrow> byte) \<Rightarrow> u32 \<Rightarrow> u64 list \<Rightarrow> u64" where
  "first_proc m pid ps = (case List.find (\<lambda>p. proc_pid m p = pid) ps of None \<Rightarrow> 0 | Some p \<Rightarrow> p)"

context kernel_memory
begin

lemma cache_lookup_sound:
  assumes v: "view (kern s) m" and ok: "cache_ok s" and run: "cache_lookup out pid s = (r, s')"
  shows "view (kern s') m" "cache_ok s'"
    "r = Some p \<Longrightarrow> p \<noteq> 0 \<and> (safe (p + 0xBC) 4 \<longrightarrow> proc_pid m p = pid)"
    "set (kr_proc_cache s') \<subseteq> set (kr_proc_cache s) \<union> {empty_slot}"
proof -
  have "view (kern s') m \<and> cache_ok s' \<and> (\<forall>p. r = Some p \<longrightarrow> p \<noteq> 0 \<and> (safe (p + 0xBC) 4 \<longrightarrow> proc_pid m p = pid))
      \<and> set (kr_proc_cache s') \<subseteq> set (kr_proc_cache s) \<union> {empty_slot}"
  proof (cases "cache_slot pid (kr_proc_cache s)")
    case None
    then show ?thesis using v ok run by (auto simp: cache_lookup_def)
  next
    case (Some i)
    let ?p = "ps_kproc (kr_proc_cache s ! i)"
    note slot = cache_slot_Some [OF Some]
    obtain rc w s1 where 1: "kout32 out (?p + 0xBC) 0 s = (rc, w, s1)" by (metis prod_cases3)
    note k = kout32_ok [OF v 1] and c = kframe_cache [of s s1]
    have r: "(r, s') = (if rc = 0 \<and> w = pid then (Some ?p, s1) else (None, s1\<lparr>kr_proc_cache := (kr_proc_cache s1)[i := empty_slot]\<rparr>))"
      using run by (simp add: cache_lookup_def Some 1)
    have "set ((kr_proc_cache s)[i := empty_slot]) \<subseteq> insert empty_slot (set (kr_proc_cache s))" by (rule set_update_subset_insert)
    then show ?thesis using r k c slot ok by (auto simp: cache_ok_def proc_pid_def split: if_splits)
  qed
  then show "view (kern s') m" "cache_ok s'" "r = Some p \<Longrightarrow> p \<noteq> 0 \<and> (safe (p + 0xBC) 4 \<longrightarrow> proc_pid m p = pid)"
    "set (kr_proc_cache s') \<subseteq> set (kr_proc_cache s) \<union> {empty_slot}" by blast+
qed

lemma cache_store_ok: "cache_ok s \<Longrightarrow> cache_ok (cache_store pid kp s) \<and> kern (cache_store pid kp s) = kern s"
  by (simp add: cache_ok_def cache_store_def KR_PROC_CACHE_N_def)

lemma get_proc_sound:
  assumes v: "view (kern s) m" and ok: "cache_ok s" and run: "kernel_get_proc_fast out allproc pid s = Some (r, s')"
  shows "view (kern s') m" "cache_ok s'" "r \<noteq> 0 \<Longrightarrow> safe (r + 0xBC) 4 \<Longrightarrow> proc_pid m r = pid"
proof -
  obtain c s1 where 1: "cache_lookup out pid s = (c, s1)" by fastforce
  note l = cache_lookup_sound [OF v ok 1]
  obtain rc cur s2 where 2: "kout64 out allproc 0 s1 = (rc, cur, s2)" by (metis prod_cases3)
  have k2: "view (kern s2) m" "kframe s1 s2" using kout64_ok [OF l(1) 2] by auto
  have c2: "cache_ok s2" using l(2) kframe_cache [OF k2(2)] by (simp add: cache_ok_def)
  have "view (kern s') m \<and> cache_ok s' \<and> (r \<noteq> 0 \<longrightarrow> safe (r + 0xBC) 4 \<longrightarrow> proc_pid m r = pid)"
  proof (cases c)
    case (Some q)
    then show ?thesis using run l by (auto simp: kernel_get_proc_fast_def 1)
  next
    case None
    then obtain y where y: "(if rc \<noteq> 0 then Some (0, s2) else walk_loop out pid cur 0 0 s2) = Some y"
        "(r, s') = (fst y, if fst y \<noteq> 0 then cache_store pid (fst y) (snd y) else snd y)"
      using run by (auto simp: kernel_get_proc_fast_def 1 kr_walk_allproc_def 2 split: if_splits)
    have "found m pid s2 y"
      using y(1) k2 walk_loop_sound [of out pid cur 0 0 s2 y m] by (auto simp: found_def split: if_splits)
    moreover have "cache_ok (snd y)" using calculation c2 kframe_cache by (force simp: found_def cache_ok_def)
    ultimately show ?thesis using y(2) cache_store_ok [of "snd y"] by (auto simp: found_def split: if_splits)
  qed
  then show "view (kern s') m" "cache_ok s'" "r \<noteq> 0 \<Longrightarrow> safe (r + 0xBC) 4 \<Longrightarrow> proc_pid m r = pid" by blast+
qed

end

context reliable_kernel
begin

lemma kout32_read:
  assumes "view (kern s) m" "safe a 4"
  obtains s' where "kout32 out a v s = (0, mem32 m a, s')" "view (kern s') m" "kframe s s'"
proof (rule out32_read [OF assms, of v])
  fix k' assume "out32 out a v (kern s) = (0, mem32 m a, k')" "view k' m"
  then show thesis by (intro that [of "s\<lparr>kern := k'\<rparr>"]) (auto simp: kout32_def kframe_def)
qed

lemma kout64_read:
  assumes "view (kern s) m" "safe a 8"
  obtains s' where "kout64 out a v s = (0, mem64 m a, s')" "view (kern s') m" "kframe s s'"
proof (rule out64_read [OF assms, of v])
  fix k' assume "out64 out a v (kern s) = (0, mem64 m a, k')" "view k' m"
  then show thesis by (intro that [of "s\<lparr>kern := k'\<rparr>"]) (auto simp: kout64_def kframe_def)
qed

lemma kout_read:
  assumes "view (kern s) m" "safe a (length buf)"
  obtains s' where "kout out a buf s = (0, peek m a (length buf), s')" "view (kern s') m" "kframe s s'"
proof (rule out_peek [OF assms])
  fix k' assume "out a buf (kern s) = (0, peek m a (length buf), k')" "view k' m"
  then show thesis by (intro that [of "s\<lparr>kern := k'\<rparr>"]) (auto simp: kout_def kframe_def)
qed

lemma kin_write:
  assumes "view (kern s) m" "safe a (length bs)"
  obtains s' where "kin inn bs a s = (0, s')" "view (kern s') (poke m a bs)" "kframe s s'"
proof (rule inn_poke [OF assms])
  fix k' assume "inn bs a (kern s) = (0, k')" "view k' (poke m a bs)"
  then show thesis by (intro that [of "s\<lparr>kern := k'\<rparr>"]) (auto simp: kin_def kframe_def)
qed

lemma walk_loop_complete:
  "klist m cur ps \<Longrightarrow> \<forall>p\<in>set ps. safe (p + 0xBC) 4 \<and> safe p 8 \<Longrightarrow> view (kern s) m \<Longrightarrow>
   \<exists>s'. walk_loop out pid cur nx cp s = Some (first_proc m pid ps, s') \<and> view (kern s') m \<and> kframe s s'"
proof (induction ps arbitrary: cur nx cp s)
  case Nil
  then show ?case by (subst walk_loop.simps) (auto simp: first_proc_def)
next
  case (Cons p ps)
  from Cons.prems have c: "cur = p" "p \<noteq> 0" "klist m (mem64 m p) ps" "safe (p + 0xBC) 4" "safe p 8" by auto
  obtain s1 where 1: "kout32 out (p + 0xBC) cp s = (0, proc_pid m p, s1)" "view (kern s1) m" "kframe s s1"
    using kout32_read [OF Cons.prems(3) c(4)] by (metis proc_pid_def)
  obtain s2 where 2: "kout64 out p nx s1 = (0, mem64 m p, s2)" "view (kern s2) m" "kframe s1 s2"
    using kout64_read [OF 1(2) c(5)] by metis
  show ?case
  proof (cases "proc_pid m p = pid")
    case True
    then have "walk_loop out pid cur nx cp s = Some (p, s1)"
      by (subst walk_loop.simps) (simp add: c 1)
    with True 1 show ?thesis by (simp add: first_proc_def)
  next
    case False
    then have eq: "walk_loop out pid cur nx cp s = walk_loop out pid (mem64 m p) (mem64 m p) (proc_pid m p) s2"
      by (subst walk_loop.simps) (simp add: c 1 2)
    have "\<forall>p\<in>set ps. safe (p + 0xBC) 4 \<and> safe p 8" using Cons.prems(2) by simp
    from Cons.IH [OF c(3) this 2(2), of "mem64 m p" "proc_pid m p"] obtain s' where
      "walk_loop out pid cur nx cp s = Some (first_proc m pid ps, s')" "view (kern s') m" "kframe s2 s'"
      unfolding eq by blast
    moreover have "first_proc m pid (p # ps) = first_proc m pid ps" using False by (simp add: first_proc_def)
    ultimately show ?thesis using kframe_trans [OF 1(3) kframe_trans [OF 2(3)]] by auto
  qed
qed

lemma get_proc_complete:
  assumes v: "view (kern s) m" and ok: "cache_ok s" and l: "safe allproc 8" "klist m (mem64 m allproc) ps"
    and safe: "\<forall>p\<in>set ps. safe (p + 0xBC) 4 \<and> safe p 8"
  shows "\<exists>r s'. kernel_get_proc_fast out allproc pid s = Some (r, s')
    \<and> (cache_lookup out pid s = (Some r, s') \<or> fst (cache_lookup out pid s) = None \<and> r = first_proc m pid ps)"
proof -
  obtain c s1 where 1: "cache_lookup out pid s = (c, s1)" by fastforce
  have v1: "view (kern s1) m" using cache_lookup_sound [OF v ok 1] by blast
  obtain s2 where 2: "kout64 out allproc 0 s1 = (0, mem64 m allproc, s2)" "view (kern s2) m"
    using kout64_read [OF v1 l(1)] by metis
  obtain s3 where 3: "walk_loop out pid (mem64 m allproc) 0 0 s2 = Some (first_proc m pid ps, s3)"
    using walk_loop_complete [OF l(2) safe 2(2)] by blast
  show ?thesis
    by (cases c) (simp_all add: kernel_get_proc_fast_def 1 kr_walk_allproc_def 2 3)
qed

end

lemma cache_lookup_slot:
  assumes "cache_lookup out pid s = (Some r, s')"
  shows "\<exists>e\<in>set (kr_proc_cache s). ps_pid e = pid \<and> ps_kproc e = r"
proof -
  obtain i where i: "cache_slot pid (kr_proc_cache s) = Some i" "r = ps_kproc (kr_proc_cache s ! i)"
    using assms by (auto simp: cache_lookup_def Let_def split: option.splits prod.splits if_splits)
  from cache_slot_Some [OF i(1)] i(2) show ?thesis by auto
qed

lemma first_proc_cases:
  "first_proc m pid ps = 0 \<or> first_proc m pid ps \<in> set ps"
  by (auto simp: first_proc_def find_Some_iff split: option.splits)

lemma klist_nonzero: "klist m a ps \<Longrightarrow> 0 \<notin> set ps"
  by (induction ps arbitrary: a) auto

lemma first_proc_nonzero: "0 \<notin> set ps \<Longrightarrow> p \<in> set ps \<Longrightarrow> proc_pid m p = pid \<Longrightarrow> first_proc m pid ps \<noteq> 0"
  by (auto simp: first_proc_def find_None_iff find_Some_iff split: option.splits) (metis nth_mem)

section \<open>What a lookup leaves alone\<close>

lemma kout64_frame: "kout64 out a v s = (rc, w, s') \<Longrightarrow> kframe s s'"
  by (auto simp: kout64_def kframe_def split: prod.splits)

lemma kout32_frame: "kout32 out a v s = (rc, w, s') \<Longrightarrow> kframe s s'"
  by (auto simp: kout32_def kframe_def split: prod.splits)

lemma walk_loop_frame: "walk_loop out pid cur next cp s = Some y \<Longrightarrow> kframe s (snd y)"
proof (rule walk_loop.raw_induct [of "\<lambda>out pid cur next cp s y. kframe s (snd y)", rotated])
  fix f out' pid cur nx cp and s :: "('k, 'b) kstate_scheme" and y
  assume IH: "\<And>out' pid cur next cp s y. f out' pid cur next cp s = Some y \<Longrightarrow> kframe (s :: ('k, 'b) kstate_scheme) (snd y)"
    and eq: "(if cur = 0 then Some (0, s)
      else let (rc, cur_pid, s) = kout32 out' (cur + 0xBC) cp s in
        if rc \<noteq> 0 then Some (0, s)
        else if cur_pid = pid then Some (cur, s)
        else let (rc, next, s) = kout64 out' cur nx s in
          if rc \<noteq> 0 then Some (0, s) else f out' pid next next cur_pid s) = Some y"
  obtain r1 p1 s1 where 1: "kout32 out' (cur + 0xBC) cp s = (r1, p1, s1)" by (metis prod_cases3)
  obtain r2 n2 s2 where 2: "kout64 out' cur nx s1 = (r2, n2, s2)" by (metis prod_cases3)
  have "kframe s s1" "kframe s1 s2" using kout32_frame [OF 1] kout64_frame [OF 2] by blast+
  moreover have "f out' pid n2 n2 p1 s2 = Some y \<Longrightarrow> kframe s2 (snd y)" using IH by blast
  ultimately show "kframe s (snd y)"
    using eq kframe_trans by (auto simp: 1 2 split: if_splits; blast)
qed

lemma cache_lookup_more:
  "cache_lookup out pid s = (r, s') \<Longrightarrow> kstate.more s' = kstate.more s"
  using kframe_more [OF kout32_frame]
  by (fastforce simp: cache_lookup_def Let_def split: option.splits prod.splits if_splits)

lemma get_proc_cases:
  assumes "kernel_get_proc_fast out allproc pid s = Some (r, s')"
  obtains (cached) "cache_lookup out pid s = (Some r, s')"
  | (walked) s1 s2 where "cache_lookup out pid s = (None, s1)" "kframe s1 s2"
      "s' = (if r \<noteq> 0 then cache_store pid r s2 else s2)"
proof -
  obtain c s1 where 1: "cache_lookup out pid s = (c, s1)" by fastforce
  obtain rc cur s2 where 2: "kout64 out allproc 0 s1 = (rc, cur, s2)" by (metis prod_cases3)
  show thesis
  proof (cases c)
    case (Some q)
    then show thesis using assms 1 by (intro cached) (auto simp: kernel_get_proc_fast_def)
  next
    case None
    then obtain y where y: "(if rc \<noteq> 0 then Some (0, s2) else walk_loop out pid cur 0 0 s2) = Some y"
        "(r, s') = (fst y, if fst y \<noteq> 0 then cache_store pid (fst y) (snd y) else snd y)"
      using assms by (auto simp: kernel_get_proc_fast_def 1 kr_walk_allproc_def 2 split: if_splits)
    then have "kframe s1 (snd y)"
      using kframe_trans [OF kout64_frame [OF 2]] kout64_frame [OF 2] walk_loop_frame [of out pid cur 0 0 s2 y]
      by (auto split: if_splits)
    with None 1 y(2) show thesis by (intro walked) auto
  qed
qed

lemma get_proc_more: "kernel_get_proc_fast out allproc pid s = Some (r, s') \<Longrightarrow> kstate.more s' = kstate.more s"
  by (elim get_proc_cases) (auto dest!: cache_lookup_more kframe_more simp: cache_store_def)

text \<open>
  C19: a process address is never handed out for another process. Whatever the cache holds, also
  an address whose process is gone, and whichever kernel reads fail, a non-zero result points to
  a process whose identifier in kernel memory is the wanted one; the cache keeps its shape.
\<close>

theorem kernel_get_proc_fast_sound:
  assumes "kernel_memory out inn view safe" "view (kern s) m" "cache_ok s"
    and "kernel_get_proc_fast out allproc pid s = Some (r, s')"
  shows "view (kern s') m \<and> cache_ok s' \<and> (r \<noteq> 0 \<and> safe (r + 0xBC) 4 \<longrightarrow> proc_pid m r = pid)"
  using kernel_memory.get_proc_sound [OF assms] by blast

definition example_kmem :: "u64 \<Rightarrow> byte" where
  \<comment> \<open>the head of the list at 0x100, one process at 0x1000 with identifier 7\<close>
  "example_kmem x = (if x = 0x101 then 0x10 else if x = 0x10BC then 7 else 0)"

definition example_kstate :: "(u64 \<Rightarrow> byte) kstate" where
  "example_kstate = \<lparr>kern = example_kmem, kr_proc_cache = replicate 8 \<lparr>ps_pid = 7, ps_kproc = 0x2000\<rparr>, kr_proc_cache_next = 3\<rparr>"

lemma example_cache_ok: "cache_ok example_kstate"
  by (simp add: cache_ok_def example_kstate_def KR_PROC_CACHE_N_def)

lemma example_klist: "klist example_kmem (mem64 example_kmem 0x100) [0x1000]" "proc_pid example_kmem 0x1000 = 7"
  by (simp_all add: mem64_def proc_pid_def mem32_def le_simps window_apply example_kmem_def)

text \<open>
  C27: a listed process is found. If the kernel's process list ends and no read fails, the lookup
  returns; it finds a process whenever one with the identifier is listed, and, where the cache
  holds no entry for the identifier, the first one in the list or 0.
\<close>

theorem kernel_get_proc_fast_complete:
  assumes "reliable_kernel out inn view safe" "view (kern s) m" "cache_ok s"
    and "safe allproc 8" "klist m (mem64 m allproc) ps" "\<forall>p\<in>set ps. safe (p + 0xBC) 4 \<and> safe p 8"
  shows "\<exists>r s'. kernel_get_proc_fast out allproc pid s = Some (r, s')
    \<and> ((\<exists>p\<in>set ps. proc_pid m p = pid) \<longrightarrow> r \<noteq> 0)
    \<and> ((\<forall>e\<in>set (kr_proc_cache s). ps_pid e \<noteq> pid) \<longrightarrow> r = first_proc m pid ps)"
proof -
  have km: "kernel_memory out inn view safe" using assms(1) by (simp add: reliable_kernel_def)
  obtain r s' where r: "kernel_get_proc_fast out allproc pid s = Some (r, s')"
      "cache_lookup out pid s = (Some r, s') \<or> fst (cache_lookup out pid s) = None \<and> r = first_proc m pid ps"
    using reliable_kernel.get_proc_complete [OF assms] by blast
  have "r \<noteq> 0" if "cache_lookup out pid s = (Some r, s')"
    using kernel_memory.cache_lookup_sound(3) [OF km assms(2,3) that] by blast
  moreover have "\<exists>e\<in>set (kr_proc_cache s). ps_pid e = pid" if "cache_lookup out pid s = (Some r, s')"
    using cache_lookup_slot [OF that] by blast
  ultimately show ?thesis
    using r first_proc_nonzero [OF klist_nonzero [OF assms(5)]] by auto
qed

theorem kernel_get_proc_fast_complete_witness:
  "\<exists>r s'. kernel_get_proc_fast flat_out 0x100 7 example_kstate = Some (r, s') \<and> r \<noteq> 0"
  using kernel_get_proc_fast_complete [OF flat_kernel.reliable_kernel_axioms _ example_cache_ok _ example_klist(1), of 7]
    example_klist(2) by (auto simp: example_kstate_def)

theorem kernel_get_proc_fast_sound_witness:
  "\<exists>s'. kernel_get_proc_fast flat_out 0x100 7 example_kstate = Some (0x1000, s') \<and> proc_pid example_kmem 0x1000 = 7 \<and> cache_ok s'"
proof -
  have lookup: "cache_lookup flat_out 7 example_kstate
      = (None, example_kstate\<lparr>kr_proc_cache := (kr_proc_cache example_kstate)[0 := empty_slot]\<rparr>)"
    by (simp add: cache_lookup_def cache_slot_def example_kstate_def upt_rec kout32_def out32_def flat_out_def
        word_of_peek32 mem32_def le_simps window_apply example_kmem_def)
  have "walk_loop flat_out 7 0x1000 0 0 s = Some (0x1000, s)" if "kern s = example_kmem" for s :: "(u64 \<Rightarrow> byte) kstate"
    using example_klist(2) that
    by (subst walk_loop.simps) (simp add: kout32_def out32_def flat_out_def word_of_peek32 proc_pid_def)
  then obtain s' where r: "kernel_get_proc_fast flat_out 0x100 7 example_kstate = Some (0x1000, s')"
    unfolding kernel_get_proc_fast_def lookup prod.case option.case using example_klist(1)
    by (auto simp: kr_walk_allproc_def kout64_def out64_def flat_out_def word_of_peek64 example_kstate_def)
  have v: "kern example_kstate = example_kmem" by (simp add: example_kstate_def)
  have "kern s' = example_kmem \<and> cache_ok s' \<and> ((0x1000 :: u64) \<noteq> 0 \<and> True \<longrightarrow> proc_pid example_kmem 0x1000 = 7)"
    by (rule kernel_get_proc_fast_sound [OF flat_kernel.kernel_memory_axioms v example_cache_ok r])
  with r show ?thesis by simp
qed

section \<open>Resolving a symbol\<close>

definition same_nid :: "ptr \<Rightarrow> byte list \<Rightarrow> bool" where
  \<comment> \<open>equality of the first 11 characters, up to the end of the string\<close>
  "same_nid nid got \<longleftrightarrow> (\<forall>i\<le>10. (\<forall>j<i. nid j \<noteq> 0) \<longrightarrow> nid i = got ! i)"

lemma nid_match_from:
  "i + k = 11 \<Longrightarrow> 0 < k \<Longrightarrow> \<forall>j<i. nid j \<noteq> 0 \<Longrightarrow>
   nid_match nid got i k \<longleftrightarrow> (\<forall>l. i \<le> l \<and> l < 11 \<longrightarrow> (\<forall>j<l. nid j \<noteq> 0) \<longrightarrow> nid l = got ! l)"
proof (induction nid got i k rule: nid_match.induct)
  case (2 nid got i k)
  let ?P = "\<lambda>l. (\<forall>j<l. nid j \<noteq> 0) \<longrightarrow> nid l = got ! l"
  have i: "i < 11" using 2(2) by simp
  have split: "(\<forall>l. i \<le> l \<and> l < 11 \<longrightarrow> ?P l) \<longleftrightarrow> ?P i \<and> (\<forall>l. i + 1 \<le> l \<and> l < 11 \<longrightarrow> ?P l)"
    by (rule all_from_iff [OF i])
  consider "nid i \<noteq> got ! i" | "nid i = got ! i" "nid i = 0" | "nid i = got ! i" "nid i \<noteq> 0" "i = 10"
    | "nid i = got ! i" "nid i \<noteq> 0" "i \<noteq> 10" by blast
  then show ?case
  proof cases
    case 4
    then have "\<forall>j<i + 1. nid j \<noteq> 0" using 2(4) by (auto simp: less_Suc_eq)
    with 4 2(1) [OF _ 4(2,3)] 2(2) show ?thesis unfolding split by simp
  next
    case 2
    then have "?P l" if "i + 1 \<le> l" for l using that by (metis Suc_eq_plus1 Suc_le_lessD)
    with 2 show ?thesis unfolding split by simp
  qed (use 2(4) split in auto)
qed simp

lemma nid_match_iff: "nid_match nid got 0 11 \<longleftrightarrow> same_nid nid got"
  using nid_match_from [of 0 11 nid got] by (auto simp: same_nid_def less_Suc_eq_le numeral_eq_Suc)

definition sym_addr :: "u64 \<Rightarrow> nat \<Rightarrow> u64" where
  "sym_addr T i = T + of_nat (24 * i)"

definition sym_name :: "(u64 \<Rightarrow> byte) \<Rightarrow> u64 \<Rightarrow> u64 \<Rightarrow> nat \<Rightarrow> u64" where
  \<comment> \<open>where the name of the \<open>i\<close>-th symbol of a table is\<close>
  "sym_name m strbase T i = ucast (mem32 m (sym_addr T i)) + strbase"

definition resolve_spec :: "(u64 \<Rightarrow> byte) \<Rightarrow> ptr \<Rightarrow> u64 \<Rightarrow> u64 \<Rightarrow> u64 \<Rightarrow> nat list \<Rightarrow> u64" where
  "resolve_spec m nid strbase base T is = (case List.find (\<lambda>i. same_nid nid (peek m (sym_name m strbase T i) 12)) is of
       None \<Rightarrow> 0 | Some i \<Rightarrow> mem64 m (sym_addr T i + 8) + base)"

lemma entry_fields:
  "ld32 (of_list (peek m a 0x18)) = mem32 m a" "field64 (peek m a 0x18) 8 = mem64 m (a + 8)"
  unfolding mem32_def mem64_def field64_def
  by (rule le_load_cong; simp add: of_list_def window_apply add.assoc)+

lemma table_addr:
  assumes "unat T + 24 * n < 2 ^ 64" "i < n"
  shows "sym_addr T i < sym_addr T n"
proof -
  have "unat (sym_addr T k) = unat T + 24 * k" if "k \<le> n" for k
    using that assms(1) unat_add_of_nat [of T "24 * k"] by (simp add: sym_addr_def del: of_nat_mult)
  then show ?thesis using assms(2) by (simp add: word_less_nat_alt)
qed

context reliable_kernel
begin

lemma resolve_loop_correct:
  assumes "unat T + 24 * n < 2 ^ 64"
    and "\<And>i. i < n \<Longrightarrow> safe (sym_addr T i) 0x18 \<and> safe (sym_name m strbase T i) 12"
  shows "i \<le> n \<Longrightarrow> view (kern s) m \<Longrightarrow> length e = 0x18 \<Longrightarrow> length nr = 12 \<Longrightarrow>
    \<exists>s'. resolve_loop out nid strbase base (sym_addr T n) (sym_addr T i) e nr s
      = Some (resolve_spec m nid strbase base T [i..<n], s') \<and> view (kern s') m \<and> kframe s s'"
proof (induction "n - i" arbitrary: i s e nr)
  case 0
  then show ?case by (subst resolve_loop.simps) (auto simp: resolve_spec_def)
next
  case (Suc d)
  then have i: "i < n" by simp
  let ?a = "sym_addr T i"
  obtain s1 where 1: "kout out ?a e s = (0, peek m ?a 0x18, s1)" "view (kern s1) m" "kframe s s1"
    using kout_read [OF Suc.prems(2), of ?a e] assms(2) [OF i] Suc.prems(3) by metis
  obtain s2 where 2: "kout out (sym_name m strbase T i) nr s1 = (0, peek m (sym_name m strbase T i) 12, s2)"
      "view (kern s2) m" "kframe s1 s2"
    using kout_read [OF 1(2), of "sym_name m strbase T i" nr] assms(2) [OF i] Suc.prems(4) by metis
  have nx: "?a + 0x18 = sym_addr T (i + 1)" by (simp add: sym_addr_def)
  have unf: "resolve_loop out nid strbase base (sym_addr T n) ?a e nr s =
      (if same_nid nid (peek m (sym_name m strbase T i) 12) then Some (mem64 m (?a + 8) + base, s2)
       else resolve_loop out nid strbase base (sym_addr T n) (sym_addr T (i + 1))
              (peek m ?a 0x18) (peek m (sym_name m strbase T i) 12) s2)"
    unfolding nx [symmetric] using table_addr [OF assms(1) i]
    by (subst resolve_loop.simps)
      (simp only: Let_def 1(1) prod.case entry_fields sym_name_def [symmetric] 2(1) nid_match_iff refl not_True_eq_False
        not_not if_False simp_thms)
  have up: "[i..<n] = i # [i + 1..<n]" using i by (simp add: upt_conv_Cons)
  show ?case
  proof (cases "same_nid nid (peek m (sym_name m strbase T i) 12)")
    case True
    then show ?thesis using unf 2 kframe_trans [OF 1(3) 2(3)] by (simp add: up resolve_spec_def)
  next
    case False
    have "d = n - (i + 1)" "i + 1 \<le> n" using Suc.hyps(2) i by simp_all
    from Suc.hyps(1) [OF this 2(2), of "peek m ?a 0x18" "peek m (sym_name m strbase T i) 12"] obtain s' where
      "resolve_loop out nid strbase base (sym_addr T n) (sym_addr T (i + 1))
         (peek m ?a 0x18) (peek m (sym_name m strbase T i) 12) s2 = Some (resolve_spec m nid strbase base T [i + 1..<n], s')"
      "view (kern s') m" "kframe s2 s'" by fastforce
    moreover have "resolve_spec m nid strbase base T [i..<n] = resolve_spec m nid strbase base T [i + 1..<n]"
      using False by (simp add: up resolve_spec_def)
    ultimately show ?thesis using False unf kframe_trans [OF kframe_trans [OF 1(3) 2(3)]] by auto
  qed
qed

end

text \<open>
  Resolving a symbol. Over a table of \<open>n\<close> readable entries the search returns the value of the
  first entry whose name agrees with the wanted one in its first 11 characters, relocated by the
  module's base, and 0 if there is none; it always ends.
\<close>

theorem resolve_loop_finds_first:
  assumes "reliable_kernel out inn view safe" "view (kern s) m" "unat T + 24 * n < 2 ^ 64"
    and "\<forall>i<n. safe (sym_addr T i) 0x18 \<and> safe (sym_name m strbase T i) 12" "length e = 0x18" "length nr = 12"
  shows "\<exists>s'. resolve_loop out nid strbase base (sym_addr T n) T e nr s
    = Some (resolve_spec m nid strbase base T [0..<n], s') \<and> view (kern s') m"
  using reliable_kernel.resolve_loop_correct [OF assms(1,3), of m strbase 0 s e nr nid base] assms
  by (auto simp: sym_addr_def)

definition example_symtab :: "u64 \<Rightarrow> byte" where
  \<comment> \<open>one symbol at 0x1000: name at offset 0x10 of the string table, value 0x20; the name is AB\<close>
  "example_symtab x = (if x = 0x1000 then 0x10 else if x = 0x1008 then 0x20 else if x = 0x2010 then 65 else if x = 0x2011 then 66 else 0)"

theorem resolve_loop_finds_first_witness:
  "\<exists>s'. resolve_loop flat_out (of_list [65, 66]) 0x2000 0x400000 (sym_addr 0x1000 1) 0x1000 (replicate 0x18 0) (replicate 12 0)
     (example_kstate\<lparr>kern := example_symtab\<rparr>) = Some (0x400020, s')"
proof -
  have "same_nid (of_list [65, 66]) (peek example_symtab (sym_name example_symtab 0x2000 0x1000 0) 12)"
  proof (unfold same_nid_def, intro allI impI)
    have name: "sym_name example_symtab 0x2000 0x1000 0 = 0x2010"
      by (simp add: sym_name_def sym_addr_def mem32_def le_simps window_apply example_symtab_def)
    have two: "of_list [65, 66] 2 = 0" by (simp add: of_list_def)
    fix i :: nat assume "i \<le> 10" "\<forall>j<i. of_list [65, 66] j \<noteq> 0"
    with two have "i \<le> 2" by (metis not_le)
    then consider "i = 0" | "i = 1" | "i = 2" by linarith
    then show "of_list [65, 66] i = peek example_symtab (sym_name example_symtab 0x2000 0x1000 0) 12 ! i"
      by cases (simp_all add: name of_list_def example_symtab_def)
  qed
  then have "resolve_spec example_symtab (of_list [65, 66]) 0x2000 0x400000 0x1000 [0..<1] = 0x400020"
    by (simp add: resolve_spec_def sym_addr_def mem64_def le_simps window_apply example_symtab_def)
  then show ?thesis
    using resolve_loop_finds_first [OF flat_kernel.reliable_kernel_axioms, where s = "example_kstate\<lparr>kern := example_symtab\<rparr>"
        and m = example_symtab and T = "0x1000" and n = 1 and strbase = "0x2000" and e = "replicate 0x18 0"
        and nr = "replicate 12 0" and nid = "of_list [65, 66]" and base = "0x400000"] by auto
qed

end
