(* ===== verification/PtWalk.thy ===== *)
theory PtWalk
  imports KernProc ScanHandlers
begin

text \<open>
  The page-table walker, \<^verbatim>\<open>debugger/source/proc_ptwalk.c\<close>: translation of a process's addresses
  through the kernel's direct map, reads and writes that follow it, the enumeration of all mapped
  pages with its coalescing, and the merge of the result into the kernel's own list of mappings.
\<close>

abbreviation PTW_PTE_PRESENT :: u64 where "PTW_PTE_PRESENT \<equiv> 0x1"
abbreviation PTW_PTE_RW :: u64 where "PTW_PTE_RW \<equiv> 0x2"
abbreviation PTW_PTE_PS :: u64 where "PTW_PTE_PS \<equiv> 0x80"
abbreviation PTW_PTE_NX :: u64 where "PTW_PTE_NX \<equiv> 0x8000000000000000"
definition PTW_PHYS_MASK :: u64 where "PTW_PHYS_MASK = 0x000FFFFFFFFFF000"
definition PTW_PHYS_BOUND :: u64 where "PTW_PHYS_BOUND = 0x1000000000"
abbreviation PTW_CANON_KERNEL :: u64 where "PTW_CANON_KERNEL \<equiv> 0x1FFFF"
abbreviation PTW_PROC_VMSPACE_OFF :: u64 where "PTW_PROC_VMSPACE_OFF \<equiv> 0x200"
abbreviation PTW_PMAP_OFF_KNOWN :: u64 where "PTW_PMAP_OFF_KNOWN \<equiv> 0x300"
definition PTW_USER_PML4_LIMIT :: nat where "PTW_USER_PML4_LIMIT = 256"
definition PTW_MAX_ENTRIES :: nat where "PTW_MAX_ENTRIES = 16384"
definition AUXC_MAX :: nat where "AUXC_MAX = 4096"

record 'k ptw = "'k kstate" +
  g_ptw_state :: int
  g_ptw_dmap :: u64
  g_ptw_pmap_off :: u64
  g_auxc :: "(u64 \<times> u64) list"
  g_auxc_pid :: u32

text \<open>What the walker takes from its surroundings: the address of the kernel's process list, the
  debugger's own process identifier, and the address of its marker variable.\<close>

record ptw_env =
  pe_allproc :: u64
  pe_self :: u32
  pe_gt_va :: u64

definition g_ptw_gt :: u64 where "g_ptw_gt = 0x5E7C0DE5E7C0DE71"

section \<open>Translation\<close>

definition pt_index :: "u64 \<Rightarrow> nat \<Rightarrow> u64" where
  \<comment> \<open>the index into the table of a level, 0 being the root\<close>
  "pt_index va level = drop_bit (39 - level * 9) va AND 0x1FF"

definition pt_entry_addr :: "u64 \<Rightarrow> u64 \<Rightarrow> u64 \<Rightarrow> nat \<Rightarrow> u64" where
  "pt_entry_addr dmap table va level = dmap + table + pt_index va level * 8"

definition large_leaf :: "nat \<Rightarrow> u64 \<Rightarrow> bool" where
  "large_leaf level e \<longleftrightarrow> (level = 1 \<or> level = 2) \<and> e AND PTW_PTE_PS \<noteq> 0"

function vtophys_from :: "'k copyout \<Rightarrow> u64 \<Rightarrow> u64 \<Rightarrow> nat \<Rightarrow> u64 \<Rightarrow> ('k, 'z) kstate_scheme \<Rightarrow> u64 \<times> ('k, 'z) kstate_scheme" where
  "vtophys_from out dmap va level table s =
     (if level \<ge> 4 then (0, s)
      else if table \<ge> PTW_PHYS_BOUND then (0, s)
      else let (rc, e, s) = kout64 out (pt_entry_addr dmap table va level) 0 s in
        if rc \<noteq> 0 then (0, s)
        else if e AND PTW_PTE_PRESENT = 0 then (0, s)
        else if level = 3 then ((e AND PTW_PHYS_MASK) OR (va AND 0xFFF), s)
        else if large_leaf level e then
          let pgmask = (if level = 1 then 0x3FFFFFFF else 0x1FFFFF)
          in (((e AND PTW_PHYS_MASK) AND NOT pgmask) OR (va AND pgmask), s)
        else vtophys_from out dmap va (level + 1) (e AND PTW_PHYS_MASK) s)"
  by pat_completeness auto
termination
  by (relation "measure (\<lambda>(_, _, _, level, _). 4 - level)") auto

declare vtophys_from.simps [simp del]

definition ptw_vtophys :: "'k copyout \<Rightarrow> u64 \<Rightarrow> u64 \<Rightarrow> u64 \<Rightarrow> ('k, 'z) kstate_scheme \<Rightarrow> u64 \<times> ('k, 'z) kstate_scheme" where
  "ptw_vtophys out dmap cr3 va s = vtophys_from out dmap va 0 (cr3 AND PTW_PHYS_MASK) s"

text \<open>The entry that maps an address and its level; the first component is the result code.\<close>

function leaf_from :: "'k copyout \<Rightarrow> u64 \<Rightarrow> u64 \<Rightarrow> nat \<Rightarrow> u64 \<Rightarrow> ('k, 'z) kstate_scheme \<Rightarrow> int \<times> u64 \<times> int \<times> ('k, 'z) kstate_scheme" where
  "leaf_from out dmap va level table s =
     (if level \<ge> 4 then (1, 0, -1, s)
      else if table \<ge> PTW_PHYS_BOUND then (1, 0, int level, s)
      else let (rc, e, s) = kout64 out (pt_entry_addr dmap table va level) 0 s in
        if rc \<noteq> 0 then (1, 0, int level, s)
        else if e AND PTW_PTE_PRESENT = 0 then (1, e, int level, s)
        else if level = 3 then (0, e, 3, s)
        else if large_leaf level e then (0, e, int level, s)
        else leaf_from out dmap va (level + 1) (e AND PTW_PHYS_MASK) s)"
  by pat_completeness auto
termination
  by (relation "measure (\<lambda>(_, _, _, level, _). 4 - level)") auto

declare leaf_from.simps [simp del]

definition ptw_walk_leaf :: "'k copyout \<Rightarrow> u64 \<Rightarrow> u64 \<Rightarrow> u64 \<Rightarrow> ('k, 'z) kstate_scheme \<Rightarrow> int \<times> u64 \<times> int \<times> ('k, 'z) kstate_scheme" where
  "ptw_walk_leaf out dmap cr3 va s = leaf_from out dmap va 0 (cr3 AND PTW_PHYS_MASK) s"

section \<open>Discovery of the direct map\<close>

definition out_pair :: "'k copyout \<Rightarrow> u64 \<Rightarrow> byte list \<Rightarrow> ('k, 'z) kstate_scheme \<Rightarrow> int \<times> u64 \<times> u64 \<times> ('k, 'z) kstate_scheme" where
  \<comment> \<open>two adjacent 64-bit fields into an uninitialised array\<close>
  "out_pair out a stack s = (let (rc, bs, s) = kout out a stack s in (rc, field64 bs 0, field64 bs 8, s))"

definition ptw_try_offset :: "'k copyout \<Rightarrow> byte list \<Rightarrow> u64 \<Rightarrow> u64 \<Rightarrow> u64 \<Rightarrow> u64 \<Rightarrow> ('k, 'z) kstate_scheme \<Rightarrow> u64 \<times> ('k, 'z) kstate_scheme" where
  "ptw_try_offset out stack vmspace off gt_va gt_val s =
     (let (rc, pml4_va, cr3, s) = out_pair out (vmspace + off) stack s in
      if rc \<noteq> 0 then (0, s)
      else if drop_bit 47 pml4_va \<noteq> PTW_CANON_KERNEL then (0, s)
      else if pml4_va AND 0xFFF \<noteq> 0 then (0, s)
      else if cr3 = 0 \<or> cr3 AND 0xFFF \<noteq> 0 then (0, s)
      else if cr3 \<ge> PTW_PHYS_BOUND then (0, s)
      else let dmap = pml4_va - cr3 in
        if dmap AND 0xFFFFFFFF \<noteq> 0 then (0, s)
        else if drop_bit 47 dmap \<noteq> PTW_CANON_KERNEL then (0, s)
        else let (phys, s) = ptw_vtophys out dmap cr3 gt_va s in
          if phys = 0 then (0, s)
          else let (rc, probe, s) = kout64 out (dmap + phys) 0 s in
            if rc \<noteq> 0 then (0, s) else if probe \<noteq> gt_val then (0, s) else (dmap, s))"

definition scan_offs :: "u64 list" where
  \<comment> \<open>the offsets tried after the known one\<close>
  "scan_offs = map of_nat (filter (\<lambda>off. off \<noteq> 0x300) (grid 8 16 0x400 0x100))"

fun try_offsets :: "'k copyout \<Rightarrow> byte list \<Rightarrow> u64 \<Rightarrow> u64 \<Rightarrow> u64 list \<Rightarrow> ('k, 'z) kstate_scheme \<Rightarrow> (u64 \<times> u64) option \<times> ('k, 'z) kstate_scheme" where
  \<comment> \<open>the first offset that leads to the direct map, with the map's base\<close>
  "try_offsets out stack vmspace gt_va [] s = (None, s)"
| "try_offsets out stack vmspace gt_va (off # offs) s =
     (let (dmap, s) = ptw_try_offset out stack vmspace off gt_va g_ptw_gt s
      in if dmap \<noteq> 0 then (Some (off, dmap), s) else try_offsets out stack vmspace gt_va offs s)"

definition ptw_discover :: "'k copyout \<Rightarrow> ptw_env \<Rightarrow> byte list \<Rightarrow> ('k, 'z) ptw_scheme \<Rightarrow> (int \<times> ('k, 'z) ptw_scheme) option" where
  "ptw_discover out env stack s =
     (if g_ptw_state s \<noteq> 0 then Some (g_ptw_state s, s)
      else map_option (\<lambda>(kproc, s).
             let (hit, s) =
                 (if kproc = 0 then (None, s)
                  else let (rc, vmspace, s) = kout64 out (kproc + PTW_PROC_VMSPACE_OFF) 0 s in
                    if rc = 0 \<and> vmspace \<noteq> 0
                    then try_offsets out stack vmspace (pe_gt_va env) (PTW_PMAP_OFF_KNOWN # scan_offs) s
                    else (None, s))
             in case hit of
                  None \<Rightarrow> (-1, s\<lparr>g_ptw_state := -1\<rparr>)
                | Some (off, dmap) \<Rightarrow> (1, s\<lparr>g_ptw_dmap := dmap, g_ptw_pmap_off := off, g_ptw_state := 1\<rparr>))
           (kernel_get_proc_fast out (pe_allproc env) (pe_self env) s))"

text \<open>The steps every operation on a process starts with: its page-table root, or \<open>None\<close> where the
  code returns 1.\<close>

definition ptw_root :: "'k copyout \<Rightarrow> ptw_env \<Rightarrow> byte list \<Rightarrow> u32 \<Rightarrow> ('k, 'z) ptw_scheme \<Rightarrow> (u64 option \<times> ('k, 'z) ptw_scheme) option" where
  "ptw_root out env stack pid s =
     Option.bind (ptw_discover out env stack s) (\<lambda>(st, s).
       if st \<noteq> 1 then Some (None, s)
       else map_option (\<lambda>(kproc, s).
         if kproc = 0 then (None, s)
         else let (rc, vmspace, s) = kout64 out (kproc + PTW_PROC_VMSPACE_OFF) 0 s in
           if rc \<noteq> 0 \<or> vmspace = 0 then (None, s)
           else let (rc, pml4_va, cr3, s) = out_pair out (vmspace + g_ptw_pmap_off s) stack s in
             if rc \<noteq> 0 then (None, s)
             else if cr3 = 0 \<or> cr3 AND 0xFFF \<noteq> 0 \<or> cr3 \<ge> PTW_PHYS_BOUND then (None, s)
             else if pml4_va - cr3 \<noteq> g_ptw_dmap s then (None, s)
             else (Some cr3, s))
       (kernel_get_proc_fast out (pe_allproc env) pid s))"

section \<open>Reads and writes\<close>

definition page_size :: "int \<Rightarrow> u64" where
  \<comment> \<open>0 for a level without pages\<close>
  "page_size lvl = (if lvl = 3 then 0x1000 else if lvl = 2 then 0x200000 else if lvl = 1 then 0x40000000 else 0)"

definition leaf_phys :: "u64 \<Rightarrow> u64 \<Rightarrow> u64 \<Rightarrow> u64" where
  "leaf_phys e psize va =
     (let page_mask = psize - 1 in ((e AND PTW_PHYS_MASK) AND NOT page_mask) + (va AND page_mask))"

definition page_step :: "'k copyout \<Rightarrow> u64 \<Rightarrow> u64 \<Rightarrow> u64 \<Rightarrow> u64 \<Rightarrow> ('k, 'z) kstate_scheme \<Rightarrow> (u64 \<times> u64) option \<times> ('k, 'z) kstate_scheme" where
  \<comment> \<open>the physical address of \<open>cur_va\<close> and how many of the \<open>left\<close> bytes lie on its page\<close>
  "page_step out dmap cr3 cur_va left s =
     (let (rc, e, lvl, s) = ptw_walk_leaf out dmap cr3 cur_va s in
      if rc \<noteq> 0 then (None, s)
      else let psize = page_size lvl in
        if psize = 0 then (None, s)
        else let off_in_page = cur_va AND (psize - 1);
                 phys = leaf_phys e psize cur_va;
                 avail = psize - off_in_page;
                 n = (if left > avail then avail else left)
             in if phys \<ge> PTW_PHYS_BOUND \<or> phys + n > PTW_PHYS_BOUND then (None, s) else (Some (phys, n), s))"

lemma page_step_bounds:
  assumes "page_step out dmap cr3 va left s = (Some (phys, n), s')" "left \<noteq> 0"
  shows "n \<noteq> 0" "n \<le> left"
proof -
  obtain e lvl where ps: "page_size lvl \<noteq> 0"
      and n: "n = (if left > page_size lvl - (va AND (page_size lvl - 1)) then page_size lvl - (va AND (page_size lvl - 1)) else left)"
    using assms(1) by (auto simp: page_step_def Let_def split: prod.splits if_splits)
  have "va AND (page_size lvl - 1) \<le> page_size lvl - 1" by (simp add: word_and_le1)
  also have "\<dots> < page_size lvl" using ps by (auto simp: page_size_def split: if_splits)
  finally have "page_size lvl - (va AND (page_size lvl - 1)) \<noteq> 0" by auto
  then show "n \<noteq> 0" "n \<le> left" using n assms(2) by auto
qed

text \<open>\<open>dst\<close> is the whole destination, of which \<open>off\<close> bytes are filled.\<close>

function read_loop :: "'k copyout \<Rightarrow> u64 \<Rightarrow> u64 \<Rightarrow> u64 \<Rightarrow> u64 \<Rightarrow> u64 \<Rightarrow> byte list \<Rightarrow> ('k, 'z) kstate_scheme \<Rightarrow> int \<times> byte list \<times> ('k, 'z) kstate_scheme" where
  "read_loop out dmap cr3 va len off dst s =
     (if off < len then
        case page_step out dmap cr3 (va + off) (len - off) s of
          (None, s) \<Rightarrow> (1, dst, s)
        | (Some (phys, n), s) \<Rightarrow>
          let (rc, bs, s) = kout out (dmap + phys) (take (unat n) (drop (unat off) dst)) s;
              dst = splice dst (unat off) bs
          in if rc \<noteq> 0 then (1, dst, s) else read_loop out dmap cr3 va len (off + n) dst s
      else (0, dst, s))"
  by pat_completeness auto

lemma loop_decreases:
  assumes "page_step out dmap cr3 va (len - off) s = (Some (phys, n), s')" "off < len"
  shows "unat (len - (off + n)) < unat (len - off)" "unat (off + n) = unat off + unat n" "off + n \<le> len"
proof -
  have "len - off \<noteq> 0" using assms(2) by auto
  note b = page_step_bounds [OF assms(1) this]
  have u: "unat (len - off) = unat len - unat off" using assms(2) by (simp add: unat_diff)
  have "unat n \<le> unat (len - off)" using b(2) by (simp add: word_le_nat_alt)
  moreover have "0 < unat n" using b(1) by (simp add: unat_gt_0)
  moreover have "unat len < 2 ^ 64" using unsigned_less [of len, where ?'a = nat] by simp
  moreover have "unat off < unat len" using assms(2) by (simp add: word_less_nat_alt)
  ultimately have s: "unat off + unat n \<le> unat len" "0 < unat n" "unat off + unat n < 2 ^ 64" using u by linarith+
  then show a: "unat (off + n) = unat off + unat n" by (simp add: unat_word_ariths)
  show "off + n \<le> len" using s(1) a by (simp add: word_le_nat_alt)
  then show "unat (len - (off + n)) < unat (len - off)" using a s u by (simp add: unat_diff)
qed

termination read_loop
  by (relation "measure (\<lambda>(_, _, _, _, len, off, _). unat (len - off))") (auto intro: loop_decreases(1) [OF sym])

declare read_loop.simps [simp del]

function write_loop :: "'k copyout \<Rightarrow> 'k copyin \<Rightarrow> u64 \<Rightarrow> u64 \<Rightarrow> u64 \<Rightarrow> u64 \<Rightarrow> u64 \<Rightarrow> byte list \<Rightarrow> ('k, 'z) kstate_scheme \<Rightarrow> int \<times> ('k, 'z) kstate_scheme" where
  "write_loop out inn dmap cr3 va len off src s =
     (if off < len then
        case page_step out dmap cr3 (va + off) (len - off) s of
          (None, s) \<Rightarrow> (1, s)
        | (Some (phys, n), s) \<Rightarrow>
          let (rc, s) = kin inn (take (unat n) (drop (unat off) src)) (dmap + phys) s
          in if rc \<noteq> 0 then (1, s) else write_loop out inn dmap cr3 va len (off + n) src s
      else (0, s))"
  by pat_completeness auto

termination write_loop
  by (relation "measure (\<lambda>(_, _, _, _, _, len, off, _). unat (len - off))") (auto intro: loop_decreases(1) [OF sym])

declare write_loop.simps [simp del]

definition proc_ptwalk_write ::
    "'k copyout \<Rightarrow> 'k copyin \<Rightarrow> ptw_env \<Rightarrow> byte list \<Rightarrow> u32 \<Rightarrow> u64 \<Rightarrow> byte list option \<Rightarrow> ('k, 'z) ptw_scheme \<Rightarrow> (int \<times> ('k, 'z) ptw_scheme) option" where
  \<comment> \<open>\<open>src\<close> is the buffer of \<open>len\<close> bytes, \<open>None\<close> for \<^verbatim>\<open>NULL\<close>\<close>
  "proc_ptwalk_write out inn env stack pid va src s = (case src of
       None \<Rightarrow> Some (1, s)
     | Some bs \<Rightarrow>
       if sint pid \<le> 0 \<or> bs = [] then Some (1, s)
       else map_option (\<lambda>(root, s). case root of
                None \<Rightarrow> (1, s)
              | Some cr3 \<Rightarrow> write_loop out inn (g_ptw_dmap s) cr3 va (of_nat (length bs)) 0 bs s)
            (ptw_root out env stack pid s))"

definition proc_ptwalk_read ::
    "'k copyout \<Rightarrow> ptw_env \<Rightarrow> byte list \<Rightarrow> u32 \<Rightarrow> u64 \<Rightarrow> byte list option \<Rightarrow> ('k, 'z) ptw_scheme \<Rightarrow> (int \<times> byte list \<times> ('k, 'z) ptw_scheme) option" where
  "proc_ptwalk_read out env stack pid va dst s = (case dst of
       None \<Rightarrow> Some (1, [], s)
     | Some bs \<Rightarrow>
       if sint pid \<le> 0 \<or> bs = [] then Some (1, bs, s)
       else map_option (\<lambda>(root, s). case root of
                None \<Rightarrow> (1, bs, s)
              | Some cr3 \<Rightarrow> read_loop out (g_ptw_dmap s) cr3 va (of_nat (length bs)) 0 bs s)
            (ptw_root out env stack pid s))"

section \<open>Accessors\<close>

definition proc_ptwalk_dmap_base :: "('k, 'z) ptw_scheme \<Rightarrow> u64" where
  "proc_ptwalk_dmap_base s = g_ptw_dmap s"

function leaf_addr_from :: "'k copyout \<Rightarrow> u64 \<Rightarrow> u64 \<Rightarrow> nat \<Rightarrow> u64 \<Rightarrow> ('k, 'z) kstate_scheme \<Rightarrow> int \<times> (u64 \<times> u64) option \<times> ('k, 'z) kstate_scheme" where
  "leaf_addr_from out dmap va level table s =
     (if level \<ge> 4 then (1, None, s)
      else if table \<ge> PTW_PHYS_BOUND then (1, None, s)
      else let ent_kaddr = pt_entry_addr dmap table va level;
               (rc, e, s) = kout64 out ent_kaddr 0 s in
        if rc \<noteq> 0 then (1, None, s)
        else if level = 3 then (0, Some (ent_kaddr, e), s)
        else if e AND PTW_PTE_PRESENT = 0 then (2, None, s)
        else if large_leaf level e then (3, None, s)
        else leaf_addr_from out dmap va (level + 1) (e AND PTW_PHYS_MASK) s)"
  by pat_completeness auto
termination
  by (relation "measure (\<lambda>(_, _, _, level, _). 4 - level)") auto

declare leaf_addr_from.simps [simp del]

definition proc_ptwalk_leaf_addr ::
    "'k copyout \<Rightarrow> ptw_env \<Rightarrow> byte list \<Rightarrow> u32 \<Rightarrow> u64 \<Rightarrow> ('k, 'z) ptw_scheme \<Rightarrow> (int \<times> (u64 \<times> u64) option \<times> ('k, 'z) ptw_scheme) option" where
  \<comment> \<open>the result code, and the address and value of the leaf entry where they are set\<close>
  "proc_ptwalk_leaf_addr out env stack pid va s =
     (if sint pid \<le> 0 then Some (1, None, s)
      else map_option (\<lambda>(root, s). case root of
               None \<Rightarrow> (1, None, s)
             | Some cr3 \<Rightarrow> leaf_addr_from out (g_ptw_dmap s) va 0 (cr3 AND PTW_PHYS_MASK) s)
           (ptw_root out env stack pid s))"

record probe_result =
  pr_phys :: u64
  pr_level :: int
  pr_pagesize :: u64
  pr_pte :: u64

definition proc_ptwalk_probe ::
    "'k copyout \<Rightarrow> ptw_env \<Rightarrow> byte list \<Rightarrow> u32 \<Rightarrow> u64 \<Rightarrow> ('k, 'z) ptw_scheme \<Rightarrow> (int \<times> probe_result option \<times> ('k, 'z) ptw_scheme) option" where
  "proc_ptwalk_probe out env stack pid va s =
     (if sint pid \<le> 0 then Some (1, None, s)
      else map_option (\<lambda>(root, s). case root of
               None \<Rightarrow> (1, None, s)
             | Some cr3 \<Rightarrow>
               let (rc, e, lvl, s) = ptw_walk_leaf out (g_ptw_dmap s) cr3 va s in
               if rc \<noteq> 0 then (1, None, s)
               else if e AND PTW_PTE_PRESENT = 0 then (1, None, s)
               else let psize = page_size lvl in
                 if psize = 0 then (1, None, s)
                 else (0, Some \<lparr>pr_phys = leaf_phys e psize va, pr_level = lvl, pr_pagesize = psize, pr_pte = e\<rparr>, s))
           (ptw_root out env stack pid s))"

record span_result =
  sr_huge :: bool
  sr_phys_base :: u64
  sr_leaf_pt_kaddr :: u64
  sr_pte :: u64

function span_from :: "'k copyout \<Rightarrow> u64 \<Rightarrow> u64 \<Rightarrow> nat \<Rightarrow> u64 \<Rightarrow> ('k, 'z) kstate_scheme \<Rightarrow> int \<times> span_result option \<times> ('k, 'z) kstate_scheme" where
  "span_from out dmap span2m level table s =
     (if level \<ge> 3 then
        (if table \<ge> PTW_PHYS_BOUND then (1, None, s)
         else (0, Some \<lparr>sr_huge = False, sr_phys_base = 0, sr_leaf_pt_kaddr = dmap + table, sr_pte = 0\<rparr>, s))
      else if table \<ge> PTW_PHYS_BOUND then (1, None, s)
      else let (rc, e, s) = kout64 out (pt_entry_addr dmap table span2m level) 0 s in
        if rc \<noteq> 0 then (1, None, s)
        else if e AND PTW_PTE_PRESENT = 0 then (1, None, s)
        else if large_leaf level e then
          let pgsz = (if level = 1 then 0x40000000 else 0x200000);
              base = (e AND PTW_PHYS_MASK) AND NOT (pgsz - 1)
          in (0, Some \<lparr>sr_huge = True, sr_phys_base = base + (span2m AND (pgsz - 1)), sr_leaf_pt_kaddr = 0, sr_pte = e\<rparr>, s)
        else span_from out dmap span2m (level + 1) (e AND PTW_PHYS_MASK) s)"
  by pat_completeness auto
termination
  by (relation "measure (\<lambda>(_, _, _, level, _). 4 - level)") auto

declare span_from.simps [simp del]

definition proc_ptwalk_span_resolve ::
    "'k copyout \<Rightarrow> ptw_env \<Rightarrow> byte list \<Rightarrow> u32 \<Rightarrow> u64 \<Rightarrow> ('k, 'z) ptw_scheme \<Rightarrow> (int \<times> span_result option \<times> ('k, 'z) ptw_scheme) option" where
  "proc_ptwalk_span_resolve out env stack pid span2m s =
     (if sint pid \<le> 0 then Some (1, None, s)
      else map_option (\<lambda>(root, s). case root of
               None \<Rightarrow> (1, None, s)
             | Some cr3 \<Rightarrow> span_from out (g_ptw_dmap s) span2m 0 (cr3 AND PTW_PHYS_MASK) s)
           (ptw_root out env stack pid s))"

section \<open>Enumeration of the mapped pages\<close>

text \<open>The coalescer: the entries written so far and the run being extended.\<close>

record ptw_coal =
  ents :: "vm_entry list"
  have_run :: bool
  cur_start :: u64
  cur_end :: u64
  cur_prot :: u16

definition ptw_pte_prot :: "u64 \<Rightarrow> u16" where
  "ptw_pte_prot pte =
     (let prot = 1;
          prot = (if pte AND PTW_PTE_RW \<noteq> 0 then prot OR 2 else prot)
      in if pte AND PTW_PTE_NX = 0 then prot OR 4 else prot)"

definition aux_name :: "byte list" where
  \<comment> \<open>the 32 bytes of \<^verbatim>\<open>"(aux)"\<close>\<close>
  "aux_name = [40, 97, 117, 120, 41] @ replicate 27 0"

definition ptw_coal_flush :: "ptw_coal \<Rightarrow> ptw_coal" where
  "ptw_coal_flush c =
     (if \<not> have_run c \<or> length (ents c) \<ge> PTW_MAX_ENTRIES then c
      else c\<lparr>ents := ents c @ [\<lparr>vm_name = aux_name, vm_start = cur_start c, vm_end = cur_end c, vm_offset = 0,
                                vm_prot = cur_prot c\<rparr>]\<rparr>)"

definition ptw_coal_emit :: "u64 \<Rightarrow> u64 \<Rightarrow> u64 \<Rightarrow> ptw_coal \<Rightarrow> ptw_coal" where
  "ptw_coal_emit start end_addr pte c =
     (let prot = ptw_pte_prot pte in
      if have_run c \<and> start = cur_end c \<and> prot = cur_prot c then c\<lparr>cur_end := end_addr\<rparr>
      else (ptw_coal_flush c)\<lparr>have_run := True, cur_start := start, cur_end := end_addr, cur_prot := prot\<rparr>)"

text \<open>The four nested loops, innermost first. A loop stops once the output is full. A table that
  cannot be read is skipped; the buffers \<open>pdpt\<close>, \<open>pd\<close> and \<open>pt\<close> are reused.\<close>

definition tab :: "byte list \<Rightarrow> nat \<Rightarrow> u64" where
  "tab page i = field64 page (8 * i)"

definition pt_step :: "byte list \<Rightarrow> u64 \<Rightarrow> nat \<Rightarrow> ptw_coal \<Rightarrow> ptw_coal" where
  "pt_step pt va2 m c =
     (if length (ents c) \<ge> PTW_MAX_ENTRIES then c
      else let e1 = tab pt m in
        if e1 AND PTW_PTE_PRESENT = 0 then c
        else let va1 = va2 OR push_bit 12 (of_nat m) in ptw_coal_emit va1 (va1 + 0x1000) e1 c)"

definition pd_step :: "'k copyout \<Rightarrow> u64 \<Rightarrow> byte list \<Rightarrow> u64 \<Rightarrow> nat \<Rightarrow> byte list \<times> ptw_coal \<times> ('k, 'z) kstate_scheme \<Rightarrow> byte list \<times> ptw_coal \<times> ('k, 'z) kstate_scheme" where
  "pd_step out dmap pd va3 k = (\<lambda>(pt, c, s).
     if length (ents c) \<ge> PTW_MAX_ENTRIES then (pt, c, s)
     else let e2 = tab pd k in
       if e2 AND PTW_PTE_PRESENT = 0 then (pt, c, s)
       else let va2 = va3 OR push_bit 21 (of_nat k) in
         if e2 AND PTW_PTE_PS \<noteq> 0 then (pt, ptw_coal_emit va2 (va2 + 0x200000) e2 c, s)
         else let p1 = e2 AND PTW_PHYS_MASK in
           if p1 \<ge> PTW_PHYS_BOUND then (pt, c, s)
           else let (rc, pt, s) = kout out (dmap + p1) pt s in
             if rc \<noteq> 0 then (pt, c, s) else (pt, fold (pt_step pt va2) [0..<512] c, s))"

definition pdpt_step :: "'k copyout \<Rightarrow> u64 \<Rightarrow> byte list \<Rightarrow> nat \<Rightarrow> nat \<Rightarrow>
    byte list \<times> byte list \<times> ptw_coal \<times> ('k, 'z) kstate_scheme \<Rightarrow> byte list \<times> byte list \<times> ptw_coal \<times> ('k, 'z) kstate_scheme" where
  "pdpt_step out dmap pdpt i j = (\<lambda>(pd, pt, c, s).
     if length (ents c) \<ge> PTW_MAX_ENTRIES then (pd, pt, c, s)
     else let e3 = tab pdpt j in
       if e3 AND PTW_PTE_PRESENT = 0 then (pd, pt, c, s)
       else let va3 = push_bit 39 (of_nat i) OR push_bit 30 (of_nat j) in
         if e3 AND PTW_PTE_PS \<noteq> 0 then (pd, pt, ptw_coal_emit va3 (va3 + 0x40000000) e3 c, s)
         else let p2 = e3 AND PTW_PHYS_MASK in
           if p2 \<ge> PTW_PHYS_BOUND then (pd, pt, c, s)
           else let (rc, pd, s) = kout out (dmap + p2) pd s in
             if rc \<noteq> 0 then (pd, pt, c, s)
             else let (pt, c, s) = fold (pd_step out dmap pd va3) [0..<512] (pt, c, s) in (pd, pt, c, s))"

definition pml4_step :: "'k copyout \<Rightarrow> u64 \<Rightarrow> byte list \<Rightarrow> nat \<Rightarrow>
    byte list \<times> byte list \<times> byte list \<times> ptw_coal \<times> ('k, 'z) kstate_scheme \<Rightarrow> byte list \<times> byte list \<times> byte list \<times> ptw_coal \<times> ('k, 'z) kstate_scheme" where
  "pml4_step out dmap pml4 i = (\<lambda>(pdpt, pd, pt, c, s).
     if length (ents c) \<ge> PTW_MAX_ENTRIES then (pdpt, pd, pt, c, s)
     else let e4 = tab pml4 i in
       if e4 AND PTW_PTE_PRESENT = 0 then (pdpt, pd, pt, c, s)
       else let p3 = e4 AND PTW_PHYS_MASK in
         if p3 \<ge> PTW_PHYS_BOUND then (pdpt, pd, pt, c, s)
         else let (rc, pdpt, s) = kout out (dmap + p3) pdpt s in
           if rc \<noteq> 0 then (pdpt, pd, pt, c, s)
           else let (pd, pt, c, s) = fold (pdpt_step out dmap pdpt i) [0..<512] (pd, pt, c, s) in (pdpt, pd, pt, c, s))"

definition empty_coal :: ptw_coal where
  "empty_coal = \<lparr>ents = [], have_run = False, cur_start = 0, cur_end = 0, cur_prot = 0\<rparr>"

definition ptw_enumerate ::
    "'k copyout \<Rightarrow> (byte list \<times> byte list \<times> byte list \<times> byte list) option \<Rightarrow> u64 \<Rightarrow> ('k, 'z) ptw_scheme \<Rightarrow> vm_entry list option \<times> ('k, 'z) ptw_scheme" where
  \<comment> \<open>\<open>blocks\<close>: the four page buffers \<^verbatim>\<open>malloc\<close> returned, \<open>None\<close> if one of the five allocations failed\<close>
  "ptw_enumerate out blocks cr3 s = (case blocks of
       None \<Rightarrow> (None, s)
     | Some (pml4, pdpt, pd, pt) \<Rightarrow>
       let dmap = g_ptw_dmap s; pml4_phys = cr3 AND PTW_PHYS_MASK in
       if pml4_phys \<ge> PTW_PHYS_BOUND then (None, s)
       else let (rc, pml4, s) = kout out (dmap + pml4_phys) pml4 s in
         if rc \<noteq> 0 then (None, s)
         else let (pdpt, pd, pt, c, s) = fold (pml4_step out dmap pml4) [0..<PTW_USER_PML4_LIMIT] (pdpt, pd, pt, empty_coal, s);
                  es = ents (ptw_coal_flush c)
              in (if es = [] then None else Some es, s))"

section \<open>Merging with the kernel's list\<close>

fun merge_loop :: "vm_entry list \<Rightarrow> vm_entry list \<Rightarrow> vm_entry list" where
  "merge_loop (v # vs) (e # es) =
     (if vm_start v = vm_start e then v # merge_loop vs es
      else if vm_start v < vm_start e then v # merge_loop vs (e # es)
      else e # merge_loop (v # vs) es)"
| "merge_loop vs [] = vs"
| "merge_loop [] es = es"

definition ptw_merge :: "bool \<Rightarrow> vm_entry list \<Rightarrow> vm_entry list \<Rightarrow> vm_entry list option" where
  \<comment> \<open>\<open>mem_ok\<close>: the output could be allocated\<close>
  "ptw_merge mem_ok v e =
     (if length v + length e = 0 then None else if \<not> mem_ok then None else Some (merge_loop v e))"

definition is_aux :: "vm_entry \<Rightarrow> bool" where
  "is_aux e \<longleftrightarrow> take 6 (vm_name e) = [40, 97, 117, 120, 41, 0] \<and> vm_end e > vm_start e"

definition auxc_rebuild :: "u32 \<Rightarrow> vm_entry list \<Rightarrow> ('k, 'z) ptw_scheme \<Rightarrow> ('k, 'z) ptw_scheme" where
  "auxc_rebuild pid m s =
     s\<lparr>g_auxc := take AUXC_MAX (map (\<lambda>e. (vm_start e, vm_end e)) (filter is_aux m)), g_auxc_pid := pid\<rparr>"

definition proc_aux_range_contains :: "u32 \<Rightarrow> u64 \<Rightarrow> u64 \<Rightarrow> ('k, 'z) ptw_scheme \<Rightarrow> bool" where
  "proc_aux_range_contains pid addr len s =
     (if pid \<noteq> g_auxc_pid s \<or> g_auxc s = [] \<or> len = 0 then False
      else let limit = addr + len in
        if limit < addr then False
        else list_ex (\<lambda>(lo, hi). addr \<ge> lo \<and> limit \<le> hi) (g_auxc s))"

definition proc_ptwalk_augment ::
    "'k copyout \<Rightarrow> ptw_env \<Rightarrow> byte list \<Rightarrow> (byte list \<times> byte list \<times> byte list \<times> byte list) option \<Rightarrow> bool \<Rightarrow> u32 \<Rightarrow> vm_entry list \<Rightarrow>
      ('k, 'z) ptw_scheme \<Rightarrow> (vm_entry list option \<times> ('k, 'z) ptw_scheme) option" where
  \<comment> \<open>\<open>None\<close> in the first component is the result 1\<close>
  "proc_ptwalk_augment out env stack blocks mem_ok pid v s =
     (if sint pid \<le> 0 \<or> v = [] then Some (None, s)
      else map_option (\<lambda>(root, s). case root of
               None \<Rightarrow> (None, s)
             | Some cr3 \<Rightarrow>
               (case ptw_enumerate out blocks cr3 s of
                  (None, s) \<Rightarrow> (None, s)
                | (Some e, s) \<Rightarrow>
                  (case ptw_merge mem_ok v e of
                     None \<Rightarrow> (None, s)
                   | Some o_buf \<Rightarrow> (Some o_buf, auxc_rebuild pid o_buf s))))
           (ptw_root out env stack pid s))"

end
