(* ===== verification/PtWalkMap.thy ===== *)
theory PtWalkMap
  imports PtWalkProps
begin

text \<open>
  The list of mappings the page-table walker builds: the coalescer keeps exactly the emitted
  pages, the merge keeps every mapping of the kernel and adds only what it does not list, and the
  cache of auxiliary ranges answers for exactly the ranges it was built from.
\<close>

section \<open>Coalescing\<close>

type_synonym page = "u64 \<times> u64 \<times> u64"

definition page_cells :: "page set \<Rightarrow> (u64 \<times> u16) set" where
  \<comment> \<open>the addresses of some pages, each with the protection its entry gives\<close>
  "page_cells P = (\<Union>(s, t, e)\<in>P. {s..<t} \<times> {ptw_pte_prot e})"

definition entry_cells :: "vm_entry list \<Rightarrow> (u64 \<times> u16) set" where
  "entry_cells es = (\<Union>e\<in>set es. {vm_start e..<vm_end e} \<times> {vm_prot e})"

definition run_cells :: "ptw_coal \<Rightarrow> (u64 \<times> u16) set" where
  "run_cells c = (if have_run c then {cur_start c..<cur_end c} \<times> {cur_prot c} else {})"

definition coal_cells :: "ptw_coal \<Rightarrow> (u64 \<times> u16) set" where
  "coal_cells c = entry_cells (ents c) \<union> run_cells c"

definition coal_ok :: "ptw_coal \<Rightarrow> bool" where
  "coal_ok c \<longleftrightarrow> have_run c \<longrightarrow> cur_start c < cur_end c"

lemma entry_cells_append: "entry_cells (xs @ ys) = entry_cells xs \<union> entry_cells ys"
  by (auto simp: entry_cells_def)

lemma flush_cells:
  "length (ents c) < PTW_MAX_ENTRIES \<Longrightarrow> entry_cells (ents (ptw_coal_flush c)) = coal_cells c"
  by (auto simp: ptw_coal_flush_def coal_cells_def run_cells_def entry_cells_def)

lemma emit_cells:
  assumes "length (ents c) < PTW_MAX_ENTRIES" "coal_ok c" "s < t"
  shows "coal_cells (ptw_coal_emit s t pte c) = coal_cells c \<union> page_cells {(s, t, pte)}" "coal_ok (ptw_coal_emit s t pte c)"
proof -
  show "coal_ok (ptw_coal_emit s t pte c)"
    using assms(2,3) by (auto simp: ptw_coal_emit_def Let_def coal_ok_def)
  show "coal_cells (ptw_coal_emit s t pte c) = coal_cells c \<union> page_cells {(s, t, pte)}"
  proof (cases "have_run c \<and> s = cur_end c \<and> ptw_pte_prot pte = cur_prot c")
    case True
    then have "run_cells (c\<lparr>cur_end := t\<rparr>) = run_cells c \<union> page_cells {(s, t, pte)}"
      using assms(2,3) by (auto simp: run_cells_def page_cells_def coal_ok_def)
    then show ?thesis using True by (auto simp: ptw_coal_emit_def Let_def coal_cells_def)
  next
    case False
    let ?c = "(ptw_coal_flush c)\<lparr>have_run := True, cur_start := s, cur_end := t, cur_prot := ptw_pte_prot pte\<rparr>"
    have "run_cells ?c = page_cells {(s, t, pte)}" by (auto simp: run_cells_def page_cells_def)
    moreover have "entry_cells (ents ?c) = coal_cells c" using flush_cells [OF assms(1)] by simp
    ultimately show ?thesis unfolding ptw_coal_emit_def Let_def if_not_P [OF False] coal_cells_def [of ?c] by simp
  qed
qed

text \<open>The pages of a run of calls; a call on a full output is not made.\<close>

definition emit_page :: "page \<Rightarrow> ptw_coal \<Rightarrow> ptw_coal" where
  "emit_page = (\<lambda>(s, t, e) c. if length (ents c) \<ge> PTW_MAX_ENTRIES then c else ptw_coal_emit s t e c)"

lemma emit_page_mono: "length (ents c) \<le> length (ents (emit_page p c))"
  by (auto simp: emit_page_def ptw_coal_emit_def ptw_coal_flush_def Let_def split: prod.splits)

lemma fold_emit_mono: "length (ents c) \<le> length (ents (fold emit_page ps c))"
  by (induction ps arbitrary: c) (auto intro: order_trans [OF emit_page_mono])

lemma fold_emit_cells:
  assumes "coal_ok c" "\<forall>(s, t, e)\<in>set ps. s < t" "length (ents (fold emit_page ps c)) < PTW_MAX_ENTRIES"
  shows "coal_cells (fold emit_page ps c) = coal_cells c \<union> page_cells (set ps) \<and> coal_ok (fold emit_page ps c)"
  using assms
proof (induction ps arbitrary: c)
  case Nil
  then show ?case by (simp add: page_cells_def)
next
  case (Cons p ps)
  obtain s t e where p: "p = (s, t, e)" by (metis prod_cases3)
  have lt: "length (ents c) < PTW_MAX_ENTRIES"
    using fold_emit_mono [of c "p # ps"] Cons.prems(3) by simp
  then have step: "emit_page p c = ptw_coal_emit s t e c" by (simp add: emit_page_def p)
  have "s < t" using Cons.prems(2) by (simp add: p)
  note ec = emit_cells [OF lt Cons.prems(1) this, of e]
  have "coal_cells (fold emit_page ps (emit_page p c)) = coal_cells (emit_page p c) \<union> page_cells (set ps)
      \<and> coal_ok (fold emit_page ps (emit_page p c))"
    using Cons.IH [of "emit_page p c"] Cons.prems(2,3) ec(2) by (simp add: step)
  moreover have "page_cells (set (p # ps)) = page_cells {p} \<union> page_cells (set ps)" by (auto simp: page_cells_def)
  ultimately show ?case using ec(1) step by (simp add: p Un_assoc)
qed



section \<open>Merging\<close>

abbreviation by_start :: "vm_entry list \<Rightarrow> bool" where
  "by_start es \<equiv> sorted_wrt (\<lambda>a b. vm_start a < vm_start b) es"

lemma set_merge_loop:
  "by_start vs \<Longrightarrow> by_start es \<Longrightarrow>
   set (merge_loop vs es) = set vs \<union> {e \<in> set es. vm_start e \<notin> vm_start ` set vs}"
proof (induction vs es rule: merge_loop.induct)
  case (1 v vs e es)
  consider "vm_start v = vm_start e" | "vm_start v < vm_start e" | "vm_start e < vm_start v" by (meson linorder_less_linear)
  then show ?case
  proof cases
    case 1
    then have "\<forall>x\<in>set es. vm_start x \<noteq> vm_start v" using "1.prems"(2) by auto
    with 1 "1.IH"(1) "1.prems" show ?thesis by auto
  next
    case 2
    then have "\<forall>x\<in>set (e # es). vm_start x \<noteq> vm_start v" using "1.prems"(2) by auto
    with 2 "1.IH"(2) "1.prems" show ?thesis by auto
  next
    case 3
    then have "vm_start e \<notin> vm_start ` set (v # vs)" using "1.prems"(1) by auto
    with 3 "1.IH"(3) "1.prems" show ?thesis by auto
  qed
qed auto

lemma sorted_merge_loop:
  assumes "by_start vs" "by_start es"
  shows "by_start (merge_loop vs es)"
  using assms
proof (induction vs es rule: merge_loop.induct)
  case (1 v vs e es)
  consider "vm_start v = vm_start e" | "vm_start v < vm_start e" | "vm_start e < vm_start v" by (meson linorder_less_linear)
  then show ?case
  proof cases
    case 1
    with "1.IH"(1) "1.prems" show ?thesis by (auto simp: set_merge_loop)
  next
    case 2
    then have "\<forall>x\<in>set (e # es). vm_start v < vm_start x" using "1.prems"(2) by auto
    with 2 "1.IH"(2) "1.prems" show ?thesis by (auto simp: set_merge_loop)
  next
    case 3
    then have "\<forall>x\<in>set (v # vs). vm_start e < vm_start x" using "1.prems"(1) by auto
    with 3 "1.IH"(3) "1.prems" show ?thesis by (auto simp: set_merge_loop)
  qed
qed auto

text \<open>
  Merging the two lists of mappings. Of two lists in ascending order the merge is again in
  ascending order; it holds every mapping the kernel lists, unchanged, and besides them exactly
  the walked ranges whose start the kernel does not list.
\<close>

theorem ptw_merge_correct:
  assumes "by_start v" "by_start e" "v \<noteq> [] \<or> e \<noteq> []"
  shows "\<exists>r. ptw_merge True v e = Some r \<and> by_start r
    \<and> set r = set v \<union> {x \<in> set e. vm_start x \<notin> vm_start ` set v}"
  using assms sorted_merge_loop [OF assms(1,2)] set_merge_loop [OF assms(1,2)]
  by (auto simp: ptw_merge_def)

definition example_map :: "u64 \<Rightarrow> vm_entry" where
  "example_map a = \<lparr>vm_name = aux_name, vm_start = a, vm_end = a + 0x1000, vm_offset = 0, vm_prot = 3\<rparr>"

theorem ptw_merge_correct_witness:
  "\<exists>r. ptw_merge True [example_map 0x1000, example_map 0x5000] [example_map 0x1000, example_map 0x3000] = Some r
     \<and> set r = {example_map 0x1000, example_map 0x3000, example_map 0x5000}"
proof -
  have "by_start [example_map 0x1000, example_map 0x5000]" "by_start [example_map 0x1000, example_map 0x3000]"
    by (simp_all add: example_map_def)
  from ptw_merge_correct [OF this] show ?thesis
    by (auto simp: example_map_def)
qed

section \<open>The cache of auxiliary ranges\<close>

text \<open>
  The cache of auxiliary ranges. After it was built from a list of mappings with at most 4096
  auxiliary ones, a query succeeds exactly for the process it was built for and a non-empty range
  that does not wrap around the address space and lies inside one auxiliary mapping.
\<close>

lemma proc_aux_range_contains_iff:
  assumes "length (filter is_aux m) \<le> AUXC_MAX"
  shows "proc_aux_range_contains pid addr len (auxc_rebuild q m s) \<longleftrightarrow>
    pid = q \<and> len \<noteq> 0 \<and> unat addr + unat len < 2 ^ 64
    \<and> (\<exists>e\<in>set m. is_aux e \<and> vm_start e \<le> addr \<and> unat addr + unat len \<le> unat (vm_end e))"
proof -
  have c: "g_auxc (auxc_rebuild q m s) = map (\<lambda>e. (vm_start e, vm_end e)) (filter is_aux m)" "g_auxc_pid (auxc_rebuild q m s) = q"
    using assms by (simp_all add: auxc_rebuild_def)
  have wrap: "addr + len < addr \<longleftrightarrow> \<not> unat addr + unat len < 2 ^ 64" if "len \<noteq> 0"
  proof (cases "unat addr + unat len < 2 ^ 64")
    case True
    then show ?thesis by (simp add: word_less_nat_alt unat_word_ariths)
  next
    case False
    have b: "unat addr < 2 ^ 64" "unat len < 2 ^ 64"
      using unsigned_less [of addr, where ?'a = nat] unsigned_less [of len, where ?'a = nat] by simp_all
    then have "unat (addr + len) = unat addr + unat len - 2 ^ 64"
      using False by (simp add: unat_word_ariths mod_if)
    then show ?thesis using False b by (simp add: word_less_nat_alt)
  qed
  have le: "addr + len \<le> x \<longleftrightarrow> unat addr + unat len \<le> unat x" if "unat addr + unat len < 2 ^ 64" for x
    using that by (simp add: word_le_nat_alt unat_word_ariths)
  show ?thesis
    unfolding proc_aux_range_contains_def c using wrap le
    by (auto simp: Let_def list_ex_iff filter_empty_conv)
qed

end
