(* ===== verification/ProcMem.thy ===== *)
theory ProcMem
  imports PtWalkProps
begin

text \<open>
  Access to the memory of another process: the privileged system call of
  \<^verbatim>\<open>common/source/sys_proc_rw.c\<close>, the choice between it and the page tables in
  \<^verbatim>\<open>proc_read_mem\<close> and \<^verbatim>\<open>proc_write_mem\<close> (\<^verbatim>\<open>debugger/source/proc.c\<close>), the list of
  mappings the kernel keeps (\<^verbatim>\<open>sys_proc_vm_map\<close> in \<^verbatim>\<open>debugger/source/scan.c\<close>) and the
  firmware-dependent offsets of \<^verbatim>\<open>common/source/proc_field_offsets.c\<close>.

  System call 573 belongs to the console's kernel and is a parameter: it takes the operation, the
  process, the address and the caller's buffer and returns its result, the number of bytes it
  reports in \<^verbatim>\<open>out_struct[1]\<close>, the buffer afterwards and the kernel.
\<close>

section \<open>State\<close>

record proc_field_offsets =
  po_name :: u32
  po_path :: u32
  po_titleid :: u32
  po_contentid :: u32
  po_known :: bool

text \<open>The static variables of the operations: the two firmware tests (-1 where not made yet), the
  offsets of the map entries and the cached field offsets.\<close>

record 'k pmem = "'k ptw" +
  s_fw_needs_dmap :: int
  s_fw_needs_dmap_st :: int
  vmmap_offs_initialized :: bool
  vmmap_nentries_adj :: nat
  vmmap_name_adj :: nat
  pfo_cached :: "proc_field_offsets option"

type_synonym 'k mdbg = "u64 \<Rightarrow> u64 \<Rightarrow> u64 \<Rightarrow> byte list \<Rightarrow> 'k \<Rightarrow> int \<times> u64 \<times> byte list \<times> 'k"

text \<open>What the operations take from their surroundings: the kernel copies, the addresses and the
  identifier the walker needs, the contents of an uninitialised stack variable, the system call
  and the firmware version.\<close>

record 'k sysenv =
  sy_out :: "'k copyout"
  sy_in :: "'k copyin"
  sy_ptw :: ptw_env
  sy_stack :: "byte list"
  sy_573 :: "'k mdbg"
  sy_fw :: u32

section \<open>The privileged system call\<close>

definition PRIV_AUTHID :: u64 where "PRIV_AUTHID = 0x4800000000000006"

text \<open>\<open>call\<close> is the system call on the caller's variables \<open>a\<close>.\<close>

definition priv_syscall_573 ::
    "'k copyout \<Rightarrow> 'k copyin \<Rightarrow> ptw_env \<Rightarrow> ('a \<Rightarrow> 'k \<Rightarrow> int \<times> 'a \<times> 'k) \<Rightarrow> 'a \<Rightarrow> ('k, 'z) kstate_scheme
      \<Rightarrow> (int \<times> 'a \<times> ('k, 'z) kstate_scheme) option" where
  "priv_syscall_573 out inn env call a s =
     map_option (\<lambda>(ucred, s).
       if ucred = 0 then (-1, a, s)
       else let (rc, saved_authid, s) = kout64 out (ucred + 0x58) 0 s in
         if rc \<noteq> 0 then (-1, a, s)
         else if saved_authid = 0 then (-1, a, s)
         else let (rc, s) = kin inn (le_bytes 8 PRIV_AUTHID) (ucred + 0x58) s in
           if rc \<noteq> 0 then (-1, a, s)
           else let (syscall_rc, a, k) = call a (kern s);
                    (restore_rc, s) = kin inn (le_bytes 8 saved_authid) (ucred + 0x58) (s\<lparr>kern := k\<rparr>)
                in ((if restore_rc \<noteq> 0 then -1 else 0) OR syscall_rc, a, s))
     (kernel_get_proc_ucred_fast out (pe_allproc env) (pe_self env) s)"

text \<open>The variables of a transfer: \<^verbatim>\<open>out_struct[1]\<close> and the buffer.\<close>

definition mdbg_call :: "'k mdbg \<Rightarrow> bool \<Rightarrow> u32 \<Rightarrow> u64 \<Rightarrow> u64 \<times> byte list \<Rightarrow> 'k \<Rightarrow> int \<times> (u64 \<times> byte list) \<times> 'k" where
  "mdbg_call sc write pid address a k =
     (let (rc, n, buf, k) = sc (if write then 0x13 else 0x12) (scast pid) address (snd a) k in (rc, (n, buf), k))"

text \<open>\<open>arg5\<close> is the variable \<^verbatim>\<open>arg5_out\<close> points to, \<open>None\<close> for \<^verbatim>\<open>NULL\<close>; the buffer has
  \<^verbatim>\<open>length\<close> bytes.\<close>

definition sys_proc_rw_inner ::
    "'k sysenv \<Rightarrow> u32 \<Rightarrow> u64 \<Rightarrow> byte list \<Rightarrow> u64 option \<Rightarrow> bool \<Rightarrow> ('k, 'z) kstate_scheme
      \<Rightarrow> (int \<times> byte list \<times> u64 option \<times> ('k, 'z) kstate_scheme) option" where
  "sys_proc_rw_inner e pid address buf arg5 write s =
     (let len = of_nat (length buf) in
      if len = 0 then Some (0, buf, map_option (\<lambda>_. 0) arg5, s)
      else map_option (\<lambda>(rc, (out1, buf), s).
             if out1 \<noteq> len then (1, buf, arg5, s) else (0, buf, map_option (\<lambda>_. len) arg5, s))
           (priv_syscall_573 (sy_out e) (sy_in e) (sy_ptw e) (mdbg_call (sy_573 e) write pid address) (0, buf) s))"

definition sys_proc_rw ::
    "'k sysenv \<Rightarrow> u64 \<Rightarrow> u64 \<Rightarrow> byte list \<Rightarrow> u64 option \<Rightarrow> bool \<Rightarrow> ('k, 'z) kstate_scheme
      \<Rightarrow> (int \<times> byte list \<times> u64 option \<times> ('k, 'z) kstate_scheme) option" where
  "sys_proc_rw e pid address buf arg5 write s =
     map_option (\<lambda>(_, r). (0, r)) (sys_proc_rw_inner e (ucast pid) address buf arg5 write s)"

definition sys_proc_rw_w0 ::
    "'k sysenv \<Rightarrow> u64 \<Rightarrow> u64 \<Rightarrow> byte list \<Rightarrow> u64 option \<Rightarrow> ('k, 'z) kstate_scheme
      \<Rightarrow> (int \<times> byte list \<times> u64 option \<times> ('k, 'z) kstate_scheme) option" where
  "sys_proc_rw_w0 e pid address buf arg5 s = sys_proc_rw e pid address buf arg5 False s"

definition sys_proc_rw_w1 ::
    "'k sysenv \<Rightarrow> u64 \<Rightarrow> u64 \<Rightarrow> byte list \<Rightarrow> u64 option \<Rightarrow> ('k, 'z) kstate_scheme
      \<Rightarrow> (int \<times> byte list \<times> u64 option \<times> ('k, 'z) kstate_scheme) option" where
  "sys_proc_rw_w1 e pid address buf arg5 s = sys_proc_rw e pid address buf arg5 True s"

section \<open>Reading and writing process memory\<close>

definition proc_read_mem ::
    "'k sysenv \<Rightarrow> u32 \<Rightarrow> u64 \<Rightarrow> byte list \<Rightarrow> ('k, 'z) ptw_scheme \<Rightarrow> (byte list \<times> ('k, 'z) ptw_scheme) option" where
  "proc_read_mem e pid addr buf s =
     (let rw = (\<lambda>buf s. map_option (\<lambda>(_, buf, _, s). (buf, s)) (sys_proc_rw_w0 e (ucast pid) addr buf None s)) in
      if proc_aux_range_contains pid addr (of_nat (length buf)) s
      then Option.bind (proc_ptwalk_read (sy_out e) (sy_ptw e) (sy_stack e) pid addr (Some buf) s)
             (\<lambda>(rc, buf, s). if rc = 0 then Some (buf, s) else rw buf s)
      else rw buf s)"

definition fw_needs_dmap :: "u32 \<Rightarrow> int" where
  "fw_needs_dmap fw = (if fw AND 0xffff0000 \<ge> 0x08400000 then 1 else 0)"

definition proc_write_mem ::
    "'k sysenv \<Rightarrow> u32 \<Rightarrow> u64 \<Rightarrow> byte list \<Rightarrow> ('k, 'z) pmem_scheme \<Rightarrow> ('k, 'z) pmem_scheme option" where
  "proc_write_mem e pid addr buf s =
     (let s = (if s_fw_needs_dmap s < 0 then s\<lparr>s_fw_needs_dmap := fw_needs_dmap (sy_fw e)\<rparr> else s);
          rw = (\<lambda>s. map_option (\<lambda>(_, _, _, s). s) (sys_proc_rw_w1 e (ucast pid) addr buf None s)) in
      if s_fw_needs_dmap s \<noteq> 0
      then Option.bind (proc_ptwalk_write (sy_out e) (sy_in e) (sy_ptw e) (sy_stack e) pid addr (Some buf) s)
             (\<lambda>(rc, s). if rc = 0 then Some s else rw s)
      else rw s)"

definition proc_write_mem_status ::
    "'k sysenv \<Rightarrow> u32 \<Rightarrow> u64 \<Rightarrow> byte list \<Rightarrow> ('k, 'z) pmem_scheme \<Rightarrow> (int \<times> ('k, 'z) pmem_scheme) option" where
  "proc_write_mem_status e pid addr buf s =
     (let s = (if s_fw_needs_dmap_st s < 0 then s\<lparr>s_fw_needs_dmap_st := fw_needs_dmap (sy_fw e)\<rparr> else s);
          rw = (\<lambda>s. map_option (\<lambda>(_, _, wrote, s). (if wrote = Some (of_nat (length buf)) then 0 else 1, s))
                      (sys_proc_rw_w1 e (ucast pid) addr buf (Some 0) s)) in
      if s_fw_needs_dmap_st s \<noteq> 0
      then Option.bind (proc_ptwalk_write (sy_out e) (sy_in e) (sy_ptw e) (sy_stack e) pid addr (Some buf) s)
             (\<lambda>(rc, s). if rc = 0 then Some (0, s) else rw s)
      else rw s)"

section \<open>Field offsets\<close>

definition field_offsets :: "u32 \<Rightarrow> proc_field_offsets" where
  "field_offsets version =
     (let fw = version AND 0xffff0000 in
      \<lparr>po_name = (if fw \<ge> 0x12000000 then 0x5E4 else if fw \<ge> 0x10000000 then 0x5DC
                  else if fw \<ge> 0x7000000 then 0x5D4 else if fw \<ge> 0x6000000 then 0x5C4 else 0x59C),
       po_path = (if fw \<ge> 0x12000000 then 0x604 else if fw \<ge> 0x10000000 then 0x5FC
                  else if fw \<ge> 0x7000000 then 0x5F4 else if fw \<ge> 0x6000000 then 0x5E4 else 0x5BC),
       po_titleid = (if fw \<ge> 0x8000000 then 0x470 else if fw \<ge> 0x7000000 then 0x49A
                     else if fw \<ge> 0x6000000 then 0x498 else 0x470),
       po_contentid = (if fw \<ge> 0x12000000 then 0x504 else if fw \<ge> 0x8000000 then 0x4F4
                       else if fw \<ge> 0x7000000 then 0x4FC else if fw \<ge> 0x6000000 then 0x4EC else 0x4C4),
       po_known = True\<rparr>)"

definition proc_get_field_offsets :: "u32 \<Rightarrow> ('k, 'z) pmem_scheme \<Rightarrow> proc_field_offsets \<times> ('k, 'z) pmem_scheme" where
  "proc_get_field_offsets version s = (case pfo_cached s of
       Some c \<Rightarrow> (c, s)
     | None \<Rightarrow> (field_offsets version, s\<lparr>pfo_cached := Some (field_offsets version)\<rparr>))"

section \<open>The kernel's list of mappings\<close>

definition vmmap_init_offsets :: "u32 \<Rightarrow> ('k, 'z) pmem_scheme \<Rightarrow> ('k, 'z) pmem_scheme" where
  "vmmap_init_offsets fw s =
     (let s = (if fw AND 0xffff0000 \<ge> 0x6000000 then s\<lparr>vmmap_nentries_adj := 8, vmmap_name_adj := 0xE\<rparr> else s)
      in s\<lparr>vmmap_offs_initialized := True\<rparr>)"

definition map_entry :: "byte list \<Rightarrow> nat \<Rightarrow> vm_entry" where
  \<comment> \<open>what is copied of one kernel map entry\<close>
  "map_entry eb name_adj =
     (let p = eb ! 0x64 AND 0x0F; prot_byte = (if p = 4 then 5 else p) in
      \<lparr>vm_name = take 0x20 (drop (0x142 + name_adj) eb), vm_start = field64 eb 0x20, vm_end = field64 eb 0x28,
       vm_offset = field64 eb 0x58, vm_prot = ucast prot_byte\<rparr>)"

text \<open>The walk over the entries; \<open>n\<close> is the room left, \<open>None\<close> a failed read.\<close>

fun map_loop :: "'k copyout \<Rightarrow> nat \<Rightarrow> nat \<Rightarrow> u64 \<Rightarrow> ('k, 'z) kstate_scheme \<Rightarrow> vm_entry list option \<times> ('k, 'z) kstate_scheme" where
  "map_loop out adj 0 cur s = (Some [], s)"
| "map_loop out adj (Suc n) cur s =
     (if cur = 0 then (Some [], s)
      else let (rc, eb, s) = kout out cur (replicate 0x1C0 0) s in
        if rc \<noteq> 0 then (None, s)
        else let (es, s) = map_loop out adj n (field64 eb 8) s in (map_option ((#) (map_entry eb adj)) es, s))"

definition ENTRY_SIZE :: nat where "ENTRY_SIZE = 58"

definition raw_entry :: "ptr \<Rightarrow> nat \<Rightarrow> vm_entry" where
  \<comment> \<open>the entry at an index of a block of packed entries\<close>
  "raw_entry p i =
     (let q = shift p (ENTRY_SIZE * i) in
      \<lparr>vm_name = bytes_at q 0 0x20, vm_start = ld64 (shift q 0x20), vm_end = ld64 (shift q 0x28),
       vm_offset = ld64 (shift q 0x30), vm_prot = le_load 2 (shift q 0x38)\<rparr>)"

text \<open>\<open>mem\<close> is what \<^verbatim>\<open>malloc\<close> returns. The count reported is the kernel's, also when the list is
  shorter: the entries behind its end are what the block held.\<close>

definition sys_proc_vm_map ::
    "'k sysenv \<Rightarrow> ptr option \<Rightarrow> u32 \<Rightarrow> ('k, 'z) pmem_scheme \<Rightarrow> (vm_entry list option \<times> ('k, 'z) pmem_scheme) option" where
  "sys_proc_vm_map e mem pid s =
     (if sint pid \<le> 0 then Some (None, s)
      else let s = (if vmmap_offs_initialized s then s else vmmap_init_offsets (sy_fw e) s) in
        map_option (\<lambda>(kproc, s).
          if kproc = 0 then (None, s)
          else let (rc, vmspace_kaddr, s) = kout64 (sy_out e) (kproc + 0x200) 0 s in
            if rc \<noteq> 0 then (None, s)
            else let (rc, vb, s) = kout (sy_out e) vmspace_kaddr (replicate 0x350 0) s in
              if rc \<noteq> 0 then (None, s)
              else let n_entries = sint (field32 vb (0x1A8 + vmmap_nentries_adj s)) in
                if n_entries \<le> 0 then (None, s)
                else case mem of
                    None \<Rightarrow> (None, s)
                  | Some p \<Rightarrow>
                    let (es, s) = map_loop (sy_out e) (vmmap_name_adj s) (nat n_entries) (field64 vb 8) s
                    in (map_option (\<lambda>es. es @ map (raw_entry p) [length es..<nat n_entries]) es, s))
        (kernel_get_proc_fast (sy_out e) (pe_allproc (sy_ptw e)) pid s))"

end
