(* ===== verification/Target.thy ===== *)
theory Target
  imports Kernel
begin

text \<open>
  The interface between the command handlers and the memory of the inspected processes.
  \<^verbatim>\<open>proc_read_mem\<close> and \<^verbatim>\<open>proc_write_mem\<close> are functions on the debugger's state with a
  buffer that is a list of bytes; \<open>None\<close> stands for a call that does not end. \<open>tv s t\<close> says that
  the processes' memories are \<open>t\<close> in state \<open>s\<close>, \<open>able\<close> that a range of a process is mapped.
\<close>

type_synonym 's read_mem = "u32 \<Rightarrow> u64 \<Rightarrow> byte list \<Rightarrow> 's \<Rightarrow> (byte list \<times> 's) option"
type_synonym 's write_mem = "u32 \<Rightarrow> u64 \<Rightarrow> byte list \<Rightarrow> 's \<Rightarrow> 's option"
type_synonym 's write_status = "u32 \<Rightarrow> u64 \<Rightarrow> byte list \<Rightarrow> 's \<Rightarrow> (int \<times> 's) option"
type_synonym memories = "u32 \<Rightarrow> u64 \<Rightarrow> byte"

locale target_read =
  fixes rdm :: "'s read_mem" and tv :: "'s \<Rightarrow> memories \<Rightarrow> bool" and able :: "u32 \<Rightarrow> u64 \<Rightarrow> nat \<Rightarrow> bool"
  assumes rdm_ok: "tv s t \<Longrightarrow> able pid a (length buf) \<Longrightarrow>
      \<exists>s'. rdm pid a buf s = Some (peek (t pid) a (length buf), s') \<and> tv s' t"
    and able_sub: "able pid a n \<Longrightarrow> k + l \<le> n \<Longrightarrow> able pid (a + of_nat k) l"

locale target_access = target_read rdm tv able for rdm :: "'s read_mem" and tv and able +
  fixes wrm :: "'s write_mem" and wrs :: "'s write_status"
  assumes wrm_ok: "tv s t \<Longrightarrow> able pid a (length buf) \<Longrightarrow>
      \<exists>s'. wrm pid a buf s = Some s' \<and> tv s' (t(pid := poke (t pid) a buf))"
    and wrs_ok: "tv s t \<Longrightarrow> able pid a (length buf) \<Longrightarrow>
      \<exists>s'. wrs pid a buf s = Some (0, s') \<and> tv s' (t(pid := poke (t pid) a buf))"

section \<open>Ranges of memory\<close>

lemma peek_0 [simp]: "peek m a 0 = []"
  by (simp add: peek_def)

lemma peek_add: "peek m a (n + k) = peek m a n @ peek m (a + of_nat n) k"
  by (rule nth_equalityI) (auto simp: nth_append add.assoc)

lemma poke_Nil [simp]: "poke m a [] = m"
  by (simp add: poke_def fun_eq_iff)

lemma poke_append:
  assumes "length xs + length ys \<le> 2 ^ 64"
  shows "poke m a (xs @ ys) = poke (poke m a xs) (a + of_nat (length xs)) ys"
proof
  fix x
  define d where "d = unat (x - a)"
  have b: "d < 2 ^ 64" unfolding d_def using unsigned_less [of "x - a"] by simp
  show "poke m a (xs @ ys) x = poke (poke m a xs) (a + of_nat (length xs)) ys x"
  proof (cases "length xs = 2 ^ 64")
    case True
    then show ?thesis using assms by simp
  next
    case False
    then have l: "length xs < 2 ^ 64" using assms by linarith
    then have u: "unat (of_nat (length xs) :: u64) = length xs" by (rule unat_of_nat64)
    have eq: "x - (a + of_nat (length xs)) = (x - a) - of_nat (length xs)" by (simp add: algebra_simps)
    show ?thesis
    proof (cases "length xs \<le> d")
      case True
      then have "unat (x - (a + of_nat (length xs))) = d - length xs"
        unfolding eq d_def using u by (subst unat_diff) (simp_all add: word_le_nat_alt)
      with True show ?thesis by (auto simp: poke_def d_def [symmetric] nth_append)
    next
      case F: False
      have "unat (x - (a + of_nat (length xs))) = 2 ^ 64 + d - length xs"
        unfolding eq using F u by (subst unat_sub_if') (simp add: d_def [symmetric])
      then have "\<not> unat (x - (a + of_nat (length xs))) < length ys" using assms b F by linarith
      with F show ?thesis by (auto simp: poke_def d_def [symmetric] nth_append)
    qed
  qed
qed

section \<open>Flat memories\<close>

text \<open>Processes whose memories are the state, for concrete examples.\<close>

definition flat_rdm :: "memories read_mem" where
  "flat_rdm pid a buf t = Some (peek (t pid) a (length buf), t)"

definition flat_wrm :: "memories write_mem" where
  "flat_wrm pid a buf t = Some (t(pid := poke (t pid) a buf))"

definition flat_wrs :: "memories write_status" where
  "flat_wrs pid a buf t = Some (0, t(pid := poke (t pid) a buf))"

interpretation flat_target: target_access flat_rdm "(=)" "\<lambda>_ _ _. True" flat_wrm flat_wrs
  by unfold_locales (auto simp: flat_rdm_def flat_wrm_def flat_wrs_def)

end
