(* ===== verification/ProcMemProps.thy ===== *)
theory ProcMemProps
  imports ProcMem Target
begin

text \<open>
  The memory access of \<^verbatim>\<open>ProcMem\<close> meets the contract of \<^verbatim>\<open>Target\<close>. The locale
  \<open>debug_kernel\<close> collects what is documented of the console's kernel: where the debugger finds
  its own process and credential, and that system call 573 transfers memory for a caller with
  the privileged authority.
\<close>

section \<open>The contract of the kernel\<close>

definition own_entries :: "u32 \<Rightarrow> u64 \<Rightarrow> u64 set \<Rightarrow> ('k, 'z) kstate_scheme \<Rightarrow> bool" where
  \<comment> \<open>the cache only has processes, and the debugger's own one right\<close>
  "own_entries self p P s \<longleftrightarrow>
     (\<forall>x\<in>set (kr_proc_cache s). ps_kproc x \<noteq> 0 \<longrightarrow> ps_kproc x \<in> P \<and> (ps_pid x = self \<longrightarrow> ps_kproc x = p))"

locale debug_kernel = reliable_kernel "sy_out e" "sy_in e" view safe
  for e :: "'k sysenv" and view :: "'k \<Rightarrow> (u64 \<Rightarrow> byte) \<Rightarrow> bool" and safe :: "u64 \<Rightarrow> nat \<Rightarrow> bool" +
  fixes world :: "(u64 \<Rightarrow> byte) \<Rightarrow> bool" and self_proc ucred :: u64
    and tm :: "(u64 \<Rightarrow> byte) \<Rightarrow> u32 \<Rightarrow> u64 \<Rightarrow> byte" and able :: "u32 \<Rightarrow> u64 \<Rightarrow> nat \<Rightarrow> bool" and procs :: "u64 set"
  assumes own_proc: "world m \<Longrightarrow> \<exists>ps. klist m (mem64 m (pe_allproc (sy_ptw e))) ps
        \<and> (\<forall>p\<in>set ps. safe (p + 0xBC) 4 \<and> safe p 8) \<and> set ps \<subseteq> procs \<and> first_proc m (pe_self (sy_ptw e)) ps = self_proc"
    and own_safe: "safe (pe_allproc (sy_ptw e)) 8" "safe (self_proc + 0x40) 8" "safe (ucred + 0x58) 8"
        "self_proc \<noteq> 0" "ucred \<noteq> 0" "pe_self (sy_ptw e) \<noteq> 0"
    and own_cred: "world m \<Longrightarrow> mem64 m (self_proc + 0x40) = ucred \<and> mem64 m (ucred + 0x58) \<noteq> 0"
    and world_authid: "world m \<Longrightarrow> (v :: u64) \<noteq> 0 \<Longrightarrow>
        world (poke m (ucred + 0x58) (le_bytes 8 v)) \<and> tm (poke m (ucred + 0x58) (le_bytes 8 v)) = tm m"
    and read573: "view k m \<Longrightarrow> world m \<Longrightarrow> mem64 m (ucred + 0x58) = PRIV_AUTHID \<Longrightarrow> able pid a (length buf) \<Longrightarrow>
        \<exists>rc k'. sy_573 e 0x12 (scast pid) a buf k = (rc, of_nat (length buf), peek (tm m pid) a (length buf), k') \<and> view k' m"
    and write573: "view k m \<Longrightarrow> world m \<Longrightarrow> mem64 m (ucred + 0x58) = PRIV_AUTHID \<Longrightarrow> able pid a (length buf) \<Longrightarrow>
        \<exists>rc k' m'. sy_573 e 0x13 (scast pid) a buf k = (rc, of_nat (length buf), buf, k') \<and> view k' m' \<and> world m'
          \<and> tm m' = (tm m)(pid := poke (tm m pid) a buf)"
    and able_part: "able pid a n \<Longrightarrow> i + l \<le> n \<Longrightarrow> able pid (a + of_nat i) l"
    and able_short: "able pid a n \<Longrightarrow> n < 2 ^ 64"

lemma ucast_ucast32: "ucast (ucast (w :: u32) :: u64) = w"
  by (rule bit_word_eqI) (auto simp: bit_simps)

lemma mem64_poke: "mem64 (poke m a (le_bytes 8 v)) a = v"
proof -
  have "mem64 (poke m a (le_bytes 8 v)) a = word_of (peek (poke m a (le_bytes 8 v)) a (length (le_bytes 8 v)))"
    by (simp add: word_of_peek64)
  also have "\<dots> = v" by (subst peek_poke_same) (simp_all add: word_of_le_bytes)
  finally show ?thesis .
qed

context reliable_kernel
begin

text \<open>The credential is privileged exactly during the call.\<close>

lemma priv_call:
  assumes u: "kernel_get_proc_ucred_fast out (pe_allproc env) (pe_self env) s = Some (ucred, s1)" "view (kern s1) m"
    and c: "ucred \<noteq> 0" "safe (ucred + 0x58) 8" "mem64 m (ucred + 0x58) \<noteq> 0"
  shows "\<exists>k1 rc a' k2. view k1 (poke m (ucred + 0x58) (le_bytes 8 PRIV_AUTHID)) \<and> call a k1 = (rc, a', k2) \<and>
    (\<forall>m2. view k2 m2 \<longrightarrow> (\<exists>s'. priv_syscall_573 out inn env call a s = Some (rc, a', s') \<and> kframe s1 s'
        \<and> view (kern s') (poke m2 (ucred + 0x58) (le_bytes 8 (mem64 m (ucred + 0x58))))))"
proof -
  obtain s2 where 2: "kout64 out (ucred + 0x58) 0 s1 = (0, mem64 m (ucred + 0x58), s2)" "view (kern s2) m" "kframe s1 s2"
    using kout64_read [OF u(2) c(2)] by metis
  obtain s3 where 3: "kin inn (le_bytes 8 PRIV_AUTHID) (ucred + 0x58) s2 = (0, s3)"
      "view (kern s3) (poke m (ucred + 0x58) (le_bytes 8 PRIV_AUTHID))" "kframe s2 s3"
    using kin_write [OF 2(2), of "ucred + 0x58" "le_bytes 8 PRIV_AUTHID"] c(2) by auto
  obtain rc a' k2 where call: "call a (kern s3) = (rc, a', k2)" by (metis prod_cases3)
  have "\<exists>s'. priv_syscall_573 out inn env call a s = Some (rc, a', s') \<and> kframe s1 s'
        \<and> view (kern s') (poke m2 (ucred + 0x58) (le_bytes 8 (mem64 m (ucred + 0x58))))" if "view k2 m2" for m2
  proof -
    have "view (kern (s3\<lparr>kern := k2\<rparr>)) m2" "safe (ucred + 0x58) (length (le_bytes 8 (mem64 m (ucred + 0x58))))"
      using that c(2) by simp_all
    then obtain s4 where 4: "kin inn (le_bytes 8 (mem64 m (ucred + 0x58))) (ucred + 0x58) (s3\<lparr>kern := k2\<rparr>) = (0, s4)"
        "view (kern s4) (poke m2 (ucred + 0x58) (le_bytes 8 (mem64 m (ucred + 0x58))))" "kframe (s3\<lparr>kern := k2\<rparr>) s4"
      using kin_write by blast
    have "kframe s3 s4" using 4(3) by (auto simp: kframe_def)
    with 2 3 4 c u call kframe_trans show ?thesis
      unfolding priv_syscall_573_def by (intro exI [of _ s4]) (auto intro: kframe_trans)
  qed
  with 3 call show ?thesis by blast
qed

end

context debug_kernel
begin

abbreviation "self \<equiv> pe_self (sy_ptw e)"

definition ready :: "('k, 'z) kstate_scheme \<Rightarrow> (u64 \<Rightarrow> byte) \<Rightarrow> bool" where
  "ready s m \<longleftrightarrow> view (kern s) m \<and> world m \<and> cache_ok s \<and> own_entries self self_proc procs s"

lemma ready_kern: "ready s m \<Longrightarrow> view k m' \<Longrightarrow> world m' \<Longrightarrow> ready (s\<lparr>kern := k\<rparr>) m'"
  by (simp add: ready_def cache_ok_def own_entries_def)

lemma ready_frame: "ready s m \<Longrightarrow> kframe s s' \<Longrightarrow> view (kern s') m' \<Longrightarrow> world m' \<Longrightarrow> ready s' m'"
  by (auto simp: kframe_def ready_def cache_ok_def own_entries_def)

lemma lookup:
  assumes "ready s m"
  obtains r s' where "kernel_get_proc_fast (sy_out e) (pe_allproc (sy_ptw e)) pid s = Some (r, s')" "ready s' m"
    "kstate.more s' = kstate.more s" "r = 0 \<or> r \<in> procs" "pid = self \<Longrightarrow> r = self_proc"
proof -
  have v: "view (kern s) m" and w: "world m" and c: "cache_ok s" and o: "own_entries self self_proc procs s"
    using assms by (auto simp: ready_def)
  obtain ps where ps: "klist m (mem64 m (pe_allproc (sy_ptw e))) ps" "\<forall>p\<in>set ps. safe (p + 0xBC) 4 \<and> safe p 8"
      "set ps \<subseteq> procs" "first_proc m self ps = self_proc" using own_proc [OF w] by blast
  obtain r s' where r: "kernel_get_proc_fast (sy_out e) (pe_allproc (sy_ptw e)) pid s = Some (r, s')"
      "cache_lookup (sy_out e) pid s = (Some r, s') \<or> fst (cache_lookup (sy_out e) pid s) = None \<and> r = first_proc m pid ps"
    using get_proc_complete [OF v c own_safe(1) ps(1,2)] by blast
  have known: "r = 0 \<or> r \<in> procs" "pid = self \<longrightarrow> r = self_proc"
  proof -
    have "(r = 0 \<or> r \<in> procs) \<and> (pid = self \<longrightarrow> r = self_proc)"
    proof (cases "cache_lookup (sy_out e) pid s = (Some r, s')")
      case True
      with cache_lookup_slot [OF True] cache_lookup_sound(3) [OF v c True] o show ?thesis by (auto simp: own_entries_def)
    next
      case False
      with r(2) first_proc_cases [of m pid ps] ps(3,4) show ?thesis by auto
    qed
    then show "r = 0 \<or> r \<in> procs" "pid = self \<longrightarrow> r = self_proc" by blast+
  qed
  have k: "view (kern s') m" "cache_ok s'" using get_proc_sound [OF v c r(1)] by blast+
  have look: "own_entries self self_proc procs s1" if "cache_lookup (sy_out e) pid s = (q, s1)" for q s1
    using cache_lookup_sound(4) [OF v c that] o by (auto simp: own_entries_def empty_slot_def dest!: subsetD)
  have "own_entries self self_proc procs s'" using r(1)
  proof (cases rule: get_proc_cases)
    case cached
    then show ?thesis using look by blast
  next
    case (walked s1 s2)
    then have "own_entries self self_proc procs s2" using look kframe_cache [of s1 s2] by (auto simp: own_entries_def)
    then show ?thesis using walked(3) known
      by (auto simp: own_entries_def cache_store_def dest!: set_update_subset_insert [THEN subsetD])
  qed
  then show thesis using r(1) known k w get_proc_more [OF r(1)] by (intro that [of r s']) (auto simp: ready_def)
qed

lemma own_lookup:
  assumes "ready s m"
  obtains s' where "kernel_get_proc_fast (sy_out e) (pe_allproc (sy_ptw e)) self s = Some (self_proc, s')" "ready s' m"
    "kstate.more s' = kstate.more s"
  by (rule lookup [OF assms, of self]) (use that in auto)

lemma own_ucred:
  assumes "ready s m"
  obtains s' where "kernel_get_proc_ucred_fast (sy_out e) (pe_allproc (sy_ptw e)) self s = Some (ucred, s')" "ready s' m"
    "kstate.more s' = kstate.more s"
proof (rule own_lookup [OF assms])
  fix s1 assume 1: "kernel_get_proc_fast (sy_out e) (pe_allproc (sy_ptw e)) self s = Some (self_proc, s1)" "ready s1 m"
    "kstate.more s1 = kstate.more s"
  have v: "view (kern s1) m" "world m" using 1(2) by (auto simp: ready_def)
  obtain s2 where 2: "kout64 (sy_out e) (self_proc + 0x40) 0 s1 = (0, mem64 m (self_proc + 0x40), s2)" "view (kern s2) m" "kframe s1 s2"
    using kout64_read [OF v(1) own_safe(2)] by metis
  show thesis
    using 1 2 own_safe own_cred [OF v(2)] ready_frame [OF 1(2) 2(3,2) v(2)] kframe_more [OF 2(3)]
    by (intro that [of s2]) (simp_all add: kernel_get_proc_ucred_fast_def)
qed


lemma priv_mdbg:
  assumes r: "ready s m"
    and call: "\<And>k mp. view k mp \<Longrightarrow> world mp \<Longrightarrow> tm mp = tm m \<Longrightarrow> mem64 mp (ucred + 0x58) = PRIV_AUTHID \<Longrightarrow>
      \<exists>rc k' m'. call a k = (rc, a', k') \<and> view k' m' \<and> world m' \<and> tm m' = t"
  obtains rc s' m' where "priv_syscall_573 (sy_out e) (sy_in e) (sy_ptw e) call a s = Some (rc, a', s')" "ready s' m'" "tm m' = t"
    "kstate.more s' = kstate.more s"
proof (rule own_ucred [OF r])
  fix s1 assume 1: "kernel_get_proc_ucred_fast (sy_out e) (pe_allproc (sy_ptw e)) self s = Some (ucred, s1)" "ready s1 m"
    "kstate.more s1 = kstate.more s"
  let ?mp = "poke m (ucred + 0x58) (le_bytes 8 PRIV_AUTHID)"
  have v: "view (kern s1) m" and w: "world m" using 1(2) by (auto simp: ready_def)
  have c: "mem64 m (ucred + 0x58) \<noteq> 0" using own_cred [OF w] by blast
  have p: "world ?mp" "tm ?mp = tm m" using world_authid [OF w, of PRIV_AUTHID] by (auto simp: PRIV_AUTHID_def)
  obtain k1 rc b k2 where k: "view k1 ?mp" "call a k1 = (rc, b, k2)" and
      run: "\<And>m2. view k2 m2 \<Longrightarrow> \<exists>s'. priv_syscall_573 (sy_out e) (sy_in e) (sy_ptw e) call a s = Some (rc, b, s') \<and> kframe s1 s'
        \<and> view (kern s') (poke m2 (ucred + 0x58) (le_bytes 8 (mem64 m (ucred + 0x58))))"
    using priv_call [OF 1(1) v own_safe(5,3) c, of call a] by blast
  obtain m2 where m2: "b = a'" "view k2 m2" "world m2" "tm m2 = t"
    using call [OF k(1) p mem64_poke] k(2) by auto
  obtain s' where s': "priv_syscall_573 (sy_out e) (sy_in e) (sy_ptw e) call a s = Some (rc, b, s')" "kframe s1 s'"
      "view (kern s') (poke m2 (ucred + 0x58) (le_bytes 8 (mem64 m (ucred + 0x58))))" using run [OF m2(2)] by blast
  note w2 = world_authid [OF m2(3) c]
  show thesis
    using s' m2 w2 ready_frame [OF 1(2) s'(2,3)] kframe_more [OF s'(2)] 1(3)
    by (intro that [of rc s' "poke m2 (ucred + 0x58) (le_bytes 8 (mem64 m (ucred + 0x58)))"]) simp_all
qed

lemma rw_inner:
  assumes r: "ready s m" and ab: "able pid a (length buf)" and empty: "buf = [] \<Longrightarrow> buf' = [] \<and> t = tm m"
    and call: "\<And>k mp. view k mp \<Longrightarrow> world mp \<Longrightarrow> tm mp = tm m \<Longrightarrow> mem64 mp (ucred + 0x58) = PRIV_AUTHID \<Longrightarrow>
      \<exists>rc k' m'. sy_573 e (if w then 0x13 else 0x12) (scast pid) a buf k = (rc, of_nat (length buf), buf', k')
        \<and> view k' m' \<and> world m' \<and> tm m' = t"
  shows "\<exists>s' m'. sys_proc_rw_inner e pid a buf arg5 w s = Some (0, buf', map_option (\<lambda>_. of_nat (length buf)) arg5, s')
    \<and> ready s' m' \<and> tm m' = t \<and> kstate.more s' = kstate.more s"
proof (cases "buf = []")
  case True
  then show ?thesis using r empty by (auto simp: sys_proc_rw_inner_def intro!: exI [of _ s] exI [of _ m])
next
  case False
  have len: "(of_nat (length buf) :: u64) \<noteq> 0"
    using unat_of_nat64 [OF able_short [OF ab]] False by (metis length_0_conv unat_0)
  show ?thesis
  proof (rule priv_mdbg [OF r, of "mdbg_call (sy_573 e) w pid a" "(0, buf)" "(of_nat (length buf), buf')" t])
    fix k mp assume "view k mp" "world mp" "tm mp = tm m" "mem64 mp (ucred + 0x58) = PRIV_AUTHID"
    from call [OF this] show "\<exists>rc k' m'. mdbg_call (sy_573 e) w pid a (0, buf) k = (rc, (of_nat (length buf), buf'), k')
        \<and> view k' m' \<and> world m' \<and> tm m' = t" by (auto simp: mdbg_call_def)
  next
    fix rc s' m'
    assume "priv_syscall_573 (sy_out e) (sy_in e) (sy_ptw e) (mdbg_call (sy_573 e) w pid a) (0, buf) s
        = Some (rc, (of_nat (length buf), buf'), s')" "ready s' m'" "tm m' = t" "kstate.more s' = kstate.more s"
    then show ?thesis using len by (auto simp: sys_proc_rw_inner_def)
  qed
qed

lemma rw_read:
  assumes "ready s m" "able pid a (length buf)"
  shows "\<exists>s' m'. sys_proc_rw_w0 e (ucast pid) a buf arg5 s
      = Some (0, peek (tm m pid) a (length buf), map_option (\<lambda>_. of_nat (length buf)) arg5, s')
    \<and> ready s' m' \<and> tm m' = tm m \<and> kstate.more s' = kstate.more s"
proof -
  have "\<exists>s' m'. sys_proc_rw_inner e pid a buf arg5 False s
      = Some (0, peek (tm m pid) a (length buf), map_option (\<lambda>_. of_nat (length buf)) arg5, s')
    \<and> ready s' m' \<and> tm m' = tm m \<and> kstate.more s' = kstate.more s"
  proof (rule rw_inner [OF assms])
    fix k mp assume v: "view k mp" "world mp" "tm mp = tm m" "mem64 mp (ucred + 0x58) = PRIV_AUTHID"
    from read573 [OF v(1,2,4) assms(2)] v
    show "\<exists>rc k' m'. sy_573 e (if False then 0x13 else 0x12) (scast pid) a buf k
        = (rc, of_nat (length buf), peek (tm m pid) a (length buf), k') \<and> view k' m' \<and> world m' \<and> tm m' = tm m"
      by auto
  qed simp
  then show ?thesis by (simp add: sys_proc_rw_w0_def sys_proc_rw_def ucast_ucast32) blast
qed

lemma rw_write:
  assumes "ready s m" "able pid a (length buf)"
  shows "\<exists>s' m'. sys_proc_rw_w1 e (ucast pid) a buf arg5 s = Some (0, buf, map_option (\<lambda>_. of_nat (length buf)) arg5, s')
    \<and> ready s' m' \<and> tm m' = (tm m)(pid := poke (tm m pid) a buf) \<and> kstate.more s' = kstate.more s"
proof -
  have "\<exists>s' m'. sys_proc_rw_inner e pid a buf arg5 True s = Some (0, buf, map_option (\<lambda>_. of_nat (length buf)) arg5, s')
    \<and> ready s' m' \<and> tm m' = (tm m)(pid := poke (tm m pid) a buf) \<and> kstate.more s' = kstate.more s"
  proof (rule rw_inner [OF assms])
    fix k mp assume v: "view k mp" "world mp" "tm mp = tm m" "mem64 mp (ucred + 0x58) = PRIV_AUTHID"
    from write573 [OF v(1,2,4) assms(2)] v
    show "\<exists>rc k' m'. sy_573 e (if True then 0x13 else 0x12) (scast pid) a buf k = (rc, of_nat (length buf), buf, k')
        \<and> view k' m' \<and> world m' \<and> tm m' = (tm m)(pid := poke (tm m pid) a buf)" by auto
  qed simp
  then show ?thesis by (simp add: sys_proc_rw_w1_def sys_proc_rw_def ucast_ucast32) blast
qed

end

section \<open>The debugger's memory access meets the contract\<close>

text \<open>The case in which the system call does all the work: no range of the process is known to need
  the page tables, and the firmware is one on which the call may write.\<close>

locale direct_kernel = debug_kernel +
  assumes direct_fw: "fw_needs_dmap (sy_fw e) = 0"
begin

definition target_view :: "'a pmem \<Rightarrow> memories \<Rightarrow> bool" where
  "target_view s t \<longleftrightarrow> (\<exists>m. ready s m \<and> tm m = t) \<and> g_auxc s = [] \<and> s_fw_needs_dmap s \<le> 0 \<and> s_fw_needs_dmap_st s \<le> 0"

end

lemma pmem_more:
  fixes s s' :: "('k, 'z) pmem_scheme"
  assumes "kstate.more s' = kstate.more s"
  shows "g_auxc s' = g_auxc s" "s_fw_needs_dmap s' = s_fw_needs_dmap s" "s_fw_needs_dmap_st s' = s_fw_needs_dmap_st s"
  using assms by (cases s; cases s'; simp)+

sublocale direct_kernel \<subseteq> access: target_access "proc_read_mem e" target_view able "proc_write_mem e" "proc_write_mem_status e"
proof
  fix s :: "'a pmem" and t pid a and buf :: "byte list"
  assume tv: "target_view s t" and ab: "able pid a (length buf)"
  then obtain m where m: "ready s m" "tm m = t" "g_auxc s = []" "s_fw_needs_dmap s \<le> 0" "s_fw_needs_dmap_st s \<le> 0"
    by (auto simp: target_view_def)
  obtain s1 m1 where 1: "sys_proc_rw_w0 e (ucast pid) a buf None s = Some (0, peek (t pid) a (length buf), None, s1)"
      "ready s1 m1" "tm m1 = t" "kstate.more s1 = kstate.more s"
    using rw_read [OF m(1) ab, of None] m(2) by auto
  have "proc_read_mem e pid a buf s = Some (peek (t pid) a (length buf), s1)"
    using m(3) 1(1) by (simp add: proc_read_mem_def proc_aux_range_contains_def)
  moreover have "target_view s1 t" unfolding target_view_def pmem_more [OF 1(4)] using m 1 by blast
  ultimately show "\<exists>s'. proc_read_mem e pid a buf s = Some (peek (t pid) a (length buf), s') \<and> target_view s' t" by blast
  let ?w = "if s_fw_needs_dmap s < 0 then s\<lparr>s_fw_needs_dmap := 0\<rparr> else s"
  have "ready ?w m" using m(1) by (simp add: ready_def cache_ok_def own_entries_def)
  then obtain s2 m2 where 2: "sys_proc_rw_w1 e (ucast pid) a buf None ?w = Some (0, buf, None, s2)"
      "ready s2 m2" "tm m2 = t(pid := poke (t pid) a buf)" "kstate.more s2 = kstate.more ?w"
    using rw_write [OF _ ab, of ?w m None] m(2) by auto
  have "proc_write_mem e pid a buf s = Some s2"
    unfolding proc_write_mem_def direct_fw Let_def using m(4) 2(1) by auto
  moreover have "target_view s2 (t(pid := poke (t pid) a buf))"
    unfolding target_view_def pmem_more [OF 2(4)] using m 2 by auto
  ultimately show "\<exists>s'. proc_write_mem e pid a buf s = Some s' \<and> target_view s' (t(pid := poke (t pid) a buf))" by blast
  let ?v = "if s_fw_needs_dmap_st s < 0 then s\<lparr>s_fw_needs_dmap_st := 0\<rparr> else s"
  have "ready ?v m" using m(1) by (simp add: ready_def cache_ok_def own_entries_def)
  then obtain s3 m3 where 3: "sys_proc_rw_w1 e (ucast pid) a buf (Some 0) ?v = Some (0, buf, Some (of_nat (length buf)), s3)"
      "ready s3 m3" "tm m3 = t(pid := poke (t pid) a buf)" "kstate.more s3 = kstate.more ?v"
    using rw_write [OF _ ab, of ?v m "Some 0"] m(2) by auto
  have "proc_write_mem_status e pid a buf s = Some (0, s3)"
    unfolding proc_write_mem_status_def direct_fw Let_def using m(5) 3(1) by auto
  moreover have "target_view s3 (t(pid := poke (t pid) a buf))"
    unfolding target_view_def pmem_more [OF 3(4)] using m 3 by auto
  ultimately show "\<exists>s'. proc_write_mem_status e pid a buf s = Some (0, s') \<and> target_view s' (t(pid := poke (t pid) a buf))" by blast
qed (rule able_part)

context direct_kernel
begin

lemma read_write_view:
  assumes "target_view s t" "able pid a (length buf)"
  shows "(\<exists>s'. proc_read_mem e pid a buf s = Some (peek (t pid) a (length buf), s') \<and> target_view s' t)
    \<and> (\<exists>s'. proc_write_mem e pid a buf s = Some s' \<and> target_view s' (t(pid := poke (t pid) a buf)))"
  using access.rdm_ok [OF assms] access.wrm_ok [OF assms] by blast

end

section \<open>A small machine\<close>

text \<open>
  A kernel that keeps everything in one memory: the process list at 0x100, the debugger's process,
  number 7, at 0x1000 with its credential at 0x2000 and one thread at 0x3000, whose saved registers
  are at 0x4000, and the memory of process 9, one page at 0x100000. The system call serves callers with the privileged authority only.
\<close>

definition machine_base :: "u64 \<Rightarrow> byte" where
  "machine_base x = (if x = 0x101 then 0x10 else if x = 0x10BC then 7 else if x = 0x1041 then 0x20
     else if x = 0x1011 then 0x30 else if x = 0x3461 then 0x40 else if x = 0x2058 then 3 else if x = 0x100005 then 0x55 else 0)"

definition varying :: "u64 \<Rightarrow> bool" where
  "varying x \<longleftrightarrow> 0x2058 \<le> x \<and> x < 0x2070 \<or> 0x4000 \<le> x \<and> x < 0x4110 \<or> 0x100000 \<le> x \<and> x < 0x101000"

definition machine_world :: "(u64 \<Rightarrow> byte) \<Rightarrow> bool" where
  "machine_world m \<longleftrightarrow> (\<forall>x. \<not> varying x \<longrightarrow> m x = machine_base x) \<and> mem64 m 0x2058 \<noteq> 0"

definition machine_tm :: "(u64 \<Rightarrow> byte) \<Rightarrow> memories" where
  "machine_tm m pid a = (if pid = 9 \<and> a < 0x1000 then m (0x100000 + a) else 0)"

definition machine_able :: "u32 \<Rightarrow> u64 \<Rightarrow> nat \<Rightarrow> bool" where
  "machine_able pid a n \<longleftrightarrow> pid = 9 \<and> unat a + n \<le> 0x1000"

definition machine_573 :: "(u64 \<Rightarrow> byte) mdbg" where
  "machine_573 op pid a buf m =
     (if mem64 m 0x2058 = PRIV_AUTHID \<and> machine_able (ucast pid) a (length buf)
      then (0, of_nat (length buf), if op = 0x12 then peek m (0x100000 + a) (length buf) else buf,
            if op = 0x13 then poke m (0x100000 + a) buf else m)
      else (-1, 0, buf, m))"

definition machine_env :: "(u64 \<Rightarrow> byte) sysenv" where
  "machine_env = \<lparr>sy_out = flat_out, sy_in = flat_in, sy_ptw = \<lparr>pe_allproc = 0x100, pe_self = 7, pe_gt_va = 0\<rparr>,
     sy_stack = replicate 16 0, sy_573 = machine_573, sy_fw = 0x02500000\<rparr>"

lemma scast_ucast32: "ucast (scast (w :: u32) :: u64) = w"
  by (rule bit_word_eqI) (auto simp: bit_simps)

lemma page_byte:
  assumes "machine_able pid a n" "i < n"
  shows "unat (a + of_nat i) = unat a + i" "a + of_nat i < 0x1000" "varying (0x100000 + a + of_nat i)"
    "unat (0x100000 + (a + of_nat i)) = 0x100000 + (unat a + i)"
proof -
  have u: "unat a + i < 0x1000" using assms by (simp add: machine_able_def)
  show a: "unat (a + of_nat i) = unat a + i" by (rule unat_add_of_nat) (use u in simp)
  show "a + of_nat i < 0x1000" using a u by (simp add: word_less_nat_alt)
  have "unat (0x100000 + of_nat (unat a + i) :: u64) = 0x100000 + (unat a + i)"
    by (subst unat_add_of_nat) (use u in simp_all)
  moreover have "0x100000 + of_nat (unat a + i) = 0x100000 + (a + of_nat i)" by simp
  ultimately show b: "unat (0x100000 + (a + of_nat i)) = 0x100000 + (unat a + i)" by metis
  show "varying (0x100000 + a + of_nat i)"
    unfolding varying_def add.assoc word_le_nat_alt word_less_nat_alt b using u by simp
qed

lemma machine_write:
  assumes "machine_world m" "machine_able pid a (length buf)"
  shows "machine_world (poke m (0x100000 + a) buf)"
    "machine_tm (poke m (0x100000 + a) buf) = (machine_tm m)(pid := poke (machine_tm m pid) a buf)"
proof -
  have "poke m (0x100000 + a) buf x = m x" if "\<not> varying x \<or> x < 0x100000" for x
  proof (rule poke_unchanged)
    fix i assume i: "i < length buf"
    note p = page_byte [OF assms(2) i]
    have "\<not> 0x100000 + a + of_nat i < 0x100000" unfolding word_less_nat_alt add.assoc p(4) by simp
    with that p(3) show "x \<noteq> 0x100000 + a + of_nat i" by auto
  qed
  then show "machine_world (poke m (0x100000 + a) buf)"
    using assms(1) by (simp add: machine_world_def mem64_def le_simps window_apply)
  show "machine_tm (poke m (0x100000 + a) buf) = (machine_tm m)(pid := poke (machine_tm m pid) a buf)"
  proof (intro ext)
    fix q x
    have eq: "0x100000 + x - (0x100000 + a) = x - a" by simp
    have "x < 0x1000" if "unat (x - a) < length buf"
      using page_byte(2) [OF assms(2) that] by simp
    then show "machine_tm (poke m (0x100000 + a) buf) q x = ((machine_tm m)(pid := poke (machine_tm m pid) a buf)) q x"
      using assms(2) by (auto simp: machine_tm_def poke_def eq machine_able_def)
  qed
qed

lemma machine_low:
  assumes "machine_world m" "unat a + length bs \<le> 0x100000" "\<And>i. i < length bs \<Longrightarrow> varying (a + of_nat i)"
    "mem64 (poke m a bs) 0x2058 \<noteq> 0"
  shows "machine_world (poke m a bs) \<and> machine_tm (poke m a bs) = machine_tm m"
proof -
  have keep: "poke m a bs x = m x" if "\<not> varying x \<or> 0x100000 \<le> x" for x
  proof (rule poke_unchanged)
    fix i assume i: "i < length bs"
    have "unat (a + of_nat i) = unat a + i" by (rule unat_add_of_nat) (use i assms(2) in simp)
    then have "\<not> 0x100000 \<le> a + of_nat i" using i assms(2) by (simp add: word_le_nat_alt)
    with that assms(3) [OF i] show "x \<noteq> a + of_nat i" by auto
  qed
  have page: "0x100000 \<le> 0x100000 + b" if "b < 0x1000" for b :: u64
    using page_byte(4) [of 9 b 1 0] that by (simp add: machine_able_def word_le_nat_alt word_less_nat_alt)
  have "machine_tm (poke m a bs) = machine_tm m"
    unfolding machine_tm_def fun_eq_iff using keep page by simp
  moreover have "machine_world (poke m a bs)"
    unfolding machine_world_def using assms(1,4) keep by (simp add: machine_world_def)
  ultimately show ?thesis by blast
qed

lemma varying_range:
  assumes "unat a + n \<le> 0x4110" "0x4000 \<le> unat a \<or> 0x2058 \<le> unat a \<and> unat a + n \<le> 0x2070" "i < n"
  shows "varying (a + of_nat i)"
proof -
  have "unat (a + of_nat i) = unat a + i" by (rule unat_add_of_nat) (use assms(1,3) in simp)
  then show ?thesis using assms by (auto simp: varying_def word_le_nat_alt word_less_nat_alt)
qed

lemma machine_authid:
  assumes "machine_world m" "(v :: u64) \<noteq> 0"
  shows "machine_world (poke m 0x2058 (le_bytes 8 v)) \<and> machine_tm (poke m 0x2058 (le_bytes 8 v)) = machine_tm m"
  by (rule machine_low [OF assms(1)]) (use assms(2) in \<open>auto simp: mem64_poke intro!: varying_range [where n = 8]\<close>)

interpretation machine: direct_kernel machine_env "\<lambda>k m. k = m" "\<lambda>_ _. True" machine_world "0x1000" "0x2000" machine_tm machine_able "{0x1000}"
proof
  fix m assume w: "machine_world m"
  have m: "\<And>x. \<not> varying x \<Longrightarrow> m x = machine_base x" using w by (simp add: machine_world_def)
  have "mem64 m 0x100 = 0x1000" "mem64 m 0x1000 = 0" "mem64 m 0x1040 = 0x2000" "proc_pid m 0x1000 = 7"
    by (simp_all add: mem64_def mem32_def proc_pid_def le_simps window_apply m varying_def machine_base_def)
  then show "\<exists>ps. klist m (mem64 m (pe_allproc (sy_ptw machine_env))) ps \<and> (\<forall>p\<in>set ps. True \<and> True)
      \<and> set ps \<subseteq> {0x1000} \<and> first_proc m (pe_self (sy_ptw machine_env)) ps = 0x1000"
    and "mem64 m (0x1000 + 0x40) = 0x2000 \<and> mem64 m (0x2000 + 0x58) \<noteq> 0"
    using w by (auto simp: machine_env_def first_proc_def machine_world_def intro!: exI [of _ "[0x1000]"])
next
  fix m and v :: u64 assume "machine_world m" "v \<noteq> 0"
  then show "machine_world (poke m (0x2000 + 0x58) (le_bytes 8 v)) \<and> machine_tm (poke m (0x2000 + 0x58) (le_bytes 8 v)) = machine_tm m"
    using machine_authid by simp
next
  fix k m :: "u64 \<Rightarrow> byte" and pid a and buf :: "byte list"
  assume *: "k = m" "machine_world m" "mem64 m (0x2000 + 0x58) = PRIV_AUTHID" "machine_able pid a (length buf)"
  have "peek m (0x100000 + a) (length buf) = peek (machine_tm m pid) a (length buf)"
    using *(4) page_byte(2) [OF *(4)]
    by (intro nth_equalityI) (auto simp: machine_tm_def add.assoc machine_able_def)
  with * show "\<exists>rc k'. sy_573 machine_env 0x12 (scast pid) a buf k
      = (rc, of_nat (length buf), peek (machine_tm m pid) a (length buf), k') \<and> k' = m"
    by (simp add: machine_env_def machine_573_def scast_ucast32)
  from * show "\<exists>rc k' m'. sy_573 machine_env 0x13 (scast pid) a buf k = (rc, of_nat (length buf), buf, k') \<and> k' = m'
      \<and> machine_world m' \<and> machine_tm m' = (machine_tm m)(pid := poke (machine_tm m pid) a buf)"
    using machine_write by (simp add: machine_env_def machine_573_def scast_ucast32)
next
  fix pid a n i l assume "machine_able pid a n" "i + l \<le> n"
  moreover from this have "unat (a + of_nat i) = unat a + i"
    by (intro unat_add_of_nat) (simp add: machine_able_def)
  ultimately show "machine_able pid (a + of_nat i) l" by (simp add: machine_able_def)
next
  fix pid a n assume "machine_able pid a n"
  then show "n < 2 ^ 64" by (simp add: machine_able_def)
qed (auto simp: machine_env_def flat_out_def flat_in_def fw_needs_dmap_def)

section \<open>Properties\<close>

text \<open>
  C17: the debugger is privileged only during the system call. The call runs on a kernel that
  differs from the one before only in the debugger's own authority, which is the privileged one;
  afterwards the authority is what it was before, and everything else is as the call left it.
\<close>

theorem priv_syscall_573_restores:
  assumes "reliable_kernel out inn view safe" "kernel_get_proc_ucred_fast out (pe_allproc env) (pe_self env) s = Some (ucred, s1)"
    and "view (kern s1) m" "ucred \<noteq> 0" "safe (ucred + 0x58) 8" "mem64 m (ucred + 0x58) \<noteq> 0"
  shows "\<exists>k1 rc a' k2. view k1 (poke m (ucred + 0x58) (le_bytes 8 PRIV_AUTHID)) \<and> call a k1 = (rc, a', k2) \<and>
    (\<forall>m2. view k2 m2 \<longrightarrow> (\<exists>s'. priv_syscall_573 out inn env call a s = Some (rc, a', s') \<and> kframe s1 s'
        \<and> view (kern s') (poke m2 (ucred + 0x58) (le_bytes 8 (mem64 m (ucred + 0x58))))))"
  by (rule reliable_kernel.priv_call [OF assms])

definition machine_state :: "(u64 \<Rightarrow> byte) pmem" where
  "machine_state = \<lparr>kern = machine_base, kr_proc_cache = replicate 8 empty_slot, kr_proc_cache_next = 0,
     g_ptw_state = 0, g_ptw_dmap = 0, g_ptw_pmap_off = 0, g_auxc = [], g_auxc_pid = 0,
     s_fw_needs_dmap = -1, s_fw_needs_dmap_st = -1, vmmap_offs_initialized = False, vmmap_nentries_adj = 0,
     vmmap_name_adj = 0, pfo_cached = None\<rparr>"

lemma machine_ready: "machine.ready machine_state machine_base"
  by (auto simp: machine.ready_def machine_state_def machine_world_def cache_ok_def KR_PROC_CACHE_N_def own_entries_def
      empty_slot_def mem64_def le_simps window_apply machine_base_def)

lemma machine_view: "machine.target_view machine_state (machine_tm machine_base)"
  unfolding machine.target_view_def using machine_ready by (auto simp: machine_state_def)

theorem priv_syscall_573_restores_witness:
  "\<exists>s'. priv_syscall_573 flat_out flat_in (sy_ptw machine_env) (\<lambda>a k. (0, mem64 k 0x2058, k)) 0 machine_state = Some (0, PRIV_AUTHID, s')
     \<and> mem64 (kern s') 0x2058 = 3"
proof -
  have e: "sy_out machine_env = flat_out" by (simp add: machine_env_def)
  obtain s1 where s1: "kernel_get_proc_ucred_fast flat_out (pe_allproc (sy_ptw machine_env)) machine.self machine_state = Some (0x2000, s1)"
      "kern s1 = machine_base"
    using machine.own_ucred [OF machine_ready] unfolding e machine.ready_def by blast
  have 3: "mem64 machine_base 0x2058 = 3" by (simp add: mem64_def le_simps window_apply machine_base_def)
  obtain k1 rc b k2 where "k1 = poke machine_base (0x2000 + 0x58) (le_bytes 8 PRIV_AUTHID)" "(0, mem64 k1 0x2058, k1) = (rc, b, k2)"
      "\<forall>m2. k2 = m2 \<longrightarrow> (\<exists>s'. priv_syscall_573 flat_out flat_in (sy_ptw machine_env) (\<lambda>a k. (0, mem64 k 0x2058, k)) 0 machine_state
          = Some (rc, b, s') \<and> kframe s1 s' \<and> kern s' = poke m2 (0x2000 + 0x58) (le_bytes 8 (mem64 machine_base (0x2000 + 0x58))))"
    using priv_syscall_573_restores [where view = "(=)", OF flat_kernel.reliable_kernel_axioms s1,
        where call = "\<lambda>a k. (0, mem64 k 0x2058, k)" and a = 0] 3 by auto
  then show ?thesis using 3 by (auto simp: mem64_poke)
qed



end
