(* ===== verification/ProcHandlers.thy ===== *)
theory ProcHandlers
  imports Target Protocol
begin

text \<open>
  The memory commands of \<^verbatim>\<open>debugger/source/proc.c\<close>: reading (\<^verbatim>\<open>proc_read_handle\<close>), writing
  (\<^verbatim>\<open>proc_write_handle\<close>), batched writing (\<^verbatim>\<open>proc_write_multi_handle\<close>) and the stack walk
  (\<^verbatim>\<open>proc_read_stack_handle\<close>). The handlers take the memory access as the functions of
  \<^verbatim>\<open>Target\<close>; their state is that of the memory access and the connection. \<open>None\<close> stands for
  a memory access that does not end.
\<close>

section \<open>Request bodies\<close>

record cmd_proc_rw_packet =
  rw_pid :: u32
  rw_address :: u64
  rw_length :: u32

definition read_packet :: "ptr \<Rightarrow> cmd_proc_rw_packet" where
  "read_packet p = \<lparr>rw_pid = ld32 p, rw_address = ld64 (shift p 4), rw_length = ld32 (shift p 12)\<rparr>"

definition write_packet :: "ptr \<Rightarrow> cmd_proc_rw_packet" where
  "write_packet p = \<lparr>rw_pid = ld32 p, rw_address = ld64 (shift p 4), rw_length = ld32 (shift p 12)\<rparr>"

record cmd_proc_read_stack_packet =
  rs_pid :: u32
  rs_rbp :: u64
  rs_rsp :: u64
  rs_depth :: u32

definition read_stack_packet :: "ptr \<Rightarrow> cmd_proc_read_stack_packet" where
  "read_stack_packet p = \<lparr>rs_pid = ld32 p, rs_rbp = ld64 (shift p 4), rs_rsp = ld64 (shift p 12), rs_depth = ld32 (shift p 20)\<rparr>"

record cmd_proc_write_multi_packet =
  wm_pid :: u32
  wm_count :: u32
  wm_flags :: u32

definition write_multi_packet :: "ptr \<Rightarrow> cmd_proc_write_multi_packet" where
  "write_multi_packet p = \<lparr>wm_pid = ld32 p, wm_count = ld32 (shift p 4), wm_flags = ld32 (shift p 8)\<rparr>"

definition CMD_PROC_READ_STACK_CODE_OFF :: nat where "CMD_PROC_READ_STACK_CODE_OFF = 10"
definition CMD_PROC_READ_STACK_CODE_LEN :: nat where "CMD_PROC_READ_STACK_CODE_LEN = 200"
definition CMD_PROC_READ_STACK_LOCALS_CAP :: nat where "CMD_PROC_READ_STACK_LOCALS_CAP = 0x1000"
definition CMD_PROC_READ_STACK_MAX_DEPTH :: nat where "CMD_PROC_READ_STACK_MAX_DEPTH = 64"
definition PROC_WRITE_MULTI_F_STATUS :: u32 where "PROC_WRITE_MULTI_F_STATUS = 1"
definition PROC_WRITE_MULTI_MAX_COUNT :: nat where "PROC_WRITE_MULTI_MAX_COUNT = 0xFFFF"
definition PROC_WRITE_MULTI_MAX_ENTRY :: nat where "PROC_WRITE_MULTI_MAX_ENTRY = 0x100000"

section \<open>Reading\<close>

text \<open>The chunk buffer is cleared before every read.\<close>

function read_chunks :: "'s read_mem \<Rightarrow> u32 \<Rightarrow> u64 \<Rightarrow> nat \<Rightarrow> 's \<times> 'z conn_scheme \<Rightarrow> ('s \<times> 'z conn_scheme) option" where
  "read_chunks rdm pid address len (s, c) =
     (if len > 0x10000
      then Option.bind (rdm pid address (replicate 0x10000 0) s)
             (\<lambda>(buf, s). read_chunks rdm pid (address + 0x10000) (len - 0x10000) (s, send_all buf c))
      else if len > 0
      then map_option (\<lambda>(buf, s). (s, send_all buf c)) (rdm pid address (replicate len 0) s)
      else Some (s, c))"
  by pat_completeness auto
termination
  by (relation "measure (\<lambda>(_, _, _, len, _). len)") auto

declare read_chunks.simps [simp del]

definition proc_read_handle ::
    "'s read_mem \<Rightarrow> cmd_packet \<Rightarrow> 's \<times> 'z conn_scheme \<Rightarrow> (int \<times> 's \<times> 'z conn_scheme) option" where
  "proc_read_handle rdm packet sc = (case sc of (s, c) \<Rightarrow> (case data packet of
       None \<Rightarrow> Some (1, s, send_int32 CMD_DATA_NULL c)
     | Some dp \<Rightarrow>
       let rp = read_packet dp in
       case net_alloc_buffer 0x10000 c of
         (None, c) \<Rightarrow> Some (1, s, send_int32 CMD_DATA_NULL c)
       | (Some _, c) \<Rightarrow>
         map_option (Pair 0)
           (read_chunks rdm (rw_pid rp) (rw_address rp) (unat (rw_length rp)) (s, send_int32 CMD_SUCCESS c))))"

section \<open>Writing\<close>

text \<open>The result of \<^verbatim>\<open>net_recv_all\<close> is not tested: after a disconnection the buffer's old contents
  are written.\<close>

function write_chunks ::
    "'s write_mem \<Rightarrow> u32 \<Rightarrow> u64 \<Rightarrow> nat \<Rightarrow> ptr \<Rightarrow> 's \<times> 'z conn_scheme \<Rightarrow> ('s \<times> 'z conn_scheme) option" where
  "write_chunks wrm pid address len buf (s, c) =
     (if len > 0x10000
      then let (buf, c) = recv_all buf 0x10000 c in
           Option.bind (wrm pid address (bytes_at buf 0 0x10000) s)
             (\<lambda>s. write_chunks wrm pid (address + 0x10000) (len - 0x10000) buf (s, c))
      else if len > 0
      then let (buf, c) = recv_all buf (int len) c in
           map_option (\<lambda>s. (s, c)) (wrm pid address (bytes_at buf 0 len) s)
      else Some (s, c))"
  by pat_completeness auto
termination
  by (relation "measure (\<lambda>(_, _, _, len, _, _). len)") auto

declare write_chunks.simps [simp del]

definition proc_write_handle ::
    "'s write_mem \<Rightarrow> cmd_packet \<Rightarrow> 's \<times> 'z conn_scheme \<Rightarrow> (int \<times> 's \<times> 'z conn_scheme) option" where
  "proc_write_handle wrm packet sc = (case sc of (s, c) \<Rightarrow> (case data packet of
       None \<Rightarrow> Some (1, s, send_int32 CMD_DATA_NULL c)
     | Some dp \<Rightarrow>
       let wp = write_packet dp in
       case net_alloc_buffer 0x10000 c of
         (None, c) \<Rightarrow> Some (1, s, send_int32 CMD_DATA_NULL c)
       | (Some buf, c) \<Rightarrow>
         map_option (\<lambda>(s, c). (0, s, send_int32 CMD_SUCCESS c))
           (write_chunks wrm (rw_pid wp) (rw_address wp) (unat (rw_length wp)) buf (s, send_int32 CMD_SUCCESS c))))"

section \<open>Batched writing\<close>

text \<open>The data of one entry, received and written in pieces; \<open>None\<close> in the first component where the
  connection broke, otherwise whether a piece failed.\<close>

function multi_data ::
    "'s write_status \<Rightarrow> u32 \<Rightarrow> u64 \<Rightarrow> nat \<Rightarrow> bool \<Rightarrow> ptr \<Rightarrow> 's \<times> 'z conn_scheme
      \<Rightarrow> (bool option \<times> ptr \<times> 's \<times> 'z conn_scheme) option" where
  "multi_data wrs pid a len failed buf (s, c) =
     (if len = 0 then Some (Some failed, buf, s, c)
      else let to_recv = (if len > 0x10000 then 0x10000 else len) in
        case net_recv_all buf (int to_recv) 1 c of
          (rc, buf, c) \<Rightarrow>
          if rc < 0 then Some (None, buf, s, c)
          else Option.bind (wrs pid a (bytes_at buf 0 to_recv) s)
                 (\<lambda>(r, s). multi_data wrs pid (a + of_nat to_recv) (len - to_recv) (failed \<or> r \<noteq> 0) buf (s, c)))"
  by pat_completeness auto
termination
  by (relation "measure (\<lambda>(_, _, _, len, _, _, _). len)") auto

declare multi_data.simps [simp del]

text \<open>How the entries end: all processed, with their status bytes; the connection broken; or an
  entry too long.\<close>

datatype multi_end = Entries_done "byte list" | Broken | Too_long

text \<open>The header is a variable of the loop body, filled completely before it is read.\<close>

fun multi_entries ::
    "'s write_status \<Rightarrow> u32 \<Rightarrow> nat \<Rightarrow> byte list \<Rightarrow> ptr \<Rightarrow> 's \<times> 'z conn_scheme
      \<Rightarrow> (multi_end \<times> 's \<times> 'z conn_scheme) option" where
  "multi_entries wrs pid 0 sts buf (s, c) = Some (Entries_done sts, s, c)"
| "multi_entries wrs pid (Suc n) sts buf (s, c) =
     (case net_recv_all (of_list []) 12 1 c of
        (rc, hdr, c) \<Rightarrow>
        if rc < 0 then Some (Broken, s, c)
        else let addr = ld64 hdr; len32 = ld32 (shift hdr 8) in
          if unat len32 > PROC_WRITE_MULTI_MAX_ENTRY then Some (Too_long, s, c)
          else Option.bind (multi_data wrs pid addr (unat len32) False buf (s, c))
                 (\<lambda>(r, buf, s, c). case r of
                      None \<Rightarrow> Some (Broken, s, c)
                    | Some failed \<Rightarrow> multi_entries wrs pid n (sts @ [if failed then 1 else 0]) buf (s, c)))"

definition status_block :: "bool \<Rightarrow> nat \<Rightarrow> 'z conn_scheme \<Rightarrow> bool option \<times> 'z conn_scheme" where
  \<comment> \<open>the optional array of status bytes: whether there is one, \<open>None\<close> if it could not be allocated\<close>
  "status_block want n c =
     (if want then (let (p, c) = net_alloc_buffer n c in (map_option (\<lambda>_. True) p, c)) else (Some False, c))"

definition proc_write_multi_handle ::
    "'s write_status \<Rightarrow> cmd_packet \<Rightarrow> 's \<times> 'z conn_scheme \<Rightarrow> (int \<times> 's \<times> 'z conn_scheme) option" where
  "proc_write_multi_handle wrs packet sc = (case sc of (s, c) \<Rightarrow> (case data packet of
       None \<Rightarrow> Some (1, s, send_int32 CMD_DATA_NULL c)
     | Some dp \<Rightarrow>
       let mp = write_multi_packet dp; cnt = unat (wm_count mp); want_status = wm_flags mp AND PROC_WRITE_MULTI_F_STATUS \<noteq> 0 in
       if cnt > PROC_WRITE_MULTI_MAX_COUNT then Some (1, s, send_int32 CMD_ERROR c)
       else case net_alloc_buffer 0x10000 c of
         (None, c) \<Rightarrow> Some (1, s, send_int32 CMD_DATA_NULL c)
       | (Some buf, c) \<Rightarrow>
         (case status_block (want_status \<and> cnt > 0) cnt c of
            (None, c) \<Rightarrow> Some (1, s, send_int32 CMD_DATA_NULL c)
          | (Some has_status, c) \<Rightarrow>
            map_option (\<lambda>(r, s, c). case r of
                Broken \<Rightarrow> (1, s, c)
              | Too_long \<Rightarrow> (1, s, send_int32 CMD_ERROR c)
              | Entries_done sts \<Rightarrow> (0, s, send_int32 CMD_SUCCESS (if has_status then send_all sts c else c)))
              (multi_entries wrs (wm_pid mp) cnt [] buf (s, send_int32 CMD_SUCCESS c)))))"

section \<open>The stack walk\<close>

definition PROC_RS_USR_MIN :: u64 where "PROC_RS_USR_MIN = 0x10000"
definition PROC_RS_USR_MAX :: u64 where "PROC_RS_USR_MAX = 0x0000800000000000"

definition proc_rs_addr_ok :: "u64 \<Rightarrow> u64 \<Rightarrow> bool" where
  "proc_rs_addr_ok a len =
     (if len = 0 then False
      else if a < PROC_RS_USR_MIN \<or> a \<ge> PROC_RS_USR_MAX then False
      else if a + len < a then False
      else if a + len > PROC_RS_USR_MAX then False
      else True)"

definition stack_cap :: "nat \<Rightarrow> nat" where
  "stack_cap depth = 4 + depth * (32 + 12 + CMD_PROC_READ_STACK_LOCALS_CAP + CMD_PROC_READ_STACK_CODE_LEN)"

definition locals_len :: "u64 \<Rightarrow> u64 \<Rightarrow> nat" where
  \<comment> \<open>the size of the frame's locals, 0 where they are left out\<close>
  "locals_len cur_rbp cur_rsp =
     (let fs = cur_rbp - cur_rsp + 8 in
      if sint fs \<le> 0 \<or> fs > of_nat CMD_PROC_READ_STACK_LOCALS_CAP \<or> \<not> proc_rs_addr_ok cur_rsp fs then 0 else unat fs)"

definition code_len :: "u64 \<Rightarrow> nat" where
  "code_len ret_addr =
     (if proc_rs_addr_ok (ret_addr - of_nat CMD_PROC_READ_STACK_CODE_OFF) (of_nat CMD_PROC_READ_STACK_CODE_LEN)
      then CMD_PROC_READ_STACK_CODE_LEN else 0)"

definition frame_header :: "u64 \<Rightarrow> u64 \<Rightarrow> u64 \<Rightarrow> u64 \<Rightarrow> byte list" where
  "frame_header cur_rbp cur_rsp saved_rbp ret_addr =
     (let l = locals_len cur_rbp cur_rsp in
      le_bytes 8 cur_rbp @ le_bytes 8 cur_rsp @ le_bytes 8 saved_rbp @ le_bytes 8 ret_addr
      @ le_bytes 4 (if l = 0 then 1 else 0 :: u32) @ le_bytes 4 (of_nat l :: u32) @ le_bytes 4 (of_nat (code_len ret_addr) :: u32))"

definition read_opt :: "'s read_mem \<Rightarrow> u32 \<Rightarrow> u64 \<Rightarrow> nat \<Rightarrow> 's \<Rightarrow> (byte list \<times> 's) option" where
  \<comment> \<open>a read into a cleared buffer that is skipped for an empty range\<close>
  "read_opt rw pid a n s = (if n = 0 then Some ([], s) else rw pid a (replicate n 0) s)"

text \<open>The frame loop: \<open>fuel\<close> counts the iterations left of \<^verbatim>\<open>i < depth\<close>. \<^verbatim>\<open>off\<close> and
  \<^verbatim>\<open>n_frames\<close> stay far below \<open>2 ^ 32\<close>.\<close>

fun stack_loop ::
    "'s read_mem \<Rightarrow> u32 \<Rightarrow> nat \<Rightarrow> nat \<Rightarrow> u64 \<Rightarrow> u64 \<Rightarrow> nat \<Rightarrow> nat \<Rightarrow> ptr \<Rightarrow> 's \<Rightarrow> (nat \<times> nat \<times> ptr \<times> 's) option" where
  "stack_loop rw pid cap 0 cur_rbp cur_rsp off n_frames buf s = Some (off, n_frames, buf, s)"
| "stack_loop rw pid cap (Suc fuel) cur_rbp cur_rsp off n_frames buf s =
     (if \<not> proc_rs_addr_ok cur_rbp 16 then Some (off, n_frames, buf, s)
      else Option.bind (rw pid cur_rbp (replicate 16 0) s) (\<lambda>(pair, s).
        let saved_rbp = le_load 8 (of_list pair); ret_addr = le_load 8 (of_list (drop 8 pair));
            l = locals_len cur_rbp cur_rsp; n = code_len ret_addr in
        if off + 32 + 12 + l + n > cap then Some (off, n_frames, buf, s)
        else let buf = blit buf off (frame_header cur_rbp cur_rsp saved_rbp ret_addr); off = off + 44 in
          Option.bind (read_opt rw pid cur_rsp l s) (\<lambda>(locals, s).
            let buf = blit buf off locals; off = off + l in
            Option.bind (read_opt rw pid (ret_addr - of_nat CMD_PROC_READ_STACK_CODE_OFF) n s) (\<lambda>(code, s).
              let buf = blit buf off code; off = off + n; n_frames = n_frames + 1 in
              if saved_rbp = 0 then Some (off, n_frames, buf, s)
              else stack_loop rw pid cap fuel saved_rbp (cur_rbp + 8) off n_frames buf s))))"

definition stack_depth :: "u32 \<Rightarrow> nat" where
  "stack_depth depth = (let d = (if depth = 0 then 1 else unat depth) in
     if d > CMD_PROC_READ_STACK_MAX_DEPTH then CMD_PROC_READ_STACK_MAX_DEPTH else d)"

definition proc_read_stack_handle ::
    "'s read_mem \<Rightarrow> cmd_packet \<Rightarrow> 's \<times> 'z conn_scheme \<Rightarrow> (int \<times> 's \<times> 'z conn_scheme) option" where
  "proc_read_stack_handle rw packet sc = (case sc of (s, c) \<Rightarrow> (case data packet of
       None \<Rightarrow> Some (1, s, send_int32 CMD_DATA_NULL c)
     | Some dp \<Rightarrow>
       let sp = read_stack_packet dp; depth = stack_depth (rs_depth sp); cap = stack_cap depth in
       case net_alloc_buffer cap c of
         (None, c) \<Rightarrow> Some (1, s, send_int32 CMD_DATA_NULL c)
       | (Some buf, c) \<Rightarrow>
         map_option (\<lambda>(off, n_frames, buf, s).
             let buf = blit buf 0 (le_bytes 4 (of_nat n_frames :: u32)) in
             (0, s, send_all (bytes_at buf 0 off) (send_all (le_bytes 4 (of_nat off :: u32)) (send_int32 CMD_SUCCESS c))))
           (stack_loop rw (rs_pid sp) cap depth (rs_rbp sp) (rs_rsp sp) 4 0 buf s)))"

end
