(* ===== verification/ProcHandlersProps.thy ===== *)
theory ProcHandlersProps
  imports ProcHandlers
begin

text \<open>
  What the memory commands do for their client, over any memory access that keeps the contract of
  \<^verbatim>\<open>Target\<close>.
\<close>

context target_read
begin

lemma read_chunks_spec:
  "quiet c \<Longrightarrow> tv s t \<Longrightarrow> able pid a len \<Longrightarrow>
   \<exists>s' c'. read_chunks rdm pid a len (s, c) = Some (s', c') \<and> tv s' t \<and> io c [] (peek (t pid) a len) c'"
proof (induction len arbitrary: a s c rule: less_induct)
  case (less len)
  consider "len > 0x10000" | "0 < len" "len \<le> 0x10000" | "len = 0" by linarith
  then show ?case
  proof cases
    case 1
    have ab: "able pid a 0x10000" "able pid (a + 0x10000) (len - 0x10000)"
      using able_sub [OF less.prems(3), of 0 "0x10000"] able_sub [OF less.prems(3), of "0x10000" "len - 0x10000"] 1
      by simp_all
    obtain s1 where s1: "rdm pid a (replicate 0x10000 0) s = Some (peek (t pid) a 0x10000, s1)" "tv s1 t"
      using rdm_ok [OF less.prems(2), of pid a "replicate 0x10000 0"] ab(1) by auto
    let ?c = "send_all (peek (t pid) a 0x10000) c"
    obtain s' c' where ih: "read_chunks rdm pid (a + 0x10000) (len - 0x10000) (s1, ?c) = Some (s', c')" "tv s' t"
        "io ?c [] (peek (t pid) (a + 0x10000) (len - 0x10000)) c'"
      using less.IH [of "len - 0x10000" ?c s1 "a + 0x10000"] 1 less.prems(1) s1(2) ab(2) by auto
    have "io c [] (peek (t pid) a 0x10000 @ peek (t pid) (a + 0x10000) (len - 0x10000)) c'"
      using io_trans [OF io_send_all [OF less.prems(1)] ih(3)] by simp
    also have "peek (t pid) a 0x10000 @ peek (t pid) (a + 0x10000) (len - 0x10000) = peek (t pid) a len"
      using peek_add [of "t pid" a "0x10000" "len - 0x10000"] 1 by simp
    finally show ?thesis using ih s1 1 by (subst read_chunks.simps) simp
  next
    case 2
    obtain s1 where "rdm pid a (replicate len 0) s = Some (peek (t pid) a len, s1)" "tv s1 t"
      using rdm_ok [OF less.prems(2), of pid a "replicate len 0"] less.prems(3) by auto
    with 2 io_send_all [OF less.prems(1)] show ?thesis by (subst read_chunks.simps) auto
  next
    case 3
    with less.prems show ?thesis by (subst read_chunks.simps) auto
  qed
qed

lemma proc_read:
  assumes "quiet c" "tv s t" "data packet = Some dp" "rp = read_packet dp"
    and "able (rw_pid rp) (rw_address rp) (unat (rw_length rp))"
  shows "\<exists>s' c'. proc_read_handle rdm packet (s, c) = Some (0, s', c') \<and> tv s' t
    \<and> io c [] (status CMD_SUCCESS @ peek (t (rw_pid rp)) (rw_address rp) (unat (rw_length rp))) c'"
proof -
  obtain p d where d: "net_alloc_buffer 0x10000 c = (Some p, d)" "io c [] [] d" using io_alloc [OF assms(1), of "0x10000"] by auto
  then have q: "quiet d" using assms(1) io_fields(1) by blast
  then obtain s' c' where "read_chunks rdm (rw_pid rp) (rw_address rp) (unat (rw_length rp)) (s, send_int32 CMD_SUCCESS d) = Some (s', c')"
      "tv s' t" "io (send_int32 CMD_SUCCESS d) [] (peek (t (rw_pid rp)) (rw_address rp) (unat (rw_length rp))) c'"
    using read_chunks_spec [of "send_int32 CMD_SUCCESS d" s t "rw_pid rp" "rw_address rp" "unat (rw_length rp)"] assms(2,5) by auto
  moreover from this(3) have "io c [] (status CMD_SUCCESS @ peek (t (rw_pid rp)) (rw_address rp) (unat (rw_length rp))) c'"
    using io_trans [OF d(2) io_trans [OF io_send_int32 [OF q]]] by fastforce
  ultimately show ?thesis using assms(3,4) d(1) by (auto simp: proc_read_handle_def Let_def)
qed

end

context target_access
begin

lemma write_chunks_spec:
  "quiet c \<Longrightarrow> tv s t \<Longrightarrow> able pid a (length bs) \<Longrightarrow> rx c = bs @ rest \<Longrightarrow> length bs < 2 ^ 64 \<Longrightarrow>
   \<exists>s' c'. write_chunks wrm pid a (length bs) buf (s, c) = Some (s', c') \<and> tv s' (t(pid := poke (t pid) a bs))
     \<and> io c bs [] c'"
proof (induction "length bs" arbitrary: a s c t bs buf rule: less_induct)
  case less
  consider "length bs > 0x10000" | "0 < length bs" "length bs \<le> 0x10000" | "length bs = 0" by linarith
  then show ?case
  proof cases
    case 1
    define b1 b2 where "b1 = take 0x10000 bs" and "b2 = drop 0x10000 bs"
    have b: "bs = b1 @ b2" "length b1 = 0x10000" "length b2 = length bs - 0x10000"
      using 1 by (simp_all add: b1_def b2_def)
    have ab: "able pid a (length b1)" "able pid (a + 0x10000) (length b2)"
      using able_sub [OF less.prems(3), of 0 "length b1"] able_sub [OF less.prems(3), of "0x10000" "length b2"] 1 b(2,3)
      by simp_all
    obtain d where d: "recv_all buf 0x10000 c = (blit buf 0 b1, d)" "io c b1 [] d" "rx d = b2 @ rest"
      using io_recv [OF less.prems(1), of b1 "b2 @ rest" "0x10000" buf] less.prems(4) b(1,2) by auto
    obtain s1 where s1: "wrm pid a b1 s = Some s1" "tv s1 (t(pid := poke (t pid) a b1))"
      using wrm_ok [OF less.prems(2) ab(1)] by blast
    have q: "quiet d" using d(2) less.prems(1) io_fields(1) by blast
    obtain s' c' where ih: "write_chunks wrm pid (a + 0x10000) (length b2) (blit buf 0 b1) (s1, d) = Some (s', c')"
        "tv s' ((t(pid := poke (t pid) a b1))(pid := poke (poke (t pid) a b1) (a + 0x10000) b2))" "io d b2 [] c'"
      using less.hyps [OF _ q s1(2) ab(2) d(3), of "blit buf 0 b1"] 1 less.prems(5) b(3) by fastforce
    have "length b1 + length b2 \<le> 2 ^ 64" using less.prems(5) b(1) by simp
    then have "poke (poke (t pid) a b1) (a + 0x10000) b2 = poke (t pid) a bs"
      using poke_append [of b1 b2 "t pid" a] b(1,2) by simp
    moreover have "io c bs [] c'" using io_trans [OF d(2) ih(3)] b(1) by simp
    moreover have "write_chunks wrm pid a (length bs) buf (s, c) = Some (s', c')"
      using 1 d(1) s1(1) ih(1) b(2,3) by (subst write_chunks.simps) (simp add: bytes_at_blit_same [of "0x10000" b1])
    ultimately show ?thesis using ih(2) by auto
  next
    case 2
    obtain d where d: "recv_all buf (int (length bs)) c = (blit buf 0 bs, d)" "io c bs [] d"
      using io_recv [OF less.prems(1,4), of "int (length bs)" buf] by auto
    obtain s1 where "wrm pid a bs s = Some s1" "tv s1 (t(pid := poke (t pid) a bs))"
      using wrm_ok [OF less.prems(2,3)] by blast
    with 2 d show ?thesis by (subst write_chunks.simps) auto
  next
    case 3
    with less.prems show ?thesis by (subst write_chunks.simps) auto
  qed
qed

lemma proc_write:
  assumes "quiet c" "tv s t" "data packet = Some dp" "wp = write_packet dp" "rx c = bs @ rest" "length bs = unat (rw_length wp)"
    and "able (rw_pid wp) (rw_address wp) (length bs)"
  shows "\<exists>s' c'. proc_write_handle wrm packet (s, c) = Some (0, s', c')
    \<and> tv s' (t(rw_pid wp := poke (t (rw_pid wp)) (rw_address wp) bs))
    \<and> io c bs (status CMD_SUCCESS @ status CMD_SUCCESS) c'"
proof -
  obtain p d where d: "net_alloc_buffer 0x10000 c = (Some p, d)" "io c [] [] d" using io_alloc [OF assms(1), of "0x10000"] by auto
  then have q: "quiet d" and r: "rx d = bs @ rest" using assms(1,5) io_fields by fastforce+
  have r': "rx (send_int32 CMD_SUCCESS d) = bs @ rest"
    using io_fields(2) [OF io_send_int32 [OF q]] r by simp
  have "length bs < 2 ^ 32" using assms(6) unsigned_less [of "rw_length wp", where ?'a = nat] by simp
  then obtain s' c' where w: "write_chunks wrm (rw_pid wp) (rw_address wp) (length bs) p (s, send_int32 CMD_SUCCESS d) = Some (s', c')"
      "tv s' (t(rw_pid wp := poke (t (rw_pid wp)) (rw_address wp) bs))" "io (send_int32 CMD_SUCCESS d) bs [] c'"
    using write_chunks_spec [OF _ assms(2,7) r', of p] q by auto
  have q': "quiet c'" using io_fields(1) [OF w(3)] q by simp
  have "io c bs (status CMD_SUCCESS @ status CMD_SUCCESS) (send_int32 CMD_SUCCESS c')"
    using io_trans [OF d(2) io_trans [OF io_send_int32 [OF q] io_trans [OF w(3) io_send_int32 [OF q']]]] by simp
  then show ?thesis using w assms(3,4,6) d(1) by (auto simp: proc_write_handle_def Let_def)
qed

end

section \<open>Batched writing\<close>

definition entry_wire :: "u64 \<times> byte list \<Rightarrow> byte list" where
  \<comment> \<open>an entry as the client sends it\<close>
  "entry_wire x = le_bytes 8 (fst x) @ le_bytes 4 (of_nat (length (snd x)) :: u32) @ snd x"

definition apply_entries :: "(u64 \<times> byte list) list \<Rightarrow> (u64 \<Rightarrow> byte) \<Rightarrow> u64 \<Rightarrow> byte" where
  "apply_entries es m = fold (\<lambda>(a, bs) m. poke m a bs) es m"

lemma header_fields:
  assumes "length bs < 2 ^ 32"
  shows "ld64 (blit p 0 (le_bytes 8 a @ le_bytes 4 (of_nat (length bs) :: u32))) = a"
    "unat (ld32 (shift (blit p 0 (le_bytes 8 a @ le_bytes 4 (of_nat (length bs) :: u32))) 8)) = length bs"
proof -
  let ?p = "blit p 0 (le_bytes 8 a @ le_bytes 4 (of_nat (length bs) :: u32))"
  show "ld64 ?p = a" by (rule le_load_le_bytes) (simp_all add: blit_def nth_append)
  have "ld32 (shift ?p 8) = (of_nat (length bs) :: u32)"
    by (rule le_load_le_bytes) (simp_all add: blit_def nth_append)
  then show "unat (ld32 (shift ?p 8)) = length bs" using assms by (simp add: unat_of_nat)
qed

context target_access
begin

lemma multi_data_spec:
  "quiet c \<Longrightarrow> tv s t \<Longrightarrow> able pid a (length bs) \<Longrightarrow> rx c = bs @ rest \<Longrightarrow> length bs < 2 ^ 64 \<Longrightarrow>
   \<exists>buf' s' c'. multi_data wrs pid a (length bs) failed buf (s, c) = Some (Some failed, buf', s', c')
     \<and> tv s' (t(pid := poke (t pid) a bs)) \<and> io c bs [] c'"
proof (induction "length bs" arbitrary: a s c t bs buf rule: less_induct)
  case less
  show ?case
  proof (cases "bs = []")
    case True
    with less.prems show ?thesis by (subst multi_data.simps) auto
  next
    case False
    define n where "n = (if length bs > 0x10000 then 0x10000 else length bs)"
    define b1 b2 where "b1 = take n bs" and "b2 = drop n bs"
    have b: "bs = b1 @ b2" "length b1 = n" "length b2 = length bs - n" "0 < n" "n \<le> length bs"
      using False by (simp_all add: b1_def b2_def n_def)
    have ab: "able pid a (length b1)" "able pid (a + of_nat n) (length b2)"
      using able_sub [OF less.prems(3), of 0 "length b1"] able_sub [OF less.prems(3), of n "length b2"] b(2-5) by simp_all
    obtain d where d: "net_recv_all buf (int n) 1 c = (0, blit buf 0 b1, d)" "io c b1 [] d" "rx d = b2 @ rest"
      using net_recv_quiet [OF less.prems(1), of b1 "b2 @ rest" "int n" buf] less.prems(4) b(1,2) by auto
    obtain s1 where s1: "wrs pid a b1 s = Some (0, s1)" "tv s1 (t(pid := poke (t pid) a b1))"
      using wrs_ok [OF less.prems(2) ab(1)] by blast
    have q: "quiet d" using d(2) less.prems(1) io_fields(1) by blast
    obtain buf' s' c' where ih: "multi_data wrs pid (a + of_nat n) (length b2) failed (blit buf 0 b1) (s1, d) = Some (Some failed, buf', s', c')"
        "tv s' ((t(pid := poke (t pid) a b1))(pid := poke (poke (t pid) a b1) (a + of_nat n) b2))" "io d b2 [] c'"
      using less.hyps [OF _ q s1(2) ab(2) d(3), of "blit buf 0 b1"] less.prems(5) b(3,4,5) by fastforce
    have "length b1 + length b2 \<le> 2 ^ 64" using less.prems(5) b(1) by simp
    then have "poke (poke (t pid) a b1) (a + of_nat n) b2 = poke (t pid) a bs"
      using poke_append [of b1 b2 "t pid" a] b(1,2) by simp
    moreover have "io c bs [] c'" using io_trans [OF d(2) ih(3)] b(1) by simp
    moreover have "multi_data wrs pid a (length bs) failed buf (s, c) = Some (Some failed, buf', s', c')"
      unfolding multi_data.simps [of wrs pid a "length bs"] Let_def n_def [symmetric]
      using False d(1) s1(1) ih(1) b(2,3) by (simp add: bytes_at_blit_same [of n b1])
    ultimately show ?thesis using ih(2) by auto
  qed
qed

text \<open>Well-formed entries are processed one after the other, whatever follows them.\<close>

lemma multi_entries_prefix:
  "quiet c \<Longrightarrow> tv s t \<Longrightarrow> \<forall>(a, bs)\<in>set es. able pid a (length bs) \<and> length bs \<le> PROC_WRITE_MULTI_MAX_ENTRY \<Longrightarrow>
   rx c = concat (map entry_wire es) @ rest \<Longrightarrow>
   \<exists>buf' s' c'. multi_entries wrs pid (length es + k) sts buf (s, c) = multi_entries wrs pid k (sts @ replicate (length es) 0) buf' (s', c')
     \<and> tv s' (t(pid := apply_entries es (t pid))) \<and> io c (concat (map entry_wire es)) [] c'"
proof (induction es arbitrary: c s t sts buf)
  case Nil
  then show ?case by (intro exI [of _ buf] exI [of _ s] exI [of _ c]) (simp add: apply_entries_def)
next
  case (Cons x es)
  obtain a bs where x: "x = (a, bs)" by (cases x)
  let ?h = "le_bytes 8 a @ le_bytes 4 (of_nat (length bs) :: u32)"
  have es: "\<forall>(a, bs)\<in>set es. able pid a (length bs) \<and> length bs \<le> PROC_WRITE_MULTI_MAX_ENTRY" using Cons.prems(3) by simp
  have e: "able pid a (length bs)" "length bs \<le> PROC_WRITE_MULTI_MAX_ENTRY" using Cons.prems(3) by (auto simp: x)
  then have l: "length bs < 2 ^ 32" by (simp add: PROC_WRITE_MULTI_MAX_ENTRY_def)
  have r: "rx c = ?h @ bs @ concat (map entry_wire es) @ rest" using Cons.prems(4) by (simp add: x entry_wire_def [of "(a, bs)"])
  obtain d where d: "net_recv_all (of_list []) 12 1 c = (0, blit (of_list []) 0 ?h, d)" "io c ?h [] d"
      "rx d = bs @ concat (map entry_wire es) @ rest"
    using net_recv_quiet [OF Cons.prems(1) r, of 12] by auto
  note f = header_fields [OF l, of "of_list []" a]
  have qd: "quiet d" using d(2) Cons.prems(1) io_fields(1) by blast
  obtain b1 s1 c1 where 1: "multi_data wrs pid a (length bs) False buf (s, d) = Some (Some False, b1, s1, c1)"
      "tv s1 (t(pid := poke (t pid) a bs))" "io d bs [] c1"
    using multi_data_spec [OF qd Cons.prems(2) e(1) d(3), of False buf] l by auto
  have q1: "quiet c1" "rx c1 = concat (map entry_wire es) @ rest" using 1(3) qd d(3) io_fields by fastforce+
  obtain buf' s' c' where 2: "multi_entries wrs pid (length es + k) (sts @ [0]) b1 (s1, c1)
        = multi_entries wrs pid k ((sts @ [0]) @ replicate (length es) 0) buf' (s', c')"
      "tv s' (t(pid := apply_entries es (poke (t pid) a bs)))" "io c1 (concat (map entry_wire es)) [] c'"
    using Cons.IH [OF q1(1) 1(2) es q1(2), of "sts @ [0]" b1] unfolding fun_upd_upd fun_upd_same by blast
  have "io c (concat (map entry_wire (x # es))) [] c'"
    using io_trans [OF d(2) io_trans [OF 1(3) 2(3)]] by (simp add: x entry_wire_def [of "(a, bs)"])
  moreover have "multi_entries wrs pid (length (x # es) + k) sts buf (s, c)
      = multi_entries wrs pid k (sts @ replicate (length (x # es)) 0) buf' (s', c')"
    using d(1) 1(1) 2(1) e(2) by (simp add: f)
  moreover have "apply_entries (x # es) (t pid) = apply_entries es (poke (t pid) a bs)" by (simp add: x apply_entries_def)
  ultimately show ?case using 2(2) by metis
qed

lemma multi_entries_spec:
  assumes "quiet c" "tv s t" "\<forall>(a, bs)\<in>set es. able pid a (length bs) \<and> length bs \<le> PROC_WRITE_MULTI_MAX_ENTRY"
    "rx c = concat (map entry_wire es) @ rest"
  shows "\<exists>s' c'. multi_entries wrs pid (length es) sts buf (s, c) = Some (Entries_done (sts @ replicate (length es) 0), s', c')
     \<and> tv s' (t(pid := apply_entries es (t pid))) \<and> io c (concat (map entry_wire es)) [] c'"
  using multi_entries_prefix [OF assms, of 0 sts buf] by auto

lemma multi_entries_too_long:
  assumes "quiet c" "tv s t" "\<forall>(a, bs)\<in>set es. able pid a (length bs) \<and> length bs \<le> PROC_WRITE_MULTI_MAX_ENTRY"
    and "rx c = concat (map entry_wire es) @ (le_bytes 8 (a :: u64) @ le_bytes 4 (n :: u32)) @ rest" "unat n > PROC_WRITE_MULTI_MAX_ENTRY"
    and "length es < cnt"
  shows "\<exists>s' c'. multi_entries wrs pid cnt sts buf (s, c) = Some (Too_long, s', c')
     \<and> tv s' (t(pid := apply_entries es (t pid))) \<and> io c (concat (map entry_wire es) @ le_bytes 8 a @ le_bytes 4 n) [] c'"
proof -
  obtain k where k: "cnt = length es + Suc k" using less_imp_Suc_add [OF assms(6)] by auto
  obtain buf' s' c1 where 1: "multi_entries wrs pid cnt sts buf (s, c) = multi_entries wrs pid (Suc k) (sts @ replicate (length es) 0) buf' (s', c1)"
      "tv s' (t(pid := apply_entries es (t pid)))" "io c (concat (map entry_wire es)) [] c1"
    unfolding k using multi_entries_prefix [OF assms(1-4)] by blast
  let ?h = "le_bytes 8 a @ le_bytes 4 n"
  have q1: "quiet c1" "rx c1 = ?h @ rest" using 1(3) assms(1,4) io_fields by fastforce+
  obtain d where d: "net_recv_all (of_list []) 12 1 c1 = (0, blit (of_list []) 0 ?h, d)" "io c1 ?h [] d"
    using net_recv_quiet [OF q1, of 12 "of_list []"] by auto
  have "ld32 (shift (blit (of_list []) 0 ?h) 8) = n" by (rule le_load_le_bytes) (simp_all add: blit_def nth_append)
  then have "multi_entries wrs pid (Suc k) (sts @ replicate (length es) 0) buf' (s', c1) = Some (Too_long, s', d)"
    using d(1) assms(5) by simp
  then show ?thesis using 1 io_trans [OF 1(3) d(2)] by auto
qed

lemma proc_write_multi:
  assumes "quiet c" "tv s t" "data packet = Some dp" "mp = write_multi_packet dp"
    and "unat (wm_count mp) = length es" "length es \<le> PROC_WRITE_MULTI_MAX_COUNT" "rx c = concat (map entry_wire es) @ rest"
    and "\<forall>(a, bs)\<in>set es. able (wm_pid mp) a (length bs) \<and> length bs \<le> PROC_WRITE_MULTI_MAX_ENTRY"
  shows "\<exists>s' c'. proc_write_multi_handle wrs packet (s, c) = Some (0, s', c')
    \<and> tv s' (t(wm_pid mp := apply_entries es (t (wm_pid mp))))
    \<and> io c (concat (map entry_wire es)) (status CMD_SUCCESS
        @ (if wm_flags mp AND PROC_WRITE_MULTI_F_STATUS \<noteq> 0 then replicate (length es) 0 else []) @ status CMD_SUCCESS) c'"
proof -
  let ?want = "wm_flags mp AND PROC_WRITE_MULTI_F_STATUS \<noteq> 0"
  obtain p d where d: "net_alloc_buffer 0x10000 c = (Some p, d)" "io c [] [] d" using io_alloc [OF assms(1), of "0x10000"] by auto
  let ?h = "?want \<and> length es > 0"
  obtain d' where d': "status_block ?h (length es) d = (Some ?h, d')" "io d [] [] d'"
  proof (cases ?h)
    case True
    moreover obtain q d' where "net_alloc_buffer (length es) d = (Some q, d')" "io d [] [] d'"
      using io_alloc [of d "length es"] True assms(1) io_fields(1) [OF d(2)] by auto
    ultimately show thesis using that [of d'] by (simp add: status_block_def)
  qed (use that [of d] in \<open>auto simp: status_block_def\<close>)
  have q: "quiet d'" using assms(1) io_fields(1) [OF d(2)] io_fields(1) [OF d'(2)] by simp
  have r: "rx (send_int32 CMD_SUCCESS d') = concat (map entry_wire es) @ rest"
    using assms(7) io_fields(2) [OF d(2)] io_fields(2) [OF d'(2)] io_fields(2) [OF io_send_int32 [OF q]] by simp
  obtain s' c' where w: "multi_entries wrs (wm_pid mp) (length es) [] p (s, send_int32 CMD_SUCCESS d')
        = Some (Entries_done (replicate (length es) 0), s', c')"
      "tv s' (t(wm_pid mp := apply_entries es (t (wm_pid mp))))" "io (send_int32 CMD_SUCCESS d') (concat (map entry_wire es)) [] c'"
    using multi_entries_spec [OF _ assms(2,8) r, of "[]" p] q by auto
  have q': "quiet c'" using io_fields(1) [OF w(3)] q by simp
  let ?st = "if ?h then replicate (length es) 0 else [] :: byte list"
  let ?c = "if ?h then send_all (replicate (length es) 0) c' else c'"
  have st: "io c' [] ?st ?c" "quiet ?c" using io_send_all [OF q'] q' by auto
  have "io c (concat (map entry_wire es)) (status CMD_SUCCESS @ ?st @ status CMD_SUCCESS) (send_int32 CMD_SUCCESS ?c)"
    using io_trans [OF d(2) io_trans [OF d'(2) io_trans [OF io_send_int32 [OF q]
          io_trans [OF w(3) io_trans [OF st(1) io_send_int32 [OF st(2)]]]]]] by simp
  moreover have "?st = (if ?want then replicate (length es) 0 else [])" by auto
  ultimately have "io c (concat (map entry_wire es)) (status CMD_SUCCESS
      @ (if ?want then replicate (length es) 0 else []) @ status CMD_SUCCESS) (send_int32 CMD_SUCCESS ?c)" by (simp only:)
  moreover have "proc_write_multi_handle wrs packet (s, c) = Some (0, s', send_int32 CMD_SUCCESS ?c)"
    unfolding proc_write_multi_handle_def prod.case assms(3) option.case Let_def assms(4) [symmetric] assms(5) d(1) d'(1) w(1)
    using assms(6) by simp
  ultimately show ?thesis using w(2) by blast
qed

end

section \<open>The stack walk\<close>

text \<open>The frames of a stack as the memory has them, at most \<open>depth\<close>.\<close>

definition frame_bytes :: "(u64 \<Rightarrow> byte) \<Rightarrow> u64 \<Rightarrow> u64 \<Rightarrow> byte list" where
  "frame_bytes m rbp rsp =
     (let ret = mem64 m (rbp + 8) in
      frame_header rbp rsp (mem64 m rbp) ret @ peek m rsp (locals_len rbp rsp)
      @ peek m (ret - of_nat CMD_PROC_READ_STACK_CODE_OFF) (code_len ret))"

fun frames :: "(u64 \<Rightarrow> byte) \<Rightarrow> nat \<Rightarrow> u64 \<Rightarrow> u64 \<Rightarrow> byte list list" where
  "frames m 0 rbp rsp = []"
| "frames m (Suc depth) rbp rsp =
     (if \<not> proc_rs_addr_ok rbp 16 then []
      else frame_bytes m rbp rsp # (if mem64 m rbp = 0 then [] else frames m depth (mem64 m rbp) (rbp + 8)))"

fun frames_able :: "(u64 \<Rightarrow> nat \<Rightarrow> bool) \<Rightarrow> (u64 \<Rightarrow> byte) \<Rightarrow> nat \<Rightarrow> u64 \<Rightarrow> u64 \<Rightarrow> bool" where
  \<comment> \<open>everything the walk looks at is mapped\<close>
  "frames_able ab m 0 rbp rsp = True"
| "frames_able ab m (Suc depth) rbp rsp =
     (proc_rs_addr_ok rbp 16 \<longrightarrow>
        ab rbp 16 \<and> ab rsp (locals_len rbp rsp)
        \<and> ab (mem64 m (rbp + 8) - of_nat CMD_PROC_READ_STACK_CODE_OFF) (code_len (mem64 m (rbp + 8)))
        \<and> (mem64 m rbp \<noteq> 0 \<longrightarrow> frames_able ab m depth (mem64 m rbp) (rbp + 8)))"

lemma length_frame_header [simp]: "length (frame_header rbp rsp saved ret) = 44"
  by (simp add: frame_header_def Let_def)

lemma locals_len_le: "locals_len rbp rsp \<le> CMD_PROC_READ_STACK_LOCALS_CAP"
proof -
  have "unat w \<le> CMD_PROC_READ_STACK_LOCALS_CAP" if "\<not> (w > (of_nat CMD_PROC_READ_STACK_LOCALS_CAP :: u64))" for w
    using that by (simp add: word_less_nat_alt CMD_PROC_READ_STACK_LOCALS_CAP_def not_less)
  then show ?thesis by (simp add: locals_len_def Let_def)
qed

lemma code_len_le: "code_len ret \<le> CMD_PROC_READ_STACK_CODE_LEN"
  by (simp add: code_len_def)

text \<open>Whatever the reads return, a frame never needs more than its share of the block.\<close>

lemma stack_loop_bounds:
  assumes keep: "\<And>pid a b s b' s'. rw pid a b s = Some (b', s') \<Longrightarrow> length b' = length b"
  shows "stack_loop rw pid cap fuel rbp rsp off n buf s = Some (off', n', buf', s') \<Longrightarrow> off \<le> cap \<Longrightarrow>
    off \<le> off' \<and> off' \<le> cap \<and> n \<le> n' \<and> n' \<le> n + fuel \<and> (\<forall>i. i < off \<or> cap \<le> i \<longrightarrow> buf' i = buf i)"
proof (induction fuel arbitrary: rbp rsp off n buf s)
  case (Suc fuel)
  show ?case
  proof (cases "proc_rs_addr_ok rbp 16")
    case True
    then obtain pair s1 where 1: "rw pid rbp (replicate 16 0) s = Some (pair, s1)"
      using Suc.prems(1) by (auto simp: bind_eq_Some_conv)
    define ret :: u64 where "ret = le_load 8 (of_list (drop 8 pair))"
    define saved :: u64 where "saved = le_load 8 (of_list pair)"
    let ?l = "locals_len rbp rsp" and ?n = "code_len ret"
    show ?thesis
    proof (cases "off + 32 + 12 + ?l + ?n > cap")
      case F: False
      then obtain locals s2 code s3 where 2: "read_opt rw pid rsp ?l s1 = Some (locals, s2)"
          "read_opt rw pid (ret - of_nat CMD_PROC_READ_STACK_CODE_OFF) ?n s2 = Some (code, s3)"
        using Suc.prems(1) True 1 by (auto simp: Let_def bind_eq_Some_conv ret_def [symmetric] split: if_splits)
      have len: "length locals = ?l" "length code = ?n"
        using 2 keep by (auto simp: read_opt_def split: if_splits)
      let ?buf = "blit (blit (blit buf off (frame_header rbp rsp saved ret)) (off + 44) locals) (off + 44 + ?l) code"
      let ?off = "off + 44 + ?l + ?n"
      have eq: "stack_loop rw pid cap (Suc fuel) rbp rsp off n buf s =
          (if saved = 0 then Some (?off, n + 1, ?buf, s3) else stack_loop rw pid cap fuel saved (rbp + 8) ?off (n + 1) ?buf s3)"
        using True 1 2 F by (simp add: Let_def ret_def saved_def)
      have out: "?buf i = buf i" if "i < off \<or> cap \<le> i" for i using that F len by (auto simp: blit_def)
      have o: "?off \<le> cap" using F by simp
      show ?thesis
      proof (cases "saved = 0")
        case True
        then have "off' = ?off" "n' = n + 1" "buf' = ?buf" using Suc.prems(1) unfolding eq by simp_all
        with o out show ?thesis by simp
      next
        case False
        then have "stack_loop rw pid cap fuel saved (rbp + 8) ?off (n + 1) ?buf s3 = Some (off', n', buf', s')"
          using Suc.prems(1) unfolding eq by simp
        from Suc.IH [OF this o] out show ?thesis by auto
      qed
    qed (use Suc.prems True 1 in \<open>auto simp: Let_def ret_def [symmetric]\<close>)
  qed (use Suc.prems in auto)
qed auto

lemma pair_fields:
  "(le_load 8 (of_list (peek m a 16)) :: u64) = mem64 m a" "(le_load 8 (of_list (drop 8 (peek m a 16))) :: u64) = mem64 m (a + 8)"
  unfolding mem64_def by (rule le_load_cong, simp add: of_list_def window_apply add.assoc)+

context target_read
begin

lemma read_opt_ok:
  assumes "tv s t" "able pid a n"
  shows "\<exists>s'. read_opt rdm pid a n s = Some (peek (t pid) a n, s') \<and> tv s' t"
  using rdm_ok [OF assms(1), of pid a "replicate n 0"] assms by (auto simp: read_opt_def)

lemma stack_loop_spec:
  "tv s t \<Longrightarrow> frames_able (able pid) (t pid) fuel rbp rsp \<Longrightarrow>
   off + fuel * (32 + 12 + CMD_PROC_READ_STACK_LOCALS_CAP + CMD_PROC_READ_STACK_CODE_LEN) \<le> cap \<Longrightarrow>
   \<exists>s'. stack_loop rdm pid cap fuel rbp rsp off n buf s =
       Some (off + length (concat (frames (t pid) fuel rbp rsp)), n + length (frames (t pid) fuel rbp rsp),
         blit buf off (concat (frames (t pid) fuel rbp rsp)), s') \<and> tv s' t"
proof (induction fuel arbitrary: rbp rsp off n buf s)
  case (Suc fuel)
  show ?case
  proof (cases "proc_rs_addr_ok rbp 16")
    case True
    let ?m = "t pid"
    let ?saved = "mem64 ?m rbp" and ?ret = "mem64 ?m (rbp + 8)" and ?l = "locals_len rbp rsp"
    let ?code = "?ret - of_nat CMD_PROC_READ_STACK_CODE_OFF" and ?n = "code_len ?ret"
    have ab: "able pid rbp 16" "able pid rsp ?l" "able pid ?code ?n"
        "?saved \<noteq> 0 \<Longrightarrow> frames_able (able pid) ?m fuel ?saved (rbp + 8)" using Suc.prems(2) True by auto
    obtain s1 where 1: "rdm pid rbp (replicate 16 0) s = Some (peek ?m rbp 16, s1)" "tv s1 t"
      using rdm_ok [OF Suc.prems(1), of pid rbp "replicate 16 0"] ab(1) by auto
    obtain s2 where 2: "read_opt rdm pid rsp ?l s1 = Some (peek ?m rsp ?l, s2)" "tv s2 t"
      using read_opt_ok [OF 1(2) ab(2)] by blast
    obtain s3 where 3: "read_opt rdm pid ?code ?n s2 = Some (peek ?m ?code ?n, s3)" "tv s3 t"
      using read_opt_ok [OF 2(2) ab(3)] by blast
    let ?f = "frame_bytes ?m rbp rsp" and ?off = "off + 44 + ?l + ?n"
    have len: "?off = off + length ?f" by (simp add: frame_bytes_def Let_def)
    have fit: "?off \<le> off + (32 + 12 + CMD_PROC_READ_STACK_LOCALS_CAP + CMD_PROC_READ_STACK_CODE_LEN)"
      using locals_len_le [of rbp rsp] code_len_le [of ?ret] by simp
    then have cap: "\<not> off + 32 + 12 + ?l + ?n > cap" "?off + fuel * (32 + 12 + CMD_PROC_READ_STACK_LOCALS_CAP + CMD_PROC_READ_STACK_CODE_LEN) \<le> cap"
      using Suc.prems(3) by simp_all
    have buf: "blit (blit (blit buf off (frame_header rbp rsp ?saved ?ret)) (off + 44) (peek ?m rsp ?l)) (off + 44 + ?l) (peek ?m ?code ?n)
        = blit buf off ?f"
      using blit_blit [of buf off "frame_header rbp rsp ?saved ?ret" "peek ?m rsp ?l"]
        blit_blit [of buf off "frame_header rbp rsp ?saved ?ret @ peek ?m rsp ?l" "peek ?m ?code ?n"]
      by (simp add: frame_bytes_def Let_def add.assoc)
    have eq: "stack_loop rdm pid cap (Suc fuel) rbp rsp off n buf s =
        (if ?saved = 0 then Some (?off, n + 1, blit buf off ?f, s3)
         else stack_loop rdm pid cap fuel ?saved (rbp + 8) ?off (n + 1) (blit buf off ?f) s3)"
      using True 1(1) 2(1) 3(1) cap(1) buf by (cases "?saved = 0") (simp_all add: Let_def pair_fields)
    show ?thesis
    proof (cases "?saved = 0")
      case S: True
      then show ?thesis using True 3(2) len unfolding eq by auto
    next
      case S: False
      obtain s' where "stack_loop rdm pid cap fuel ?saved (rbp + 8) ?off (n + 1) (blit buf off ?f) s3 =
          Some (?off + length (concat (frames ?m fuel ?saved (rbp + 8))), n + 1 + length (frames ?m fuel ?saved (rbp + 8)),
            blit (blit buf off ?f) ?off (concat (frames ?m fuel ?saved (rbp + 8))), s')" "tv s' t"
        using Suc.IH [OF 3(2) ab(4) [OF S] cap(2), of "n + 1" "blit buf off ?f"] by blast
      moreover have "blit (blit buf off ?f) ?off (concat (frames ?m fuel ?saved (rbp + 8))) = blit buf off (?f @ concat (frames ?m fuel ?saved (rbp + 8)))"
        unfolding len by (rule blit_blit)
      ultimately show ?thesis using True S len unfolding eq by (simp add: add.assoc)
    qed
  qed (use Suc.prems in simp)
qed simp

lemma proc_read_stack:
  assumes "quiet c" "tv s t" "data packet = Some dp" "sp = read_stack_packet dp" "d = stack_depth (rs_depth sp)"
    and "fs = frames (t (rs_pid sp)) d (rs_rbp sp) (rs_rsp sp)"
    and "frames_able (able (rs_pid sp)) (t (rs_pid sp)) d (rs_rbp sp) (rs_rsp sp)"
  shows "\<exists>s' c'. proc_read_stack_handle rdm packet (s, c) = Some (0, s', c') \<and> tv s' t
    \<and> io c [] (status CMD_SUCCESS @ le_bytes 4 (of_nat (4 + length (concat fs)) :: u32)
        @ le_bytes 4 (of_nat (length fs) :: u32) @ concat fs) c'"
proof -
  have "0 < stack_cap d" by (simp add: stack_cap_def)
  then obtain p e where e: "net_alloc_buffer (stack_cap d) c = (Some p, e)" "io c [] [] e" using io_alloc [OF assms(1)] by metis
  then have q: "quiet e" using assms(1) io_fields(1) by blast
  obtain s' where s': "stack_loop rdm (rs_pid sp) (stack_cap d) d (rs_rbp sp) (rs_rsp sp) 4 0 p s
      = Some (4 + length (concat fs), length fs, blit p 4 (concat fs), s')" "tv s' t"
    using stack_loop_spec [OF assms(2,7), of 4 "stack_cap d" 0 p] by (auto simp: stack_cap_def assms(6))
  let ?h = "le_bytes 4 (of_nat (length fs) :: u32)" and ?o = "le_bytes 4 (of_nat (4 + length (concat fs)) :: u32)"
  have "bytes_at (blit (blit p 4 (concat fs)) 0 ?h) 0 (4 + length (concat fs)) = ?h @ concat fs"
    by (rule nth_equalityI) (auto simp: blit_def nth_append)
  then have "proc_read_stack_handle rdm packet (s, c) =
      Some (0, s', send_all (?h @ concat fs) (send_all ?o (send_int32 CMD_SUCCESS e)))"
    using e(1) s'(1) assms(3-5) by (simp add: proc_read_stack_handle_def Let_def)
  moreover have "io c [] (status CMD_SUCCESS @ ?o @ ?h @ concat fs) (send_all (?h @ concat fs) (send_all ?o (send_int32 CMD_SUCCESS e)))"
    using io_trans [OF e(2) io_trans [OF io_send_int32 [OF q] io_trans [OF io_send_all io_send_all]]] q by simp
  ultimately show ?thesis using s'(2) by blast
qed

end

context target_access
begin

lemma proc_write_multi_too_long:
  assumes "quiet c" "tv s t" "data packet = Some dp" "mp = write_multi_packet dp" "wm_flags mp AND PROC_WRITE_MULTI_F_STATUS = 0"
    and "length es < unat (wm_count mp)" "unat (wm_count mp) \<le> PROC_WRITE_MULTI_MAX_COUNT"
    and "rx c = concat (map entry_wire es) @ (le_bytes 8 (a :: u64) @ le_bytes 4 (n :: u32)) @ rest" "unat n > PROC_WRITE_MULTI_MAX_ENTRY"
    and "\<forall>(a, bs)\<in>set es. able (wm_pid mp) a (length bs) \<and> length bs \<le> PROC_WRITE_MULTI_MAX_ENTRY"
  shows "\<exists>s' c'. proc_write_multi_handle wrs packet (s, c) = Some (1, s', c')
    \<and> tv s' (t(wm_pid mp := apply_entries es (t (wm_pid mp))))
    \<and> io c (concat (map entry_wire es) @ le_bytes 8 a @ le_bytes 4 n) (status CMD_SUCCESS @ status CMD_ERROR) c'"
proof -
  obtain p d where d: "net_alloc_buffer 0x10000 c = (Some p, d)" "io c [] [] d" using io_alloc [OF assms(1), of "0x10000"] by auto
  have q: "quiet d" using assms(1) io_fields(1) [OF d(2)] by simp
  let ?d = "send_int32 CMD_SUCCESS d"
  have r: "quiet ?d" "rx ?d = concat (map entry_wire es) @ (le_bytes 8 a @ le_bytes 4 n) @ rest"
    using assms(8) io_fields(2) [OF d(2)] io_fields(2) [OF io_send_int32 [OF q]] q by simp_all
  obtain s' c' where w: "multi_entries wrs (wm_pid mp) (unat (wm_count mp)) [] p (s, ?d) = Some (Too_long, s', c')"
      "tv s' (t(wm_pid mp := apply_entries es (t (wm_pid mp))))" "io ?d (concat (map entry_wire es) @ le_bytes 8 a @ le_bytes 4 n) [] c'"
    using multi_entries_too_long [OF r(1) assms(2,10) r(2) assms(9,6)] by blast
  have q': "quiet c'" using io_fields(1) [OF w(3)] r(1) by simp
  have "io c (concat (map entry_wire es) @ le_bytes 8 a @ le_bytes 4 n) (status CMD_SUCCESS @ status CMD_ERROR) (send_int32 CMD_ERROR c')"
    using io_trans [OF d(2) io_trans [OF io_send_int32 [OF q] io_trans [OF w(3) io_send_int32 [OF q']]]] by simp
  moreover have "proc_write_multi_handle wrs packet (s, c) = Some (1, s', send_int32 CMD_ERROR c')"
    using w(1) d(1) assms(3,5,7) by (simp add: proc_write_multi_handle_def Let_def assms(4) status_block_def)
  ultimately show ?thesis using w(2) by blast
qed

end

section \<open>Properties\<close>

text \<open>
  C13: reading memory. For any length, also beyond the 64 KiB transfer buffer and also zero, the
  reply is the success word followed by exactly the bytes of the range, in order, whatever the
  segmentation of the connection; the process's memory is unchanged.
\<close>

theorem proc_read_handle_correct:
  assumes "target_read rdm tv able" "quiet c" "tv s t" "data packet = Some dp" "rp = read_packet dp"
    and "able (rw_pid rp) (rw_address rp) (unat (rw_length rp))"
  shows "\<exists>s' c'. proc_read_handle rdm packet (s, c) = Some (0, s', c') \<and> tv s' t
    \<and> io c [] (status CMD_SUCCESS @ peek (t (rw_pid rp)) (rw_address rp) (unat (rw_length rp))) c'"
  by (rule target_read.proc_read [OF assms])

definition example_memory :: memories where
  "example_memory pid a = (if pid = 1 \<and> a = 0x20001 then 0x2A else 0)"

definition rw_body :: ptr where
  \<comment> \<open>process 1, address 0x20000, length 2\<close>
  "rw_body = of_list [1, 0, 0, 0, 0, 0, 2, 0, 0, 0, 0, 0, 2, 0, 0, 0]"

definition rw_request :: cmd_packet where
  "rw_request = \<lparr>magic = 0xFFAABBCC, cmd = 0xBDAA0002, datalen = 16, data = Some rw_body\<rparr>"

lemma rw_request_fields:
  "data rw_request = Some rw_body"
  "read_packet rw_body = \<lparr>rw_pid = 1, rw_address = 0x20000, rw_length = 2\<rparr>"
  "write_packet rw_body = \<lparr>rw_pid = 1, rw_address = 0x20000, rw_length = 2\<rparr>"
  by (simp_all add: rw_request_def rw_body_def read_packet_def write_packet_def of_list_def le_simps)

lemma quiet_example_rx: "quiet (example_conn\<lparr>rx := r\<rparr>)"
  using quiet_example_conn by (simp add: quiet_def send_live_def recv_live_def)

theorem proc_read_handle_correct_witness:
  "\<exists>s' c'. proc_read_handle flat_rdm rw_request (example_memory, example_conn) = Some (0, s', c')
     \<and> tx c' = status CMD_SUCCESS @ [0, 0x2A]"
proof -
  obtain s' c' where "proc_read_handle flat_rdm rw_request (example_memory, example_conn) = Some (0, s', c')"
      "io example_conn [] (status CMD_SUCCESS @ peek (example_memory 1) 0x20000 2) c'"
    using proc_read_handle_correct [OF flat_target.target_read_axioms quiet_example_conn refl rw_request_fields(1) refl, of example_memory]
    by (auto simp: rw_request_fields)
  moreover have "peek (example_memory 1) 0x20000 2 = [0, 0x2A]"
    by (simp add: peek_def bytes_at_def window_apply example_memory_def upt_rec)
  ultimately show ?thesis using io_fields(3) by (fastforce simp: example_conn_def)
qed

text \<open>
  C14: writing memory. The bytes the client sends, of any length, replace exactly the bytes of the
  range in the addressed process; the client gets two success words, before and after the data.
\<close>

theorem proc_write_handle_correct:
  assumes "target_access rdm tv able wrm wrs" "quiet c" "tv s t" "data packet = Some dp" "wp = write_packet dp"
    and "rx c = bs @ rest" "length bs = unat (rw_length wp)" "able (rw_pid wp) (rw_address wp) (length bs)"
  shows "\<exists>s' c'. proc_write_handle wrm packet (s, c) = Some (0, s', c')
    \<and> tv s' (t(rw_pid wp := poke (t (rw_pid wp)) (rw_address wp) bs))
    \<and> io c bs (status CMD_SUCCESS @ status CMD_SUCCESS) c'"
  by (rule target_access.proc_write [OF assms])

theorem proc_write_handle_correct_witness:
  "\<exists>s' c'. proc_write_handle flat_wrm rw_request (example_memory, example_conn\<lparr>rx := [5, 6]\<rparr>) = Some (0, s', c')
     \<and> s' 1 0x20000 = 5 \<and> s' 1 0x20001 = 6 \<and> rx c' = []"
proof -
  obtain s' c' where w: "proc_write_handle flat_wrm rw_request (example_memory, example_conn\<lparr>rx := [5, 6]\<rparr>) = Some (0, s', c')"
      "s' = example_memory(1 := poke (example_memory 1) 0x20000 [5, 6])"
      "io (example_conn\<lparr>rx := [5, 6]\<rparr>) [5, 6] (status CMD_SUCCESS @ status CMD_SUCCESS) c'"
    using proc_write_handle_correct [OF flat_target.target_access_axioms quiet_example_rx refl rw_request_fields(1) refl,
        of "[5, 6]" "[5, 6]" "[]" example_memory]
    by (auto simp: rw_request_fields)
  moreover have "rx c' = []" using io_fields(2) [OF w(3)] by simp
  ultimately show ?thesis by (simp add: poke_def)
qed

text \<open>
  Batched writing. Entries within the limits are applied one after the other, so that a later
  entry wins where two overlap; if the client asked for it, one status byte per entry, all zero,
  precedes the final success word.
\<close>

theorem proc_write_multi_handle_correct:
  assumes "target_access rdm tv able wrm wrs" "quiet c" "tv s t" "data packet = Some dp" "mp = write_multi_packet dp"
    and "unat (wm_count mp) = length es" "length es \<le> PROC_WRITE_MULTI_MAX_COUNT" "rx c = concat (map entry_wire es) @ rest"
    and "\<forall>(a, bs)\<in>set es. able (wm_pid mp) a (length bs) \<and> length bs \<le> PROC_WRITE_MULTI_MAX_ENTRY"
  shows "\<exists>s' c'. proc_write_multi_handle wrs packet (s, c) = Some (0, s', c')
    \<and> tv s' (t(wm_pid mp := apply_entries es (t (wm_pid mp))))
    \<and> io c (concat (map entry_wire es)) (status CMD_SUCCESS
        @ (if wm_flags mp AND PROC_WRITE_MULTI_F_STATUS \<noteq> 0 then replicate (length es) 0 else []) @ status CMD_SUCCESS) c'"
  by (rule target_access.proc_write_multi [OF assms])

definition multi_body :: "byte \<Rightarrow> ptr" where
  \<comment> \<open>process 1, two entries, with the given flags\<close>
  "multi_body fl = of_list [1, 0, 0, 0, 2, 0, 0, 0, fl, 0, 0, 0]"

definition multi_request :: "byte \<Rightarrow> cmd_packet" where
  "multi_request fl = \<lparr>magic = 0xFFAABBCC, cmd = 0xBDAACC04, datalen = 12, data = Some (multi_body fl)\<rparr>"

lemma multi_request_fields:
  "data (multi_request fl) = Some (multi_body fl)"
  "write_multi_packet (multi_body 1) = \<lparr>wm_pid = 1, wm_count = 2, wm_flags = 1\<rparr>"
  "write_multi_packet (multi_body 0) = \<lparr>wm_pid = 1, wm_count = 2, wm_flags = 0\<rparr>"
  by (simp_all add: multi_request_def multi_body_def write_multi_packet_def of_list_def le_simps)

theorem proc_write_multi_handle_correct_witness:
  "\<exists>s' c'. proc_write_multi_handle flat_wrs (multi_request 1)
       (example_memory, example_conn\<lparr>rx := entry_wire (0x20000, [5, 6]) @ entry_wire (0x20001, [7])\<rparr>) = Some (0, s', c')
     \<and> s' 1 0x20000 = 5 \<and> s' 1 0x20001 = 7 \<and> tx c' = status CMD_SUCCESS @ [0, 0] @ status CMD_SUCCESS"
proof -
  let ?es = "[(0x20000, [5, 6]), (0x20001, [7])]" and ?c = "example_conn\<lparr>rx := entry_wire (0x20000, [5, 6]) @ entry_wire (0x20001, [7])\<rparr>"
  obtain s' c' where w: "proc_write_multi_handle flat_wrs (multi_request 1) (example_memory, ?c) = Some (0, s', c')"
      "s' = example_memory(1 := apply_entries ?es (example_memory 1))"
      "io ?c (concat (map entry_wire ?es)) (status CMD_SUCCESS @ [0, 0] @ status CMD_SUCCESS) c'"
    using proc_write_multi_handle_correct [OF flat_target.target_access_axioms quiet_example_rx refl multi_request_fields(1) refl,
        of 1 ?es "rx ?c" "[]" example_memory]
    by (auto simp: multi_request_fields PROC_WRITE_MULTI_MAX_COUNT_def PROC_WRITE_MULTI_MAX_ENTRY_def
        PROC_WRITE_MULTI_F_STATUS_def)
  then show ?thesis using io_fields(3) [OF w(3)]
    by (simp add: apply_entries_def poke_def example_conn_def unat_gt_0)
qed

text \<open>
  An entry above the limit stops a batch. The entries before it have been applied, the server
  answers with the error word and reads nothing of the oversized entry but its header.
\<close>

theorem proc_write_multi_handle_too_long:
  assumes "target_access rdm tv able wrm wrs" "quiet c" "tv s t" "data packet = Some dp" "mp = write_multi_packet dp"
    and "wm_flags mp AND PROC_WRITE_MULTI_F_STATUS = 0"
    and "length es < unat (wm_count mp)" "unat (wm_count mp) \<le> PROC_WRITE_MULTI_MAX_COUNT"
    and "rx c = concat (map entry_wire es) @ (le_bytes 8 (a :: u64) @ le_bytes 4 (n :: u32)) @ rest" "unat n > PROC_WRITE_MULTI_MAX_ENTRY"
    and "\<forall>(a, bs)\<in>set es. able (wm_pid mp) a (length bs) \<and> length bs \<le> PROC_WRITE_MULTI_MAX_ENTRY"
  shows "\<exists>s' c'. proc_write_multi_handle wrs packet (s, c) = Some (1, s', c')
    \<and> tv s' (t(wm_pid mp := apply_entries es (t (wm_pid mp))))
    \<and> io c (concat (map entry_wire es) @ le_bytes 8 a @ le_bytes 4 n) (status CMD_SUCCESS @ status CMD_ERROR) c'"
  by (rule target_access.proc_write_multi_too_long [OF assms])

theorem proc_write_multi_handle_too_long_witness:
  "\<exists>s' c'. proc_write_multi_handle flat_wrs (multi_request 0)
       (example_memory, example_conn\<lparr>rx := entry_wire (0x20000, [5]) @ le_bytes 8 (0x20001 :: u64) @ le_bytes 4 (0x100001 :: u32) @ [9]\<rparr>)
       = Some (1, s', c') \<and> s' 1 0x20000 = 5 \<and> rx c' = [9]"
proof -
  let ?es = "[(0x20000, [5])]" and ?a = "0x20001 :: u64" and ?n = "0x100001 :: u32"
  let ?c = "example_conn\<lparr>rx := entry_wire (0x20000, [5]) @ le_bytes 8 ?a @ le_bytes 4 ?n @ [9]\<rparr>"
  obtain s' c' where w: "proc_write_multi_handle flat_wrs (multi_request 0) (example_memory, ?c) = Some (1, s', c')"
      "s' = example_memory(1 := apply_entries ?es (example_memory 1))"
      "io ?c (concat (map entry_wire ?es) @ le_bytes 8 ?a @ le_bytes 4 ?n) (status CMD_SUCCESS @ status CMD_ERROR) c'"
    using proc_write_multi_handle_too_long [OF flat_target.target_access_axioms quiet_example_rx refl multi_request_fields(1) refl,
        of 0 ?es "rx ?c" ?a ?n "[9]" example_memory]
    by (auto simp: multi_request_fields PROC_WRITE_MULTI_MAX_COUNT_def PROC_WRITE_MULTI_MAX_ENTRY_def)
  then show ?thesis using io_fields(2) [OF w(3)] by (simp add: apply_entries_def poke_def)
qed

text \<open>
  C25: the stack walk. The reply lists the frames of the chain of saved frame pointers, from the
  innermost outwards, at most the requested number and never more than 64: each with its header,
  its locals where their size is plausible and the code around its return address where that is a
  user address. The walk ends at the first frame pointer that is no user address or is 0.
\<close>

theorem proc_read_stack_handle_correct:
  assumes "target_read rdm tv able" "quiet c" "tv s t" "data packet = Some dp" "sp = read_stack_packet dp" "d = stack_depth (rs_depth sp)"
    and "fs = frames (t (rs_pid sp)) d (rs_rbp sp) (rs_rsp sp)"
    and "frames_able (able (rs_pid sp)) (t (rs_pid sp)) d (rs_rbp sp) (rs_rsp sp)"
  shows "\<exists>s' c'. proc_read_stack_handle rdm packet (s, c) = Some (0, s', c') \<and> tv s' t
    \<and> io c [] (status CMD_SUCCESS @ le_bytes 4 (of_nat (4 + length (concat fs)) :: u32)
        @ le_bytes 4 (of_nat (length fs) :: u32) @ concat fs) c'"
  by (rule target_read.proc_read_stack [OF assms])

definition stack_body :: ptr where
  \<comment> \<open>process 1, frame pointer 0x20000, stack pointer 0, depth 5\<close>
  "stack_body = of_list [1, 0, 0, 0, 0, 0, 2, 0, 0, 0, 0, 0, 0, 0, 0, 0, 0, 0, 0, 0, 5, 0, 0, 0]"

definition stack_request :: cmd_packet where
  "stack_request = \<lparr>magic = 0xFFAABBCC, cmd = 0xBDAA0023, datalen = 24, data = Some stack_body\<rparr>"

lemma stack_request_fields:
  "data stack_request = Some stack_body"
  "read_stack_packet stack_body = \<lparr>rs_pid = 1, rs_rbp = 0x20000, rs_rsp = 0, rs_depth = 5\<rparr>"
  "stack_depth 5 = Suc 4"
  by (simp_all add: stack_request_def stack_body_def read_stack_packet_def of_list_def le_simps stack_depth_def
      CMD_PROC_READ_STACK_MAX_DEPTH_def)

lemma frames_able_all: "frames_able (\<lambda>_ _. True) m d rbp rsp"
  by (induction d arbitrary: rbp rsp) auto

theorem proc_read_stack_handle_correct_witness:
  "\<exists>s' c'. proc_read_stack_handle flat_rdm stack_request (\<lambda>_ _. 0, example_conn) = Some (0, s', c')
     \<and> tx c' = status CMD_SUCCESS @ [48, 0, 0, 0] @ [1, 0, 0, 0] @ frame_header 0x20000 0 0 0"
proof -
  let ?z = "\<lambda>_ _. 0 :: byte"
  have z: "mem64 (\<lambda>_. 0) a = 0" for a by (simp add: mem64_def le_simps window_apply)
  have "proc_rs_addr_ok 0x20000 16" "locals_len 0x20000 0 = 0" "code_len 0 = 0"
    by (simp_all add: proc_rs_addr_ok_def locals_len_def code_len_def PROC_RS_USR_MIN_def PROC_RS_USR_MAX_def
        CMD_PROC_READ_STACK_LOCALS_CAP_def CMD_PROC_READ_STACK_CODE_OFF_def CMD_PROC_READ_STACK_CODE_LEN_def)
  then have f: "frames (\<lambda>_. 0) (Suc 4) 0x20000 0 = [frame_header 0x20000 0 0 0]"
    unfolding frames.simps(2) by (simp add: frame_bytes_def z)
  obtain s' c' where w: "proc_read_stack_handle flat_rdm stack_request (?z, example_conn) = Some (0, s', c')"
      "io example_conn [] (status CMD_SUCCESS @ le_bytes 4 (of_nat (4 + length (concat [frame_header 0x20000 0 0 0])) :: u32)
        @ le_bytes 4 (of_nat (length [frame_header 0x20000 0 0 0]) :: u32) @ concat [frame_header 0x20000 0 0 0]) c'"
    using proc_read_stack_handle_correct [OF flat_target.target_read_axioms quiet_example_conn refl stack_request_fields(1) refl refl refl, of ?z]
      frames_able_all unfolding stack_request_fields cmd_proc_read_stack_packet.simps f by blast
  then show ?thesis using io_fields(3) [OF w(2)] by (simp add: example_conn_def le_bytes_def upt_rec)
qed

text \<open>
  C18: the stack walk stays inside its block. Whatever the reads deliver, however the client chooses
  frame pointer, stack pointer and depth, the walk writes only between the frame counter and the
  end of the block it allocated, counts at most \<open>depth\<close> frames and ends with its write position
  inside the block; so the reply never contains anything from behind it.
\<close>

theorem proc_read_stack_bounds:
  assumes "\<forall>pid a b s b' s'. rw pid a b s = Some (b', s') \<longrightarrow> length b' = length b"
    and "stack_loop rw pid (stack_cap depth) depth rbp rsp 4 0 buf s = Some (off, n_frames, buf', s')"
  shows "off \<le> stack_cap depth \<and> n_frames \<le> depth \<and> (\<forall>i. i < 4 \<or> stack_cap depth \<le> i \<longrightarrow> buf' i = buf i)"
  using stack_loop_bounds [of rw pid "stack_cap depth" depth rbp rsp 4 0 buf s off n_frames buf' s'] assms
  by (auto simp: stack_cap_def)

theorem proc_read_stack_bounds_witness:
  "\<exists>off n buf' s'. stack_loop flat_rdm 1 (stack_cap 2) 2 0x20000 0 4 0 (\<lambda>_. 9) (\<lambda>_ _. 0) = Some (off, n, buf', s')
     \<and> off \<le> stack_cap 2 \<and> buf' (stack_cap 2) = 9"
proof -
  obtain r where r: "stack_loop flat_rdm 1 (stack_cap 2) 2 0x20000 0 4 0 (\<lambda>_. 9) (\<lambda>_ _. 0) = Some r"
    using flat_target.stack_loop_spec [of "\<lambda>_ _. 0" "\<lambda>_ _. 0" 1 2 "0x20000" 0 4 "stack_cap 2" 0 "\<lambda>_. 9"] frames_able_all
    by (auto simp: stack_cap_def)
  obtain off n buf' s' where "r = (off, n, buf', s')" by (cases r)
  with r proc_read_stack_bounds [of flat_rdm 1 2 "0x20000" 0 "\<lambda>_. 9" "\<lambda>_ _. 0" off n buf' s']
  show ?thesis by (auto simp: flat_rdm_def)
qed

end
