(* ===== verification/ProcInfo.thy ===== *)
theory ProcInfo
  imports ProcMem Protocol PtWalkMap
begin

text \<open>
  The commands of \<^verbatim>\<open>debugger/source/proc.c\<close> that describe processes: the list of processes
  (\<^verbatim>\<open>proc_list_handle\<close>), one process (\<^verbatim>\<open>proc_info_handle\<close> with its string helpers) and the
  mappings of a process (\<^verbatim>\<open>proc_maps_handle\<close>, \<^verbatim>\<open>proc_unknown_d_handle\<close>).
\<close>

section \<open>Strings in the process structure\<close>

text \<open>The loop of \<^verbatim>\<open>copy_cstr_from_buf\<close> at position \<open>i\<close> with \<open>k\<close> positions left before the last; the
  result is what is written from there on.\<close>

fun cstr_loop :: "ptr \<Rightarrow> nat \<Rightarrow> nat \<Rightarrow> byte list" where
  "cstr_loop src i 0 = [0]"
| "cstr_loop src i (Suc k) = (if src i = 0 then replicate (k + 2) 0 else src i # cstr_loop src (i + 1) k)"

definition copy_cstr_from_buf :: "ptr \<Rightarrow> nat \<Rightarrow> byte list" where
  "copy_cstr_from_buf src sz = (if sz = 0 then [] else cstr_loop src 0 (sz - 1))"

definition upper :: "byte \<Rightarrow> bool" where "upper b \<longleftrightarrow> 0x41 \<le> b \<and> b \<le> 0x5A"
definition digit :: "byte \<Rightarrow> bool" where "digit b \<longleftrightarrow> 0x30 \<le> b \<and> b \<le> 0x39"

definition titleid_at :: "ptr \<Rightarrow> nat \<Rightarrow> bool" where
  "titleid_at buf i \<longleftrightarrow> list_all (\<lambda>j. upper (buf (i + j))) [0..<4] \<and> list_all (\<lambda>j. digit (buf (i + j))) [4..<9]"

definition find_titleid :: "ptr \<Rightarrow> nat \<Rightarrow> ptr \<Rightarrow> int \<times> ptr" where
  "find_titleid buf len tid =
     (if len < 9 then (1, tid)
      else case List.find (titleid_at buf) [0..<len - 8] of
             None \<Rightarrow> (1, tid)
           | Some i \<Rightarrow> (0, blit tid 0 (bytes_at buf i 9 @ [0])))"

definition contentid_at :: "ptr \<Rightarrow> nat \<Rightarrow> bool" where
  "contentid_at buf i \<longleftrightarrow> list_all (\<lambda>j. upper (buf (i + j))) [0..<2] \<and> list_all (\<lambda>j. digit (buf (i + j))) [2..<6]
     \<and> buf (i + 6) = 0x2D \<and> list_all (\<lambda>j. upper (buf (i + j))) [7..<11] \<and> list_all (\<lambda>j. digit (buf (i + j))) [11..<16]
     \<and> buf (i + 16) = 0x5F"

text \<open>The copy of the identifier: it ends at the end of the region, at a zero byte or when the output
  is full.\<close>

function cid_len :: "ptr \<Rightarrow> nat \<Rightarrow> nat \<Rightarrow> nat \<Rightarrow> nat \<Rightarrow> nat" where
  "cid_len buf i len out_size k =
     (if i + k < len \<and> buf (i + k) \<noteq> 0 \<and> k < out_size - 1 then cid_len buf i len out_size (k + 1) else k)"
  by pat_completeness auto
termination
  by (relation "measure (\<lambda>(_, i, len, _, k). len - (i + k))") auto

declare cid_len.simps [simp del]

definition find_contentid :: "ptr \<Rightarrow> nat \<Rightarrow> ptr \<Rightarrow> nat \<Rightarrow> int \<times> ptr" where
  "find_contentid buf len cid out_size =
     (if out_size = 0 then (1, cid)
      else if len < 17 then (1, cid)
      else case List.find (contentid_at buf) [0..<len - 16] of
             None \<Rightarrow> (1, cid)
           | Some i \<Rightarrow> let k = cid_len buf i len out_size 0 in (0, blit cid 0 (bytes_at buf i k @ [0])))"

section \<open>The list of processes\<close>

definition PROC_SELFINFO_NAME_SIZE :: nat where "PROC_SELFINFO_NAME_SIZE = 32"

text \<open>\<open>n\<close> counts down from the limit 0x1000.\<close>

fun list_count :: "'k copyout \<Rightarrow> nat \<Rightarrow> u64 \<Rightarrow> ('k, 'z) kstate_scheme \<Rightarrow> nat \<times> ('k, 'z) kstate_scheme" where
  "list_count out 0 cur s = (0, s)"
| "list_count out (Suc n) cur s =
     (if cur = 0 then (0, s)
      else let (rc, next, s) = kout64 out cur 0 s in
        if rc \<noteq> 0 then (1, s)
        else let (k, s) = list_count out n next s in (Suc k, s))"

definition pad_name :: "byte list \<Rightarrow> byte list" where
  \<comment> \<open>everything from the first zero byte on is cleared\<close>
  "pad_name bs = (let s = takeWhile (\<lambda>b. b \<noteq> 0) bs in s @ replicate (length bs - length s) 0)"

text \<open>One entry per process, cleared entries behind the end of the list.\<close>

fun list_fill :: "'k copyout \<Rightarrow> proc_field_offsets \<Rightarrow> nat \<Rightarrow> u64 \<Rightarrow> ('k, 'z) kstate_scheme \<Rightarrow> byte list list \<times> ('k, 'z) kstate_scheme" where
  "list_fill out off 0 cur s = ([], s)"
| "list_fill out off (Suc n) cur s =
     (if cur = 0 then (replicate (Suc n) (replicate 36 0), s)
      else let (nm, s) = (if po_known off
                 then (let (_, bs, s) = kout out (cur + ucast (po_name off)) (replicate PROC_SELFINFO_NAME_SIZE 0) s in (bs, s))
                 else (replicate PROC_SELFINFO_NAME_SIZE 0, s));
               (_, pid, s) = kout32 out (cur + 0xBC) 0 s;
               (_, next, s) = kout64 out cur 0 s;
               (es, s) = list_fill out off n next s
           in ((pad_name nm @ le_bytes 4 pid) # es, s))"

definition proc_list_handle ::
    "'k sysenv \<Rightarrow> cmd_packet \<Rightarrow> ('k, 'z) pmem_scheme \<times> 'c conn_scheme \<Rightarrow> int \<times> ('k, 'z) pmem_scheme \<times> 'c conn_scheme" where
  "proc_list_handle e packet sc = (case sc of (s, c) \<Rightarrow>
     let (rc, kproc, s) = kout64 (sy_out e) (pe_allproc (sy_ptw e)) 0 s in
     if rc \<noteq> 0 then (1, s, send_int32 CMD_DATA_NULL c)
     else let (count, s) = list_count (sy_out e) 0x1000 kproc s in
       if count = 0 then (1, s, send_int32 CMD_DATA_NULL c)
       else case net_alloc_buffer (count * 36) c of
           (None, c) \<Rightarrow> (1, s, send_int32 CMD_DATA_NULL c)
         | (Some _, c) \<Rightarrow>
           let (off, s) = proc_get_field_offsets (sy_fw e) s;
               (es, s) = list_fill (sy_out e) off count kproc s
           in (0, s, send_all (concat es) (send_all (le_bytes 4 (of_nat count :: u32)) (send_int32 CMD_SUCCESS c))))"

section \<open>One process\<close>

text \<open>\<open>app\<close> is \<^verbatim>\<open>sceKernelGetAppInfo\<close>: its result and the 0x80-byte buffer afterwards;
  \<open>blk\<close> is what \<^verbatim>\<open>malloc\<close> returns for the process structure.\<close>

definition info_response :: "proc_field_offsets \<Rightarrow> int \<times> byte list \<Rightarrow> u32 \<Rightarrow> ptr \<Rightarrow> byte list" where
  "info_response off ai pid p =
     (let zeros = of_list [];
          tid = (case if fst ai = 0 then find_titleid (of_list (snd ai)) 0x80 zeros else (1, zeros) of
                   (rc, tid) \<Rightarrow> if rc = 0 then bytes_at tid 0 16
                     else (case find_titleid (shift p 0x440) 0x200 tid of
                             (rc, tid) \<Rightarrow> if rc = 0 then bytes_at tid 0 16
                               else copy_cstr_from_buf (shift p (unat (po_titleid off))) 16));
          cid = (case find_contentid (shift p 0x440) 0x200 zeros 64 of
                   (rc, cid) \<Rightarrow> if rc = 0 then bytes_at cid 0 64 else copy_cstr_from_buf (shift p (unat (po_contentid off))) 64)
      in le_bytes 4 pid @ bytes_at p (unat (po_name off)) PROC_SELFINFO_NAME_SIZE @ replicate 8 0
         @ copy_cstr_from_buf (shift p (unat (po_path off))) 64 @ tid @ cid)"

definition proc_info_handle ::
    "'k sysenv \<Rightarrow> (u32 \<Rightarrow> int \<times> byte list) \<Rightarrow> byte list option \<Rightarrow> cmd_packet \<Rightarrow> ('k, 'z) pmem_scheme \<times> 'c conn_scheme
      \<Rightarrow> (int \<times> ('k, 'z) pmem_scheme \<times> 'c conn_scheme) option" where
  "proc_info_handle e app blk packet sc = (case sc of (s, c) \<Rightarrow> (case data packet of
       None \<Rightarrow> Some (1, s, send_int32 CMD_DATA_NULL c)
     | Some dp \<Rightarrow>
       let pid = ld32 dp in
       if sint pid \<le> 0 then Some (1, s, send_int32 CMD_DATA_NULL c)
       else let (off, s) = proc_get_field_offsets (sy_fw e) s in
         map_option (\<lambda>(r, s). case r of
             None \<Rightarrow> (1, s, send_int32 CMD_DATA_NULL c)
           | Some buf \<Rightarrow> (0, s, send_all (info_response off (app pid) pid (of_list buf)) (send_int32 CMD_SUCCESS c)))
           (kernel_get_proc_struct_fast (sy_out e) (pe_allproc (sy_ptw e)) blk pid s)))"

section \<open>The mappings of a process\<close>

definition vm_bytes :: "vm_entry \<Rightarrow> byte list" where
  "vm_bytes x = vm_name x @ le_bytes 8 (vm_start x) @ le_bytes 8 (vm_end x) @ le_bytes 8 (vm_offset x) @ le_bytes 2 (vm_prot x)"

definition vm_map_step ::
    "'k sysenv \<Rightarrow> u32 \<Rightarrow> ('k, 'z) pmem_scheme \<times> 'c conn_scheme \<Rightarrow> (vm_entry list option \<times> ('k, 'z) pmem_scheme \<times> 'c conn_scheme) option" where
  \<comment> \<open>\<^verbatim>\<open>sys_proc_vm_map\<close> with the next block \<^verbatim>\<open>malloc\<close> hands out\<close>
  "vm_map_step e pid sc = (case sc of (s, c) \<Rightarrow>
     let (mem, c) = malloc c in map_option (\<lambda>(es, s). (es, s, c)) (sys_proc_vm_map e mem pid s))"

fun vm_map_retry ::
    "'k sysenv \<Rightarrow> u32 \<Rightarrow> nat \<Rightarrow> ('k, 'z) pmem_scheme \<times> 'c conn_scheme \<Rightarrow> (vm_entry list option \<times> ('k, 'z) pmem_scheme \<times> 'c conn_scheme) option" where
  "vm_map_retry e pid 0 sc = Some (None, sc)"
| "vm_map_retry e pid (Suc n) sc =
     Option.bind (vm_map_step e pid sc) (\<lambda>(r, sc). case r of None \<Rightarrow> vm_map_retry e pid n sc | Some es \<Rightarrow> Some (Some es, sc))"

definition page_blocks :: "'c conn_scheme \<Rightarrow> (byte list \<times> byte list \<times> byte list \<times> byte list) option \<times> bool \<times> 'c conn_scheme" where
  \<comment> \<open>the allocations of \<^verbatim>\<open>ptw_enumerate\<close> and \<^verbatim>\<open>ptw_merge\<close>\<close>
  "page_blocks c =
     (let (p1, c) = malloc c; (p2, c) = malloc c; (p3, c) = malloc c; (p4, c) = malloc c; (p5, c) = malloc c; (p6, c) = malloc c
      in (case (p1, p2, p3, p4, p5) of
            (Some b1, Some b2, Some b3, Some b4, Some b5) \<Rightarrow>
              Some (bytes_at b1 0 4096, bytes_at b2 0 4096, bytes_at b3 0 4096, bytes_at b4 0 4096)
          | _ \<Rightarrow> None, p6 \<noteq> None, c))"

definition proc_maps_handle ::
    "'k sysenv \<Rightarrow> cmd_packet \<Rightarrow> ('k, 'z) pmem_scheme \<times> 'c conn_scheme \<Rightarrow> (int \<times> ('k, 'z) pmem_scheme \<times> 'c conn_scheme) option" where
  "proc_maps_handle e packet sc = (case sc of (s, c) \<Rightarrow> (case data packet of
       None \<Rightarrow> Some (1, s, send_int32 CMD_ERROR c)
     | Some dp \<Rightarrow>
       let pid = ld32 dp in
       Option.bind (vm_map_retry e pid (1 + 21) (s, c)) (\<lambda>(maps, s, c). case maps of
           None \<Rightarrow> Some (1, s, send_int32 CMD_ERROR c)
         | Some maps \<Rightarrow>
           if maps = [] then Some (1, s, send_int32 CMD_ERROR c)
           else let (blocks, mem_ok, c) = page_blocks c in
             map_option (\<lambda>(aug, s).
                 let maps = (case aug of Some es \<Rightarrow> if es \<noteq> [] then es else maps | None \<Rightarrow> maps) in
                 (0, s, send_all (concat (map vm_bytes maps))
                     (send_all (le_bytes 4 (of_nat (length maps) :: u32)) (send_int32 CMD_SUCCESS c))))
               (proc_ptwalk_augment (sy_out e) (sy_ptw e) (sy_stack e) blocks mem_ok pid maps s))))"

definition proc_unknown_d_handle ::
    "'k sysenv \<Rightarrow> cmd_packet \<Rightarrow> ('k, 'z) pmem_scheme \<times> 'c conn_scheme \<Rightarrow> (int \<times> ('k, 'z) pmem_scheme \<times> 'c conn_scheme) option" where
  "proc_unknown_d_handle e packet sc = (case sc of (s, c) \<Rightarrow> (case data packet of
       None \<Rightarrow> Some (1, s, send_int32 CMD_DATA_NULL c)
     | Some dp \<Rightarrow>
       map_option (\<lambda>(maps, s, c). case maps of
           Some (x # _) \<Rightarrow> (0, s, send_all (le_bytes 8 (vm_start x)) (send_int32 CMD_SUCCESS c))
         | _ \<Rightarrow> (0, s, send_int32 CMD_ERROR c))
         (vm_map_step e (ld32 dp) (s, c))))"

end
