(* ===== verification/ProcInfoProps.thy ===== *)
theory ProcInfoProps
  imports ProcInfo
begin

text \<open>What the commands that describe processes answer, in terms of the kernel's memory.\<close>

section \<open>The list of processes\<close>

definition proc_wire :: "(u64 \<Rightarrow> byte) \<Rightarrow> proc_field_offsets \<Rightarrow> u64 \<Rightarrow> byte list" where
  \<comment> \<open>a process as it is sent: its name and its number\<close>
  "proc_wire m off p = pad_name (peek m (p + ucast (po_name off)) PROC_SELFINFO_NAME_SIZE) @ le_bytes 4 (proc_pid m p)"

lemma length_proc_wire: "length (proc_wire m off p) = 36"
  by (simp add: proc_wire_def pad_name_def Let_def PROC_SELFINFO_NAME_SIZE_def)
     (metis le_add_diff_inverse length_peek length_takeWhile_le)

context reliable_kernel
begin

lemma list_count_spec:
  "klist m cur ps \<Longrightarrow> \<forall>p\<in>set ps. safe p 8 \<Longrightarrow> view (kern s) m \<Longrightarrow> length ps \<le> n \<Longrightarrow>
   \<exists>s'. list_count out n cur s = (length ps, s') \<and> view (kern s') m \<and> kframe s s'"
proof (induction n arbitrary: cur ps s)
  case (Suc n)
  show ?case
  proof (cases ps)
    case Nil
    then show ?thesis using Suc.prems by auto
  next
    case (Cons p qs)
    with Suc.prems have c: "cur = p" "p \<noteq> 0" "klist m (mem64 m p) qs" "safe p 8" "\<forall>p\<in>set qs. safe p 8" "length qs \<le> n" by auto
    obtain s1 where 1: "kout64 out p 0 s = (0, mem64 m p, s1)" "view (kern s1) m" "kframe s s1"
      using kout64_read [OF Suc.prems(3) c(4)] by metis
    obtain s' where "list_count out n (mem64 m p) s1 = (length qs, s')" "view (kern s') m" "kframe s1 s'"
      using Suc.IH [OF c(3,5) 1(2) c(6)] by blast
    with 1 c kframe_trans [OF 1(3)] show ?thesis by (auto simp: Cons)
  qed
qed auto

lemma list_fill_spec:
  "klist m cur ps \<Longrightarrow> po_known off \<Longrightarrow>
   \<forall>p\<in>set ps. safe p 8 \<and> safe (p + 0xBC) 4 \<and> safe (p + ucast (po_name off)) PROC_SELFINFO_NAME_SIZE \<Longrightarrow> view (kern s) m \<Longrightarrow>
   \<exists>s'. list_fill out off (length ps) cur s = (map (proc_wire m off) ps, s') \<and> view (kern s') m \<and> kframe s s'"
proof (induction ps arbitrary: cur s)
  case (Cons p ps)
  from Cons.prems have c: "cur = p" "p \<noteq> 0" "klist m (mem64 m p) ps" "safe p 8" "safe (p + 0xBC) 4"
      "safe (p + ucast (po_name off)) (length (replicate PROC_SELFINFO_NAME_SIZE (0 :: byte)))"
      "\<forall>p\<in>set ps. safe p 8 \<and> safe (p + 0xBC) 4 \<and> safe (p + ucast (po_name off)) PROC_SELFINFO_NAME_SIZE" by auto
  obtain s1 where 1: "kout out (p + ucast (po_name off)) (replicate PROC_SELFINFO_NAME_SIZE 0) s
        = (0, peek m (p + ucast (po_name off)) (length (replicate PROC_SELFINFO_NAME_SIZE (0 :: byte))), s1)" "view (kern s1) m" "kframe s s1"
    using kout_read [OF Cons.prems(4) c(6)] by metis
  obtain s2 where 2: "kout32 out (p + 0xBC) 0 s1 = (0, proc_pid m p, s2)" "view (kern s2) m" "kframe s1 s2"
    using kout32_read [OF 1(2) c(5)] by (metis proc_pid_def)
  obtain s3 where 3: "kout64 out p 0 s2 = (0, mem64 m p, s3)" "view (kern s3) m" "kframe s2 s3"
    using kout64_read [OF 2(2) c(4)] by metis
  obtain s' where 4: "list_fill out off (length ps) (mem64 m p) s3 = (map (proc_wire m off) ps, s')" "view (kern s') m" "kframe s3 s'"
    using Cons.IH [OF c(3) Cons.prems(2) c(7) 3(2)] by blast
  have "kframe s s'" using kframe_trans 1(3) 2(3) 3(3) 4(3) by metis
  then show ?case using 1(1) 2(1) 3(1) 4 c(1,2) Cons.prems(2) by (simp add: proc_wire_def)
qed auto

end

text \<open>
  The list of processes. If the kernel's list ends within the limit of 4096 entries, the reply
  is the success word, the number of processes and one fixed-size record per process in the order
  of the kernel's list: the name, cut at its first zero byte and padded with zeros, and the number.
\<close>

theorem proc_list_handle_correct:
  assumes "reliable_kernel (sy_out e) (sy_in e) view safe" "view (kern s) m" "quiet c"
    and "pfo_cached s = None \<or> pfo_cached s = Some (field_offsets (sy_fw e))" "off = field_offsets (sy_fw e)"
    and "safe (pe_allproc (sy_ptw e)) 8" "klist m (mem64 m (pe_allproc (sy_ptw e))) ps" "ps \<noteq> []" "length ps \<le> 0x1000"
    and "\<forall>p\<in>set ps. safe p 8 \<and> safe (p + 0xBC) 4 \<and> safe (p + ucast (po_name off)) PROC_SELFINFO_NAME_SIZE"
  shows "\<exists>s' c'. proc_list_handle e packet (s, c) = (0, s', c') \<and> view (kern s') m
    \<and> io c [] (status CMD_SUCCESS @ le_bytes 4 (of_nat (length ps) :: u32) @ concat (map (proc_wire m off) ps)) c'"
proof -
  note rk = assms(1)
  obtain s1 where 1: "kout64 (sy_out e) (pe_allproc (sy_ptw e)) 0 s = (0, mem64 m (pe_allproc (sy_ptw e)), s1)" "view (kern s1) m" "kframe s s1"
    using reliable_kernel.kout64_read [OF rk assms(2,6)] by metis
  have "\<forall>p\<in>set ps. safe p 8" using assms(10) by blast
  then obtain s2 where 2: "list_count (sy_out e) 0x1000 (mem64 m (pe_allproc (sy_ptw e))) s1 = (length ps, s2)" "view (kern s2) m" "kframe s1 s2"
    using reliable_kernel.list_count_spec [OF rk assms(7) _ 1(2) assms(9)] by blast
  obtain p d where d: "net_alloc_buffer (length ps * 36) c = (Some p, d)" "io c [] [] d"
    using io_alloc [OF assms(3), of "length ps * 36"] assms(8) by auto
  have "pfo_cached s2 = pfo_cached s" using kframe_trans [OF 1(3) 2(3)] by (auto simp: kframe_def)
  then obtain s3 where 3: "proc_get_field_offsets (sy_fw e) s2 = (off, s3)" "kern s3 = kern s2"
    using assms(4,5) by (auto simp: proc_get_field_offsets_def)
  have "po_known off" by (simp add: assms(5) field_offsets_def Let_def)
  then obtain s' where 4: "list_fill (sy_out e) off (length ps) (mem64 m (pe_allproc (sy_ptw e))) s3 = (map (proc_wire m off) ps, s')" "view (kern s') m"
    using reliable_kernel.list_fill_spec [OF rk assms(7) _ assms(10), of s3] 2(2) 3(2) by auto
  let ?c = "send_all (concat (map (proc_wire m off) ps)) (send_all (le_bytes 4 (of_nat (length ps) :: u32)) (send_int32 CMD_SUCCESS d))"
  have q: "quiet d" using assms(3) io_fields(1) [OF d(2)] by simp
  have "io c [] (status CMD_SUCCESS @ le_bytes 4 (of_nat (length ps) :: u32) @ concat (map (proc_wire m off) ps)) ?c"
    using io_trans [OF d(2) io_trans [OF io_send_int32 [OF q] io_trans [OF io_send_all io_send_all]]] q by simp
  moreover have "proc_list_handle e packet (s, c) = (0, s', ?c)"
    using assms(8) by (simp add: proc_list_handle_def 1(1) 2(1) d(1) 3(1) 4(1))
  ultimately show ?thesis using 4(2) by blast
qed

definition example_proc_env :: "(u64 \<Rightarrow> byte) sysenv" where
  "example_proc_env = \<lparr>sy_out = flat_out, sy_in = flat_in, sy_ptw = \<lparr>pe_allproc = 0x100, pe_self = 7, pe_gt_va = 0\<rparr>,
     sy_stack = replicate 16 0, sy_573 = (\<lambda>_ _ _ buf k. (-1, 0, buf, k)), sy_fw = 0x04510000\<rparr>"

definition example_pmem :: "(u64 \<Rightarrow> byte) \<Rightarrow> (u64 \<Rightarrow> byte) pmem" where
  "example_pmem m = \<lparr>kern = m, kr_proc_cache = replicate 8 empty_slot, kr_proc_cache_next = 0,
     g_ptw_state = 0, g_ptw_dmap = 0, g_ptw_pmap_off = 0, g_auxc = [], g_auxc_pid = 0,
     s_fw_needs_dmap = -1, s_fw_needs_dmap_st = -1, vmmap_offs_initialized = False, vmmap_nentries_adj = 0,
     vmmap_name_adj = 0, pfo_cached = None\<rparr>"

theorem proc_list_handle_correct_witness:
  "\<exists>s' c'. proc_list_handle example_proc_env \<lparr>magic = 0xFFAABBCC, cmd = 0xBDAA0001, datalen = 0, data = None\<rparr> (example_pmem example_kmem, example_conn) = (0, s', c')
     \<and> tx c' = status CMD_SUCCESS @ [1, 0, 0, 0] @ replicate 32 0 @ [7, 0, 0, 0]"
proof -
  have a: "pe_allproc (sy_ptw example_proc_env) = 0x100" "sy_out example_proc_env = flat_out" "sy_in example_proc_env = flat_in"
      "sy_fw example_proc_env = 0x04510000" by (simp_all add: example_proc_env_def)
  have n: "po_name (field_offsets 0x04510000) = 0x59C" by (simp add: field_offsets_def)
  have "example_kmem (0x159C + of_nat i) = 0" if "i < 32" for i
  proof -
    have u: "unat (0x159C + of_nat i :: u64) = 0x159C + i" by (subst unat_add_of_nat) (use that in simp_all)
    have "0x159C + of_nat i \<noteq> a" if "unat a < 0x159C" for a :: u64 using u that by (metis not_add_less1)
    from this [of "0x101"] this [of "0x10BC"] show ?thesis by (simp add: example_kmem_def)
  qed
  then have "peek example_kmem 0x159C 32 = replicate 32 0" by (intro nth_equalityI) simp_all
  then have w: "proc_wire example_kmem (field_offsets 0x04510000) 0x1000 = replicate 32 0 @ [7, 0, 0, 0]"
    by (simp add: proc_wire_def n PROC_SELFINFO_NAME_SIZE_def pad_name_def example_klist(2) le_bytes_def upt_rec)
  obtain s' c' where r: "proc_list_handle example_proc_env \<lparr>magic = 0xFFAABBCC, cmd = 0xBDAA0001, datalen = 0, data = None\<rparr>
        (example_pmem example_kmem, example_conn) = (0, s', c')"
      "io example_conn [] (status CMD_SUCCESS @ le_bytes 4 (of_nat (length [0x1000 :: u64]) :: u32)
        @ concat (map (proc_wire example_kmem (field_offsets (sy_fw example_proc_env))) [0x1000])) c'"
    using proc_list_handle_correct [where e = example_proc_env and view = "(=)" and safe = "\<lambda>_ _. True" and m = example_kmem
        and s = "example_pmem example_kmem" and c = example_conn and ps = "[0x1000]"
        and off = "field_offsets (sy_fw example_proc_env)"] flat_kernel.reliable_kernel_axioms example_klist(1)
    by (fastforce simp: a example_pmem_def)
  then show ?thesis using io_fields(3) [OF r(2)] w by (simp add: a example_conn_def le_bytes_def upt_rec)
qed

section \<open>The kernel's list of mappings\<close>

primrec mlist :: "(u64 \<Rightarrow> byte) \<Rightarrow> u64 \<Rightarrow> u64 list \<Rightarrow> bool" where
  \<comment> \<open>the map entries from an address on, linked at offset 8\<close>
  "mlist m a [] \<longleftrightarrow> a = 0"
| "mlist m a (x # xs) \<longleftrightarrow> a = x \<and> x \<noteq> 0 \<and> mlist m (mem64 m (x + 8)) xs"

definition kernel_entry :: "(u64 \<Rightarrow> byte) \<Rightarrow> nat \<Rightarrow> u64 \<Rightarrow> vm_entry" where
  "kernel_entry m adj a = map_entry (peek m a 0x1C0) adj"

context reliable_kernel
begin

lemma map_loop_spec:
  "mlist m cur xs \<Longrightarrow> \<forall>x\<in>set xs. safe x 0x1C0 \<Longrightarrow> view (kern s) m \<Longrightarrow>
   \<exists>s'. map_loop out adj n cur s = (Some (take n (map (kernel_entry m adj) xs)), s') \<and> view (kern s') m \<and> kframe s s'"
proof (induction n arbitrary: cur xs s)
  case (Suc n)
  show ?case
  proof (cases xs)
    case Nil
    then show ?thesis using Suc.prems by auto
  next
    case (Cons x ys)
    with Suc.prems have c: "cur = x" "x \<noteq> 0" "mlist m (mem64 m (x + 8)) ys" "safe x (length (replicate 0x1C0 (0 :: byte)))"
        "\<forall>x\<in>set ys. safe x 0x1C0" by auto
    obtain s1 where 1: "kout out x (replicate 0x1C0 0) s = (0, peek m x 0x1C0, s1)" "view (kern s1) m" "kframe s s1"
      using kout_read [OF Suc.prems(3) c(4)] by (metis length_replicate)
    obtain s' where "map_loop out adj n (mem64 m (x + 8)) s1 = (Some (take n (map (kernel_entry m adj) ys)), s')" "view (kern s') m" "kframe s1 s'"
      using Suc.IH [OF c(3,5) 1(2)] by blast
    with 1 c kframe_trans [OF 1(3)] show ?thesis by (auto simp: Cons kernel_entry_def [of m adj x] field64_peek)
  qed
qed auto

end

text \<open>
  C35: the mappings of a process. The result has exactly as many entries as the kernel counts: the
  entries of the kernel's list in its order, cut off at the count where the list is longer. Where
  the list is shorter than the count the remaining entries are whatever the freshly allocated
  block contained, which the caller cannot tell apart.
\<close>

theorem sys_proc_vm_map_correct:
  assumes "reliable_kernel (sy_out e) (sy_in e) view safe" "0 < sint pid" "vmmap_offs_initialized s"
    and "kernel_get_proc_fast (sy_out e) (pe_allproc (sy_ptw e)) pid s = Some (kproc, s1)" "kproc \<noteq> 0" "view (kern s1) m"
    and "vmmap_nentries_adj s1 \<le> 8" "safe (kproc + 0x200) 8" "vs = mem64 m (kproc + 0x200)" "safe vs 0x350"
    and "n = sint (mem32 m (vs + of_nat (0x1A8 + vmmap_nentries_adj s1)))" "0 < n"
    and "mlist m (mem64 m (vs + 8)) xs" "\<forall>x\<in>set xs. safe x 0x1C0"
  shows "\<exists>s'. sys_proc_vm_map e (Some p) pid s =
      Some (Some (take (nat n) (map (kernel_entry m (vmmap_name_adj s1)) xs) @ map (raw_entry p) [min (length xs) (nat n)..<nat n]), s')
    \<and> view (kern s') m"
proof -
  note rk = assms(1)
  obtain s2 where 2: "kout64 (sy_out e) (kproc + 0x200) 0 s1 = (0, vs, s2)" "view (kern s2) m" "kframe s1 s2"
    using reliable_kernel.kout64_read [OF rk assms(6,8)] assms(9) by metis
  obtain s3 where 3: "kout (sy_out e) vs (replicate 0x350 0) s2 = (0, peek m vs 0x350, s3)" "view (kern s3) m" "kframe s2 s3"
    using reliable_kernel.kout_read [OF rk 2(2), of vs "replicate 0x350 0"] assms(10) by auto
  have f: "vmmap_nentries_adj s3 = vmmap_nentries_adj s1" "vmmap_name_adj s3 = vmmap_name_adj s1"
    using kframe_trans [OF 2(3) 3(3)] by (auto simp: kframe_def)
  have n: "sint (field32 (peek m vs 0x350) (0x1A8 + vmmap_nentries_adj s3)) = n"
    using assms(7,11) by (subst field32_peek) (simp_all add: f)
  have h: "field64 (peek m vs 0x350) 8 = mem64 m (vs + 8)" by (subst field64_peek) simp_all
  obtain s' where 4: "map_loop (sy_out e) (vmmap_name_adj s3) (nat n) (mem64 m (vs + 8)) s3
      = (Some (take (nat n) (map (kernel_entry m (vmmap_name_adj s1)) xs)), s')" "view (kern s') m"
    using reliable_kernel.map_loop_spec [OF rk assms(13,14) 3(2)] unfolding f by blast
  have "\<not> n \<le> 0" using assms(12) by simp
  then show ?thesis
    using assms(2-5) 4 unfolding sys_proc_vm_map_def by (simp add: 2(1) 3(1) n h min.commute)
qed

definition example_vmem :: "u64 \<Rightarrow> byte" where
  \<comment> \<open>process 7 at 0x1000 with one mapping, described at 0x4000; its count says 2\<close>
  "example_vmem x = (if x = 0x101 then 0x10 else if x = 0x10BC then 7 else if x = 0x1201 then 0x30
     else if x = 0x3009 then 0x40 else if x = 0x31A8 then 2 else if x = 0x4021 then 0x50 else if x = 0x4064 then 3 else 0)"

definition example_vstate :: "(u64 \<Rightarrow> byte) pmem" where
  "example_vstate = (example_pmem example_vmem)\<lparr>vmmap_offs_initialized := True\<rparr>"

lemma example_vstate_proc: "kernel_get_proc_fast flat_out 0x100 7 example_vstate = Some (0x1000, cache_store 7 0x1000 example_vstate)"
proof -
  have slot: "cache_slot 7 (replicate 8 empty_slot) = None" by (auto simp: cache_slot_def find_None_iff empty_slot_def)
  have "walk_loop flat_out 7 0x1000 0 0 example_vstate = Some (0x1000, example_vstate)"
    by (subst walk_loop.simps) (simp add: example_vstate_def example_pmem_def kout32_def out32_def flat_out_def word_of_peek32
        mem32_def le_simps window_apply example_vmem_def)
  moreover have "kout64 flat_out 0x100 0 example_vstate = (0, 0x1000, example_vstate)"
    by (simp add: example_vstate_def example_pmem_def kout64_def out64_def flat_out_def word_of_peek64 mem64_def le_simps
        window_apply example_vmem_def)
  moreover have "kr_proc_cache example_vstate = replicate 8 empty_slot" by (simp add: example_vstate_def example_pmem_def)
  ultimately show ?thesis by (simp add: kernel_get_proc_fast_def cache_lookup_def slot kr_walk_allproc_def)
qed

theorem sys_proc_vm_map_correct_witness:
  "\<exists>x y s'. sys_proc_vm_map example_proc_env (Some (\<lambda>_. 0xAA)) 7 example_vstate = Some (Some [x, y], s')
     \<and> vm_start x = 0x5000 \<and> vm_prot x = 3 \<and> vm_start y = 0xAAAAAAAAAAAAAAAA"
proof -
  have a: "pe_allproc (sy_ptw example_proc_env) = 0x100" "sy_out example_proc_env = flat_out" "sy_in example_proc_env = flat_in"
    by (simp_all add: example_proc_env_def)
  let ?s = "cache_store 7 0x1000 example_vstate"
  have f: "kern ?s = example_vmem" "vmmap_nentries_adj ?s = 0" "vmmap_name_adj ?s = 0" "vmmap_offs_initialized example_vstate"
    by (simp_all add: cache_store_def example_vstate_def example_pmem_def)
  have m: "mem64 example_vmem 0x1200 = 0x3000" "mem64 example_vmem 0x3008 = 0x4000" "mem64 example_vmem 0x4008 = 0" "mem32 example_vmem 0x31A8 = 2"
      "mem64 example_vmem 0x4020 = 0x5000" "example_vmem 0x4064 = 3"
    by (simp_all add: mem64_def mem32_def le_simps window_apply example_vmem_def)
  have rk: "reliable_kernel (sy_out example_proc_env) (sy_in example_proc_env) (=) (\<lambda>_ _. True)"
    unfolding a by (rule flat_kernel.reliable_kernel_axioms)
  have get: "kernel_get_proc_fast (sy_out example_proc_env) (pe_allproc (sy_ptw example_proc_env)) 7 example_vstate = Some (0x1000, ?s)"
    unfolding a by (rule example_vstate_proc)
  have "\<exists>s'. sys_proc_vm_map example_proc_env (Some (\<lambda>_. 0xAA)) 7 example_vstate =
      Some (Some (take (nat 2) (map (kernel_entry example_vmem (vmmap_name_adj ?s)) [0x4000])
        @ map (raw_entry (\<lambda>_. 0xAA)) [min (length [0x4000 :: u64]) (nat 2)..<nat 2]), s') \<and> kern s' = example_vmem"
    by (rule sys_proc_vm_map_correct [where view = "(=)" and vs = "0x3000", OF rk _ f(4) get _ f(1)]) (simp_all add: f m)
  then obtain s' where r: "sys_proc_vm_map example_proc_env (Some (\<lambda>_. 0xAA)) 7 example_vstate =
      Some (Some [kernel_entry example_vmem 0 0x4000, raw_entry (\<lambda>_. 0xAA) 1], s')"
    unfolding f by (auto simp: numeral_2_eq_2)
  have "vm_start (kernel_entry example_vmem 0 0x4000) = 0x5000" "vm_prot (kernel_entry example_vmem 0 0x4000) = 3"
    by (simp_all add: kernel_entry_def map_entry_def Let_def field64_peek m)
  moreover have "vm_start (raw_entry (\<lambda>_. 0xAA) 1) = 0xAAAAAAAAAAAAAAAA"
    by (simp add: raw_entry_def Let_def le_simps)
  ultimately show ?thesis using r by auto
qed

end
