(* ===== verification/KernDbreg.thy ===== *)
theory KernDbreg
  imports KernProc
begin

text \<open>
  Reading and writing the registers of a thread in kernel memory,
  \<^verbatim>\<open>debugger/source/kern_dbreg.c\<close>: the walk over the threads of a process with its cache,
  the debug registers and floating-point state in the process control block and the general
  registers in the trap frame.
\<close>

record thr_slot =
  ts_pid :: u32
  ts_lwpid :: u32
  ts_kthread :: u64

record 'k kthr = "'k kstate" +
  kr_thr_cache :: "thr_slot list"
  kr_thr_cache_next :: nat
  g_fw_cache :: u32

definition KR_THR_CACHE_N :: nat where "KR_THR_CACHE_N = 8"

definition empty_thr :: thr_slot where
  "empty_thr = \<lparr>ts_pid = 0, ts_lwpid = 0, ts_kthread = 0\<rparr>"

definition fw_uses_kernel_dbreg_path :: "u32 \<Rightarrow> ('k, 'z) kthr_scheme \<Rightarrow> bool \<times> ('k, 'z) kthr_scheme" where
  \<comment> \<open>\<open>version\<close> is what the kernel reports\<close>
  "fw_uses_kernel_dbreg_path version s =
     (let s = (if g_fw_cache s = 0 then s\<lparr>g_fw_cache := version\<rparr> else s) in
      (g_fw_cache s AND 0xffff0000 \<in> set
         [0x3000000, 0x3100000, 0x3200000, 0x3210000, 0x4000000, 0x4020000, 0x4030000, 0x4500000, 0x4510000,
          0x5000000, 0x5020000, 0x5100000, 0x5500000, 0x6000000, 0x6020000, 0x6500000,
          0x7200000, 0x7400000, 0x7600000, 0x7610000, 0x8000000, 0x8200000, 0x8400000, 0x8600000,
          0x9000000, 0x9050000, 0x9200000, 0x9400000, 0x9600000,
          0x10000000, 0x10010000, 0x10200000, 0x10400000, 0x10600000,
          0x11000000, 0x11200000, 0x11400000, 0x11600000,
          0x12000000, 0x12020000, 0x12200000, 0x12400000, 0x12600000, 0x12700000, 0x13000000, 0x13200000], s))"

definition is_process_stopped :: "(u32 \<Rightarrow> int \<times> u32) \<Rightarrow> u32 \<Rightarrow> bool" where
  \<comment> \<open>\<open>wait4\<close> gives its result and the status word\<close>
  "is_process_stopped wait4 pid =
     (let (r, status) = wait4 pid in if r \<le> 0 then False else (ucast (drop_bit 8 status) :: byte) = 0x11)"

section \<open>Finding a process and a thread\<close>

partial_function (option) step_loop ::
    "'k copyout \<Rightarrow> u32 \<Rightarrow> u64 \<Rightarrow> u64 \<Rightarrow> u32 \<Rightarrow> ('k, 'z) kstate_scheme \<Rightarrow> (bool \<times> ('k, 'z) kstate_scheme) option" where
  "step_loop out pid cur_proc next_proc cur_pid s =
     (let (rc, cur_pid, s) = kout32 out (cur_proc + 0xBC) cur_pid s in
      if rc \<noteq> 0 then Some (False, s)
      else if cur_pid = pid then Some (True, s)
      else let (rc, next_proc, s) = kout64 out cur_proc next_proc s in
        if rc \<noteq> 0 then Some (False, s)
        else if next_proc = 0 then Some (False, s)
        else step_loop out pid next_proc next_proc cur_pid s)"

definition kern_thread_step_walker :: "'k copyout \<Rightarrow> u64 \<Rightarrow> u32 \<Rightarrow> ('k, 'z) kstate_scheme \<Rightarrow> (bool \<times> ('k, 'z) kstate_scheme) option" where
  "kern_thread_step_walker out allproc pid s =
     (let (rc, cur_proc, s) = kout64 out allproc 0 s in
      if rc \<noteq> 0 then Some (False, s)
      else if cur_proc = 0 then Some (False, s)
      else step_loop out pid cur_proc 0 0 s)"

definition kern_thread_cache_flush :: "('k, 'z) kthr_scheme \<Rightarrow> ('k, 'z) kthr_scheme" where
  "kern_thread_cache_flush s = s\<lparr>kr_thr_cache := map (\<lambda>_. empty_thr) (kr_thr_cache s)\<rparr>"

definition thr_match :: "u32 \<Rightarrow> u32 \<Rightarrow> thr_slot \<Rightarrow> bool" where
  "thr_match pid lwpid x \<longleftrightarrow> ts_pid x = pid \<and> ts_lwpid x = lwpid \<and> ts_kthread x \<noteq> 0"

definition thr_lookup :: "'k copyout \<Rightarrow> u32 \<Rightarrow> u32 \<Rightarrow> ('k, 'z) kthr_scheme \<Rightarrow> u64 option \<times> ('k, 'z) kthr_scheme" where
  \<comment> \<open>the first slot of the thread: its address if the kernel still has the thread there, cleared otherwise\<close>
  "thr_lookup out pid lwpid s =
     (case List.find (\<lambda>i. thr_match pid lwpid (kr_thr_cache s ! i)) [0..<length (kr_thr_cache s)] of
        None \<Rightarrow> (None, s)
      | Some i \<Rightarrow>
        let kthread = ts_kthread (kr_thr_cache s ! i); (rc, v, s) = kout32 out (kthread + 0x9c) 0 s in
        if rc = 0 \<and> v = lwpid then (Some kthread, s)
        else (None, s\<lparr>kr_thr_cache := (kr_thr_cache s)[i := empty_thr]\<rparr>))"

partial_function (option) thr_loop ::
    "'k copyout \<Rightarrow> u32 \<Rightarrow> u64 \<Rightarrow> byte list \<Rightarrow> ('k, 'z) kstate_scheme \<Rightarrow> (u64 \<times> ('k, 'z) kstate_scheme) option" where
  "thr_loop out lwpid kthread tbuf s =
     (if kthread = 0 then Some (0, s)
      else let (rc, tbuf, s) = kout out kthread tbuf s in
        if rc < 0 then Some (0, s)
        else if field32 tbuf 0x9c = lwpid then Some (kthread, s)
        else thr_loop out lwpid (field64 tbuf 0x10) tbuf s)"

definition thr_store :: "u32 \<Rightarrow> u32 \<Rightarrow> u64 \<Rightarrow> ('k, 'z) kthr_scheme \<Rightarrow> ('k, 'z) kthr_scheme" where
  "thr_store pid lwpid k s =
     s\<lparr>kr_thr_cache := (kr_thr_cache s)[kr_thr_cache_next s := \<lparr>ts_pid = pid, ts_lwpid = lwpid, ts_kthread = k\<rparr>],
       kr_thr_cache_next := (kr_thr_cache_next s + 1) mod KR_THR_CACHE_N\<rparr>"

text \<open>\<open>stk\<close> is what the local buffers contain before they are filled.\<close>

definition kern_thread_addr ::
    "'k copyout \<Rightarrow> u64 \<Rightarrow> ptr \<Rightarrow> u32 \<Rightarrow> u32 \<Rightarrow> ('k, 'z) kthr_scheme \<Rightarrow> (u64 \<times> ('k, 'z) kthr_scheme) option" where
  "kern_thread_addr out allproc stk pid lwpid s = (case thr_lookup out pid lwpid s of
       (Some k, s) \<Rightarrow> Some (k, s)
     | (None, s) \<Rightarrow>
       Option.bind (kernel_get_proc_fast out allproc pid s) (\<lambda>(kproc, s).
         if kproc = 0 then Some (0, s)
         else let (rc, chain_hdr, s) = kout out (kproc + 0x10) (bytes_at stk 0 0x30) s in
           if rc < 0 then Some (0, s)
           else map_option (\<lambda>(k, s). (k, if k \<noteq> 0 then thr_store pid lwpid k s else s))
                  (thr_loop out lwpid (field64 chain_hdr 0) (bytes_at stk 0 0x680) s)))"

section \<open>Fields\<close>

text \<open>Copying fields between two structures: a table of destination offset, source offset and size.\<close>

definition move_fields :: "(nat \<times> nat \<times> nat) list \<Rightarrow> byte list \<Rightarrow> byte list \<Rightarrow> byte list" where
  "move_fields tbl dst src = fold (\<lambda>(d, f, n) dst. splice dst d (take n (drop f src))) tbl dst"

definition flip :: "(nat \<times> nat \<times> nat) list \<Rightarrow> (nat \<times> nat \<times> nat) list" where
  "flip tbl = map (\<lambda>(d, f, n). (f, d, n)) tbl"

definition db_fields :: "(nat \<times> nat \<times> nat) list" where
  \<comment> \<open>debug registers: offset in the client's structure and in the process control block\<close>
  "db_fields = [(0x00, 0x78, 8), (0x08, 0x80, 8), (0x10, 0x88, 8), (0x18, 0x90, 8), (0x30, 0x98, 8), (0x38, 0xa0, 8)]"

definition reg_fields :: "(nat \<times> nat \<times> nat) list" where
  \<comment> \<open>general registers: offset in the client's structure and in the trap frame\<close>
  "reg_fields =
     [(0x00, 0x70, 8), (0x08, 0x68, 8), (0x10, 0x60, 8), (0x18, 0x58, 8), (0x20, 0x50, 8), (0x28, 0x48, 8),
      (0x30, 0x28, 8), (0x38, 0x20, 8), (0x40, 0x00, 8), (0x48, 0x08, 8), (0x50, 0x40, 8), (0x58, 0x38, 8),
      (0x60, 0x10, 8), (0x68, 0x18, 8), (0x70, 0x30, 8), (0x78, 0x78, 8), (0x88, 0xe8, 8), (0x90, 0xf0, 8),
      (0x98, 0xf8, 8), (0xa0, 0x100, 8), (0xa8, 0x108, 8), (0x84, 0x8c, 4)]"

text \<open>The field at 0x80 is 32 bits wide in the client's structure and 64 bits wide in the frame.\<close>

definition regs_of_frame :: "byte list \<Rightarrow> byte list \<Rightarrow> byte list" where
  "regs_of_frame fbuf dst = splice (move_fields reg_fields dst fbuf) 0x80 (take 4 (drop 0xe0 fbuf))"

definition frame_of_regs :: "byte list \<Rightarrow> byte list \<Rightarrow> byte list" where
  "frame_of_regs regs fbuf = splice (move_fields (flip reg_fields) fbuf regs) 0xe0 (take 4 (drop 0x80 regs) @ [0, 0, 0, 0])"

section \<open>Operations on a thread\<close>

definition kthread_ptr ::
    "'k copyout \<Rightarrow> u64 \<Rightarrow> ptr \<Rightarrow> int \<Rightarrow> u64 \<Rightarrow> u32 \<Rightarrow> u32 \<Rightarrow> ('k, 'z) kthr_scheme \<Rightarrow> ((int + u64 \<times> u64) \<times> ('k, 'z) kthr_scheme) option" where
  \<comment> \<open>the thread and the pointer at an offset of it; \<open>Inl\<close> is the result of an operation that stops here\<close>
  "kthread_ptr out allproc stk none off pid lwpid s =
     map_option (\<lambda>(kthread, s).
       if kthread = 0 then (Inl none, s)
       else let (rc, a, s) = kout64 out (kthread + off) (ld64 stk) s in
         if rc < 0 then (Inl 1, s) else (Inr (kthread, a), s))
     (kern_thread_addr out allproc stk pid lwpid s)"

text \<open>The process control block of a thread.\<close>

definition with_pcb ::
    "'k copyout \<Rightarrow> u64 \<Rightarrow> ptr \<Rightarrow> u32 \<Rightarrow> u32 \<Rightarrow> (u64 \<Rightarrow> ('k, 'z) kthr_scheme \<Rightarrow> int \<times> 'r \<times> ('k, 'z) kthr_scheme) \<Rightarrow> 'r
      \<Rightarrow> ('k, 'z) kthr_scheme \<Rightarrow> (int \<times> 'r \<times> ('k, 'z) kthr_scheme) option" where
  "with_pcb out allproc stk pid lwpid op buf s =
     (if pid = 0 then Some (1, buf, s)
      else map_option (\<lambda>(r, s). case r of Inl e \<Rightarrow> (e, buf, s) | Inr (_, pcb_addr) \<Rightarrow> op pcb_addr s)
             (kthread_ptr out allproc stk 6 0x3f8 pid lwpid s))"

definition kern_get_dbregs ::
    "'k copyout \<Rightarrow> u64 \<Rightarrow> ptr \<Rightarrow> u32 \<Rightarrow> u32 \<Rightarrow> byte list option \<Rightarrow> ('k, 'z) kthr_scheme \<Rightarrow> (int \<times> byte list option \<times> ('k, 'z) kthr_scheme) option" where
  "kern_get_dbregs out allproc stk pid lwpid dbreg_buf s = (case dbreg_buf of
       None \<Rightarrow> Some (1, None, s)
     | Some dst \<Rightarrow>
       with_pcb out allproc stk pid lwpid (\<lambda>pcb_addr s.
         let (rc, pcb_buf, s) = kout out pcb_addr (bytes_at stk 0 0x178) s in
         if rc < 0 then (1, Some dst, s) else (0, Some (move_fields db_fields dst pcb_buf), s)) (Some dst) s)"

definition kern_set_dbregs ::
    "'k copyout \<Rightarrow> 'k copyin \<Rightarrow> u64 \<Rightarrow> ptr \<Rightarrow> u32 \<Rightarrow> u32 \<Rightarrow> byte list option \<Rightarrow> ('k, 'z) kthr_scheme \<Rightarrow> (int \<times> unit \<times> ('k, 'z) kthr_scheme) option" where
  "kern_set_dbregs out inn allproc stk pid lwpid dbreg_buf s = (case dbreg_buf of
       None \<Rightarrow> Some (1, (), s)
     | Some src \<Rightarrow>
       with_pcb out allproc stk pid lwpid (\<lambda>pcb_addr s.
         let (rc, pcb_buf, s) = kout out pcb_addr (bytes_at stk 0 0x178) s in
         if rc < 0 then (1, (), s)
         else let (rc, s) = kin inn (move_fields (flip db_fields) pcb_buf src) pcb_addr s in (if rc < 0 then 1 else 0, (), s)) () s)"

definition kern_proc_install_dbregs ::
    "'k copyout \<Rightarrow> u64 \<Rightarrow> ptr \<Rightarrow> u32 \<Rightarrow> u32 \<Rightarrow> byte list option \<Rightarrow> ('k, 'z) kthr_scheme \<Rightarrow> (int \<times> byte list option \<times> ('k, 'z) kthr_scheme) option" where
  "kern_proc_install_dbregs out allproc stk pid lwpid fpu_buf s = (case fpu_buf of
       None \<Rightarrow> Some (1, None, s)
     | Some dst \<Rightarrow>
       with_pcb out allproc stk pid lwpid (\<lambda>pcb_addr s.
         let (rc, pcb_buf, s) = kout out pcb_addr (bytes_at stk 0 0x178) s in
         if rc < 0 then (1, Some dst, s)
         else let (rc, dst, s) = kout out (field64 pcb_buf 0x148) dst s in (if rc < 0 then 1 else 0, Some dst, s)) (Some dst) s)"

text \<open>Buffers of the floating-point state have 0x340 bytes, those of the segment bases 16.\<close>

definition kern_get_fpregs ::
    "'k copyout \<Rightarrow> u64 \<Rightarrow> ptr \<Rightarrow> u32 \<Rightarrow> u32 \<Rightarrow> byte list option \<Rightarrow> ('k, 'z) kthr_scheme \<Rightarrow> (int \<times> byte list option \<times> ('k, 'z) kthr_scheme) option" where
  "kern_get_fpregs out allproc stk pid lwpid fpu_buf s = (case fpu_buf of
       None \<Rightarrow> Some (1, None, s)
     | Some dst \<Rightarrow>
       with_pcb out allproc stk pid lwpid (\<lambda>pcb_addr s.
         let (rc, kfpu_addr, s) = kout64 out (pcb_addr + 0x148) (ld64 stk) s in
         if rc < 0 then (1, Some dst, s)
         else if kfpu_addr = 0 then (1, Some dst, s)
         else let (rc, dst, s) = kout out kfpu_addr dst s in (if rc < 0 then 1 else 0, Some dst, s)) (Some dst) s)"

definition kern_set_fpregs ::
    "'k copyout \<Rightarrow> 'k copyin \<Rightarrow> u64 \<Rightarrow> ptr \<Rightarrow> u32 \<Rightarrow> u32 \<Rightarrow> byte list option \<Rightarrow> ('k, 'z) kthr_scheme \<Rightarrow> (int \<times> unit \<times> ('k, 'z) kthr_scheme) option" where
  "kern_set_fpregs out inn allproc stk pid lwpid fpu_buf s = (case fpu_buf of
       None \<Rightarrow> Some (1, (), s)
     | Some src \<Rightarrow>
       with_pcb out allproc stk pid lwpid (\<lambda>pcb_addr s.
         let (rc, kfpu_addr, s) = kout64 out (pcb_addr + 0x148) (ld64 stk) s in
         if rc < 0 then (1, (), s)
         else if kfpu_addr = 0 then (1, (), s)
         else let (rc, s) = kin inn src kfpu_addr s in (if rc < 0 then 1 else 0, (), s)) () s)"

definition kern_get_fsgsbase ::
    "'k copyout \<Rightarrow> u64 \<Rightarrow> ptr \<Rightarrow> u32 \<Rightarrow> u32 \<Rightarrow> byte list option \<Rightarrow> ('k, 'z) kthr_scheme \<Rightarrow> (int \<times> byte list option \<times> ('k, 'z) kthr_scheme) option" where
  "kern_get_fsgsbase out allproc stk pid lwpid out16 s = (case out16 of
       None \<Rightarrow> Some (1, None, s)
     | Some dst \<Rightarrow>
       with_pcb out allproc stk pid lwpid (\<lambda>pcb_addr s.
         let (rc, dst, s) = kout out (pcb_addr + 0x40) dst s in (if rc < 0 then 1 else 0, Some dst, s)) (Some dst) s)"

definition kern_set_fsgsbase ::
    "'k copyout \<Rightarrow> 'k copyin \<Rightarrow> u64 \<Rightarrow> ptr \<Rightarrow> u32 \<Rightarrow> u32 \<Rightarrow> byte list option \<Rightarrow> ('k, 'z) kthr_scheme \<Rightarrow> (int \<times> unit \<times> ('k, 'z) kthr_scheme) option" where
  "kern_set_fsgsbase out inn allproc stk pid lwpid in16 s = (case in16 of
       None \<Rightarrow> Some (1, (), s)
     | Some src \<Rightarrow>
       with_pcb out allproc stk pid lwpid (\<lambda>pcb_addr s.
         let (rc, s) = kin inn src (pcb_addr + 0x40) s in (if rc < 0 then 1 else 0, (), s)) () s)"

text \<open>The trap frame of a thread.\<close>

definition with_frame ::
    "'k copyout \<Rightarrow> u64 \<Rightarrow> ptr \<Rightarrow> u32 \<Rightarrow> u32 \<Rightarrow> (u64 \<Rightarrow> u64 \<Rightarrow> byte list \<Rightarrow> ('k, 'z) kthr_scheme \<Rightarrow> int \<times> 'r \<times> ('k, 'z) kthr_scheme) \<Rightarrow> 'r
      \<Rightarrow> ('k, 'z) kthr_scheme \<Rightarrow> (int \<times> 'r \<times> ('k, 'z) kthr_scheme) option" where
  "with_frame out allproc stk pid lwpid op buf s =
     (if pid = 0 then Some (1, buf, s)
      else map_option (\<lambda>(r, s). case r of
               Inl e \<Rightarrow> (e, buf, s)
             | Inr (kthread, frame_addr) \<Rightarrow>
               let (rc, fbuf, s) = kout out frame_addr (replicate 0x110 0) s in
               if rc < 0 then (1, buf, s) else op kthread frame_addr fbuf s)
             (kthread_ptr out allproc stk 1 0x460 pid lwpid s))"

definition kern_get_proc_info_by_pid ::
    "'k copyout \<Rightarrow> u64 \<Rightarrow> ptr \<Rightarrow> u32 \<Rightarrow> u32 \<Rightarrow> byte list option \<Rightarrow> ('k, 'z) kthr_scheme \<Rightarrow> (int \<times> byte list option \<times> ('k, 'z) kthr_scheme) option" where
  "kern_get_proc_info_by_pid out allproc stk pid lwpid regs_buf s = (case regs_buf of
       None \<Rightarrow> Some (1, None, s)
     | Some dst \<Rightarrow>
       with_frame out allproc stk pid lwpid (\<lambda>_ _ fbuf s. (0, Some (regs_of_frame fbuf dst), s)) (Some dst) s)"

definition kern_apply_thread_dbgctx ::
    "'k copyout \<Rightarrow> 'k copyin \<Rightarrow> u64 \<Rightarrow> ptr \<Rightarrow> u32 \<Rightarrow> u32 \<Rightarrow> byte list option \<Rightarrow> ('k, 'z) kthr_scheme \<Rightarrow> (int \<times> unit \<times> ('k, 'z) kthr_scheme) option" where
  "kern_apply_thread_dbgctx out inn allproc stk pid lwpid regs_buf s = (case regs_buf of
       None \<Rightarrow> Some (1, (), s)
     | Some src \<Rightarrow>
       with_frame out allproc stk pid lwpid (\<lambda>_ frame_addr fbuf s.
         let (rc, s) = kin inn (frame_of_regs src fbuf) frame_addr s in (if rc < 0 then 1 else 0, (), s)) () s)"

text \<open>Everything at once: the registers, and the debug registers and the floating-point state where
  the caller wants them.\<close>

definition kern_get_lwp_full_state ::
    "'k copyout \<Rightarrow> u64 \<Rightarrow> ptr \<Rightarrow> u32 \<Rightarrow> u32 \<Rightarrow> byte list option \<Rightarrow> byte list option \<Rightarrow> byte list option \<Rightarrow> ('k, 'z) kthr_scheme
      \<Rightarrow> (int \<times> (byte list option \<times> byte list option \<times> byte list option) \<times> ('k, 'z) kthr_scheme) option" where
  "kern_get_lwp_full_state out allproc stk pid lwpid regs_buf dbreg_buf fpu_buf s = (case regs_buf of
       None \<Rightarrow> Some (1, (None, dbreg_buf, fpu_buf), s)
     | Some dst \<Rightarrow>
       with_frame out allproc stk pid lwpid (\<lambda>kthread _ fbuf s.
         let regs = Some (regs_of_frame fbuf dst) in
         if dbreg_buf = None \<and> fpu_buf = None then (0, (regs, dbreg_buf, fpu_buf), s)
         else let (rc, pcb_addr, s) = kout64 out (kthread + 0x3f8) (ld64 stk) s in
           if rc < 0 then (1, (regs, dbreg_buf, fpu_buf), s)
           else let (rc, pcb_buf, s) = kout out pcb_addr (bytes_at stk 0 0x178) s in
             if rc < 0 then (1, (regs, dbreg_buf, fpu_buf), s)
             else let db = map_option (\<lambda>d. move_fields db_fields d pcb_buf) dbreg_buf; kfpu_addr = field64 pcb_buf 0x148 in
               case fpu_buf of
                 None \<Rightarrow> (0, (regs, db, None), s)
               | Some f \<Rightarrow>
                 if kfpu_addr = 0 then (0, (regs, db, Some f), s)
                 else let (rc, f, s) = kout out kfpu_addr f s in (if rc < 0 then 1 else 0, (regs, db, Some f), s))
         (Some dst, dbreg_buf, fpu_buf) s)"

end
