(* ===== verification/KernDbregProps.thy ===== *)
theory KernDbregProps
  imports KernDbreg
begin

text \<open>The thread cache keeps one slot per thread, and registers that are written are read back.\<close>

section \<open>The thread cache\<close>

definition thr_ok :: "('a, 'z) kthr_scheme \<Rightarrow> bool" where
  \<comment> \<open>the cache has its fixed size, its cursor is a slot and no thread has two slots\<close>
  "thr_ok s \<longleftrightarrow> length (kr_thr_cache s) = KR_THR_CACHE_N \<and> kr_thr_cache_next s < KR_THR_CACHE_N
     \<and> (\<forall>p l i j. i < KR_THR_CACHE_N \<and> j < KR_THR_CACHE_N \<and> thr_match p l (kr_thr_cache s ! i) \<and> thr_match p l (kr_thr_cache s ! j)
          \<longrightarrow> i = j)"

definition thr_cached :: "u32 \<Rightarrow> u32 \<Rightarrow> u64 \<Rightarrow> ('a, 'z) kthr_scheme \<Rightarrow> bool" where
  "thr_cached pid lwpid k s \<longleftrightarrow>
     (\<exists>i < KR_THR_CACHE_N. kr_thr_cache s ! i = \<lparr>ts_pid = pid, ts_lwpid = lwpid, ts_kthread = k\<rparr>)"

definition thr_free :: "u32 \<Rightarrow> u32 \<Rightarrow> ('a, 'z) kthr_scheme \<Rightarrow> bool" where
  "thr_free pid lwpid s \<longleftrightarrow> (\<forall>i < KR_THR_CACHE_N. \<not> thr_match pid lwpid (kr_thr_cache s ! i))"

lemma thr_more:
  fixes s s' :: "('a, 'z) kthr_scheme"
  assumes "kstate.more s' = kstate.more s"
  shows "kr_thr_cache s' = kr_thr_cache s" "kr_thr_cache_next s' = kr_thr_cache_next s"
  using assms by (cases s; cases s'; simp)+

lemma thr_ok_cong: "kr_thr_cache s' = kr_thr_cache s \<Longrightarrow> kr_thr_cache_next s' = kr_thr_cache_next s \<Longrightarrow> thr_ok s' = thr_ok s"
  by (simp add: thr_ok_def)

lemma not_match_empty [simp]: "\<not> thr_match p l empty_thr"
  by (simp add: thr_match_def empty_thr_def)

lemma thr_lookup_slot:
  assumes "thr_ok s" "i < KR_THR_CACHE_N" "thr_match pid lwpid (kr_thr_cache s ! i)"
  shows "List.find (\<lambda>i. thr_match pid lwpid (kr_thr_cache s ! i)) [0..<length (kr_thr_cache s)] = Some i"
proof -
  have u: "i = j" if "j < KR_THR_CACHE_N" "thr_match pid lwpid (kr_thr_cache s ! j)" for j
    using assms that unfolding thr_ok_def by blast
  have "\<not> thr_match pid lwpid (kr_thr_cache s ! j)" if "j < i" for j using u [of j] that assms(2) by auto
  then show ?thesis using assms by (auto simp: find_Some_iff thr_ok_def intro!: exI [of _ i])
qed

lemma thr_lookup_cases:
  assumes "thr_ok s" "thr_lookup out pid lwpid s = (r, s')"
  shows "thr_ok s' \<and> (case r of Some k \<Rightarrow> k \<noteq> 0 \<and> thr_cached pid lwpid k s' | None \<Rightarrow> thr_free pid lwpid s')"
proof (cases "List.find (\<lambda>i. thr_match pid lwpid (kr_thr_cache s ! i)) [0..<length (kr_thr_cache s)]")
  case None
  then have "r = None" "s' = s" using assms(2) by (simp_all add: thr_lookup_def)
  moreover have "length (kr_thr_cache s) = KR_THR_CACHE_N" using assms(1) unfolding thr_ok_def by blast
  ultimately show ?thesis using None assms(1) by (simp add: find_None_iff thr_free_def)
next
  case (Some i)
  then have i: "i < KR_THR_CACHE_N" "thr_match pid lwpid (kr_thr_cache s ! i)"
    using assms(1) by (auto simp: find_Some_iff thr_ok_def)
  let ?k = "ts_kthread (kr_thr_cache s ! i)"
  obtain rc v s1 where 1: "kout32 out (?k + 0x9c) 0 s = (rc, v, s1)" by (metis prod_cases3)
  note c = thr_more [OF kframe_more [OF kout32_frame [OF 1]]]
  have ok: "thr_ok s1" using assms(1) thr_ok_cong [OF c] by simp
  have r: "(r, s') = (if rc = 0 \<and> v = lwpid then (Some ?k, s1) else (None, s1\<lparr>kr_thr_cache := (kr_thr_cache s1)[i := empty_thr]\<rparr>))"
    using assms(2) Some 1 by (simp add: thr_lookup_def)
  have "kr_thr_cache s1 ! i = \<lparr>ts_pid = pid, ts_lwpid = lwpid, ts_kthread = ?k\<rparr>"
    using i(2) c by (cases "kr_thr_cache s ! i") (simp add: thr_match_def)
  then have hit: "thr_cached pid lwpid ?k s1" "?k \<noteq> 0" using i by (auto simp: thr_cached_def thr_match_def)
  let ?s = "s1\<lparr>kr_thr_cache := (kr_thr_cache s1)[i := empty_thr]\<rparr>"
  have "thr_ok ?s" using ok i(1) unfolding thr_ok_def by (auto simp: nth_list_update split: if_splits)
  moreover have "thr_free pid lwpid ?s"
    using ok i c by (auto simp: thr_free_def thr_ok_def nth_list_update)
  ultimately show ?thesis using r ok hit by (auto split: if_splits)
qed

lemma thr_store_ok:
  assumes "thr_ok s" "thr_free pid lwpid s"
  shows "thr_ok (thr_store pid lwpid k s) \<and> thr_cached pid lwpid k (thr_store pid lwpid k s)"
proof -
  let ?n = "kr_thr_cache_next s" and ?x = "\<lparr>ts_pid = pid, ts_lwpid = lwpid, ts_kthread = k\<rparr>"
  have n: "?n < KR_THR_CACHE_N" "length (kr_thr_cache s) = KR_THR_CACHE_N" using assms(1) by (auto simp: thr_ok_def)
  have nth: "i < KR_THR_CACHE_N \<Longrightarrow> kr_thr_cache (thr_store pid lwpid k s) ! i = (if i = ?n then ?x else kr_thr_cache s ! i)" for i
    using n by (simp add: thr_store_def nth_list_update)
  have x: "thr_match p l ?x \<Longrightarrow> p = pid \<and> l = lwpid" for p l by (simp add: thr_match_def)
  have "i = j" if "i < KR_THR_CACHE_N" "j < KR_THR_CACHE_N" "thr_match p l (kr_thr_cache (thr_store pid lwpid k s) ! i)"
      "thr_match p l (kr_thr_cache (thr_store pid lwpid k s) ! j)" for p l i j
    using that assms x [of p l] unfolding nth [OF that(1)] nth [OF that(2)]
    by (auto simp: thr_ok_def thr_free_def split: if_splits)
  then have "thr_ok (thr_store pid lwpid k s)"
    using n by (auto simp: thr_ok_def thr_store_def KR_THR_CACHE_N_def)
  moreover have "thr_cached pid lwpid k (thr_store pid lwpid k s)"
    unfolding thr_cached_def using n(1) nth [OF n(1)] by auto
  ultimately show ?thesis by blast
qed

lemma kout_frame: "kout out a v s = (rc, w, s') \<Longrightarrow> kframe s s'"
  by (auto simp: kout_def kframe_def split: prod.splits)

lemma thr_loop_frame: "thr_loop out lwpid k tbuf s = Some y \<Longrightarrow> kframe s (snd y)"
proof (rule thr_loop.raw_induct [of "\<lambda>out lwpid k tbuf s y. kframe s (snd y)", rotated])
  fix f out' lwpid k tbuf and s :: "('k, 'b) kstate_scheme" and y
  assume IH: "\<And>out' lwpid k tbuf s y. f out' lwpid k tbuf s = Some y \<Longrightarrow> kframe (s :: ('k, 'b) kstate_scheme) (snd y)"
    and eq: "(if k = 0 then Some (0, s)
      else let (rc, tbuf, s) = kout out' k tbuf s in
        if rc < 0 then Some (0, s)
        else if field32 tbuf 0x9c = lwpid then Some (k, s)
        else f out' lwpid (field64 tbuf 0x10) tbuf s) = Some y"
  obtain r1 b1 s1 where 1: "kout out' k tbuf s = (r1, b1, s1)" by (metis prod_cases3)
  have "kframe s s1" using kout_frame [OF 1] .
  moreover have "f out' lwpid (field64 b1 0x10) b1 s1 = Some y \<Longrightarrow> kframe s1 (snd y)" using IH by blast
  ultimately show "kframe s (snd y)" using eq kframe_trans by (auto simp: 1 split: if_splits; blast)
qed

lemma thread_addr_cache:
  assumes "thr_ok s" "kern_thread_addr out allproc stk pid lwpid s = Some (k, s')"
  shows "thr_ok s' \<and> (k \<noteq> 0 \<longrightarrow> thr_cached pid lwpid k s')"
proof -
  obtain r s1 where 1: "thr_lookup out pid lwpid s = (r, s1)" by fastforce
  note l = thr_lookup_cases [OF assms(1) 1]
  show ?thesis
  proof (cases r)
    case (Some q)
    then show ?thesis using l assms(2) 1 by (auto simp: kern_thread_addr_def)
  next
    case None
    then have free: "thr_ok s1" "thr_free pid lwpid s1" using l by auto
    obtain kproc s2 where 2: "kernel_get_proc_fast out allproc pid s1 = Some (kproc, s2)"
      using assms(2) None 1 by (auto simp: kern_thread_addr_def bind_eq_Some_conv)
    note c2 = thr_more [OF get_proc_more [OF 2]]
    obtain rc h s3 where 3: "kout out (kproc + 0x10) (bytes_at stk 0 0x30) s2 = (rc, h, s3)" by (metis prod_cases3)
    note c3 = thr_more [OF kframe_more [OF kout_frame [OF 3]]]
    have ok: "thr_ok x \<and> thr_free pid lwpid x" if "kr_thr_cache x = kr_thr_cache s1" "kr_thr_cache_next x = kr_thr_cache_next s1" for x :: "('a, 'b) kthr_scheme"
      using free that thr_ok_cong [of x s1] by (simp add: thr_free_def)
    show ?thesis
    proof (cases "kproc = 0 \<or> rc < 0")
      case True
      then have "k = 0" "s' = s2 \<or> s' = s3" using assms(2) None 1 2 3 by (auto simp: kern_thread_addr_def split: if_splits)
      then show ?thesis using ok [of s2] ok [of s3] c2 c3 by auto
    next
      case False
      then obtain y where y: "thr_loop out lwpid (field64 h 0) (bytes_at stk 0 0x680) s3 = Some y"
          "k = fst y" "s' = (if fst y \<noteq> 0 then thr_store pid lwpid (fst y) (snd y) else snd y)"
        using assms(2) None 1 2 3 by (auto simp: kern_thread_addr_def)
      note c4 = thr_more [OF kframe_more [OF thr_loop_frame [OF y(1)]]]
      have "thr_ok (snd y)" "thr_free pid lwpid (snd y)" using ok [of "snd y"] c2 c3 c4 by auto
      then show ?thesis using y thr_store_ok by auto
    qed
  qed
qed

text \<open>
  C20: the cache of threads. Whatever the kernel memory and whichever reads fail, looking up a thread
  keeps the cache well formed: it has eight slots and never two for one thread. A thread that was
  found is in the cache afterwards, under its own process and number, so that the next operation
  on it starts from there.
\<close>

theorem kern_thread_addr_cache:
  assumes "thr_ok s" "kern_thread_addr out allproc stk pid lwpid s = Some (k, s')"
  shows "thr_ok s' \<and> (k \<noteq> 0 \<longrightarrow> thr_cached pid lwpid k s')"
  by (rule thread_addr_cache [OF assms])

definition example_threads :: "u64 \<Rightarrow> byte" where
  \<comment> \<open>process 7 at 0x1000 with one thread, 0x21, at 0x4000, whose frame is at 0x6000\<close>
  "example_threads x = (if x = 0x101 then 0x10 else if x = 0x10BC then 7 else if x = 0x1011 then 0x40
     else if x = 0x409C then 0x21 else if x = 0x4461 then 0x60 else 0)"

definition example_thr :: "(u64 \<Rightarrow> byte) kthr" where
  "example_thr = \<lparr>kern = example_threads, kr_proc_cache = replicate 8 empty_slot, kr_proc_cache_next = 0,
     kr_thr_cache = replicate 8 empty_thr, kr_thr_cache_next = 0, g_fw_cache = 0\<rparr>"

lemma example_thr_ok: "thr_ok example_thr"
  by (auto simp: thr_ok_def example_thr_def KR_THR_CACHE_N_def)

lemma example_thread:
  "\<exists>s'. kern_thread_addr flat_out 0x100 (\<lambda>_. 0) 7 0x21 example_thr = Some (0x4000, s') \<and> kern s' = example_threads"
proof -
  have slot: "cache_slot 7 (replicate 8 empty_slot) = None" by (auto simp: cache_slot_def find_None_iff empty_slot_def)
  have walk: "walk_loop flat_out 7 0x1000 0 0 example_thr = Some (0x1000, example_thr)"
    by (subst walk_loop.simps) (simp add: example_thr_def kout32_def out32_def flat_out_def word_of_peek32
        mem32_def le_simps window_apply example_threads_def)
  have head: "kout64 flat_out 0x100 0 example_thr = (0, 0x1000, example_thr)"
    by (simp add: example_thr_def kout64_def out64_def flat_out_def word_of_peek64 mem64_def le_simps window_apply example_threads_def)
  have proc: "kernel_get_proc_fast flat_out 0x100 7 example_thr = Some (0x1000, cache_store 7 0x1000 example_thr)"
    using walk head by (simp add: kernel_get_proc_fast_def cache_lookup_def kr_walk_allproc_def example_thr_def slot)
  let ?s = "cache_store 7 0x1000 example_thr"
  have k: "kern ?s = example_threads" by (simp add: cache_store_def example_thr_def)
  have hdr: "kout flat_out (0x1000 + 0x10) (bytes_at (\<lambda>_. 0) 0 0x30) ?s = (0, peek example_threads 0x1010 0x30, ?s)"
    by (simp add: kout_def flat_out_def k)
  have first: "field64 (peek example_threads 0x1010 0x30) 0 = 0x4000"
    by (simp add: field64_peek mem64_def le_simps window_apply example_threads_def)
  have "thr_loop flat_out 0x21 0x4000 (bytes_at (\<lambda>_. 0) 0 0x680) ?s = Some (0x4000, ?s)"
    by (subst thr_loop.simps) (simp add: kout_def flat_out_def k field32_peek mem32_def le_simps window_apply example_threads_def)
  moreover have "thr_lookup flat_out 7 0x21 example_thr = (None, example_thr)"
    by (auto simp: thr_lookup_def example_thr_def split: option.splits dest!: find_Some_iff [THEN iffD1])
  ultimately show ?thesis
    using proc hdr first k by (simp add: kern_thread_addr_def thr_store_def)
qed

theorem kern_thread_addr_cache_witness:
  "\<exists>s'. kern_thread_addr flat_out 0x100 (\<lambda>_. 0) 7 0x21 example_thr = Some (0x4000, s') \<and> thr_cached 7 0x21 0x4000 s'"
proof -
  obtain s' where "kern_thread_addr flat_out 0x100 (\<lambda>_. 0) 7 0x21 example_thr = Some (0x4000, s')" using example_thread by blast
  with kern_thread_addr_cache [OF example_thr_ok this] show ?thesis by simp
qed

section \<open>Fields\<close>

definition apart :: "nat \<times> nat \<times> nat \<Rightarrow> nat \<times> nat \<times> nat \<Rightarrow> bool" where
  "apart x y \<longleftrightarrow> fst x + snd (snd x) \<le> fst y \<or> fst y + snd (snd y) \<le> fst x"

definition fits :: "nat \<Rightarrow> nat \<Rightarrow> nat \<times> nat \<times> nat \<Rightarrow> bool" where
  "fits ld ls x \<longleftrightarrow> fst x + snd (snd x) \<le> ld \<and> fst (snd x) + snd (snd x) \<le> ls"

lemma length_splice: "off + length bs \<le> length xs \<Longrightarrow> length (splice xs off bs) = length xs"
  by (simp add: splice_def)

lemma nth_splice:
  "off + length bs \<le> length xs \<Longrightarrow> i < length xs \<Longrightarrow>
   splice xs off bs ! i = (if off \<le> i \<and> i < off + length bs then bs ! (i - off) else xs ! i)"
  by (auto simp: splice_def nth_append min_def)

lemma move_fields_length:
  "\<forall>x\<in>set tbl. fits (length dst) (length src) x \<Longrightarrow> length (move_fields tbl dst src) = length dst"
  unfolding move_fields_def
proof (induction tbl arbitrary: dst)
  case (Cons x tbl)
  obtain d f n where x: "x = (d, f, n)" by (cases x)
  have "length (splice dst d (take n (drop f src))) = length dst"
    using Cons.prems by (intro length_splice) (auto simp: x fits_def)
  with Cons.IH [of "splice dst d (take n (drop f src))"] Cons.prems show ?case by (simp add: x)
qed simp

text \<open>A table of disjoint fields moves every field and nothing else.\<close>

lemma move_fields_nth:
  assumes "\<forall>x\<in>set tbl. fits (length dst) (length src) x" "sorted_wrt apart tbl" "i < length dst"
  shows "(\<forall>(d, f, n)\<in>set tbl. d \<le> i \<and> i < d + n \<longrightarrow> move_fields tbl dst src ! i = src ! (f + (i - d)))
    \<and> ((\<forall>(d, f, n)\<in>set tbl. \<not> (d \<le> i \<and> i < d + n)) \<longrightarrow> move_fields tbl dst src ! i = dst ! i)"
  using assms unfolding move_fields_def
proof (induction tbl arbitrary: dst)
  case (Cons x tbl)
  obtain d f n where x: "x = (d, f, n)" by (cases x)
  let ?d = "splice dst d (take n (drop f src))"
  have fit: "d + length (take n (drop f src)) \<le> length dst" "length (take n (drop f src)) = n" "f + n \<le> length src"
    using Cons.prems(1) by (auto simp: x fits_def)
  have l: "length ?d = length dst" using fit(1) by (rule length_splice)
  have nth: "?d ! i = (if d \<le> i \<and> i < d + n then src ! (f + (i - d)) else dst ! i)"
    using nth_splice [OF fit(1) Cons.prems(3)] fit(2,3) by (auto simp: less_diff_conv2)
  have out: "\<forall>(d', f', n')\<in>set tbl. \<not> (d' \<le> i \<and> i < d' + n')" if "d \<le> i" "i < d + n"
    using Cons.prems(2) that by (fastforce simp: x apart_def)
  have IH: "(\<forall>(d, f, n)\<in>set tbl. d \<le> i \<and> i < d + n \<longrightarrow>
        fold (\<lambda>(d, f, n) dst. splice dst d (take n (drop f src))) tbl ?d ! i = src ! (f + (i - d)))
      \<and> ((\<forall>(d, f, n)\<in>set tbl. \<not> (d \<le> i \<and> i < d + n)) \<longrightarrow>
        fold (\<lambda>(d, f, n) dst. splice dst d (take n (drop f src))) tbl ?d ! i = ?d ! i)"
    using Cons.IH [of ?d] Cons.prems l by simp
  show ?case
  proof (cases "d \<le> i \<and> i < d + n")
    case True
    with out IH nth show ?thesis by (auto simp: x)
  next
    case False
    with IH nth show ?thesis by (auto simp: x)
  qed
qed simp

section \<open>The general registers\<close>

lemma reg_tables:
  "sorted_wrt apart reg_fields" "sorted_wrt apart (flip reg_fields)"
  "\<forall>x\<in>set reg_fields. fits 0xb0 0x110 x" "\<forall>x\<in>set (flip reg_fields). fits 0x110 0xb0 x"
  "\<forall>(d, f, n)\<in>set reg_fields. (d + n \<le> 0x80 \<or> 0x84 \<le> d) \<and> (f + n \<le> 0xe0 \<or> 0xe8 \<le> f)"
  by (simp_all add: reg_fields_def flip_def apart_def fits_def)

lemma reg_cover: "i < 0xb0 \<Longrightarrow> (\<exists>(d, f, n)\<in>set reg_fields. d \<le> i \<and> i < d + n) \<or> 0x80 \<le> i \<and> i < 0x84"
proof -
  have "list_all (\<lambda>i. list_ex (\<lambda>(d, f, n). d \<le> i \<and> i < d + n) reg_fields \<or> 0x80 \<le> i \<and> i < 0x84) [0..<0xb0]" by code_simp
  then show "i < 0xb0 \<Longrightarrow> ?thesis" unfolding list_all_iff list_ex_iff by auto
qed

lemma frame_of_regs_length: "length regs = 0xb0 \<Longrightarrow> length f = 0x110 \<Longrightarrow> length (frame_of_regs regs f) = 0x110"
  unfolding frame_of_regs_def using move_fields_length [of "flip reg_fields" f regs] reg_tables(4)
  by (subst length_splice) simp_all

lemma frame_of_regs_nth:
  assumes "length regs = 0xb0" "length f = 0x110"
  shows "(d, s, n) \<in> set reg_fields \<Longrightarrow> j < n \<Longrightarrow> frame_of_regs regs f ! (s + j) = regs ! (d + j)"
    and "j < 4 \<Longrightarrow> frame_of_regs regs f ! (0xe0 + j) = regs ! (0x80 + j)"
proof -
  let ?f = "move_fields (flip reg_fields) f regs" and ?w = "take 4 (drop 0x80 regs) @ [0, 0, 0, 0]"
  have l: "length ?f = 0x110" using move_fields_length [of "flip reg_fields" f regs] reg_tables(4) assms by simp
  then have w: "0xe0 + length ?w \<le> length ?f" "length ?w = 8" using assms by simp_all
  {
    assume x: "(d, s, n) \<in> set reg_fields" "j < n"
    then have y: "(s, d, n) \<in> set (flip reg_fields)" by (force simp: flip_def)
    have b: "s + j < 0x110" "\<not> (0xe0 \<le> s + j \<and> s + j < 0xe0 + 8)" using x reg_tables(3,5) by (fastforce simp: fits_def)+
    have "?f ! (s + j) = regs ! (d + (s + j - s))"
      using move_fields_nth [of "flip reg_fields" f regs "s + j"] reg_tables(2,4) assms b(1) y x(2) by fastforce
    then show "frame_of_regs regs f ! (s + j) = regs ! (d + j)"
      unfolding frame_of_regs_def using nth_splice [OF w(1), of "s + j"] b l w(2) by auto
  next
    assume "j < 4"
    then show "frame_of_regs regs f ! (0xe0 + j) = regs ! (0x80 + j)"
      unfolding frame_of_regs_def using nth_splice [OF w(1), of "0xe0 + j"] l w(2) assms by (simp add: nth_append)
  }
qed

lemma regs_roundtrip:
  assumes "length regs = 0xb0" "length f = 0x110" "length dst = 0xb0"
  shows "regs_of_frame (frame_of_regs regs f) dst = regs"
proof (rule nth_equalityI)
  let ?g = "frame_of_regs regs f"
  let ?r = "move_fields reg_fields dst ?g" and ?w = "take 4 (drop 0xe0 ?g)"
  have g: "length ?g = 0x110" by (rule frame_of_regs_length [OF assms(1,2)])
  have l: "length ?r = 0xb0" using move_fields_length [of reg_fields dst ?g] reg_tables(3) g assms(3) by simp
  then have w: "0x80 + length ?w \<le> length ?r" "length ?w = 4" using g by simp_all
  show len: "length (regs_of_frame ?g dst) = length regs"
    unfolding regs_of_frame_def using length_splice [OF w(1)] l assms(1) by simp
  fix i assume "i < length (regs_of_frame ?g dst)"
  then have i: "i < 0xb0" using len assms(1) by simp
  note n = nth_splice [OF w(1), of i, unfolded l, OF i, unfolded w(2), folded regs_of_frame_def]
  show "regs_of_frame ?g dst ! i = regs ! i"
  proof (cases "0x80 \<le> i \<and> i < 0x84")
    case True
    then have "?w ! (i - 0x80) = regs ! i" using frame_of_regs_nth(2) [OF assms(1,2), of "i - 0x80"] g by auto
    with True n show ?thesis by simp
  next
    case False
    then obtain d s m where x: "(d, s, m) \<in> set reg_fields" "d \<le> i" "i < d + m" using reg_cover [OF i] by auto
    then have "?r ! i = ?g ! (s + (i - d))"
      using move_fields_nth [of reg_fields dst ?g i] reg_tables(1,3) g assms(3) i by fastforce
    also have "\<dots> = regs ! i" using frame_of_regs_nth(1) [OF assms(1,2) x(1), of "i - d"] x by simp
    finally show ?thesis using False n by auto
  qed
qed

context reliable_kernel
begin

lemma thread_again:
  fixes s :: "('a, 'z) kthr_scheme"
  assumes "thr_ok s" "thr_cached pid lwpid k s" "k \<noteq> 0" "view (kern s) m" "safe (k + 0x9c) 4" "mem32 m (k + 0x9c) = lwpid"
  obtains s' where "kern_thread_addr out allproc stk pid lwpid s = Some (k, s')" "view (kern s') m" "kframe s s'"
proof -
  obtain i where i: "i < KR_THR_CACHE_N" "kr_thr_cache s ! i = \<lparr>ts_pid = pid, ts_lwpid = lwpid, ts_kthread = k\<rparr>"
    using assms(2) by (auto simp: thr_cached_def)
  then have f: "List.find (\<lambda>i. thr_match pid lwpid (kr_thr_cache s ! i)) [0..<length (kr_thr_cache s)] = Some i"
    using assms(3) by (intro thr_lookup_slot [OF assms(1)]) (simp_all add: thr_match_def)
  obtain s' where s': "kout32 out (k + 0x9c) 0 s = (0, lwpid, s')" "view (kern s') m" "kframe s s'"
    using kout32_read [OF assms(4,5)] assms(6) by metis
  then have "thr_lookup out pid lwpid s = (Some k, s')" using i(2) f by (simp add: thr_lookup_def)
  with s' show thesis by (intro that) (simp_all add: kern_thread_addr_def)
qed

lemma with_frame_run:
  fixes s :: "('a, 'z) kthr_scheme"
  assumes "kern_thread_addr out allproc stk pid lwpid s = Some (k, s1)" "k \<noteq> 0" "pid \<noteq> 0" "view (kern s1) m"
    and "frame = mem64 m (k + 0x460)" "safe (k + 0x460) 8" "safe frame 0x110"
  obtains s2 where "with_frame out allproc stk pid lwpid op buf s = Some (op k frame (peek m frame 0x110) s2)"
    "view (kern s2) m" "kframe s1 s2"
proof -
  obtain s2 where 2: "kout64 out (k + 0x460) (ld64 stk) s1 = (0, frame, s2)" "view (kern s2) m" "kframe s1 s2"
    using kout64_read [OF assms(4,6)] assms(5) by metis
  obtain s3 where 3: "kout out frame (replicate 0x110 0) s2 = (0, peek m frame 0x110, s3)" "view (kern s3) m" "kframe s2 s3"
    using kout_read [OF 2(2), of frame "replicate 0x110 0"] assms(7) by auto
  show thesis
    using that [of s3] 3 2 assms(1-3) kframe_trans [OF 2(3) 3(3)] by (simp add: with_frame_def kthread_ptr_def)
qed

lemma regs_written_read:
  fixes s :: "('a, 'z) kthr_scheme"
  assumes ok: "thr_ok s" and run: "kern_thread_addr out allproc stk pid lwpid s = Some (k, s1)" "k \<noteq> 0" "pid \<noteq> 0" "view (kern s1) m"
    and fr: "frame = mem64 m (k + 0x460)" "safe (k + 0x460) 8" "safe frame 0x110" "safe (k + 0x9c) 4" "mem32 m (k + 0x9c) = lwpid"
    and ap: "\<forall>i<0x110. \<forall>j<0x680. frame + of_nat i \<noteq> k + of_nat j"
    and len: "length regs = 0xb0" "length dst = 0xb0"
  shows "\<exists>s2 s3. kern_apply_thread_dbgctx out inn allproc stk pid lwpid (Some regs) s = Some (0, (), s2)
    \<and> kern_get_proc_info_by_pid out allproc stk pid lwpid (Some dst) s2 = Some (0, Some regs, s3)"
proof -
  let ?f = "frame_of_regs regs (peek m frame 0x110)"
  have fl: "length ?f = 0x110" using frame_of_regs_length [OF len(1)] by simp
  let ?m = "poke m frame ?f"
  let ?op = "\<lambda>(_ :: u64) frame_addr fbuf (s :: ('a, 'z) kthr_scheme).
    let (rc, s) = kin inn (frame_of_regs regs fbuf) frame_addr s in (if rc < 0 then 1 else 0 :: int, (), s)"
  obtain s2 where 2: "with_frame out allproc stk pid lwpid ?op () s = Some (?op k frame (peek m frame 0x110) s2)"
      "view (kern s2) m" "kframe s1 s2"
    by (rule with_frame_run [OF run fr(1-3), where op = ?op and buf = "()"])
  obtain s3 where 3: "kin inn ?f frame s2 = (0, s3)" "view (kern s3) ?m" "kframe s2 s3"
    using kin_write [OF 2(2), of frame ?f] fr(3) fl by auto
  have k13: "kframe s1 s3" using kframe_trans 2(3) 3(3) by blast
  have app: "kern_apply_thread_dbgctx out inn allproc stk pid lwpid (Some regs) s = Some (0, (), s3)"
    using 2(1) 3(1) by (simp add: kern_apply_thread_dbgctx_def Let_def)
  note c = thread_addr_cache [OF ok run(1)] and t = thr_more [OF kframe_more [OF k13]]
  have c3: "thr_ok s3" "thr_cached pid lwpid k s3"
    using c run(2) thr_ok_cong [OF t] t by (auto simp: thr_cached_def)
  have off: "k + of_nat c + of_nat j \<noteq> frame + of_nat i" if "c + j < 0x680" "i < 0x110" for c i j
    using ap [rule_format, OF that(2), OF that(1)] by (simp add: add.assoc)
  have keep: "mem32 ?m (k + 0x9c) = lwpid" "mem64 ?m (k + 0x460) = frame"
    using off [of "0x9c"] off [of "0x460"] fr(1,5) fl by (subst mem32_unchanged mem64_unchanged; simp)+
  obtain s4 where 4: "kern_thread_addr out allproc stk pid lwpid s3 = Some (k, s4)" "view (kern s4) ?m"
    using thread_again [OF c3 run(2) 3(2) fr(4) keep(1)] by metis
  let ?rd = "\<lambda>(_ :: u64) (_ :: u64) fbuf (s :: ('a, 'z) kthr_scheme). (0 :: int, Some (regs_of_frame fbuf dst), s)"
  obtain s5 where "with_frame out allproc stk pid lwpid ?rd (Some dst) s3 = Some (?rd k frame (peek ?m frame 0x110) s5)"
    by (rule with_frame_run [OF 4(1) run(2,3) 4(2) keep(2) [symmetric] fr(2,3), where op = ?rd and buf = "Some dst"])
  moreover have "peek ?m frame 0x110 = ?f" using peek_poke_same [of ?f m frame] fl by simp
  ultimately have "kern_get_proc_info_by_pid out allproc stk pid lwpid (Some dst) s3 = Some (0, Some regs, s5)"
    using regs_roundtrip [OF len(1) _ len(2), of "peek m frame 0x110"] by (simp add: kern_get_proc_info_by_pid_def)
  with app show ?thesis by blast
qed

end

text \<open>
  C26: registers that were written are read back. After the general registers of a thread were set,
  reading them returns the same 176 bytes, although the frame in the kernel orders the registers
  differently and widens the field at 0x80; the thread is found again through the cache.
\<close>

theorem kern_regs_roundtrip:
  assumes "reliable_kernel out inn view safe" "thr_ok s" "kern_thread_addr out allproc stk pid lwpid s = Some (k, s1)"
    and "k \<noteq> 0" "pid \<noteq> 0" "view (kern s1) m" "frame = mem64 m (k + 0x460)" "safe (k + 0x460) 8" "safe frame 0x110"
    and "safe (k + 0x9c) 4" "mem32 m (k + 0x9c) = lwpid" "\<forall>i<0x110. \<forall>j<0x680. frame + of_nat i \<noteq> k + of_nat j"
    and "length regs = 0xb0" "length dst = 0xb0"
  shows "\<exists>s2 s3. kern_apply_thread_dbgctx out inn allproc stk pid lwpid (Some regs) s = Some (0, (), s2)
    \<and> kern_get_proc_info_by_pid out allproc stk pid lwpid (Some dst) s2 = Some (0, Some regs, s3)"
  by (rule reliable_kernel.regs_written_read [OF assms])

theorem kern_regs_roundtrip_witness:
  "\<exists>s2 s3. kern_apply_thread_dbgctx flat_out flat_in 0x100 (\<lambda>_. 0) 7 0x21 (Some (replicate 0xb0 5)) example_thr = Some (0, (), s2)
    \<and> kern_get_proc_info_by_pid flat_out 0x100 (\<lambda>_. 0) 7 0x21 (Some (replicate 0xb0 0)) s2 = Some (0, Some (replicate 0xb0 5), s3)"
proof -
  obtain s1 where s1: "kern_thread_addr flat_out 0x100 (\<lambda>_. 0) 7 0x21 example_thr = Some (0x4000, s1)" "kern s1 = example_threads"
    using example_thread by blast
  have m: "0x6000 = mem64 example_threads (0x4000 + 0x460)" "mem32 example_threads (0x4000 + 0x9c) = 0x21"
    by (simp_all add: mem64_def mem32_def le_simps window_apply example_threads_def)
  have ap: "\<forall>i<0x110. \<forall>j<0x680. (0x6000 :: u64) + of_nat i \<noteq> 0x4000 + of_nat j"
  proof (intro allI impI notI)
    fix i j :: nat assume b: "i < 0x110" "j < 0x680" and eq: "(0x6000 :: u64) + of_nat i = 0x4000 + of_nat j"
    have "unat (0x6000 + of_nat i :: u64) = 0x6000 + i" by (subst unat_add_of_nat) (use b in simp_all)
    moreover have "unat (0x4000 + of_nat j :: u64) = 0x4000 + j" by (subst unat_add_of_nat) (use b in simp_all)
    ultimately show False using eq b by simp
  qed
  show ?thesis
    by (rule kern_regs_roundtrip [where view = "(=)", OF flat_kernel.reliable_kernel_axioms example_thr_ok s1(1) _ _ s1(2) m(1) _ _ _ m(2) ap]) simp_all
qed

end
