(* ===== verification/Clients.thy ===== *)
theory Clients
  imports Prelude
begin

text \<open>
  The table of clients, \<^verbatim>\<open>debugger/source/meta.c\<close>, and the threads of
  \<^verbatim>\<open>debugger/source/main.c\<close> that share it: the accepting thread takes a slot for every
  connection and starts a thread, which serves the connection and gives the slot back. The table
  has no lock, so the model is a step relation in which every access to the table is a step.
\<close>

section \<open>The table\<close>

record server_client =
  active :: u32
  sv_fd :: int
  debugging :: u32
  client_addr :: "byte list"
  dbgctx :: "byte list"

record server =
  g_clients :: "server_client list"
  curdbgcli :: "nat option"
  g_debug_attached :: u32
  g_stopgo_mode :: u32
  g_stopgo_target_pid :: u32
  g_stopgo_last_signal :: u32
  g_stopgo_resume_pid :: u32
  g_stopgo_resume_signal :: u32

definition SERVER_MAXCLIENTS :: nat where "SERVER_MAXCLIENTS = 12"

definition cleared_client :: server_client where
  "cleared_client = \<lparr>active = 0, sv_fd = 0, debugging = 0, client_addr = replicate 16 0, dbgctx = replicate 0x358 0\<rparr>"

definition server_state_init :: "'z server_scheme \<Rightarrow> 'z server_scheme" where
  "server_state_init s = s\<lparr>g_clients := replicate SERVER_MAXCLIENTS cleared_client, g_debug_attached := 0,
     g_stopgo_resume_signal := 0xFFFFFFFF, g_stopgo_resume_pid := 0, g_stopgo_last_signal := 0xFFFFFFFF,
     g_stopgo_target_pid := 0, g_stopgo_mode := 0, curdbgcli := None\<rparr>"

definition set_client :: "nat \<Rightarrow> (server_client \<Rightarrow> server_client) \<Rightarrow> 'z server_scheme \<Rightarrow> 'z server_scheme" where
  "set_client i f s = s\<lparr>g_clients := (g_clients s)[i := f (g_clients s ! i)]\<rparr>"

definition alloc_client :: "'z server_scheme \<Rightarrow> nat option \<times> 'z server_scheme" where
  "alloc_client s = (case List.find (\<lambda>i. active (g_clients s ! i) = 0) [0..<SERVER_MAXCLIENTS] of
       None \<Rightarrow> (None, s)
     | Some i \<Rightarrow> (Some i, set_client i (active_update (\<lambda>_. of_nat (i + 1))) s))"

definition assign_client :: "nat \<Rightarrow> int \<Rightarrow> byte list \<Rightarrow> 'z server_scheme \<Rightarrow> 'z server_scheme" where
  \<comment> \<open>what the accepting thread stores in the slot it got\<close>
  "assign_client i fd cli s =
     set_client i (\<lambda>x. x\<lparr>sv_fd := fd, debugging := 0, client_addr := take 16 cli, dbgctx := replicate 0x358 0\<rparr>) s"

definition client_idx :: "server_client \<Rightarrow> byte" where
  \<comment> \<open>the index a request is handled under, read from the slot at every request\<close>
  "client_idx x = ucast ((active x - 1) AND 0xFF)"

text \<open>Giving a slot back, in the three steps other threads can observe. \<open>teardown\<close> ends a debugging
  session; the number closed is the one the slot holds at that time.\<close>

definition free_mark :: "nat \<Rightarrow> 'z server_scheme \<Rightarrow> 'z server_scheme" where
  "free_mark i s = set_client i (active_update (\<lambda>_. 0)) s"

definition free_teardown :: "(byte list \<Rightarrow> 'z server_scheme \<Rightarrow> 'z server_scheme) \<Rightarrow> nat \<Rightarrow> 'z server_scheme \<Rightarrow> 'z server_scheme" where
  "free_teardown teardown i s =
     (if debugging (g_clients s ! i) \<noteq> 0 then teardown (dbgctx (g_clients s ! i)) s else s)"

definition free_clear :: "nat \<Rightarrow> 'z server_scheme \<Rightarrow> 'z server_scheme" where
  "free_clear i s = set_client i (\<lambda>_. cleared_client) s"

section \<open>The threads\<close>

text \<open>
  Agent 0 is the accepting thread, every other one serves a client. \<open>Allocated\<close> and \<open>Assigned\<close>
  are the accepting thread between taking a slot, filling it and starting the thread; a client's
  thread reads the socket from its slot (\<open>Starting\<close>), serves it (\<open>Serving\<close>) and gives the slot
  back (\<open>Marked\<close>, \<open>Closed\<close>, \<open>Gone\<close>). \<open>Waiting\<close> for an agent is the accepting thread serving a
  client itself because no thread could be started.
\<close>

datatype agent =
    Accepting
  | Allocated nat int "byte list"
  | Assigned nat
  | Waiting nat
  | Starting nat
  | Serving nat int
  | Marked nat
  | Closed nat
  | Gone

record system =
  srv :: server
  fds :: "int set"
  agents :: "agent list"

fun slot_of :: "agent \<Rightarrow> nat option" where
  "slot_of (Allocated i _ _) = Some i"
| "slot_of (Assigned i) = Some i"
| "slot_of (Starting i) = Some i"
| "slot_of (Serving i _) = Some i"
| "slot_of (Marked i) = Some i"
| "slot_of (Closed i) = Some i"
| "slot_of _ = None"

fun freeing :: "agent \<Rightarrow> nat option" where
  "freeing (Marked i) = Some i"
| "freeing (Closed i) = Some i"
| "freeing _ = None"

text \<open>With \<open>excl\<close> a slot is only taken when no thread is still giving it back, which the program
  does not ensure. \<open>upd\<close> is what a request or the end of a debugging session changes: anything
  but who has which slot.\<close>

definition keeps_slots :: "server \<Rightarrow> server \<Rightarrow> bool" where
  "keeps_slots s s' \<longleftrightarrow> map active (g_clients s') = map active (g_clients s) \<and> map sv_fd (g_clients s') = map sv_fd (g_clients s)"

inductive server_step :: "bool \<Rightarrow> system \<Rightarrow> system \<Rightarrow> bool" for excl where
  accept: "\<lbrakk>agents S ! 0 = Accepting; fd \<notin> fds S; 0 < fd; alloc_client (srv S) = (Some i, s');
            excl \<longrightarrow> (\<forall>a\<in>set (agents S). freeing a \<noteq> Some i)\<rbrakk>
     \<Longrightarrow> server_step excl S \<lparr>srv = s', fds = insert fd (fds S), agents = (agents S)[0 := Allocated i fd cli]\<rparr>"
| assign: "agents S ! 0 = Allocated i fd cli
     \<Longrightarrow> server_step excl S (S\<lparr>srv := assign_client i fd cli (srv S), agents := (agents S)[0 := Assigned i]\<rparr>)"
| spawn: "agents S ! 0 = Assigned i
     \<Longrightarrow> server_step excl S (S\<lparr>agents := (agents S)[0 := Accepting] @ [Starting i]\<rparr>)"
| inline: "agents S ! 0 = Assigned i
     \<Longrightarrow> server_step excl S (S\<lparr>agents := (agents S)[0 := Waiting (length (agents S))] @ [Starting i]\<rparr>)"
| resume: "\<lbrakk>agents S ! 0 = Waiting k; agents S ! k = Gone\<rbrakk> \<Longrightarrow> server_step excl S (S\<lparr>agents := (agents S)[0 := Accepting]\<rparr>)"
| start: "\<lbrakk>k < length (agents S); agents S ! k = Starting i\<rbrakk>
     \<Longrightarrow> server_step excl S (S\<lparr>agents := (agents S)[k := Serving i (sv_fd (g_clients (srv S) ! i))]\<rparr>)"
| serve: "\<lbrakk>k < length (agents S); agents S ! k = Serving i fd; keeps_slots (srv S) s'\<rbrakk> \<Longrightarrow> server_step excl S (S\<lparr>srv := s'\<rparr>)"
| mark: "\<lbrakk>k < length (agents S); agents S ! k = Serving i fd\<rbrakk>
     \<Longrightarrow> server_step excl S (S\<lparr>srv := free_mark i (srv S), agents := (agents S)[k := Marked i]\<rparr>)"
| close: "\<lbrakk>k < length (agents S); agents S ! k = Marked i; s' = free_teardown teardown i (srv S); keeps_slots (srv S) s'\<rbrakk>
     \<Longrightarrow> server_step excl S \<lparr>srv = s', fds = fds S - {sv_fd (g_clients (srv S) ! i)}, agents = (agents S)[k := Closed i]\<rparr>"
| clear: "\<lbrakk>k < length (agents S); agents S ! k = Closed i\<rbrakk>
     \<Longrightarrow> server_step excl S (S\<lparr>srv := free_clear i (srv S), agents := (agents S)[k := Gone]\<rparr>)"

inductive reachable :: "bool \<Rightarrow> system \<Rightarrow> bool" for excl where
  init: "g_clients s = replicate SERVER_MAXCLIENTS cleared_client \<Longrightarrow> reachable excl \<lparr>srv = s, fds = {}, agents = [Accepting]\<rparr>"
| step: "\<lbrakk>reachable excl S; server_step excl S S'\<rbrakk> \<Longrightarrow> reachable excl S'"

section \<open>Slots are exclusive\<close>

text \<open>The connection an agent is responsible for, and whether it holds its slot.\<close>

fun fd_of :: "server \<Rightarrow> agent \<Rightarrow> int option" where
  "fd_of s (Allocated i fd cli) = Some fd"
| "fd_of s (Assigned i) = Some (sv_fd (g_clients s ! i))"
| "fd_of s (Starting i) = Some (sv_fd (g_clients s ! i))"
| "fd_of s (Serving i fd) = Some fd"
| "fd_of s (Marked i) = Some (sv_fd (g_clients s ! i))"
| "fd_of s _ = None"

fun holds :: "agent \<Rightarrow> nat option" where
  "holds (Allocated i _ _) = Some i"
| "holds (Assigned i) = Some i"
| "holds (Starting i) = Some i"
| "holds (Serving i _) = Some i"
| "holds _ = None"

definition slots_ok :: "system \<Rightarrow> bool" where
  "slots_ok S \<longleftrightarrow> (let ags = agents S; n = length ags; s = srv S in
     0 < n \<and> length (g_clients s) = SERVER_MAXCLIENTS
     \<and> (\<forall>j<n. \<forall>i. slot_of (ags ! j) = Some i \<longrightarrow> i < SERVER_MAXCLIENTS \<and> (\<forall>k<n. k \<noteq> j \<longrightarrow> slot_of (ags ! k) \<noteq> Some i))
     \<and> (\<forall>j<n. \<forall>fd. fd_of s (ags ! j) = Some fd \<longrightarrow> fd \<in> fds S \<and> (\<forall>k<n. k \<noteq> j \<longrightarrow> fd_of s (ags ! k) \<noteq> Some fd))
     \<and> (\<forall>j<n. \<forall>i fd. ags ! j = Serving i fd \<longrightarrow> sv_fd (g_clients s ! i) = fd)
     \<and> (\<forall>i<SERVER_MAXCLIENTS. active (g_clients s ! i) = (if \<exists>j<n. holds (ags ! j) = Some i then of_nat (i + 1) else 0)))"

lemma slots_okD:
  assumes "slots_ok S"
  shows "0 < length (agents S)" "length (g_clients (srv S)) = SERVER_MAXCLIENTS"
    "\<And>j i. j < length (agents S) \<Longrightarrow> slot_of (agents S ! j) = Some i \<Longrightarrow> i < SERVER_MAXCLIENTS"
    "\<And>j k i. j < length (agents S) \<Longrightarrow> slot_of (agents S ! j) = Some i \<Longrightarrow> k < length (agents S) \<Longrightarrow> k \<noteq> j \<Longrightarrow> slot_of (agents S ! k) \<noteq> Some i"
    "\<And>j fd. j < length (agents S) \<Longrightarrow> fd_of (srv S) (agents S ! j) = Some fd \<Longrightarrow> fd \<in> fds S"
    "\<And>j k fd. j < length (agents S) \<Longrightarrow> fd_of (srv S) (agents S ! j) = Some fd \<Longrightarrow> k < length (agents S) \<Longrightarrow> k \<noteq> j
       \<Longrightarrow> fd_of (srv S) (agents S ! k) \<noteq> Some fd"
    "\<And>j i fd. j < length (agents S) \<Longrightarrow> agents S ! j = Serving i fd \<Longrightarrow> sv_fd (g_clients (srv S) ! i) = fd"
    "\<And>i. i < SERVER_MAXCLIENTS \<Longrightarrow>
       active (g_clients (srv S) ! i) = (if \<exists>j<length (agents S). holds (agents S ! j) = Some i then of_nat (i + 1) else 0)"
  using assms unfolding slots_ok_def Let_def by blast+

text \<open>One agent changes its state, the others keep theirs.\<close>

lemma slots_ok_update:
  assumes k: "k < length (agents S)" and len: "length (g_clients s') = SERVER_MAXCLIENTS" and ok: "slots_ok S"
    and slot: "\<And>i. slot_of b = Some i \<Longrightarrow> i < SERVER_MAXCLIENTS \<and> (\<forall>j<length (agents S). j \<noteq> k \<longrightarrow> slot_of (agents S ! j) \<noteq> Some i)"
    and fdo: "\<And>j. j < length (agents S) \<Longrightarrow> j \<noteq> k \<Longrightarrow> fd_of s' (agents S ! j) = fd_of (srv S) (agents S ! j)"
    and fdb: "\<And>fd. fd_of s' b = Some fd \<Longrightarrow> fd \<in> F \<and> (\<forall>j<length (agents S). j \<noteq> k \<longrightarrow> fd_of (srv S) (agents S ! j) \<noteq> Some fd)"
    and fdF: "\<And>j fd. j < length (agents S) \<Longrightarrow> j \<noteq> k \<Longrightarrow> fd_of (srv S) (agents S ! j) = Some fd \<Longrightarrow> fd \<in> F"
    and srvo: "\<And>j i fd. j < length (agents S) \<Longrightarrow> j \<noteq> k \<Longrightarrow> agents S ! j = Serving i fd \<Longrightarrow> sv_fd (g_clients s' ! i) = fd"
    and srvb: "\<And>i fd. b = Serving i fd \<Longrightarrow> sv_fd (g_clients s' ! i) = fd"
    and act: "\<And>i. i < SERVER_MAXCLIENTS \<Longrightarrow> active (g_clients s' ! i)
      = (if holds b = Some i \<or> (\<exists>j<length (agents S). j \<noteq> k \<and> holds (agents S ! j) = Some i) then of_nat (i + 1) else 0)"
  shows "slots_ok \<lparr>srv = s', fds = F, agents = (agents S)[k := b]\<rparr>"
proof -
  let ?n = "length (agents S)" and ?b = "(agents S)[k := b]"
  have nth: "?b ! j = (if j = k then b else agents S ! j)" if "j < ?n" for j using that by (simp add: nth_list_update)
  have "i < SERVER_MAXCLIENTS \<and> (\<forall>l<?n. l \<noteq> j \<longrightarrow> slot_of (?b ! l) \<noteq> Some i)" if "j < ?n" "slot_of (?b ! j) = Some i" for j i
    using that slot [of i] slots_okD(3,4) [OF ok] nth by (metis (mono_tags))
  moreover have "fd \<in> F \<and> (\<forall>l<?n. l \<noteq> j \<longrightarrow> fd_of s' (?b ! l) \<noteq> Some fd)" if "j < ?n" "fd_of s' (?b ! j) = Some fd" for j fd
  proof (cases "j = k")
    case True
    then show ?thesis using that fdb [of fd] fdo nth by auto
  next
    case False
    then have "fd_of (srv S) (agents S ! j) = Some fd" using that fdo [of j] nth by simp
    moreover from this have "fd_of s' b \<noteq> Some fd" using that(1) False fdb [of fd] by auto
    ultimately show ?thesis using that(1) False fdF [of j fd] slots_okD(6) [OF ok, of j fd] fdo nth by auto
  qed
  moreover have "sv_fd (g_clients s' ! i) = fd" if "j < ?n" "?b ! j = Serving i fd" for j i fd
    using that srvo [of j i fd] srvb [of i fd] nth by (auto split: if_splits)
  moreover have "(\<exists>j<?n. holds (?b ! j) = Some i) = (holds b = Some i \<or> (\<exists>j<?n. j \<noteq> k \<and> holds (agents S ! j) = Some i))" for i
    using k nth by (metis (mono_tags))
  ultimately show ?thesis using k len act unfolding slots_ok_def Let_def by auto
qed

lemma g_clients_set_client [simp]:
  "length (g_clients (set_client i f s)) = length (g_clients s)"
  "j < length (g_clients s) \<Longrightarrow> g_clients (set_client i f s) ! j = (if j = i then f (g_clients s ! i) else g_clients s ! j)"
  by (auto simp: set_client_def nth_list_update)

lemma holds_slot: "holds a = Some i \<Longrightarrow> slot_of a = Some i"
  by (cases a) auto

lemma slot_holds: "slot_of a = Some i \<Longrightarrow> holds a = Some i \<or> freeing a = Some i"
  by (cases a) auto

lemma fd_of_eq: "(\<And>i. slot_of a = Some i \<Longrightarrow> sv_fd (g_clients s' ! i) = sv_fd (g_clients s ! i)) \<Longrightarrow> fd_of s' a = fd_of s a"
  by (cases a) auto

lemma keeps_slotsD:
  assumes "keeps_slots s s'"
  shows "length (g_clients s') = length (g_clients s)"
    "i < length (g_clients s) \<Longrightarrow> active (g_clients s' ! i) = active (g_clients s ! i) \<and> sv_fd (g_clients s' ! i) = sv_fd (g_clients s ! i)"
proof -
  have m: "map active (g_clients s') = map active (g_clients s)" "map sv_fd (g_clients s') = map sv_fd (g_clients s)"
    using assms by (auto simp: keeps_slots_def)
  then show l: "length (g_clients s') = length (g_clients s)" by (metis length_map)
  show "i < length (g_clients s) \<Longrightarrow> active (g_clients s' ! i) = active (g_clients s ! i) \<and> sv_fd (g_clients s' ! i) = sv_fd (g_clients s ! i)"
    using m l by (metis nth_map)
qed

text \<open>The common case: an agent keeps its slot and connection or gives them up, and only its own
  entry of the table changes.\<close>

lemma slots_ok_own:
  assumes ok: "slots_ok S" and k: "k < length (agents S)" "slot_of (agents S ! k) = Some i"
    and len: "length (g_clients s') = SERVER_MAXCLIENTS"
    and other: "\<And>l. l < SERVER_MAXCLIENTS \<Longrightarrow> active (g_clients s' ! l) = (if l = i then if holds b = Some i then of_nat (i + 1) else 0 else active (g_clients (srv S) ! l))"
      "\<And>l. l < SERVER_MAXCLIENTS \<Longrightarrow> l \<noteq> i \<Longrightarrow> sv_fd (g_clients s' ! l) = sv_fd (g_clients (srv S) ! l)"
    and b: "slot_of b = Some i \<or> slot_of b = None" "fd_of s' b = None \<or> fd_of s' b = fd_of (srv S) (agents S ! k)"
      "\<And>fd. b = Serving i fd \<Longrightarrow> sv_fd (g_clients s' ! i) = fd"
    and F: "F = fds S \<or> F = fds S - {fd} \<and> fd_of (srv S) (agents S ! k) = Some fd \<and> fd_of s' b = None"
  shows "slots_ok \<lparr>srv = s', fds = F, agents = (agents S)[k := b]\<rparr>"
proof (rule slots_ok_update [OF k(1) len ok])
  note D = slots_okD [OF ok]
  have i: "i < SERVER_MAXCLIENTS" by (rule D(3) [OF k])
  fix l assume "slot_of b = Some l"
  then show "l < SERVER_MAXCLIENTS \<and> (\<forall>j<length (agents S). j \<noteq> k \<longrightarrow> slot_of (agents S ! j) \<noteq> Some l)"
    using b(1) i D(4) [OF k] by auto
next
  note D = slots_okD [OF ok]
  fix j assume j: "j < length (agents S)" "j \<noteq> k"
  show "fd_of s' (agents S ! j) = fd_of (srv S) (agents S ! j)"
    using D(3) [OF j(1)] D(4) [OF k j] by (intro fd_of_eq other(2)) auto
next
  note D = slots_okD [OF ok]
  fix fd' assume fd: "fd_of s' b = Some fd'"
  then have "fd_of (srv S) (agents S ! k) = Some fd'" "F = fds S" using b(2) F by auto
  then show "fd' \<in> F \<and> (\<forall>j<length (agents S). j \<noteq> k \<longrightarrow> fd_of (srv S) (agents S ! j) \<noteq> Some fd')"
    using D(5,6) [OF k(1)] by auto
next
  note D = slots_okD [OF ok]
  fix j fd' assume j: "j < length (agents S)" "j \<noteq> k" "fd_of (srv S) (agents S ! j) = Some fd'"
  then show "fd' \<in> F" using F D(5) [OF j(1,3)] D(6) [OF k(1) _ j(1,2)] by auto
next
  note D = slots_okD [OF ok]
  fix j l fd' assume j: "j < length (agents S)" "j \<noteq> k" "agents S ! j = Serving l fd'"
  then show "sv_fd (g_clients s' ! l) = fd'"
    using D(3) [OF j(1), of l] D(4) [OF k j(1,2)] other(2) [of l] D(7) [OF j(1,3)] by auto
next
  fix l fd' assume "b = Serving l fd'"
  then show "sv_fd (g_clients s' ! l) = fd'" using b(1,3) by auto
next
  note D = slots_okD [OF ok]
  fix l assume l: "l < SERVER_MAXCLIENTS"
  have "(\<exists>j<length (agents S). holds (agents S ! j) = Some l) = (\<exists>j<length (agents S). j \<noteq> k \<and> holds (agents S ! j) = Some l)"
    if "l \<noteq> i" using that k holds_slot by (metis option.inject)
  moreover have "\<not> (\<exists>j<length (agents S). j \<noteq> k \<and> holds (agents S ! j) = Some i)"
    using D(4) [OF k] holds_slot by blast
  moreover have "holds b \<noteq> Some l" if "l \<noteq> i" using b(1) that holds_slot [of b l] by auto
  ultimately show "active (g_clients s' ! l)
      = (if holds b = Some l \<or> (\<exists>j<length (agents S). j \<noteq> k \<and> holds (agents S ! j) = Some l) then of_nat (l + 1) else 0)"
    using other(1) [OF l] D(8) [OF l] by auto
qed

lemma slots_ok_accept:
  assumes ok: "slots_ok S" and a: "slot_of (agents S ! 0) = None" and fd: "fd \<notin> fds S"
    and al: "alloc_client (srv S) = (Some i, s')" and free: "\<forall>a\<in>set (agents S). freeing a \<noteq> Some i"
  shows "slots_ok \<lparr>srv = s', fds = insert fd (fds S), agents = (agents S)[0 := Allocated i fd cli]\<rparr>"
proof -
  note D = slots_okD [OF ok]
  have i: "i < SERVER_MAXCLIENTS" "active (g_clients (srv S) ! i) = 0" and s': "s' = set_client i (active_update (\<lambda>_. of_nat (i + 1))) (srv S)"
    using al by (auto simp: alloc_client_def find_Some_iff split: option.splits)
  have "of_nat (i + 1) \<noteq> (0 :: u32)" using i(1) by (simp add: SERVER_MAXCLIENTS_def word_of_nat_eq_0_iff nat_dvd_not_less del: of_nat_Suc of_nat_add)
  then have no: "holds (agents S ! j) \<noteq> Some i" if "j < length (agents S)" for j using D(8) [OF i(1)] i(2) that by (auto split: if_splits)
  have ns: "slot_of (agents S ! j) \<noteq> Some i" if "j < length (agents S)" for j
    using no [OF that] slot_holds [of "agents S ! j" i] free that by auto
  have sv: "sv_fd (g_clients s' ! l) = sv_fd (g_clients (srv S) ! l)" if "l < SERVER_MAXCLIENTS" for l using that D(2) by (auto simp: s')
  have fdo: "fd_of s' (agents S ! j) = fd_of (srv S) (agents S ! j)" if "j < length (agents S)" for j
    using D(3) [OF that] sv by (intro fd_of_eq) auto
  show ?thesis
  proof (rule slots_ok_update [OF D(1) _ ok])
    show "length (g_clients s') = SERVER_MAXCLIENTS" using D(2) by (simp add: s')
  next
    fix l assume "slot_of (Allocated i fd cli) = Some l"
    then show "l < SERVER_MAXCLIENTS \<and> (\<forall>j<length (agents S). j \<noteq> 0 \<longrightarrow> slot_of (agents S ! j) \<noteq> Some l)" using i ns by auto
  next
    fix fd' assume "fd_of s' (Allocated i fd cli) = Some fd'"
    then show "fd' \<in> insert fd (fds S) \<and> (\<forall>j<length (agents S). j \<noteq> 0 \<longrightarrow> fd_of (srv S) (agents S ! j) \<noteq> Some fd')"
      using fd D(5) by auto
  next
    fix j fd' assume "j < length (agents S)" "fd_of (srv S) (agents S ! j) = Some fd'"
    then show "fd' \<in> insert fd (fds S)" using D(5) by simp
  next
    fix j l fd' assume j: "j < length (agents S)" "agents S ! j = Serving l fd'"
    then show "sv_fd (g_clients s' ! l) = fd'" using D(3) [OF j(1), of l] D(7) [OF j] sv [of l] by simp
  next
    fix l assume l: "l < SERVER_MAXCLIENTS"
    have "holds (agents S ! 0) \<noteq> Some l" using a holds_slot [of "agents S ! 0" l] by auto
    then have "(\<exists>j<length (agents S). j \<noteq> 0 \<and> holds (agents S ! j) = Some l) = (\<exists>j<length (agents S). holds (agents S ! j) = Some l)" by metis
    then show "active (g_clients s' ! l) = (if holds (Allocated i fd cli) = Some l
        \<or> (\<exists>j<length (agents S). j \<noteq> 0 \<and> holds (agents S ! j) = Some l) then of_nat (l + 1) else 0)"
      using D(2) D(8) [OF l] l by (auto simp: s')
  qed (use fdo in simp_all)
qed

lemma slots_ok_spawn:
  assumes ok: "slots_ok S" and a: "agents S ! 0 = Assigned i" and b: "slot_of b = None"
  shows "slots_ok (S\<lparr>agents := (agents S)[0 := b] @ [Starting i]\<rparr>)"
proof -
  note D = slots_okD [OF ok]
  have o: "fd_of (srv S) b = None" "holds b = None" "\<And>i fd. b \<noteq> Serving i fd" using b by (cases b; simp)+
  let ?n = "length (agents S)" and ?b = "(agents S)[0 := b] @ [Starting i]"
  define org where "org j = (if j = ?n then 0 else j)" for j
  have org: "org j < ?n" if "j < Suc ?n" for j using that D(1) by (auto simp: org_def)
  have nth: "?b ! j = (if j = 0 then b else if j = ?n then Starting i else agents S ! j)" if "j < Suc ?n" for j
    using that D(1) by (cases "j = ?n") (auto simp: nth_append nth_list_update)
  have sl: "slot_of (?b ! j) = Some l \<Longrightarrow> slot_of (agents S ! org j) = Some l \<and> j \<noteq> 0" if "j < Suc ?n" for j l
    using a b nth [OF that] by (auto simp: org_def split: if_splits)
  have fd: "fd_of (srv S) (?b ! j) = Some f \<Longrightarrow> fd_of (srv S) (agents S ! org j) = Some f \<and> j \<noteq> 0" if "j < Suc ?n" for j f
    using a o nth [OF that] by (auto simp: org_def split: if_splits)
  have inj: "org j = org k \<Longrightarrow> j \<noteq> 0 \<Longrightarrow> k \<noteq> 0 \<Longrightarrow> j = k" for j k by (auto simp: org_def split: if_splits)
  have 1: "l < SERVER_MAXCLIENTS \<and> (\<forall>k<Suc ?n. k \<noteq> j \<longrightarrow> slot_of (?b ! k) \<noteq> Some l)" if "j < Suc ?n" "slot_of (?b ! j) = Some l" for j l
    using sl [OF that] D(3,4) [OF org [OF that(1)]] sl org inj by blast
  have 2: "f \<in> fds S \<and> (\<forall>k<Suc ?n. k \<noteq> j \<longrightarrow> fd_of (srv S) (?b ! k) \<noteq> Some f)" if "j < Suc ?n" "fd_of (srv S) (?b ! j) = Some f" for j f
    using fd [OF that] D(5,6) [OF org [OF that(1)]] fd org inj by blast
  have 3: "sv_fd (g_clients (srv S) ! l) = f" if "j < Suc ?n" "?b ! j = Serving l f" for j l f
    using that nth [OF that(1)] o(3) D(7) [of j l f] by (auto split: if_splits)
  have 4: "(\<exists>j<Suc ?n. holds (?b ! j) = Some l) = (\<exists>j<?n. holds (agents S ! j) = Some l)" for l
  proof
    assume "\<exists>j<Suc ?n. holds (?b ! j) = Some l"
    then obtain j where "j < Suc ?n" "holds (?b ! j) = Some l" by blast
    then have "holds (agents S ! org j) = Some l" using nth [of j] a o by (auto simp: org_def split: if_splits)
    then show "\<exists>j<?n. holds (agents S ! j) = Some l" using org \<open>j < Suc ?n\<close> by blast
  next
    assume "\<exists>j<?n. holds (agents S ! j) = Some l"
    then obtain j where j: "j < ?n" "holds (agents S ! j) = Some l" by blast
    show "\<exists>j<Suc ?n. holds (?b ! j) = Some l"
      using j nth [of j] nth [of ?n] a D(1) by (cases "j = 0") (auto intro: exI [of _ j] exI [of _ ?n])
  qed
  show ?thesis using 1 2 3 4 D(2,8) unfolding slots_ok_def Let_def by simp
qed

lemma slots_ok_keep:
  assumes ok: "slots_ok S" and ks: "keeps_slots (srv S) s'"
  shows "slots_ok (S\<lparr>srv := s'\<rparr>)"
proof -
  note D = slots_okD [OF ok] and K = keeps_slotsD [OF ks]
  have fdo: "fd_of s' (agents S ! j) = fd_of (srv S) (agents S ! j)" if "j < length (agents S)" for j
    using D(3) [OF that] K(2) D(2) by (intro fd_of_eq) auto
  have "sv_fd (g_clients s' ! i) = fd" if "j < length (agents S)" "agents S ! j = Serving i fd" for j i fd
    using D(7) [OF that] D(3) [OF that(1), of i] that(2) K(2) D(2) by auto
  moreover have "active (g_clients s' ! i) = active (g_clients (srv S) ! i)" if "i < SERVER_MAXCLIENTS" for i using K(2) D(2) that by simp
  ultimately show ?thesis using ok D(2) K(1) fdo unfolding slots_ok_def Let_def by simp
qed

lemma server_step_ok: "server_step excl S S' \<Longrightarrow> excl \<Longrightarrow> slots_ok S \<Longrightarrow> slots_ok S'"
proof (induction rule: server_step.induct)
  case (accept S fd i s' cli)
  then show ?case by (intro slots_ok_accept) simp_all
next
  case (assign S i fd cli)
  note D = slots_okD [OF assign.prems(2)]
  have i: "i < SERVER_MAXCLIENTS" using D(3) [OF D(1), of i] assign.hyps by simp
  then have "slots_ok \<lparr>srv = assign_client i fd cli (srv S), fds = fds S, agents = (agents S)[0 := Assigned i]\<rparr>"
    using assign D(1,2) D(8) [OF i] by (intro slots_ok_own [where i = i]) (auto simp: assign_client_def)
  then show ?case by (cases S) simp
next
  case (spawn S i)
  then show ?case by (intro slots_ok_spawn) simp_all
next
  case (inline S i)
  then show ?case by (intro slots_ok_spawn) simp_all
next
  case (resume S k)
  note D = slots_okD [OF resume.prems(2)]
  have "\<exists>j<length (agents S). holds (agents S ! j) = Some i \<Longrightarrow> \<exists>j<length (agents S). j \<noteq> 0 \<and> holds (agents S ! j) = Some i" for i
    using resume.hyps(1) by (metis holds.simps(6) option.distinct(1))
  then have act: "active (g_clients (srv S) ! i) = (if \<exists>j<length (agents S). j \<noteq> 0 \<and> holds (agents S ! j) = Some i then of_nat (i + 1) else 0)"
    if "i < SERVER_MAXCLIENTS" for i using D(8) [OF that] by (auto split: if_splits)
  have "slots_ok \<lparr>srv = srv S, fds = fds S, agents = (agents S)[0 := Accepting]\<rparr>"
    by (rule slots_ok_update [OF D(1,2) resume.prems(2)]) (simp_all add: D(5,7) act)
  then show ?case by (cases S) simp
next
  case (start k S i)
  note D = slots_okD [OF start.prems(2)]
  have i: "i < SERVER_MAXCLIENTS" using D(3) [OF start.hyps(1), of i] start.hyps(2) by simp
  have "slots_ok \<lparr>srv = srv S, fds = fds S, agents = (agents S)[k := Serving i (sv_fd (g_clients (srv S) ! i))]\<rparr>"
    using start D(2) D(8) [OF i] by (intro slots_ok_own [where i = i]) auto
  then show ?case by (cases S) simp
next
  case (serve k S i fd s')
  then show ?case by (intro slots_ok_keep)
next
  case (mark k S i fd)
  note D = slots_okD [OF mark.prems(2)]
  have i: "i < SERVER_MAXCLIENTS" using D(3) [OF mark.hyps(1), of i] mark.hyps(2) by simp
  have "slots_ok \<lparr>srv = free_mark i (srv S), fds = fds S, agents = (agents S)[k := Marked i]\<rparr>"
    using mark D(2) D(7) [OF mark.hyps] i by (intro slots_ok_own [where i = i]) (auto simp: free_mark_def)
  then show ?case by (cases S) simp
next
  case (close k S i s' teardown)
  note D = slots_okD [OF close.prems(2)] and K = keeps_slotsD [OF close.hyps(4)]
  have i: "i < SERVER_MAXCLIENTS" using D(3) [OF close.hyps(1), of i] close.hyps(2) by simp
  have "\<not> (\<exists>j<length (agents S). holds (agents S ! j) = Some i)"
    using D(4) [OF close.hyps(1), of i] close.hyps(2) holds_slot by (metis holds.simps(7) option.distinct(1) slot_of.simps(5))
  then have "active (g_clients (srv S) ! i) = 0" using D(8) [OF i] by auto
  then show ?case
    using close D(2) K i by (intro slots_ok_own [where i = i]) auto
next
  case (clear k S i)
  note D = slots_okD [OF clear.prems(2)]
  have i: "i < SERVER_MAXCLIENTS" using D(3) [OF clear.hyps(1), of i] clear.hyps(2) by simp
  have "slots_ok \<lparr>srv = free_clear i (srv S), fds = fds S, agents = (agents S)[k := Gone]\<rparr>"
    using clear D(2) i by (intro slots_ok_own [where i = i]) (auto simp: free_clear_def cleared_client_def)
  then show ?case by (cases S) simp
qed

lemma reachable_ok: "reachable True S \<Longrightarrow> slots_ok S"
proof (induction rule: reachable.induct)
  case (init s)
  then show ?case by (auto simp: slots_ok_def Let_def cleared_client_def)
next
  case (step S S')
  then show ?case using server_step_ok by blast
qed

lemma client_idx_slot: "i < SERVER_MAXCLIENTS \<Longrightarrow> active x = of_nat (i + 1) \<Longrightarrow> client_idx x = of_nat i"
proof -
  have "\<forall>i\<in>set [0..<12]. ucast ((of_nat (i + 1) - 1 :: u32) AND 0xFF) = (of_nat i :: byte)" by code_simp
  then show "i < SERVER_MAXCLIENTS \<Longrightarrow> active x = of_nat (i + 1) \<Longrightarrow> client_idx x = of_nat i"
    by (simp add: client_idx_def SERVER_MAXCLIENTS_def)
qed

text \<open>
  C36: clients do not share slots, as long as no slot is taken while a thread is still giving it
  back. In every state of the server that is reachable under this condition a thread that serves a
  client works on a slot and a connection that no other thread works on, its connection is open,
  and its requests are handled under the index of its own slot.
\<close>

theorem server_slots_exclusive:
  assumes "reachable True S" "j < length (agents S)" "agents S ! j = Serving i fd"
  shows "fd \<in> fds S \<and> client_idx (g_clients (srv S) ! i) = of_nat i
    \<and> (\<forall>k i' fd'. k < length (agents S) \<and> k \<noteq> j \<and> agents S ! k = Serving i' fd' \<longrightarrow> i' \<noteq> i \<and> fd' \<noteq> fd)"
proof -
  note D = slots_okD [OF reachable_ok [OF assms(1)]]
  have i: "i < SERVER_MAXCLIENTS" using D(3) [OF assms(2), of i] assms(3) by simp
  moreover have "active (g_clients (srv S) ! i) = of_nat (i + 1)" using D(8) [OF i] assms(2,3) by auto
  ultimately have "client_idx (g_clients (srv S) ! i) = of_nat i" by (rule client_idx_slot)
  moreover have "fd \<in> fds S" using D(5) [OF assms(2), of fd] assms(3) by simp
  moreover have "i' \<noteq> i \<and> fd' \<noteq> fd" if "k < length (agents S)" "k \<noteq> j" "agents S ! k = Serving i' fd'" for k i' fd'
    using D(4) [OF assms(2) _ that(1,2), of i] D(6) [OF assms(2) _ that(1,2), of fd] that(3) assms(3) by auto
  ultimately show ?thesis by blast
qed

text \<open>A run: one client is accepted, its slot filled, its thread started.\<close>

definition taken :: "u32 \<Rightarrow> int \<Rightarrow> server_client" where
  "taken a fd = cleared_client\<lparr>active := a, sv_fd := fd, client_addr := []\<rparr>"

definition example_server :: "server_client \<Rightarrow> server" where
  "example_server x = \<lparr>g_clients = x # replicate 11 cleared_client, curdbgcli = None, g_debug_attached = 0, g_stopgo_mode = 0,
     g_stopgo_target_pid = 0, g_stopgo_last_signal = 0, g_stopgo_resume_pid = 0, g_stopgo_resume_signal = 0\<rparr>"

lemma set_example: "set_client 0 f (example_server x) = example_server (f x)"
  by (simp add: set_client_def example_server_def)

lemma alloc_example: "active x = 0 \<Longrightarrow> alloc_client (example_server x) = (Some 0, example_server (x\<lparr>active := 1\<rparr>))"
  by (simp add: alloc_client_def SERVER_MAXCLIENTS_def upt_rec [of 0] set_example) (simp add: example_server_def)

lemma run_accept:
  assumes r: "reachable excl \<lparr>srv = example_server x, fds = F, agents = Accepting # as\<rparr>" and x: "active x = 0"
    and fd: "0 < fd" "fd \<notin> F" and free: "excl \<longrightarrow> (\<forall>a\<in>set as. freeing a \<noteq> Some 0)"
  shows "reachable excl \<lparr>srv = example_server (taken 1 fd), fds = insert fd F, agents = Accepting # as @ [Serving 0 fd]\<rparr>"
proof -
  note r1 = reachable.step [OF r server_step.accept [OF _ _ fd(1), where i = 0 and cli = "[]"], simplified, OF fd(2) alloc_example [OF x] free]
  note r2 = reachable.step [OF r1 server_step.assign [where i = 0 and fd = fd and cli = "[]"], simplified, unfolded assign_client_def set_example]
  have e: "(x\<lparr>active := 1\<rparr>)\<lparr>sv_fd := fd, debugging := 0, client_addr := take 16 [], dbgctx := replicate 0x358 0\<rparr> = taken 1 fd"
    by (cases x) (simp add: taken_def cleared_client_def)
  note r3 = reachable.step [OF r2 [simplified, unfolded e [simplified]] server_step.spawn [where i = 0], simplified]
  note r4 = reachable.step [OF r3 server_step.start [where k = "Suc (length as)" and i = 0]]
  show ?thesis using r4 by (simp add: nth_append list_update_append example_server_def taken_def)
qed

lemma run_init: "reachable excl \<lparr>srv = example_server cleared_client, fds = {}, agents = [Accepting]\<rparr>"
  by (rule reachable.init) (simp add: example_server_def SERVER_MAXCLIENTS_def numeral_eq_Suc)

theorem server_slots_exclusive_witness:
  "\<exists>S. reachable True S \<and> agents S = [Accepting, Serving 0 5] \<and> 5 \<in> fds S \<and> client_idx (g_clients (srv S) ! 0) = 0"
proof -
  note r = run_accept [OF run_init [of True], of 5, simplified, simplified cleared_client_def, simplified]
  show ?thesis using server_slots_exclusive [OF r, of 1 0 5] r by auto
qed

text \<open>
  C37: without that condition clients do share slots. The slot of a leaving client is free for the
  accepting thread before the leaving thread has closed and cleared it, so the leaving thread can
  close the connection of the next client and clear its slot, and the slot goes to yet another
  client: two threads serve different clients on one slot, one of them on a closed connection.
\<close>

theorem free_client_race:
  "\<exists>S j k fd fd'. reachable False S \<and> j < length (agents S) \<and> k < length (agents S) \<and> j \<noteq> k
     \<and> agents S ! j = Serving 0 fd \<and> agents S ! k = Serving 0 fd' \<and> fd \<notin> fds S"
proof -
  have c: "active cleared_client = 0" by (simp add: cleared_client_def)
  have m: "free_mark 0 (example_server x) = example_server (x\<lparr>active := 0\<rparr>)" for x by (simp add: free_mark_def set_example)
  have k: "keeps_slots s s" for s by (simp add: keeps_slots_def)
  have f: "sv_fd (g_clients (example_server (taken 1 fd)) ! 0) = fd" "debugging (g_clients (example_server (taken 1 fd)) ! 0) = 0" for fd
    by (simp_all add: example_server_def taken_def cleared_client_def)
  have "reachable False \<lparr>srv = example_server (taken 1 5), fds = {5}, agents = [Accepting, Serving 0 5]\<rparr>"
    using run_accept [OF run_init c, of 5] by simp
  note r1 = reachable.step [OF this server_step.mark [where k = 1 and i = 0 and fd = 5], simplified, unfolded m]
  have "active (taken 1 5\<lparr>active := 0\<rparr>) = 0" by simp
  from run_accept [OF r1 [simplified] this, of 6]
  have "reachable False \<lparr>srv = example_server (taken 1 6), fds = {5, 6}, agents = [Accepting, Marked 0, Serving 0 6]\<rparr>"
    by (simp add: insert_commute)
  note r2 = reachable.step [OF this server_step.close [where k = 1 and i = 0 and teardown = "\<lambda>_ s. s"], simplified, OF refl, simplified free_teardown_def f k, simplified]
  note r3 = reachable.step [OF r2 server_step.clear [where k = 1 and i = 0], simplified, unfolded free_clear_def set_example]
  from run_accept [OF r3 [simplified] c, of 7]
  have "reachable False \<lparr>srv = example_server (taken 1 7), fds = {5, 7}, agents = [Accepting, Gone, Serving 0 6, Serving 0 7]\<rparr>"
    by (simp add: insert_commute k)
  then show ?thesis
    by (intro exI [of _ "\<lparr>srv = example_server (taken 1 7), fds = {5, 7}, agents = [Accepting, Gone, Serving 0 6, Serving 0 7]\<rparr>"]
        exI [of _ 2] exI [of _ 3] exI [of _ 6] exI [of _ 7]) simp
qed

end
