(* ===== verification/Server.thy ===== *)
theory Server
  imports Reader Protocol Clients "HOL-Library.Monad_Syntax"
begin

text \<open>
  The request loop of a client's thread (\<^verbatim>\<open>handle_client\<close> in \<^verbatim>\<open>debugger/source/main.c\<close>), the
  dispatch of commands (\<^verbatim>\<open>cmd_handler\<close> in \<^verbatim>\<open>debugger/source/meta.c\<close> and \<^verbatim>\<open>proc_handle\<close> in
  \<^verbatim>\<open>debugger/source/proc.c\<close>) and the small commands of \<^verbatim>\<open>meta.c\<close>.

  A handler is a function on the server's state and the client's connection; \<open>None\<close> stands for a
  handler that does not return. The locks taken around debugger commands are left out: the loop is
  the view of one thread.
\<close>

type_synonym ('s, 'c) handler = "cmd_packet \<Rightarrow> 's \<times> 'c \<Rightarrow> (int \<times> 's \<times> 'c) option"

section \<open>Small commands\<close>

definition ascii :: "string \<Rightarrow> byte list" where
  "ascii = map (\<lambda>ch. of_nat (of_char ch))"

definition handle_version :: "('s, 'c conn_scheme) handler" where
  "handle_version packet = (\<lambda>(s, c). let ver = ascii ''1.3'' in
     Some (0, s, send_all ver (send_all (le_bytes 4 (of_nat (length ver) :: u32)) c)))"

definition handle_branding :: "('s, 'c conn_scheme) handler" where
  "handle_branding packet = (\<lambda>(s, c). let brand = ascii ''ps5debug-NG by OSR v1.3.0'' @ [0] @ ascii ''1.0'' in
     Some (0, s, send_all brand (send_all (le_bytes 4 (of_nat (length brand) :: u32)) c)))"

definition handle_platform_id :: "('s, 'c conn_scheme) handler" where
  "handle_platform_id packet = (\<lambda>(s, c). Some (0, s, send_all (le_bytes 2 (5 :: u16)) c))"

definition fw_decimal :: "u32 \<Rightarrow> u16" where
  \<comment> \<open>the four hexadecimal digits of the version's upper half, read as a decimal number\<close>
  "fw_decimal fw =
     (let fw_high = ucast (drop_bit 16 fw) :: u16 in
      (drop_bit 12 fw_high AND 0xF) * 1000 + (drop_bit 8 fw_high AND 0xF) * 100
        + (drop_bit 4 fw_high AND 0xF) * 10 + (fw_high AND 0xF))"

definition handle_fw_version :: "u32 \<Rightarrow> ('s, 'c conn_scheme) handler" where
  "handle_fw_version fw packet = (\<lambda>(s, c). Some (0, s, send_all (le_bytes 2 (fw_decimal fw)) c))"

section \<open>Dispatch\<close>

text \<open>The handlers of the process commands, in the order of the table; those of the parallel scan
  also take the client's index.\<close>

record ('s, 'c) proc_ops =
  p_list :: "('s, 'c) handler"
  p_read :: "('s, 'c) handler"
  p_read_stack :: "('s, 'c) handler"
  p_assemble :: "('s, 'c) handler"
  p_write :: "('s, 'c) handler"
  p_write_multi :: "('s, 'c) handler"
  p_maps :: "('s, 'c) handler"
  p_install :: "('s, 'c) handler"
  p_call :: "('s, 'c) handler"
  p_elf :: "('s, 'c) handler"
  p_protect :: "('s, 'c) handler"
  p_scan :: "('s, 'c) handler"
  p_info :: "('s, 'c) handler"
  p_alloc :: "('s, 'c) handler"
  p_free :: "('s, 'c) handler"
  p_unknown_d :: "('s, 'c) handler"
  p_alloc_hinted :: "('s, 'c) handler"
  p_elf_rpc :: "('s, 'c) handler"
  p_disasm :: "('s, 'c) handler"
  p_xrefs :: "('s, 'c) handler"
  p_xrefs_to :: "('s, 'c) handler"
  p_scan_aob :: "('s, 'c) handler"
  p_scan_aob_multi :: "('s, 'c) handler"
  p_auth :: "('s, 'c) handler"
  p_scan_start :: "('s, 'c) handler"
  p_scan_count :: "('s, 'c) handler"
  p_scan_get :: "('s, 'c) handler"
  p_turbo_caps :: "('s, 'c) handler"
  p_turbo_start :: "byte \<Rightarrow> ('s, 'c) handler"
  p_turbo_count :: "byte \<Rightarrow> ('s, 'c) handler"
  p_turbo_get :: "byte \<Rightarrow> ('s, 'c) handler"
  p_turbo_end :: "byte \<Rightarrow> ('s, 'c) handler"
  p_turbo_config :: "('s, 'c) handler"
  p_turbo_regions :: "('s, 'c) handler"
  p_arena :: "('s, 'c) handler"

definition proc_table :: "('s, 'c) proc_ops \<Rightarrow> byte \<Rightarrow> (u32 \<times> ('s, 'c) handler) list" where
  "proc_table P idx =
     [(0xBDAA0001, p_list P), (0xBDAA0002, p_read P), (0xBDAA0023, p_read_stack P), (0xBDAA0024, p_assemble P),
      (0xBDAA0003, p_write P), (0xBDAACC04, p_write_multi P), (0xBDAA0004, p_maps P), (0xBDAA0005, p_install P),
      (0xBDAA0006, p_call P), (0xBDAA0007, p_elf P), (0xBDAA0008, p_protect P), (0xBDAA0009, p_scan P),
      (0xBDAA000A, p_info P), (0xBDAA000B, p_alloc P), (0xBDAA000C, p_free P), (0xBDAA000D, p_unknown_d P),
      (0xBDAA000E, p_alloc_hinted P), (0xBDAA0010, p_elf_rpc P), (0xBDAA0020, p_disasm P), (0xBDAA0021, p_xrefs P),
      (0xBDAA0022, p_xrefs_to P), (0xBDAA0501, p_scan_aob P), (0xBDAA0502, p_scan_aob_multi P), (0xBDAACCFF, p_auth P),
      (0xBDAACC01, p_scan_start P), (0xBDAACC02, p_scan_count P), (0xBDAACC03, p_scan_get P), (0xBDAACC10, p_turbo_caps P),
      (0xBDAACC11, p_turbo_start P idx), (0xBDAACC12, p_turbo_count P idx),
      (0xBDAACC13, p_turbo_get P idx), (0xBDAACC14, p_turbo_end P idx),
      (0xBDAACC15, p_turbo_config P), (0xBDAACC16, p_turbo_regions P), (0xBDAACC24, p_arena P)]"

definition proc_handle :: "('s, 'c conn_scheme) proc_ops \<Rightarrow> byte \<Rightarrow> ('s, 'c conn_scheme) handler" where
  "proc_handle P idx packet = (\<lambda>(s, c). case map_of (proc_table P idx) (cmd packet) of
       Some h \<Rightarrow> h packet (s, c)
     | None \<Rightarrow> Some (0, s, send_int32 CMD_ERROR c))"

text \<open>\<^verbatim>\<open>debug_handle\<close> is a weak symbol and may be absent.\<close>

record ('s, 'c) cmd_ops =
  h_fw :: u32
  h_proc :: "byte \<Rightarrow> ('s, 'c) handler"
  h_debug :: "('s, 'c) handler option"
  h_kern :: "('s, 'c) handler"
  h_console :: "('s, 'c) handler"

definition cmd_handler :: "('s, 'c conn_scheme) cmd_ops \<Rightarrow> cmd_packet \<Rightarrow> byte \<Rightarrow> 's \<times> 'c conn_scheme \<Rightarrow> (int \<times> 's \<times> 'c conn_scheme) option" where
  "cmd_handler H packet idx = (\<lambda>(s, c). let v = cmd packet in
     if \<not> VALID_CMD v then Some (1, s, c)
     else if v = 0xBD000001 then handle_version packet (s, c)
     else if v = 0xBD000500 then handle_fw_version (h_fw H) packet (s, c)
     else if v = 0xBD000501 then handle_branding packet (s, c)
     else if v = 0xBD000502 then handle_platform_id packet (s, c)
     else if v = 0xBDAACC06 then Some (0, s, send_int32 CMD_SUCCESS c)
     else if VALID_PROC_CMD v then h_proc H idx packet (s, c)
     else case if VALID_DEBUG_CMD v then h_debug H else None of
         Some h \<Rightarrow> h packet (s, c)
       | None \<Rightarrow>
         if VALID_KERN_CMD v then h_kern H packet (s, c)
         else if VALID_CONSOLE_CMD v then h_console H packet (s, c)
         else Some (0, s, c))"

section \<open>The request loop\<close>

definition PACKET_MAGIC :: u32 where "PACKET_MAGIC = 0xFFAABBCC"
definition CMD_DEBUG_ATTACH :: u32 where "CMD_DEBUG_ATTACH = 0xBDBB0001"

datatype turn = Again | Return int

text \<open>The body of a request: the outcome of the turn where it cannot be received, otherwise the data.\<close>

definition receive_body :: "u32 \<Rightarrow> 'c conn_scheme \<Rightarrow> (turn + ptr option) \<times> 'c conn_scheme" where
  "receive_body len c =
     (if len = 0 then (Inr None, c)
      else if len > 0x100000 then (Inl Again, send_int32 CMD_ERROR c)
      else case malloc c of
          (None, c) \<Rightarrow> (Inl Again, send_int32 CMD_DATA_NULL c)
        | (Some d, c) \<Rightarrow> (case net_recv_all d (int (unat len)) 1 c of
              (rc, d, c) \<Rightarrow> if rc < 0 then (Inl (Return 0), c) else (Inr (Some d), c)))"

definition note_attach :: "nat \<Rightarrow> u32 \<Rightarrow> 'z server_scheme \<Rightarrow> 'z server_scheme" where
  \<comment> \<open>the client that asks to debug becomes the current one unless there is one\<close>
  "note_attach i v s = (if g_debug_attached s = 0 \<and> v = CMD_DEBUG_ATTACH then s\<lparr>curdbgcli := Some i\<rparr> else s)"

text \<open>One turn with data on the socket. \<open>dde\<close> is \<^verbatim>\<open>dispatch_debug_events\<close>, \<open>reset\<close> whether
  \<^verbatim>\<open>errno\<close> is \<^verbatim>\<open>ECONNRESET\<close> after the calls of the turn.\<close>

definition client_request ::
    "(cmd_packet \<Rightarrow> byte \<Rightarrow> 'z server_scheme \<times> 'c conn_scheme \<Rightarrow> (int \<times> 'z server_scheme \<times> 'c conn_scheme) option)
      \<Rightarrow> ('z server_scheme \<Rightarrow> (int \<times> 'z server_scheme) option) \<Rightarrow> bool \<Rightarrow> nat
      \<Rightarrow> 'z server_scheme \<times> 'c conn_scheme \<Rightarrow> (turn \<times> 'z server_scheme \<times> 'c conn_scheme) option" where
  "client_request h dde reset i = (\<lambda>(s, c). case net_recv_all (of_list []) 12 1 c of (rc, p, c) \<Rightarrow>
     if rc < 0 then Some (Return 0, s, c)
     else if reset then Some (Return 0, s, c)
     else if ld32 p \<noteq> PACKET_MAGIC then Some (Again, s, c)
     else case receive_body (ld32 (shift p 8)) c of
         (Inl t, c) \<Rightarrow> Some (t, s, c)
       | (Inr d, c) \<Rightarrow>
         let s = note_attach i (ld32 (shift p 4)) s;
             packet = \<lparr>magic = ld32 p, cmd = ld32 (shift p 4), datalen = ld32 (shift p 8), data = d\<rparr>
         in do {
           (rc, s, c) \<leftarrow> h packet (client_idx (g_clients s ! i)) (s, c);
           if rc \<noteq> 0 then Some (Return rc, s, c)
           else if debugging (g_clients s ! i) \<noteq> 0 \<and> g_stopgo_resume_signal s \<noteq> 0xFFFFFFFF
           then do { (r, s) \<leftarrow> dde s; Some (if r \<noteq> 0 then Return 0 else Again, s, c) }
           else Some (Again, s, c)
         })"

definition client_idle ::
    "('z server_scheme \<Rightarrow> (int \<times> 'z server_scheme) option) \<Rightarrow> bool \<Rightarrow> nat \<Rightarrow> 'z server_scheme \<Rightarrow> (turn \<times> 'z server_scheme) option" where
  "client_idle dde reset i s = do {
     (r, s) \<leftarrow> (if debugging (g_clients s ! i) \<noteq> 0 then dde s else Some (0, s));
     Some (if r \<noteq> 0 \<or> reset then Return 0 else Again, s)
   }"

text \<open>The loop; \<open>ready k\<close> is what \<^verbatim>\<open>select\<close> says in turn \<open>k\<close>.\<close>

partial_function (option) handle_client ::
    "(cmd_packet \<Rightarrow> byte \<Rightarrow> 'z server_scheme \<times> 'c conn_scheme \<Rightarrow> (int \<times> 'z server_scheme \<times> 'c conn_scheme) option)
      \<Rightarrow> ('z server_scheme \<Rightarrow> (int \<times> 'z server_scheme) option) \<Rightarrow> (nat \<Rightarrow> bool) \<Rightarrow> (nat \<Rightarrow> bool) \<Rightarrow> nat \<Rightarrow> nat
      \<Rightarrow> 'z server_scheme \<Rightarrow> 'c conn_scheme \<Rightarrow> (int \<times> 'z server_scheme \<times> 'c conn_scheme) option" where
  "handle_client h dde ready reset i k s c = do {
     (t, s, c) \<leftarrow> (if ready k then client_request h dde (reset k) i (s, c)
                   else map_option (\<lambda>(t, s). (t, s, c)) (client_idle dde (reset k) i s));
     (case t of Return rc \<Rightarrow> Some (rc, s, c) | Again \<Rightarrow> handle_client h dde ready reset i (Suc k) s c)
   }"

section \<open>Sessions\<close>

text \<open>A request as the client sends it: the command and the body.\<close>

type_synonym request = "u32 \<times> byte list"

definition request_wire :: "request \<Rightarrow> byte list" where
  "request_wire r = le_bytes 4 PACKET_MAGIC @ le_bytes 4 (fst r) @ le_bytes 4 (of_nat (length (snd r)) :: u32) @ snd r"

definition carries :: "ptr option \<Rightarrow> byte list \<Rightarrow> bool" where
  "carries d body \<longleftrightarrow> (case d of None \<Rightarrow> body = [] | Some p \<Rightarrow> body \<noteq> [] \<and> bytes_at p 0 (length body) = body)"

text \<open>What a handler promises for a request: whatever the connection, it consumes \<open>ins\<close> after the
  request, sends \<open>outs\<close> and takes the server from \<open>s\<close> to a state in \<open>R\<close>.\<close>

definition answers ::
    "(cmd_packet \<Rightarrow> byte \<Rightarrow> 's \<times> 'c conn_scheme \<Rightarrow> (int \<times> 's \<times> 'c conn_scheme) option) \<Rightarrow> byte \<Rightarrow> request
      \<Rightarrow> 's \<Rightarrow> byte list \<Rightarrow> byte list \<Rightarrow> ('s \<Rightarrow> bool) \<Rightarrow> bool" where
  "answers h idx r s ins outs R \<longleftrightarrow> (\<forall>c d rest. quiet c \<and> rx c = ins @ rest \<and> carries d (snd r) \<longrightarrow>
     (\<exists>s' c'. h \<lparr>magic = PACKET_MAGIC, cmd = fst r, datalen = of_nat (length (snd r)), data = d\<rparr> idx (s, c) = Some (0, s', c')
        \<and> R s' \<and> io c ins outs c'))"

text \<open>A sequence of requests with their inputs and replies that leads from \<open>s\<close> to a state in \<open>Q\<close>.\<close>

inductive session ::
    "(cmd_packet \<Rightarrow> byte \<Rightarrow> 'z server_scheme \<times> 'c conn_scheme \<Rightarrow> (int \<times> 'z server_scheme \<times> 'c conn_scheme) option) \<Rightarrow> nat
      \<Rightarrow> ('z server_scheme \<Rightarrow> bool) \<Rightarrow> (request \<times> byte list \<times> byte list) list \<Rightarrow> 'z server_scheme \<Rightarrow> bool" for h i Q where
  closed: "Q s \<Longrightarrow> session h i Q [] s"
| request: "\<lbrakk>s0 = note_attach i (fst r) s; answers h (client_idx (g_clients s0 ! i)) r s0 ins outs R; length (snd r) \<le> 0x100000;
     \<forall>s1. R s1 \<longrightarrow> debugging (g_clients s1 ! i) = 0; \<forall>s1. R s1 \<longrightarrow> session h i Q xs s1\<rbrakk> \<Longrightarrow> session h i Q ((r, ins, outs) # xs) s"

lemma request_header:
  assumes "length body \<le> 0x100000"
  shows "ld32 (blit p 0 (le_bytes 4 m @ le_bytes 4 v @ le_bytes 4 (of_nat (length body) :: u32))) = m"
    "ld32 (shift (blit p 0 (le_bytes 4 m @ le_bytes 4 v @ le_bytes 4 (of_nat (length body) :: u32))) 4) = v"
    "ld32 (shift (blit p 0 (le_bytes 4 m @ le_bytes 4 v @ le_bytes 4 (of_nat (length body) :: u32))) 8) = of_nat (length body)"
    "unat (of_nat (length body) :: u32) = length body"
  by (rule le_load_le_bytes, simp, simp add: blit_def nth_append)+
     (use assms in \<open>simp add: unat_of_nat\<close>)

lemma receive_body_ok:
  assumes "quiet c" "rx c = body @ rest" "length body \<le> 0x100000"
  obtains d c' where "receive_body (of_nat (length body)) c = (Inr d, c')" "carries d body" "io c body [] c'" "rx c' = rest"
proof (cases "body = []")
  case True
  then show thesis using that [of None c] assms(2) by (simp add: receive_body_def carries_def)
next
  case False
  have u: "unat (of_nat (length body) :: u32) = length body" by (rule request_header(4) [OF assms(3)])
  then have l: "of_nat (length body) \<noteq> (0 :: u32)" "\<not> of_nat (length body) > (0x100000 :: u32)"
    using False assms(3) by (auto simp: unat_eq_0 [symmetric] word_less_nat_alt)
  let ?c = "c\<lparr>nalloc := nalloc c + 1\<rparr>" and ?p = "junk c (nalloc c)"
  obtain d where d: "net_recv_all ?p (int (length body)) 1 ?c = (0, blit ?p 0 body, d)" "io ?c body [] d" "rx d = rest"
    using net_recv_quiet [of ?c body rest "int (length body)" ?p] assms by auto
  have m: "malloc c = (Some ?p, ?c)" using assms(1) by (simp add: malloc_def quiet_def)
  have "receive_body (of_nat (length body)) c = (Inr (Some (blit ?p 0 body)), d)"
    using l d(1) by (simp add: receive_body_def m u)
  moreover have "io c body [] d" using io_trans [OF io_nalloc d(2)] by simp
  ultimately show thesis using that d(3) False by (auto simp: carries_def)
qed

lemma client_request_ok:
  assumes q: "quiet c" and w: "rx c = request_wire r @ ins @ rest" and len: "length (snd r) \<le> 0x100000"
    and a: "s0 = note_attach i (fst r) s" "answers h (client_idx (g_clients s0 ! i)) r s0 ins outs R" "\<forall>s1. R s1 \<longrightarrow> debugging (g_clients s1 ! i) = 0"
  shows "\<exists>s1 c'. client_request h dde False i (s, c) = Some (Again, s1, c') \<and> R s1 \<and> io c (request_wire r @ ins) outs c'"
proof -
  let ?h = "le_bytes 4 PACKET_MAGIC @ le_bytes 4 (fst r) @ le_bytes 4 (of_nat (length (snd r)) :: u32)"
  obtain c1 where 1: "net_recv_all (of_list []) 12 1 c = (0, blit (of_list []) 0 ?h, c1)" "io c ?h [] c1" "rx c1 = snd r @ ins @ rest"
    using net_recv_quiet [OF q, of ?h "snd r @ ins @ rest" 12 "of_list []"] w by (auto simp: request_wire_def)
  have q1: "quiet c1" using io_fields(1) [OF 1(2)] q by simp
  obtain d c2 where 2: "receive_body (of_nat (length (snd r))) c1 = (Inr d, c2)" "carries d (snd r)" "io c1 (snd r) [] c2" "rx c2 = ins @ rest"
    by (rule receive_body_ok [OF q1 1(3) len])
  have q2: "quiet c2" using io_fields(1) [OF 2(3)] q1 by simp
  obtain s1 c3 where 3: "h \<lparr>magic = PACKET_MAGIC, cmd = fst r, datalen = of_nat (length (snd r)), data = d\<rparr> (client_idx (g_clients s0 ! i)) (s0, c2)
      = Some (0, s1, c3)" "R s1" "io c2 ins outs c3"
    using a(2) q2 2(2,4) unfolding answers_def by blast
  have "client_request h dde False i (s, c) = Some (Again, s1, c3)"
    using 1(1) 2(1) 3(1,2) a(1,3) request_header(1-3) [OF len, of "of_list []" PACKET_MAGIC "fst r"] by (simp add: client_request_def Let_def)
  moreover have "io c (request_wire r @ ins) outs c3"
    using io_trans [OF 1(2) io_trans [OF 2(3) 3(3)]] by (simp add: request_wire_def)
  ultimately show ?thesis using 3(2) by blast
qed

lemma recv_eof: "rx c = [] \<Longrightarrow> 0 < len \<Longrightarrow> \<exists>c'. net_recv_all p len 1 c = (-1, p, c') \<and> io c [] [] c'"
  unfolding net_recv_all_def
  by (subst recv_loop.simps) (auto simp: Let_def intro!: io_intro [where a = "nsend c" and b = "nrecv c + 1" and n = "nalloc c" and r = "[]"])

lemma serves:
  assumes "session h i Q xs s" "quiet c" "rx c = concat (map (\<lambda>(r, ins, outs). request_wire r @ ins) xs)" "\<forall>k. ready k" "\<forall>k. \<not> reset k"
  shows "\<exists>s' c'. handle_client h dde ready reset i k s c = Some (0, s', c') \<and> Q s' \<and> io c (rx c) (concat (map (\<lambda>(r, ins, outs). outs) xs)) c'"
  using assms
proof (induction arbitrary: c k rule: session.induct)
  case (closed s)
  obtain d where "net_recv_all (of_list []) 12 1 c = (-1, of_list [], d)" "io c [] [] d" using recv_eof [of c 12] closed.prems(2) by auto
  then have "handle_client h dde ready reset i k s c = Some (0, s, d)"
    using closed.prems(3,4) by (subst handle_client.simps) (simp add: client_request_def)
  then show ?case using closed.hyps closed.prems(2) \<open>io c [] [] d\<close> by auto
next
  case (request s0 r s ins outs R xs)
  let ?rest = "concat (map (\<lambda>(r, ins, outs). request_wire r @ ins) xs)"
  obtain s1 c1 where 1: "client_request h dde False i (s, c) = Some (Again, s1, c1)" "R s1" "io c (request_wire r @ ins) outs c1"
    using client_request_ok [OF request.prems(1) _ request.hyps(3,1,2,4), of ?rest dde] request.prems(2) by auto
  have c1: "quiet c1" "rx c1 = ?rest" using io_fields(1,2) [OF 1(3)] request.prems(1,2) by auto
  obtain s2 c2 where 2: "handle_client h dde ready reset i (Suc k) s1 c1 = Some (0, s2, c2)" "Q s2"
      "io c1 (rx c1) (concat (map (\<lambda>(r, ins, outs). outs) xs)) c2"
    using request.IH 1(2) c1 request.prems(3,4) by blast
  have "handle_client h dde ready reset i k s c = Some (0, s2, c2)"
    using request.prems(3,4) 1(1) 2(1) by (subst handle_client.simps) simp
  moreover have "io c (rx c) (outs @ concat (map (\<lambda>(r, ins, outs). outs) xs)) c2"
    using io_trans [OF 1(3) 2(3)] c1(2) request.prems(2) by simp
  ultimately show ?case using 2(2) by auto
qed

text \<open>
  C3: a client's thread serves its requests. If the client sends requests one after the other, each
  followed by the input its handler reads, and closes the connection, then the loop hands every
  request to the dispatcher once and in order, with its command, its body and the index of the
  client's slot; the client gets the handlers' replies in this order and nothing else, and the
  loop ends.
\<close>

theorem handle_client_serves:
  assumes "session h i Q xs s" "quiet c" "rx c = concat (map (\<lambda>(r, ins, outs). request_wire r @ ins) xs)" "\<forall>k. ready k" "\<forall>k. \<not> reset k"
  shows "\<exists>s' c'. handle_client h dde ready reset i k s c = Some (0, s', c') \<and> Q s' \<and> io c (rx c) (concat (map (\<lambda>(r, ins, outs). outs) xs)) c'"
  by (rule serves [OF assms])

lemma answers_version:
  "answers (cmd_handler H) idx (0xBD000001, []) s [] (le_bytes 4 (3 :: u32) @ ascii ''1.3'') (\<lambda>s'. s' = s)"
  unfolding answers_def
proof (intro allI impI)
  fix c :: "'b conn_scheme" and d rest assume "quiet c \<and> rx c = [] @ rest \<and> carries d (snd (0xBD000001 :: u32, []))"
  then have "io c [] (le_bytes 4 (3 :: u32) @ ascii ''1.3'') (send_all (ascii ''1.3'') (send_all (le_bytes 4 (3 :: u32)) c))"
    using io_trans [OF io_send_all [of c "le_bytes 4 (3 :: u32)"] io_send_all [of "send_all (le_bytes 4 (3 :: u32)) c" "ascii ''1.3''"]] by simp
  then show "\<exists>s' c'. cmd_handler H \<lparr>magic = PACKET_MAGIC, cmd = fst (0xBD000001, []), datalen = of_nat (length (snd (0xBD000001 :: u32, []))), data = d\<rparr> idx (s, c)
      = Some (0, s', c') \<and> s' = s \<and> io c [] (le_bytes 4 (3 :: u32) @ ascii ''1.3'') c'"
    by (simp add: cmd_handler_def VALID_CMD_def handle_version_def ascii_def drop_bit_eq_div)
qed

theorem handle_client_serves_witness:
  "\<exists>c'. handle_client (cmd_handler \<lparr>h_fw = 0, h_proc = \<lambda>_ _ _. None, h_debug = None, h_kern = \<lambda>_ _. None, h_console = \<lambda>_ _. None\<rparr>)
      (\<lambda>_. None) (\<lambda>_. True) (\<lambda>_. False) 0 0 (example_server (taken 1 5))
      (example_conn\<lparr>rx := request_wire (0xBD000001, []) @ request_wire (0xBD000001, [])\<rparr>) = Some (0, example_server (taken 1 5), c')
    \<and> tx c' = [3, 0, 0, 0, 0x31, 0x2E, 0x33, 3, 0, 0, 0, 0x31, 0x2E, 0x33]"
proof -
  let ?H = "\<lparr>h_fw = 0, h_proc = \<lambda>_ _ _. None, h_debug = None, h_kern = \<lambda>_ _. None, h_console = \<lambda>_ _. None\<rparr>"
  let ?s = "example_server (taken 1 5)" and ?v = "((0xBD000001 :: u32, [] :: byte list), [] :: byte list, le_bytes 4 (3 :: u32) @ ascii ''1.3'')"
  have n: "note_attach 0 0xBD000001 ?s = ?s" by (simp add: note_attach_def CMD_DEBUG_ATTACH_def)
  have d: "debugging (g_clients ?s ! 0) = 0" by (simp add: example_server_def taken_def cleared_client_def)
  have le: "le_bytes 4 (3 :: u32) = [3, 0, 0, 0]" by code_simp
  have "session (cmd_handler ?H) 0 (\<lambda>s. s = ?s) [?v, ?v] ?s"
    by (intro session.request [where R = "\<lambda>s'. s' = ?s" and ?s0.0 = ?s] allI impI) (simp_all add: n d answers_version session.closed session.request [where R = "\<lambda>s'. s' = ?s" and ?s0.0 = ?s])
  from handle_client_serves [OF this, of "example_conn\<lparr>rx := request_wire (0xBD000001, []) @ request_wire (0xBD000001, [])\<rparr>" "\<lambda>_. True" "\<lambda>_. False" "\<lambda>_. None" 0]
  show ?thesis
    by (auto simp: quiet_def send_live_def recv_live_def example_conn_def ascii_def le dest!: io_fields(3))
qed

end
