(* ===== verification/KernCmds.thy ===== *)
theory KernCmds
  imports Kernel Server
begin

text \<open>
  The kernel commands, \<^verbatim>\<open>debugger/source/kern.c\<close>: the base address of the kernel's data and
  reads and writes of kernel memory on behalf of the client.
\<close>

record cmd_kern_packet =
  kp_address :: u64
  kp_length :: u32

definition kern_packet :: "ptr \<Rightarrow> cmd_kern_packet" where
  "kern_packet p = \<lparr>kp_address = ld64 p, kp_length = ld32 (shift p 8)\<rparr>"

definition kern_base_handle :: "u64 \<Rightarrow> ('k, 'c conn_scheme) handler" where
  "kern_base_handle kbase packet = (\<lambda>(k, c). Some (0, k, send_all (le_bytes 8 kbase) (send_int32 CMD_SUCCESS c)))"

text \<open>The length is an \<^verbatim>\<open>int\<close> for the transport, and the result of the copy is not looked at.\<close>

definition kern_read_handle :: "'k copyout \<Rightarrow> ('k, 'c conn_scheme) handler" where
  "kern_read_handle out packet = (\<lambda>(k, c). case data packet of
       None \<Rightarrow> Some (0, k, send_int32 CMD_DATA_NULL c)
     | Some dp \<Rightarrow>
       let p = kern_packet dp; len = kp_length p in
       (case net_alloc_buffer (unat len) c of
          (None, c) \<Rightarrow> Some (1, k, send_int32 CMD_DATA_NULL c)
        | (Some buf, c) \<Rightarrow>
          let (_, bs, k) = out (kp_address p) (bytes_at buf 0 (unat len)) k
          in Some (0, k, snd (net_send_all (of_list bs) (sint len) (send_int32 CMD_SUCCESS c)))))"

definition kern_write_handle :: "'k copyin \<Rightarrow> ('k, 'c conn_scheme) handler" where
  "kern_write_handle inn packet = (\<lambda>(k, c). case data packet of
       None \<Rightarrow> Some (0, k, send_int32 CMD_DATA_NULL c)
     | Some dp \<Rightarrow>
       let p = kern_packet dp; len = kp_length p in
       (case net_alloc_buffer (unat len) c of
          (None, c) \<Rightarrow> Some (1, k, send_int32 CMD_DATA_NULL c)
        | (Some buf, c) \<Rightarrow>
          let (buf, c) = recv_all buf (sint len) (send_int32 CMD_SUCCESS c);
              (_, k) = inn (bytes_at buf 0 (unat len)) (kp_address p) k
          in Some (0, k, send_int32 CMD_SUCCESS c)))"

definition kern_handle :: "'k copyout \<Rightarrow> 'k copyin \<Rightarrow> u64 \<Rightarrow> ('k, 'c conn_scheme) handler" where
  "kern_handle out inn kbase packet = (\<lambda>(k, c).
     if cmd packet = 0xBDCC0001 then kern_base_handle kbase packet (k, c)
     else if cmd packet = 0xBDCC0002 then kern_read_handle out packet (k, c)
     else if cmd packet = 0xBDCC0003 then kern_write_handle inn packet (k, c)
     else Some (1, k, c))"

section \<open>Properties\<close>

lemma sint_small: "unat (n :: u32) < 2 ^ 31 \<Longrightarrow> sint n = int (unat n)"
proof -
  assume "unat n < 2 ^ 31"
  then have "int (unat n) < int (2 ^ 31)" by (simp only: of_nat_less_iff)
  then have "uint n < 2 ^ 31" by simp
  moreover have "- (2 ^ 31) \<le> uint n" by (rule order_trans [OF _ uint_ge_0]) simp
  ultimately have "signed_take_bit 31 (uint n) = uint n" by (intro signed_take_bit_int_eq_self)
  then show "sint n = int (unat n)" by (simp add: sint_uint)
qed

context reliable_kernel
begin

lemma kern_read_ok:
  assumes "quiet c" "view k m" "cmd packet = 0xBDCC0002" "data packet = Some dp" "p = kern_packet dp"
    and "0 < unat (kp_length p)" "unat (kp_length p) < 2 ^ 31" "safe (kp_address p) (unat (kp_length p))"
  shows "\<exists>k' c'. kern_handle out inn kbase packet (k, c) = Some (0, k', c') \<and> view k' m
    \<and> io c [] (status CMD_SUCCESS @ peek m (kp_address p) (unat (kp_length p))) c'"
proof -
  obtain b d where d: "net_alloc_buffer (unat (kp_length p)) c = (Some b, d)" "io c [] [] d" using io_alloc assms(1,6) by blast
  obtain k' where k: "out (kp_address p) (bytes_at b 0 (unat (kp_length p))) k = (0, peek m (kp_address p) (unat (kp_length p)), k')" "view k' m"
    using out_peek [OF assms(2), of "kp_address p" "bytes_at b 0 (unat (kp_length p))"] assms(8) by auto
  have q: "quiet d" using io_fields(1) [OF d(2)] assms(1) by simp
  let ?e = "send_all (peek m (kp_address p) (unat (kp_length p))) (send_int32 CMD_SUCCESS d)"
  have "kern_handle out inn kbase packet (k, c) = Some (0, k', ?e)"
    using assms(3-5) d(1) k(1) sint_small [OF assms(7)] by (simp add: kern_handle_def kern_read_handle_def send_all_def Let_def)
  moreover have "io c [] (status CMD_SUCCESS @ peek m (kp_address p) (unat (kp_length p))) ?e"
    using io_trans [OF d(2) io_trans [OF io_send_int32 [OF q] io_send_all]] q by simp
  ultimately show ?thesis using k(2) by blast
qed

lemma kern_write_ok:
  assumes "quiet c" "view k m" "cmd packet = 0xBDCC0003" "data packet = Some dp" "p = kern_packet dp"
    and "0 < length bs" "unat (kp_length p) = length bs" "length bs < 2 ^ 31" "safe (kp_address p) (length bs)" "rx c = bs @ rest"
  shows "\<exists>k' c'. kern_handle out inn kbase packet (k, c) = Some (0, k', c') \<and> view k' (poke m (kp_address p) bs)
    \<and> io c bs (status CMD_SUCCESS @ status CMD_SUCCESS) c'"
proof -
  obtain b d where d: "net_alloc_buffer (unat (kp_length p)) c = (Some b, d)" "io c [] [] d" using io_alloc assms(1,6,7) by metis
  have q: "quiet d" "rx d = bs @ rest" using io_fields(1,2) [OF d(2)] assms(1,10) by simp_all
  obtain e where e: "recv_all b (int (length bs)) (send_int32 CMD_SUCCESS d) = (blit b 0 bs, e)" "io (send_int32 CMD_SUCCESS d) bs [] e"
    using io_recv [of "send_int32 CMD_SUCCESS d" bs rest "int (length bs)" b] q by auto
  obtain k' where k: "inn bs (kp_address p) k = (0, k')" "view k' (poke m (kp_address p) bs)" using inn_poke [OF assms(2,9)] by blast
  have s: "sint (kp_length p) = int (length bs)" using sint_small [of "kp_length p"] assms(7,8) by simp
  have qe: "quiet e" using io_fields(1) [OF e(2)] q(1) by simp
  have "kern_handle out inn kbase packet (k, c) = Some (0, k', send_int32 CMD_SUCCESS e)"
    using assms(3-5,7) d(1) e(1) k(1) s by (simp add: kern_handle_def kern_write_handle_def Let_def)
  moreover have "io c bs (status CMD_SUCCESS @ status CMD_SUCCESS) (send_int32 CMD_SUCCESS e)"
    using io_trans [OF d(2) io_trans [OF io_send_int32 [OF q(1)] io_trans [OF e(2) io_send_int32 [OF qe]]]] by simp
  ultimately show ?thesis using k(2) by blast
qed

end

text \<open>
  C38: kernel memory over the wire. A write of 1 to 0x7FFFFFFF bytes stores exactly the bytes the
  client sends and is answered by two success words; a read of the same range afterwards answers
  the success word and exactly these bytes.
\<close>

theorem kern_write_read:
  assumes "reliable_kernel out inn view safe" "quiet c" "view k m" "cmd wr = 0xBDCC0003" "data wr = Some wp" "cmd rd = 0xBDCC0002" "data rd = Some rp"
    and "p = kern_packet wp" "kern_packet rp = p" "0 < length bs" "unat (kp_length p) = length bs" "length bs < 2 ^ 31"
    and "safe (kp_address p) (length bs)" "rx c = bs @ rest"
  shows "\<exists>k1 c1 k2 c2. kern_handle out inn kbase wr (k, c) = Some (0, k1, c1) \<and> view k1 (poke m (kp_address p) bs)
    \<and> kern_handle out inn kbase rd (k1, c1) = Some (0, k2, c2)
    \<and> io c bs (status CMD_SUCCESS @ status CMD_SUCCESS @ status CMD_SUCCESS @ bs) c2"
proof -
  note rk = assms(1)
  obtain k1 c1 where 1: "kern_handle out inn kbase wr (k, c) = Some (0, k1, c1)" "view k1 (poke m (kp_address p) bs)"
      "io c bs (status CMD_SUCCESS @ status CMD_SUCCESS) c1"
    using reliable_kernel.kern_write_ok [OF rk assms(2,3,4,5,8,10,11,12,13,14), of kbase] by blast
  have q: "quiet c1" using io_fields(1) [OF 1(3)] assms(2) by simp
  obtain k2 c2 where 2: "kern_handle out inn kbase rd (k1, c1) = Some (0, k2, c2)"
      "io c1 [] (status CMD_SUCCESS @ peek (poke m (kp_address p) bs) (kp_address p) (length bs)) c2"
    using reliable_kernel.kern_read_ok [OF rk q 1(2) assms(6,7) assms(9) [symmetric], of kbase] assms(10-13) by auto
  have "peek (poke m (kp_address p) bs) (kp_address p) (length bs) = bs" using assms(12) by (intro peek_poke_same) simp
  then have "io c bs (status CMD_SUCCESS @ status CMD_SUCCESS @ status CMD_SUCCESS @ bs) c2" using io_trans [OF 1(3) 2(2)] by simp
  with 1 2 show ?thesis by blast
qed

definition kern_body :: ptr where
  \<comment> \<open>address 0x300, length 2\<close>
  "kern_body = of_list [0, 3, 0, 0, 0, 0, 0, 0, 2, 0, 0, 0]"

definition kern_request :: "u32 \<Rightarrow> cmd_packet" where
  "kern_request v = \<lparr>magic = PACKET_MAGIC, cmd = v, datalen = 12, data = Some kern_body\<rparr>"

theorem kern_write_read_witness:
  "\<exists>k1 c1 k2 c2. kern_handle flat_out flat_in 0 (kern_request 0xBDCC0003) (\<lambda>_. 0, example_conn\<lparr>rx := [7, 8]\<rparr>) = Some (0, k1, c1)
     \<and> k1 0x301 = 8 \<and> kern_handle flat_out flat_in 0 (kern_request 0xBDCC0002) (k1, c1) = Some (0, k2, c2)"
proof -
  have p: "kern_packet kern_body = \<lparr>kp_address = 0x300, kp_length = 2\<rparr>"
    by (simp add: kern_packet_def kern_body_def le_simps of_list_def)
  have q: "quiet (example_conn\<lparr>rx := [7, 8]\<rparr>)" by (simp add: quiet_def send_live_def recv_live_def example_conn_def)
  have "poke (\<lambda>_. 0) 0x300 [7, 8] 0x301 = 8" by (simp add: poke_def)
  then show ?thesis
    using kern_write_read [where view = "(=)" and bs = "[7, 8]" and k = "\<lambda>_. 0" and p = "kern_packet kern_body" and wr = "kern_request 0xBDCC0003" and wp = kern_body and rd = "kern_request 0xBDCC0002" and rp = kern_body and rest = "[]" and kbase = 0,
        OF flat_kernel.reliable_kernel_axioms q refl]
    by (auto simp: kern_request_def p)
qed

end
