(* ===== verification/DebugOps.thy ===== *)
theory DebugOps
  imports Clients Target Protocol KernProc "HOL-Library.Monad_Syntax"
begin

text \<open>
  The debugger core, \<^verbatim>\<open>debugger/source/debug.c\<close>, lines 33 to 343: its state, the caches, resuming an
  application and the search for threads that hang on a breakpoint.

  The core talks to the system through a few operations, gathered in \<open>dbg_ops\<close>: system calls, which
  are parameters, and the operations of the other components (process memory, registers of a
  thread, elevation of privileges) on the state \<open>'s\<close> of everything below the core. A result of
  \<open>None\<close> stands for a call that does not return, because a list in the kernel is circular, a wait
  never ends or a null pointer is followed.
\<close>

section \<open>Operations\<close>

datatype ptrace_op =
    PT_STEP | PT_CONTINUE | PT_ATTACH | PT_DETACH | PT_LWPINFO | PT_GETNUMLWPS | PT_GETLWPLIST | PT_SUSPEND | PT_RESUME
  | PT_GETREGS | PT_SETREGS | PT_GETFPREGS | PT_SETFPREGS | PT_GETDBREGS | PT_SETDBREGS

record elev_state =
  saved_authid :: u64
  saved_caps :: "byte list"

type_synonym ('a, 's) act = "'s \<Rightarrow> ('a \<times> 's) option"

text \<open>\<open>d_ptrace\<close> takes the operation, the process or thread, the buffer at \<^verbatim>\<open>addr\<close> and \<^verbatim>\<open>data\<close>; it
  gives the result, the buffer afterwards and the value of \<^verbatim>\<open>errno\<close> if it sets it. \<open>d_wait4\<close> gives
  the result and the status. The register operations take process, thread and buffer.\<close>

record 's dbg_ops =
  d_ptrace :: "ptrace_op \<Rightarrow> u32 \<Rightarrow> byte list \<Rightarrow> int \<Rightarrow> (int \<times> byte list \<times> int option, 's) act"
  d_kill :: "u32 \<Rightarrow> int \<Rightarrow> 's \<Rightarrow> 's"
  d_wait4 :: "u32 \<Rightarrow> int \<Rightarrow> (int \<times> u32, 's) act"
  d_sleep :: "nat \<Rightarrow> 's \<Rightarrow> 's"
  d_time :: "(u64, 's) act"
  d_app_id :: "u32 \<Rightarrow> (int \<times> u32, 's) act"
  d_app_continue :: "u32 \<Rightarrow> (int, 's) act"
  d_socket :: "u32 \<Rightarrow> (int, 's) act"
  d_connect :: "int \<Rightarrow> (bool, 's) act"
  d_close :: "int \<Rightarrow> 's \<Rightarrow> 's"
  d_elev :: "(elev_state option, 's) act"
  d_unelev :: "elev_state \<Rightarrow> 's \<Rightarrow> 's option"
  d_bump :: "(u64 option, 's) act"
  d_unbump :: "u64 \<Rightarrow> 's \<Rightarrow> 's option"
  d_read :: "'s read_mem"
  d_write :: "'s write_mem"
  d_alive :: "u32 \<Rightarrow> (bool, 's) act"
  d_listed :: "u32 \<Rightarrow> (bool, 's) act"
  d_stopped :: "u32 \<Rightarrow> (bool, 's) act"
  d_kernel_path :: "(bool, 's) act"
  d_get_regs :: "u32 \<Rightarrow> u32 \<Rightarrow> byte list \<Rightarrow> (int \<times> byte list, 's) act"
  d_set_regs :: "u32 \<Rightarrow> u32 \<Rightarrow> byte list \<Rightarrow> (int, 's) act"
  d_get_dbregs :: "u32 \<Rightarrow> u32 \<Rightarrow> byte list \<Rightarrow> (int \<times> byte list, 's) act"
  d_set_dbregs :: "u32 \<Rightarrow> u32 \<Rightarrow> byte list \<Rightarrow> (int, 's) act"
  d_get_fpregs :: "u32 \<Rightarrow> u32 \<Rightarrow> byte list \<Rightarrow> (int \<times> byte list, 's) act"
  d_set_fpregs :: "u32 \<Rightarrow> u32 \<Rightarrow> byte list \<Rightarrow> (int, 's) act"
  d_install :: "u32 \<Rightarrow> u32 \<Rightarrow> byte list \<Rightarrow> (int \<times> byte list, 's) act"
  d_full_state :: "u32 \<Rightarrow> u32 \<Rightarrow> byte list \<times> byte list \<times> byte list \<Rightarrow> (int \<times> byte list \<times> byte list \<times> byte list, 's) act"
  d_get_fsgs :: "u32 \<Rightarrow> u32 \<Rightarrow> byte list \<Rightarrow> (int \<times> byte list, 's) act"
  d_set_fsgs :: "u32 \<Rightarrow> u32 \<Rightarrow> byte list \<Rightarrow> (int, 's) act"
  d_thread_addr :: "u32 \<Rightarrow> u32 \<Rightarrow> (u64, 's) act"
  d_get_proc :: "u32 \<Rightarrow> (u64, 's) act"
  d_out :: "u64 \<Rightarrow> byte list \<Rightarrow> 's \<Rightarrow> int \<times> byte list \<times> 's"
  d_in :: "byte list \<Rightarrow> u64 \<Rightarrow> 's \<Rightarrow> int \<times> 's"
  d_flush :: "'s \<Rightarrow> 's"
  d_stack :: ptr

section \<open>State\<close>

record rip_slot =
  rs_pid :: u32
  rs_lwpid :: u32
  rs_kaddr :: u64

text \<open>The static variables of the core on top of the server's. \<open>host\<close> stands for the connection to
  the client's event port and for the allocator. \<^verbatim>\<open>curdbgctx\<close> always points into the slot of
  \<^verbatim>\<open>curdbgcli\<close>; the array of recently disabled breakpoints is a list of its used part.\<close>

record 's dbg = server +
  low :: 's
  host :: conn
  errno :: int
  g_cached_app_pid :: u32
  g_cached_app_id :: u32
  g_lwp_cache_pid :: u32
  g_lwp_cache_list :: "byte list"
  g_lwp_cache_count :: int
  g_lwp_cache_gen :: u32
  g_rip_cache :: "rip_slot list"
  g_rip_cache_next :: nat
  g_rip_cache_gen :: u32
  g_stepping_lwpid :: u32
  g_storm_lwpid :: u32
  g_storm_rip :: u64
  g_storm_sig :: byte
  g_storm_count :: u32
  g_recently_disabled_bps :: "u64 list"
  g_last_alive_check :: u32

definition lift :: "('a, 's) act \<Rightarrow> ('a, ('s, 'z) dbg_scheme) act" where
  "lift f s = map_option (\<lambda>(r, l). (r, s\<lparr>low := l\<rparr>)) (f (low s))"

definition lift1 :: "('s \<Rightarrow> 's) \<Rightarrow> ('s, 'z) dbg_scheme \<Rightarrow> ('s, 'z) dbg_scheme" where
  "lift1 f s = s\<lparr>low := f (low s)\<rparr>"

definition lift2 :: "('s \<Rightarrow> 's option) \<Rightarrow> ('s, 'z) dbg_scheme \<Rightarrow> ('s, 'z) dbg_scheme option" where
  "lift2 f s = map_option (\<lambda>l. s\<lparr>low := l\<rparr>) (f (low s))"

definition ptrace_raw :: "'s dbg_ops \<Rightarrow> ptrace_op \<Rightarrow> u32 \<Rightarrow> byte list \<Rightarrow> int \<Rightarrow> (int \<times> byte list, ('s, 'z) dbg_scheme) act" where
  "ptrace_raw D pop pid buf dat s = do {
     ((r, buf, e), s) \<leftarrow> lift (d_ptrace D pop pid buf dat) s;
     Some ((r, buf), case e of None \<Rightarrow> s | Some e \<Rightarrow> s\<lparr>errno := e\<rparr>)
   }"

definition ptrace_elev :: "'s dbg_ops \<Rightarrow> ptrace_op \<Rightarrow> u32 \<Rightarrow> byte list \<Rightarrow> int \<Rightarrow> (int \<times> byte list, ('s, 'z) dbg_scheme) act" where
  "ptrace_elev D pop pid buf dat s = do {
     (es, s) \<leftarrow> lift (d_elev D) s;
     (case es of None \<Rightarrow> Some ((-1, buf), s)
      | Some es \<Rightarrow> do {
          (r, s) \<leftarrow> ptrace_raw D pop pid buf dat s;
          s \<leftarrow> lift2 (d_unelev D es) s;
          Some (r, s) })
   }"

definition alloc :: "int \<Rightarrow> ('s, 'z) dbg_scheme \<Rightarrow> ptr option \<times> ('s, 'z) dbg_scheme" where
  \<comment> \<open>\<^verbatim>\<open>net_alloc_buffer\<close> with an \<^verbatim>\<open>int\<close> converted to \<^verbatim>\<open>unsigned long\<close>\<close>
  "alloc n s = (let (p, c) = net_alloc_buffer (unat (of_int n :: u64)) (host s) in (p, s\<lparr>host := c\<rparr>))"

section \<open>Waiting\<close>

fun wait_loop :: "'s dbg_ops \<Rightarrow> nat \<Rightarrow> u32 \<Rightarrow> ('s, 'z) dbg_scheme \<Rightarrow> ('s, 'z) dbg_scheme option" where
  "wait_loop D 0 pid s = Some s"
| "wait_loop D (Suc n) pid s = do {
     ((r, _), s) \<leftarrow> lift (d_wait4 D pid 1) s;
     if r \<le> 0 then wait_loop D n pid (lift1 (d_sleep D 1000) s) else Some s
   }"

definition wait4_timeout :: "'s dbg_ops \<Rightarrow> u32 \<Rightarrow> ('s, 'z) dbg_scheme \<Rightarrow> ('s, 'z) dbg_scheme option" where
  "wait4_timeout D pid s = wait_loop D 100 pid s"

definition stop :: "'s dbg_ops \<Rightarrow> u32 \<Rightarrow> ('s, 'z) dbg_scheme \<Rightarrow> ('s, 'z) dbg_scheme option" where
  \<comment> \<open>\<^verbatim>\<open>kill(pid, 17)\<close> and the wait that follows it everywhere\<close>
  "stop D pid s = wait4_timeout D pid (lift1 (d_kill D pid 17) s)"

section \<open>Caches\<close>

definition LWP_CACHE_MAX :: int where "LWP_CACHE_MAX = 512"

definition lwps_of :: "byte list \<Rightarrow> nat \<Rightarrow> u32 list" where
  \<comment> \<open>the first \<open>n\<close> numbers of an array\<close>
  "lwps_of buf n = map (\<lambda>i. field32 buf (4 * i)) [0..<n]"

definition get_lwp_list_cached :: "'s dbg_ops \<Rightarrow> u32 \<Rightarrow> (u32 list option, ('s, 'z) dbg_scheme) act" where
  "get_lwp_list_cached D pid s =
     (if pid \<noteq> g_lwp_cache_pid s \<or> g_lwp_cache_count s = 0 \<or> g_lwp_cache_gen s \<ge> 1024
      then do {
        ((num, _), s) \<leftarrow> ptrace_raw D PT_GETNUMLWPS pid [] 0 s;
        if num \<le> 0 \<or> num > LWP_CACHE_MAX then Some (None, s)
        else do {
          ((r, buf), s) \<leftarrow> ptrace_raw D PT_GETLWPLIST pid (g_lwp_cache_list s) num s;
          let s = s\<lparr>g_lwp_cache_list := buf\<rparr>;
          if r \<le> 0 then Some (None, s)
          else Some (Some (lwps_of buf (nat r)), s\<lparr>g_lwp_cache_count := r, g_lwp_cache_pid := pid, g_lwp_cache_gen := 0\<rparr>) } }
      else Some (Some (lwps_of (g_lwp_cache_list s) (nat (g_lwp_cache_count s))), s\<lparr>g_lwp_cache_gen := g_lwp_cache_gen s + 1\<rparr>))"

definition lwp_list_cache_flush :: "('s, 'z) dbg_scheme \<Rightarrow> ('s, 'z) dbg_scheme" where
  "lwp_list_cache_flush s = s\<lparr>g_lwp_cache_pid := 0, g_lwp_cache_count := 0, g_lwp_cache_gen := 0\<rparr>"

definition RIP_CACHE_N :: nat where "RIP_CACHE_N = 128"

definition rip_match :: "u32 \<Rightarrow> u32 \<Rightarrow> rip_slot \<Rightarrow> bool" where
  "rip_match pid lwpid x \<longleftrightarrow> rs_pid x = pid \<and> rs_lwpid x = lwpid \<and> rs_kaddr x \<noteq> 0"

text \<open>Where the program counter of a thread is kept: from the cache, or found and stored in it.\<close>

definition rip_addr :: "'s dbg_ops \<Rightarrow> u32 \<Rightarrow> u32 \<Rightarrow> (u64 option, ('s, 'z) dbg_scheme) act" where
  "rip_addr D pid lwpid s = (case List.find (rip_match pid lwpid) (g_rip_cache s) of
       Some x \<Rightarrow> Some (Some (rs_kaddr x), s)
     | None \<Rightarrow> do {
         (kthread, s) \<leftarrow> lift (d_thread_addr D pid lwpid) s;
         if kthread = 0 then Some (None, s)
         else let (rc, buf, l) = d_out D (kthread + 0x460) (bytes_at (d_stack D) 0 8) (low s); s = s\<lparr>low := l\<rparr> in
           if rc < 0 then Some (None, s)
           else let a = word_of buf + 0xe8; slot = g_rip_cache_next s in
             Some (Some a, s\<lparr>g_rip_cache := (g_rip_cache s)[slot := \<lparr>rs_pid = pid, rs_lwpid = lwpid, rs_kaddr = a\<rparr>],
               g_rip_cache_next := (slot + 1) mod RIP_CACHE_N\<rparr>) })"

definition rip_age :: "('s, 'z) dbg_scheme \<Rightarrow> ('s, 'z) dbg_scheme" where
  "rip_age s = (if g_rip_cache_gen s + 1 \<ge> 1024
     then s\<lparr>g_rip_cache := map (rs_kaddr_update (\<lambda>_. 0)) (g_rip_cache s), g_rip_cache_gen := 0\<rparr>
     else s\<lparr>g_rip_cache_gen := g_rip_cache_gen s + 1\<rparr>)"

definition kern_get_rip_fast :: "'s dbg_ops \<Rightarrow> u32 \<Rightarrow> u32 \<Rightarrow> u64 \<Rightarrow> (int \<times> u64, ('s, 'z) dbg_scheme) act" where
  "kern_get_rip_fast D pid lwpid out_rip s = do {
     (a, s) \<leftarrow> rip_addr D pid lwpid (rip_age s);
     (case a of None \<Rightarrow> Some ((1, out_rip), s)
      | Some a \<Rightarrow> let (rc, buf, l) = d_out D a (le_bytes 8 out_rip) (low s) in
          Some ((if rc < 0 then 1 else 0, word_of buf), s\<lparr>low := l\<rparr>))
   }"

definition kern_set_rip_fast :: "'s dbg_ops \<Rightarrow> u32 \<Rightarrow> u32 \<Rightarrow> u64 \<Rightarrow> (int, ('s, 'z) dbg_scheme) act" where
  "kern_set_rip_fast D pid lwpid new_rip s = do {
     (a, s) \<leftarrow> rip_addr D pid lwpid s;
     (case a of None \<Rightarrow> Some (1, s)
      | Some a \<Rightarrow> let (rc, l) = d_in D (le_bytes 8 new_rip) a (low s) in Some (if rc < 0 then 1 else 0, s\<lparr>low := l\<rparr>))
   }"

definition rip_cache_flush :: "('s, 'z) dbg_scheme \<Rightarrow> ('s, 'z) dbg_scheme" where
  "rip_cache_flush s = s\<lparr>g_rip_cache := replicate RIP_CACHE_N \<lparr>rs_pid = 0, rs_lwpid = 0, rs_kaddr = 0\<rparr>,
     g_rip_cache_next := 0, g_rip_cache_gen := 0\<rparr>"

definition debug_resume_cache_flush :: "('s, 'z) dbg_scheme \<Rightarrow> ('s, 'z) dbg_scheme" where
  "debug_resume_cache_flush s = rip_cache_flush (lwp_list_cache_flush (s\<lparr>g_cached_app_pid := 0, g_cached_app_id := 0\<rparr>))"

section \<open>Resuming\<close>

definition resume_app_via_self_id :: "'s dbg_ops \<Rightarrow> u32 \<Rightarrow> (int, ('s, 'z) dbg_scheme) act" where
  "resume_app_via_self_id D pid s =
     (if pid \<noteq> 0 \<and> pid = g_cached_app_pid s \<and> g_cached_app_id s \<noteq> 0
      then lift (d_app_continue D (g_cached_app_id s)) s
      else do {
        ((rc, app_id), s) \<leftarrow> lift (d_app_id D pid) s;
        if rc \<noteq> 0 then Some (rc, s)
        else lift (d_app_continue D app_id) (s\<lparr>g_cached_app_pid := pid, g_cached_app_id := app_id\<rparr>) })"

text \<open>\<^verbatim>\<open>es\<close> is \<open>None\<close> while it is not valid.\<close>

definition resume_app_unelev :: "'s dbg_ops \<Rightarrow> elev_state option \<Rightarrow> u32 \<Rightarrow> (elev_state option, ('s, 'z) dbg_scheme) act" where
  "resume_app_unelev D es pid s = (case es of
       None \<Rightarrow> do { (_, s) \<leftarrow> resume_app_via_self_id D pid s; Some (None, s) }
     | Some x \<Rightarrow> do {
         s \<leftarrow> lift2 (d_unelev D x) s;
         (_, s) \<leftarrow> resume_app_via_self_id D pid s;
         lift (d_elev D) s })"

section \<open>Threads that hang on a breakpoint\<close>

definition INT3_REWIND_MAX :: nat where "INT3_REWIND_MAX = 16"

definition trap_stop :: "byte list \<Rightarrow> bool" where
  \<comment> \<open>the thread stopped with a signal, which is a trap caused by a breakpoint instruction\<close>
  "trap_stop li \<longleftrightarrow> field32 li 0x04 = 1 \<and> field32 li 0x30 = 5 \<and> field32 li 0x38 = 1"

text \<open>One thread against the breakpoints; a thread right behind one is set back.\<close>

fun stuck_on :: "'s dbg_ops \<Rightarrow> u32 \<Rightarrow> u64 \<Rightarrow> u64 list \<Rightarrow> byte list \<Rightarrow> (bool \<times> byte list, ('s, 'z) dbg_scheme) act" where
  "stuck_on D lw rip [] regs s = Some ((False, regs), s)"
| "stuck_on D lw rip (a # as) regs s =
     (if rip = a + 1 then do {
        ((r, li), s) \<leftarrow> ptrace_raw D PT_LWPINFO lw (bytes_at (d_stack D) 0 160) 160 s;
        if r \<noteq> 0 \<or> \<not> trap_stop li then stuck_on D lw rip as regs s
        else do {
          ((_, regs), s) \<leftarrow> ptrace_raw D PT_SETREGS lw (splice regs 0x88 (le_bytes 8 a)) 0 s;
          Some ((True, regs), s) } }
      else if rip = a \<or> rip > a + 1 \<and> rip < a + 16 then Some ((True, regs), s)
      else stuck_on D lw rip as regs s)"

fun scan_lwps :: "'s dbg_ops \<Rightarrow> u64 list \<Rightarrow> u32 list \<Rightarrow> byte list \<Rightarrow> u32 list \<Rightarrow> (u32 list, ('s, 'z) dbg_scheme) act" where
  "scan_lwps D as [] regs found s = Some (found, s)"
| "scan_lwps D as (lw # lws) regs found s = do {
     ((r, regs), s) \<leftarrow> ptrace_raw D PT_GETREGS lw regs 0 (s\<lparr>errno := 0\<rparr>);
     if r \<noteq> 0 then scan_lwps D as lws regs found s
     else do {
       ((hit, regs), s) \<leftarrow> stuck_on D lw (field64 regs 0x88) as regs s;
       scan_lwps D as lws regs (if hit then found @ [lw] else found) s }
   }"

text \<open>All threads found; the source stores the first \<^verbatim>\<open>out_cap\<close> of them.\<close>

definition int3_scan_stuck :: "'s dbg_ops \<Rightarrow> u32 \<Rightarrow> u64 list \<Rightarrow> (u32 list, ('s, 'z) dbg_scheme) act" where
  "int3_scan_stuck D pid as s =
     (if as = [] then Some ([], s)
      else do {
        ((num, _), s) \<leftarrow> ptrace_raw D PT_GETNUMLWPS pid [] 0 s;
        if num \<le> 0 then Some ([], s)
        else case alloc (num * 4) s of
            (None, s) \<Rightarrow> Some ([], s)
          | (Some p, s) \<Rightarrow> do {
              ((lr, buf), s) \<leftarrow> ptrace_raw D PT_GETLWPLIST pid (bytes_at p 0 (4 * nat num)) num s;
              if lr > 0 then scan_lwps D as (lwps_of buf (nat num)) (bytes_at (d_stack D) 0 176) [] s else Some ([], s) } })"

definition int3_lwp_stopped :: "'s dbg_ops \<Rightarrow> u32 \<Rightarrow> (int, ('s, 'z) dbg_scheme) act" where
  "int3_lwp_stopped D lw s = do {
     ((r, _), s) \<leftarrow> ptrace_raw D PT_GETREGS lw (bytes_at (d_stack D) 0 176) 0 (s\<lparr>errno := 0\<rparr>);
     Some (if r = 0 then 1 else if errno s = 16 then -1 else 0, s)
   }"

fun resume_tries :: "'s dbg_ops \<Rightarrow> u32 \<Rightarrow> u32 \<Rightarrow> nat \<Rightarrow> ('s, 'z) dbg_scheme \<Rightarrow> ('s, 'z) dbg_scheme option" where
  "resume_tries D pid lw 0 s = Some s"
| "resume_tries D pid lw (Suc n) s = do {
     (_, s) \<leftarrow> ptrace_raw D PT_CONTINUE lw [] 0 (s\<lparr>errno := 0\<rparr>);
     let e1 = errno s;
     (st, s) \<leftarrow> int3_lwp_stopped D lw s;
     if st = 0 then Some s
     else do {
       (_, s) \<leftarrow> ptrace_raw D PT_CONTINUE pid [] 0 (s\<lparr>errno := 0\<rparr>);
       let e2 = errno s;
       (st, s) \<leftarrow> int3_lwp_stopped D lw s;
       if st = 0 then Some s
       else resume_tries D pid lw n (lift1 (d_sleep D (if e1 = 16 \<or> e2 = 16 then 1500 else 400)) s) }
   }"

fun int3_resume_lwps :: "'s dbg_ops \<Rightarrow> u32 \<Rightarrow> u32 list \<Rightarrow> ('s, 'z) dbg_scheme \<Rightarrow> ('s, 'z) dbg_scheme option" where
  "int3_resume_lwps D pid [] s = Some s"
| "int3_resume_lwps D pid (lw # lws) s = do {
     (st, s) \<leftarrow> int3_lwp_stopped D lw s;
     s \<leftarrow> (if st = 0 then Some s else resume_tries D pid lw 12 s);
     int3_resume_lwps D pid lws s
   }"

fun sweep_rounds :: "'s dbg_ops \<Rightarrow> u32 \<Rightarrow> u64 list \<Rightarrow> nat \<Rightarrow> ('s, 'z) dbg_scheme \<Rightarrow> ('s, 'z) dbg_scheme option" where
  "sweep_rounds D pid as 0 s = Some s"
| "sweep_rounds D pid as (Suc n) s = do {
     (lws, s) \<leftarrow> int3_scan_stuck D pid as s;
     if lws = [] then Some s
     else do {
       s \<leftarrow> int3_resume_lwps D pid (take INT3_REWIND_MAX lws) s;
       sweep_rounds D pid as n (lift1 (d_sleep D 5000) s) }
   }"

definition int3_iterative_sweep :: "'s dbg_ops \<Rightarrow> u32 \<Rightarrow> u64 list \<Rightarrow> ('s, 'z) dbg_scheme \<Rightarrow> ('s, 'z) dbg_scheme option" where
  "int3_iterative_sweep D pid as s = (if as = [] then Some s else sweep_rounds D pid as 4 s)"

end
