(* ===== verification/Elev.thy ===== *)
theory Elev
  imports ProcMemProps DebugOps
begin

text \<open>
  Privileges of the debugger itself: \<^verbatim>\<open>elev_save_and_set\<close> and \<^verbatim>\<open>elev_restore\<close> of
  \<^verbatim>\<open>debugger/source/proc_remote.c\<close> and the two functions of \<^verbatim>\<open>debugger/source/debug.c\<close> that raise
  the authority alone. The saved state is \<open>None\<close> where the source leaves \<^verbatim>\<open>valid\<close> at 0; \<open>stk\<close> is what
  the local variables hold before they are read into.
\<close>

definition elev_save_and_set ::
    "'k copyout \<Rightarrow> 'k copyin \<Rightarrow> ptw_env \<Rightarrow> ptr \<Rightarrow> ('k, 'z) kstate_scheme \<Rightarrow> (elev_state option \<times> ('k, 'z) kstate_scheme) option" where
  "elev_save_and_set out inn env stk s =
     map_option (\<lambda>(ucred, s).
       if ucred = 0 then (None, s)
       else let (rc, authid, s) = kout64 out (ucred + 0x58) (ld64 stk) s in
         if rc \<noteq> 0 then (None, s)
         else if authid = 0 then (None, s)
         else let (rc, caps, s) = kout out (ucred + 0x60) (bytes_at stk 8 0x10) s in
           if rc \<noteq> 0 then (None, s)
           else let (rc, s) = kin inn (le_bytes 8 (0x4800000000010003 :: u64)) (ucred + 0x58) s in
             if rc \<noteq> 0 then (None, s)
             else let (rc, s) = kin inn (replicate 16 0xFF) (ucred + 0x60) s in
               if rc \<noteq> 0 then (None, snd (kin inn (le_bytes 8 authid) (ucred + 0x58) s))
               else (Some \<lparr>saved_authid = authid, saved_caps = caps\<rparr>, s))
     (kernel_get_proc_ucred_fast out (pe_allproc env) (pe_self env) s)"

definition elev_restore :: "'k copyout \<Rightarrow> 'k copyin \<Rightarrow> ptw_env \<Rightarrow> elev_state \<Rightarrow> ('k, 'z) kstate_scheme \<Rightarrow> ('k, 'z) kstate_scheme option" where
  "elev_restore out inn env es s =
     map_option (\<lambda>(ucred, s).
       if ucred \<noteq> 0
       then snd (kin inn (saved_caps es) (ucred + 0x60) (snd (kin inn (le_bytes 8 (saved_authid es)) (ucred + 0x58) s)))
       else s)
     (kernel_get_proc_ucred_fast out (pe_allproc env) (pe_self env) s)"

definition authid_bump_safe ::
    "'k copyout \<Rightarrow> 'k copyin \<Rightarrow> ptw_env \<Rightarrow> ('k, 'z) kstate_scheme \<Rightarrow> (u64 option \<times> ('k, 'z) kstate_scheme) option" where
  "authid_bump_safe out inn env s =
     map_option (\<lambda>(ucred, s).
       if ucred = 0 then (None, s)
       else let (rc, authid, s) = kout64 out (ucred + 0x58) 0 s in
         if rc \<noteq> 0 then (None, s)
         else if authid = 0 then (None, s)
         else let (rc, s) = kin inn (le_bytes 8 PRIV_AUTHID) (ucred + 0x58) s in
           (if rc \<noteq> 0 then None else Some authid, s))
     (kernel_get_proc_ucred_fast out (pe_allproc env) (pe_self env) s)"

definition authid_restore_safe :: "'k copyout \<Rightarrow> 'k copyin \<Rightarrow> ptw_env \<Rightarrow> u64 \<Rightarrow> ('k, 'z) kstate_scheme \<Rightarrow> ('k, 'z) kstate_scheme option" where
  "authid_restore_safe out inn env saved s =
     map_option (\<lambda>(ucred, s). if ucred \<noteq> 0 then snd (kin inn (le_bytes 8 saved) (ucred + 0x58) s) else s)
     (kernel_get_proc_ucred_fast out (pe_allproc env) (pe_self env) s)"

section \<open>The credential comes back\<close>

text \<open>Besides the authority the kernel keeps sixteen bytes of capabilities in the credential.\<close>

locale elevating_kernel = debug_kernel +
  assumes caps_safe: "safe (ucred + 0x60) 0x10"
    and world_caps: "world m \<Longrightarrow> length v = 0x10 \<Longrightarrow> world (poke m (ucred + 0x60) v) \<and> tm (poke m (ucred + 0x60) v) = tm m"
begin

lemma set_authid:
  assumes "ready s m" "(v :: u64) \<noteq> 0"
  obtains s' where "kin (sy_in e) (le_bytes 8 v) (ucred + 0x58) s = (0, s')" "ready s' (poke m (ucred + 0x58) (le_bytes 8 v))"
    "tm (poke m (ucred + 0x58) (le_bytes 8 v)) = tm m" "kstate.more s' = kstate.more s"
proof -
  have v: "view (kern s) m" "world m" using assms(1) by (auto simp: ready_def)
  obtain s' where s': "kin (sy_in e) (le_bytes 8 v) (ucred + 0x58) s = (0, s')"
      "view (kern s') (poke m (ucred + 0x58) (le_bytes 8 v))" "kframe s s'"
    using kin_write [OF v(1), of "ucred + 0x58" "le_bytes 8 v"] own_safe(3) by auto
  from world_authid [OF v(2) assms(2)] ready_frame [OF assms(1) s'(3,2)] s' show thesis
    by (intro that [of s']) (auto simp: kframe_more)
qed

lemma set_caps:
  assumes "ready s m" "length v = 0x10"
  obtains s' where "kin (sy_in e) v (ucred + 0x60) s = (0, s')" "ready s' (poke m (ucred + 0x60) v)"
    "tm (poke m (ucred + 0x60) v) = tm m" "kstate.more s' = kstate.more s"
proof -
  have v: "view (kern s) m" "world m" using assms(1) by (auto simp: ready_def)
  obtain s' where s': "kin (sy_in e) v (ucred + 0x60) s = (0, s')" "view (kern s') (poke m (ucred + 0x60) v)" "kframe s s'"
    using kin_write [OF v(1), of "ucred + 0x60" v] caps_safe assms(2) by auto
  from world_caps [OF v(2) assms(2)] ready_frame [OF assms(1) s'(3,2)] s' show thesis
    by (intro that [of s']) (auto simp: kframe_more)
qed

lemma get_cred:
  assumes "ready s m"
  obtains s' where "kout64 (sy_out e) (ucred + 0x58) v s = (0, mem64 m (ucred + 0x58), s')" "ready s' m"
    "kstate.more s' = kstate.more s" "mem64 m (ucred + 0x58) \<noteq> 0"
proof -
  have v: "view (kern s) m" "world m" using assms by (auto simp: ready_def)
  obtain s' where "kout64 (sy_out e) (ucred + 0x58) v s = (0, mem64 m (ucred + 0x58), s')" "view (kern s') m" "kframe s s'"
    using kout64_read [OF v(1) own_safe(3)] by metis
  with ready_frame [OF assms] own_cred [OF v(2)] v(2) show thesis by (intro that [of s']) (auto simp: kframe_more)
qed

lemma elev_ok:
  assumes "ready s m"
  obtains es s' m' where "elev_save_and_set (sy_out e) (sy_in e) (sy_ptw e) stk s = Some (Some es, s')" "ready s' m'" "tm m' = tm m"
    "kstate.more s' = kstate.more s" "saved_authid es = mem64 m (ucred + 0x58)" "saved_caps es = peek m (ucred + 0x60) 0x10"
    "m' = poke (poke m (ucred + 0x58) (le_bytes 8 (0x4800000000010003 :: u64))) (ucred + 0x60) (replicate 16 0xFF)"
proof -
  obtain s1 where 1: "kernel_get_proc_ucred_fast (sy_out e) (pe_allproc (sy_ptw e)) self s = Some (ucred, s1)" "ready s1 m"
      "kstate.more s1 = kstate.more s" by (rule own_ucred [OF assms])
  obtain s2 where 2: "kout64 (sy_out e) (ucred + 0x58) (ld64 stk) s1 = (0, mem64 m (ucred + 0x58), s2)" "ready s2 m"
      "kstate.more s2 = kstate.more s1" "mem64 m (ucred + 0x58) \<noteq> 0" by (rule get_cred [OF 1(2)])
  have v: "view (kern s2) m" "world m" using 2(2) by (auto simp: ready_def)
  obtain s3 where 3: "kout (sy_out e) (ucred + 0x60) (bytes_at stk 8 0x10) s2 = (0, peek m (ucred + 0x60) 0x10, s3)" "view (kern s3) m" "kframe s2 s3"
    using kout_read [OF v(1), of "ucred + 0x60" "bytes_at stk 8 0x10"] caps_safe by auto
  note r3 = ready_frame [OF 2(2) 3(3,2) v(2)]
  let ?p = "0x4800000000010003 :: u64"
  let ?m4 = "poke m (ucred + 0x58) (le_bytes 8 ?p)"
  obtain s4 where 4: "kin (sy_in e) (le_bytes 8 ?p) (ucred + 0x58) s3 = (0, s4)" "ready s4 ?m4" "tm ?m4 = tm m" "kstate.more s4 = kstate.more s3"
    by (rule set_authid [OF r3, of ?p]) simp
  obtain s5 where 5: "kin (sy_in e) (replicate 16 0xFF) (ucred + 0x60) s4 = (0, s5)" "ready s5 (poke ?m4 (ucred + 0x60) (replicate 16 0xFF))"
      "tm (poke ?m4 (ucred + 0x60) (replicate 16 0xFF)) = tm ?m4" "kstate.more s5 = kstate.more s4"
    by (rule set_caps [OF 4(2), of "replicate 16 0xFF"]) simp
  show thesis
    using 1 2 3(1) 4 5 own_safe(5) kframe_more [OF 3(3)]
    by (intro that [of "\<lparr>saved_authid = mem64 m (ucred + 0x58), saved_caps = peek m (ucred + 0x60) 0x10\<rparr>" s5])
       (simp_all add: elev_save_and_set_def)
qed

lemma restore_ok:
  assumes "ready s m" "saved_authid es \<noteq> 0" "length (saved_caps es) = 0x10"
  obtains s' m' where "elev_restore (sy_out e) (sy_in e) (sy_ptw e) es s = Some s'" "ready s' m'" "tm m' = tm m"
    "kstate.more s' = kstate.more s"
    "m' = poke (poke m (ucred + 0x58) (le_bytes 8 (saved_authid es))) (ucred + 0x60) (saved_caps es)"
proof -
  obtain s1 where 1: "kernel_get_proc_ucred_fast (sy_out e) (pe_allproc (sy_ptw e)) self s = Some (ucred, s1)" "ready s1 m"
      "kstate.more s1 = kstate.more s" by (rule own_ucred [OF assms(1)])
  let ?m2 = "poke m (ucred + 0x58) (le_bytes 8 (saved_authid es))"
  obtain s2 where 2: "kin (sy_in e) (le_bytes 8 (saved_authid es)) (ucred + 0x58) s1 = (0, s2)" "ready s2 ?m2" "tm ?m2 = tm m"
      "kstate.more s2 = kstate.more s1" by (rule set_authid [OF 1(2) assms(2)])
  obtain s3 where 3: "kin (sy_in e) (saved_caps es) (ucred + 0x60) s2 = (0, s3)" "ready s3 (poke ?m2 (ucred + 0x60) (saved_caps es))"
      "tm (poke ?m2 (ucred + 0x60) (saved_caps es)) = tm ?m2" "kstate.more s3 = kstate.more s2" by (rule set_caps [OF 2(2) assms(3)])
  show thesis using 1 2 3 own_safe(5) by (intro that [of s3]) (simp_all add: elev_restore_def)
qed

lemma bump_ok:
  assumes "ready s m"
  obtains s' m' where "authid_bump_safe (sy_out e) (sy_in e) (sy_ptw e) s = Some (Some (mem64 m (ucred + 0x58)), s')" "ready s' m'"
    "tm m' = tm m" "kstate.more s' = kstate.more s" "mem64 m (ucred + 0x58) \<noteq> 0"
proof -
  obtain s1 where 1: "kernel_get_proc_ucred_fast (sy_out e) (pe_allproc (sy_ptw e)) self s = Some (ucred, s1)" "ready s1 m"
      "kstate.more s1 = kstate.more s" by (rule own_ucred [OF assms])
  obtain s2 where 2: "kout64 (sy_out e) (ucred + 0x58) 0 s1 = (0, mem64 m (ucred + 0x58), s2)" "ready s2 m"
      "kstate.more s2 = kstate.more s1" "mem64 m (ucred + 0x58) \<noteq> 0" by (rule get_cred [OF 1(2)])
  let ?m3 = "poke m (ucred + 0x58) (le_bytes 8 PRIV_AUTHID)"
  obtain s3 where 3: "kin (sy_in e) (le_bytes 8 PRIV_AUTHID) (ucred + 0x58) s2 = (0, s3)" "ready s3 ?m3" "tm ?m3 = tm m" "kstate.more s3 = kstate.more s2"
    by (rule set_authid [OF 2(2), of PRIV_AUTHID]) (simp add: PRIV_AUTHID_def)
  show thesis using 1 2 3 own_safe(5) by (intro that [of s3 ?m3]) (simp_all add: authid_bump_safe_def)
qed

lemma unbump_ok:
  assumes "ready s m" "v \<noteq> 0"
  obtains s' m' where "authid_restore_safe (sy_out e) (sy_in e) (sy_ptw e) v s = Some s'" "ready s' m'" "tm m' = tm m"
    "kstate.more s' = kstate.more s"
proof -
  obtain s1 where 1: "kernel_get_proc_ucred_fast (sy_out e) (pe_allproc (sy_ptw e)) self s = Some (ucred, s1)" "ready s1 m"
      "kstate.more s1 = kstate.more s" by (rule own_ucred [OF assms(1)])
  let ?m2 = "poke m (ucred + 0x58) (le_bytes 8 v)"
  obtain s2 where 2: "kin (sy_in e) (le_bytes 8 v) (ucred + 0x58) s1 = (0, s2)" "ready s2 ?m2" "tm ?m2 = tm m"
      "kstate.more s2 = kstate.more s1" by (rule set_authid [OF 1(2) assms(2)])
  show thesis using 1 2 own_safe(5) by (intro that [of s2 ?m2]) (simp_all add: authid_restore_safe_def)
qed

end

end
