(* ===== verification/Debug.thy ===== *)
theory Debug
  imports DebugOps Server
begin

text \<open>
  The commands of the debugger core, \<^verbatim>\<open>debugger/source/debug.c\<close>: attaching and detaching,
  breakpoints, watchpoints, stopping and resuming, and the end of a debugging session.

  The context of a session is the \<^verbatim>\<open>dbgctx\<close> array of the client's slot: the process at 0, the event
  socket at 4, thirty breakpoints of 0x18 bytes (enabled at 8, address at 0x10, replaced byte at
  0x18) and the debug registers at 0x2D8.
\<close>

section \<open>The context\<close>

definition ctx_at :: "nat \<Rightarrow> 'z server_scheme \<Rightarrow> byte list" where
  "ctx_at i s = dbgctx (g_clients s ! i)"

definition ctx_set :: "nat \<Rightarrow> nat \<Rightarrow> byte list \<Rightarrow> 'z server_scheme \<Rightarrow> 'z server_scheme" where
  \<comment> \<open>a store into the context of a slot\<close>
  "ctx_set i off bs s = set_client i (dbgctx_update (\<lambda>x. splice x off bs)) s"

definition ctx_pid :: "byte list \<Rightarrow> u32" where "ctx_pid x = field32 x 0"
definition ctx_dbgfd :: "byte list \<Rightarrow> u32" where "ctx_dbgfd x = field32 x 4"
definition bp_enabled :: "byte list \<Rightarrow> nat \<Rightarrow> u32" where "bp_enabled x i = field32 x (i * 0x18 + 0x08)"
definition bp_address :: "byte list \<Rightarrow> nat \<Rightarrow> u64" where "bp_address x i = field64 x (i * 0x18 + 0x10)"
definition bp_saved :: "byte list \<Rightarrow> nat \<Rightarrow> byte" where "bp_saved x i = x ! (i * 0x18 + 0x18)"

text \<open>\<^verbatim>\<open>DBGCTX()->pid\<close>; \<open>None\<close> follows a null pointer.\<close>

definition dbg_pid :: "('s, 'z) dbg_scheme \<Rightarrow> u32 option" where
  "dbg_pid s = map_option (\<lambda>i. ctx_pid (ctx_at i s)) (curdbgcli s)"

section \<open>The end of a session\<close>

datatype td_end = Detach | Close_socket | Done

fun restore_bps :: "'s dbg_ops \<Rightarrow> u32 \<Rightarrow> byte list \<Rightarrow> nat \<Rightarrow> nat \<Rightarrow> u64 list \<Rightarrow> (u64 list, ('s, 'z) dbg_scheme) act" where
  \<comment> \<open>\<open>n\<close> breakpoints from \<open>i\<close> on; ends at the first one without an address\<close>
  "restore_bps D pid x i 0 as s = Some (as, s)"
| "restore_bps D pid x i (Suc n) as s =
     (if bp_address x i = 0 then Some (as, s)
      else do {
        s \<leftarrow> lift2 (d_write D pid (bp_address x i) [bp_saved x i]) s;
        restore_bps D pid x (i + 1) n (if length as < INT3_REWIND_MAX then as @ [bp_address x i] else as) s })"

definition set_dbregs :: "'s dbg_ops \<Rightarrow> bool \<Rightarrow> u32 \<Rightarrow> u32 \<Rightarrow> byte list \<Rightarrow> ('s, 'z) dbg_scheme \<Rightarrow> ('s, 'z) dbg_scheme option" where
  \<comment> \<open>through the kernel where the firmware allows it, else or if that fails by \<^verbatim>\<open>ptrace\<close>\<close>
  "set_dbregs D kpath pid lwpid buf s =
     (if kpath then do {
        (rc, s) \<leftarrow> lift (d_set_dbregs D pid lwpid buf) s;
        if rc \<noteq> 0 then map_option snd (ptrace_raw D PT_SETDBREGS lwpid buf 0 s) else Some s }
      else map_option snd (ptrace_raw D PT_SETDBREGS lwpid buf 0 s))"

fun clear_dbregs :: "'s dbg_ops \<Rightarrow> bool \<Rightarrow> u32 \<Rightarrow> u32 list \<Rightarrow> ('s, 'z) dbg_scheme \<Rightarrow> ('s, 'z) dbg_scheme option" where
  "clear_dbregs D kpath pid [] s = Some s"
| "clear_dbregs D kpath pid (lw # lws) s = do {
     s \<leftarrow> set_dbregs D kpath pid lw (replicate 0x100 0) s;
     clear_dbregs D kpath pid lws s
   }"

text \<open>The threads of the process, after a stop where it is running. \<open>Inl\<close> is a failure, with \<open>None\<close>
  where nothing was stopped because \<^verbatim>\<open>errno\<close> says something else than busy; the flag tells whether
  the process was stopped here.\<close>

definition lwp_list :: "'s dbg_ops \<Rightarrow> u32 \<Rightarrow> int \<Rightarrow> (u32 list option, ('s, 'z) dbg_scheme) act" where
  "lwp_list D pid count s = (case alloc (count * 4) s of
       (None, s) \<Rightarrow> Some (None, s)
     | (Some p, s) \<Rightarrow> do {
         ((r, buf), s) \<leftarrow> ptrace_raw D PT_GETLWPLIST pid (bytes_at p 0 (nat (count * 4))) count s;
         Some (if r = -1 then None else Some (lwps_of buf (nat count)), s) })"

definition threads_stopped :: "'s dbg_ops \<Rightarrow> u32 \<Rightarrow> (bool option \<times> u32 list option, ('s, 'z) dbg_scheme) act" where
  "threads_stopped D pid s = do {
     ((rc, _), s) \<leftarrow> ptrace_raw D PT_GETNUMLWPS pid [] 0 s;
     if rc \<noteq> -1 then do { (l, s) \<leftarrow> lwp_list D pid rc s; Some ((Some False, l), s) }
     else if errno s \<noteq> 16 then Some ((None, None), s)
     else do {
       s \<leftarrow> stop D pid s;
       ((rc, _), s) \<leftarrow> ptrace_raw D PT_GETNUMLWPS pid [] 0 s;
       (l, s) \<leftarrow> lwp_list D pid rc s;
       Some ((Some True, l), s) }
   }"

definition resume_both :: "'s dbg_ops \<Rightarrow> elev_state option \<Rightarrow> u32 \<Rightarrow> (elev_state option, ('s, 'z) dbg_scheme) act" where
  "resume_both D es pid s = do {
     (es, s) \<leftarrow> resume_app_unelev D es pid s;
     (_, s) \<leftarrow> ptrace_raw D PT_CONTINUE pid [] 0 s;
     Some (es, s)
   }"

text \<open>What becomes of the debug registers, and how the session ends.\<close>

definition teardown_dbregs ::
    "'s dbg_ops \<Rightarrow> elev_state option \<Rightarrow> u32 \<Rightarrow> bool \<Rightarrow> (td_end \<times> elev_state option \<times> bool, ('s, 'z) dbg_scheme) act" where
  "teardown_dbregs D es pid we_stopped s = do {
     ((_, dr), s) \<leftarrow> ptrace_raw D PT_GETDBREGS pid (replicate 0x100 0) 0 s;
     if dr ! 0x38 AND 0x03 = 0 \<and> dr ! 0x38 AND 0x0C = 0 \<and> dr ! 0x38 AND 0x30 = 0 \<and> dr ! 0x38 AND 0xC0 = 0
     then do {
       ((rc, _), s) \<leftarrow> ptrace_raw D PT_GETNUMLWPS pid [] 0 s;
       if rc \<noteq> -1 then Some ((Detach, es, we_stopped), s)
       else if errno s \<noteq> 16 then Some ((Done, es, we_stopped), s)
       else do {
         s \<leftarrow> stop D pid s;
         (_, s) \<leftarrow> ptrace_raw D PT_GETNUMLWPS pid [] 0 s;
         Some ((Detach, es, True), s) } }
     else do {
       ((stopped, l), s) \<leftarrow> threads_stopped D pid s;
       (case (stopped, l) of
          (None, _) \<Rightarrow> Some ((Done, es, we_stopped), s)
        | (Some True, None) \<Rightarrow> do { (es, s) \<leftarrow> resume_both D es pid s; Some ((Close_socket, es, True), s) }
        | (Some False, None) \<Rightarrow> Some ((Close_socket, es, we_stopped), s)
        | (Some st, Some lws) \<Rightarrow> do {
            (kpath, s) \<leftarrow> (if lws = [] then Some (False, s) else lift (d_kernel_path D) s);
            s \<leftarrow> clear_dbregs D kpath pid lws s;
            Some ((Detach, es, st \<or> we_stopped), s) }) }
   }"

text \<open>The part that needs the process; \<open>x\<close> is the context, empty for a null pointer.\<close>

definition teardown_process :: "'s dbg_ops \<Rightarrow> elev_state option \<Rightarrow> byte list \<Rightarrow> u32 \<Rightarrow> (td_end \<times> elev_state option \<times> bool, ('s, 'z) dbg_scheme) act" where
  "teardown_process D es x pid s = do {
     (st, s) \<leftarrow> (if sint pid > 0 then lift (d_stopped D pid) s else Some (True, s));
     s \<leftarrow> (if st then Some s else stop D pid s);
     (alive, s) \<leftarrow> lift (d_alive D pid) s;
     if \<not> alive then Some ((Close_socket, es, \<not> st), s)
     else if x = [] then None
     else do {
       (as, s) \<leftarrow> restore_bps D pid x 0 30 [] s;
       s \<leftarrow> int3_iterative_sweep D pid as s;
       teardown_dbregs D es pid (\<not> st) s }
   }"

definition leave_session :: "('s, 'z) dbg_scheme \<Rightarrow> ('s, 'z) dbg_scheme" where
  \<comment> \<open>the server forgets the session\<close>
  "leave_session s =
     (let s = (case curdbgcli s of None \<Rightarrow> s | Some i \<Rightarrow> set_client i (debugging_update (\<lambda>_. 0)) s);
          s = s\<lparr>curdbgcli := None, g_debug_attached := 0, g_stopgo_resume_signal := 0xFFFFFFFF, g_stopgo_resume_pid := 0\<rparr>
      in if g_stopgo_mode s = 2 then s\<lparr>g_stopgo_mode := 0, g_stopgo_last_signal := 0xFFFFFFFF, g_stopgo_target_pid := 0\<rparr> else s)"

text \<open>\<open>svc\<close> is the slot whose context is torn down, \<open>None\<close> for \<^verbatim>\<open>NULL\<close>.\<close>

definition debug_full_teardown :: "'s dbg_ops \<Rightarrow> nat option \<Rightarrow> ('s, 'z) dbg_scheme \<Rightarrow> ('s, 'z) dbg_scheme option" where
  "debug_full_teardown D svc s =
     (if g_debug_attached s = 0 then Some s
      else do {
        let s = lift1 (d_flush D) (debug_resume_cache_flush (s\<lparr>g_recently_disabled_bps := []\<rparr>));
        (es, s) \<leftarrow> lift (d_elev D) s;
        let s = leave_session s;
        let x = (case svc of None \<Rightarrow> [] | Some i \<Rightarrow> ctx_at i s);
        let pid = (case svc of None \<Rightarrow> 0 | Some i \<Rightarrow> ctx_pid x);
        let dbgfd = (case svc of None \<Rightarrow> 0 | Some i \<Rightarrow> ctx_dbgfd x);
        ((e, es', we_stopped), s) \<leftarrow> teardown_process D es x pid s;
        (es', s) \<leftarrow> (if e = Detach then do {
            (es', s) \<leftarrow> (if we_stopped then resume_app_unelev D es' pid s else Some (es', s));
            (_, s) \<leftarrow> ptrace_raw D PT_DETACH pid [] 0 s;
            Some (es', s) } else Some (es', s));
        let s = (if e \<noteq> Done \<and> dbgfd > 0 then lift1 (d_close D (sint dbgfd)) s else s);
        (case es' of Some y \<Rightarrow> lift2 (d_unelev D y) s | None \<Rightarrow> Some s) })"

section \<open>Stopping and resuming\<close>

definition k_stopgo_signal_table :: "byte \<Rightarrow> u32" where
  "k_stopgo_signal_table action = (if action = 0 then 19 else if action = 1 then 17 else 9)"

definition debug_stopgo_handle :: "'s dbg_ops \<Rightarrow> u32 \<Rightarrow> byte \<Rightarrow> ('s, 'z) dbg_scheme \<Rightarrow> ('s, 'z) dbg_scheme option" where
  "debug_stopgo_handle D pid action s =
     (let s = s\<lparr>g_stopgo_target_pid := pid\<rparr> in
      if g_debug_attached s \<noteq> 0 then
        if action = 0 then Some (s\<lparr>g_stopgo_resume_signal := 0, g_stopgo_resume_pid := pid, g_stopgo_last_signal := 0, g_stopgo_mode := 2\<rparr>)
        else if action = 1 then map_option (g_stopgo_mode_update (\<lambda>_. 2)) (stop D pid (s\<lparr>g_stopgo_last_signal := 0x11\<rparr>))
        else if action = 2 then Some (s\<lparr>g_stopgo_resume_signal := 9, g_stopgo_resume_pid := pid, g_stopgo_last_signal := 9, g_stopgo_mode := 2\<rparr>)
        else Some s
      else if action \<le> 2 then
        let sig = k_stopgo_signal_table action in
        do {
          s \<leftarrow> wait4_timeout D pid (lift1 (d_kill D pid (uint sig)) (s\<lparr>g_stopgo_mode := 1, g_stopgo_last_signal := sig\<rparr>));
          if action = 0 \<and> g_debug_attached s \<noteq> 0 then map_option snd (resume_app_via_self_id D (g_stopgo_resume_pid s) s) else Some s }
      else wait4_timeout D pid (lift1 (d_kill D pid 0) s))"

definition debug_process_stop_handle :: "'s dbg_ops \<Rightarrow> (('s, 'z) dbg_scheme, 'c conn_scheme) handler" where
  "debug_process_stop_handle D packet = (\<lambda>(s, c). case data packet of
       None \<Rightarrow> Some (1, s, send_int32 CMD_DATA_NULL c)
     | Some dp \<Rightarrow>
       if dp 4 > 2 then Some (1, s, send_int32 CMD_ERROR c)
       else if ld32 dp = 0 then Some (1, s, send_int32 CMD_ERROR c)
       else do { s \<leftarrow> debug_stopgo_handle D (ld32 dp) (dp 4) s; Some (0, s, send_int32 CMD_SUCCESS c) })"

definition debug_continue_handle :: "'s dbg_ops \<Rightarrow> (('s, 'z) dbg_scheme, 'c conn_scheme) handler" where
  "debug_continue_handle D packet = (\<lambda>(s, c). do {
     pid \<leftarrow> dbg_pid s;
     if pid = 0 then Some (1, s, send_int32 CMD_ERROR c)
     else case data packet of
         None \<Rightarrow> Some (1, s, send_int32 CMD_DATA_NULL c)
       | Some dp \<Rightarrow> do { s \<leftarrow> debug_stopgo_handle D pid (dp 0) s; Some (0, s, send_int32 CMD_SUCCESS c) } })"

section \<open>Attaching\<close>

definition CMD_ALREADY_DEBUG :: u32 where "CMD_ALREADY_DEBUG = 0xF0000008"
definition CMD_INVALID_INDEX :: u32 where "CMD_INVALID_INDEX = 0xF000000A"

text \<open>\<open>i\<close> is the slot of \<^verbatim>\<open>curdbgcli\<close>; the session counts as attached before the connection is made.\<close>

definition connect_debugger :: "'s dbg_ops \<Rightarrow> nat \<Rightarrow> (int, ('s, 'z) dbg_scheme) act" where
  "connect_debugger D i s =
     (let s = s\<lparr>g_debug_attached := 1\<rparr> in do {
        (sock, s) \<leftarrow> lift (d_socket D (field32 (client_addr (g_clients s ! i)) 4)) s;
        let s = ctx_set i 4 (le_bytes 4 (of_int sock :: u32)) s;
        if sock \<le> 0 then Some (1, s)
        else do {
          (ok, s) \<leftarrow> lift (d_connect D sock) s;
          if ok then Some (0, s)
          else Some (1, ctx_set i 4 (le_bytes 4 (-1 :: u32)) (lift1 (d_close D sock) s)) } })"

definition debug_attach_handle :: "'s dbg_ops \<Rightarrow> (('s, 'z) dbg_scheme, 'c conn_scheme) handler" where
  "debug_attach_handle D packet = (\<lambda>(s, c).
     if g_debug_attached s \<noteq> 0 then Some (1, s, send_int32 CMD_ALREADY_DEBUG c)
     else case data packet of
         None \<Rightarrow> Some (1, s, send_int32 CMD_DATA_NULL c)
       | Some dp \<Rightarrow> let pid = ld32 dp; fail = (\<lambda>s. Some (1, s, send_int32 CMD_ERROR c)) in do {
           (es, s) \<leftarrow> lift (d_elev D) s;
           (case es of None \<Rightarrow> fail s
            | Some es \<Rightarrow> do {
              ((r, _), s) \<leftarrow> ptrace_raw D PT_ATTACH pid [] 0 s;
              s \<leftarrow> lift2 (d_unelev D es) s;
              if r = -1 then fail s
              else do {
                ((w, _), s) \<leftarrow> lift (d_wait4 D pid 0) (s\<lparr>errno := 0\<rparr>);
                let s = (if w = -1 then lift1 (d_sleep D 20000) s else s);
                (_, s) \<leftarrow> resume_app_via_self_id D pid s;
                (es, s) \<leftarrow> lift (d_elev D) s;
                (case es of None \<Rightarrow> fail s
                 | Some es \<Rightarrow> do {
                   ((r, _), s) \<leftarrow> ptrace_raw D PT_CONTINUE pid [] 0 s;
                   s \<leftarrow> lift2 (d_unelev D es) s;
                   if r \<noteq> 0 then fail s
                   else do {
                     i \<leftarrow> curdbgcli s;
                     (rc, s) \<leftarrow> connect_debugger D i s;
                     if rc \<noteq> 0 then fail s
                     else Some (0, set_client i (debugging_update (\<lambda>_. 1)) (ctx_set i 0 (le_bytes 4 pid) s), send_int32 CMD_SUCCESS c) } }) } }) })"

definition debug_detach_handle :: "'s dbg_ops \<Rightarrow> (('s, 'z) dbg_scheme, 'c conn_scheme) handler" where
  "debug_detach_handle D packet = (\<lambda>(s, c). do {
     s \<leftarrow> debug_full_teardown D (curdbgcli s) s;
     Some (0, s, send_int32 CMD_SUCCESS c) })"

section \<open>Breakpoints\<close>

definition MAX_BREAKPOINTS :: nat where "MAX_BREAKPOINTS = 30"

record cmd_debug_breakpt_packet =
  bk_index :: u32
  bk_enabled :: u32
  bk_address :: u64

definition breakpt_packet :: "ptr \<Rightarrow> cmd_debug_breakpt_packet" where
  "breakpt_packet p = \<lparr>bk_index = ld32 p, bk_enabled = ld32 (shift p 4), bk_address = ld64 (shift p 8)\<rparr>"

text \<open>Commands that need a session: the slot and the process, or the error.\<close>

definition in_session ::
    "(nat \<Rightarrow> u32 \<Rightarrow> ('s, 'z) dbg_scheme \<times> 'c conn_scheme \<Rightarrow> (int \<times> ('s, 'z) dbg_scheme \<times> 'c conn_scheme) option) \<Rightarrow> int
      \<Rightarrow> ('s, 'z) dbg_scheme \<times> 'c conn_scheme \<Rightarrow> (int \<times> ('s, 'z) dbg_scheme \<times> 'c conn_scheme) option" where
  "in_session f rc = (\<lambda>(s, c).
     if g_debug_attached s = 0 then Some (rc, s, send_int32 CMD_ERROR c)
     else do {
       i \<leftarrow> curdbgcli s;
       if ctx_pid (ctx_at i s) = 0 then Some (rc, s, send_int32 CMD_ERROR c)
       else f i (ctx_pid (ctx_at i s)) (s, c) })"

definition enable_breakpoint :: "'s dbg_ops \<Rightarrow> nat \<Rightarrow> u32 \<Rightarrow> nat \<Rightarrow> u64 \<Rightarrow> ('s, 'z) dbg_scheme \<Rightarrow> ('s, 'z) dbg_scheme option" where
  "enable_breakpoint D i pid b address s =
     (let s = ctx_set i (b * 0x18 + 0x10) (le_bytes 8 address) (ctx_set i (b * 0x18 + 0x08) (le_bytes 4 (1 :: u32)) s) in do {
        (byte, s) \<leftarrow> lift (d_read D pid address [bp_saved (ctx_at i s) b]) s;
        lift2 (d_write D pid address [0xCC]) (ctx_set i (b * 0x18 + 0x18) byte s) })"

definition remove_breakpoint :: "'s dbg_ops \<Rightarrow> u32 \<Rightarrow> u64 \<Rightarrow> byte \<Rightarrow> ('s, 'z) dbg_scheme \<Rightarrow> ('s, 'z) dbg_scheme option" where
  \<comment> \<open>puts the saved byte back and sends threads that wait at the breakpoint on their way\<close>
  "remove_breakpoint D pid addr saved s = do {
     (es, s) \<leftarrow> lift (d_elev D) s;
     (lws, s) \<leftarrow> int3_scan_stuck D pid [addr] s;
     s \<leftarrow> lift2 (d_write D pid addr [saved]) s;
     s \<leftarrow> (if lws \<noteq> [] then int3_resume_lwps D pid (take INT3_REWIND_MAX lws) s else Some s);
     (_, s) \<leftarrow> ptrace_raw D PT_CONTINUE pid [] 0 s;
     s \<leftarrow> (case es of Some es \<Rightarrow> lift2 (d_unelev D es) s | None \<Rightarrow> Some s);
     Some (if length (g_recently_disabled_bps s) < INT3_REWIND_MAX
           then s\<lparr>g_recently_disabled_bps := g_recently_disabled_bps s @ [addr]\<rparr> else s)
   }"

definition disable_breakpoint :: "'s dbg_ops \<Rightarrow> nat \<Rightarrow> u32 \<Rightarrow> nat \<Rightarrow> ('s, 'z) dbg_scheme \<Rightarrow> ('s, 'z) dbg_scheme option" where
  "disable_breakpoint D i pid b s =
     (let x = ctx_at i s; addr = bp_address x b in do {
        s \<leftarrow> (if bp_enabled x b \<noteq> 0 \<and> addr \<noteq> 0 then remove_breakpoint D pid addr (bp_saved x b) s else Some s);
        Some (ctx_set i (b * 0x18 + 0x10) (le_bytes 8 (0 :: u64)) (ctx_set i (b * 0x18 + 0x08) (le_bytes 4 (0 :: u32)) s)) })"

definition debug_set_breakpoint_handle :: "'s dbg_ops \<Rightarrow> (('s, 'z) dbg_scheme, 'c conn_scheme) handler" where
  "debug_set_breakpoint_handle D packet = in_session (\<lambda>i pid (s, c). case data packet of
       None \<Rightarrow> Some (1, s, send_int32 CMD_DATA_NULL c)
     | Some dp \<Rightarrow>
       let bp = breakpt_packet dp; b = unat (bk_index bp) in
       if b > MAX_BREAKPOINTS - 1 then Some (1, s, send_int32 CMD_INVALID_INDEX c)
       else do {
         s \<leftarrow> (if bk_enabled bp \<noteq> 0 then enable_breakpoint D i pid b (bk_address bp) s else disable_breakpoint D i pid b s);
         Some (0, s, send_int32 CMD_SUCCESS c) }) 1"

section \<open>Watchpoints\<close>

record cmd_debug_watchpt_packet =
  wt_index :: u32
  wt_enabled :: u32
  wt_length :: u32
  wt_breaktype :: u32
  wt_address :: u64

definition watchpt_packet :: "ptr \<Rightarrow> cmd_debug_watchpt_packet" where
  "watchpt_packet p = \<lparr>wt_index = ld32 p, wt_enabled = ld32 (shift p 4), wt_length = ld32 (shift p 8),
     wt_breaktype = ld32 (shift p 12), wt_address = ld64 (shift p 16)\<rparr>"

definition dr7_clear :: "nat \<Rightarrow> u64 \<Rightarrow> u64" where
  "dr7_clear idx dr7 = dr7 AND NOT (push_bit (idx * 4 + 16) 0xF OR push_bit (idx * 2) 3)"

definition dr7_enable :: "nat \<Rightarrow> u32 \<Rightarrow> u32 \<Rightarrow> u64 \<Rightarrow> u64" where
  "dr7_enable idx len ty dr7 =
     dr7 OR (push_bit (idx * 2) 3 OR push_bit (idx * 4 + 16) (push_bit 2 (ucast len) OR ucast ty))"

definition store_watchpoint :: "nat \<Rightarrow> cmd_debug_watchpt_packet \<Rightarrow> ('s, 'z) dbg_scheme \<Rightarrow> ('s, 'z) dbg_scheme" where
  "store_watchpoint i wp s =
     (let idx = unat (wt_index wp); dr7 = dr7_clear idx (field64 (ctx_at i s) 0x310) in
      if wt_enabled wp \<noteq> 0
      then ctx_set i 0x310 (le_bytes 8 (dr7_enable idx (wt_length wp) (wt_breaktype wp) dr7)) (ctx_set i (0x2D8 + 8 * idx) (le_bytes 8 (wt_address wp)) s)
      else ctx_set i (0x2D8 + 8 * idx) (le_bytes 8 (0 :: u64)) (ctx_set i 0x310 (le_bytes 8 dr7) s))"

fun set_all_dbregs :: "'s dbg_ops \<Rightarrow> byte list \<Rightarrow> u32 list \<Rightarrow> (bool, ('s, 'z) dbg_scheme) act" where
  "set_all_dbregs D blk [] s = Some (True, s)"
| "set_all_dbregs D blk (lw # lws) s = do {
     ((r, _), s) \<leftarrow> ptrace_raw D PT_SETDBREGS lw blk 0 s;
     if r = -1 \<and> errno s \<noteq> 0 then Some (False, s) else set_all_dbregs D blk lws s
   }"

text \<open>The outcome of the command between elevation and restoration: whether it succeeded.\<close>

definition apply_watchpoint :: "'s dbg_ops \<Rightarrow> nat \<Rightarrow> u32 \<Rightarrow> elev_state option \<Rightarrow> cmd_debug_watchpt_packet \<Rightarrow> (bool \<times> elev_state option, ('s, 'z) dbg_scheme) act" where
  "apply_watchpoint D i pid es wp s = do {
     ((stopped, l), s) \<leftarrow> threads_stopped D pid s;
     (case (stopped, l) of
        (Some True, None) \<Rightarrow> do { (es, s) \<leftarrow> resume_both D es pid s; Some ((False, es), s) }
      | (Some st, Some lws) \<Rightarrow> do {
          let s = store_watchpoint i wp s;
          (ok, s) \<leftarrow> set_all_dbregs D (drop 0x2D8 (ctx_at i s)) lws s;
          (es, s) \<leftarrow> (if st then resume_both D es pid s else Some (es, s));
          Some ((ok, es), s) }
      | _ \<Rightarrow> Some ((False, es), s)) }"

definition debug_set_watchpoint_handle :: "'s dbg_ops \<Rightarrow> (('s, 'z) dbg_scheme, 'c conn_scheme) handler" where
  "debug_set_watchpoint_handle D packet = in_session (\<lambda>i pid (s, c). case data packet of
       None \<Rightarrow> Some (1, s, send_int32 CMD_DATA_NULL c)
     | Some dp \<Rightarrow>
       let wp = watchpt_packet dp in
       if wt_index wp > 3 then Some (1, s, send_int32 CMD_INVALID_INDEX c)
       else do {
         (es, s) \<leftarrow> lift (d_elev D) s;
         (case es of None \<Rightarrow> Some (1, s, send_int32 CMD_ERROR c)
          | Some es \<Rightarrow> do {
              ((ok, es), s) \<leftarrow> apply_watchpoint D i pid (Some es) wp s;
              s \<leftarrow> (case es of Some es \<Rightarrow> lift2 (d_unelev D es) s | None \<Rightarrow> Some s);
              Some (if ok then 0 else 1, s, send_int32 (if ok then CMD_SUCCESS else CMD_ERROR) c) }) }) 1"

end
