(* ===== verification/DebugRegs.thy ===== *)
theory DebugRegs
  imports Debug
begin

text \<open>
  The commands of \<^verbatim>\<open>debugger/source/debug.c\<close> that list and control threads and transfer their
  registers, and the table of the debugger's commands. Buffers on the stack are lists of their size;
  a transfer that would write past one is a call that does not return.
\<close>

definition REG_BLOB_SIZE :: nat where "REG_BLOB_SIZE = 0xB0"
definition FPREG_BLOB_SIZE :: nat where "FPREG_BLOB_SIZE = 0x340"
definition DBREG_BLOB_SIZE :: nat where "DBREG_BLOB_SIZE = 0x80"
definition FSGSBASE_BLOB_SIZE :: nat where "FSGSBASE_BLOB_SIZE = 0x10"

section \<open>Threads\<close>

definition debug_get_thread_list_handle :: "'s dbg_ops \<Rightarrow> (('s, 'z) dbg_scheme, 'c conn_scheme) handler" where
  "debug_get_thread_list_handle D packet = in_session (\<lambda>i pid (s, c). do {
     ((count, _), s) \<leftarrow> ptrace_elev D PT_GETNUMLWPS pid [] 0 s;
     if count = -1 \<and> errno s \<noteq> 16 then Some (1, s, send_int32 CMD_ERROR c)
     else do {
       (count, we_stopped, s) \<leftarrow> (if count = -1 then do {
           s \<leftarrow> stop D pid s;
           ((count, _), s) \<leftarrow> ptrace_elev D PT_GETNUMLWPS pid [] 0 s;
           Some (count, True, s) } else Some (count, False, s));
       let (p, s) = alloc (count * 4) s;
       (l, s) \<leftarrow> (case p of None \<Rightarrow> Some (None, s) | Some p \<Rightarrow> do {
           ((r, buf), s) \<leftarrow> ptrace_elev D PT_GETLWPLIST pid (bytes_at p 0 (nat (count * 4))) count s;
           Some (if r = -1 then None else Some buf, s) });
       (case l of
          None \<Rightarrow> do {
            s \<leftarrow> (if we_stopped then map_option snd (ptrace_elev D PT_CONTINUE pid [] 0 s) else Some s);
            Some (1, s, send_int32 CMD_ERROR c) }
        | Some buf \<Rightarrow> do {
            s \<leftarrow> (if we_stopped then do {
                (_, s) \<leftarrow> resume_app_via_self_id D pid s;
                map_option snd (ptrace_elev D PT_CONTINUE pid [] 0 s) } else Some s);
            Some (0, s, send_all (take (nat (count * 4)) buf)
              (send_all (le_bytes 4 (of_int count :: u32)) (send_int32 CMD_SUCCESS c))) }) } }) 1"

definition thread_control :: "'s dbg_ops \<Rightarrow> ptrace_op \<Rightarrow> (('s, 'z) dbg_scheme, 'c conn_scheme) handler" where
  "thread_control D pop packet = (\<lambda>(s, c). do {
     pid \<leftarrow> dbg_pid s;
     if pid = 0 then Some (1, s, send_int32 CMD_ERROR c)
     else case data packet of
         None \<Rightarrow> Some (1, s, send_int32 CMD_DATA_NULL c)
       | Some dp \<Rightarrow> do {
           ((r, _), s) \<leftarrow> ptrace_elev D pop (ld32 dp) [] 0 s;
           Some (0, s, send_int32 (if r = -1 then CMD_ERROR else CMD_SUCCESS) c) } })"

definition debug_suspend_thread_handle :: "'s dbg_ops \<Rightarrow> (('s, 'z) dbg_scheme, 'c conn_scheme) handler" where
  "debug_suspend_thread_handle D = thread_control D PT_SUSPEND"

definition debug_resume_thread_handle :: "'s dbg_ops \<Rightarrow> (('s, 'z) dbg_scheme, 'c conn_scheme) handler" where
  "debug_resume_thread_handle D = thread_control D PT_RESUME"

section \<open>Registers\<close>

text \<open>The process is stopped for a transfer through the kernel and resumed afterwards.\<close>

definition while_stopped :: "'s dbg_ops \<Rightarrow> u32 \<Rightarrow> ('a, ('s, 'z) dbg_scheme) act \<Rightarrow> ('a, ('s, 'z) dbg_scheme) act" where
  "while_stopped D pid f s = do {
     (st, s) \<leftarrow> lift (d_stopped D pid) s;
     s \<leftarrow> (if st then Some s else stop D pid s);
     (r, s) \<leftarrow> f s;
     s \<leftarrow> (if st then Some s else do {
         (_, s) \<leftarrow> resume_app_via_self_id D pid s;
         map_option snd (ptrace_elev D PT_CONTINUE pid [] 0 s) });
     Some (r, s)
   }"

definition recv_blob :: "nat \<Rightarrow> byte list \<Rightarrow> u32 \<Rightarrow> 'c conn_scheme \<Rightarrow> (int \<times> byte list \<times> 'c conn_scheme) option" where
  \<comment> \<open>a receive into a stack buffer of \<open>size\<close> bytes\<close>
  "recv_blob sz buf len c =
     (if sint len > int sz then None
      else case net_recv_all (of_list buf) (sint len) 1 c of (rc, p, c) \<Rightarrow> Some (rc, bytes_at p 0 sz, c))"

definition reply_blob :: "int \<Rightarrow> byte list \<Rightarrow> ('s, 'z) dbg_scheme \<Rightarrow> 'c conn_scheme \<Rightarrow> (int \<times> ('s, 'z) dbg_scheme \<times> 'c conn_scheme) option" where
  "reply_blob rc buf s c =
     Some (0, s, if rc = 0 then send_all buf (send_int32 CMD_SUCCESS c) else send_int32 CMD_ERROR c)"

definition debug_getregs_handle :: "'s dbg_ops \<Rightarrow> (('s, 'z) dbg_scheme, 'c conn_scheme) handler" where
  "debug_getregs_handle D packet = in_session (\<lambda>i pid (s, c). case data packet of
       None \<Rightarrow> Some (1, s, send_int32 CMD_DATA_NULL c)
     | Some dp \<Rightarrow> do {
         ((r, buf), s) \<leftarrow> ptrace_elev D PT_GETREGS (ld32 dp) (replicate REG_BLOB_SIZE 0) 0 s;
         reply_blob (if r = -1 \<and> errno s \<noteq> 0 then 1 else 0) buf s c }) 0"

text \<open>The registers go to the process, not to the thread the request names.\<close>

definition debug_setregs_handle :: "'s dbg_ops \<Rightarrow> (('s, 'z) dbg_scheme, 'c conn_scheme) handler" where
  "debug_setregs_handle D packet = in_session (\<lambda>i pid (s, c). case data packet of
       None \<Rightarrow> Some (0, s, send_int32 CMD_ERROR c)
     | Some dp \<Rightarrow> do {
         (_, buf, c) \<leftarrow> recv_blob REG_BLOB_SIZE (bytes_at (d_stack D) 0 REG_BLOB_SIZE) (ld32 (shift dp 4)) (send_int32 CMD_SUCCESS c);
         ((r, _), s) \<leftarrow> ptrace_elev D PT_SETREGS pid buf 0 s;
         Some (0, s, send_int32 (if r = -1 \<and> errno s \<noteq> 0 then CMD_ERROR else CMD_SUCCESS) c) }) 0"

definition debug_getfpregs_handle :: "'s dbg_ops \<Rightarrow> (('s, 'z) dbg_scheme, 'c conn_scheme) handler" where
  "debug_getfpregs_handle D packet = in_session (\<lambda>i pid (s, c). case data packet of
       None \<Rightarrow> Some (1, s, send_int32 CMD_DATA_NULL c)
     | Some dp \<Rightarrow> do {
         ((rc, prc, buf), s) \<leftarrow> while_stopped D pid (\<lambda>s. do {
             ((rc, buf), s) \<leftarrow> lift (d_get_fpregs D pid (ld32 dp) (replicate FPREG_BLOB_SIZE 0)) s;
             ((prc, buf), s) \<leftarrow> (if rc \<noteq> 0 then ptrace_elev D PT_GETFPREGS (ld32 dp) buf 0 s else Some ((0, buf), s));
             Some ((rc, prc, buf), s) }) s;
         reply_blob (if rc \<noteq> 0 \<and> prc = -1 \<and> errno s \<noteq> 0 then 1 else 0) buf s c }) 0"

definition debug_setfpregs_handle :: "'s dbg_ops \<Rightarrow> (('s, 'z) dbg_scheme, 'c conn_scheme) handler" where
  "debug_setfpregs_handle D packet = in_session (\<lambda>i pid (s, c). case data packet of
       None \<Rightarrow> Some (0, s, send_int32 CMD_ERROR c)
     | Some dp \<Rightarrow>
       let len = ld32 (shift dp 4) in
       if unat len > FPREG_BLOB_SIZE then Some (0, s, send_int32 CMD_ERROR c)
       else do {
         (rr, buf, c) \<leftarrow> recv_blob FPREG_BLOB_SIZE (replicate FPREG_BLOB_SIZE 0) len (send_int32 CMD_SUCCESS c);
         if rr < 0 then Some (0, s, send_int32 CMD_ERROR c)
         else do {
           ((applied, prc), s) \<leftarrow> while_stopped D pid (\<lambda>s. do {
               (applied, s) \<leftarrow> (if unat len = FPREG_BLOB_SIZE
                 then do { (rc, s) \<leftarrow> lift (d_set_fpregs D pid (ld32 dp) buf) s; Some (rc = 0, s) } else Some (False, s));
               ((prc, _), s) \<leftarrow> (if applied then Some ((0, buf), s) else ptrace_elev D PT_SETFPREGS pid buf 0 s);
               Some ((applied, prc), s) }) s;
           Some (0, s, send_int32 (if \<not> applied \<and> prc = -1 \<and> errno s \<noteq> 0 then CMD_ERROR else CMD_SUCCESS) c) } }) 0"

text \<open>A failure leaves the process stopped.\<close>

definition debug_getdbregs_handle :: "'s dbg_ops \<Rightarrow> (('s, 'z) dbg_scheme, 'c conn_scheme) handler" where
  "debug_getdbregs_handle D packet = in_session (\<lambda>i pid (s, c). case data packet of
       None \<Rightarrow> Some (1, s, send_int32 CMD_DATA_NULL c)
     | Some dp \<Rightarrow> do {
         (st, s) \<leftarrow> lift (d_stopped D pid) s;
         s \<leftarrow> (if st then Some s else stop D pid s);
         (kpath, s) \<leftarrow> lift (d_kernel_path D) s;
         ((rc, buf), s) \<leftarrow> (if kpath then lift (d_get_dbregs D pid (ld32 dp) (replicate DBREG_BLOB_SIZE 0)) s
           else do {
             ((r, buf), s) \<leftarrow> ptrace_elev D PT_GETDBREGS (ld32 dp) (replicate DBREG_BLOB_SIZE 0) 0 s;
             Some ((if r = -1 \<and> errno s \<noteq> 0 then 1 else 0, buf), s) });
         if rc \<noteq> 0 then Some (0, s, send_int32 CMD_ERROR c)
         else do {
           s \<leftarrow> (if st then Some s else do {
               (_, s) \<leftarrow> resume_app_via_self_id D pid s;
               map_option snd (ptrace_elev D PT_CONTINUE pid [] 0 s) });
           reply_blob 0 buf s c } }) 0"

definition debug_setdbregs_handle :: "'s dbg_ops \<Rightarrow> (('s, 'z) dbg_scheme, 'c conn_scheme) handler" where
  "debug_setdbregs_handle D packet = in_session (\<lambda>i pid (s, c). case data packet of
       None \<Rightarrow> Some (0, s, send_int32 CMD_ERROR c)
     | Some dp \<Rightarrow> do {
         (_, buf, c) \<leftarrow> recv_blob DBREG_BLOB_SIZE (bytes_at (d_stack D) 0 DBREG_BLOB_SIZE) (ld32 (shift dp 4)) (send_int32 CMD_SUCCESS c);
         (_, s) \<leftarrow> ptrace_elev D PT_CONTINUE pid [] 0 s;
         s \<leftarrow> stop D pid s;
         ((r, _), s) \<leftarrow> ptrace_elev D PT_SETDBREGS (ld32 dp) buf 0 s;
         if r = -1 \<and> errno s \<noteq> 0 then Some (0, s, send_int32 CMD_ERROR c)
         else do {
           (_, s) \<leftarrow> resume_app_via_self_id D pid s;
           (_, s) \<leftarrow> ptrace_elev D PT_CONTINUE pid [] 0 s;
           Some (0, s, send_int32 CMD_SUCCESS c) } }) 0"

definition debug_getfsgsbase_handle :: "'s dbg_ops \<Rightarrow> (('s, 'z) dbg_scheme, 'c conn_scheme) handler" where
  "debug_getfsgsbase_handle D packet = in_session (\<lambda>i pid (s, c). case data packet of
       None \<Rightarrow> Some (1, s, send_int32 CMD_DATA_NULL c)
     | Some dp \<Rightarrow> do {
         ((rc, buf), s) \<leftarrow> while_stopped D pid (lift (d_get_fsgs D pid (ld32 dp) (replicate FSGSBASE_BLOB_SIZE 0))) s;
         reply_blob rc buf s c }) 0"

definition debug_setfsgsbase_handle :: "'s dbg_ops \<Rightarrow> (('s, 'z) dbg_scheme, 'c conn_scheme) handler" where
  "debug_setfsgsbase_handle D packet = in_session (\<lambda>i pid (s, c). case data packet of
       None \<Rightarrow> Some (0, s, send_int32 CMD_ERROR c)
     | Some dp \<Rightarrow>
       if unat (ld32 (shift dp 4)) \<noteq> FSGSBASE_BLOB_SIZE then Some (0, s, send_int32 CMD_ERROR c)
       else do {
         (rr, buf, c) \<leftarrow> recv_blob FSGSBASE_BLOB_SIZE (replicate FSGSBASE_BLOB_SIZE 0) (ld32 (shift dp 4)) (send_int32 CMD_SUCCESS c);
         if rr < 0 then Some (0, s, send_int32 CMD_ERROR c)
         else do {
           (rc, s) \<leftarrow> while_stopped D pid (lift (d_set_fsgs D pid (ld32 dp) buf)) s;
           Some (0, s, send_int32 (if rc \<noteq> 0 then CMD_ERROR else CMD_SUCCESS) c) } }) 0"

section \<open>Thread information\<close>

partial_function (option) info_loop :: "'s dbg_ops \<Rightarrow> u32 \<Rightarrow> u64 \<Rightarrow> byte list \<Rightarrow> 's \<Rightarrow> (byte list option \<times> 's) option" where
  \<comment> \<open>the entry of the thread in the list from \<open>kthread\<close> on\<close>
  "info_loop D lwpid kthread tbuf l =
     (let (rc, tbuf, l) = d_out D kthread tbuf l in
      if rc \<noteq> 0 then Some (None, l)
      else if field32 tbuf 0x9c = lwpid then Some (Some tbuf, l)
      else if field64 tbuf 0x10 = 0 then Some (None, l)
      else info_loop D lwpid (field64 tbuf 0x10) tbuf l)"

definition kern_get_thread_info :: "'s dbg_ops \<Rightarrow> u32 \<Rightarrow> u32 \<Rightarrow> 's \<Rightarrow> ((u16 \<times> byte list) option \<times> 's) option" where
  \<comment> \<open>priority and name of a thread\<close>
  "kern_get_thread_info D pid lwpid l =
     (if pid = 0 then Some (None, l)
      else do {
        (kproc, l) \<leftarrow> d_get_proc D pid l;
        if kproc = 0 then Some (None, l)
        else let (rc, hdr, l) = d_out D (kproc + 0x10) (bytes_at (d_stack D) 0 0x30) l in
          if rc \<noteq> 0 then Some (None, l)
          else if field64 hdr 0 = 0 then Some (None, l)
          else do {
            (r, l) \<leftarrow> info_loop D lwpid (field64 hdr 0) (bytes_at (d_stack D) 0 0x680) l;
            Some (map_option (\<lambda>tbuf. (le_load 2 (shift (of_list tbuf) 0x3c0), take 0x20 (drop 0x294 tbuf))) r, l) } })"

definition debug_thread_info_handle :: "'s dbg_ops \<Rightarrow> (('s, 'z) dbg_scheme, 'c conn_scheme) handler" where
  "debug_thread_info_handle D packet = in_session (\<lambda>i pid (s, c). case data packet of
       None \<Rightarrow> Some (1, s, send_int32 CMD_DATA_NULL c)
     | Some dp \<Rightarrow> do {
         (r, s) \<leftarrow> while_stopped D pid (lift (kern_get_thread_info D pid (ld32 dp))) s;
         (case r of None \<Rightarrow> Some (1, s, send_int32 CMD_ERROR c)
          | Some (prio, name) \<Rightarrow>
            Some (0, s, send_all (le_bytes 4 (ld32 dp) @ le_bytes 4 (ucast prio :: u32) @ name[31 := 0]) (send_int32 CMD_SUCCESS c))) }) 1"

section \<open>Stepping\<close>

definition debug_step_handle :: "'s dbg_ops \<Rightarrow> (('s, 'z) dbg_scheme, 'c conn_scheme) handler" where
  "debug_step_handle D packet = in_session (\<lambda>i pid (s, c). do {
     ((r, _), s) \<leftarrow> ptrace_elev D PT_STEP pid [] 0 s;
     Some (if r \<noteq> 0 then 1 else 0, s, send_int32 (if r \<noteq> 0 then CMD_ERROR else CMD_SUCCESS) c) }) 1"

fun drain :: "'s dbg_ops \<Rightarrow> nat \<Rightarrow> u32 \<Rightarrow> ('s, 'z) dbg_scheme \<Rightarrow> ('s, 'z) dbg_scheme option" where
  "drain D 0 pid s = Some s"
| "drain D (Suc n) pid s = do { ((r, _), s) \<leftarrow> lift (d_wait4 D pid 1) s; if r > 0 then drain D n pid s else Some s }"

definition debug_step_thread_handle :: "'s dbg_ops \<Rightarrow> (('s, 'z) dbg_scheme, 'c conn_scheme) handler" where
  "debug_step_thread_handle D packet = in_session (\<lambda>i pid (s, c). do {
     ((r, _), s) \<leftarrow> (case data packet of
         Some dp \<Rightarrow> do {
           s \<leftarrow> drain D 64 pid s;
           ptrace_elev D PT_STEP (ld32 dp) [] 0 (s\<lparr>g_stepping_lwpid := ld32 dp\<rparr>) }
       | None \<Rightarrow> ptrace_elev D PT_STEP pid [] 0 s);
     Some (if r \<noteq> 0 then 1 else 0, s, send_int32 (if r \<noteq> 0 then CMD_ERROR else CMD_SUCCESS) c) }) 1"

section \<open>Dispatch\<close>

definition debug_table :: "'s dbg_ops \<Rightarrow> (u32 \<times> (('s, 'z) dbg_scheme, 'c conn_scheme) handler) list" where
  "debug_table D =
     [(0xBDBB0500, debug_process_stop_handle D), (0xBDBB0001, debug_attach_handle D), (0xBDBB0002, debug_detach_handle D),
      (0xBDBB0003, debug_set_breakpoint_handle D), (0xBDBB0004, debug_set_watchpoint_handle D),
      (0xBDBB0005, debug_get_thread_list_handle D), (0xBDBB0006, debug_suspend_thread_handle D),
      (0xBDBB0007, debug_resume_thread_handle D), (0xBDBB0008, debug_getregs_handle D), (0xBDBB0009, debug_setregs_handle D),
      (0xBDBB000A, debug_getfpregs_handle D), (0xBDBB000B, debug_setfpregs_handle D), (0xBDBB000C, debug_getdbregs_handle D),
      (0xBDBB000D, debug_setdbregs_handle D), (0xBDBB000E, debug_getfsgsbase_handle D), (0xBDBB000F, debug_setfsgsbase_handle D),
      (0xBDBB0010, debug_continue_handle D), (0xBDBB0011, debug_thread_info_handle D), (0xBDBB0012, debug_step_handle D),
      (0xBDBB0013, debug_step_thread_handle D)]"

definition debug_handle :: "'s dbg_ops \<Rightarrow> (('s, 'z) dbg_scheme, 'c conn_scheme) handler" where
  "debug_handle D packet = (\<lambda>(s, c). case map_of (debug_table D) (cmd packet) of
       Some h \<Rightarrow> h packet (s, c)
     | None \<Rightarrow> Some (0, s, send_int32 CMD_ERROR c))"

end
