(* ===== verification/DebugEvents.thy ===== *)
theory DebugEvents
  imports DebugRegs
begin

text \<open>
  The event monitor of the debugger core, \<^verbatim>\<open>debugger/source/debug.c\<close> lines 1238 to 1670: it runs
  between the commands of a client, resumes the process when it was told to, and reports a stop of
  the process to the client. A thread that stopped at a breakpoint is stepped over it: the replaced
  byte is put back for one step and the breakpoint instruction planted again.

  The packet for the client is kept in its parts, the registers of the thread that stopped; its bytes
  are put together where it is sent.
\<close>

section \<open>Resuming on request\<close>

definition debug_handle_breakpoint_resume :: "'s dbg_ops \<Rightarrow> ('s, 'z) dbg_scheme \<Rightarrow> ('s, 'z) dbg_scheme option" where
  "debug_handle_breakpoint_resume D s =
     (let sig = g_stopgo_resume_signal s; pid = g_stopgo_resume_pid s in
      if g_debug_attached s = 0 then Some s
      else if sig = 0xFFFFFFFF then Some s
      else do {
        s \<leftarrow> (if sig = 0 \<and> g_recently_disabled_bps s \<noteq> []
             then map_option (g_recently_disabled_bps_update (\<lambda>_. [])) (int3_iterative_sweep D pid (g_recently_disabled_bps s) s)
             else Some s);
        s \<leftarrow> (if sig = 0 then map_option snd (resume_app_via_self_id D pid s) else Some s);
        (_, s) \<leftarrow> ptrace_raw D PT_CONTINUE pid [] (sint sig) s;
        s \<leftarrow> (if g_stopgo_resume_signal s = 17 then wait4_timeout D pid s else Some s);
        Some (s\<lparr>g_stopgo_resume_signal := 0xFFFFFFFF, g_stopgo_resume_pid := 0\<rparr>) })"

section \<open>Finding what stopped the thread\<close>

definition find_bp :: "byte list \<Rightarrow> u64 \<Rightarrow> nat option" where
  "find_bp x a = List.find (\<lambda>i. bp_address x i \<noteq> 0 \<and> bp_address x i = a) [0..<30]"

definition find_wp :: "byte list \<Rightarrow> u64 \<Rightarrow> nat option" where
  "find_wp db rip = List.find (\<lambda>i. field64 db (8 * i) \<noteq> 0 \<and> field64 db (8 * i) = rip) [0..<4]"

text \<open>A stop next to a breakpoint that the step over it explains is not reported: a trap behind it or
  a breakpoint at it. \<open>True\<close> where the process was resumed for that reason.\<close>

definition absorb_one :: "'s dbg_ops \<Rightarrow> u32 \<Rightarrow> byte list \<Rightarrow> u32 \<Rightarrow> u64 \<Rightarrow> (bool, ('s, 'z) dbg_scheme) act" where
  "absorb_one D pid x lwpid back s = do {
     ((rc, rip), s) \<leftarrow> kern_get_rip_fast D pid lwpid 0 s;
     if rc = 0 \<and> find_bp x (rip - back) \<noteq> None
     then do { (_, s) \<leftarrow> ptrace_raw D PT_CONTINUE pid [] 0 s; Some (True, s) }
     else Some (False, s)
   }"

definition absorb :: "'s dbg_ops \<Rightarrow> u32 \<Rightarrow> byte list \<Rightarrow> byte list \<Rightarrow> (bool, ('s, 'z) dbg_scheme) act" where
  "absorb D pid x li s =
     (if field32 li 0x38 = 2 then absorb_one D pid x (field32 li 0) 1 s
      else if field32 li 0x38 = 1 then absorb_one D pid x (field32 li 0) 0 s
      else Some (False, s))"

text \<open>The registers of the thread: general, floating point and debug registers, or \<open>None\<close> where one of
  them could not be read.\<close>

definition ptrace_or :: "'s dbg_ops \<Rightarrow> ptrace_op \<Rightarrow> u32 \<Rightarrow> int \<times> byte list \<Rightarrow> (byte list option, ('s, 'z) dbg_scheme) act" where
  \<comment> \<open>by \<^verbatim>\<open>ptrace\<close> where the kernel path failed\<close>
  "ptrace_or D pop lwpid r s = (case r of (rc, buf) \<Rightarrow>
     if rc = 0 then Some (Some buf, s)
     else do { ((p, buf), s) \<leftarrow> ptrace_raw D pop lwpid buf 0 s; Some (if p \<noteq> 0 then None else Some buf, s) })"

definition kernel_state :: "'s dbg_ops \<Rightarrow> u32 \<Rightarrow> u32 \<Rightarrow> ((byte list \<times> byte list \<times> int \<times> byte list) option, ('s, 'z) dbg_scheme) act" where
  \<comment> \<open>through the kernel; the last two are the result for the debug registers\<close>
  "kernel_state D pid lwpid s = do {
     let fpu = bytes_at (d_stack D) 0 832;
     ((rc, regs, db, fpu), s) \<leftarrow> lift (d_full_state D pid lwpid (replicate 176 0, replicate 128 0, fpu)) s;
     if rc = 0 then Some (Some (regs, fpu, 0, db), s)
     else do {
       (r, s) \<leftarrow> lift (d_get_regs D pid lwpid regs) s;
       (regs, s) \<leftarrow> ptrace_or D PT_GETREGS lwpid r s;
       (case regs of None \<Rightarrow> Some (None, s)
        | Some regs \<Rightarrow> do {
            (r, s) \<leftarrow> lift (d_install D pid lwpid fpu) s;
            (fpu, s) \<leftarrow> ptrace_or D PT_GETFPREGS lwpid r s;
            (case fpu of None \<Rightarrow> Some (None, s)
             | Some fpu \<Rightarrow> do {
                 ((rc, db), s) \<leftarrow> lift (d_get_dbregs D pid lwpid db) s;
                 Some (Some (regs, fpu, rc, db), s) }) }) } }"

definition ptrace_state :: "'s dbg_ops \<Rightarrow> u32 \<Rightarrow> ((byte list \<times> byte list \<times> int \<times> byte list) option, ('s, 'z) dbg_scheme) act" where
  "ptrace_state D lwpid s = do {
     (regs, s) \<leftarrow> ptrace_or D PT_GETREGS lwpid (1, replicate 176 0) s;
     (case regs of None \<Rightarrow> Some (None, s)
      | Some regs \<Rightarrow> do {
          (fpu, s) \<leftarrow> ptrace_or D PT_GETFPREGS lwpid (1, replicate 832 0) s;
          Some (map_option (\<lambda>fpu. (regs, fpu, 1, replicate 128 0)) fpu, s) }) }"

definition thread_state :: "'s dbg_ops \<Rightarrow> bool \<Rightarrow> u32 \<Rightarrow> u32 \<Rightarrow> ((byte list \<times> byte list \<times> byte list) option, ('s, 'z) dbg_scheme) act" where
  "thread_state D kpath pid lwpid s = do {
     (r, s) \<leftarrow> (if kpath then kernel_state D pid lwpid s else ptrace_state D lwpid s);
     (case r of None \<Rightarrow> Some (None, s)
      | Some (regs, fpu, rc, db) \<Rightarrow> do {
          (db, s) \<leftarrow> ptrace_or D PT_GETDBREGS lwpid (rc, db) s;
          Some (map_option (\<lambda>db. (regs, fpu, db)) db, s) }) }"

section \<open>Steps\<close>

partial_function (option) wait_step :: "'s dbg_ops \<Rightarrow> u32 \<Rightarrow> ('s, 'z) dbg_scheme \<Rightarrow> ('s, 'z) dbg_scheme option" where
  "wait_step D pid s = do {
     ((r, _), s) \<leftarrow> lift (d_wait4 D pid 1) s;
     if r = 0 then wait_step D pid (lift1 (d_sleep D 50) s) else Some s
   }"

definition put_dbregs :: "'s dbg_ops \<Rightarrow> bool \<Rightarrow> u32 \<Rightarrow> u32 \<Rightarrow> byte list \<Rightarrow> ('s, 'z) dbg_scheme \<Rightarrow> ('s, 'z) dbg_scheme option" where
  "put_dbregs D kpath pid lwpid db s =
     (if kpath then map_option snd (lift (d_set_dbregs D pid lwpid db) s)
      else map_option snd (ptrace_raw D PT_SETDBREGS lwpid db 0 s))"

definition step_and_wait :: "'s dbg_ops \<Rightarrow> u32 \<Rightarrow> u32 \<Rightarrow> ('s, 'z) dbg_scheme \<Rightarrow> ('s, 'z) dbg_scheme option" where
  "step_and_wait D pid lwpid s = do { (_, s) \<leftarrow> ptrace_raw D PT_STEP lwpid [] 0 s; wait_step D pid s }"

text \<open>One step with the fields of DR7 in \<open>keep\<close> only.\<close>

definition dr7_of :: "byte list \<Rightarrow> u64" where "dr7_of db = field64 db 0x38"

definition with_dr7 :: "byte list \<Rightarrow> u64 \<Rightarrow> byte list" where "with_dr7 db v = splice db 0x38 (le_bytes 8 v)"

definition step_over_wp :: "'s dbg_ops \<Rightarrow> bool \<Rightarrow> u32 \<Rightarrow> u32 \<Rightarrow> u64 \<Rightarrow> byte list \<Rightarrow> ('s, 'z) dbg_scheme \<Rightarrow> ('s, 'z) dbg_scheme option" where
  "step_over_wp D kpath pid lwpid keep db s = do {
     s \<leftarrow> set_dbregs D kpath pid lwpid (with_dr7 db (dr7_of db AND keep)) s;
     s \<leftarrow> step_and_wait D pid lwpid s;
     put_dbregs D kpath pid lwpid db s
   }"

text \<open>Another thread that stands at the same address, where its watchpoint is one on execution.\<close>

definition sibling_wp :: "'s dbg_ops \<Rightarrow> bool \<Rightarrow> u32 \<Rightarrow> nat \<Rightarrow> u64 \<Rightarrow> u32 \<Rightarrow> ('s, 'z) dbg_scheme \<Rightarrow> ('s, 'z) dbg_scheme option" where
  "sibling_wp D kpath pid cl2 keep lwp s = do {
     ((_, db), s) \<leftarrow> ptrace_raw D PT_GETDBREGS lwp (bytes_at (d_stack D) 0 128) 0 s;
     if drop_bit cl2 (dr7_of db) AND 3 \<noteq> 0 then Some s
     else do {
       (_, s) \<leftarrow> ptrace_raw D PT_SETDBREGS lwp (with_dr7 db (dr7_of db AND keep)) 0 s;
       s \<leftarrow> step_and_wait D pid lwp s;
       put_dbregs D kpath pid lwp db s } }"

fun wp_lwps :: "'s dbg_ops \<Rightarrow> bool \<Rightarrow> u32 \<Rightarrow> u32 \<Rightarrow> u64 \<Rightarrow> nat \<Rightarrow> u64 \<Rightarrow> byte list \<Rightarrow> u32 list \<Rightarrow> byte list
    \<Rightarrow> ('s, 'z) dbg_scheme \<Rightarrow> ('s, 'z) dbg_scheme option" where
  "wp_lwps D kpath pid lwpid rip cl2 keep db [] lbuf s = Some s"
| "wp_lwps D kpath pid lwpid rip cl2 keep db (lwp # lws) lbuf s =
     (if lwp = lwpid then do {
        s \<leftarrow> (if drop_bit cl2 (dr7_of db) AND 3 = 0 then step_over_wp D kpath pid lwpid keep db s else Some s);
        wp_lwps D kpath pid lwpid rip cl2 keep db lws lbuf s }
      else do {
        ((rc, lbuf), s) \<leftarrow> (if kpath then lift (d_get_regs D pid lwp lbuf) s else Some ((1, lbuf), s));
        (lbuf, s) \<leftarrow> (if rc \<noteq> 0 then map_option (\<lambda>((_, b), s). (b, s)) (ptrace_raw D PT_GETREGS lwp lbuf 0 s) else Some (lbuf, s));
        s \<leftarrow> (if field64 lbuf 0x88 \<noteq> rip then Some s else sibling_wp D kpath pid cl2 keep lwp s);
        wp_lwps D kpath pid lwpid rip cl2 keep db lws lbuf s })"

definition handle_wp :: "'s dbg_ops \<Rightarrow> bool \<Rightarrow> u32 \<Rightarrow> u32 \<Rightarrow> u64 \<Rightarrow> nat \<Rightarrow> byte list \<Rightarrow> ('s, 'z) dbg_scheme \<Rightarrow> ('s, 'z) dbg_scheme option" where
  "handle_wp D kpath pid lwpid rip wp db s =
     (let cl2 = wp * 4 + 16; keep = NOT (push_bit cl2 0xF OR push_bit (wp * 2) 3) in do {
        ((num, _), s) \<leftarrow> ptrace_raw D PT_GETNUMLWPS pid [] 0 s;
        if num > 0 then
          case alloc (num * 4) s of
              (None, s) \<Rightarrow> Some s
            | (Some p, s) \<Rightarrow> do {
                ((r, buf), s) \<leftarrow> ptrace_raw D PT_GETLWPLIST pid (bytes_at p 0 (nat (num * 4))) num s;
                if r > 0 then wp_lwps D kpath pid lwpid rip cl2 keep db (lwps_of buf (nat num)) (bytes_at (d_stack D) 0 176) s
                else Some s }
        else if drop_bit cl2 (dr7_of db) AND 3 = 0 then step_over_wp D kpath pid lwpid keep db s
        else Some s })"

definition data_wp :: "byte list \<Rightarrow> bool" where
  \<comment> \<open>a watchpoint on data is set\<close>
  "data_wp db \<longleftrightarrow> (\<exists>i\<in>set [0..<4]. drop_bit (i * 2) (dr7_of db) AND 3 \<noteq> 0 \<and> drop_bit (16 + i * 4) (dr7_of db) AND 3 \<noteq> 0 \<and> field64 db (8 * i) \<noteq> 0)"

section \<open>Stepping over a breakpoint\<close>

text \<open>A thread that the same breakpoint stopped during the step is set back to it; \<open>True\<close> where that was done.\<close>

definition rewind_thread :: "'s dbg_ops \<Rightarrow> u32 \<Rightarrow> u32 \<Rightarrow> u64 \<Rightarrow> (bool, ('s, 'z) dbg_scheme) act" where
  "rewind_thread D pid lw bp_addr s = do {
     ((rc, rip), s) \<leftarrow> kern_get_rip_fast D pid lw 0 s;
     if rc \<noteq> 0 \<or> rip \<noteq> bp_addr + 1 then Some (False, s)
     else do {
       ((r, li), s) \<leftarrow> ptrace_raw D PT_LWPINFO lw (bytes_at (d_stack D) 0 160) 160 s;
       if r \<noteq> 0 \<or> \<not> trap_stop li then Some (False, s)
       else do {
         ((rc, regs), s) \<leftarrow> lift (d_get_regs D pid lw (bytes_at (d_stack D) 0 176)) s;
         if rc \<noteq> 0 \<or> field64 regs 0x88 \<noteq> bp_addr + 1 then Some (False, s)
         else do {
           (_, s) \<leftarrow> lift (d_set_regs D pid lw (splice regs 0x88 (le_bytes 8 bp_addr))) s;
           Some (True, s) } } } }"

fun rewind_siblings :: "'s dbg_ops \<Rightarrow> u32 \<Rightarrow> u32 \<Rightarrow> u32 \<Rightarrow> u64 \<Rightarrow> u32 list \<Rightarrow> ('s, 'z) dbg_scheme \<Rightarrow> ('s, 'z) dbg_scheme option" where
  "rewind_siblings D pid lwpid cons_lw bp_addr [] s = Some s"
| "rewind_siblings D pid lwpid cons_lw bp_addr (lw # lws) s = do {
     s \<leftarrow> (if lw = lwpid \<or> lw = cons_lw then Some s else map_option snd (rewind_thread D pid lw bp_addr s));
     rewind_siblings D pid lwpid cons_lw bp_addr lws s }"

definition rewind_others :: "'s dbg_ops \<Rightarrow> u32 \<Rightarrow> u32 \<Rightarrow> u64 \<Rightarrow> ('s, 'z) dbg_scheme \<Rightarrow> ('s, 'z) dbg_scheme option" where
  "rewind_others D pid lwpid bp_addr s = do {
     ((r, li), s) \<leftarrow> ptrace_raw D PT_LWPINFO pid (bytes_at (d_stack D) 0 160) 160 s;
     let cons_lw = (if r = 0 then field32 li 0 else -1);
     if r = 0 \<and> (cons_lw = 0 \<or> cons_lw = lwpid) then Some s
     else do {
       (rewound, s) \<leftarrow> (if sint cons_lw > 0 \<and> cons_lw \<noteq> lwpid then rewind_thread D pid cons_lw bp_addr s else Some (False, s));
       if rewound then Some s
       else do {
         (l, s) \<leftarrow> get_lwp_list_cached D pid s;
         (case l of None \<Rightarrow> Some s | Some lws \<Rightarrow> rewind_siblings D pid lwpid cons_lw bp_addr lws s) } } }"

definition bumped :: "'s dbg_ops \<Rightarrow> (('s, 'z) dbg_scheme \<Rightarrow> ('s, 'z) dbg_scheme option) \<Rightarrow> ('s, 'z) dbg_scheme \<Rightarrow> ('s, 'z) dbg_scheme option" where
  \<comment> \<open>with a raised authority, where that is possible\<close>
  "bumped D f s = do {
     (saved, s) \<leftarrow> lift (d_bump D) s;
     s \<leftarrow> f s;
     (case saved of Some a \<Rightarrow> lift2 (d_unbump D a) s | None \<Rightarrow> Some s) }"

text \<open>\<open>regs\<close> are the registers to continue with, already set back to the breakpoint.\<close>

definition apply_regs :: "'s dbg_ops \<Rightarrow> bool \<Rightarrow> u32 \<Rightarrow> u32 \<Rightarrow> byte list \<Rightarrow> ('s, 'z) dbg_scheme \<Rightarrow> ('s, 'z) dbg_scheme option" where
  "apply_regs D kpath pid lwpid regs s =
     (if kpath then do {
        (rc, s) \<leftarrow> kern_set_rip_fast D pid lwpid (field64 regs 0x88) s;
        if rc = 0 then Some s
        else do {
          (rc, s) \<leftarrow> lift (d_set_regs D pid lwpid regs) s;
          if rc = 0 then Some s else map_option snd (ptrace_raw D PT_SETREGS lwpid regs 0 s) } }
      else map_option snd (ptrace_raw D PT_SETREGS lwpid regs 0 s))"

definition step_over_bp :: "'s dbg_ops \<Rightarrow> bool \<Rightarrow> u32 \<Rightarrow> u32 \<Rightarrow> u64 \<Rightarrow> byte \<Rightarrow> byte list \<Rightarrow> ('s, 'z) dbg_scheme \<Rightarrow> ('s, 'z) dbg_scheme option" where
  "step_over_bp D kpath pid lwpid bp_addr saved regs s = do {
     s \<leftarrow> bumped D (\<lambda>s. do {
         s \<leftarrow> lift2 (d_write D pid bp_addr [saved]) s;
         s \<leftarrow> apply_regs D kpath pid lwpid regs s;
         map_option snd (ptrace_raw D PT_STEP lwpid [] 0 s) }) s;
     s \<leftarrow> wait_step D pid s;
     bumped D (\<lambda>s. do {
         s \<leftarrow> rewind_others D pid lwpid bp_addr s;
         lift2 (d_write D pid bp_addr [0xCC]) s }) s }"

section \<open>Reporting\<close>

definition DBG_STORM_LIMIT :: u32 where "DBG_STORM_LIMIT = 32"

definition DBG_STORM_FATAL_SIGS :: "byte \<Rightarrow> bool" where
  "DBG_STORM_FATAL_SIGS sig \<longleftrightarrow> sig = 11 \<or> sig = 7 \<or> sig = 4 \<or> sig = 8"

definition note_storm :: "u32 \<Rightarrow> u64 \<Rightarrow> byte \<Rightarrow> ('s, 'z) dbg_scheme \<Rightarrow> bool \<times> ('s, 'z) dbg_scheme" where
  \<comment> \<open>whether the event is one too many of the same fatal signal\<close>
  "note_storm lwpid rip sig s =
     (let same = (DBG_STORM_FATAL_SIGS sig \<and> lwpid = g_storm_lwpid s \<and> rip = g_storm_rip s \<and> sig = g_storm_sig s);
          s = s\<lparr>g_storm_count := if same then g_storm_count s + 1 else 0\<rparr> in
      if same \<and> g_storm_count s > DBG_STORM_LIMIT then (True, s)
      else (False, s\<lparr>g_storm_lwpid := lwpid, g_storm_rip := rip, g_storm_sig := sig\<rparr>))"

definition event_packet :: "u32 \<Rightarrow> u32 \<Rightarrow> byte list \<Rightarrow> byte list \<Rightarrow> byte list \<Rightarrow> byte list \<Rightarrow> byte list" where
  "event_packet lwpid stat li regs fpu db =
     le_bytes 4 lwpid @ le_bytes 4 stat @ take 24 (drop 0x80 li) @ replicate 16 0 @ regs @ fpu @ db"

definition report :: "'s dbg_ops \<Rightarrow> u32 \<Rightarrow> byte \<Rightarrow> u32 \<Rightarrow> u32 \<Rightarrow> byte list \<Rightarrow> byte list \<Rightarrow> byte list \<Rightarrow> byte list
    \<Rightarrow> (int, ('s, 'z) dbg_scheme) act" where
  "report D pid sig lwpid stat li regs fpu db s =
     (if sint (g_stepping_lwpid s) > 0 \<and> lwpid \<noteq> g_stepping_lwpid s
      then do { (_, s) \<leftarrow> ptrace_raw D PT_CONTINUE lwpid [] 0 s; Some (0, s) }
      else
        let db = (if sint (g_stepping_lwpid s) > 0 then splice db 0x30 (le_bytes 8 (0 :: u64)) else db);
            (stop, s) = note_storm lwpid (field64 regs 0x88) sig (s\<lparr>g_stepping_lwpid := 0\<rparr>) in
        if stop then Some (0, s)
        else do {
          (_, s) \<leftarrow> resume_app_via_self_id D pid (s\<lparr>host := send_all (event_packet lwpid stat li regs fpu db) (host s)\<rparr>);
          Some (0, s) })"

text \<open>An event of a thread whose registers are known; \<open>x\<close> is the context.\<close>

definition handle_event :: "'s dbg_ops \<Rightarrow> bool \<Rightarrow> u32 \<Rightarrow> byte list \<Rightarrow> byte \<Rightarrow> u32 \<Rightarrow> byte list \<Rightarrow> byte list \<times> byte list \<times> byte list
    \<Rightarrow> (int, ('s, 'z) dbg_scheme) act" where
  "handle_event D kpath pid x sig stat li st s = (case st of (regs, fpu, db) \<Rightarrow>
     let lwpid = field32 li 0; rip = field64 regs 0x88; bp = find_bp x (rip - 1); wp = find_wp db rip; trace = (field32 li 0x38 = 2) in
     if bp \<noteq> None \<and> trace then do { (_, s) \<leftarrow> ptrace_raw D PT_CONTINUE pid [] 0 s; Some (0, s) }
     else let db = (if trace then splice db 0x30 (le_bytes 8 (0 :: u64)) else db) in do {
       s \<leftarrow> (case wp of Some w \<Rightarrow> handle_wp D kpath pid lwpid rip w db s | None \<Rightarrow> Some s);
       s \<leftarrow> (if bp = None \<and> wp = None \<and> trace \<and> data_wp db
            then set_dbregs D kpath pid lwpid (splice db 0x30 (le_bytes 8 (0 :: u64))) s else Some s);
       (case bp of
          None \<Rightarrow> report D pid sig lwpid stat li regs fpu db s
        | Some b \<Rightarrow> let regs = splice regs 0x88 (le_bytes 8 (rip - 1)) in do {
            s \<leftarrow> step_over_bp D kpath pid lwpid (bp_address x b) (bp_saved x b) regs s;
            report D pid sig lwpid stat li regs fpu db s }) })"

section \<open>The monitor\<close>

definition check_alive :: "'s dbg_ops \<Rightarrow> (bool, ('s, 'z) dbg_scheme) act" where
  "check_alive D s = do {
     (sec, s) \<leftarrow> lift (d_time D) s;
     if ucast sec - g_last_alive_check s > 4 then do {
       pid \<leftarrow> dbg_pid s;
       (listed, s) \<leftarrow> lift (d_listed D pid) s;
       Some (listed, if listed then s\<lparr>g_last_alive_check := ucast sec\<rparr> else s) }
     else Some (True, s) }"

definition kill_event :: "'s dbg_ops \<Rightarrow> (int, ('s, 'z) dbg_scheme) act" where
  \<comment> \<open>the process is being killed; the context is followed after the session has ended\<close>
  "kill_event D s = do {
     s \<leftarrow> debug_full_teardown D (curdbgcli s) s;
     pid \<leftarrow> dbg_pid s;
     (_, s) \<leftarrow> ptrace_raw D PT_CONTINUE pid [] 9 s;
     Some (0, s) }"

definition stop_event :: "'s dbg_ops \<Rightarrow> byte \<Rightarrow> u32 \<Rightarrow> (int, ('s, 'z) dbg_scheme) act" where
  "stop_event D sig stat s = do {
     i \<leftarrow> curdbgcli s;
     let x = ctx_at i s;
     let pid = ctx_pid x;
     ((r, li), s) \<leftarrow> ptrace_raw D PT_LWPINFO pid (bytes_at (d_stack D) 0 160) 160 s;
     if r \<noteq> 0 then do { (_, s) \<leftarrow> resume_app_via_self_id D pid s; Some (1, s) }
     else do {
       (absorbed, s) \<leftarrow> absorb D pid x li s;
       if absorbed then Some (0, s)
       else do {
         (kpath, s) \<leftarrow> lift (d_kernel_path D) s;
         (st, s) \<leftarrow> thread_state D kpath pid (field32 li 0) s;
         (case st of
            None \<Rightarrow> do { (_, s) \<leftarrow> resume_app_via_self_id D pid s; Some (1, s) }
          | Some st \<Rightarrow> handle_event D kpath pid x sig stat li st s) } } }"

definition dispatch_debug_events :: "'s dbg_ops \<Rightarrow> (int, ('s, 'z) dbg_scheme) act" where
  "dispatch_debug_events D s = do {
     s \<leftarrow> debug_handle_breakpoint_resume D s;
     (alive, s) \<leftarrow> check_alive D s;
     if \<not> alive then Some (1, s)
     else do {
       pid \<leftarrow> dbg_pid s;
       ((r, st), s) \<leftarrow> lift (d_wait4 D pid 1) s;
       let stat = (if r > 0 then st else 0);
       let sig = ucast (drop_bit 8 stat);
       if r = 0 then Some (0, s)
       else if sig = 17 then Some (0, s)
       else if sig = 9 then kill_event D s
       else stop_event D sig stat s } }"

end
