(* ===== verification/DebugProps.thy ===== *)
theory DebugProps
  imports DebugRegs KernDbregProps
begin

text \<open>
  Breakpoints of a debugging session. The abstract view of a session is the program as it is without
  the debugger and a partial map from breakpoint slots to addresses; what the process holds is the
  program with a breakpoint instruction at each of these addresses (\<open>planted\<close>). The commands refine
  it: enabling extends the map, disabling removes from it, and detaching empties it, up to the first
  unused slot.
\<close>

section \<open>Fields of the context\<close>

lemma field64_splice:
  assumes "off + length bs \<le> length xs" "k + 8 \<le> length xs" "off + length bs \<le> k \<or> k + 8 \<le> off"
  shows "field64 (splice xs off bs) k = field64 xs k"
  unfolding field64_def using assms
  by (intro le_load_cong) (auto simp: shift_def of_list_def length_splice nth_splice)

lemma field32_splice:
  assumes "off + length bs \<le> length xs" "k + 4 \<le> length xs" "off + length bs \<le> k \<or> k + 4 \<le> off"
  shows "field32 (splice xs off bs) k = field32 xs k"
  unfolding field32_def using assms
  by (intro le_load_cong) (auto simp: shift_def of_list_def length_splice nth_splice)

lemma field64_splice_same: "off + 8 \<le> length xs \<Longrightarrow> field64 (splice xs off (le_bytes 8 v)) off = v"
  unfolding field64_def by (rule le_load_le_bytes) (auto simp: shift_def of_list_def length_splice nth_splice)

lemma field32_splice_same: "off + 4 \<le> length xs \<Longrightarrow> field32 (splice xs off (le_bytes 4 v)) off = v"
  unfolding field32_def by (rule le_load_le_bytes) (auto simp: shift_def of_list_def length_splice nth_splice)

lemmas splice_fields = field64_splice field32_splice field64_splice_same field32_splice_same length_splice nth_splice

lemma ctx_at_ctx_set [simp]:
  "i < length (g_clients s) \<Longrightarrow> ctx_at i (ctx_set i off bs s) = splice (ctx_at i s) off bs"
  by (simp add: ctx_at_def ctx_set_def set_client_def)

lemma ctx_set_server [simp]:
  "length (g_clients (ctx_set i off bs s)) = length (g_clients s)" "curdbgcli (ctx_set i off bs s) = curdbgcli s"
  "g_debug_attached (ctx_set i off bs s) = g_debug_attached s"
  by (simp_all add: ctx_set_def set_client_def)

lemma low_ctx_set [simp]: "low (ctx_set i off bs s) = low s"
  by (simp add: ctx_set_def set_client_def)

section \<open>Operations that leave memory and session alone\<close>

definition session_of :: "('s, 'z) dbg_scheme \<Rightarrow> server" where
  "session_of s = server.truncate s"

text \<open>\<open>fine at P s0 r\<close>: the call returned, the state below satisfies \<open>P\<close> and the server's own state
  is still that of \<open>s0\<close>; \<open>at\<close> finds the state in the result. \<open>fine_with\<close> says something of the result, too.\<close>

definition fine_with :: "('r \<Rightarrow> bool) \<Rightarrow> ('r \<Rightarrow> ('s, 'z) dbg_scheme) \<Rightarrow> ('s \<Rightarrow> bool) \<Rightarrow> ('s, 'z) dbg_scheme \<Rightarrow> 'r option \<Rightarrow> bool" where
  "fine_with Q at P s0 r \<longleftrightarrow> (\<exists>x. r = Some x \<and> Q x \<and> P (low (at x)) \<and> session_of (at x) = session_of s0)"

abbreviation fine :: "('r \<Rightarrow> ('s, 'z) dbg_scheme) \<Rightarrow> ('s \<Rightarrow> bool) \<Rightarrow> ('s, 'z) dbg_scheme \<Rightarrow> 'r option \<Rightarrow> bool" where
  "fine \<equiv> fine_with (\<lambda>_. True)"

lemma fine_Some [simp]: "fine_with Q at P s0 (Some x) \<longleftrightarrow> Q x \<and> P (low (at x)) \<and> session_of (at x) = session_of s0"
  by (simp add: fine_with_def)

lemma fine_bind:
  assumes "fine_with Q at P s0 m" "\<And>x. Q x \<Longrightarrow> P (low (at x)) \<Longrightarrow> session_of (at x) = session_of s0 \<Longrightarrow> fine_with Q' at' P s0 (g x)"
  shows "fine_with Q' at' P s0 (Option.bind m g)"
  using assms by (auto simp: fine_with_def)

lemma fine_bind_change:
  assumes "fine_with Q at P s0 m" "\<And>x. Q x \<Longrightarrow> P (low (at x)) \<Longrightarrow> session_of (at x) = session_of s0 \<Longrightarrow> fine_with Q' at' P' s0 (g x)"
  shows "fine_with Q' at' P' s0 (Option.bind m g)"
  using assms by (auto simp: fine_with_def)

lemma fine_same: "fine_with Q at P s0 m \<Longrightarrow> session_of s0 = session_of s1 \<Longrightarrow> fine_with Q at P s1 m"
  by (simp add: fine_with_def)

text \<open>What elevation saves: an authority and sixteen bytes of capabilities.\<close>

definition elev_valid :: "elev_state option \<Rightarrow> bool" where
  "elev_valid es \<longleftrightarrow> (\<forall>x. es = Some x \<longrightarrow> saved_authid x \<noteq> 0 \<and> length (saved_caps x) = 0x10)"

lemma elev_valid_simps [simp]: "elev_valid None" "elev_valid (Some x) \<longleftrightarrow> saved_authid x \<noteq> 0 \<and> length (saved_caps x) = 0x10"
  by (simp_all add: elev_valid_def)

lemma fine_map: "fine at' P s0 m \<Longrightarrow> (\<And>x. at (f x) = at' x) \<Longrightarrow> fine at P s0 (map_option f m)"
  by (auto simp: fine_with_def)

lemma session_of_simps [simp]:
  "session_of (low_update f s) = session_of s" "session_of (host_update g s) = session_of s"
  "session_of (errno_update h s) = session_of s" "session_of (g_cached_app_pid_update u s) = session_of s"
  "session_of (g_cached_app_id_update u s) = session_of s"
  "session_of (g_recently_disabled_bps_update v s) = session_of s"
  by (simp_all add: session_of_def server.truncate_def)

lemma session_of_lift1 [simp]: "session_of (lift1 f s) = session_of s" "low (lift1 f s) = f (low s)"
  by (simp_all add: lift1_def)

lemma session_of_D:
  assumes "session_of s' = session_of s"
  shows "g_clients s' = g_clients s" "curdbgcli s' = curdbgcli s" "g_debug_attached s' = g_debug_attached s"
  using assms by (simp_all add: session_of_def server.truncate_def)

text \<open>
  What the core relies on below it, for the process \<open>pid\<close>: its memory is read and written at the
  mapped ranges \<open>able\<close>, and the other operations return and leave it alone. \<open>tv s t\<close> only speaks of
  what the process does not change itself, such as its program. The firmware is one on which debug
  registers are transferred by \<^verbatim>\<open>ptrace\<close>.
\<close>

locale debug_target = target_read "d_read D" tv able for D :: "'s dbg_ops" and tv and able +
  fixes pid :: u32
  assumes write_ok: "tv s t \<Longrightarrow> able pid a (length buf) \<Longrightarrow>
      \<exists>s'. d_write D pid a buf s = Some s' \<and> tv s' (t(pid := poke (t pid) a buf))"
    and ptrace_ok: "tv s t \<Longrightarrow> \<exists>r s'. d_ptrace D pop p buf dat s = Some (r, s') \<and> tv s' t"
    and elev_ok: "tv s t \<Longrightarrow> \<exists>r s'. d_elev D s = Some (r, s') \<and> elev_valid r \<and> tv s' t"
    and unelev_ok: "elev_valid (Some es) \<Longrightarrow> tv s t \<Longrightarrow> \<exists>s'. d_unelev D es s = Some s' \<and> tv s' t"
    and kill_ok: "tv s t \<Longrightarrow> tv (d_kill D p sig s) t"
    and sleep_ok: "tv s t \<Longrightarrow> tv (d_sleep D n s) t"
    and flush_ok: "tv s t \<Longrightarrow> tv (d_flush D s) t"
    and close_ok: "tv s t \<Longrightarrow> tv (d_close D fd s) t"
    and wait4_ok: "tv s t \<Longrightarrow> \<exists>r s'. d_wait4 D p opt s = Some (r, s') \<and> tv s' t"
    and app_id_ok: "tv s t \<Longrightarrow> \<exists>r s'. d_app_id D p s = Some (r, s') \<and> tv s' t"
    and app_continue_ok: "tv s t \<Longrightarrow> \<exists>r s'. d_app_continue D app s = Some (r, s') \<and> tv s' t"
    and stopped_ok: "tv s t \<Longrightarrow> \<exists>r s'. d_stopped D p s = Some (r, s') \<and> tv s' t"
    and kernel_path_ok: "tv s t \<Longrightarrow> \<exists>s'. d_kernel_path D s = Some (False, s') \<and> tv s' t"
    and alive_ok: "tv s t \<Longrightarrow> \<exists>r s'. d_alive D pid s = Some (r, s') \<and> tv s' t"
begin

lemma fine_lift:
  "(\<And>l. tv l t \<Longrightarrow> \<exists>r l'. f l = Some (r, l') \<and> tv l' t) \<Longrightarrow> tv (low s) t \<Longrightarrow> fine snd (\<lambda>l. tv l t) s (lift f s)"
  unfolding fine_with_def lift_def by fastforce

lemma fine_lift2:
  "(\<And>l. tv l t \<Longrightarrow> \<exists>l'. f l = Some l' \<and> tv l' t) \<Longrightarrow> tv (low s) t \<Longrightarrow> fine (\<lambda>x. x) (\<lambda>l. tv l t) s (lift2 f s)"
  unfolding fine_with_def lift2_def by fastforce

lemma ptrace_raw_fine: "tv (low s) t \<Longrightarrow> fine snd (\<lambda>l. tv l t) s (ptrace_raw D pop p buf dat s)"
  unfolding ptrace_raw_def
  by (rule fine_bind [OF fine_lift [OF ptrace_ok]]) (auto split: option.splits)

lemma wait_loop_fine: "tv (low s) t \<Longrightarrow> fine (\<lambda>x. x) (\<lambda>l. tv l t) s (wait_loop D n p s)"
proof (induction n arbitrary: s)
  case (Suc n)
  show ?case
    unfolding wait_loop.simps
    by (rule fine_bind [OF fine_lift [OF wait4_ok]])
       (use Suc in \<open>auto intro!: fine_same [OF Suc.IH] sleep_ok\<close>)
qed simp

lemma stop_fine: "tv (low s) t \<Longrightarrow> fine (\<lambda>x. x) (\<lambda>l. tv l t) s (stop D p s)"
  unfolding stop_def wait4_timeout_def by (rule fine_same [OF wait_loop_fine]) (auto intro: kill_ok)

lemma resume_app_via_self_id_fine: "tv (low s) t \<Longrightarrow> fine snd (\<lambda>l. tv l t) s (resume_app_via_self_id D p s)"
  unfolding resume_app_via_self_id_def
  by (auto intro!: fine_lift [OF app_continue_ok] fine_bind [OF fine_lift [OF app_id_ok]]
      fine_same [OF fine_lift [OF app_continue_ok]] split: prod.splits)

lemma elev_fine: "tv (low s) t \<Longrightarrow> fine_with (\<lambda>x. elev_valid (fst x)) snd (\<lambda>l. tv l t) s (lift (d_elev D) s)"
  using elev_ok [of "low s" t] by (auto simp: fine_with_def lift_def)

lemmas steps = fine_same [OF ptrace_raw_fine] fine_same [OF stop_fine] fine_same [OF resume_app_via_self_id_fine]
  fine_same [OF elev_fine] fine_same [OF fine_lift2 [OF unelev_ok]]
  fine_same [OF fine_lift [OF stopped_ok]]

lemmas bind_steps = steps [THEN fine_bind]

lemma resume_app_unelev_fine:
  "elev_valid es \<Longrightarrow> tv (low s) t \<Longrightarrow> fine_with (\<lambda>x. elev_valid (fst x)) snd (\<lambda>l. tv l t) s (resume_app_unelev D es p s)"
  unfolding resume_app_unelev_def by (auto intro!: bind_steps steps split: option.splits)

lemma stuck_on_fine: "tv (low s) t \<Longrightarrow> fine snd (\<lambda>l. tv l t) s (stuck_on D lw rip as regs s)"
proof (induction as arbitrary: s rip)
  case (Cons a as)
  then show ?case
    by (auto intro!: bind_steps fine_same [OF Cons.IH] simp: split_beta)
qed simp

lemma scan_lwps_fine: "tv (low s) t \<Longrightarrow> fine snd (\<lambda>l. tv l t) s (scan_lwps D as lws regs found s)"
proof (induction lws arbitrary: s regs found)
  case (Cons lw lws)
  then show ?case
    by (auto intro!: bind_steps fine_bind [OF fine_same [OF stuck_on_fine]] fine_same [OF Cons.IH] simp: split_beta)
qed simp

lemma alloc_fine [simp]: "low (snd (alloc n s)) = low s" "session_of (snd (alloc n s)) = session_of s"
  by (simp_all add: alloc_def split_beta)

lemma int3_scan_stuck_fine: "tv (low s) t \<Longrightarrow> fine snd (\<lambda>l. tv l t) s (int3_scan_stuck D p as s)"
  unfolding int3_scan_stuck_def
  by (auto intro!: bind_steps fine_same [OF scan_lwps_fine] simp: split_beta split: option.splits prod.splits)

lemma int3_lwp_stopped_fine: "tv (low s) t \<Longrightarrow> fine snd (\<lambda>l. tv l t) s (int3_lwp_stopped D lw s)"
  unfolding int3_lwp_stopped_def by (auto intro!: bind_steps simp: split_beta)

lemma resume_tries_fine: "tv (low s) t \<Longrightarrow> fine (\<lambda>x. x) (\<lambda>l. tv l t) s (resume_tries D p lw n s)"
proof (induction n arbitrary: s)
  case (Suc n)
  then show ?case
    by (auto intro!: bind_steps fine_bind [OF fine_same [OF int3_lwp_stopped_fine]] fine_same [OF Suc.IH] sleep_ok simp: split_beta)
qed simp

lemma int3_resume_lwps_fine: "tv (low s) t \<Longrightarrow> fine (\<lambda>x. x) (\<lambda>l. tv l t) s (int3_resume_lwps D p lws s)"
proof (induction lws arbitrary: s)
  case (Cons lw lws)
  then show ?case
    by (auto intro!: fine_bind [OF fine_same [OF int3_lwp_stopped_fine]] fine_bind [OF fine_same [OF resume_tries_fine]]
        fine_same [OF Cons.IH] simp: split_beta)
qed simp

lemma sweep_rounds_fine: "tv (low s) t \<Longrightarrow> fine (\<lambda>x. x) (\<lambda>l. tv l t) s (sweep_rounds D p as n s)"
proof (induction n arbitrary: s)
  case (Suc n)
  then show ?case
    by (auto intro!: fine_bind [OF fine_same [OF int3_scan_stuck_fine]] fine_bind [OF fine_same [OF int3_resume_lwps_fine]]
        fine_same [OF Suc.IH] sleep_ok simp: split_beta)
qed simp

lemma int3_iterative_sweep_fine: "tv (low s) t \<Longrightarrow> fine (\<lambda>x. x) (\<lambda>l. tv l t) s (int3_iterative_sweep D p as s)"
  unfolding int3_iterative_sweep_def by (simp add: sweep_rounds_fine)

lemma lwp_list_fine: "tv (low s) t \<Longrightarrow> fine snd (\<lambda>l. tv l t) s (lwp_list D p n s)"
  unfolding lwp_list_def by (auto intro!: bind_steps simp: split_beta split: option.splits prod.splits)

lemma threads_stopped_fine: "tv (low s) t \<Longrightarrow> fine snd (\<lambda>l. tv l t) s (threads_stopped D p s)"
  unfolding threads_stopped_def by (auto intro!: bind_steps fine_bind [OF fine_same [OF lwp_list_fine]] simp: split_beta)

lemma resume_both_fine:
  "elev_valid es \<Longrightarrow> tv (low s) t \<Longrightarrow> fine_with (\<lambda>x. elev_valid (fst x)) snd (\<lambda>l. tv l t) s (resume_both D es p s)"
  unfolding resume_both_def by (auto intro!: fine_bind [OF resume_app_unelev_fine] bind_steps simp: split_beta)

lemma set_dbregs_fine: "tv (low s) t \<Longrightarrow> fine (\<lambda>x. x) (\<lambda>l. tv l t) s (set_dbregs D False p lw buf s)"
  unfolding set_dbregs_def by (auto intro!: bind_steps fine_map [OF steps(1)] simp: split_beta)

lemma kernel_path_bind:
  assumes "tv (low s) t" "\<And>s'. tv (low s') t \<Longrightarrow> session_of s' = session_of s \<Longrightarrow> fine_with Q at (\<lambda>l. tv l t) s0 (f (False, s'))"
  shows "fine_with Q at (\<lambda>l. tv l t) s0 (Option.bind (lift (d_kernel_path D) s) f)"
proof -
  obtain l where "d_kernel_path D (low s) = Some (False, l)" "tv l t" using kernel_path_ok [OF assms(1)] by blast
  then show ?thesis using assms(2) [of "s\<lparr>low := l\<rparr>"] by (simp add: lift_def)
qed

lemma clear_dbregs_fine: "tv (low s) t \<Longrightarrow> fine (\<lambda>x. x) (\<lambda>l. tv l t) s (clear_dbregs D False p lws s)"
proof (induction lws arbitrary: s)
  case (Cons lw lws)
  then show ?case by (auto intro!: fine_bind [OF set_dbregs_fine] fine_same [OF Cons.IH])
qed simp

lemma teardown_dbregs_fine:
  "elev_valid es \<Longrightarrow> tv (low s) t \<Longrightarrow>
   fine_with (\<lambda>((_, es, _), _). elev_valid es) snd (\<lambda>l. tv l t) s (teardown_dbregs D es p st s)"
  unfolding teardown_dbregs_def
  by (auto intro!: bind_steps fine_bind [OF fine_same [OF threads_stopped_fine]] fine_bind [OF fine_same [OF resume_both_fine]]
      kernel_path_bind fine_bind [OF fine_same [OF clear_dbregs_fine]] simp: split_beta split: option.splits prod.splits bool.splits)

end

section \<open>The abstract session\<close>

definition planted :: "u32 \<Rightarrow> (nat \<Rightarrow> u64 option) \<Rightarrow> memories \<Rightarrow> memories" where
  "planted pid bps t = t(pid := \<lambda>x. if \<exists>b<MAX_BREAKPOINTS. bps b = Some x then 0xCC else t pid x)"

fun slot_rel :: "byte list \<Rightarrow> (u64 \<Rightarrow> byte) \<Rightarrow> nat \<Rightarrow> u64 option \<Rightarrow> bool" where
  "slot_rel x m b None \<longleftrightarrow> bp_enabled x b = 0 \<and> bp_address x b = 0"
| "slot_rel x m b (Some a) \<longleftrightarrow> a \<noteq> 0 \<and> bp_enabled x b \<noteq> 0 \<and> bp_address x b = a \<and> bp_saved x b = m a"

definition debugs :: "('s \<Rightarrow> memories \<Rightarrow> bool) \<Rightarrow> nat \<Rightarrow> u32 \<Rightarrow> (nat \<Rightarrow> u64 option) \<Rightarrow> memories \<Rightarrow> ('s, 'z) dbg_scheme \<Rightarrow> bool" where
  \<comment> \<open>slot \<open>i\<close> debugs process \<open>pid\<close>, whose program is \<open>t\<close>, with breakpoints \<open>bps\<close>\<close>
  "debugs tv i pid bps t s \<longleftrightarrow>
     g_debug_attached s \<noteq> 0 \<and> curdbgcli s = Some i \<and> i < length (g_clients s) \<and> length (ctx_at i s) = 0x358 \<and>
     ctx_pid (ctx_at i s) = pid \<and> pid \<noteq> 0 \<and> (\<forall>b<MAX_BREAKPOINTS. slot_rel (ctx_at i s) (t pid) b (bps b)) \<and>
     (\<forall>b<MAX_BREAKPOINTS. \<forall>b'<MAX_BREAKPOINTS. bps b = bps b' \<longrightarrow> bps b \<noteq> None \<longrightarrow> b = b') \<and>
     tv (low s) (planted pid bps t)"

definition bp_allowed :: "(u32 \<Rightarrow> u64 \<Rightarrow> nat \<Rightarrow> bool) \<Rightarrow> u32 \<Rightarrow> cmd_debug_breakpt_packet \<Rightarrow> (nat \<Rightarrow> u64 option) \<Rightarrow> bool" where
  \<comment> \<open>only unused slots are enabled, at mapped addresses without a breakpoint\<close>
  "bp_allowed able pid bp bps \<longleftrightarrow>
     unat (bk_index bp) < MAX_BREAKPOINTS \<and>
     (if bk_enabled bp \<noteq> 0
      then bps (unat (bk_index bp)) = None \<and> bk_address bp \<noteq> 0 \<and> able pid (bk_address bp) 1 \<and>
           (\<forall>b<MAX_BREAKPOINTS. bps b \<noteq> Some (bk_address bp))
      else case bps (unat (bk_index bp)) of None \<Rightarrow> True | Some a \<Rightarrow> able pid a 1)"

definition bp_spec :: "cmd_debug_breakpt_packet \<Rightarrow> (nat \<Rightarrow> u64 option) \<Rightarrow> nat \<Rightarrow> u64 option" where
  "bp_spec bp bps = bps(unat (bk_index bp) := if bk_enabled bp \<noteq> 0 then Some (bk_address bp) else None)"

lemma poke_single: "poke m a [v] = m(a := v)"
  by (auto simp: poke_def fun_eq_iff unat_eq_zero)

lemma planted_enable:
  assumes "b < MAX_BREAKPOINTS" "bps b = None"
  shows "(planted pid bps t)(pid := poke (planted pid bps t pid) a [0xCC]) = planted pid (bps(b := Some a)) t"
proof -
  have e: "(\<exists>b'<MAX_BREAKPOINTS. (bps(b := Some a)) b' = Some x) \<longleftrightarrow> x = a \<or> (\<exists>b'<MAX_BREAKPOINTS. bps b' = Some x)" for x
    using assms by (metis fun_upd_apply option.distinct(1) option.inject)
  show ?thesis unfolding planted_def e by (simp add: poke_single fun_eq_iff) blast
qed

lemma planted_disable:
  assumes "b < MAX_BREAKPOINTS" "bps b = Some a" "\<And>b'. b' < MAX_BREAKPOINTS \<Longrightarrow> bps b' = Some a \<Longrightarrow> b' = b"
  shows "(planted pid bps t)(pid := poke (planted pid bps t pid) a [t pid a]) = planted pid (bps(b := None)) t"
proof -
  have e: "(\<exists>b'<MAX_BREAKPOINTS. (bps(b := None)) b' = Some x) \<longleftrightarrow> x \<noteq> a \<and> (\<exists>b'<MAX_BREAKPOINTS. bps b' = Some x)" for x
    using assms by (metis fun_upd_apply option.distinct(1) option.inject)
  show ?thesis unfolding planted_def e by (simp add: poke_single fun_eq_iff) blast
qed

lemma slot_rel_other:
  assumes "length x = 0x358" "b < MAX_BREAKPOINTS" "b' < MAX_BREAKPOINTS" "b' \<noteq> b"
    "off + length bs \<le> b * 0x18 + 0x19" "b * 0x18 + 8 \<le> off"
  shows "slot_rel (splice x off bs) m b' r \<longleftrightarrow> slot_rel x m b' r"
proof -
  have o: "off + length bs \<le> length x" "b < 30" "b' < 30" using assms by (auto simp: MAX_BREAKPOINTS_def)
  have d: "b' * 0x18 + 0x18 < b * 0x18 + 8 \<or> b * 0x18 + 0x18 < b' * 0x18 + 8" using assms(4) by presburger
  have "bp_enabled (splice x off bs) b' = bp_enabled x b'" "bp_address (splice x off bs) b' = bp_address x b'"
    "bp_saved (splice x off bs) b' = bp_saved x b'"
    unfolding bp_enabled_def bp_address_def bp_saved_def using o d assms
    by (auto simp: field64_splice field32_splice nth_splice)
  then show ?thesis by (cases r) auto
qed

lemma slot_rel_enable:
  assumes "length x = 0x358" "b < MAX_BREAKPOINTS" "a \<noteq> 0"
  and y_def: "y = splice (splice (splice x (b * 0x18 + 8) (le_bytes 4 (1 :: u32))) (b * 0x18 + 0x10) (le_bytes 8 a)) (b * 0x18 + 0x18) [v]"
  shows "length y = 0x358" "ctx_pid y = ctx_pid x"
    "b' < MAX_BREAKPOINTS \<Longrightarrow> slot_rel y m b' r \<longleftrightarrow> (if b' = b then (r = Some a \<and> v = m a) else slot_rel x m b' r)"
proof -
  have b: "b < 30" using assms(2) by (simp add: MAX_BREAKPOINTS_def)
  show "length y = 0x358" using b assms(1) by (simp add: y_def length_splice)
  show "ctx_pid y = ctx_pid x" using b assms(1) by (simp add: y_def ctx_pid_def splice_fields)
  have "bp_enabled y b = 1" "bp_address y b = a" "bp_saved y b = v"
    using b assms(1) by (simp_all add: y_def bp_enabled_def bp_address_def bp_saved_def splice_fields)
  moreover have "b' \<noteq> b \<Longrightarrow> b' < MAX_BREAKPOINTS \<Longrightarrow> slot_rel y m b' r \<longleftrightarrow> slot_rel x m b' r"
    unfolding y_def using assms b by (simp add: slot_rel_other [of _ b] length_splice)
  ultimately show "b' < MAX_BREAKPOINTS \<Longrightarrow> slot_rel y m b' r \<longleftrightarrow> (if b' = b then (r = Some a \<and> v = m a) else slot_rel x m b' r)"
    using assms(3) by (cases r) auto
qed

lemma slot_rel_disable:
  assumes "length x = 0x358" "b < MAX_BREAKPOINTS"
  and y_def: "y = splice (splice x (b * 0x18 + 8) (le_bytes 4 (0 :: u32))) (b * 0x18 + 0x10) (le_bytes 8 (0 :: u64))"
  shows "length y = 0x358" "ctx_pid y = ctx_pid x"
    "b' < MAX_BREAKPOINTS \<Longrightarrow> slot_rel y m b' r \<longleftrightarrow> (if b' = b then r = None else slot_rel x m b' r)"
proof -
  have b: "b < 30" using assms(2) by (simp add: MAX_BREAKPOINTS_def)
  show "length y = 0x358" using b assms(1) by (simp add: y_def length_splice)
  show "ctx_pid y = ctx_pid x" using b assms(1) by (simp add: y_def ctx_pid_def splice_fields)
  have "bp_enabled y b = 0" "bp_address y b = 0"
    using b assms(1) by (simp_all add: y_def bp_enabled_def bp_address_def splice_fields)
  moreover have "b' \<noteq> b \<Longrightarrow> b' < MAX_BREAKPOINTS \<Longrightarrow> slot_rel y m b' r \<longleftrightarrow> slot_rel x m b' r"
    unfolding y_def using assms b by (simp add: slot_rel_other [of _ b] length_splice)
  ultimately show "b' < MAX_BREAKPOINTS \<Longrightarrow> slot_rel y m b' r \<longleftrightarrow> (if b' = b then r = None else slot_rel x m b' r)"
    by (cases r) auto
qed

lemma debugs_same:
  assumes "debugs tv i pid bps t s" "session_of s' = session_of s" "tv (low s') (planted pid bps' t)"
    "\<forall>b<MAX_BREAKPOINTS. slot_rel (ctx_at i s) (t pid) b (bps' b)"
    "\<forall>b<MAX_BREAKPOINTS. \<forall>b'<MAX_BREAKPOINTS. bps' b = bps' b' \<longrightarrow> bps' b \<noteq> None \<longrightarrow> b = b'"
  shows "debugs tv i pid bps' t s'"
  using assms session_of_D [OF assms(2)] by (simp add: debugs_def ctx_at_def)

lemma debugs_kept:
  assumes "debugs tv i pid bps t r" "tv (low s) (planted pid bps t)" "session_of s = session_of r"
  shows "debugs tv i pid bps t s" "ctx_at i s = ctx_at i r"
  using debugs_same [OF assms(1,3,2)] assms(1) session_of_D [OF assms(3)] by (simp_all add: debugs_def ctx_at_def)

context debug_target
begin

lemma write_single:
  "tv (low s) t \<Longrightarrow> able pid a 1 \<Longrightarrow>
   \<exists>s'. lift2 (d_write D pid a [v]) s = Some s' \<and> tv (low s') (t(pid := poke (t pid) a [v])) \<and> session_of s' = session_of s"
  using write_ok [of "low s" t a "[v]"] by (auto simp: lift2_def)

lemma read_single:
  assumes "tv (low s) t" "able pid a 1"
  obtains l where "lift (d_read D pid a [v]) s = Some ([t pid a], s\<lparr>low := l\<rparr>)" "tv l t"
proof -
  have "peek (t pid) a (length [v]) = [t pid a]" by (rule nth_equalityI) auto
  then show thesis using rdm_ok [of "low s" t pid a "[v]"] assms that by (auto simp: lift_def)
qed

lemma enable_breakpoint_ok:
  assumes "debugs tv i pid bps t s" "b < MAX_BREAKPOINTS" "bps b = None" "a \<noteq> 0" "able pid a 1"
    "\<forall>b'<MAX_BREAKPOINTS. bps b' \<noteq> Some a"
  shows "\<exists>s'. enable_breakpoint D i pid b a s = Some s' \<and> debugs tv i pid (bps(b := Some a)) t s'"
proof -
  note d = assms(1) [unfolded debugs_def]
  define s1 where "s1 = ctx_set i (b * 0x18 + 0x10) (le_bytes 8 a) (ctx_set i (b * 0x18 + 0x08) (le_bytes 4 (1 :: u32)) s)"
  have "tv (low s1) (planted pid bps t)" using d by (simp add: s1_def)
  then obtain l where r: "lift (d_read D pid a [bp_saved (ctx_at i s1) b]) s1 = Some ([planted pid bps t pid a], s1\<lparr>low := l\<rparr>)"
    and l: "tv l (planted pid bps t)" using assms(5) by (rule read_single)
  have v: "planted pid bps t pid a = t pid a" using assms(6) by (auto simp: planted_def)
  define s2 where "s2 = ctx_set i (b * 0x18 + 0x18) [t pid a] (s1\<lparr>low := l\<rparr>)"
  have "tv (low s2) (planted pid bps t)" using l by (simp add: s2_def)
  then obtain s' where w: "lift2 (d_write D pid a [0xCC]) s2 = Some s'"
      "tv (low s') (planted pid (bps(b := Some a)) t)" "session_of s' = session_of s2"
    using write_single [OF _ assms(5), of s2] planted_enable [where bps = bps, OF assms(2,3)] by fastforce
  have c: "ctx_at i s2 = splice (splice (splice (ctx_at i s) (b * 0x18 + 8) (le_bytes 4 (1 :: u32))) (b * 0x18 + 0x10) (le_bytes 8 a)) (b * 0x18 + 0x18) [t pid a]"
    using d by (simp add: s2_def s1_def ctx_at_def ctx_set_def set_client_def)
  have x: "length (ctx_at i s) = 0x358" using d by simp
  have "debugs tv i pid (bps(b := Some a)) t s'"
    using d w(2) session_of_D [OF w(3)] slot_rel_enable [OF x assms(2,4) c] assms(6)
    by (auto simp: debugs_def ctx_at_def s2_def s1_def)
  with r v w(1) show ?thesis by (simp add: enable_breakpoint_def s1_def [symmetric] s2_def [symmetric] Let_def)
qed

lemma fine_obtain:
  assumes "fine at P s m"
  obtains x where "m = Some x" "P (low (at x))" "session_of (at x) = session_of s"
  using assms by (auto simp: fine_with_def)

lemma fine_pair:
  assumes "fine_with Q snd P s m"
  obtains r s' where "m = Some (r, s')" "P (low s')" "session_of s' = session_of s" "Q (r, s')"
  using assms by (auto simp: fine_with_def)

lemma remove_breakpoint_ok:
  assumes "tv (low s) m" "able pid a 1"
  shows "\<exists>s'. remove_breakpoint D pid a v s = Some s' \<and> tv (low s') (m(pid := poke (m pid) a [v])) \<and> session_of s' = session_of s"
proof -
  let ?m = "m(pid := poke (m pid) a [v])"
  obtain es s1 where 1: "lift (d_elev D) s = Some (es, s1)" "tv (low s1) m" "session_of s1 = session_of s" "elev_valid es"
    by (rule fine_pair [OF elev_fine [OF assms(1)]]) auto
  obtain lws s2 where 2: "int3_scan_stuck D pid [a] s1 = Some (lws, s2)" "tv (low s2) m" "session_of s2 = session_of s"
    by (rule fine_pair [OF fine_same [OF int3_scan_stuck_fine [where t = m, OF 1(2)] 1(3)]])
  obtain s3 where 3: "lift2 (d_write D pid a [v]) s2 = Some s3" "tv (low s3) ?m" "session_of s3 = session_of s"
    using write_single [OF 2(2) assms(2)] 2(3) by metis
  have "fine (\<lambda>x. x) (\<lambda>l. tv l ?m) s (do {
      s \<leftarrow> (if lws \<noteq> [] then int3_resume_lwps D pid (take INT3_REWIND_MAX lws) s3 else Some s3);
      (_, s) \<leftarrow> ptrace_raw D PT_CONTINUE pid [] 0 s;
      s \<leftarrow> (case es of Some es \<Rightarrow> lift2 (d_unelev D es) s | None \<Rightarrow> Some s);
      Some (if length (g_recently_disabled_bps s) < INT3_REWIND_MAX
            then s\<lparr>g_recently_disabled_bps := g_recently_disabled_bps s @ [a]\<rparr> else s) })"
    using 3(2,3) 1(4) by (cases es) (auto intro!: fine_bind [OF fine_same [OF int3_resume_lwps_fine]] bind_steps simp: split_beta)
  then show ?thesis using 1(1) 2(1) 3(1) unfolding fine_with_def remove_breakpoint_def by auto
qed

lemma disable_breakpoint_ok:
  assumes "debugs tv i pid bps t s" "b < MAX_BREAKPOINTS" "case bps b of None \<Rightarrow> True | Some a \<Rightarrow> able pid a 1"
  shows "\<exists>s'. disable_breakpoint D i pid b s = Some s' \<and> debugs tv i pid (bps(b := None)) t s'"
proof -
  note d = assms(1) [unfolded debugs_def]
  have x: "length (ctx_at i s) = 0x358" and r: "slot_rel (ctx_at i s) (t pid) b (bps b)" using d assms(2) by auto
  have "\<exists>s1. (if bp_enabled (ctx_at i s) b \<noteq> 0 \<and> bp_address (ctx_at i s) b \<noteq> 0
      then remove_breakpoint D pid (bp_address (ctx_at i s) b) (bp_saved (ctx_at i s) b) s else Some s) = Some s1
      \<and> tv (low s1) (planted pid (bps(b := None)) t) \<and> session_of s1 = session_of s"
  proof (cases "bps b")
    case None
    then show ?thesis using d r by (simp add: fun_upd_idem)
  next
    case (Some a)
    have "(planted pid bps t)(pid := poke (planted pid bps t pid) a [t pid a]) = planted pid (bps(b := None)) t"
      using assms(2) Some by (rule planted_disable) (metis Some assms(2) d option.distinct(1))
    then show ?thesis using r Some assms(3) remove_breakpoint_ok [of s "planted pid bps t" a "t pid a"] d by simp
  qed
  then obtain s1 where s1: "(if bp_enabled (ctx_at i s) b \<noteq> 0 \<and> bp_address (ctx_at i s) b \<noteq> 0
      then remove_breakpoint D pid (bp_address (ctx_at i s) b) (bp_saved (ctx_at i s) b) s else Some s) = Some s1"
    "tv (low s1) (planted pid (bps(b := None)) t)" "session_of s1 = session_of s" by blast
  define s' where "s' = ctx_set i (b * 0x18 + 0x10) (le_bytes 8 (0 :: u64)) (ctx_set i (b * 0x18 + 0x08) (le_bytes 4 (0 :: u32)) s1)"
  have c: "ctx_at i s' = splice (splice (ctx_at i s) (b * 0x18 + 8) (le_bytes 4 (0 :: u32))) (b * 0x18 + 0x10) (le_bytes 8 (0 :: u64))"
    using d session_of_D [OF s1(3)] by (simp add: s'_def) (simp add: ctx_at_def)
  have "debugs tv i pid (bps(b := None)) t s'"
    using d s1(2) session_of_D [OF s1(3)] slot_rel_disable [OF x assms(2) c]
    unfolding debugs_def by (auto simp: s'_def)
  with s1(1) show ?thesis by (simp add: disable_breakpoint_def Let_def s'_def)
qed

lemma debug_set_breakpoint_refines:
  assumes "debugs tv i pid bps t s" "data packet = Some dp" "bp_allowed able pid (breakpt_packet dp) bps"
  shows "\<exists>s'. debug_set_breakpoint_handle D packet (s, c) = Some (0, s', send_int32 CMD_SUCCESS c) \<and>
    debugs tv i pid (bp_spec (breakpt_packet dp) bps) t s'"
proof -
  let ?b = "unat (bk_index (breakpt_packet dp))" and ?a = "bk_address (breakpt_packet dp)"
  have b: "?b < MAX_BREAKPOINTS" using assms(3) by (simp add: bp_allowed_def)
  have "\<exists>s'. (if bk_enabled (breakpt_packet dp) \<noteq> 0 then enable_breakpoint D i pid ?b ?a s else disable_breakpoint D i pid ?b s) = Some s'
      \<and> debugs tv i pid (bp_spec (breakpt_packet dp) bps) t s'"
    using enable_breakpoint_ok [OF assms(1) b, of ?a] disable_breakpoint_ok [OF assms(1) b] assms(3)
    by (cases "bk_enabled (breakpt_packet dp) = 0") (simp_all add: bp_allowed_def bp_spec_def)
  then show ?thesis using assms(1,2) b
    by (auto simp: debug_set_breakpoint_handle_def in_session_def debugs_def Let_def)
qed

lemma restore_bps_ok:
  assumes x: "\<forall>b<MAX_BREAKPOINTS. slot_rel x (t pid) b (bps b)"
    and inj: "\<forall>b<MAX_BREAKPOINTS. \<forall>b'<MAX_BREAKPOINTS. bps b = bps b' \<longrightarrow> bps b \<noteq> None \<longrightarrow> b = b'"
    and g: "g \<le> MAX_BREAKPOINTS" "\<forall>b<g. \<exists>a. bps b = Some a \<and> able pid a 1" "g < MAX_BREAKPOINTS \<Longrightarrow> bps g = None"
  shows "i \<le> g \<Longrightarrow> n = MAX_BREAKPOINTS - i \<Longrightarrow> tv (low s) (planted pid (\<lambda>b. if b < i then None else bps b) t) \<Longrightarrow>
    fine snd (\<lambda>l. tv l (planted pid (\<lambda>b. if b < g then None else bps b) t)) s (restore_bps D pid x i n as s)"
proof (induction n arbitrary: i as s)
  case 0
  then have "i = g" using g(1) by simp
  with 0 show ?case by simp
next
  case (Suc n)
  show ?case
  proof (cases "i = g")
    case True
    then have "g < MAX_BREAKPOINTS" using Suc.prems(2) by simp
    then have "bp_address x g = 0" using g(3) x by (metis slot_rel.simps(1))
    with True Suc.prems(3) show ?thesis by simp
  next
    case False
    then have i: "i < g" "i < MAX_BREAKPOINTS" using Suc.prems g(1) by auto
    then obtain a where a: "bps i = Some a" "able pid a 1" using g(2) by blast
    let ?f = "\<lambda>b. if b < i then None else bps b"
    have r: "bp_address x i = a" "bp_saved x i = t pid a" "a \<noteq> 0" using x i(2) a(1) by (metis slot_rel.simps(2))+
    have u: "?f(i := None) = (\<lambda>b. if b < i + 1 then None else bps b)" by (auto simp: fun_eq_iff)
    have "(planted pid ?f t)(pid := poke (planted pid ?f t pid) a [t pid a]) = planted pid (\<lambda>b. if b < i + 1 then None else bps b) t"
      unfolding u [symmetric]
      by (rule planted_disable [OF i(2)]) (use a(1) inj i(2) in \<open>auto split: if_splits\<close>)
    with write_single [OF Suc.prems(3) a(2), of "t pid a"]
    have w: "fine (\<lambda>x. x) (\<lambda>l. tv l (planted pid (\<lambda>b. if b < i + 1 then None else bps b) t)) s (lift2 (d_write D pid a [t pid a]) s)"
      by (simp add: fine_with_def)
    have n: "Suc i \<le> g" "n = MAX_BREAKPOINTS - Suc i" using i(1) Suc.prems(2) by simp_all
    show ?thesis unfolding restore_bps.simps r(1,2) using r(3)
      by (auto intro!: fine_bind_change [OF w] fine_same [OF Suc.IH [OF n]])
  qed
qed

lemma teardown_process_ok:
  assumes x: "x \<noteq> []" "\<forall>b<MAX_BREAKPOINTS. slot_rel x (t pid) b (bps b)"
    and inj: "\<forall>b<MAX_BREAKPOINTS. \<forall>b'<MAX_BREAKPOINTS. bps b = bps b' \<longrightarrow> bps b \<noteq> None \<longrightarrow> b = b'"
    and g: "g \<le> MAX_BREAKPOINTS" "\<forall>b<g. \<exists>a. bps b = Some a \<and> able pid a 1" "g < MAX_BREAKPOINTS \<Longrightarrow> bps g = None"
    and alive: "\<And>l. tv l (planted pid bps t) \<Longrightarrow> map_option fst (d_alive D pid l) = Some True"
    and s: "tv (low s) (planted pid bps t)" "elev_valid es"
  shows "fine_with (\<lambda>((_, es, _), _). elev_valid es) snd (\<lambda>l. tv l (planted pid (\<lambda>b. if b < g then None else bps b) t)) s
    (teardown_process D es x pid s)"
proof -
  let ?m = "planted pid bps t" and ?m' = "planted pid (\<lambda>b. if b < g then None else bps b) t"
  have "fine snd (\<lambda>l. tv l ?m) s (if sint pid > 0 then lift (d_stopped D pid) s else Some (True, s))"
    using s(1) by (auto intro!: fine_lift [OF stopped_ok])
  then obtain st s1 where 1: "(if sint pid > 0 then lift (d_stopped D pid) s else Some (True, s)) = Some (st, s1)"
      "tv (low s1) ?m" "session_of s1 = session_of s"
    by (rule fine_pair)
  have "fine (\<lambda>x. x) (\<lambda>l. tv l ?m) s (if st then Some s1 else stop D pid s1)"
    using 1(2,3) by (auto intro!: steps(2))
  then obtain s2 where 2: "(if st then Some s1 else stop D pid s1) = Some s2" "tv (low s2) ?m" "session_of s2 = session_of s"
    by (rule fine_obtain)
  obtain r l where r: "d_alive D pid (low s2) = Some (r, l)" "tv l ?m" using alive_ok [OF 2(2)] by blast
  then have "r = True" using alive [OF 2(2)] by simp
  with r have 3: "lift (d_alive D pid) s2 = Some (True, s2\<lparr>low := l\<rparr>)" "tv l ?m" by (simp_all add: lift_def)
  have "fine snd (\<lambda>l. tv l ?m') s (restore_bps D pid x 0 30 [] (s2\<lparr>low := l\<rparr>))"
    by (rule fine_same [OF restore_bps_ok [of x t bps g, OF x(2) inj g]]) (use 2 3 in \<open>auto simp: MAX_BREAKPOINTS_def\<close>)
  then have "fine_with (\<lambda>((_, es, _), _). elev_valid es) snd (\<lambda>l. tv l ?m') s (do {
      (as, s) \<leftarrow> restore_bps D pid x 0 30 [] (s2\<lparr>low := l\<rparr>);
      s \<leftarrow> int3_iterative_sweep D pid as s;
      teardown_dbregs D es pid (\<not> st) s })"
    by (rule fine_bind)
       (use s(2) in \<open>auto intro!: fine_bind [OF fine_same [OF int3_iterative_sweep_fine]] fine_same [OF teardown_dbregs_fine] simp: split_beta\<close>)
  then show ?thesis using 1(1) 2(1) 3(1) x(1) by (simp add: teardown_process_def)
qed

lemma debug_detach_restores:
  assumes "debugs tv i pid bps t s" and g: "g \<le> MAX_BREAKPOINTS" "\<forall>b<g. \<exists>a. bps b = Some a \<and> able pid a 1"
      "g < MAX_BREAKPOINTS \<Longrightarrow> bps g = None"
    and alive: "\<And>l. tv l (planted pid bps t) \<Longrightarrow> map_option fst (d_alive D pid l) = Some True"
  shows "\<exists>s'. debug_detach_handle D packet (s, c) = Some (0, s', send_int32 CMD_SUCCESS c) \<and>
    g_debug_attached s' = 0 \<and> curdbgcli s' = None \<and> debugging (g_clients s' ! i) = 0 \<and>
    tv (low s') (planted pid (\<lambda>b. if b < g then None else bps b) t)"
proof -
  let ?m' = "planted pid (\<lambda>b. if b < g then None else bps b) t" and ?fd = "ctx_dbgfd (ctx_at i s)"
  note d = assms(1) [unfolded debugs_def]
  define s1 where "s1 = lift1 (d_flush D) (debug_resume_cache_flush (s\<lparr>g_recently_disabled_bps := []\<rparr>))"
  have s1: "tv (low s1) (planted pid bps t)" "session_of s1 = session_of s"
    using d flush_ok by (simp_all add: s1_def session_of_def server.truncate_def lift1_def debug_resume_cache_flush_def rip_cache_flush_def lwp_list_cache_flush_def)
  obtain es l where 2: "d_elev D (low s1) = Some (es, l)" "tv l (planted pid bps t)" "elev_valid es"
    using elev_ok [OF s1(1)] by blast
  define s2 where "s2 = leave_session (s1\<lparr>low := l\<rparr>)"
  have s2: "ctx_at i s2 = ctx_at i s" "g_debug_attached s2 = 0" "curdbgcli s2 = None" "low s2 = l"
      "debugging (g_clients s2 ! i) = 0"
    using d session_of_D [OF s1(2)] by (simp_all add: s2_def leave_session_def set_client_def ctx_at_def Let_def)
  have x: "ctx_at i s \<noteq> []" and p: "ctx_pid (ctx_at i s) = pid" using d by auto
  have "fine_with (\<lambda>((_, es, _), _). elev_valid es) snd (\<lambda>l. tv l ?m') s2 (teardown_process D es (ctx_at i s) pid s2)"
    by (rule teardown_process_ok [where bps = bps, OF x _ _ g alive]) (use d 2(2,3) s2(4) in auto)
  then have "fine (\<lambda>x. x) (\<lambda>l. tv l ?m') s2 (do {
      ((e, es', we_stopped), s) \<leftarrow> teardown_process D es (ctx_at i s) pid s2;
      (es', s) \<leftarrow> (if e = Detach then do {
          (es', s) \<leftarrow> (if we_stopped then resume_app_unelev D es' pid s else Some (es', s));
          (_, s) \<leftarrow> ptrace_raw D PT_DETACH pid [] 0 s;
          Some (es', s) } else Some (es', s));
      let s = (if e \<noteq> Done \<and> ?fd > 0 then lift1 (d_close D (sint ?fd)) s else s);
      (case es' of Some y \<Rightarrow> lift2 (d_unelev D y) s | None \<Rightarrow> Some s) })" (is "fine _ _ _ ?rest")
    by (rule fine_bind)
       (auto intro!: fine_bind [OF fine_same [OF resume_app_unelev_fine]] bind_steps steps close_ok
         intro: fine_bind [where at = snd] simp: split_beta Let_def split: option.splits)
  then obtain s' where r: "?rest = Some s'" "tv (low s') ?m'" "session_of s' = session_of s2"
    by (rule fine_obtain)
  have "debug_full_teardown D (Some i) s = ?rest"
    using d by (simp add: debug_full_teardown_def s1_def [symmetric] lift_def 2(1) s2_def [symmetric]) (simp add: s2(1) p Let_def cong: if_cong)
  with r d s2 session_of_D [OF r(3)] show ?thesis by (simp add: debug_detach_handle_def)
qed

end

section \<open>Watchpoints\<close>

text \<open>A watchpoint as the processor sees it: its address, and length and type from its fields of DR7.\<close>

definition watch_at :: "byte list \<Rightarrow> nat \<Rightarrow> (u64 \<times> u64 \<times> u64) option" where
  "watch_at x k = (let dr7 = field64 x 0x310 in
     if take_bit 2 (drop_bit (2 * k) dr7) = 0 then None
     else Some (field64 x (0x2D8 + 8 * k), take_bit 2 (drop_bit (4 * k + 18) dr7), take_bit 2 (drop_bit (4 * k + 16) dr7)))"

definition watch_spec :: "cmd_debug_watchpt_packet \<Rightarrow> (nat \<Rightarrow> (u64 \<times> u64 \<times> u64) option) \<Rightarrow> nat \<Rightarrow> (u64 \<times> u64 \<times> u64) option" where
  "watch_spec wp ws = ws(unat (wt_index wp) :=
     if wt_enabled wp \<noteq> 0 then Some (wt_address wp, ucast (wt_length wp), ucast (wt_breaktype wp)) else None)"

lemma bit_small: "(w :: u32) \<le> 3 \<Longrightarrow> bit w n \<Longrightarrow> n < 2"
proof -
  assume "w \<le> 3" "bit w n"
  then have "unat (drop_bit 2 w) = 0"
    by (simp add: drop_bit_eq_div unat_div word_le_nat_alt)
  then have "take_bit 2 w = w" by (simp add: take_bit_eq_self_iff_drop_bit_eq_0 unat_eq_zero)
  with \<open>bit w n\<close> show "n < 2" by (metis bit_take_bit_iff)
qed

lemma low_masks: "(3 :: u64) = mask 2" "(15 :: u64) = mask 4"
  by (simp_all add: mask_eq_exp_minus_1)

lemma bit_dr7_clear:
  "n < 64 \<Longrightarrow> bit (dr7_clear idx d) n \<longleftrightarrow> bit d n \<and> \<not> (2 * idx \<le> n \<and> n < 2 * idx + 2) \<and> \<not> (4 * idx + 16 \<le> n \<and> n < 4 * idx + 20)"
  unfolding dr7_clear_def low_masks by (auto simp: bit_simps mult.commute)

lemma bit_dr7_enable:
  assumes "idx < 4" "len \<le> 3" "ty \<le> 3" "n < 64"
  shows "bit (dr7_enable idx len ty d) n \<longleftrightarrow> bit d n \<or> 2 * idx \<le> n \<and> n < 2 * idx + 2 \<or>
    4 * idx + 18 \<le> n \<and> bit len (n - (4 * idx + 18)) \<or> 4 * idx + 16 \<le> n \<and> bit ty (n - (4 * idx + 16))"
proof -
  have e: "n - (idx * 4 + 16) - 2 = n - (4 * idx + 18)" by simp
  have u: "bit (ucast len :: u64) j \<longleftrightarrow> bit len j" "bit (ucast ty :: u64) j \<longleftrightarrow> bit ty j" for j
    using bit_small [OF assms(2), of j] bit_small [OF assms(3), of j] by (auto simp: bit_simps)
  show ?thesis
    unfolding dr7_enable_def low_masks bit_or_iff bit_push_bit_iff bit_mask_iff u e using assms(4)
    by (simp add: mult.commute) linarith
qed

lemma take_drop_eqI:
  fixes a b :: u64
  assumes "p + m \<le> 64" "\<And>n. p \<le> n \<Longrightarrow> n < p + m \<Longrightarrow> bit a n \<longleftrightarrow> bit b (n - p + q)"
  shows "take_bit m (drop_bit p a) = take_bit m (drop_bit q b)"
proof (rule bit_word_eqI)
  fix n assume "n < LENGTH(64)"
  then show "bit (take_bit m (drop_bit p a)) n = bit (take_bit m (drop_bit q b)) n"
    using assms(2) [of "p + n"] by (auto simp: bit_simps add.commute)
qed

lemma take_drop_word:
  fixes w :: u32
  assumes "w \<le> 3"
  shows "take_bit 2 (drop_bit 0 (ucast w :: u64)) = ucast w"
  by (rule bit_word_eqI) (use bit_small [OF assms] in \<open>auto simp: bit_simps\<close>)

lemma watch_enable:
  assumes x: "length x = 0x358" and k: "k < 4" "idx < 4" and w: "len \<le> 3" "ty \<le> 3"
    and y_def: "y = splice (splice x (0x2D8 + 8 * idx) (le_bytes 8 a)) 0x310 (le_bytes 8 (dr7_enable idx len ty (dr7_clear idx (field64 x 0x310))))"
  shows "watch_at y k = (if k = idx then Some (a, ucast len, ucast ty) else watch_at x k)"
proof -
  let ?d = "field64 x 0x310"
  let ?e = "dr7_enable idx len ty (dr7_clear idx ?d)"
  have y: "field64 y 0x310 = ?e" "field64 y (0x2D8 + 8 * k) = (if k = idx then a else field64 x (0x2D8 + 8 * k))"
    using x k by (cases k idx rule: linorder_cases; simp add: y_def splice_fields)+
  have b: "bit ?e n \<longleftrightarrow> bit ?d n \<and> \<not> (2 * idx \<le> n \<and> n < 2 * idx + 2) \<and> \<not> (4 * idx + 16 \<le> n \<and> n < 4 * idx + 20) \<or>
      2 * idx \<le> n \<and> n < 2 * idx + 2 \<or> 4 * idx + 18 \<le> n \<and> bit len (n - (4 * idx + 18)) \<or> 4 * idx + 16 \<le> n \<and> bit ty (n - (4 * idx + 16))"
    if "n < 64" for n using bit_dr7_enable [OF k(2) w that] bit_dr7_clear [OF that] by simp
  note s = bit_small [OF w(1)] bit_small [OF w(2)]
  show ?thesis
  proof (cases "k = idx")
    case True
    have "take_bit 2 (drop_bit (2 * idx) ?e) = take_bit 2 (drop_bit 0 (mask 2 :: u64))"
      by (rule take_drop_eqI) (use k b in \<open>auto simp: bit_mask_iff\<close>)
    then have 1: "take_bit 2 (drop_bit (2 * idx) ?e) \<noteq> 0" by (simp add: mask_eq_exp_minus_1)
    have 2: "take_bit 2 (drop_bit (4 * idx + 18) ?e) = ucast len"
      by (rule trans [OF take_drop_eqI take_drop_word [OF w(1)]]) (use k b s in \<open>auto simp: bit_unsigned_iff dest: s\<close>)
    have 3: "take_bit 2 (drop_bit (4 * idx + 16) ?e) = ucast ty"
      by (rule trans [OF take_drop_eqI take_drop_word [OF w(2)]]) (use k b s in \<open>auto simp: bit_unsigned_iff dest: s\<close>)
    show ?thesis using 1 2 3 by (simp add: watch_at_def y(1) True y(2) [unfolded True])
  next
    case False
    then have d: "k + 1 \<le> idx \<or> idx + 1 \<le> k" by auto
    have f: "bit ?e n = bit ?d n" if n: "2 * k \<le> n \<and> n < 2 * k + 2 \<or> 4 * k + 16 \<le> n \<and> n < 4 * k + 20" for n
    proof -
      have l: "n < 64" using n k by linarith
      have o: "\<not> (2 * idx \<le> n \<and> n < 2 * idx + 2)" "\<not> (4 * idx + 16 \<le> n \<and> n < 4 * idx + 20)" using n k d by (elim disjE; linarith)+
      have "\<not> (4 * idx + 18 \<le> n \<and> bit len (n - (4 * idx + 18)))" "\<not> (4 * idx + 16 \<le> n \<and> bit ty (n - (4 * idx + 16)))"
        using o(2) s(1) [of "n - (4 * idx + 18)"] s(2) [of "n - (4 * idx + 16)"] by auto
      with b [OF l] o show ?thesis by blast
    qed
    have "take_bit 2 (drop_bit (2 * k) ?e) = take_bit 2 (drop_bit (2 * k) ?d)"
      "take_bit 2 (drop_bit (4 * k + 18) ?e) = take_bit 2 (drop_bit (4 * k + 18) ?d)"
      "take_bit 2 (drop_bit (4 * k + 16) ?e) = take_bit 2 (drop_bit (4 * k + 16) ?d)"
      by (rule take_drop_eqI; use k f in simp)+
    then show ?thesis using False by (simp add: watch_at_def y Let_def)
  qed
qed

lemma watch_disable:
  assumes x: "length x = 0x358" and k: "k < 4" "idx < 4"
    and y_def: "y = splice (splice x 0x310 (le_bytes 8 (dr7_clear idx (field64 x 0x310)))) (0x2D8 + 8 * idx) (le_bytes 8 (0 :: u64))"
  shows "watch_at y k = (if k = idx then None else watch_at x k)"
proof -
  let ?d = "field64 x 0x310"
  let ?e = "dr7_clear idx ?d"
  have y: "field64 y 0x310 = ?e" "k \<noteq> idx \<Longrightarrow> field64 y (0x2D8 + 8 * k) = field64 x (0x2D8 + 8 * k)"
    using x k by (cases k idx rule: linorder_cases; simp add: y_def splice_fields)+
  note b = bit_dr7_clear [of _ idx ?d]
  show ?thesis
  proof (cases "k = idx")
    case True
    have "take_bit 2 (drop_bit (2 * idx) ?e) = take_bit 2 (drop_bit 0 0)"
      by (rule take_drop_eqI) (use k b in auto)
    then show ?thesis using True by (simp add: watch_at_def y)
  next
    case False
    then have d: "k + 1 \<le> idx \<or> idx + 1 \<le> k" by auto
    have f: "bit ?e n = bit ?d n" if n: "2 * k \<le> n \<and> n < 2 * k + 2 \<or> 4 * k + 16 \<le> n \<and> n < 4 * k + 20" for n
    proof -
      have l: "n < 64" using n k by linarith
      have "\<not> (2 * idx \<le> n \<and> n < 2 * idx + 2)" "\<not> (4 * idx + 16 \<le> n \<and> n < 4 * idx + 20)" using n k d by (elim disjE; linarith)+
      with b [OF l] show ?thesis by blast
    qed
    have "take_bit 2 (drop_bit (2 * k) ?e) = take_bit 2 (drop_bit (2 * k) ?d)"
      "take_bit 2 (drop_bit (4 * k + 18) ?e) = take_bit 2 (drop_bit (4 * k + 18) ?d)"
      "take_bit 2 (drop_bit (4 * k + 16) ?e) = take_bit 2 (drop_bit (4 * k + 16) ?d)"
      by (rule take_drop_eqI; use k f in simp)+
    then show ?thesis using False by (simp add: watch_at_def y Let_def)
  qed
qed

lemma slot_rel_upper:
  assumes "length x = 0x358" "b < MAX_BREAKPOINTS" "0x2D8 \<le> off" "off + length bs \<le> 0x358"
  shows "slot_rel (splice x off bs) m b r \<longleftrightarrow> slot_rel x m b r"
proof -
  have "b < 30" using assms(2) by (simp add: MAX_BREAKPOINTS_def)
  then have "bp_enabled (splice x off bs) b = bp_enabled x b" "bp_address (splice x off bs) b = bp_address x b"
    "bp_saved (splice x off bs) b = bp_saved x b"
    unfolding bp_enabled_def bp_address_def bp_saved_def using assms by (simp_all add: field64_splice field32_splice nth_splice)
  then show "slot_rel (splice x off bs) m b r \<longleftrightarrow> slot_rel x m b r" by (cases r) simp_all
qed

lemma ctx_pid_upper:
  "length x = 0x358 \<Longrightarrow> 0x2D8 \<le> off \<Longrightarrow> off + length bs \<le> 0x358 \<Longrightarrow> ctx_pid (splice x off bs) = ctx_pid x"
  by (simp add: ctx_pid_def field32_splice)

lemma store_watchpoint_ok:
  assumes "debugs tv i pid bps t s" "wt_index wp \<le> 3" "wt_length wp \<le> 3" "wt_breaktype wp \<le> 3"
  shows "debugs tv i pid bps t (store_watchpoint i wp s)"
    and "k < 4 \<Longrightarrow> watch_at (ctx_at i (store_watchpoint i wp s)) k = watch_spec wp (watch_at (ctx_at i s)) k"
    and "low (store_watchpoint i wp s) = low s"
proof -
  note d = assms(1) [unfolded debugs_def]
  let ?idx = "unat (wt_index wp)"
  have x: "length (ctx_at i s) = 0x358" "?idx < 4" using d assms(2) by (auto simp: word_le_nat_alt)
  show "k < 4 \<Longrightarrow> watch_at (ctx_at i (store_watchpoint i wp s)) k = watch_spec wp (watch_at (ctx_at i s)) k"
    using watch_enable [OF x(1) _ x(2) assms(3,4) refl, of k "wt_address wp"] watch_disable [OF x(1) _ x(2) refl, of k] d
    by (cases "k = ?idx") (simp_all add: store_watchpoint_def watch_spec_def Let_def)
  show "low (store_watchpoint i wp s) = low s" by (simp add: store_watchpoint_def Let_def)
  show "debugs tv i pid bps t (store_watchpoint i wp s)"
    using d x by (auto simp: debugs_def store_watchpoint_def Let_def length_splice slot_rel_upper ctx_pid_upper)
qed

context debug_target
begin

lemma set_all_dbregs_fine: "tv (low s) t \<Longrightarrow> fine snd (\<lambda>l. tv l t) s (set_all_dbregs D blk lws s)"
proof (induction lws arbitrary: s)
  case (Cons lw lws)
  then show ?case by (auto intro!: bind_steps fine_same [OF Cons.IH] simp: split_beta)
qed simp

lemma apply_watchpoint_ok:
  assumes "debugs tv i pid bps t s" "wt_index wp \<le> 3" "wt_length wp \<le> 3" "wt_breaktype wp \<le> 3"
    and es: "elev_valid es"
  shows "\<exists>ok es' s'. apply_watchpoint D i pid es wp s = Some ((ok, es'), s') \<and> elev_valid es' \<and> debugs tv i pid bps t s' \<and>
    (ok \<longrightarrow> (\<forall>k<4. watch_at (ctx_at i s') k = watch_spec wp (watch_at (ctx_at i s)) k))"
proof -
  let ?P = "\<lambda>l. tv l (planted pid bps t)"
  have s: "?P (low s)" using assms(1) by (simp add: debugs_def)
  obtain st l s1 where 1: "threads_stopped D pid s = Some ((st, l), s1)" "?P (low s1)" "session_of s1 = session_of s"
    using fine_pair [OF threads_stopped_fine [OF s]] by (metis prod.collapse)
  note d1 = debugs_kept(1) [OF assms(1) 1(2,3)] and x = debugs_kept(2) [OF assms(1) 1(2,3)]
  show ?thesis
  proof (cases "st = Some True \<and> l = None")
    case True
    obtain es' s' where r: "resume_both D es pid s1 = Some (es', s')" "?P (low s')" "session_of s' = session_of s1" "elev_valid es'"
      by (rule fine_pair [OF resume_both_fine [OF es 1(2)]]) auto
    then show ?thesis using True 1(1) debugs_kept(1) [OF d1 r(2,3)] by (auto simp: apply_watchpoint_def)
  next
    case False
    show ?thesis
    proof (cases "st = None \<or> l = None")
      case True
      with False 1(1) d1 es show ?thesis by (auto simp: apply_watchpoint_def split: option.splits bool.splits)
    next
      case F: False
      then obtain b lws where st: "st = Some b" "l = Some lws" by auto
      define s2 where "s2 = store_watchpoint i wp s1"
      have 2: "debugs tv i pid bps t s2" "\<forall>k<4. watch_at (ctx_at i s2) k = watch_spec wp (watch_at (ctx_at i s)) k" "?P (low s2)"
        using store_watchpoint_ok [OF d1 assms(2-4)] 1(2) x unfolding s2_def by auto
      have "fine_with (\<lambda>((_, es), _). elev_valid es) snd ?P s2 (do {
          (ok, s) \<leftarrow> set_all_dbregs D (drop 0x2D8 (ctx_at i s2)) lws s2;
          (es, s) \<leftarrow> (if b then resume_both D es pid s else Some (es, s));
          Some ((ok, es), s) })"
        by (rule fine_bind [OF set_all_dbregs_fine [OF 2(3)]])
           (use es in \<open>auto intro!: fine_bind [OF fine_same [OF resume_both_fine]] simp: split_beta\<close>)
      then obtain r s' where 3: "(do {
          (ok, s) \<leftarrow> set_all_dbregs D (drop 0x2D8 (ctx_at i s2)) lws s2;
          (es, s) \<leftarrow> (if b then resume_both D es pid s else Some (es, s));
          Some ((ok, es), s) }) = Some (r, s')" "?P (low s')" "session_of s' = session_of s2" "elev_valid (snd r)"
        by (rule fine_pair) (auto simp: split_beta)
      have "apply_watchpoint D i pid es wp s = Some (r, s')"
        using 3(1) 1(1) st by (cases b) (simp_all add: apply_watchpoint_def s2_def [symmetric])
      with debugs_kept [OF 2(1) 3(2,3)] 2(2) 3(4) show ?thesis by (cases r) auto
    qed
  qed
qed

lemma debug_set_watchpoint_refines:
  assumes "debugs tv i pid bps t s" "data packet = Some dp" "wt_index (watchpt_packet dp) \<le> 3"
    "wt_length (watchpt_packet dp) \<le> 3" "wt_breaktype (watchpt_packet dp) \<le> 3"
  shows "\<exists>rc s'. debug_set_watchpoint_handle D packet (s, c) = Some (rc, s', send_int32 (if rc = 0 then CMD_SUCCESS else CMD_ERROR) c) \<and>
    debugs tv i pid bps t s' \<and>
    (rc = 0 \<longrightarrow> (\<forall>k<4. watch_at (ctx_at i s') k = watch_spec (watchpt_packet dp) (watch_at (ctx_at i s)) k))"
proof -
  let ?wp = "watchpt_packet dp" and ?P = "\<lambda>l. tv l (planted pid bps t)"
  have s: "?P (low s)" using assms(1) by (simp add: debugs_def)
  obtain es s1 where 1: "lift (d_elev D) s = Some (es, s1)" "?P (low s1)" "session_of s1 = session_of s" "elev_valid es"
    by (rule fine_pair [OF elev_fine [OF s]]) auto
  note d1 = debugs_kept [OF assms(1) 1(2,3)]
  have h: "debug_set_watchpoint_handle D packet (s, c) = (case es of None \<Rightarrow> Some (1, s1, send_int32 CMD_ERROR c)
      | Some es \<Rightarrow> do {
          ((ok, es), s) \<leftarrow> apply_watchpoint D i pid (Some es) ?wp s1;
          s \<leftarrow> (case es of Some es \<Rightarrow> lift2 (d_unelev D es) s | None \<Rightarrow> Some s);
          Some (if ok then 0 else 1, s, send_int32 (if ok then CMD_SUCCESS else CMD_ERROR) c) })"
    using assms(1-3) 1(1) by (simp add: debug_set_watchpoint_handle_def in_session_def debugs_def Let_def not_less [symmetric] cong: option.case_cong)
  show ?thesis
  proof (cases es)
    case None
    with h d1(1) show ?thesis by simp
  next
    case (Some e)
    obtain ok es' s2 where 2: "apply_watchpoint D i pid (Some e) ?wp s1 = Some ((ok, es'), s2)" "debugs tv i pid bps t s2" "elev_valid es'"
        "ok \<longrightarrow> (\<forall>k<4. watch_at (ctx_at i s2) k = watch_spec ?wp (watch_at (ctx_at i s)) k)"
      using apply_watchpoint_ok [OF d1(1) assms(3-5) 1(4)] d1(2) Some by auto
    have "?P (low s2)" using 2(2) by (simp add: debugs_def)
    then have "fine (\<lambda>x. x) ?P s2 (case es' of Some es \<Rightarrow> lift2 (d_unelev D es) s2 | None \<Rightarrow> Some s2)"
      using 2(3) by (cases es') (auto intro!: steps)
    then obtain s' where 3: "(case es' of Some es \<Rightarrow> lift2 (d_unelev D es) s2 | None \<Rightarrow> Some s2) = Some s'" "?P (low s')" "session_of s' = session_of s2"
      by (rule fine_obtain)
    show ?thesis using h Some 2(1,4) 3(1) debugs_kept [OF 2(2) 3(2,3)] by auto
  qed
qed

end

end
