(* ===== verification/DebugEventsProps.thy ===== *)
theory DebugEventsProps
  imports DebugEvents DebugProps
begin

text \<open>
  The event monitor keeps a session: whatever stops the process, its breakpoints are planted again
  when the monitor returns, and the program below them is untouched.
\<close>

lemma dbg_pid_session: "session_of s' = session_of s \<Longrightarrow> dbg_pid s' = dbg_pid s"
  using session_of_D [of s' s] by (simp add: dbg_pid_def ctx_at_def)

lemma first_gap: "\<exists>g\<le>(n :: nat). (\<forall>b<g. f b \<noteq> None) \<and> (g < n \<longrightarrow> f g = None)"
proof (induction n)
  case (Suc n)
  then obtain g where g: "g \<le> n" "\<forall>b<g. f b \<noteq> None" "g < n \<longrightarrow> f g = None" by blast
  show ?case
  proof (cases "f g = None")
    case True
    with g show ?thesis by (intro exI [of _ g]) simp
  next
    case False
    with g have "g = n" by simp
    with g False show ?thesis by (intro exI [of _ "Suc n"]) (auto simp: less_Suc_eq)
  qed
qed simp

inductive reports :: "'s dbg_ops \<Rightarrow> u32 \<Rightarrow> 's \<Rightarrow> bool" for D pid where
  \<comment> \<open>polling the process in state \<open>l\<close> yields an answer in the end\<close>
  now: "d_wait4 D pid 1 l = Some ((r, st), l') \<Longrightarrow> r \<noteq> 0 \<Longrightarrow> reports D pid l"
| later: "d_wait4 D pid 1 l = Some ((r, st), l') \<Longrightarrow> r = 0 \<Longrightarrow> reports D pid (d_sleep D 50 l') \<Longrightarrow> reports D pid l"

text \<open>What the monitor relies on besides: reading kernel memory and registers, and setting the
  registers of a thread, leave the program alone; a process that was told to step reports it.\<close>

locale debug_monitor = debug_target +
  assumes time_ok: "tv s t \<Longrightarrow> \<exists>r s'. d_time D s = Some (r, s') \<and> tv s' t"
    and listed_ok: "tv s t \<Longrightarrow> \<exists>r s'. d_listed D p s = Some (r, s') \<and> tv s' t"
    and thread_addr_ok: "tv s t \<Longrightarrow> \<exists>r s'. d_thread_addr D p lw s = Some (r, s') \<and> tv s' t"
    and out_ok: "tv s t \<Longrightarrow> tv (snd (snd (d_out D a buf s))) t"
    and get_regs_ok: "length buf = 0xB0 \<Longrightarrow> tv s t \<Longrightarrow>
        \<exists>rc b s'. d_get_regs D p lw buf s = Some ((rc, b), s') \<and> length b = 0xB0 \<and> tv s' t"
    and set_regs_ok: "length buf = 0xB0 \<Longrightarrow> tv s t \<Longrightarrow> \<exists>r s'. d_set_regs D p lw buf s = Some (r, s') \<and> tv s' t"
    and bump_ok: "tv s t \<Longrightarrow> \<exists>r s'. d_bump D s = Some (r, s') \<and> (\<forall>v. r = Some v \<longrightarrow> v \<noteq> 0) \<and> tv s' t"
    and unbump_ok: "v \<noteq> 0 \<Longrightarrow> tv s t \<Longrightarrow> \<exists>s'. d_unbump D v s = Some s' \<and> tv s' t"
    and reports_ok: "tv s t \<Longrightarrow> reports D pid s"
begin

lemma wait_step_low: "reports D pid l \<Longrightarrow> low s = l \<Longrightarrow> tv l t \<Longrightarrow> fine (\<lambda>x. x) (\<lambda>l. tv l t) s (wait_step D pid s)"
proof (induction l arbitrary: s rule: reports.induct)
  case (now l r st l')
  then have "tv l' t" using wait4_ok [OF now.prems(2), of pid 1] by auto
  with now show ?case by (subst wait_step.simps) (simp add: lift_def)
next
  case (later l r st l')
  then have "tv (d_sleep D 50 l') t" using wait4_ok [OF later.prems(2), of pid 1] sleep_ok by auto
  from later.IH [of "lift1 (d_sleep D 50) (s\<lparr>low := l'\<rparr>)"] this
  have "fine (\<lambda>x. x) (\<lambda>l. tv l t) s (wait_step D pid (lift1 (d_sleep D 50) (s\<lparr>low := l'\<rparr>)))"
    by (simp add: fine_with_def)
  with later show ?case by (subst wait_step.simps) (simp add: lift_def)
qed

lemma wait_step_fine: "tv (low s) t \<Longrightarrow> fine (\<lambda>x. x) (\<lambda>l. tv l t) s (wait_step D pid s)"
  using wait_step_low reports_ok by blast

lemma session_of_caches [simp]:
  "session_of (g_rip_cache_update f s) = session_of s" "session_of (g_rip_cache_next_update g s) = session_of s"
  "session_of (g_rip_cache_gen_update h s) = session_of s" "session_of (g_lwp_cache_list_update b s) = session_of s"
  "session_of (g_lwp_cache_count_update c s) = session_of s" "session_of (g_lwp_cache_pid_update d s) = session_of s"
  "session_of (g_lwp_cache_gen_update h s) = session_of s" "session_of (g_stepping_lwpid_update d s) = session_of s"
  "session_of (g_storm_lwpid_update d s) = session_of s" "session_of (g_storm_rip_update u s) = session_of s"
  "session_of (g_storm_sig_update v s) = session_of s" "session_of (g_storm_count_update d s) = session_of s"
  "session_of (g_last_alive_check_update d s) = session_of s"
  by (simp_all add: session_of_def server.truncate_def)

lemmas more_steps = steps fine_same [OF wait_step_fine] fine_same [OF set_dbregs_fine]
  fine_same [OF fine_lift [OF time_ok]] fine_same [OF fine_lift [OF listed_ok]] fine_same [OF fine_lift [OF thread_addr_ok]]
  fine_same [OF fine_lift [OF set_regs_ok]]
  fine_same [OF fine_lift2 [OF unbump_ok]]

lemmas more_binds = more_steps [THEN fine_bind]

lemma rip_addr_fine: "tv (low s) t \<Longrightarrow> fine snd (\<lambda>l. tv l t) s (rip_addr D p lw s)"
  unfolding rip_addr_def by (auto intro!: more_binds out_ok simp: split_beta Let_def split: option.splits)

lemma kern_get_rip_fast_fine: "tv (low s) t \<Longrightarrow> fine snd (\<lambda>l. tv l t) s (kern_get_rip_fast D p lw v s)"
  unfolding kern_get_rip_fast_def
  by (rule fine_bind [OF fine_same [OF rip_addr_fine]])
     (auto intro!: out_ok simp: rip_age_def split_beta Let_def split: option.splits)

lemma absorb_fine: "tv (low s) t \<Longrightarrow> fine snd (\<lambda>l. tv l t) s (absorb D p x li s)"
  unfolding absorb_def absorb_one_def
  by (auto intro!: fine_bind [OF kern_get_rip_fast_fine] more_binds simp: split_beta)

lemma ptrace_or_fine: "tv (low s) t \<Longrightarrow> fine snd (\<lambda>l. tv l t) s (ptrace_or D pop lw r s)"
  unfolding ptrace_or_def by (auto intro!: more_binds simp: split_beta)

lemmas ptrace_or_bind = fine_bind [OF fine_same [OF ptrace_or_fine]]

lemma ptrace_state_fine: "tv (low s) t \<Longrightarrow> fine snd (\<lambda>l. tv l t) s (ptrace_state D lw s)"
  unfolding ptrace_state_def by (auto intro!: ptrace_or_bind simp: split_beta split: option.splits)

lemma thread_state_fine: "tv (low s) t \<Longrightarrow> fine snd (\<lambda>l. tv l t) s (thread_state D False p lw s)"
  unfolding thread_state_def
  by (auto intro!: ptrace_or_bind fine_bind [OF ptrace_state_fine] simp: split_beta split: option.splits)

lemma put_dbregs_fine: "tv (low s) t \<Longrightarrow> fine (\<lambda>x. x) (\<lambda>l. tv l t) s (put_dbregs D False p lw db s)"
  unfolding put_dbregs_def by (auto intro!: fine_map [OF steps(1)])

lemma step_and_wait_fine: "tv (low s) t \<Longrightarrow> fine (\<lambda>x. x) (\<lambda>l. tv l t) s (step_and_wait D pid lw s)"
  unfolding step_and_wait_def by (auto intro!: more_binds more_steps simp: split_beta)

lemmas wp_binds = more_binds fine_bind [OF fine_same [OF step_and_wait_fine]]

lemma step_over_wp_fine: "tv (low s) t \<Longrightarrow> fine (\<lambda>x. x) (\<lambda>l. tv l t) s (step_over_wp D False pid lw keep db s)"
  unfolding step_over_wp_def by (auto intro!: wp_binds fine_same [OF put_dbregs_fine])

lemma sibling_wp_fine: "tv (low s) t \<Longrightarrow> fine (\<lambda>x. x) (\<lambda>l. tv l t) s (sibling_wp D False pid cl2 keep lw s)"
  unfolding sibling_wp_def by (auto intro!: wp_binds fine_same [OF put_dbregs_fine] simp: split_beta)

lemma wp_lwps_fine: "tv (low s) t \<Longrightarrow> fine (\<lambda>x. x) (\<lambda>l. tv l t) s (wp_lwps D False pid lw rip cl2 keep db lws lbuf s)"
proof (induction lws arbitrary: s lbuf rip)
  case (Cons lwp lws)
  have r: "fine snd (\<lambda>l. tv l t) s (map_option (\<lambda>((_, b), s). (b, s)) (ptrace_raw D PT_GETREGS lwp lbuf 0 s))"
    by (rule fine_map [OF ptrace_raw_fine [OF Cons.prems]]) auto
  show ?case
    using Cons.prems
    by (auto intro!: fine_bind [OF r] fine_bind [OF fine_same [OF step_over_wp_fine]] fine_bind [OF fine_same [OF sibling_wp_fine]]
        fine_same [OF Cons.IH] simp: split_beta)
qed simp

lemma handle_wp_fine: "tv (low s) t \<Longrightarrow> fine (\<lambda>x. x) (\<lambda>l. tv l t) s (handle_wp D False pid lw rip w db s)"
  unfolding handle_wp_def Let_def
  by (auto intro!: more_binds fine_same [OF wp_lwps_fine] fine_same [OF step_over_wp_fine] simp: split_beta split: option.splits prod.splits)

lemma get_regs_fine:
  "length buf = 0xB0 \<Longrightarrow> tv (low s) t \<Longrightarrow>
   fine_with (\<lambda>x. length (snd (fst x)) = 0xB0) snd (\<lambda>l. tv l t) s (lift (d_get_regs D p lw buf) s)"
  using get_regs_ok [of buf "low s" t p lw] by (auto simp: fine_with_def lift_def)

lemma rewind_thread_fine: "tv (low s) t \<Longrightarrow> fine snd (\<lambda>l. tv l t) s (rewind_thread D pid lw a s)"
  unfolding rewind_thread_def
  by (auto intro!: fine_bind [OF kern_get_rip_fast_fine] fine_bind [OF fine_same [OF get_regs_fine]] more_binds simp: split_beta length_splice)

lemma rewind_siblings_fine: "tv (low s) t \<Longrightarrow> fine (\<lambda>x. x) (\<lambda>l. tv l t) s (rewind_siblings D pid lw c a lws s)"
proof (induction lws arbitrary: s)
  case (Cons lwp lws)
  have r: "fine (\<lambda>x. x) (\<lambda>l. tv l t) s (map_option snd (rewind_thread D pid lwp a s))"
    by (rule fine_map [OF rewind_thread_fine [OF Cons.prems]]) auto
  show ?case using Cons.prems by (auto intro!: fine_bind [OF r] fine_same [OF Cons.IH])
qed simp

lemma get_lwp_list_cached_fine: "tv (low s) t \<Longrightarrow> fine snd (\<lambda>l. tv l t) s (get_lwp_list_cached D p s)"
  unfolding get_lwp_list_cached_def Let_def by (auto intro!: more_binds simp: split_beta)

lemma rewind_others_fine: "tv (low s) t \<Longrightarrow> fine (\<lambda>x. x) (\<lambda>l. tv l t) s (rewind_others D pid lw a s)"
  unfolding rewind_others_def Let_def
  by (auto intro!: more_binds fine_bind [OF fine_same [OF rewind_thread_fine]] fine_bind [OF fine_same [OF get_lwp_list_cached_fine]]
      fine_same [OF rewind_siblings_fine] simp: split_beta split: option.splits)

lemma apply_regs_fine: "tv (low s) t \<Longrightarrow> fine (\<lambda>x. x) (\<lambda>l. tv l t) s (apply_regs D False p lw regs s)"
  unfolding apply_regs_def by (auto intro!: fine_map [OF steps(1)])

lemma report_fine: "tv (low s) t \<Longrightarrow> fine snd (\<lambda>l. tv l t) s (report D p sig lw st li regs fpu db s)"
  unfolding report_def note_storm_def Let_def
  by (auto intro!: more_binds simp: split_beta)

lemma bump_fine: "tv (low s) t \<Longrightarrow> fine_with (\<lambda>x. \<forall>v. fst x = Some v \<longrightarrow> v \<noteq> 0) snd (\<lambda>l. tv l t) s (lift (d_bump D) s)"
  using bump_ok [of "low s" t] by (auto simp: fine_with_def lift_def)

lemma bumped_change:
  assumes "tv (low s) t" "\<And>s'. tv (low s') t \<Longrightarrow> session_of s' = session_of s \<Longrightarrow> fine (\<lambda>x. x) (\<lambda>l. tv l t') s (f s')"
  shows "fine (\<lambda>x. x) (\<lambda>l. tv l t') s (bumped D f s)"
  unfolding bumped_def
  by (rule fine_bind_change [OF bump_fine [OF assms(1)]])
     (auto intro!: fine_bind [OF assms(2)] more_steps split: option.splits)

lemma write_fine:
  assumes "tv (low s) m" "able pid a 1" "session_of s = session_of s0" "m(pid := poke (m pid) a [v]) = m'"
  shows "fine (\<lambda>x. x) (\<lambda>l. tv l m') s0 (lift2 (d_write D pid a [v]) s)"
  using write_single [OF assms(1,2), of v] assms(3,4) by (auto simp: fine_with_def)

lemma step_over_bp_fine:
  assumes s: "tv (low s) (planted pid bps t)" and b: "b < MAX_BREAKPOINTS" "bps b = Some a" "able pid a 1"
    and inj: "\<forall>b<MAX_BREAKPOINTS. \<forall>b'<MAX_BREAKPOINTS. bps b = bps b' \<longrightarrow> bps b \<noteq> None \<longrightarrow> b = b'"
  shows "fine (\<lambda>x. x) (\<lambda>l. tv l (planted pid bps t)) s (step_over_bp D False pid lw a (t pid a) regs s)"
proof -
  let ?m = "planted pid bps t" and ?o = "planted pid (bps(b := None)) t"
  have off: "?m(pid := poke (?m pid) a [t pid a]) = ?o" using b(1,2) inj by (intro planted_disable) auto
  have "(bps(b := None))(b := Some a) = bps" using b(2) by (auto simp: fun_eq_iff)
  then have on: "?o(pid := poke (?o pid) a [0xCC]) = ?m" using planted_enable [OF b(1), of "bps(b := None)" pid t a] by simp
  have 1: "fine (\<lambda>x. x) (\<lambda>l. tv l ?o) s (bumped D (\<lambda>s. do {
         s \<leftarrow> lift2 (d_write D pid a [t pid a]) s;
         s \<leftarrow> apply_regs D False pid lw regs s;
         map_option snd (ptrace_raw D PT_STEP lw [] 0 s) }) s)"
    by (rule bumped_change [OF s])
       (auto intro!: fine_bind [OF write_fine [OF _ b(3) _ off]] fine_bind [OF fine_same [OF apply_regs_fine]] fine_map [OF steps(1)])
  have 2: "fine (\<lambda>x. x) (\<lambda>l. tv l ?m) s (bumped D (\<lambda>s. do {
         s \<leftarrow> rewind_others D pid lw a s;
         lift2 (d_write D pid a [0xCC]) s }) s')" if "tv (low s') ?o" "session_of s' = session_of s" for s'
    by (rule fine_same [OF bumped_change [OF that(1)] that(2)])
       (auto intro!: fine_bind_change [OF fine_same [OF rewind_others_fine]] write_fine [OF _ b(3) _ on])
  show ?thesis unfolding step_over_bp_def
    by (rule fine_bind_change [OF 1], rule fine_bind_change [OF fine_same [OF wait_step_fine]]) (auto intro: 2)
qed

lemma find_bp_slot:
  assumes "find_bp x a = Some b" "\<forall>b<MAX_BREAKPOINTS. slot_rel x m b (bps b)"
  shows "b < MAX_BREAKPOINTS" "bps b = Some a" "bp_address x b = a" "bp_saved x b = m a"
proof -
  have "b < 30" "bp_address x b = a" "a \<noteq> 0" using assms(1) by (auto simp: find_bp_def find_Some_iff)
  moreover from this have "slot_rel x m b (bps b)" using assms(2) by (simp add: MAX_BREAKPOINTS_def)
  ultimately show "b < MAX_BREAKPOINTS" "bps b = Some a" "bp_address x b = a" "bp_saved x b = m a"
    by (cases "bps b"; simp add: MAX_BREAKPOINTS_def)+
qed

lemma handle_event_fine:
  assumes s: "tv (low s) (planted pid bps t)" and x: "\<forall>b<MAX_BREAKPOINTS. slot_rel x (t pid) b (bps b)"
    and inj: "\<forall>b<MAX_BREAKPOINTS. \<forall>b'<MAX_BREAKPOINTS. bps b = bps b' \<longrightarrow> bps b \<noteq> None \<longrightarrow> b = b'"
    and ab: "\<forall>b<MAX_BREAKPOINTS. \<forall>a. bps b = Some a \<longrightarrow> able pid a 1"
  shows "fine snd (\<lambda>l. tv l (planted pid bps t)) s (handle_event D False pid x sig st li rs s)"
proof -
  obtain regs fpu db where rs: "rs = (regs, fpu, db)" by (cases rs)
  let ?a = "field64 regs 0x88 - 1"
  have bp: "fine (\<lambda>x. x) (\<lambda>l. tv l (planted pid bps t)) s (step_over_bp D False pid lw (bp_address x b) (bp_saved x b) r s')"
    if "find_bp x ?a = Some b" "tv (low s') (planted pid bps t)" "session_of s' = session_of s" for b lw r s'
  proof -
    note b = find_bp_slot [OF that(1) x]
    have "able pid ?a 1" using ab b(1,2) by blast
    from step_over_bp_fine [OF that(2) b(1,2) this inj] show ?thesis unfolding b(3,4) by (rule fine_same [OF _ that(3)])
  qed
  have wp: "fine (\<lambda>x. x) (\<lambda>l. tv l (planted pid bps t)) s (case w of Some w \<Rightarrow> handle_wp D False pid lw rip w d s | None \<Rightarrow> Some s)" for w lw rip d
    using s by (auto intro!: handle_wp_fine split: option.splits)
  have db: "fine (\<lambda>x. x) (\<lambda>l. tv l (planted pid bps t)) s (if c then set_dbregs D False pid lw d s' else Some s')"
    if "tv (low s') (planted pid bps t)" "session_of s' = session_of s" for c lw d s'
    using that by (auto intro!: more_steps)
  show ?thesis unfolding handle_event_def rs Let_def using s
    by (cases "find_bp x ?a")
       (auto intro!: more_binds fine_bind [OF wp] fine_bind [OF db] fine_bind [OF bp] fine_same [OF report_fine] simp: split_beta)
qed

lemma stop_event_fine:
  assumes d: "debugs tv i pid bps t s" and ab: "\<forall>b<MAX_BREAKPOINTS. \<forall>a. bps b = Some a \<longrightarrow> able pid a 1"
  shows "fine snd (\<lambda>l. tv l (planted pid bps t)) s (stop_event D sig st s)"
proof -
  note d' = d [unfolded debugs_def]
  have s: "tv (low s) (planted pid bps t)" using d' by blast
  have h: "fine snd (\<lambda>l. tv l (planted pid bps t)) s (handle_event D False pid (ctx_at i s) sig st li rs s')"
    if "tv (low s') (planted pid bps t)" "session_of s' = session_of s" for li rs s'
    by (rule fine_same [OF handle_event_fine [where bps = bps, OF that(1)] that(2)]) (use d' ab in auto)
  have "fine snd (\<lambda>l. tv l (planted pid bps t)) s (do {
     ((r, li), s') \<leftarrow> ptrace_raw D PT_LWPINFO pid (bytes_at (d_stack D) 0 160) 160 s;
     if r \<noteq> 0 then do { (_, s') \<leftarrow> resume_app_via_self_id D pid s'; Some (1, s') }
     else do {
       (absorbed, s') \<leftarrow> absorb D pid (ctx_at i s) li s';
       if absorbed then Some (0, s')
       else do {
         (kpath, s') \<leftarrow> lift (d_kernel_path D) s';
         (rs, s') \<leftarrow> thread_state D kpath pid (field32 li 0) s';
         (case rs of
            None \<Rightarrow> do { (_, s') \<leftarrow> resume_app_via_self_id D pid s'; Some (1, s') }
          | Some rs \<Rightarrow> handle_event D kpath pid (ctx_at i s) sig st li rs s') } } })"
    using s by (auto intro!: more_binds fine_bind [OF fine_same [OF absorb_fine]] kernel_path_bind
        fine_bind [OF fine_same [OF thread_state_fine]] h simp: split_beta split: option.splits)
  then show ?thesis using d' by (simp add: stop_event_def Let_def cong: if_cong option.case_cong)
qed

lemma debug_handle_breakpoint_resume_ok:
  assumes "debugs tv i pid bps t s"
  obtains s' where "debug_handle_breakpoint_resume D s = Some s'" "debugs tv i pid bps t s'"
proof (cases "g_stopgo_resume_signal s = 0xFFFFFFFF")
  case True
  then show thesis using that [of s] assms by (simp add: debug_handle_breakpoint_resume_def debugs_def)
next
  case False
  let ?P = "\<lambda>l. tv l (planted pid bps t)" and ?sig = "g_stopgo_resume_signal s" and ?pid = "g_stopgo_resume_pid s"
  have s: "?P (low s)" using assms by (simp add: debugs_def)
  have a: "fine (\<lambda>x. x) ?P s (if c then map_option (g_recently_disabled_bps_update (\<lambda>_. [])) (int3_iterative_sweep D p as s) else Some s)" for c p as
    by (rule fine_obtain [OF int3_iterative_sweep_fine [OF s, of p as]]) (use s in auto)
  have b: "fine (\<lambda>x. x) ?P s (if c then map_option snd (resume_app_via_self_id D p s') else Some s')" if "?P (low s')" "session_of s' = session_of s" for c p s'
    using that by (auto intro!: fine_map [OF steps(3)])
  have w: "fine (\<lambda>x. x) ?P s (if c then wait4_timeout D p s' else Some s')" if "?P (low s')" "session_of s' = session_of s" for c p s'
    using that by (auto simp: wait4_timeout_def intro!: fine_same [OF wait_loop_fine])
  have "fine (\<lambda>x. x) ?P s (do {
        s \<leftarrow> (if ?sig = 0 \<and> g_recently_disabled_bps s \<noteq> []
             then map_option (g_recently_disabled_bps_update (\<lambda>_. [])) (int3_iterative_sweep D ?pid (g_recently_disabled_bps s) s)
             else Some s);
        s \<leftarrow> (if ?sig = 0 then map_option snd (resume_app_via_self_id D ?pid s) else Some s);
        (_, s) \<leftarrow> ptrace_raw D PT_CONTINUE ?pid [] (sint ?sig) s;
        if g_stopgo_resume_signal s = 17 then wait4_timeout D ?pid s else Some s })" (is "fine _ _ _ ?run")
    by (rule fine_bind [OF a], rule fine_bind [OF b]) (auto intro!: more_binds w simp: split_beta)
  then obtain s1 where 1: "?run = Some s1" "?P (low s1)" "session_of s1 = session_of s" by (rule fine_obtain)
  have "debugs tv i pid bps t (s1\<lparr>g_stopgo_resume_signal := 0xFFFFFFFF, g_stopgo_resume_pid := 0\<rparr>)"
    using debugs_kept(1) [OF assms 1(2,3)] by (simp add: debugs_def ctx_at_def)
  moreover have "debug_handle_breakpoint_resume D s = map_option (\<lambda>s. s\<lparr>g_stopgo_resume_signal := 0xFFFFFFFF, g_stopgo_resume_pid := 0\<rparr>) ?run"
    using False assms
    by (simp add: debug_handle_breakpoint_resume_def debugs_def Let_def map_conv_bind_option Option.bind_assoc case_prod_unfold comp_def)
  ultimately show thesis using that 1(1) by simp
qed

lemma check_alive_fine:
  assumes "debugs tv i pid bps t s"
  shows "fine snd (\<lambda>l. tv l (planted pid bps t)) s (check_alive D s)"
proof -
  have p: "dbg_pid s = Some pid" and "tv (low s) (planted pid bps t)" using assms by (simp_all add: dbg_pid_def debugs_def)
  then show ?thesis
    unfolding check_alive_def by (auto intro!: more_binds simp: split_beta dbg_pid_session [of _ s, unfolded p])
qed

lemma dispatch_keeps:
  assumes d: "debugs tv i pid bps t s" and ab: "\<forall>b<MAX_BREAKPOINTS. \<forall>a. bps b = Some a \<longrightarrow> able pid a 1"
    and k: "\<forall>l r st l'. tv l (planted pid bps t) \<longrightarrow> d_wait4 D pid 1 l = Some ((r, st), l') \<longrightarrow> (ucast (drop_bit 8 st) :: byte) \<noteq> 9"
  shows "\<exists>rc s'. dispatch_debug_events D s = Some (rc, s') \<and> debugs tv i pid bps t s'"
proof -
  let ?P = "\<lambda>l. tv l (planted pid bps t)"
  obtain s1 where 1: "debug_handle_breakpoint_resume D s = Some s1" "debugs tv i pid bps t s1"
    by (rule debug_handle_breakpoint_resume_ok [OF d])
  obtain alive s2 where 2: "check_alive D s1 = Some (alive, s2)" "?P (low s2)" "session_of s2 = session_of s1"
    by (rule fine_pair [OF check_alive_fine [OF 1(2)]])
  note d2 = debugs_kept(1) [OF 1(2) 2(2,3)]
  have pid: "dbg_pid s2 = Some pid" using d2 by (simp add: dbg_pid_def debugs_def)
  obtain r st l where w: "d_wait4 D pid 1 (low s2) = Some ((r, st), l)" "?P l" using wait4_ok [OF 2(2), of pid 1] by auto
  define s3 where "s3 = s2\<lparr>low := l\<rparr>"
  have d3: "debugs tv i pid bps t s3" using debugs_kept(1) [OF d2, of s3] w(2) by (simp add: s3_def)
  let ?stat = "if r > 0 then st else 0"
  have n9: "(ucast (drop_bit 8 ?stat) :: byte) \<noteq> 9" using k w(1) 2(2) by auto
  obtain rc s4 where 4: "stop_event D (ucast (drop_bit 8 ?stat)) ?stat s3 = Some (rc, s4)" "debugs tv i pid bps t s4"
    using fine_pair [OF stop_event_fine [OF d3 ab]] debugs_kept(1) [OF d3] by metis
  show ?thesis
    using 1 2(1) d2 pid w(1) d3 n9 4 by (auto simp: dispatch_debug_events_def lift_def s3_def [symmetric] Let_def)
qed

lemma kill_event_stuck:
  assumes d: "debugs tv i pid bps t s" and ab: "\<forall>b<MAX_BREAKPOINTS. \<forall>a. bps b = Some a \<longrightarrow> able pid a 1"
    and alive: "\<And>l. tv l (planted pid bps t) \<Longrightarrow> map_option fst (d_alive D pid l) = Some True"
  shows "\<exists>s'. debug_full_teardown D (curdbgcli s) s = Some s' \<and> curdbgcli s' = None \<and> kill_event D s = None"
proof -
  obtain g where g: "g \<le> MAX_BREAKPOINTS" "\<forall>b<g. bps b \<noteq> None" "g < MAX_BREAKPOINTS \<Longrightarrow> bps g = None"
    using first_gap [of MAX_BREAKPOINTS bps] by blast
  have "\<forall>b<g. \<exists>a. bps b = Some a \<and> able pid a 1"
  proof (intro allI impI)
    fix b assume "b < g"
    then obtain a where "bps b = Some a" "b < MAX_BREAKPOINTS" using g by auto
    with ab show "\<exists>a. bps b = Some a \<and> able pid a 1" by blast
  qed
  from debug_detach_restores [OF d g(1) this g(3) alive, of undefined undefined]
  have "\<exists>s'. debug_full_teardown D (curdbgcli s) s = Some s' \<and> curdbgcli s' = None"
    by (auto simp: debug_detach_handle_def Option.bind_eq_Some_conv)
  then show ?thesis by (auto simp: kill_event_def dbg_pid_def)
qed

end

end
