(* ===== verification/DebugSession.thy ===== *)
theory DebugSession
  imports DebugEventsProps
begin

text \<open>
  What the debugger core promises its client, for any system that meets the contracts of
  \<open>DebugProps\<close> and \<open>DebugEventsProps\<close>, and an instance of them in which process memory is a function.
\<close>

section \<open>A system without a kernel\<close>

definition flat_dbg :: "memories dbg_ops" where
  "flat_dbg = \<lparr>d_ptrace = \<lambda>_ _ buf _ t. Some ((0, buf, None), t), d_kill = \<lambda>_ _ t. t, d_wait4 = \<lambda>_ _ t. Some ((9, 0x057F), t),
     d_sleep = \<lambda>_ t. t, d_time = \<lambda>t. Some (0, t), d_app_id = \<lambda>_ t. Some ((0, 1), t), d_app_continue = \<lambda>_ t. Some (0, t),
     d_socket = \<lambda>_ t. Some (-1, t), d_connect = \<lambda>_ t. Some (False, t), d_close = \<lambda>_ t. t,
     d_elev = \<lambda>t. Some (Some \<lparr>saved_authid = 3, saved_caps = replicate 16 0\<rparr>, t), d_unelev = \<lambda>_ t. Some t,
     d_bump = \<lambda>t. Some (Some 3, t), d_unbump = \<lambda>_ t. Some t,
     d_read = \<lambda>p a buf t. Some (peek (t p) a (length buf), t), d_write = \<lambda>p a buf t. Some (t(p := poke (t p) a buf)),
     d_alive = \<lambda>_ t. Some (True, t), d_listed = \<lambda>_ t. Some (True, t), d_stopped = \<lambda>_ t. Some (True, t), d_kernel_path = \<lambda>t. Some (False, t),
     d_get_regs = \<lambda>_ _ b t. Some ((0, b), t), d_set_regs = \<lambda>_ _ b t. Some (0, t),
     d_get_dbregs = \<lambda>_ _ b t. Some ((0, b), t), d_set_dbregs = \<lambda>_ _ b t. Some (0, t),
     d_get_fpregs = \<lambda>_ _ b t. Some ((0, b), t), d_set_fpregs = \<lambda>_ _ b t. Some (0, t),
     d_install = \<lambda>_ _ b t. Some ((0, b), t), d_full_state = \<lambda>_ _ b t. Some ((0, b), t),
     d_get_fsgs = \<lambda>_ _ b t. Some ((0, b), t), d_set_fsgs = \<lambda>_ _ b t. Some (0, t),
     d_thread_addr = \<lambda>_ _ t. Some (0, t), d_get_proc = \<lambda>_ t. Some (0, t),
     d_out = \<lambda>_ b t. (0, b, t), d_in = \<lambda>_ _ t. (0, t), d_flush = \<lambda>t. t, d_stack = \<lambda>_. 0\<rparr>"

interpretation flat_dbg: debug_monitor flat_dbg "(=)" "\<lambda>_ _ _. True" 9
  by unfold_locales (auto simp: flat_dbg_def intro: reports.now)

text \<open>A session of process 9 with one breakpoint, at 0x10, over the byte 0x55.\<close>

definition sample_prog :: memories where
  "sample_prog p a = (if a = 0x10 then 0x55 else 0)"

definition sample_ctx :: "byte list" where
  "sample_ctx = splice (splice (splice (splice (replicate 0x358 0) 0 (le_bytes 4 (9 :: u32))) 8 (le_bytes 4 (1 :: u32)))
     0x10 (le_bytes 8 (0x10 :: u64))) 0x18 [0x55]"

definition sample_bps :: "nat \<Rightarrow> u64 option" where
  "sample_bps = [0 \<mapsto> 0x10]"

definition session_on :: "byte list \<Rightarrow> 's \<Rightarrow> 's dbg" where
  "session_on x l = server.extend
     ((example_server (cleared_client\<lparr>active := 1, debugging := 1, dbgctx := x\<rparr>))\<lparr>curdbgcli := Some 0, g_debug_attached := 1\<rparr>)
     (dbg.fields l example_conn 0 0 0 0 (replicate 0x1000 0) 0 0 (replicate 16 \<lparr>rs_pid = 0, rs_lwpid = 0, rs_kaddr = 0\<rparr>)
        0 0 0 0 0 0 0 [] 0)"

abbreviation sample_session :: "memories dbg" where
  "sample_session \<equiv> session_on sample_ctx (planted 9 sample_bps sample_prog)"

definition fresh_ctx :: "byte list" where
  "fresh_ctx = splice (replicate 0x358 0) 0 (le_bytes 4 (9 :: u32))"

lemma fresh_ctx: "length fresh_ctx = 0x358" "ctx_pid fresh_ctx = 9" "b < MAX_BREAKPOINTS \<Longrightarrow> slot_rel fresh_ctx m b None"
proof -
  show "length fresh_ctx = 0x358" "ctx_pid fresh_ctx = 9" by (simp_all add: fresh_ctx_def length_splice ctx_pid_def field32_splice_same)
  show "b < MAX_BREAKPOINTS \<Longrightarrow> slot_rel fresh_ctx m b None"
    by (simp add: fresh_ctx_def bp_enabled_def bp_address_def MAX_BREAKPOINTS_def splice_fields)
       (simp add: field32_def field64_def le_simps of_list_def shift_def)
qed

lemma debugs_session_on:
  assumes "length x = 0x358" "ctx_pid x = pid" "pid \<noteq> 0" "\<And>b. b < MAX_BREAKPOINTS \<Longrightarrow> slot_rel x (t pid) b (bps b)"
    "\<forall>b<MAX_BREAKPOINTS. \<forall>b'<MAX_BREAKPOINTS. bps b = bps b' \<longrightarrow> bps b \<noteq> None \<longrightarrow> b = b'" "tv l (planted pid bps t)"
  shows "debugs tv 0 pid bps t (session_on x l)"
  using assms by (simp add: debugs_def session_on_def server.extend_def dbg.fields_def ctx_at_def example_server_def)

lemma sample_debugs: "debugs (=) 0 9 sample_bps sample_prog sample_session"
proof (rule debugs_session_on)
  note e = slot_rel_enable [OF fresh_ctx(1), of 0 "0x10" sample_ctx "0x55", unfolded sample_ctx_def fresh_ctx_def mult_zero_left add_0]
  show "length sample_ctx = 0x358" "ctx_pid sample_ctx = 9"
    using e fresh_ctx(2) by (simp_all add: sample_ctx_def fresh_ctx_def MAX_BREAKPOINTS_def)
  show "slot_rel sample_ctx (sample_prog 9) b (sample_bps b)" if "b < MAX_BREAKPOINTS" for b
    using e fresh_ctx(3) that by (simp add: sample_ctx_def fresh_ctx_def MAX_BREAKPOINTS_def sample_bps_def sample_prog_def)
qed (auto simp: sample_bps_def split: if_splits)

section \<open>Properties\<close>


definition sample_request :: "byte list \<Rightarrow> cmd_packet" where
  "sample_request bs = \<lparr>magic = 0, cmd = 0, datalen = 0, data = Some (of_list bs)\<rparr>"


text \<open>
  C22: ending a session. When the client detaches, the breakpoints of the first slots in use are
  taken out of the program, the session ends and the client is answered. The restoring stops at the
  first unused slot: breakpoints in slots after it stay in the program.
\<close>

theorem debug_detach_handle_correct:
  assumes "debug_target D tv able pid" "debugs tv i pid bps t s"
    and "g \<le> MAX_BREAKPOINTS" "\<forall>b<g. \<exists>a. bps b = Some a \<and> able pid a 1" "g < MAX_BREAKPOINTS \<Longrightarrow> bps g = None"
    and "\<And>l. tv l (planted pid bps t) \<Longrightarrow> map_option fst (d_alive D pid l) = Some True"
  shows "\<exists>s'. debug_detach_handle D packet (s, c) = Some (0, s', send_int32 CMD_SUCCESS c) \<and>
    g_debug_attached s' = 0 \<and> curdbgcli s' = None \<and> debugging (g_clients s' ! i) = 0 \<and>
    tv (low s') (planted pid (\<lambda>b. if b < g then None else bps b) t)"
  by (rule debug_target.debug_detach_restores [OF assms])

theorem debug_detach_handle_correct_witness:
  "\<exists>s'. debug_detach_handle flat_dbg (sample_request []) (sample_session, example_conn) = Some (0, s', send_int32 CMD_SUCCESS example_conn)
     \<and> g_debug_attached s' = 0 \<and> low s' 9 0x10 = 0x55"
proof -
  have g: "(1 :: nat) \<le> MAX_BREAKPOINTS" "\<forall>b<1. \<exists>a. sample_bps b = Some a \<and> True" "sample_bps 1 = None"
    "map_option fst (d_alive flat_dbg 9 l) = Some True" for l
    by (auto simp: MAX_BREAKPOINTS_def sample_bps_def flat_dbg_def)
  obtain s' where s': "debug_detach_handle flat_dbg (sample_request []) (sample_session, example_conn) = Some (0, s', send_int32 CMD_SUCCESS example_conn)"
      "g_debug_attached s' = 0" "low s' = planted 9 (\<lambda>b. if b < 1 then None else sample_bps b) sample_prog"
    using debug_detach_handle_correct [OF flat_dbg.debug_target_axioms sample_debugs g] by auto
  have "low s' 9 0x10 = 0x55" unfolding s'(3) by (auto simp: planted_def sample_bps_def sample_prog_def)
  with s'(1,2) show ?thesis by blast
qed





text \<open>
  C28: the event of a killed process does not return. The monitor ends the session, which clears the
  pointer to the context, and then reads the process identifier through that pointer.
\<close>

theorem kill_event_null_context:
  assumes "debug_monitor D tv able pid" "debugs tv i pid bps t s" "\<forall>b<MAX_BREAKPOINTS. \<forall>a. bps b = Some a \<longrightarrow> able pid a 1"
    and "\<And>l. tv l (planted pid bps t) \<Longrightarrow> map_option fst (d_alive D pid l) = Some True"
  shows "\<exists>s'. debug_full_teardown D (curdbgcli s) s = Some s' \<and> curdbgcli s' = None \<and> kill_event D s = None"
  by (rule debug_monitor.kill_event_stuck [OF assms])

theorem kill_event_null_context_witness:
  "kill_event flat_dbg sample_session = None"
proof -
  have a: "map_option fst (d_alive flat_dbg 9 l) = Some True" for l by (simp add: flat_dbg_def)
  from kill_event_null_context [OF flat_dbg.debug_monitor_axioms sample_debugs _ a] show ?thesis by auto
qed

end
