(* ===== verification/DebugSystem.thy ===== *)
theory DebugSystem
  imports Elev DebugSession
begin

text \<open>
  The debugger core on top of the components it uses: process memory through system call 573 and the
  page tables (\<open>ProcMem\<close>), the registers of threads in kernel memory (\<open>KernDbreg\<close>) and elevation
  (\<open>Elev\<close>). System calls are parameters on the kernel. The theorem of this theory is that these
  components meet the contract \<open>debug_monitor\<close> the core relies on, on a kernel whose process and
  thread structures come from fixed pools, as those of FreeBSD do.
\<close>

section \<open>Operations\<close>

text \<open>The static variables of \<^verbatim>\<open>kern_dbreg.c\<close>, beside the state of the memory access.\<close>

record thr_vars =
  th_cache :: "thr_slot list"
  th_next :: nat
  th_fw :: u32

type_synonym 'k sys_state = "'k pmem \<times> thr_vars"

record 'k syscalls =
  sc_ptrace :: "ptrace_op \<Rightarrow> u32 \<Rightarrow> byte list \<Rightarrow> int \<Rightarrow> 'k \<Rightarrow> (int \<times> byte list \<times> int option) \<times> 'k"
  sc_kill :: "u32 \<Rightarrow> int \<Rightarrow> 'k \<Rightarrow> 'k"
  sc_wait4 :: "u32 \<Rightarrow> int \<Rightarrow> 'k \<Rightarrow> ((int \<times> u32) \<times> 'k) option"
  sc_sleep :: "nat \<Rightarrow> 'k \<Rightarrow> 'k"
  sc_time :: "'k \<Rightarrow> u64 \<times> 'k"
  sc_app_id :: "u32 \<Rightarrow> 'k \<Rightarrow> (int \<times> u32) \<times> 'k"
  sc_app_continue :: "u32 \<Rightarrow> 'k \<Rightarrow> int \<times> 'k"
  sc_socket :: "u32 \<Rightarrow> 'k \<Rightarrow> int \<times> 'k"
  sc_connect :: "int \<Rightarrow> 'k \<Rightarrow> bool \<times> 'k"
  sc_close :: "int \<Rightarrow> 'k \<Rightarrow> 'k"
  sc_heap :: "ptr option"
  sc_stack :: ptr

definition on_kern :: "('k \<Rightarrow> 'a \<times> 'k) \<Rightarrow> 'k sys_state \<Rightarrow> 'a \<times> 'k sys_state" where
  "on_kern f s = (let (r, k) = f (kern (fst s)) in (r, (fst s)\<lparr>kern := k\<rparr>, snd s))"

definition call :: "('k \<Rightarrow> 'a \<times> 'k) \<Rightarrow> ('a, 'k sys_state) act" where
  "call f s = Some (on_kern f s)"

definition run :: "('k \<Rightarrow> 'k) \<Rightarrow> 'k sys_state \<Rightarrow> 'k sys_state" where
  "run f s = ((fst s)\<lparr>kern := f (kern (fst s))\<rparr>, snd s)"

definition on_pmem :: "('k pmem \<Rightarrow> ('a \<times> 'k pmem) option) \<Rightarrow> ('a, 'k sys_state) act" where
  "on_pmem f s = map_option (\<lambda>(r, p). (r, p, snd s)) (f (fst s))"

definition on_pmem2 :: "('k pmem \<Rightarrow> 'k pmem option) \<Rightarrow> 'k sys_state \<Rightarrow> 'k sys_state option" where
  "on_pmem2 f s = map_option (\<lambda>p. (p, snd s)) (f (fst s))"

text \<open>The variables of \<^verbatim>\<open>kern_rw_fast.c\<close> together with those of \<^verbatim>\<open>kern_dbreg.c\<close>.\<close>

definition thr_of :: "'k sys_state \<Rightarrow> 'k kthr" where
  "thr_of s = (case s of (p, th) \<Rightarrow> \<lparr>kern = kern p, kr_proc_cache = kr_proc_cache p, kr_proc_cache_next = kr_proc_cache_next p,
     kr_thr_cache = th_cache th, kr_thr_cache_next = th_next th, g_fw_cache = th_fw th\<rparr>)"

definition put_thr :: "'k sys_state \<Rightarrow> 'k kthr \<Rightarrow> 'k sys_state" where
  "put_thr s t = ((fst s)\<lparr>kern := kern t, kr_proc_cache := kr_proc_cache t, kr_proc_cache_next := kr_proc_cache_next t\<rparr>,
     \<lparr>th_cache = kr_thr_cache t, th_next = kr_thr_cache_next t, th_fw = g_fw_cache t\<rparr>)"

definition on_thr :: "('k kthr \<Rightarrow> ('a \<times> 'k kthr) option) \<Rightarrow> ('a, 'k sys_state) act" where
  "on_thr f s = map_option (\<lambda>(r, t). (r, put_thr s t)) (f (thr_of s))"

definition get_op ::
    "('k copyout \<Rightarrow> u64 \<Rightarrow> ptr \<Rightarrow> u32 \<Rightarrow> u32 \<Rightarrow> byte list option \<Rightarrow> 'k kthr \<Rightarrow> (int \<times> byte list option \<times> 'k kthr) option)
      \<Rightarrow> 'k sysenv \<Rightarrow> ptr \<Rightarrow> u32 \<Rightarrow> u32 \<Rightarrow> byte list \<Rightarrow> (int \<times> byte list, 'k sys_state) act" where
  "get_op f e stk pid lw buf =
     on_thr (\<lambda>t. map_option (\<lambda>(rc, b, t). ((rc, the b), t)) (f (sy_out e) (pe_allproc (sy_ptw e)) stk pid lw (Some buf) t))"

definition set_op ::
    "('k copyout \<Rightarrow> 'k copyin \<Rightarrow> u64 \<Rightarrow> ptr \<Rightarrow> u32 \<Rightarrow> u32 \<Rightarrow> byte list option \<Rightarrow> 'k kthr \<Rightarrow> (int \<times> unit \<times> 'k kthr) option)
      \<Rightarrow> 'k sysenv \<Rightarrow> ptr \<Rightarrow> u32 \<Rightarrow> u32 \<Rightarrow> byte list \<Rightarrow> (int, 'k sys_state) act" where
  "set_op f e stk pid lw buf =
     on_thr (\<lambda>t. map_option (\<lambda>(rc, _, t). (rc, t)) (f (sy_out e) (sy_in e) (pe_allproc (sy_ptw e)) stk pid lw (Some buf) t))"

definition debug_ops :: "'k sysenv \<Rightarrow> 'k syscalls \<Rightarrow> 'k sys_state dbg_ops" where
  "debug_ops e S =
     (let out = sy_out e; inn = sy_in e; env = sy_ptw e; allproc = pe_allproc (sy_ptw e); stk = sc_stack S in
      \<lparr>d_ptrace = \<lambda>pop p buf dat. call (sc_ptrace S pop p buf dat),
       d_kill = \<lambda>p sig. run (sc_kill S p sig),
       d_wait4 = \<lambda>p opt s. map_option (\<lambda>(r, k). (r, (fst s)\<lparr>kern := k\<rparr>, snd s)) (sc_wait4 S p opt (kern (fst s))),
       d_sleep = \<lambda>n. run (sc_sleep S n),
       d_time = call (sc_time S),
       d_app_id = \<lambda>p. call (sc_app_id S p),
       d_app_continue = \<lambda>app. call (sc_app_continue S app),
       d_socket = \<lambda>a. call (sc_socket S a),
       d_connect = \<lambda>fd. call (sc_connect S fd),
       d_close = \<lambda>fd. run (sc_close S fd),
       d_elev = on_pmem (elev_save_and_set out inn env stk),
       d_unelev = \<lambda>es. on_pmem2 (elev_restore out inn env es),
       d_bump = on_pmem (authid_bump_safe out inn env),
       d_unbump = \<lambda>v. on_pmem2 (authid_restore_safe out inn env v),
       d_read = \<lambda>pid a buf. on_pmem (\<lambda>p. map_option (\<lambda>(_, buf, _, p). (buf, p)) (sys_proc_rw_w0 e (scast pid) a buf None p)),
       d_write = \<lambda>pid a buf. on_pmem2 (proc_write_mem e pid a buf),
       d_alive = \<lambda>pid. on_pmem (\<lambda>p. map_option (\<lambda>(es, p). (es \<noteq> None, p)) (sys_proc_vm_map e (sc_heap S) pid p)),
       d_listed = \<lambda>pid. on_pmem (kern_thread_step_walker out allproc pid),
       d_stopped = \<lambda>pid s. map_option (\<lambda>(r, k). (is_process_stopped (\<lambda>_. r) pid, (fst s)\<lparr>kern := k\<rparr>, snd s)) (sc_wait4 S pid 7 (kern (fst s))),
       d_kernel_path = on_thr (\<lambda>t. Some (fw_uses_kernel_dbreg_path (sy_fw e) t)),
       d_get_regs = get_op kern_get_proc_info_by_pid e stk,
       d_set_regs = set_op kern_apply_thread_dbgctx e stk,
       d_get_dbregs = get_op kern_get_dbregs e stk,
       d_set_dbregs = set_op kern_set_dbregs e stk,
       d_get_fpregs = get_op kern_get_fpregs e stk,
       d_set_fpregs = set_op kern_set_fpregs e stk,
       d_install = get_op kern_proc_install_dbregs e stk,
       d_full_state = \<lambda>pid lw (regs, db, fpu). on_thr (\<lambda>t. map_option (\<lambda>(rc, (regs, db, fpu), t). ((rc, the regs, the db, the fpu), t))
         (kern_get_lwp_full_state out allproc stk pid lw (Some regs) (Some db) (Some fpu) t)),
       d_get_fsgs = get_op kern_get_fsgsbase e stk,
       d_set_fsgs = set_op kern_set_fsgsbase e stk,
       d_thread_addr = \<lambda>pid lw. on_thr (kern_thread_addr out allproc stk pid lw),
       d_get_proc = \<lambda>pid. on_pmem (kernel_get_proc_fast out allproc pid),
       d_out = \<lambda>a buf s. (let (rc, bs, p) = kout out a buf (fst s) in (rc, bs, p, snd s)),
       d_in = \<lambda>bs a s. (let (rc, p) = kin inn bs a (fst s) in (rc, p, snd s)),
       d_flush = \<lambda>s. put_thr s (kern_thread_cache_flush (kern_proc_cache_flush (thr_of s))),
       d_stack = stk\<rparr>)"

lemma regs_of_frame_length:
  assumes "length f = 0x110" "length dst = 0xb0"
  shows "length (regs_of_frame f dst) = 0xb0"
proof -
  have l: "length (move_fields reg_fields dst f) = 0xb0"
    using move_fields_length [of reg_fields dst f] reg_tables(3) assms by simp
  show ?thesis unfolding regs_of_frame_def using l assms(1) by (subst length_splice) simp_all
qed

section \<open>The contract of the kernel\<close>

primrec tlist :: "(u64 \<Rightarrow> byte) \<Rightarrow> u64 \<Rightarrow> u64 list \<Rightarrow> bool" where
  \<comment> \<open>the threads of a process from an address on, linked at offset 0x10\<close>
  "tlist m a [] \<longleftrightarrow> a = 0"
| "tlist m a (k # ks) \<longleftrightarrow> a = k \<and> k \<noteq> 0 \<and> tlist m (mem64 m (k + 0x10)) ks"

inductive polls :: "'k syscalls \<Rightarrow> u32 \<Rightarrow> 'k \<Rightarrow> bool" for S pid where
  \<comment> \<open>polling the process yields an answer in the end\<close>
  polls_now: "sc_wait4 S pid 1 k = Some ((r, st), k') \<Longrightarrow> r \<noteq> 0 \<Longrightarrow> polls S pid k"
| polls_later: "sc_wait4 S pid 1 k = Some ((r, st), k') \<Longrightarrow> r = 0 \<Longrightarrow> polls S pid (sc_sleep S 50 k') \<Longrightarrow> polls S pid k"

text \<open>
  Processes and threads live in pools, \<open>procs\<close> and \<open>threads\<close>: their structures are never used for
  anything else. The saved registers of a thread belong to nothing the debugger or the memory of a
  process depends on. System calls may change the kernel but not the program of the process, and
  the firmware is one on which debug registers go through \<^verbatim>\<open>ptrace\<close>.
\<close>

locale debug_system = direct_kernel e view safe world self_proc ucred tm able procs
    + elevating_kernel e view safe world self_proc ucred tm able procs
  for e :: "'k sysenv" and view safe world self_proc ucred tm able procs +
  fixes S :: "'k syscalls" and threads :: "u64 set" and pid :: u32
  assumes proc_threads: "world m \<Longrightarrow> pa \<in> procs \<Longrightarrow>
        safe (pa + 0x10) 0x30 \<and> (\<exists>ks. tlist m (mem64 m (pa + 0x10)) ks \<and> set ks \<subseteq> threads)"
    and thread_safe: "ka \<in> threads \<Longrightarrow> safe ka 0x680 \<and> safe (ka + 0x460) 8"
    and thread_frame: "world m \<Longrightarrow> ka \<in> threads \<Longrightarrow> safe (mem64 m (ka + 0x460)) 0x110"
    and frame_write: "world m \<Longrightarrow> ka \<in> threads \<Longrightarrow> length bs = 0x110 \<Longrightarrow>
        world (poke m (mem64 m (ka + 0x460)) bs) \<and> tm (poke m (mem64 m (ka + 0x460)) bs) = tm m"
    and ptrace_call: "view k m \<Longrightarrow> world m \<Longrightarrow> \<exists>m'. view (snd (sc_ptrace S pop p buf dat k)) m' \<and> world m' \<and> tm m' = tm m"
    and kill_call: "view k m \<Longrightarrow> world m \<Longrightarrow> \<exists>m'. view (sc_kill S p sig k) m' \<and> world m' \<and> tm m' = tm m"
    and sleep_call: "view k m \<Longrightarrow> world m \<Longrightarrow> \<exists>m'. view (sc_sleep S n k) m' \<and> world m' \<and> tm m' = tm m"
    and close_call: "view k m \<Longrightarrow> world m \<Longrightarrow> \<exists>m'. view (sc_close S fd k) m' \<and> world m' \<and> tm m' = tm m"
    and time_call: "view k m \<Longrightarrow> world m \<Longrightarrow> \<exists>m'. view (snd (sc_time S k)) m' \<and> world m' \<and> tm m' = tm m"
    and app_id_call: "view k m \<Longrightarrow> world m \<Longrightarrow> \<exists>m'. view (snd (sc_app_id S p k)) m' \<and> world m' \<and> tm m' = tm m"
    and app_continue_call: "view k m \<Longrightarrow> world m \<Longrightarrow> \<exists>m'. view (snd (sc_app_continue S app k)) m' \<and> world m' \<and> tm m' = tm m"
    and wait_call: "view k m \<Longrightarrow> world m \<Longrightarrow> \<exists>r k' m'. sc_wait4 S p opt k = Some (r, k') \<and> view k' m' \<and> world m' \<and> tm m' = tm m"
    and wait_answers: "view k m \<Longrightarrow> world m \<Longrightarrow> polls S pid k"
    and ptrace_fw: "g_fw_cache t = 0 \<or> g_fw_cache t = sy_fw e \<Longrightarrow> \<not> fst (fw_uses_kernel_dbreg_path (sy_fw e) (t :: 'k kthr))"
begin

definition sys_view :: "'k sys_state \<Rightarrow> memories \<Rightarrow> bool" where
  "sys_view s t \<longleftrightarrow> target_view (fst s) t \<and> (\<forall>x\<in>set (th_cache (snd s)). ts_kthread x \<noteq> 0 \<longrightarrow> ts_kthread x \<in> threads)
     \<and> (th_fw (snd s) = 0 \<or> th_fw (snd s) = sy_fw e)"

lemma view_step:
  assumes "target_view p t0" "ready p' m" "tm m = t" "kstate.more p' = kstate.more p"
  shows "target_view p' t"
  using assms(1-3) unfolding target_view_def pmem_more [OF assms(4)] by blast

lemma view_vmmap:
  assumes "target_view p t0" "ready p' m" "tm m = t" "kstate.more p' = kstate.more (vmmap_init_offsets fw p)"
  shows "target_view p' t"
  using assms(1-3) unfolding target_view_def pmem_more [OF assms(4)] by (auto simp: vmmap_init_offsets_def)

lemma view_kern:
  assumes "sys_view s t" "\<And>m. view (kern (fst s)) m \<Longrightarrow> world m \<Longrightarrow> \<exists>m'. view k m' \<and> world m' \<and> tm m' = tm m"
  shows "sys_view ((fst s)\<lparr>kern := k\<rparr>, snd s) t"
proof -
  obtain m where m: "ready (fst s) m" "tm m = t" using assms(1) by (auto simp: sys_view_def target_view_def)
  then obtain m' where "view k m'" "world m'" "tm m' = t" using assms(2) by (auto simp: ready_def)
  with view_step [of "fst s" t "(fst s)\<lparr>kern := k\<rparr>" m' t] ready_kern [OF m(1)] assms(1) show ?thesis
    by (simp add: sys_view_def)
qed

lemma call_ok:
  assumes "sys_view s t" "\<And>m. view (kern (fst s)) m \<Longrightarrow> world m \<Longrightarrow> \<exists>m'. view (snd (f (kern (fst s)))) m' \<and> world m' \<and> tm m' = tm m"
  shows "\<exists>r s'. call f s = Some (r, s') \<and> sys_view s' t"
  using view_kern [OF assms] by (simp add: call_def on_kern_def split_beta)

lemma run_ok:
  assumes "sys_view s t" "\<And>m. view (kern (fst s)) m \<Longrightarrow> world m \<Longrightarrow> \<exists>m'. view (f (kern (fst s))) m' \<and> world m' \<and> tm m' = tm m"
  shows "sys_view (run f s) t"
  using view_kern [OF assms] by (simp add: run_def)

lemma pmem_ok:
  assumes "sys_view s t"
    and "\<And>m. ready (fst s) m \<Longrightarrow> tm m = t \<Longrightarrow>
      \<exists>r p' m'. f (fst s) = Some (r, p') \<and> ready p' m' \<and> tm m' = t \<and> kstate.more p' = kstate.more (fst s) \<and> Q r"
  shows "\<exists>r s'. on_pmem f s = Some (r, s') \<and> Q r \<and> sys_view s' t"
proof -
  obtain m where m: "ready (fst s) m" "tm m = t" "target_view (fst s) t" using assms(1) by (auto simp: sys_view_def target_view_def)
  obtain r p' m' where "f (fst s) = Some (r, p')" "ready p' m'" "tm m' = t" "kstate.more p' = kstate.more (fst s)" "Q r"
    using assms(2) [OF m(1,2)] by blast
  with view_step [OF m(3)] assms(1) show ?thesis by (auto simp: on_pmem_def sys_view_def)
qed

lemma pmem2_ok:
  assumes "sys_view s t"
    and "\<And>m. ready (fst s) m \<Longrightarrow> tm m = t \<Longrightarrow>
      \<exists>p' m'. f (fst s) = Some p' \<and> ready p' m' \<and> tm m' = t \<and> kstate.more p' = kstate.more (fst s)"
  shows "\<exists>s'. on_pmem2 f s = Some s' \<and> sys_view s' t"
proof -
  obtain m where m: "ready (fst s) m" "tm m = t" "target_view (fst s) t" using assms(1) by (auto simp: sys_view_def target_view_def)
  obtain p' m' where "f (fst s) = Some p'" "ready p' m'" "tm m' = t" "kstate.more p' = kstate.more (fst s)"
    using assms(2) [OF m(1,2)] by blast
  with view_step [OF m(3)] assms(1) show ?thesis by (auto simp: on_pmem2_def sys_view_def)
qed

lemma wait_reports: "sys_view s t \<Longrightarrow> reports (debug_ops e S) pid s"
proof -
  assume s: "sys_view s t"
  then obtain m where m: "view (kern (fst s)) m" "world m" by (auto simp: sys_view_def target_view_def ready_def)
  have "polls S pid k \<Longrightarrow> kern (fst s) = k \<Longrightarrow> reports (debug_ops e S) pid s" for k s
  proof (induction k arbitrary: s rule: polls.induct)
    case (polls_now k r st k')
    then show ?case by (intro reports.now [of _ _ s r st "((fst s)\<lparr>kern := k'\<rparr>, snd s)"]) (simp_all add: debug_ops_def Let_def)
  next
    case (polls_later k r st k')
    then show ?case
      by (intro reports.later [of _ _ s r st "((fst s)\<lparr>kern := k'\<rparr>, snd s)"]) (simp_all add: debug_ops_def Let_def run_def)
  qed
  then show ?thesis using wait_answers [OF m] by blast
qed

definition known :: "'k kthr \<Rightarrow> bool" where
  "known t \<longleftrightarrow> (\<forall>x\<in>set (kr_thr_cache t). ts_kthread x \<noteq> 0 \<longrightarrow> ts_kthread x \<in> threads)"

lemma known_frame: "known t \<Longrightarrow> kframe t t' \<Longrightarrow> known t' \<and> g_fw_cache t' = g_fw_cache t"
  by (auto simp: known_def kframe_def)

lemma thr_loop_ok:
  "tlist m cur ks \<Longrightarrow> set ks \<subseteq> threads \<Longrightarrow> view (kern s) m \<Longrightarrow> length tbuf = 0x680 \<Longrightarrow>
   \<exists>k s'. thr_loop (sy_out e) lw cur tbuf s = Some (k, s') \<and> (k = 0 \<or> k \<in> threads) \<and> view (kern s') m \<and> kframe s s'"
proof (induction ks arbitrary: cur s tbuf)
  case Nil
  then show ?case by (subst thr_loop.simps) auto
next
  case (Cons k ks)
  then have c: "cur = k" "k \<noteq> 0" "tlist m (mem64 m (k + 0x10)) ks" "set ks \<subseteq> threads" "k \<in> threads" by auto
  obtain s1 where 1: "kout (sy_out e) k tbuf s = (0, peek m k 0x680, s1)" "view (kern s1) m" "kframe s s1"
    using kout_read [OF Cons.prems(3), of k tbuf] thread_safe [OF c(5)] Cons.prems(4) by auto
  have n: "field64 (peek m k 0x680) 0x10 = mem64 m (k + 0x10)" by (subst field64_peek) simp_all
  obtain q s' where "thr_loop (sy_out e) lw (mem64 m (k + 0x10)) (peek m k 0x680) s1 = Some (q, s')" "q = 0 \<or> q \<in> threads"
      "view (kern s') m" "kframe s1 s'" using Cons.IH [OF c(3,4) 1(2), of "peek m k 0x680"] by auto
  with 1 c n kframe_trans [OF 1(3)] show ?case by (subst thr_loop.simps) auto
qed

lemma thr_lookup_ok:
  assumes "ready t m" "known t" "thr_lookup (sy_out e) p lw t = (r, t')"
  shows "ready t' m" "known t'" "g_fw_cache t' = g_fw_cache t" "r = Some k \<Longrightarrow> k \<in> threads"
proof -
  have "ready t' m \<and> known t' \<and> g_fw_cache t' = g_fw_cache t \<and> (\<forall>k. r = Some k \<longrightarrow> k \<in> threads)"
  proof (cases "List.find (\<lambda>i. thr_match p lw (kr_thr_cache t ! i)) [0..<length (kr_thr_cache t)]")
    case None
    with assms show ?thesis by (simp add: thr_lookup_def)
  next
    case (Some i)
    then have i: "i < length (kr_thr_cache t)" "thr_match p lw (kr_thr_cache t ! i)" by (auto simp: find_Some_iff)
    let ?k = "ts_kthread (kr_thr_cache t ! i)"
    have k: "?k \<in> threads" using assms(2) i by (auto simp: known_def thr_match_def)
    have v: "view (kern t) m" "world m" using assms(1) by (auto simp: ready_def)
    obtain rc v1 t1 where 1: "kout32 (sy_out e) (?k + 0x9c) 0 t = (rc, v1, t1)" by (metis prod_cases3)
    have f: "view (kern t1) m" "kframe t t1" using kout32_ok [OF v(1) 1] by auto
    note r1 = ready_frame [OF assms(1) f(2,1) v(2)] and k1 = known_frame [OF assms(2) f(2)]
    have "(r, t') = (if rc = 0 \<and> v1 = lw then (Some ?k, t1) else (None, t1\<lparr>kr_thr_cache := (kr_thr_cache t1)[i := empty_thr]\<rparr>))"
      using assms(3) Some 1 by (simp add: thr_lookup_def)
    then show ?thesis using r1 k1 k
      by (auto simp: ready_def cache_ok_def own_entries_def known_def empty_thr_def split: if_splits
          dest!: set_update_subset_insert [THEN subsetD])
  qed
  then show "ready t' m" "known t'" "g_fw_cache t' = g_fw_cache t" "r = Some k \<Longrightarrow> k \<in> threads" by blast+
qed

lemma thread_addr:
  assumes "ready t m" "known t"
  obtains k t' where "kern_thread_addr (sy_out e) (pe_allproc (sy_ptw e)) stk p lw t = Some (k, t')" "ready t' m" "known t'"
    "g_fw_cache t' = g_fw_cache t" "k = 0 \<or> k \<in> threads"
proof -
  obtain r t1 where 1: "thr_lookup (sy_out e) p lw t = (r, t1)" by fastforce
  note l = thr_lookup_ok [OF assms 1]
  show thesis
  proof (cases r)
    case (Some k)
    then show thesis using that [of k t1] 1 l by (auto simp: kern_thread_addr_def)
  next
    case None
    obtain q t2 where 2: "kernel_get_proc_fast (sy_out e) (pe_allproc (sy_ptw e)) p t1 = Some (q, t2)" "ready t2 m"
        "kstate.more t2 = kstate.more t1" "q = 0 \<or> q \<in> procs" by (rule lookup [OF l(1)])
    have c2: "known t2" "g_fw_cache t2 = g_fw_cache t"
      using l(2,3) thr_more [OF 2(3)] 2(3) by (auto simp: known_def) (cases t1; cases t2; simp)
    have v: "view (kern t2) m" "world m" using 2(2) by (auto simp: ready_def)
    show thesis
    proof (cases "q = 0")
      case True
      then show thesis using that [of 0 t2] 1 2 None c2 by (auto simp: kern_thread_addr_def)
    next
      case False
      then have "q \<in> procs" using 2(4) by simp
      from proc_threads [OF v(2) this] obtain ks where ks: "safe (q + 0x10) 0x30" "tlist m (mem64 m (q + 0x10)) ks" "set ks \<subseteq> threads" by blast
      obtain t3 where 3: "kout (sy_out e) (q + 0x10) (bytes_at stk 0 0x30) t2 = (0, peek m (q + 0x10) 0x30, t3)" "view (kern t3) m" "kframe t2 t3"
        using kout_read [OF v(1), of "q + 0x10" "bytes_at stk 0 0x30"] ks(1) by auto
      have h: "field64 (peek m (q + 0x10) 0x30) 0 = mem64 m (q + 0x10)" by (subst field64_peek) simp_all
      obtain k t4 where 4: "thr_loop (sy_out e) lw (mem64 m (q + 0x10)) (bytes_at stk 0 0x680) t3 = Some (k, t4)" "k = 0 \<or> k \<in> threads"
          "view (kern t4) m" "kframe t3 t4" using thr_loop_ok [OF ks(2,3) 3(2), of "bytes_at stk 0 0x680" lw] by auto
      note f = kframe_trans [OF 3(3) 4(4)]
      note r4 = ready_frame [OF 2(2) f 4(3) v(2)] and k4 = known_frame [OF c2(1) f]
      let ?t = "if k \<noteq> 0 then thr_store p lw k t4 else t4"
      have "ready ?t m" using r4 by (simp add: thr_store_def ready_def cache_ok_def own_entries_def)
      moreover have "known ?t" "g_fw_cache ?t = g_fw_cache t"
        using k4 4(2) c2(2) by (auto simp: thr_store_def known_def dest!: set_update_subset_insert [THEN subsetD])
      moreover have "kern_thread_addr (sy_out e) (pe_allproc (sy_ptw e)) stk p lw t = Some (k, ?t)"
        using 1 2(1) 3(1) 4(1) None False h by (simp add: kern_thread_addr_def)
      ultimately show thesis using that 4(2) by blast
    qed
  qed
qed

lemma thr_ok:
  assumes s: "sys_view s t"
    and f: "\<And>m. ready (thr_of s) m \<Longrightarrow> tm m = t \<Longrightarrow> known (thr_of s) \<Longrightarrow>
      \<exists>r t' m'. f (thr_of s) = Some (r, t') \<and> ready t' m' \<and> tm m' = t \<and> known t' \<and>
        (g_fw_cache t' = g_fw_cache (thr_of s) \<or> g_fw_cache t' = sy_fw e) \<and> Q r"
  shows "\<exists>r s'. on_thr f s = Some (r, s') \<and> Q r \<and> sys_view s' t"
proof -
  obtain m where m: "ready (fst s) m" "tm m = t" "target_view (fst s) t" using s by (auto simp: sys_view_def target_view_def)
  have "ready (thr_of s) m" "known (thr_of s)"
    using m(1) s by (auto simp: thr_of_def ready_def cache_ok_def own_entries_def known_def sys_view_def split: prod.splits)
  then obtain r t' m' where r: "f (thr_of s) = Some (r, t')" "ready t' m'" "tm m' = t" "known t'"
      "g_fw_cache t' = g_fw_cache (thr_of s) \<or> g_fw_cache t' = sy_fw e" "Q r" using f m(2) by blast
  have "ready (fst (put_thr s t')) m'" "kstate.more (fst (put_thr s t')) = kstate.more (fst s)"
    using r(2) by (auto simp: put_thr_def ready_def cache_ok_def own_entries_def)
  from view_step [OF m(3) this(1) r(3) this(2)]
  have "sys_view (put_thr s t') t"
    using r(4,5) s by (auto simp: sys_view_def put_thr_def known_def thr_of_def split: prod.splits)
  with r show ?thesis by (auto simp: on_thr_def)
qed

lemma frame_op:
  assumes t: "ready t m" "known t"
    and op: "\<And>k t1. k \<in> threads \<Longrightarrow> ready t1 m \<Longrightarrow> known t1 \<Longrightarrow> g_fw_cache t1 = g_fw_cache t \<Longrightarrow>
      \<exists>rc b t' m'. op k (mem64 m (k + 0x460)) (peek m (mem64 m (k + 0x460)) 0x110) t1 = (rc, b, t') \<and> ready t' m' \<and> tm m' = tm m \<and>
        known t' \<and> g_fw_cache t' = g_fw_cache t \<and> Q b"
    and buf: "Q buf"
  shows "\<exists>rc b t' m'. with_frame (sy_out e) (pe_allproc (sy_ptw e)) stk p lw op buf t = Some (rc, b, t') \<and> ready t' m' \<and> tm m' = tm m \<and>
    known t' \<and> g_fw_cache t' = g_fw_cache t \<and> Q b"
proof (cases "p = 0")
  case True
  then show ?thesis using t buf by (auto simp: with_frame_def)
next
  case False
  obtain k t1 where k: "kern_thread_addr (sy_out e) (pe_allproc (sy_ptw e)) stk p lw t = Some (k, t1)" "ready t1 m" "known t1"
      "g_fw_cache t1 = g_fw_cache t" "k = 0 \<or> k \<in> threads" by (rule thread_addr [OF t])
  show ?thesis
  proof (cases "k = 0")
    case True
    then show ?thesis using False k buf by (auto simp: with_frame_def kthread_ptr_def)
  next
    case kn: False
    then have th: "k \<in> threads" using k(5) by simp
    have v: "view (kern t1) m" "world m" using k(2) by (auto simp: ready_def)
    obtain t2 where 2: "with_frame (sy_out e) (pe_allproc (sy_ptw e)) stk p lw op buf t
          = Some (op k (mem64 m (k + 0x460)) (peek m (mem64 m (k + 0x460)) 0x110) t2)" "view (kern t2) m" "kframe t1 t2"
      by (rule with_frame_run [OF k(1) kn False v(1) refl]) (use thread_safe [OF th] thread_frame [OF v(2) th] in auto)
    from op [OF th ready_frame [OF k(2) 2(3,2) v(2)]] known_frame [OF k(3) 2(3)] k(4) 2(1) show ?thesis by auto
  qed
qed

lemma get_regs_view:
  assumes "length buf = 0xb0" "sys_view s t"
  shows "\<exists>rc b s'. get_op kern_get_proc_info_by_pid e stk p lw buf s = Some ((rc, b), s') \<and> length b = 0xb0 \<and> sys_view s' t"
proof -
  have "\<exists>r s'. get_op kern_get_proc_info_by_pid e stk p lw buf s = Some (r, s') \<and> length (snd r) = 0xb0 \<and> sys_view s' t"
    unfolding get_op_def
  proof (rule thr_ok [OF assms(2)])
    fix m assume m: "ready (thr_of s) m" "tm m = t" "known (thr_of s)"
    have "\<exists>rc b t' m'. kern_get_proc_info_by_pid (sy_out e) (pe_allproc (sy_ptw e)) stk p lw (Some buf) (thr_of s) = Some (rc, b, t')
        \<and> ready t' m' \<and> tm m' = tm m \<and> known t' \<and> g_fw_cache t' = g_fw_cache (thr_of s) \<and> length (the b) = 0xb0"
      unfolding kern_get_proc_info_by_pid_def option.case
      by (rule frame_op [OF m(1,3), where Q = "\<lambda>b. length (the b) = 0xb0"]; use assms(1) regs_of_frame_length in auto)
    with m(2) show "\<exists>r t' m'. map_option (\<lambda>(rc, b, t). ((rc, the b), t))
          (kern_get_proc_info_by_pid (sy_out e) (pe_allproc (sy_ptw e)) stk p lw (Some buf) (thr_of s)) = Some (r, t')
        \<and> ready t' m' \<and> tm m' = t \<and> known t' \<and> (g_fw_cache t' = g_fw_cache (thr_of s) \<or> g_fw_cache t' = sy_fw e) \<and> length (snd r) = 0xb0"
      by fastforce
  qed
  then show ?thesis by auto
qed

lemma set_regs_view:
  assumes "length buf = 0xb0" "sys_view s t"
  shows "\<exists>r s'. set_op kern_apply_thread_dbgctx e stk p lw buf s = Some (r, s') \<and> True \<and> sys_view s' t"
  unfolding set_op_def
proof (rule thr_ok [OF assms(2)])
  fix m assume m: "ready (thr_of s) m" "tm m = t" "known (thr_of s)"
  have "\<exists>rc b t' m'. kern_apply_thread_dbgctx (sy_out e) (sy_in e) (pe_allproc (sy_ptw e)) stk p lw (Some buf) (thr_of s) = Some (rc, b, t')
      \<and> ready t' m' \<and> tm m' = tm m \<and> known t' \<and> g_fw_cache t' = g_fw_cache (thr_of s) \<and> True"
    unfolding kern_apply_thread_dbgctx_def option.case
  proof (rule frame_op [OF m(1,3)])
    fix k t1 assume t1: "k \<in> threads" "ready t1 m" "known t1" "g_fw_cache t1 = g_fw_cache (thr_of s)"
    let ?a = "mem64 m (k + 0x460)"
    let ?f = "frame_of_regs buf (peek m ?a 0x110)"
    have v: "view (kern t1) m" "world m" using t1(2) by (auto simp: ready_def)
    have l: "length ?f = 0x110" using frame_of_regs_length [OF assms(1)] by simp
    obtain t2 where 2: "kin (sy_in e) ?f ?a t1 = (0, t2)" "view (kern t2) (poke m ?a ?f)" "kframe t1 t2"
      using kin_write [OF v(1), of ?a ?f] thread_frame [OF v(2) t1(1)] l by auto
    note w = frame_write [OF v(2) t1(1) l]
    show "\<exists>rc b t' m'. (let (rc, s) = kin (sy_in e) ?f ?a t1 in (if rc < 0 then 1 else 0, (), s)) = (rc, b, t')
        \<and> ready t' m' \<and> tm m' = tm m \<and> known t' \<and> g_fw_cache t' = g_fw_cache (thr_of s) \<and> True"
      using 2(1) w ready_frame [OF t1(2) 2(3,2)] known_frame [OF t1(3) 2(3)] t1(4) by auto
  qed simp
  with m(2) show "\<exists>r t' m'. map_option (\<lambda>(rc, _, t). (rc, t))
        (kern_apply_thread_dbgctx (sy_out e) (sy_in e) (pe_allproc (sy_ptw e)) stk p lw (Some buf) (thr_of s)) = Some (r, t')
      \<and> ready t' m' \<and> tm m' = t \<and> known t' \<and> (g_fw_cache t' = g_fw_cache (thr_of s) \<or> g_fw_cache t' = sy_fw e) \<and> True"
    by fastforce
qed

lemma map_loop_view:
  "view (kern s) m \<Longrightarrow> \<exists>es s'. map_loop (sy_out e) adj n cur s = (es, s') \<and> view (kern s') m \<and> kframe s s'"
proof (induction n arbitrary: cur s)
  case (Suc n)
  show ?case
  proof (cases "cur = 0")
    case False
    obtain rc bs s1 where 1: "kout (sy_out e) cur (replicate 0x1C0 0) s = (rc, bs, s1)" by (metis prod_cases3)
    have k: "view (kern s1) m" "kframe s s1" using kout_ok [OF Suc.prems 1] by auto
    obtain es s' where "map_loop (sy_out e) adj n (field64 bs 8) s1 = (es, s')" "view (kern s') m" "kframe s1 s'"
      using Suc.IH [OF k(1)] by blast
    with 1 k False kframe_trans [OF k(2)] show ?thesis by auto
  qed (use Suc.prems in auto)
qed auto

lemma alive_view:
  assumes "sys_view s t"
  shows "\<exists>r s'. d_alive (debug_ops e S) p s = Some (r, s') \<and> sys_view s' t"
proof -
  let ?p = "fst s"
  obtain m where m: "ready ?p m" "tm m = t" and tv: "target_view ?p t" using assms by (auto simp: sys_view_def target_view_def)
  let ?q = "if vmmap_offs_initialized ?p then ?p else vmmap_init_offsets (sy_fw e) ?p"
  have rq: "ready ?q m" using m(1) by (auto simp: vmmap_init_offsets_def ready_def cache_ok_def own_entries_def)
  have tq: "target_view ?q t" using tv by (auto simp: vmmap_init_offsets_def target_view_def ready_def cache_ok_def own_entries_def)
  obtain kproc p1 where 1: "kernel_get_proc_fast (sy_out e) (pe_allproc (sy_ptw e)) p ?q = Some (kproc, p1)" "ready p1 m"
      "kstate.more p1 = kstate.more ?q" by (rule lookup [OF rq])
  have v1: "view (kern p1) m" "world m" using 1(2) by (auto simp: ready_def)
  have fin: "target_view p' t" if "view (kern p') m" "kframe p1 p'" for p'
    using view_step [OF tq ready_frame [OF 1(2) that(2,1) v1(2)] m(2)] kframe_more [OF that(2)] 1(3) by simp
  obtain rc vs p2 where 2: "kout64 (sy_out e) (kproc + 0x200) 0 p1 = (rc, vs, p2)" by (metis prod_cases3)
  have k2: "view (kern p2) m" "kframe p1 p2" using kout64_ok [OF v1(1) 2] by auto
  obtain rc' vb p3 where 3: "kout (sy_out e) vs (replicate 0x350 0) p2 = (rc', vb, p3)" by (metis prod_cases3)
  have k3: "view (kern p3) m" "kframe p1 p3" using kout_ok [OF k2(1) 3] kframe_trans [OF k2(2)] by auto
  obtain es p4 where 4: "map_loop (sy_out e) (vmmap_name_adj p3) (nat (sint (field32 vb (0x1A8 + vmmap_nentries_adj p3)))) (field64 vb 8) p3 = (es, p4)"
      "view (kern p4) m" "kframe p1 p4" using map_loop_view [OF k3(1)] kframe_trans [OF k3(2)] by metis
  have "\<exists>es p'. sys_proc_vm_map e (sc_heap S) p ?p = Some (es, p') \<and> target_view p' t"
    using fin [OF v1(1) kframe_refl] fin [OF k2] fin [OF k3] fin [OF 4(2,3)] tv
    by (cases "sc_heap S") (auto simp: sys_proc_vm_map_def 1(1) 2 3 4(1) Let_def)
  then show ?thesis using assms by (auto simp: debug_ops_def Let_def on_pmem_def sys_view_def)
qed

lemma step_loop_ok:
  "klist m cur ps \<Longrightarrow> ps \<noteq> [] \<Longrightarrow> \<forall>p\<in>set ps. safe (p + 0xBC) 4 \<and> safe p 8 \<Longrightarrow> view (kern s) m \<Longrightarrow>
   \<exists>r s'. step_loop (sy_out e) p cur nx cp s = Some (r, s') \<and> view (kern s') m \<and> kframe s s'"
proof (induction ps arbitrary: cur nx cp s)
  case (Cons q ps)
  then have c: "cur = q" "q \<noteq> 0" "klist m (mem64 m q) ps" "safe (q + 0xBC) 4" "safe q 8" "\<forall>p\<in>set ps. safe (p + 0xBC) 4 \<and> safe p 8" by auto
  obtain s1 where 1: "kout32 (sy_out e) (q + 0xBC) cp s = (0, mem32 m (q + 0xBC), s1)" "view (kern s1) m" "kframe s s1"
    using kout32_read [OF Cons.prems(4) c(4)] by metis
  obtain s2 where 2: "kout64 (sy_out e) q nx s1 = (0, mem64 m q, s2)" "view (kern s2) m" "kframe s1 s2"
    using kout64_read [OF 1(2) c(5)] by metis
  note f = kframe_trans [OF 1(3) 2(3)]
  show ?case
  proof (cases "ps = []")
    case True
    then have "mem64 m q = 0" using c(3) by simp
    then show ?thesis using 1 2 f c(1) by (subst step_loop.simps) auto
  next
    case False
    then have "mem64 m q \<noteq> 0" using c(3) by (cases ps) auto
    obtain r s' where "step_loop (sy_out e) p (mem64 m q) (mem64 m q) (mem32 m (q + 0xBC)) s2 = Some (r, s')" "view (kern s') m" "kframe s2 s'"
      using Cons.IH [OF c(3) False c(6) 2(2)] by blast
    with 1 2 f c(1) \<open>mem64 m q \<noteq> 0\<close> kframe_trans [OF f] show ?thesis by (subst step_loop.simps) auto
  qed
qed simp

lemma listed_ok:
  assumes "ready s m"
  shows "\<exists>r s'. kern_thread_step_walker (sy_out e) (pe_allproc (sy_ptw e)) p s = Some (r, s') \<and> ready s' m \<and> kstate.more s' = kstate.more s"
proof -
  have v: "view (kern s) m" "world m" using assms by (auto simp: ready_def)
  obtain ps where ps: "klist m (mem64 m (pe_allproc (sy_ptw e))) ps" "\<forall>p\<in>set ps. safe (p + 0xBC) 4 \<and> safe p 8"
    using own_proc [OF v(2)] by blast
  obtain s1 where 1: "kout64 (sy_out e) (pe_allproc (sy_ptw e)) 0 s = (0, mem64 m (pe_allproc (sy_ptw e)), s1)" "view (kern s1) m" "kframe s s1"
    using kout64_read [OF v(1) own_safe(1)] by metis
  show ?thesis
  proof (cases "ps = []")
    case True
    then show ?thesis using 1 ps(1) ready_frame [OF assms 1(3,2) v(2)] kframe_more [OF 1(3)] by (auto simp: kern_thread_step_walker_def)
  next
    case False
    then have "mem64 m (pe_allproc (sy_ptw e)) \<noteq> 0" using ps(1) by (cases ps) auto
    moreover obtain r s' where "step_loop (sy_out e) p (mem64 m (pe_allproc (sy_ptw e))) 0 0 s1 = Some (r, s')" "view (kern s') m" "kframe s1 s'"
      using step_loop_ok [OF ps(1) False ps(2) 1(2)] by blast
    ultimately show ?thesis
      using 1 ready_frame [OF assms kframe_trans [OF 1(3)] _ v(2)] kframe_more [OF kframe_trans [OF 1(3)]]
      by (simp add: kern_thread_step_walker_def)
  qed
qed

lemma flush_view:
  assumes "sys_view s t"
  shows "sys_view (d_flush (debug_ops e S) s) t"
proof -
  obtain m where m: "ready (fst s) m" "tm m = t" "target_view (fst s) t" using assms by (auto simp: sys_view_def target_view_def)
  let ?s = "put_thr s (kern_thread_cache_flush (kern_proc_cache_flush (thr_of s)))"
  have "ready (fst ?s) m" "kstate.more (fst ?s) = kstate.more (fst s)"
    using m(1) by (auto simp: put_thr_def thr_of_def kern_thread_cache_flush_def kern_proc_cache_flush_def
        ready_def cache_ok_def own_entries_def empty_slot_def split: prod.splits)
  from view_step [OF m(3) this(1) m(2) this(2)] assms show ?thesis
    by (auto simp: debug_ops_def Let_def sys_view_def put_thr_def thr_of_def kern_thread_cache_flush_def kern_proc_cache_flush_def
        empty_thr_def split: prod.splits)
qed

lemma elev_view:
  assumes "sys_view s t"
  shows "\<exists>r s'. on_pmem (elev_save_and_set (sy_out e) (sy_in e) (sy_ptw e) stk) s = Some (r, s') \<and> elev_valid r \<and> sys_view s' t"
proof (rule pmem_ok [OF assms])
  fix m assume m: "ready (fst s) m" "tm m = t"
  have "mem64 m (ucred + 0x58) \<noteq> 0" using m(1) own_cred by (auto simp: ready_def)
  with elev_ok [OF m(1), of stk] m(2)
  show "\<exists>r p' m'. elev_save_and_set (sy_out e) (sy_in e) (sy_ptw e) stk (fst s) = Some (r, p') \<and> ready p' m' \<and> tm m' = t
      \<and> kstate.more p' = kstate.more (fst s) \<and> elev_valid r"
    by (metis elev_valid_simps(2) length_peek)
qed

lemma kernel_path_view:
  assumes "sys_view s t"
  shows "\<exists>r s'. on_thr (\<lambda>t. Some (fw_uses_kernel_dbreg_path (sy_fw e) t)) s = Some (r, s') \<and> r = False \<and> sys_view s' t"
proof (rule thr_ok [OF assms])
  fix m assume m: "ready (thr_of s) m" "tm m = t" "known (thr_of s)"
  have "g_fw_cache (thr_of s) = 0 \<or> g_fw_cache (thr_of s) = sy_fw e"
    using assms by (auto simp: sys_view_def thr_of_def split: prod.splits)
  from ptrace_fw [OF this] m
  show "\<exists>r t' m'. Some (fw_uses_kernel_dbreg_path (sy_fw e) (thr_of s)) = Some (r, t') \<and> ready t' m' \<and> tm m' = t \<and> known t'
      \<and> (g_fw_cache t' = g_fw_cache (thr_of s) \<or> g_fw_cache t' = sy_fw e) \<and> r = False"
    by (auto simp: fw_uses_kernel_dbreg_path_def Let_def ready_def cache_ok_def own_entries_def known_def intro!: exI [of _ m])
qed

lemma wait_view:
  assumes "sys_view s t"
  shows "\<exists>r k. sc_wait4 S p opt (kern (fst s)) = Some (r, k) \<and> sys_view ((fst s)\<lparr>kern := k\<rparr>, snd s) t"
proof -
  obtain m where m: "view (kern (fst s)) m" "world m" using assms by (auto simp: sys_view_def target_view_def ready_def)
  obtain r k where r: "sc_wait4 S p opt (kern (fst s)) = Some (r, k)" using wait_call [OF m] by blast
  have "sys_view ((fst s)\<lparr>kern := k\<rparr>, snd s) t"
  proof (rule view_kern [OF assms])
    fix n assume "view (kern (fst s)) n" "world n"
    from wait_call [OF this, of p opt] r show "\<exists>m'. view k m' \<and> world m' \<and> tm m' = tm n" by auto
  qed
  with r show ?thesis by blast
qed

text \<open>The laws of the contract, one by one.\<close>

lemma d_read_view:
  assumes s: "sys_view s t" and ab: "able q a (length buf)"
  shows "\<exists>s'. d_read (debug_ops e S) q a buf s = Some (peek (t q) a (length buf), s') \<and> sys_view s' t"
proof -
  have "\<exists>r s'. on_pmem (\<lambda>p. map_option (\<lambda>(_, buf, _, p). (buf, p)) (sys_proc_rw_w0 e (scast q) a buf None p)) s = Some (r, s')
      \<and> r = peek (t q) a (length buf) \<and> sys_view s' t"
  proof (rule pmem_ok [OF s])
    fix m assume m: "ready (fst s) m" "tm m = t"
    have eq: "sys_proc_rw_w0 e (scast q) a buf None (fst s) = sys_proc_rw_w0 e (ucast q) a buf None (fst s)"
      by (simp add: sys_proc_rw_w0_def sys_proc_rw_def scast_ucast32 ucast_ucast32)
    show "\<exists>r p' m'. map_option (\<lambda>(_, buf, _, p). (buf, p)) (sys_proc_rw_w0 e (scast q) a buf None (fst s)) = Some (r, p')
        \<and> ready p' m' \<and> tm m' = t \<and> kstate.more p' = kstate.more (fst s) \<and> r = peek (t q) a (length buf)"
      unfolding eq using rw_read [OF m(1) ab, of None] m(2) by auto
  qed
  then show ?thesis by (simp add: debug_ops_def Let_def)
qed

lemma d_write_view:
  assumes s: "sys_view s t" and ab: "able q a (length buf)"
  shows "\<exists>s'. d_write (debug_ops e S) q a buf s = Some s' \<and> sys_view s' (t(q := poke (t q) a buf))"
proof -
  have "target_view (fst s) t" using s by (simp add: sys_view_def)
  from access.wrm_ok [OF this ab] show ?thesis using s by (auto simp: debug_ops_def Let_def on_pmem2_def sys_view_def)
qed

lemma d_calls_view:
  assumes "sys_view s t"
  shows "\<exists>r s'. d_ptrace (debug_ops e S) pop p buf dat s = Some (r, s') \<and> sys_view s' t"
    and "\<exists>r s'. d_app_id (debug_ops e S) p s = Some (r, s') \<and> sys_view s' t"
    and "\<exists>r s'. d_app_continue (debug_ops e S) app s = Some (r, s') \<and> sys_view s' t"
    and "\<exists>r s'. d_time (debug_ops e S) s = Some (r, s') \<and> sys_view s' t"
  using call_ok [OF assms ptrace_call] call_ok [OF assms app_id_call] call_ok [OF assms app_continue_call]
    call_ok [OF assms time_call]
  by (simp_all add: debug_ops_def Let_def)

lemma d_runs_view:
  assumes "sys_view s t"
  shows "sys_view (d_kill (debug_ops e S) p sig s) t"
    and "sys_view (d_sleep (debug_ops e S) n s) t"
    and "sys_view (d_close (debug_ops e S) fd s) t"
  using run_ok [OF assms kill_call] run_ok [OF assms sleep_call] run_ok [OF assms close_call]
  by (simp_all add: debug_ops_def Let_def)

lemma d_elev_view:
  assumes "sys_view s t"
  shows "\<exists>r s'. d_elev (debug_ops e S) s = Some (r, s') \<and> elev_valid r \<and> sys_view s' t"
  using elev_view [OF assms] by (simp add: debug_ops_def Let_def)

lemma d_unelev_view:
  assumes "elev_valid (Some es)" "sys_view s t"
  shows "\<exists>s'. d_unelev (debug_ops e S) es s = Some s' \<and> sys_view s' t"
proof -
  have "\<exists>s'. on_pmem2 (elev_restore (sy_out e) (sy_in e) (sy_ptw e) es) s = Some s' \<and> sys_view s' t"
  proof (rule pmem2_ok [OF assms(2)])
    fix m assume m: "ready (fst s) m" "tm m = t"
    from restore_ok [OF m(1), of es] assms(1) m(2)
    show "\<exists>p' m'. elev_restore (sy_out e) (sy_in e) (sy_ptw e) es (fst s) = Some p' \<and> ready p' m' \<and> tm m' = t
        \<and> kstate.more p' = kstate.more (fst s)" by (metis elev_valid_simps(2))
  qed
  then show ?thesis by (simp add: debug_ops_def Let_def)
qed

lemma d_bump_view:
  assumes "sys_view s t"
  shows "\<exists>r s'. d_bump (debug_ops e S) s = Some (r, s') \<and> (\<forall>v. r = Some v \<longrightarrow> v \<noteq> 0) \<and> sys_view s' t"
proof -
  have "\<exists>r s'. on_pmem (authid_bump_safe (sy_out e) (sy_in e) (sy_ptw e)) s = Some (r, s') \<and> (\<forall>v. r = Some v \<longrightarrow> v \<noteq> 0) \<and> sys_view s' t"
  proof (rule pmem_ok [OF assms])
    fix m assume m: "ready (fst s) m" "tm m = t"
    obtain p' m' where "authid_bump_safe (sy_out e) (sy_in e) (sy_ptw e) (fst s) = Some (Some (mem64 m (ucred + 0x58)), p')" "ready p' m'"
        "tm m' = tm m" "kstate.more p' = kstate.more (fst s)" "mem64 m (ucred + 0x58) \<noteq> 0" by (rule bump_ok [OF m(1)])
    with m(2) show "\<exists>r p' m'. authid_bump_safe (sy_out e) (sy_in e) (sy_ptw e) (fst s) = Some (r, p') \<and> ready p' m' \<and> tm m' = t
        \<and> kstate.more p' = kstate.more (fst s) \<and> (\<forall>v. r = Some v \<longrightarrow> v \<noteq> 0)" by auto
  qed
  then show ?thesis by (simp add: debug_ops_def Let_def)
qed

lemma d_unbump_view:
  assumes "v \<noteq> 0" "sys_view s t"
  shows "\<exists>s'. d_unbump (debug_ops e S) v s = Some s' \<and> sys_view s' t"
proof -
  have "\<exists>s'. on_pmem2 (authid_restore_safe (sy_out e) (sy_in e) (sy_ptw e) v) s = Some s' \<and> sys_view s' t"
  proof (rule pmem2_ok [OF assms(2)])
    fix m assume m: "ready (fst s) m" "tm m = t"
    from unbump_ok [OF m(1) assms(1)] m(2)
    show "\<exists>p' m'. authid_restore_safe (sy_out e) (sy_in e) (sy_ptw e) v (fst s) = Some p' \<and> ready p' m' \<and> tm m' = t
        \<and> kstate.more p' = kstate.more (fst s)" by metis
  qed
  then show ?thesis by (simp add: debug_ops_def Let_def)
qed

lemma d_waits_view:
  assumes "sys_view s t"
  shows "\<exists>r s'. d_wait4 (debug_ops e S) p opt s = Some (r, s') \<and> sys_view s' t"
    and "\<exists>r s'. d_stopped (debug_ops e S) p s = Some (r, s') \<and> sys_view s' t"
  using wait_view [OF assms, of p opt] wait_view [OF assms, of p 7] by (auto simp: debug_ops_def Let_def)

lemma d_kernel_path_view:
  assumes "sys_view s t"
  shows "\<exists>s'. d_kernel_path (debug_ops e S) s = Some (False, s') \<and> sys_view s' t"
  using kernel_path_view [OF assms] by (auto simp: debug_ops_def Let_def)

lemma d_listed_view:
  assumes "sys_view s t"
  shows "\<exists>r s'. d_listed (debug_ops e S) p s = Some (r, s') \<and> sys_view s' t"
proof -
  have "\<exists>r s'. on_pmem (kern_thread_step_walker (sy_out e) (pe_allproc (sy_ptw e)) p) s = Some (r, s') \<and> True \<and> sys_view s' t"
    by (rule pmem_ok [OF assms]) (use listed_ok in blast)
  then show ?thesis by (simp add: debug_ops_def Let_def)
qed

lemma d_thread_addr_view:
  assumes "sys_view s t"
  shows "\<exists>r s'. d_thread_addr (debug_ops e S) p lw s = Some (r, s') \<and> sys_view s' t"
proof -
  have "\<exists>r s'. on_thr (kern_thread_addr (sy_out e) (pe_allproc (sy_ptw e)) (sc_stack S) p lw) s = Some (r, s') \<and> True \<and> sys_view s' t"
  proof (rule thr_ok [OF assms])
    fix m assume m: "ready (thr_of s) m" "tm m = t" "known (thr_of s)"
    obtain k t' where "kern_thread_addr (sy_out e) (pe_allproc (sy_ptw e)) (sc_stack S) p lw (thr_of s) = Some (k, t')" "ready t' m" "known t'"
      "g_fw_cache t' = g_fw_cache (thr_of s)" by (rule thread_addr [OF m(1,3)])
    with m(2) show "\<exists>r t' m'. kern_thread_addr (sy_out e) (pe_allproc (sy_ptw e)) (sc_stack S) p lw (thr_of s) = Some (r, t') \<and> ready t' m'
        \<and> tm m' = t \<and> known t' \<and> (g_fw_cache t' = g_fw_cache (thr_of s) \<or> g_fw_cache t' = sy_fw e) \<and> True" by blast
  qed
  then show ?thesis by (simp add: debug_ops_def Let_def)
qed

lemma d_out_view:
  assumes "sys_view s t"
  shows "sys_view (snd (snd (d_out (debug_ops e S) a buf s))) t"
proof -
  obtain m where m: "ready (fst s) m" "tm m = t" "target_view (fst s) t" using assms by (auto simp: sys_view_def target_view_def)
  have v: "view (kern (fst s)) m" "world m" using m(1) by (auto simp: ready_def)
  obtain rc bs p where 1: "kout (sy_out e) a buf (fst s) = (rc, bs, p)" by (metis prod_cases3)
  have k: "view (kern p) m" "kframe (fst s) p" using kout_ok [OF v(1) 1] by auto
  from view_step [OF m(3) ready_frame [OF m(1) k(2,1) v(2)] m(2) kframe_more [OF k(2)]] 1 assms show ?thesis
    by (simp add: debug_ops_def Let_def sys_view_def)
qed

lemma d_regs_view:
  assumes "length buf = 0xb0" "sys_view s t"
  shows "\<exists>rc b s'. d_get_regs (debug_ops e S) p lw buf s = Some ((rc, b), s') \<and> length b = 0xb0 \<and> sys_view s' t"
    and "\<exists>r s'. d_set_regs (debug_ops e S) p lw buf s = Some (r, s') \<and> sys_view s' t"
  using get_regs_view [OF assms, of "sc_stack S" p lw] set_regs_view [OF assms, of "sc_stack S" p lw] by (simp_all add: debug_ops_def Let_def)

lemmas sys_laws = d_read_view d_write_view d_calls_view d_runs_view d_elev_view d_unelev_view d_bump_view d_unbump_view d_waits_view
  d_kernel_path_view d_listed_view d_thread_addr_view d_out_view d_regs_view flush_view alive_view wait_reports

end

sublocale debug_system \<subseteq> sys: debug_monitor "debug_ops e S" sys_view able pid
  by unfold_locales (rule sys_laws able_part; assumption)+

section \<open>The small machine under the debugger\<close>

text \<open>The machine of \<open>ProcMemProps\<close> with system calls that leave kernel memory alone; process 9 reports
  a trap whenever it is waited for.\<close>

definition machine_sys :: "(u64 \<Rightarrow> byte) syscalls" where
  "machine_sys = \<lparr>sc_ptrace = \<lambda>_ _ buf _ k. ((0, buf, None), k), sc_kill = \<lambda>_ _ k. k, sc_wait4 = \<lambda>_ _ k. Some ((9, 0x057F), k),
     sc_sleep = \<lambda>_ k. k, sc_time = \<lambda>k. (0, k), sc_app_id = \<lambda>_ k. ((0, 1), k), sc_app_continue = \<lambda>_ k. (0, k),
     sc_socket = \<lambda>_ k. (-1, k), sc_connect = \<lambda>_ k. (False, k), sc_close = \<lambda>_ k. k, sc_heap = None, sc_stack = \<lambda>_. 0\<rparr>"

lemma machine_thread:
  assumes "machine_world m"
  shows "mem64 m 0x1010 = 0x3000" "mem64 m 0x3010 = 0" "mem64 m 0x3460 = 0x4000"
proof -
  have "\<And>x. \<not> varying x \<Longrightarrow> m x = machine_base x" using assms by (simp add: machine_world_def)
  then show "mem64 m 0x1010 = 0x3000" "mem64 m 0x3010 = 0" "mem64 m 0x3460 = 0x4000"
    by (simp_all add: mem64_def le_simps window_apply varying_def machine_base_def)
qed

lemma mem64_poke_low:
  assumes "0x2060 \<le> unat a" "unat a + length bs \<le> 0x100000"
  shows "mem64 (poke m a bs) 0x2058 = mem64 m 0x2058"
proof -
  have "poke m a bs x = m x" if "unat x < 0x2060" for x
  proof (rule poke_unchanged)
    fix i assume "i < length bs"
    then have "unat (a + of_nat i) = unat a + i" by (intro unat_add_of_nat) (use assms in simp)
    with that assms(1) show "x \<noteq> a + of_nat i" by auto
  qed
  then show ?thesis by (simp add: mem64_def le_simps window_apply)
qed

lemma machine_caps:
  assumes "machine_world m" "length v = 0x10"
  shows "machine_world (poke m 0x2060 v) \<and> machine_tm (poke m 0x2060 v) = machine_tm m"
  by (rule machine_low [OF assms(1)])
     (use assms in \<open>auto simp: mem64_poke_low machine_world_def intro!: varying_range [where n = "0x10"]\<close>)

lemma machine_frame:
  assumes "machine_world m" "length v = 0x110"
  shows "machine_world (poke m 0x4000 v) \<and> machine_tm (poke m 0x4000 v) = machine_tm m"
  by (rule machine_low [OF assms(1)])
     (use assms in \<open>auto simp: mem64_poke_low machine_world_def intro!: varying_range [where n = "0x110"]\<close>)

interpretation machine_sys: debug_system machine_env "\<lambda>k m. k = m" "\<lambda>_ _. True" machine_world "0x1000" "0x2000" machine_tm machine_able
  "{0x1000}" machine_sys "{0x3000}" 9
proof
  fix m pa assume w: "machine_world m" and p: "pa \<in> {0x1000 :: u64}"
  show "True \<and> (\<exists>ks. tlist m (mem64 m (pa + 0x10)) ks \<and> set ks \<subseteq> {0x3000})"
    using p machine_thread [OF w] by (auto intro!: exI [of _ "[0x3000]"])
qed (auto simp: machine_caps machine_frame machine_thread machine_sys_def machine_env_def fw_uses_kernel_dbreg_path_def intro: polls_now)

context debug_system
begin

lemma breakpoint_in_kernel:
  assumes "debugs sys_view i pid bps t s" "data packet = Some dp" "bp_allowed able pid (breakpt_packet dp) bps"
  shows "\<exists>s' m. debug_set_breakpoint_handle (debug_ops e S) packet (s, c) = Some (0, s', send_int32 CMD_SUCCESS c) \<and>
    debugs sys_view i pid (bp_spec (breakpt_packet dp) bps) t s' \<and>
    view (kern (fst (low s'))) m \<and> tm m = planted pid (bp_spec (breakpt_packet dp) bps) t"
proof -
  obtain s' where s': "debug_set_breakpoint_handle (debug_ops e S) packet (s, c) = Some (0, s', send_int32 CMD_SUCCESS c)"
      "debugs sys_view i pid (bp_spec (breakpt_packet dp) bps) t s'"
    using sys.debug_set_breakpoint_refines [OF assms] by blast
  then show ?thesis by (auto simp: debugs_def sys_view_def target_view_def ready_def)
qed

end

section \<open>Properties\<close>


definition machine_session :: "(u64 \<Rightarrow> byte) sys_state dbg" where
  "machine_session = session_on fresh_ctx (machine_state, \<lparr>th_cache = [], th_next = 0, th_fw = 0\<rparr>)"

lemma machine_debugs: "debugs machine_sys.sys_view 0 9 Map.empty (machine_tm machine_base) machine_session"
  unfolding machine_session_def
  by (rule debugs_session_on [OF fresh_ctx(1,2) _ fresh_ctx(3)]) (use machine_view in \<open>simp_all add: machine_sys.sys_view_def planted_def\<close>)


end
