(* ===== verification/TurboStore.thy ===== *)
theory TurboStore
  imports ScanHandlers ScanSimd
begin

text \<open>
  The state of the turbo scanner, \<^verbatim>\<open>debugger/source/scan_turbo.c\<close>: the sessions that keep the
  survivors of a scan on the server, the value store of a snapshot, split between memory and a
  file, and the bitmap of survivors.

  What the scanner calls below it is gathered in \<open>turbo_ops\<close>: files and memory of the operating
  system, and the aliasing engine (\<^verbatim>\<open>scan_alias.c\<close>), which maps pages of the target into the
  debugger. \<open>'o\<close> is the state of all of these, \<open>'x\<close> an alias context. A read that fails gives no
  bytes, a write that fails writes none. Releasing memory has no effect in the model.
\<close>

section \<open>System calls\<close>

record ('o, 'x) turbo_ops =
  o_pread :: "int \<Rightarrow> nat \<Rightarrow> nat \<Rightarrow> 'o \<Rightarrow> byte list \<times> 'o"
  o_pwrite :: "int \<Rightarrow> byte list \<Rightarrow> nat \<Rightarrow> 'o \<Rightarrow> nat \<times> 'o"
  o_open :: "byte list \<Rightarrow> 'o \<Rightarrow> int \<times> 'o"
  o_close :: "int \<Rightarrow> 'o \<Rightarrow> 'o"
  o_unlink :: "byte list \<Rightarrow> 'o \<Rightarrow> 'o"
  o_mmap :: "nat \<Rightarrow> 'o \<Rightarrow> ptr option \<times> 'o"
  o_alias_begin :: "u32 \<Rightarrow> nat \<Rightarrow> 'o \<Rightarrow> 'x option \<times> 'o"
  o_alias_rebind :: "u32 \<Rightarrow> 'x \<Rightarrow> 'o \<Rightarrow> 'x \<times> 'o"
  o_alias_map :: "u64 \<Rightarrow> nat \<Rightarrow> 'x \<Rightarrow> 'o \<Rightarrow> ptr option \<times> 'x \<times> 'o"
  o_alias_release :: "'x \<Rightarrow> 'o \<Rightarrow> 'x \<times> 'o"
  o_alias_end :: "'x \<Rightarrow> 'o \<Rightarrow> 'o"

text \<open>A call transfers at most what it was asked for.\<close>

function pread_loop :: "('o, 'x) turbo_ops \<Rightarrow> int \<Rightarrow> ptr \<Rightarrow> nat \<Rightarrow> nat \<Rightarrow> nat \<Rightarrow> 'o \<Rightarrow> bool \<times> ptr \<times> 'o" where
  "pread_loop P fd p len foff off w =
     (if off < len then
        let (bs, w) = o_pread P fd (len - off) (foff + off) w; bs = take (len - off) bs in
        if bs = [] then (False, p, w)
        else pread_loop P fd (blit p off bs) len foff (off + length bs) w
      else (True, p, w))"
  by pat_completeness auto
termination
  by (relation "measure (\<lambda>(_, _, _, len, _, off, _). len - off)") (auto simp: min_def neq_Nil_conv)

function pwrite_loop :: "('o, 'x) turbo_ops \<Rightarrow> int \<Rightarrow> byte list \<Rightarrow> nat \<Rightarrow> nat \<Rightarrow> 'o \<Rightarrow> bool \<times> 'o" where
  "pwrite_loop P fd bs foff off w =
     (if off < length bs then
        let (n, w) = o_pwrite P fd (drop off bs) (foff + off) w; n = min n (length bs - off) in
        if n = 0 then (False, w) else pwrite_loop P fd bs foff (off + n) w
      else (True, w))"
  by pat_completeness auto
termination
  by (relation "measure (\<lambda>(_, _, bs, _, off, _). length bs - off)") auto

declare pread_loop.simps [simp del] pwrite_loop.simps [simp del]

definition fs_pread_all :: "('o, 'x) turbo_ops \<Rightarrow> int \<Rightarrow> ptr \<Rightarrow> nat \<Rightarrow> nat \<Rightarrow> 'o \<Rightarrow> bool \<times> ptr \<times> 'o" where
  "fs_pread_all P fd p len foff w = pread_loop P fd p len foff 0 w"

definition fs_pwrite_all :: "('o, 'x) turbo_ops \<Rightarrow> int \<Rightarrow> ptr \<Rightarrow> nat \<Rightarrow> nat \<Rightarrow> 'o \<Rightarrow> bool \<times> 'o" where
  "fs_pwrite_all P fd p len foff w = pwrite_loop P fd (bytes_at p 0 len) foff 0 w"

section \<open>The value store\<close>

text \<open>The first \<open>ram_bytes\<close> bytes of a store are in memory, the others in a file.\<close>

definition snap_store_read :: "('o, 'x) turbo_ops \<Rightarrow> ptr \<Rightarrow> nat \<Rightarrow> int \<Rightarrow> ptr \<Rightarrow> nat \<Rightarrow> nat \<Rightarrow> 'o \<Rightarrow> bool \<times> ptr \<times> 'o" where
  "snap_store_read P ram ram_bytes fd dst off len w =
     (if off \<ge> ram_bytes then fs_pread_all P fd dst len (off - ram_bytes) w
      else if off + len \<le> ram_bytes then (True, blit dst 0 (bytes_at ram off len), w)
      else let a = ram_bytes - off;
               dst = blit dst 0 (bytes_at ram off a);
               (ok, tail, w) = fs_pread_all P fd (shift dst a) (len - a) 0 w
           in (ok, blit dst a (bytes_at tail 0 (len - a)), w))"

definition snap_store_write :: "('o, 'x) turbo_ops \<Rightarrow> ptr \<Rightarrow> nat \<Rightarrow> int \<Rightarrow> ptr \<Rightarrow> nat \<Rightarrow> nat \<Rightarrow> 'o \<Rightarrow> bool \<times> ptr \<times> 'o" where
  \<comment> \<open>with the memory part afterwards\<close>
  "snap_store_write P ram ram_bytes fd src off len w =
     (if off \<ge> ram_bytes then (let (ok, w) = fs_pwrite_all P fd src len (off - ram_bytes) w in (ok, ram, w))
      else if off + len \<le> ram_bytes then (True, blit ram off (bytes_at src 0 len), w)
      else let a = ram_bytes - off;
               (ok, w) = fs_pwrite_all P fd (shift src a) (len - a) 0 w
           in (ok, blit ram off (bytes_at src 0 a), w))"

section \<open>Sessions\<close>

record fs_segment =
  sg_addr :: u64
  sg_slot_start :: nat
  sg_nslots :: nat

datatype ts_mode = TS_MODE_NONE | TS_MODE_LIST | TS_MODE_SNAPSHOT

record turboscan_session =
  ts_in_use :: bool
  ts_mode :: ts_mode
  ts_buf :: "ptr option"
  ts_buf_cap :: nat
  ts_count :: nat
  ts_rec_size :: nat
  ts_bitmap :: "ptr option"
  ts_bitmap_bytes :: nat
  ts_slot_count :: nat
  ts_survivors :: nat
  ts_base :: u64
  ts_stride :: nat
  ts_snap_ram :: "ptr option"
  ts_snap_fd :: int
  ts_snap_bytes :: nat
  ts_first_fd :: int
  ts_has_first :: bool
  ts_prev_fd :: int
  ts_has_prev :: bool
  ts_seg :: "fs_segment list"
  ts_value_length :: nat
  ts_pid :: u32
  ts_valueType :: byte

definition TS_MAX_CLIENTS :: nat where "TS_MAX_CLIENTS = 12"
definition TS_RESIDENT_CAP :: nat where "TS_RESIDENT_CAP = 256 * 2 ^ 20"
definition TS_SNAP_RAM_DEFAULT :: nat where "TS_SNAP_RAM_DEFAULT = 512 * 2 ^ 20"

definition cleared_session :: turboscan_session where
  "cleared_session = \<lparr>ts_in_use = False, ts_mode = TS_MODE_NONE, ts_buf = None, ts_buf_cap = 0, ts_count = 0, ts_rec_size = 0,
     ts_bitmap = None, ts_bitmap_bytes = 0, ts_slot_count = 0, ts_survivors = 0, ts_base = 0, ts_stride = 0,
     ts_snap_ram = None, ts_snap_fd = 0, ts_snap_bytes = 0, ts_first_fd = 0, ts_has_first = False, ts_prev_fd = 0,
     ts_has_prev = False, ts_seg = [], ts_value_length = 0, ts_pid = 0, ts_valueType = 0\<rparr>"

record ('o, 'x) turbo =
  g_turboscan_sess :: "turboscan_session list"
  g_turboscan_alias :: "'x option list"
  g_turboscan_cap_override :: nat
  g_turboscan_snap_ram_thresh :: nat
  g_turboscan_spill_dir :: "byte list"
  g_turboscan_snap_force_fail :: bool
  g_turboscan_materialize_max :: nat
  os :: 'o

definition sess_at :: "byte \<Rightarrow> ('o, 'x) turbo \<Rightarrow> turboscan_session" where
  "sess_at idx t = g_turboscan_sess t ! unat idx"

definition set_sess :: "byte \<Rightarrow> turboscan_session \<Rightarrow> ('o, 'x) turbo \<Rightarrow> ('o, 'x) turbo" where
  "set_sess idx s t = t\<lparr>g_turboscan_sess := (g_turboscan_sess t)[unat idx := s]\<rparr>"

definition on_os :: "('o \<Rightarrow> 'a \<times> 'o) \<Rightarrow> ('o, 'x) turbo \<Rightarrow> 'a \<times> ('o, 'x) turbo" where
  "on_os f t = (let (r, w) = f (os t) in (r, t\<lparr>os := w\<rparr>))"

subsection \<open>Files of a session\<close>

definition ascii :: "string \<Rightarrow> byte list" where
  "ascii s = map of_char s"

definition fs_store_path :: "byte list \<Rightarrow> byte \<Rightarrow> byte list \<Rightarrow> byte list" where
  \<comment> \<open>the directory up to its terminator\<close>
  "fs_store_path spill idx sfx =
     (let dir = takeWhile (\<lambda>b. b \<noteq> 0) spill in
      take 63 (if dir = [] then ascii ''/data'' else dir) @ sfx @ [0x30 + idx div 10, 0x30 + idx mod 10] @ ascii ''.bin'')"

definition fs_snap_path :: "byte list \<Rightarrow> byte \<Rightarrow> byte list" where
  "fs_snap_path spill idx = fs_store_path spill idx (ascii ''/ps5dbg_snap_'')"
definition fs_first_path :: "byte list \<Rightarrow> byte \<Rightarrow> byte list" where
  "fs_first_path spill idx = fs_store_path spill idx (ascii ''/ps5dbg_first_'')"
definition fs_prev_path :: "byte list \<Rightarrow> byte \<Rightarrow> byte list" where
  "fs_prev_path spill idx = fs_store_path spill idx (ascii ''/ps5dbg_prev_'')"

subsection \<open>Allocation\<close>

definition close_pos :: "('o, 'x) turbo_ops \<Rightarrow> int \<Rightarrow> 'o \<Rightarrow> 'o" where
  "close_pos P fd w = (if fd > 0 then o_close P fd w else w)"

definition turboscan_session_free_idx :: "('o, 'x) turbo_ops \<Rightarrow> byte \<Rightarrow> ('o, 'x) turbo \<Rightarrow> ('o, 'x) turbo" where
  "turboscan_session_free_idx P idx t =
     (if unat idx \<ge> TS_MAX_CLIENTS then t
      else let s = sess_at idx t; dir = g_turboscan_spill_dir t; w = os t;
               w = (if ts_mode s = TS_MODE_SNAPSHOT
                    then o_unlink P (fs_prev_path dir idx) (close_pos P (ts_prev_fd s)
                          (o_unlink P (fs_first_path dir idx) (close_pos P (ts_first_fd s)
                            (o_unlink P (fs_snap_path dir idx) (close_pos P (ts_snap_fd s) w)))))
                    else w)
           in set_sess idx cleared_session (t\<lparr>os := w\<rparr>))"

definition turboscan_startup_cleanup :: "('o, 'x) turbo_ops \<Rightarrow> ('o, 'x) turbo \<Rightarrow> ('o, 'x) turbo" where
  "turboscan_startup_cleanup P t = t\<lparr>os := fold (\<lambda>i w. let dir = g_turboscan_spill_dir t; i = of_nat i in
     o_unlink P (fs_prev_path dir i) (o_unlink P (fs_first_path dir i) (o_unlink P (fs_snap_path dir i) w))) [0..<TS_MAX_CLIENTS] (os t)\<rparr>"

definition fs_session_alloc :: "('o, 'x) turbo_ops \<Rightarrow> byte \<Rightarrow> u32 \<Rightarrow> byte \<Rightarrow> nat \<Rightarrow> ('o, 'x) turbo \<Rightarrow> bool \<times> ('o, 'x) turbo" where
  \<comment> \<open>whether slot \<open>idx\<close> holds a new session\<close>
  "fs_session_alloc P idx pid vt vlen t =
     (if unat idx \<ge> TS_MAX_CLIENTS then (False, t)
      else let t = turboscan_session_free_idx P idx t;
               cap = (if g_turboscan_cap_override t \<noteq> 0 then g_turboscan_cap_override t else TS_RESIDENT_CAP);
               (m, t) = on_os (o_mmap P cap) t
           in case m of None \<Rightarrow> (False, t)
            | Some b \<Rightarrow> (True, set_sess idx ((sess_at idx t)\<lparr>ts_in_use := True, ts_mode := TS_MODE_LIST, ts_buf := Some b, ts_buf_cap := cap,
                ts_count := 0, ts_rec_size := 8 + vlen, ts_value_length := vlen, ts_pid := pid, ts_valueType := vt\<rparr>) t))"

definition turboscan_alias_free_idx :: "('o, 'x) turbo_ops \<Rightarrow> byte \<Rightarrow> ('o, 'x) turbo \<Rightarrow> ('o, 'x) turbo" where
  "turboscan_alias_free_idx P idx t =
     (if unat idx \<ge> TS_MAX_CLIENTS then t
      else case g_turboscan_alias t ! unat idx of None \<Rightarrow> t
        | Some x \<Rightarrow> t\<lparr>os := o_alias_end P x (os t), g_turboscan_alias := (g_turboscan_alias t)[unat idx := None]\<rparr>)"

definition turboscan_alias_acquire :: "('o, 'x) turbo_ops \<Rightarrow> byte \<Rightarrow> u32 \<Rightarrow> ('o, 'x) turbo \<Rightarrow> 'x option \<times> ('o, 'x) turbo" where
  "turboscan_alias_acquire P idx pid t =
     (if unat idx \<ge> TS_MAX_CLIENTS then (None, t)
      else let (x, w) = (case g_turboscan_alias t ! unat idx of
               None \<Rightarrow> o_alias_begin P pid 0 (os t)
             | Some x \<Rightarrow> (let (x, w) = o_alias_rebind P pid x (os t) in (Some x, w)))
           in (x, t\<lparr>os := w, g_turboscan_alias := (g_turboscan_alias t)[unat idx := x]\<rparr>))"

section \<open>The bitmap of survivors\<close>

definition slot_set :: "ptr \<Rightarrow> nat \<Rightarrow> bool" where
  "slot_set bm i \<longleftrightarrow> bit (bm (i div 8)) (i mod 8)"

definition fs_bm_clear :: "ptr \<Rightarrow> nat \<Rightarrow> ptr" where
  "fs_bm_clear bm i = bm(i div 8 := bm (i div 8) AND NOT (push_bit (i mod 8) 1))"

function skip_words :: "ptr \<Rightarrow> nat \<Rightarrow> nat \<Rightarrow> nat" where
  "skip_words bm i n = (if i + 64 \<le> n \<and> ld64 (shift bm (i div 8)) = 0 then skip_words bm (i + 64) n else i)"
  by pat_completeness auto
termination
  by (relation "measure (\<lambda>(_, i, n). n - i)") auto

declare skip_words.simps [simp del]

lemma skip_words_ge: "i \<le> skip_words bm i n"
  by (induction bm i n rule: skip_words.induct) (subst skip_words.simps, auto)

function fs_next_set :: "ptr \<Rightarrow> nat \<Rightarrow> nat \<Rightarrow> nat" where
  "fs_next_set bm i n =
     (if i < n then
        let i' = (if i mod 64 = 0 then skip_words bm i n else i) in
        if i' \<ge> n then n else if slot_set bm i' then i' else fs_next_set bm (i' + 1) n
      else n)"
  by pat_completeness auto
termination
proof (relation "measure (\<lambda>(_, i, n). n - i)", goal_cases)
  case (2 bm i n i')
  have "i \<le> i'" using 2(2) skip_words_ge by auto
  then show ?case using 2 by auto
qed simp

declare fs_next_set.simps [simp del]

text \<open>The segment of a slot, by bisection.\<close>

function seg_search :: "fs_segment list \<Rightarrow> nat \<Rightarrow> nat \<Rightarrow> nat \<Rightarrow> nat" where
  "seg_search seg i lo hi =
     (if lo + 1 < hi then
        let mid = (lo + hi) div 2 in
        if sg_slot_start (seg ! mid) \<le> i then seg_search seg i mid hi else seg_search seg i lo mid
      else lo)"
  by pat_completeness auto
termination
  by (relation "measure (\<lambda>(_, _, lo, hi). hi - lo)") auto

declare seg_search.simps [simp del]

definition fs_slot_addr :: "turboscan_session \<Rightarrow> nat \<Rightarrow> u64" where
  "fs_slot_addr s i =
     (let g = ts_seg s ! seg_search (ts_seg s) i 0 (length (ts_seg s))
      in sg_addr g + of_nat (i - sg_slot_start g) * of_nat (ts_stride s))"

end
