(* ===== verification/TurboSnap.thy ===== *)
theory TurboSnap
  imports TurboStore
begin

text \<open>
  Snapshots of \<^verbatim>\<open>debugger/source/scan_turbo.c\<close>: a scan for an unknown value stores every slot of the
  scanned regions, and later scans keep the slots whose value has changed as asked for. Lengths and
  counts cannot wrap around: a snapshot has at most \<^verbatim>\<open>2^20\<close> segments of less than \<^verbatim>\<open>2^32\<close> bytes and values
  of at most eight bytes.
\<close>

record cmd_proc_turboscan_start_packet =
  tp_pid :: u32
  tp_address :: u64
  tp_length :: u32
  tp_valueType :: byte
  tp_compareType :: byte
  tp_alignment :: byte
  tp_lenData :: u32
  tp_flags :: u32

definition turboscan_start_packet :: "ptr \<Rightarrow> cmd_proc_turboscan_start_packet" where
  "turboscan_start_packet p = \<lparr>tp_pid = ld32 p, tp_address = ld64 (shift p 4), tp_length = ld32 (shift p 12),
     tp_valueType = ld8 (shift p 16), tp_compareType = ld8 (shift p 17), tp_alignment = ld8 (shift p 18),
     tp_lenData = ld32 (shift p 19), tp_flags = ld32 (shift p 23)\<rparr>"

abbreviation ts_flag :: "u32 \<Rightarrow> u32 \<Rightarrow> bool" where
  "ts_flag flags f \<equiv> flags AND f \<noteq> 0"

abbreviation send64 :: "nat \<Rightarrow> 'z conn_scheme \<Rightarrow> 'z conn_scheme" where
  "send64 n \<equiv> send_all (le_bytes 8 (of_nat n :: u64))"

section \<open>Creating a snapshot\<close>

fun make_segs :: "nat \<Rightarrow> nat \<Rightarrow> (u64 \<times> u32) list \<Rightarrow> nat \<Rightarrow> fs_segment list" where
  "make_segs vlen step [] slot = []"
| "make_segs vlen step ((a, len) # gs) slot =
     (let ns = (if unat len \<ge> vlen then (unat len - vlen) div step + 1 else 0)
      in \<lparr>sg_addr = a, sg_slot_start = slot, sg_nslots = ns\<rparr> # make_segs vlen step gs (slot + ns))"

definition snap_summary :: "bool \<Rightarrow> nat \<Rightarrow> byte list" where
  "snap_summary ok n = le_bytes 4 (if ok then 1 else 0 :: u32) @ le_bytes 8 (of_nat n :: u64)"

definition snap_plan :: "nat \<Rightarrow> nat \<Rightarrow> byte list" where
  "snap_plan slots bytes = le_bytes 8 (of_nat slots :: u64) @ le_bytes 8 (of_nat bytes :: u64)"

record snap_job =
  jb_pid :: u32
  jb_vlen :: nat
  jb_step :: nat
  jb_chunk :: nat
  jb_zeros :: bool
  jb_force :: bool
  jb_use_file :: bool
  jb_ram_bytes :: nat
  jb_fd :: int
  jb_first :: "int option"
  jb_prev :: "int option"

record snap_acc =
  sa_bitmap :: ptr
  sa_ram :: ptr
  sa_surv :: nat
  sa_done :: nat
  sa_rbuf :: ptr
  sa_pbuf :: ptr
  sa_fail :: bool

definition pack_values :: "ptr \<Rightarrow> nat \<Rightarrow> ptr \<Rightarrow> nat \<Rightarrow> nat \<Rightarrow> nat \<Rightarrow> ptr" where
  \<comment> \<open>\<open>n\<close> values of \<open>src\<close>, a step apart, side by side from slot \<open>slot\<close> on\<close>
  "pack_values dst slot src step vlen n = fold (\<lambda>k d. blit d ((slot + k) * vlen) (bytes_at src (k * step) vlen)) [0..<n] dst"

definition keep_copy :: "('o, 'x) turbo_ops \<Rightarrow> int option \<Rightarrow> ptr \<Rightarrow> nat \<Rightarrow> nat \<Rightarrow> 'o \<Rightarrow> bool \<times> 'o" where
  "keep_copy P fd src len off w = (case fd of None \<Rightarrow> (True, w) | Some fd \<Rightarrow> fs_pwrite_all P fd src len off w)"

definition store_window :: "('o, 'x) turbo_ops \<Rightarrow> snap_job \<Rightarrow> nat \<Rightarrow> nat \<Rightarrow> snap_acc \<Rightarrow> 'o \<Rightarrow> bool \<times> snap_acc \<times> 'o" where
  \<comment> \<open>the values of the window in the read buffer go to the store and the copies\<close>
  "store_window P J gslot win a w =
     (let vlen = jb_vlen J; step = jb_step J; pbytes = win * vlen;
          a = (if (jb_use_file J \<or> jb_first J \<noteq> None \<or> jb_prev J \<noteq> None) \<and> step \<noteq> vlen
               then a\<lparr>sa_pbuf := pack_values (sa_pbuf a) 0 (sa_rbuf a) step vlen win\<rparr> else a);
          psrc = (if step = vlen then sa_rbuf a else sa_pbuf a);
          (ok, ram, w) = (if jb_use_file J then snap_store_write P (sa_ram a) (jb_ram_bytes J) (jb_fd J) psrc (gslot * vlen) pbytes w
                          else if step = vlen then (True, blit (sa_ram a) (gslot * vlen) (bytes_at (sa_rbuf a) 0 pbytes), w)
                          else (True, pack_values (sa_ram a) gslot (sa_rbuf a) step vlen win, w));
          a = a\<lparr>sa_ram := ram\<rparr>
      in if \<not> ok then (False, a, w)
         else let (ok, w) = keep_copy P (jb_first J) psrc pbytes (gslot * vlen) w in
           if \<not> ok then (False, a, w)
           else let (ok, w) = keep_copy P (jb_prev J) psrc pbytes (gslot * vlen) w in (ok, a, w))"

definition drop_zeros :: "snap_job \<Rightarrow> nat \<Rightarrow> nat \<Rightarrow> snap_acc \<Rightarrow> snap_acc" where
  "drop_zeros J gslot win a =
     (if jb_zeros J then a
      else fold (\<lambda>k a. if \<forall>b\<in>set (bytes_at (sa_rbuf a) (k * jb_step J) (jb_vlen J)). b = 0
                       then a\<lparr>sa_bitmap := fs_bm_clear (sa_bitmap a) (gslot + k), sa_surv := sa_surv a - 1\<rparr> else a) [0..<win] a)"

definition snap_window ::
    "reader \<Rightarrow> ('o, 'x) turbo_ops \<Rightarrow> snap_job \<Rightarrow> u64 \<Rightarrow> nat \<Rightarrow> nat \<Rightarrow> snap_acc \<times> 'o \<times> 'z conn_scheme \<Rightarrow> snap_acc \<times> 'o \<times> 'z conn_scheme" where
  "snap_window rd P J waddr gslot win = (\<lambda>(a, w, c).
     let wbytes = (win - 1) * jb_step J + jb_vlen J;
         a = a\<lparr>sa_rbuf := rd (jb_pid J) waddr wbytes (memset (sa_rbuf a) 0 0 wbytes)\<rparr>
     in if jb_force J then (a\<lparr>sa_fail := True\<rparr>, w, c)
        else let (ok, a, w) = store_window P J gslot win a w in
          if \<not> ok then (a\<lparr>sa_fail := True\<rparr>, w, c)
          else let a = drop_zeros J gslot win a; a = a\<lparr>sa_done := sa_done a + wbytes\<rparr>
               in (a, w, send64 (sa_done a) c))"

function snap_windows ::
    "reader \<Rightarrow> ('o, 'x) turbo_ops \<Rightarrow> snap_job \<Rightarrow> fs_segment \<Rightarrow> nat \<Rightarrow> snap_acc \<times> 'o \<times> 'z conn_scheme \<Rightarrow> snap_acc \<times> 'o \<times> 'z conn_scheme" where
  "snap_windows rd P J g s0 st =
     (if \<not> sa_fail (fst st) \<and> s0 < sg_nslots g then
        let win = jb_chunk J div jb_step J; win = (if win = 0 then 1 else win);
            win = (if s0 + win > sg_nslots g then sg_nslots g - s0 else win)
        in snap_windows rd P J g (s0 + win)
             (snap_window rd P J (sg_addr g + of_nat (s0 * jb_step J)) (sg_slot_start g + s0) win st)
      else st)"
  by pat_completeness auto
termination
  by (relation "measure (\<lambda>(_, _, _, g, s0, _). sg_nslots g - s0)") auto

declare snap_windows.simps [simp del]

definition TS_SNAP_BITMAP_MAX :: nat where "TS_SNAP_BITMAP_MAX = 448 * 2 ^ 20"

definition snap_alloc ::
    "('o, 'x) turbo_ops \<Rightarrow> nat \<Rightarrow> byte list \<Rightarrow> nat \<Rightarrow> bool \<Rightarrow> nat \<Rightarrow> 'o \<Rightarrow> (bool \<times> ptr option \<times> nat \<times> bool \<times> int) \<times> 'o" where
  \<comment> \<open>the value store: whether it could be had, memory and its size, whether a file is used and which\<close>
  "snap_alloc P cap path vlen packable snap_bytes w =
     (let (ram, w) = (if snap_bytes \<le> cap then o_mmap P snap_bytes w else (None, w)) in
      if ram \<noteq> None then ((True, ram, snap_bytes, False, -1), w)
      else let cache = (cap div vlen) * vlen;
               (ram, w) = (if snap_bytes > cap \<and> cap \<ge> vlen then o_mmap P cache w else (None, w));
               rb = (if ram = None then 0 else cache)
           in if \<not> packable then ((False, ram, rb, True, -1), w)
              else let (fd, w) = o_open P path w in ((fd \<ge> 0, ram, rb, True, fd), w))"

definition open_keep :: "('o, 'x) turbo_ops \<Rightarrow> bool \<Rightarrow> bool \<Rightarrow> byte list \<Rightarrow> 'o \<Rightarrow> int option \<times> 'o" where
  "open_keep P keep packable path w =
     (if keep \<and> packable then let (fd, w) = o_open P path w in (if fd < 0 then None else Some fd, w) else (None, w))"

definition drop_file :: "('o, 'x) turbo_ops \<Rightarrow> int \<Rightarrow> byte list \<Rightarrow> 'o \<Rightarrow> 'o" where
  "drop_file P fd path w = (if fd \<ge> 0 then o_unlink P path (o_close P fd w) else w)"

definition snap_fd_of :: "int option \<Rightarrow> int" where
  "snap_fd_of fd = (case fd of None \<Rightarrow> -1 | Some fd \<Rightarrow> fd)"

definition snap_fill ::
    "reader \<Rightarrow> ('o, 'x) turbo_ops \<Rightarrow> byte \<Rightarrow> cmd_proc_turboscan_start_packet \<Rightarrow> nat \<Rightarrow> nat \<Rightarrow> ptr \<Rightarrow> nat \<Rightarrow> ptr option \<Rightarrow>
      bool \<Rightarrow> bool \<Rightarrow> fs_segment list \<Rightarrow> nat \<Rightarrow> ('o, 'x) turbo \<times> 'z conn_scheme \<Rightarrow>
      (ptr option \<times> ptr option \<times> nat \<times> nat \<times> int \<times> int option \<times> int option \<times> bool) \<times> ('o, 'x) turbo \<times> 'z conn_scheme" where
  \<comment> \<open>bitmap, memory and its size, survivors, file, copies, and whether everything went well\<close>
  "snap_fill rd P idx sp vlen step read_buf chunk pack_buf kf kp seg slots = (\<lambda>(t, c).
     if slots = 0 then ((None, None, 0, slots, -1, None, None, True), t, c)
     else
       let dir = g_turboscan_spill_dir t; w = os t; packable = (step = vlen \<or> pack_buf \<noteq> None);
           (bm, w) = (if (slots + 7) div 8 > TS_SNAP_BITMAP_MAX then (None, w) else o_mmap P ((slots + 7) div 8) w);
           ((ok, ram, rb, file, fd), w) = (if bm = None then ((False, None, 0, False, -1), w)
              else snap_alloc P (g_turboscan_snap_ram_thresh t) (fs_snap_path dir idx) vlen packable (slots * vlen) w);
           (first, w) = (if ok then open_keep P kf packable (fs_first_path dir idx) w else (None, w));
           (prev, w) = (if ok then open_keep P kp packable (fs_prev_path dir idx) w else (None, w))
       in if \<not> ok then ((bm, ram, rb, slots, fd, first, prev, False), t\<lparr>os := w\<rparr>, c)
          else
            let J = \<lparr>jb_pid = tp_pid sp, jb_vlen = vlen, jb_step = step, jb_chunk = chunk, jb_zeros = ts_flag (tp_flags sp) 8,
                     jb_force = g_turboscan_snap_force_fail t, jb_use_file = file, jb_ram_bytes = rb, jb_fd = fd,
                     jb_first = first, jb_prev = prev\<rparr>;
                (a, w, c) = fold (\<lambda>g. snap_windows rd P J g 0) seg
                  (\<lparr>sa_bitmap = memset (the bm) 0 0xFF ((slots + 7) div 8), sa_ram = ptr_of ram, sa_surv = slots, sa_done = 0,
                    sa_rbuf = read_buf, sa_pbuf = ptr_of pack_buf, sa_fail = False\<rparr>, w, c)
            in ((Some (sa_bitmap a), map_option (\<lambda>_. sa_ram a) ram, rb, sa_surv a, fd, first, prev, \<not> sa_fail a), t\<lparr>os := w\<rparr>, c))"

definition fs_snapshot_create ::
    "reader \<Rightarrow> ('o, 'x) turbo_ops \<Rightarrow> byte \<Rightarrow> cmd_proc_turboscan_start_packet \<Rightarrow> nat \<Rightarrow> nat \<Rightarrow> ptr \<Rightarrow> nat \<Rightarrow> ptr option \<Rightarrow>
      (u64 \<times> u32) list \<Rightarrow> bool \<Rightarrow> bool \<Rightarrow> ('o, 'x) turbo \<times> 'z conn_scheme \<Rightarrow> ('o, 'x) turbo \<times> 'z conn_scheme" where
  "fs_snapshot_create rd P idx sp vlen step read_buf chunk pack_buf in_segs kf kp = (\<lambda>(t, c).
     let t = turboscan_session_free_idx P idx t in
     case malloc c of
       (None, c) \<Rightarrow> (t, send_all (snap_summary False 0) (send_all sentinel64 (send_all (snap_plan 0 0) c)))
     | (Some _, c) \<Rightarrow>
       let seg = make_segs vlen step in_segs 0;
           slots = sum_list (map sg_nslots seg);
           c = send_all (snap_plan slots (sum_list (map (\<lambda>(_, len). unat len) in_segs))) c;
           ((bm, ram, rb, surv, fd, first, prev, ok), t, c) =
             snap_fill rd P idx sp vlen step read_buf chunk pack_buf kf kp seg slots (t, c);
           c = send_all sentinel64 c; dir = g_turboscan_spill_dir t
       in if \<not> ok
          then (t\<lparr>os := drop_file P (snap_fd_of prev) (fs_prev_path dir idx) (drop_file P (snap_fd_of first) (fs_first_path dir idx)
                  (drop_file P fd (fs_snap_path dir idx) (os t)))\<rparr>, send_all (snap_summary False 0) c)
          else (set_sess idx (cleared_session\<lparr>ts_in_use := True, ts_mode := TS_MODE_SNAPSHOT, ts_bitmap := bm, ts_bitmap_bytes := (slots + 7) div 8,
                  ts_slot_count := slots, ts_survivors := surv, ts_base := sg_addr (hd seg), ts_stride := step, ts_snap_ram := ram,
                  ts_snap_fd := fd, ts_snap_bytes := rb, ts_first_fd := snap_fd_of first, ts_has_first := first \<noteq> None,
                  ts_prev_fd := snap_fd_of prev, ts_has_prev := prev \<noteq> None, ts_seg := seg, ts_value_length := vlen,
                  ts_pid := tp_pid sp, ts_valueType := tp_valueType sp\<rparr>) t, send_all (snap_summary True surv) c))"

section \<open>Rescanning\<close>

definition TS_RESCAN_GAP_MAX :: u64 where "TS_RESCAN_GAP_MAX = 0x8000"
definition TS_RESCAN_WIN_CAP :: u64 where "TS_RESCAN_WIN_CAP = 0x100000"
definition TS_RESCAN_ALIAS_MIN_WIN :: nat where "TS_RESCAN_ALIAS_MIN_WIN = 0x10000"

definition fs_rescan_window_read ::
    "reader \<Rightarrow> ('o, 'x) turbo_ops \<Rightarrow> u32 \<Rightarrow> u64 \<Rightarrow> nat \<Rightarrow> ptr \<Rightarrow> 'x option \<times> 'o \<Rightarrow> (ptr \<times> bool \<times> ptr) \<times> 'x option \<times> 'o" where
  \<comment> \<open>the window, whether it is mapped, and the read buffer\<close>
  "fs_rescan_window_read rd P pid start rsize mem_buf = (\<lambda>(actx, w).
     let (ap, actx, w) = (case actx of
           Some x \<Rightarrow> if rsize \<ge> TS_RESCAN_ALIAS_MIN_WIN then (let (ap, x, w) = o_alias_map P start rsize x w in (ap, Some x, w)) else (None, actx, w)
         | None \<Rightarrow> (None, actx, w))
     in case ap of Some p \<Rightarrow> ((p, True, mem_buf), actx, w)
       | None \<Rightarrow> let m = rd pid start rsize (memset mem_buf 0 0 rsize) in ((m, False, m), actx, w))"

definition alias_release :: "('o, 'x) turbo_ops \<Rightarrow> 'x option \<times> 'o \<Rightarrow> 'x option \<times> 'o" where
  "alias_release P = (\<lambda>(actx, w). case actx of None \<Rightarrow> (None, w) | Some x \<Rightarrow> let (x, w) = o_alias_release P x w in (Some x, w))"

definition ts_matched :: "bool \<Rightarrow> count_request \<Rightarrow> ptr \<Rightarrow> ptr option \<Rightarrow> bool" where
  "ts_matched turbo r m prev =
     (if turbo then scan_point_compare (cq_cmp r) (cq_val r) m (ptr_of (cq_pattern r)) (ptr_of prev)
      else proc_scan_compareValues (cq_cmp r) (cq_val r) (cq_vlen r) (ptr_of (cq_pattern r)) m prev (cq_mask r))"

lemma fs_next_set_gt: "i < n \<Longrightarrow> i \<le> fs_next_set bm i n \<and> fs_next_set bm i n \<le> n"
proof (induction bm i n rule: fs_next_set.induct)
  case (1 bm i n)
  let ?i = "if i mod 64 = 0 then skip_words bm i n else i"
  have "i \<le> ?i" using skip_words_ge by simp
  have "fs_next_set bm i n = (if ?i \<ge> n then n else if slot_set bm ?i then ?i else fs_next_set bm (?i + 1) n)"
    using 1(2) by (subst fs_next_set.simps) (simp add: Let_def)
  moreover have "fs_next_set bm (?i + 1) n = n" if "n \<le> ?i + 1" using that by (subst fs_next_set.simps) simp
  ultimately show ?case using 1 \<open>i \<le> ?i\<close> by (cases "?i + 1 < n") fastforce+
qed

lemma fs_next_set_le: "fs_next_set bm i n \<le> n"
  using fs_next_set_gt [of i n bm] by (cases "i < n") (auto simp: fs_next_set.simps [of bm i n])

lemma fs_next_set_later: "j < n \<Longrightarrow> j < fs_next_set bm (Suc j) n" "j \<le> k \<Longrightarrow> j < n \<Longrightarrow> j < fs_next_set bm (Suc k) n"
proof -
  have end_: "n \<le> i \<Longrightarrow> fs_next_set bm i n = n" for i by (subst fs_next_set.simps) simp
  then show "j < n \<Longrightarrow> j < fs_next_set bm (Suc j) n" using fs_next_set_gt [of "Suc j" n bm] by (cases "Suc j < n") auto
  show "j \<le> k \<Longrightarrow> j < n \<Longrightarrow> j < fs_next_set bm (Suc k) n" using fs_next_set_gt [of "Suc k" n bm] end_ by (cases "Suc k < n") auto
qed

text \<open>How far a window that starts with slot \<open>i\<close> reaches: its end and its last slot.\<close>

function rescan_extend :: "turboscan_session \<Rightarrow> ptr \<Rightarrow> nat \<Rightarrow> u64 \<Rightarrow> nat \<Rightarrow> u64 \<Rightarrow> nat \<Rightarrow> u64 \<times> nat" where
  "rescan_extend s bm vlen start j covered lst =
     (if j < ts_slot_count s then
        let na = fs_slot_addr s j; gap = (if na > covered then na - covered else 0); ne = na + of_nat vlen in
        if gap > TS_RESCAN_GAP_MAX then (covered, lst)
        else if ne - start > TS_RESCAN_WIN_CAP then (covered, lst)
        else rescan_extend s bm vlen start (fs_next_set bm (j + 1) (ts_slot_count s)) ne j
      else (covered, lst))"
  by pat_completeness auto
termination
  by (relation "measure (\<lambda>(s, _, _, _, j, _, _). ts_slot_count s - j)") (auto simp: fs_next_set_later diff_less_mono2)

declare rescan_extend.simps [simp del]

record rescan_acc =
  ra_bitmap :: ptr
  ra_bl :: ptr
  ra_dirty :: bool
  ra_surv :: nat

function rescan_slots :: "turboscan_session \<Rightarrow> bool \<Rightarrow> count_request \<Rightarrow> u64 \<Rightarrow> ptr \<Rightarrow> nat \<Rightarrow> nat \<Rightarrow> nat \<Rightarrow> rescan_acc \<Rightarrow> rescan_acc" where
  "rescan_slots s turbo r start win i lst k a =
     (if k \<le> lst \<and> k < ts_slot_count s then
        let m = shift win (unat (fs_slot_addr s k - start));
            base = shift (ra_bl a) ((k - i) * cq_vlen r);
            a = (if ts_matched turbo r m (if cq_prev r then Some base else cq_between r)
                 then a\<lparr>ra_bl := blit (ra_bl a) ((k - i) * cq_vlen r) (bytes_at m 0 (cq_vlen r)), ra_dirty := True, ra_surv := ra_surv a + 1\<rparr>
                 else a\<lparr>ra_bitmap := fs_bm_clear (ra_bitmap a) k\<rparr>)
        in rescan_slots s turbo r start win i lst (fs_next_set (ra_bitmap a) (k + 1) (ts_slot_count s)) a
      else a)"
  by pat_completeness auto
termination
  by (relation "measure (\<lambda>(s, _, _, _, _, _, _, k, _). ts_slot_count s - k)") (auto simp: fs_next_set_later diff_less_mono2)

declare rescan_slots.simps [simp del]

record rescan_run =
  rr_sess :: turboscan_session
  rr_mem :: ptr
  rr_blbuf :: ptr
  rr_surv :: nat
  rr_prog :: nat

definition rescan_window ::
    "reader \<Rightarrow> ('o, 'x) turbo_ops \<Rightarrow> bool \<Rightarrow> count_request \<Rightarrow> nat \<Rightarrow> nat \<Rightarrow> u64 \<Rightarrow> rescan_run \<Rightarrow> 'x option \<times> 'o \<Rightarrow> rescan_run \<times> 'x option \<times> 'o" where
  \<comment> \<open>the slots from \<open>i\<close> to \<open>lst\<close>, whose values end before \<open>covered\<close>\<close>
  "rescan_window rd P turbo r i lst covered R xw =
     (let s = rr_sess R; vlen = cq_vlen r; start = fs_slot_addr s i; rb = ts_snap_bytes s;
          ((win, aliased, mem), actx, w) = fs_rescan_window_read rd P (ts_pid s) start (unat (covered - start)) (rr_mem R) xw;
          off = i * vlen; len = (lst - i + 1) * vlen;
          buffered = (off + len > rb);
          (bl, w) = (if buffered then (let (_, bl, w) = snap_store_read P (ptr_of (ts_snap_ram s)) rb (ts_snap_fd s) (rr_blbuf R) off len w in (bl, w))
                     else (shift (ptr_of (ts_snap_ram s)) off, w));
          w = (if ts_has_prev s then snd (fs_pwrite_all P (ts_prev_fd s) bl len off w) else w);
          a = rescan_slots s turbo r start win i lst i \<lparr>ra_bitmap = ptr_of (ts_bitmap s), ra_bl = bl, ra_dirty = False, ra_surv = rr_surv R\<rparr>;
          (actx, w) = (if aliased then alias_release P (actx, w) else (actx, w));
          (ram, w) = (if buffered \<and> ra_dirty a
                      then (let (_, ram, w) = snap_store_write P (ptr_of (ts_snap_ram s)) rb (ts_snap_fd s) (ra_bl a) off len w in (ram, w))
                      else if buffered then (ptr_of (ts_snap_ram s), w)
                      else (blit (ptr_of (ts_snap_ram s)) off (bytes_at (ra_bl a) 0 len), w));
          s = s\<lparr>ts_bitmap := Some (ra_bitmap a), ts_snap_ram := map_option (\<lambda>_. ram) (ts_snap_ram s)\<rparr>
      in (R\<lparr>rr_sess := s, rr_mem := mem, rr_blbuf := if buffered then ra_bl a else rr_blbuf R, rr_surv := ra_surv a\<rparr>, actx, w))"

text \<open>The windows, from slot \<open>i\<close> on, with progress messages.\<close>

lemma rescan_extend_ge: "lst < j \<Longrightarrow> lst \<le> snd (rescan_extend s bm vlen start j covered lst)"
proof (induction s bm vlen start j covered lst rule: rescan_extend.induct)
  case (1 s bm vlen start j covered lst)
  let ?n = "ts_slot_count s"
  show ?case
  proof (cases "j < ?n")
    case True
    have nx: "j < fs_next_set bm (j + 1) ?n" using True by (simp add: fs_next_set_later)
    show ?thesis using "1.IH" [OF True refl refl refl _ _ nx] 1(2) True by (subst rescan_extend.simps) (auto simp: Let_def)
  qed (use 1(2) in \<open>subst rescan_extend.simps, simp\<close>)
qed

function rescan_windows ::
    "reader \<Rightarrow> ('o, 'x) turbo_ops \<Rightarrow> bool \<Rightarrow> count_request \<Rightarrow> nat \<Rightarrow> nat \<Rightarrow> nat \<Rightarrow> rescan_run \<Rightarrow> ('x option \<times> 'o) \<times> 'z conn_scheme
      \<Rightarrow> rescan_run \<times> ('x option \<times> 'o) \<times> 'z conn_scheme" where
  "rescan_windows rd P turbo r n prog_step i R st =
     (if i < n then
        let (xw, c) = st; s = rr_sess R; vlen = cq_vlen r;
            (R, c) = (if i \<ge> rr_prog R then (R\<lparr>rr_prog := i + prog_step\<rparr>, send64 i c) else (R, c));
            start = fs_slot_addr s i;
            (covered, lst) = rescan_extend s (ptr_of (ts_bitmap s)) vlen start (fs_next_set (ptr_of (ts_bitmap s)) (i + 1) n) (start + of_nat vlen) i;
            (R, xw) = rescan_window rd P turbo r i lst covered R xw
        in rescan_windows rd P turbo r n prog_step (fs_next_set (ptr_of (ts_bitmap (rr_sess R))) (max i lst + 1) n) R (xw, c)
      else (R, st))"
  by pat_completeness auto
termination
  by (relation "measure (\<lambda>(_, _, _, _, n, _, i, _, _). n - i)") (auto simp: fs_next_set_later(2) diff_less_mono2)

declare rescan_windows.simps [simp del]

definition fs_snapshot_rescan ::
    "reader \<Rightarrow> ('o, 'x) turbo_ops \<Rightarrow> turboscan_session \<Rightarrow> bool \<Rightarrow> count_request \<Rightarrow> ptr \<Rightarrow> ptr \<Rightarrow> ('x option \<times> 'o) \<times> 'z conn_scheme
      \<Rightarrow> (nat \<times> turboscan_session) \<times> ('x option \<times> 'o) \<times> 'z conn_scheme" where
  "fs_snapshot_rescan rd P s turbo r mem_buf bl_buf st =
     (if ts_bitmap s = None \<or> ts_slot_count s = 0 then ((0, s\<lparr>ts_survivors := 0\<rparr>), st)
      else let n = ts_slot_count s; prog_step = (if n div 256 = 0 then 1 else n div 256);
               (R, st) = rescan_windows rd P turbo r n prog_step (fs_next_set (ptr_of (ts_bitmap s)) 0 n)
                 \<lparr>rr_sess = s, rr_mem = mem_buf, rr_blbuf = bl_buf, rr_surv = 0, rr_prog = prog_step\<rparr> st
           in ((rr_surv R, (rr_sess R)\<lparr>ts_survivors := rr_surv R\<rparr>), st))"

section \<open>Fetching survivors\<close>

definition add_entry :: "nat \<Rightarrow> byte list \<Rightarrow> byte list \<times> 'z conn_scheme \<Rightarrow> byte list \<times> 'z conn_scheme" where
  \<comment> \<open>entries go out in blocks that fit the buffer\<close>
  "add_entry cap e = (\<lambda>(pend, c).
     let (pend, c) = (if length pend + length e > cap then ([], send_all pend c) else (pend, c)) in (pend @ e, c))"

definition flush_entries :: "byte list \<times> 'z conn_scheme \<Rightarrow> 'z conn_scheme" where
  "flush_entries = (\<lambda>(pend, c). if pend \<noteq> [] then send_all pend c else c)"

text \<open>An entry is built in place in the output buffer, whose old bytes stay where a read fails;
  \<open>old\<close> is the buffer from the entry on.\<close>

definition snap_entry :: "('o, 'x) turbo_ops \<Rightarrow> turboscan_session \<Rightarrow> nat \<Rightarrow> ptr \<Rightarrow> 'o \<Rightarrow> byte list \<times> 'o" where
  "snap_entry P s i old w =
     (let vlen = ts_value_length s;
          (_, cur, w) = snap_store_read P (ptr_of (ts_snap_ram s)) (ts_snap_bytes s) (ts_snap_fd s) (shift old 8) (i * vlen) vlen w;
          (prev, w) = (if ts_has_prev s then (let (_, p, w) = fs_pread_all P (ts_prev_fd s) (shift old (8 + vlen)) vlen (i * vlen) w in (p, w)) else (cur, w));
          (first, w) = (if ts_has_first s then (let (_, p, w) = fs_pread_all P (ts_first_fd s) (shift old (8 + 2 * vlen)) vlen (i * vlen) w in (bytes_at p 0 vlen, w)) else ([], w))
      in (le_bytes 8 (fs_slot_addr s i) @ bytes_at cur 0 vlen @ bytes_at prev 0 vlen @ first, w))"

function snap_get_loop ::
    "('o, 'x) turbo_ops \<Rightarrow> turboscan_session \<Rightarrow> nat \<Rightarrow> nat \<Rightarrow> nat \<Rightarrow> nat \<Rightarrow> nat \<Rightarrow> nat \<Rightarrow> ptr \<Rightarrow> 'o \<Rightarrow> byte list \<times> 'z conn_scheme
      \<Rightarrow> 'o \<times> byte list \<times> 'z conn_scheme" where
  "snap_get_loop P s start actual cap i seen emitted out_buf w st =
     (if i < ts_slot_count s \<and> emitted < actual then
        let nxt = fs_next_set (ptr_of (ts_bitmap s)) (i + 1) (ts_slot_count s) in
        if seen < start then snap_get_loop P s start actual cap nxt (seen + 1) emitted out_buf w st
        else let ent = 8 + ts_value_length s * (if ts_has_first s then 3 else 2);
                 at = (if length (fst st) + ent > cap then 0 else length (fst st));
                 (e, w) = snap_entry P s i (shift out_buf at) w
             in snap_get_loop P s start actual cap nxt (seen + 1) (emitted + 1) (blit out_buf at e) w (add_entry cap e st)
      else (w, st))"
  by pat_completeness auto
termination
  by (relation "measure (\<lambda>(_, s, _, _, _, i, _). ts_slot_count s - i)") (auto simp: fs_next_set_later diff_less_mono2)

declare snap_get_loop.simps [simp del]

definition fs_snapshot_get ::
    "('o, 'x) turbo_ops \<Rightarrow> turboscan_session \<Rightarrow> u32 \<Rightarrow> u32 \<Rightarrow> ptr \<Rightarrow> nat \<Rightarrow> 'o \<times> 'z conn_scheme \<Rightarrow> 'o \<times> 'z conn_scheme" where
  "fs_snapshot_get P s start count out_buf cap = (\<lambda>(w, c).
     let actual = (if unat start < ts_survivors s then min (unat count) (ts_survivors s - unat start) else 0);
         c = send_all (le_bytes 4 ((of_nat actual :: u32) OR (if ts_has_first s then 0x80000000 else 0))) c
     in if actual = 0 \<or> ts_bitmap s = None then (w, c)
        else let (w, st) = snap_get_loop P s (unat start) actual cap (fs_next_set (ptr_of (ts_bitmap s)) 0 (ts_slot_count s)) 0 0 out_buf w ([], c)
             in (w, flush_entries st))"

section \<open>From a snapshot to a list\<close>

definition list_rec_size :: "turboscan_session \<Rightarrow> nat" where
  "list_rec_size s = 8 + ts_value_length s * (1 + (if ts_has_prev s then 1 else 0) + (if ts_has_first s then 1 else 0))"

definition read_value :: "('o, 'x) turbo_ops \<Rightarrow> int \<Rightarrow> nat \<Rightarrow> nat \<Rightarrow> 'o \<Rightarrow> byte list option \<times> 'o" where
  \<comment> \<open>one value from a file\<close>
  "read_value P fd vlen off w = (let (ok, p, w) = fs_pread_all P fd (\<lambda>_. 0) vlen off w in (if ok then Some (bytes_at p 0 vlen) else None, w))"

definition list_record :: "('o, 'x) turbo_ops \<Rightarrow> turboscan_session \<Rightarrow> nat \<Rightarrow> 'o \<Rightarrow> byte list option \<times> 'o" where
  "list_record P s i w =
     (let vlen = ts_value_length s; voff = i * vlen; rb = ts_snap_bytes s;
          (val, w) = (if voff \<ge> rb then read_value P (ts_snap_fd s) vlen (voff - rb) w else (Some (bytes_at (ptr_of (ts_snap_ram s)) voff vlen), w))
      in case val of None \<Rightarrow> (None, w)
       | Some val \<Rightarrow>
         let (prev, w) = (if ts_has_prev s then read_value P (ts_prev_fd s) vlen voff w else (Some [], w)) in
         (case prev of None \<Rightarrow> (None, w)
          | Some prev \<Rightarrow>
            let (first, w) = (if ts_has_first s then read_value P (ts_first_fd s) vlen voff w else (Some [], w)) in
            (map_option (\<lambda>first. le_bytes 8 (fs_slot_addr s i) @ val @ prev @ first) first, w)))"

function materialize_loop :: "('o, 'x) turbo_ops \<Rightarrow> turboscan_session \<Rightarrow> nat \<Rightarrow> nat \<Rightarrow> nat \<Rightarrow> ptr \<Rightarrow> 'o \<Rightarrow> (nat \<times> ptr) option \<times> 'o" where
  \<comment> \<open>\<open>k\<close> records are written; \<open>None\<close> where a value could not be read\<close>
  "materialize_loop P s records i k recs w =
     (if i < ts_slot_count s \<and> k < records then
        (case list_record P s i w of
           (None, w) \<Rightarrow> (None, w)
         | (Some e, w) \<Rightarrow> materialize_loop P s records (fs_next_set (ptr_of (ts_bitmap s)) (i + 1) (ts_slot_count s)) (k + 1)
                            (blit recs (k * list_rec_size s) e) w)
      else (Some (k, recs), w))"
  by pat_completeness auto
termination
  by (relation "measure (\<lambda>(_, _, records, _, k, _, _). records - k)") auto

declare materialize_loop.simps [simp del]

definition fs_snapshot_materialize ::
    "('o, 'x) turbo_ops \<Rightarrow> byte list \<Rightarrow> byte \<Rightarrow> turboscan_session \<Rightarrow> 'o \<Rightarrow> turboscan_session \<times> 'o" where
  "fs_snapshot_materialize P dir idx s w =
     (let rec_size = list_rec_size s; records = ts_survivors s; bytes = records * rec_size in
      if records = 0 \<or> bytes > TS_RESIDENT_CAP then (s, w)
      else case o_mmap P bytes w of
        (None, w) \<Rightarrow> (s, w)
      | (Some buf, w) \<Rightarrow>
        (case materialize_loop P s records (fs_next_set (ptr_of (ts_bitmap s)) 0 (ts_slot_count s)) 0 buf w of
           (None, w) \<Rightarrow> (s, w)
         | (Some (k, recs), w) \<Rightarrow>
             let w = close_pos P (ts_prev_fd s) (close_pos P (ts_first_fd s) (close_pos P (ts_snap_fd s) w));
                 w = o_unlink P (fs_snap_path dir idx) w;
                 w = (if ts_has_first s then o_unlink P (fs_first_path dir idx) w else w);
                 w = (if ts_has_prev s then o_unlink P (fs_prev_path dir idx) w else w)
             in (cleared_session\<lparr>ts_in_use := True, ts_mode := TS_MODE_LIST, ts_buf := Some recs, ts_buf_cap := bytes, ts_count := k,
                   ts_rec_size := rec_size, ts_value_length := ts_value_length s, ts_pid := ts_pid s, ts_valueType := ts_valueType s,
                   ts_has_first := ts_has_first s, ts_first_fd := -1, ts_has_prev := ts_has_prev s, ts_prev_fd := -1\<rparr>, w)))"

end
