(* ===== verification/TurboScan.thy ===== *)
theory TurboScan
  imports TurboSnap
begin

text \<open>
  Scanning in \<^verbatim>\<open>debugger/source/scan_turbo.c\<close>: the pass over a range, whose matches are streamed to the
  client or kept in its session, the same pass on two threads, and the command that starts a scan.
  The threads share only what none of them changes, so that running one after the other gives the
  same result. The probe of the page tables before them only fills a cache and is left out.
\<close>

section \<open>One pass over a range\<close>

text \<open>Where matches go: to a session if there is one, else to the stream of runs.\<close>

type_synonym 'z sink = "bool \<times> turboscan_session option \<times> byte list \<times> 'z conn_scheme"

definition emit :: "scan_request \<Rightarrow> nat \<Rightarrow> u64 \<Rightarrow> ptr \<Rightarrow> 'z sink \<Rightarrow> 'z sink" where
  \<comment> \<open>the match at \<open>a\<close>, with its value at \<open>v\<close>; \<open>False\<close> once a session is full\<close>
  "emit r thr a v = (\<lambda>(ok, so, pend, c).
     if \<not> ok then (ok, so, pend, c)
     else case so of
       Some s \<Rightarrow>
         if (ts_count s + 1) * ts_rec_size s > ts_buf_cap s then (False, so, pend, c)
         else (True, Some (s\<lparr>ts_buf := map_option (\<lambda>b. blit b (ts_count s * ts_rec_size s) (le_bytes 8 a @ bytes_at v 0 (rq_vlen r))) (ts_buf s),
                             ts_count := ts_count s + 1\<rparr>), pend, c)
     | None \<Rightarrow> let (pend, c) = add_result thr (le_bytes 4 (ucast (a - rq_address r) :: u32) @ bytes_at v 0 (rq_vlen r)) (pend, c)
               in (True, None, pend, c))"

definition pass_window :: "scan_request \<Rightarrow> nat option \<Rightarrow> nat \<Rightarrow> u64 \<Rightarrow> ptr \<Rightarrow> nat \<Rightarrow> 'z sink \<Rightarrow> 'z sink" where
  \<comment> \<open>\<open>simd\<close> is the size of the offset buffer where the vector search is used\<close>
  "pass_window r simd thr addr src to_read st = (case simd of
       Some mx \<Rightarrow>
         let (nm, offs) = scan_simd_find_exact (rq_val r) src to_read (ptr_of (rq_pattern r)) (of_nat (rq_vlen r)) mx
         in fold (\<lambda>k. emit r thr (addr + ucast (offs ! k)) (shift src (unat (offs ! k)))) [0..<nm] st
     | None \<Rightarrow>
         let limit = (if to_read \<ge> rq_vlen r then to_read - rq_vlen r else 0)
         in grid_loop (\<lambda>j st. if rq_match r (shift src j) then emit r thr (addr + of_nat j) (shift src j) st else st) (rq_step r) 0 limit 0 st)"

definition pass_read ::
    "reader \<Rightarrow> ('o, 'x) turbo_ops \<Rightarrow> u32 \<Rightarrow> u64 \<Rightarrow> nat \<Rightarrow> ptr \<Rightarrow> 'x option \<times> 'o \<Rightarrow> (ptr \<times> bool \<times> ptr) \<times> 'x option \<times> 'o" where
  \<comment> \<open>the bytes of a window, whether they are mapped, and the read buffer\<close>
  "pass_read rd P pid addr to_read read_buf = (\<lambda>(actx, w).
     let (ap, actx, w) = (case actx of
           Some x \<Rightarrow> (let (ap, x, w) = o_alias_map P addr to_read x w in (ap, Some x, w))
         | None \<Rightarrow> (None, None, w))
     in case ap of Some p \<Rightarrow> ((p, True, read_buf), actx, w)
       | None \<Rightarrow> let b = rd pid addr to_read (memset read_buf 0 0 to_read) in ((b, False, b), actx, w))"

function pass_windows ::
    "reader \<Rightarrow> ('o, 'x) turbo_ops \<Rightarrow> scan_request \<Rightarrow> nat option \<Rightarrow> nat \<Rightarrow> nat \<Rightarrow> ptr \<Rightarrow> u64 \<Rightarrow> nat \<Rightarrow> 'z sink \<times> 'x option \<times> 'o \<Rightarrow> 'z sink \<times> 'x option \<times> 'o" where
  "pass_windows rd P r simd chunk thr read_buf addr remaining st =
     (if remaining > 0 \<and> 0 < chunk \<and> fst (fst st) then
        let (k, xw) = st;
            to_read = (if remaining > chunk then chunk else remaining);
            ((src, aliased, read_buf), xw) = pass_read rd P (rq_pid r) addr to_read read_buf xw;
            k = pass_window r simd thr addr src to_read k;
            xw = (if aliased then alias_release P xw else xw);
            advance = window_advance to_read (rq_step r) (rq_vlen r)
        in pass_windows rd P r simd chunk thr read_buf (addr + of_nat advance) (if remaining > advance then remaining - advance else 0) (k, xw)
      else st)"
  by pat_completeness auto
termination
  by (relation "measure (\<lambda>(_, _, _, _, _, _, _, _, remaining, _). remaining)") (auto simp: window_advance_def Let_def)

declare pass_windows.simps [simp del]

definition turboscan_scan_pass_range ::
    "reader \<Rightarrow> ('o, 'x) turbo_ops \<Rightarrow> scan_request \<Rightarrow> u64 \<Rightarrow> nat \<Rightarrow> nat option \<Rightarrow> nat \<Rightarrow> ptr \<Rightarrow> turboscan_session option \<Rightarrow> ('x option \<times> 'o) \<times> 'z conn_scheme
      \<Rightarrow> (bool \<times> turboscan_session option) \<times> ('x option \<times> 'o) \<times> 'z conn_scheme" where
  "turboscan_scan_pass_range rd P r scan_addr scan_len simd chunk read_buf so = (\<lambda>(xw, c).
     let ((ok, so, pend, c), xw) = pass_windows rd P r simd chunk (sub64 0x3FFE8 (rq_vlen r)) read_buf scan_addr scan_len ((True, so, [], c), xw)
     in ((ok, so), xw, if ok \<and> so = None then flush_results (pend, c) else c))"

section \<open>Two threads\<close>

definition TS_PAR_RESULT_CAP :: nat where "TS_PAR_RESULT_CAP = 8 * 2 ^ 20"
definition TS_PAR_ARENA :: nat where "TS_PAR_ARENA = 16 * 2 ^ 20"

record 'x fs_par_worker =
  pw_off :: nat
  pw_len :: nat
  pw_read :: "ptr option"
  pw_offs :: "ptr option"
  pw_buf :: "ptr option"
  pw_actx :: "'x option"

definition make_par_worker :: "('o, 'x) turbo_ops \<Rightarrow> u32 \<Rightarrow> nat \<Rightarrow> nat \<Rightarrow> 'o \<times> 'z conn_scheme \<Rightarrow> 'x fs_par_worker \<times> 'o \<times> 'z conn_scheme" where
  "make_par_worker P pid off len = (\<lambda>(w, c).
     let (rb, c) = malloc c; (so, c) = malloc c; (buf, c) = malloc c; (x, w) = o_alias_begin P pid TS_PAR_ARENA w
     in (\<lparr>pw_off = off, pw_len = len, pw_read = rb, pw_offs = so, pw_buf = buf, pw_actx = x\<rparr>, w, c))"

definition worker_session :: "nat \<Rightarrow> ptr option \<Rightarrow> turboscan_session" where
  "worker_session vlen buf = cleared_session\<lparr>ts_buf := buf, ts_buf_cap := TS_PAR_RESULT_CAP, ts_rec_size := 8 + vlen, ts_value_length := vlen\<rparr>"

definition fs_par_thread ::
    "reader \<Rightarrow> ('o, 'x) turbo_ops \<Rightarrow> scan_request \<Rightarrow> nat option \<Rightarrow> nat \<Rightarrow> 'x fs_par_worker \<Rightarrow> 'o \<times> 'z conn_scheme
      \<Rightarrow> (bool \<times> turboscan_session \<times> 'x option) \<times> 'o \<times> 'z conn_scheme" where
  \<comment> \<open>nothing is sent: matches go to the worker's session\<close>
  "fs_par_thread rd P r simd chunk u = (\<lambda>(w, c).
     let ((ok, so), (x, w), c) = turboscan_scan_pass_range rd P r (rq_address r + of_nat (pw_off u)) (pw_len u) simd chunk
           (ptr_of (pw_read u)) (Some (worker_session (rq_vlen r) (pw_buf u))) ((pw_actx u, w), c)
     in ((ok, the so, x), w, c))"

definition session_record :: "turboscan_session \<Rightarrow> nat \<Rightarrow> u64 \<times> byte list" where
  "session_record s k = (ld64 (shift (ptr_of (ts_buf s)) (k * ts_rec_size s)),
     bytes_at (ptr_of (ts_buf s)) (k * ts_rec_size s + 8) (ts_value_length s))"

definition worker_results :: "scan_request \<Rightarrow> nat \<Rightarrow> turboscan_session \<Rightarrow> byte list \<times> 'z conn_scheme \<Rightarrow> byte list \<times> 'z conn_scheme" where
  "worker_results r thr s = fold (\<lambda>k. case session_record s k of (a, v) \<Rightarrow>
     add_result thr (le_bytes 4 (ucast (a - rq_address r) :: u32) @ v)) [0..<ts_count s]"

fun run_par_workers ::
    "reader \<Rightarrow> ('o, 'x) turbo_ops \<Rightarrow> scan_request \<Rightarrow> nat option \<Rightarrow> nat \<Rightarrow> 'x fs_par_worker list \<Rightarrow> 'o \<times> 'z conn_scheme
      \<Rightarrow> (bool \<times> turboscan_session \<times> 'x option) list \<times> 'o \<times> 'z conn_scheme" where
  "run_par_workers rd P r simd chunk [] st = ([], st)"
| "run_par_workers rd P r simd chunk (u # us) st =
     (let (q, st) = fs_par_thread rd P r simd chunk u st; (qs, st) = run_par_workers rd P r simd chunk us st in (q # qs, st))"

fun make_par_workers :: "('o, 'x) turbo_ops \<Rightarrow> u32 \<Rightarrow> nat \<Rightarrow> nat \<Rightarrow> nat list \<Rightarrow> 'o \<times> 'z conn_scheme \<Rightarrow> 'x fs_par_worker list \<times> 'o \<times> 'z conn_scheme" where
  "make_par_workers P pid len span [] st = ([], st)"
| "make_par_workers P pid len span (i # js) st =
     (let off = i * span; (u, st) = make_par_worker P pid off (if off + span \<le> len then span else len - off) st;
          (us, st) = make_par_workers P pid len span js st in (u # us, st))"

definition end_aliases :: "('o, 'x) turbo_ops \<Rightarrow> 'x option list \<Rightarrow> 'o \<Rightarrow> 'o" where
  "end_aliases P xs = fold (\<lambda>x w. case x of None \<Rightarrow> w | Some x \<Rightarrow> o_alias_end P x w) xs"

definition par_span :: "nat \<Rightarrow> nat \<Rightarrow> nat" where
  "par_span len vlen = (((len + 1) div 2 + vlen - 1) div vlen) * vlen"

definition turboscan_parallel_stream ::
    "reader \<Rightarrow> ('o, 'x) turbo_ops \<Rightarrow> u32 \<Rightarrow> scan_request \<Rightarrow> nat \<Rightarrow> nat option \<Rightarrow> nat \<Rightarrow> 'x option \<Rightarrow> 'o \<times> 'z conn_scheme \<Rightarrow> bool \<times> 'o \<times> 'z conn_scheme" where
  "turboscan_parallel_stream rd P flags r len simd chunk actx = (\<lambda>(w, c).
     let vlen = rq_vlen r; span = par_span len vlen; nw = (len + span - 1) div span in
     if \<not> ts_flag flags 0x80 \<or> simd = None \<or> actx = None \<or> len < vlen * 2 \<or> span = 0 \<or> nw \<le> 1 \<or> nw > 2 then (False, w, c)
     else case malloc c of
       (None, c) \<Rightarrow> (False, w, c)
     | (Some _, c) \<Rightarrow>
       let (us, w, c) = make_par_workers P (rq_pid r) len span [0..<nw] (w, c) in
       if \<exists>u\<in>set us. pw_read u = None \<or> pw_offs u = None \<or> pw_buf u = None \<or> pw_actx u = None
       then (False, end_aliases P (map pw_actx us) w, c)
       else
         let (qs, w, c) = run_par_workers rd P r simd chunk us (w, c); xs = map (\<lambda>(_, _, x). x) qs in
         if \<exists>q\<in>set qs. \<not> fst q then (False, end_aliases P xs w, c)
         else case malloc c of
           (None, c) \<Rightarrow> (False, end_aliases P xs w, c)
         | (Some _, c) \<Rightarrow>
             (True, end_aliases P xs w,
              flush_results (fold (\<lambda>(_, s, _). worker_results r (sub64 0x3FFE8 vlen) s) qs ([], c))))"

section \<open>Starting a scan\<close>

definition turbo_request :: "cmd_proc_turboscan_start_packet \<Rightarrow> nat \<Rightarrow> ptr option \<Rightarrow> ptr option \<Rightarrow> scan_request" where
  "turbo_request sp value_length pattern mk =
     \<lparr>rq_pid = tp_pid sp, rq_address = tp_address sp, rq_cmp = tp_compareType sp, rq_val = tp_valueType sp, rq_vlen = value_length,
      rq_step = (if tp_alignment sp \<noteq> 0 then unat (tp_alignment sp) else value_length), rq_pattern = pattern,
      rq_prev = (if tp_compareType sp = 4 then Some (shift (ptr_of pattern) value_length) else None), rq_mask = mk\<rparr>"

function drain_bytes :: "nat \<Rightarrow> nat \<Rightarrow> ptr \<Rightarrow> 'z conn_scheme \<Rightarrow> 'z conn_scheme" where
  "drain_bytes chunk togo buf c =
     (if togo > 0 \<and> chunk > 0 then
        let n = (if togo < chunk then togo else chunk); (buf, c) = recv_all buf (int n) c in drain_bytes chunk (togo - n) buf c
      else c)"
  by pat_completeness auto
termination
  by (relation "measure (\<lambda>(_, togo, _, _). togo)") auto

declare drain_bytes.simps [simp del]

definition TS_SNAP_MAX_SEGS :: nat where "TS_SNAP_MAX_SEGS = 2 ^ 20"

definition read_segs :: "ptr \<Rightarrow> nat \<Rightarrow> (u64 \<times> u32) list" where
  "read_segs p n = map (\<lambda>k. (ld64 (shift p (12 * k)), ld32 (shift p (12 * k + 8)))) [0..<n]"

definition recv_segments :: "nat \<Rightarrow> ptr \<Rightarrow> 'z conn_scheme \<Rightarrow> (u64 \<times> u32) list option \<times> 'z conn_scheme" where
  "recv_segments chunk read_buf c =
     (let (p, c) = recv_all (\<lambda>_. 0) 4 c; nseg = unat (ld32 p) in
      if nseg \<ge> 1 \<and> nseg \<le> TS_SNAP_MAX_SEGS then
        (case malloc c of
           (Some q, c) \<Rightarrow> let (q, c) = recv_all q (int (nseg * 12)) c in (Some (read_segs q nseg), c)
         | (None, c) \<Rightarrow> (None, drain_bytes chunk (nseg * 12) read_buf c))
      else (None, c))"

definition TS_SNAP_IO_CHUNK :: nat where "TS_SNAP_IO_CHUNK = 16 * 2 ^ 20"

definition start_snapshot ::
    "reader \<Rightarrow> ('o, 'x) turbo_ops \<Rightarrow> byte \<Rightarrow> cmd_proc_turboscan_start_packet \<Rightarrow> nat \<Rightarrow> nat \<Rightarrow> ptr \<Rightarrow> nat \<Rightarrow> ('o, 'x) turbo \<times> 'z conn_scheme \<Rightarrow> ('o, 'x) turbo \<times> 'z conn_scheme" where
  "start_snapshot rd P idx sp vlen step read_buf chunk = (\<lambda>(t, c).
     let (segs, c) = (if ts_flag (tp_flags sp) 0x10 then recv_segments chunk read_buf c else (Some [(tp_address sp, tp_length sp)], c)) in
     case segs of
       Some segs \<Rightarrow>
         if vlen > 8 \<or> vlen = 0 then (t, send_all (snap_summary False 0) (send_all sentinel64 (send_all (snap_plan 0 0) c)))
         else
           let kf = ts_flag (tp_flags sp) 0x20; kp = ts_flag (tp_flags sp) 0x40;
               io = (TS_SNAP_IO_CHUNK div vlen) * vlen;
               (rbuf, t) = on_os (o_mmap P io) t; (pbuf, t) = on_os (o_mmap P io) t
           in (case (rbuf, pbuf) of
                 (Some rb, Some pb) \<Rightarrow> fs_snapshot_create rd P idx sp vlen step rb io (Some pb) segs kf kp (t, c)
               | _ \<Rightarrow> let (pk, c) = net_alloc_buffer chunk c
                      in fs_snapshot_create rd P idx sp vlen step read_buf chunk pk segs kf kp (t, c))
     | None \<Rightarrow> (t, send_all (snap_summary False 0) (send_all sentinel64 (send_all (snap_plan 0 0) c))))"

definition resident_summary :: "bool \<Rightarrow> nat \<Rightarrow> byte list" where
  "resident_summary stored n = le_bytes 4 (if stored then 1 else 0 :: u32) @ le_bytes 8 (of_nat n :: u64)"

fun resident_pass ::
    "reader \<Rightarrow> ('o, 'x) turbo_ops \<Rightarrow> scan_request \<Rightarrow> nat option \<Rightarrow> nat \<Rightarrow> ptr \<Rightarrow> (u64 \<times> u32) list \<Rightarrow> turboscan_session \<Rightarrow> ('x option \<times> 'o) \<times> 'z conn_scheme
      \<Rightarrow> (bool \<times> turboscan_session) \<times> ('x option \<times> 'o) \<times> 'z conn_scheme" where
  "resident_pass rd P r simd chunk read_buf [] s st = ((True, s), st)"
| "resident_pass rd P r simd chunk read_buf ((a, len) # gs) s st =
     (let ((ok, so), st) = turboscan_scan_pass_range rd P r a (unat len) simd chunk read_buf (Some s) st in
      if \<not> ok then ((False, the so), st) else resident_pass rd P r simd chunk read_buf gs (the so) st)"

definition put_alias :: "byte \<Rightarrow> 'x option \<Rightarrow> ('o, 'x) turbo \<Rightarrow> ('o, 'x) turbo" where
  \<comment> \<open>the context in use is the one of the slot\<close>
  "put_alias idx actx t = (case actx of None \<Rightarrow> t | Some _ \<Rightarrow> t\<lparr>g_turboscan_alias := (g_turboscan_alias t)[unat idx := actx]\<rparr>)"

definition start_resident ::
    "reader \<Rightarrow> ('o, 'x) turbo_ops \<Rightarrow> byte \<Rightarrow> cmd_proc_turboscan_start_packet \<Rightarrow> scan_request \<Rightarrow> nat option \<Rightarrow> nat \<Rightarrow> ptr \<Rightarrow> (u64 \<times> u32) list option \<Rightarrow> 'x option
      \<Rightarrow> ('o, 'x) turbo \<times> 'z conn_scheme \<Rightarrow> bool \<times> 'x option \<times> ('o, 'x) turbo \<times> 'z conn_scheme" where
  \<comment> \<open>whether the matches are kept in the session\<close>
  "start_resident rd P idx sp r simd chunk read_buf segs actx = (\<lambda>(t, c).
     let (have, t) = (if rq_vlen r \<le> 0x1000 \<and> segs \<noteq> None then fs_session_alloc P idx (tp_pid sp) (tp_valueType sp) (rq_vlen r) t else (False, t));
         ((stored, s), (actx, w), c) = (if have then resident_pass rd P r simd chunk read_buf (the segs) (sess_at idx t) ((actx, os t), c)
                                        else ((False, sess_at idx t), (actx, os t), c));
         t = (if have then set_sess idx s (t\<lparr>os := w\<rparr>) else t)
     in if stored then (True, actx, t, send_all (resident_summary True (ts_count s)) c)
        else (False, actx, turboscan_session_free_idx P idx t, send_all (resident_summary False 0) c))"

definition finish_scan :: "('o, 'x) turbo_ops \<Rightarrow> byte \<Rightarrow> 'x option \<Rightarrow> ('o, 'x) turbo \<times> 'z conn_scheme \<Rightarrow> int \<times> ('o, 'x) turbo \<times> 'z conn_scheme" where
  "finish_scan P idx actx = (\<lambda>(t, c).
     let (actx, w) = alias_release P (actx, os t) in (0, put_alias idx actx (t\<lparr>os := w\<rparr>), send_int32 CMD_SUCCESS c))"

definition start_stream ::
    "reader \<Rightarrow> ('o, 'x) turbo_ops \<Rightarrow> cmd_proc_turboscan_start_packet \<Rightarrow> scan_request \<Rightarrow> nat option \<Rightarrow> nat \<Rightarrow> ptr \<Rightarrow> 'x option
      \<Rightarrow> ('o, 'x) turbo \<times> 'z conn_scheme \<Rightarrow> 'x option \<times> ('o, 'x) turbo \<times> 'z conn_scheme" where
  "start_stream rd P sp r simd chunk read_buf actx = (\<lambda>(t, c).
     let (handled, w, c) = turboscan_parallel_stream rd P (tp_flags sp) r (unat (tp_length sp)) simd chunk actx (os t, c);
         ((actx, w), c) = (if handled then ((actx, w), c)
            else snd (turboscan_scan_pass_range rd P r (tp_address sp) (unat (tp_length sp)) simd chunk read_buf None ((actx, w), c)))
     in (actx, t\<lparr>os := w\<rparr>, send_all sentinel64 c))"

definition start_scan ::
    "reader \<Rightarrow> ('o, 'x) turbo_ops \<Rightarrow> byte \<Rightarrow> cmd_proc_turboscan_start_packet \<Rightarrow> scan_request \<Rightarrow> nat option \<Rightarrow> nat \<Rightarrow> ptr
      \<Rightarrow> ('o, 'x) turbo \<times> 'z conn_scheme \<Rightarrow> int \<times> ('o, 'x) turbo \<times> 'z conn_scheme" where
  \<comment> \<open>after the second acknowledgement, for a scan that is no snapshot\<close>
  "start_scan rd P idx sp r simd chunk read_buf = (\<lambda>(t, c).
     let (actx, t) = (if ts_flag (tp_flags sp) 1 then turboscan_alias_acquire P idx (tp_pid sp) t else (None, t));
         resident = ts_flag (tp_flags sp) 2; use_segments = (resident \<and> ts_flag (tp_flags sp) 0x10);
         (segs, c) = (if use_segments then recv_segments chunk read_buf c else (Some [(tp_address sp, tp_length sp)], c));
         (stored, actx, t, c) = (if resident then start_resident rd P idx sp r simd chunk read_buf segs actx (t, c) else (False, actx, t, c))
     in if stored then finish_scan P idx actx (t, c)
        else if use_segments then finish_scan P idx actx (t, send_all sentinel64 c)
        else let (actx, t, c) = start_stream rd P sp r simd chunk read_buf actx (t, c) in finish_scan P idx actx (t, c))"

definition turbo_needs_value :: "cmd_proc_turboscan_start_packet \<Rightarrow> bool" where
  "turbo_needs_value sp \<longleftrightarrow> bit (0x114F :: u32) (unat (tp_compareType sp)) \<or> tp_compareType sp = 4"

definition turbo_simd :: "cmd_proc_turboscan_start_packet \<Rightarrow> scan_request \<Rightarrow> nat \<Rightarrow> 'z conn_scheme \<Rightarrow> nat option \<times> 'z conn_scheme" where
  "turbo_simd sp r chunk c =
     (if tp_compareType sp = 0 \<and> tp_valueType sp \<noteq> 10 \<and> rq_step r = rq_vlen r \<and> rq_pattern r \<noteq> None
      then let mx = chunk div rq_vlen r; (b, c) = net_alloc_buffer (mx * 4) c in (if b = None then None else Some mx, c)
      else (None, c))"

definition proc_turboscan_start_handle ::
    "reader \<Rightarrow> ('o, 'x) turbo_ops \<Rightarrow> cmd_packet \<Rightarrow> byte \<Rightarrow> ('o, 'x) turbo \<times> 'z auth_scheme \<Rightarrow> int \<times> ('o, 'x) turbo \<times> 'z auth_scheme" where
  "proc_turboscan_start_handle rd P packet idx = (\<lambda>(t, c).
     if \<not> auth_granted c then (1, t, send_int32 CMD_DATA_NULL c)
     else case data packet of
       None \<Rightarrow> (1, t, send_int32 CMD_DATA_NULL c)
     | Some dp \<Rightarrow>
       let sp = turboscan_start_packet dp; want_snapshot = ts_flag (tp_flags sp) 4 in
       if tp_compareType sp > 12 \<or> tp_lenData sp = 0 \<and> \<not> want_snapshot then (1, t, send_int32 CMD_DATA_NULL c)
       else
         let wants = (turbo_needs_value sp \<and> tp_lenData sp \<noteq> 0);
             arr = (tp_valueType sp = 10);
             vlen = proc_scan_getSizeOfValueType (tp_valueType sp);
             vlen = (if vlen = 0 then unat (tp_lenData sp) else vlen)
         in if vlen = 0 then (1, t, send_int32 CMD_DATA_NULL c)
            else
              let (pattern, c) = (if wants then net_alloc_buffer (unat (tp_lenData sp)) c else (None, c)) in
              if wants \<and> pattern = None then (1, t, send_int32 CMD_DATA_NULL c)
              else
                let c = send_int32 CMD_SUCCESS c;
                    (pattern, c) = recv_opt pattern (c_int (tp_lenData sp)) c;
                    (mk, c) = (if arr then net_alloc_buffer vlen c else (None, c))
                in if arr \<and> mk = None then (1, t, send_int32 CMD_DATA_NULL c)
                   else
                     let (mk, c) = recv_opt mk (c_int (of_nat vlen)) c;
                         r = turbo_request sp vlen pattern mk;
                         chunk = window_size vlen;
                         (read_buf, c) = net_alloc_buffer chunk c;
                         (result_buf, c) = net_alloc_buffer 0x40000 c;
                         (simd, c) = turbo_simd sp r chunk c
                     in if read_buf = None \<or> result_buf = None then (1, t, send_int32 CMD_DATA_NULL c)
                        else
                          let c = send_int32 CMD_SUCCESS c in
                          if want_snapshot
                          then let (t, c) = start_snapshot rd P idx sp vlen (rq_step r) (the read_buf) chunk (t, c)
                               in (0, t, send_int32 CMD_SUCCESS c)
                          else start_scan rd P idx sp r simd chunk (the read_buf) (t, c))"

end
