(* ===== verification/TurboHandlers.thy ===== *)
theory TurboHandlers
  imports TurboScan
begin

text \<open>
  The other commands of \<^verbatim>\<open>debugger/source/scan_turbo.c\<close>: rescanning a session or candidates the client
  sends, fetching the survivors of a session, ending it, and the small commands.
\<close>

section \<open>A read window that follows the candidates\<close>

text \<open>Candidates are given by their number and addresses. A window starts at a candidate and covers
  the following ones while gaps are short and the window is not too long.\<close>

function ts_extend :: "(nat \<Rightarrow> u64) \<Rightarrow> nat \<Rightarrow> nat \<Rightarrow> u64 \<Rightarrow> nat \<Rightarrow> u64 \<Rightarrow> u64" where
  "ts_extend A vlen n start k covered =
     (if k < n then
        let na = A k; gap = (if na > covered then na - covered else 0); ne = na + of_nat vlen in
        if gap > TS_RESCAN_GAP_MAX then covered
        else if ne - start > TS_RESCAN_WIN_CAP then covered
        else ts_extend A vlen n start (k + 1) (if ne > covered then ne else covered)
      else covered)"
  by pat_completeness auto
termination
  by (relation "measure (\<lambda>(_, _, n, _, k, _). n - k)") auto

declare ts_extend.simps [simp del]

record ts_window =
  tw_start :: u64
  tw_end :: u64
  tw_base :: ptr
  tw_aliased :: bool
  tw_mem :: ptr

definition ts_ensure ::
    "reader \<Rightarrow> ('o, 'x) turbo_ops \<Rightarrow> u32 \<Rightarrow> (nat \<Rightarrow> u64) \<Rightarrow> nat \<Rightarrow> nat \<Rightarrow> nat \<Rightarrow> ts_window \<times> 'x option \<times> 'o \<Rightarrow> ts_window \<times> 'x option \<times> 'o" where
  "ts_ensure rd P pid A vlen n i = (\<lambda>(win, xw).
     let addr = A i in
     if addr < tw_start win \<or> addr + of_nat vlen > tw_end win then
       let rsize = unat (ts_extend A vlen n addr (i + 1) (addr + of_nat vlen) - addr);
           xw = (if tw_aliased win then alias_release P xw else xw);
           ((base, aliased, mem), xw) = fs_rescan_window_read rd P pid addr rsize (tw_mem win) xw
       in (\<lparr>tw_start = addr, tw_end = addr + of_nat rsize, tw_base = base, tw_aliased = aliased, tw_mem = mem\<rparr>, xw)
     else (win, xw))"

definition ts_at :: "ts_window \<Rightarrow> u64 \<Rightarrow> ptr" where
  "ts_at win addr = shift (tw_base win) (unat (addr - tw_start win))"

definition first_window :: "ptr \<Rightarrow> ts_window" where
  "first_window mem_buf = \<lparr>tw_start = 0, tw_end = 0, tw_base = mem_buf, tw_aliased = False, tw_mem = mem_buf\<rparr>"

definition end_window :: "('o, 'x) turbo_ops \<Rightarrow> ts_window \<times> 'x option \<times> 'o \<Rightarrow> 'x option \<times> 'o" where
  "end_window P = (\<lambda>(win, xw). if tw_aliased win then alias_release P xw else xw)"

section \<open>Rescanning a list\<close>

definition rec_addr :: "turboscan_session \<Rightarrow> ptr \<Rightarrow> nat \<Rightarrow> u64" where
  "rec_addr s recs k = ld64 (shift recs (k * ts_rec_size s))"

text \<open>The record of a survivor: address, current value, and where they are kept the value of the scan
  before and the first one. It is written over an earlier record, the addresses of the following
  ones are still to be read.\<close>

definition new_record :: "turboscan_session \<Rightarrow> ptr \<Rightarrow> u64 \<Rightarrow> ptr \<Rightarrow> byte list" where
  "new_record s rcd addr m =
     (let vlen = ts_value_length s; first_off = 8 + vlen + (if ts_has_prev s then vlen else 0) in
      le_bytes 8 addr @ bytes_at m 0 vlen @ (if ts_has_prev s then bytes_at rcd 8 vlen else []) @
      (if ts_has_first s then bytes_at rcd first_off vlen else []))"

definition list_rescan_entry ::
    "reader \<Rightarrow> ('o, 'x) turbo_ops \<Rightarrow> turboscan_session \<Rightarrow> bool \<Rightarrow> count_request \<Rightarrow> nat \<Rightarrow> (nat \<times> ptr) \<times> ts_window \<times> 'x option \<times> 'o
      \<Rightarrow> (nat \<times> ptr) \<times> ts_window \<times> 'x option \<times> 'o" where
  "list_rescan_entry rd P s turbo r i = (\<lambda>((cnt, recs), wst).
     let addr = rec_addr s recs i; rcd = shift recs (i * ts_rec_size s);
         wst = ts_ensure rd P (ts_pid s) (rec_addr s recs) (cq_vlen r) (ts_count s) i wst;
         m = ts_at (fst wst) addr
     in (if ts_matched turbo r m (if cq_prev r then Some (shift rcd 8) else cq_between r)
         then (cnt + 1, blit recs (cnt * ts_rec_size s) (new_record s rcd addr m)) else (cnt, recs), wst))"

definition list_rescan ::
    "reader \<Rightarrow> ('o, 'x) turbo_ops \<Rightarrow> turboscan_session \<Rightarrow> bool \<Rightarrow> count_request \<Rightarrow> ptr \<Rightarrow> 'x option \<times> 'o \<Rightarrow> turboscan_session \<times> 'x option \<times> 'o" where
  "list_rescan rd P s turbo r mem_buf xw =
     (let ((cnt, recs), wst) = fold (list_rescan_entry rd P s turbo r) [0..<ts_count s] ((0, ptr_of (ts_buf s)), first_window mem_buf, xw)
      in (s\<lparr>ts_buf := Some recs, ts_count := cnt\<rparr>, end_window P wst))"

section \<open>The rescan command\<close>

record cmd_proc_turboscan_count_packet =
  tc_pid :: u32
  tc_base_address :: u64
  tc_valueType :: byte
  tc_compareType :: byte
  tc_lenData :: u32
  tc_flags :: u32

definition turboscan_count_packet :: "ptr \<Rightarrow> cmd_proc_turboscan_count_packet" where
  "turboscan_count_packet p = \<lparr>tc_pid = ld32 p, tc_base_address = ld64 (shift p 4), tc_valueType = ld8 (shift p 12),
     tc_compareType = ld8 (shift p 13), tc_lenData = ld32 (shift p 14), tc_flags = ld32 (shift p 18)\<rparr>"

definition TS_MATERIALIZE_DENSITY :: nat where "TS_MATERIALIZE_DENSITY = 32"

definition count_alias :: "('o, 'x) turbo_ops \<Rightarrow> byte \<Rightarrow> u32 \<Rightarrow> u32 \<Rightarrow> ('o, 'x) turbo \<Rightarrow> 'x option \<times> ('o, 'x) turbo" where
  "count_alias P idx flags pid t = (if ts_flag flags 0x100 then turboscan_alias_acquire P idx pid t else (None, t))"

definition count_snapshot ::
    "reader \<Rightarrow> ('o, 'x) turbo_ops \<Rightarrow> byte \<Rightarrow> u32 \<Rightarrow> bool \<Rightarrow> count_request \<Rightarrow> ptr \<Rightarrow> ('o, 'x) turbo \<times> 'z conn_scheme \<Rightarrow> nat \<times> ('o, 'x) turbo \<times> 'z conn_scheme" where
  "count_snapshot rd P idx flags turbo r mem_buf = (\<lambda>(t, c).
     let (bl_buf, c) = net_alloc_buffer 0x100000 c;
         s = sess_at idx t; (actx, t) = count_alias P idx flags (ts_pid s) t
     in if ts_value_length s \<noteq> cq_vlen r \<or> bl_buf = None then (ts_survivors s, t, c)
        else
          let ((nc, s), (actx, w), c) = fs_snapshot_rescan rd P s turbo r mem_buf (the bl_buf) ((actx, os t), c);
              (s, w) = (if nc > 0 \<and> nc \<le> g_turboscan_materialize_max t \<and> nc * TS_MATERIALIZE_DENSITY \<le> ts_slot_count s
                           \<and> nc * list_rec_size s \<le> TS_RESIDENT_CAP
                        then fs_snapshot_materialize P (g_turboscan_spill_dir t) idx s w else (s, w))
          in (nc, put_alias idx actx (set_sess idx s (t\<lparr>os := w\<rparr>)), c))"

definition count_list ::
    "reader \<Rightarrow> ('o, 'x) turbo_ops \<Rightarrow> byte \<Rightarrow> u32 \<Rightarrow> bool \<Rightarrow> count_request \<Rightarrow> ptr \<Rightarrow> ('o, 'x) turbo \<Rightarrow> nat \<times> ('o, 'x) turbo" where
  "count_list rd P idx flags turbo r mem_buf t =
     (if unat idx \<ge> TS_MAX_CLIENTS \<or> \<not> ts_in_use (sess_at idx t) then (0, t)
      else let s = sess_at idx t in
        if ts_buf s \<noteq> None \<and> ts_value_length s = cq_vlen r
        then let (actx, t) = count_alias P idx flags (ts_pid s) t;
                 (s, actx, w) = list_rescan rd P s turbo r mem_buf (actx, os t)
             in (ts_count s, put_alias idx actx (set_sess idx s (t\<lparr>os := w\<rparr>)))
        else (ts_count s, t))"

text \<open>Candidates sent by the client, chunk by chunk.\<close>

definition turbo_count_entry ::
    "reader \<Rightarrow> ('o, 'x) turbo_ops \<Rightarrow> bool \<Rightarrow> count_request \<Rightarrow> ptr \<Rightarrow> nat \<Rightarrow> nat \<Rightarrow> (ts_window \<times> 'x option \<times> 'o) \<times> byte list \<times> 'z conn_scheme
      \<Rightarrow> (ts_window \<times> 'x option \<times> 'o) \<times> byte list \<times> 'z conn_scheme" where
  "turbo_count_entry rd P turbo r chunk_buf n k = (\<lambda>(wst, st).
     let A = (\<lambda>k. entry_addr r chunk_buf (k * cq_entry r)); off = k * cq_entry r;
         wst = ts_ensure rd P (cq_pid r) A (cq_vlen r) n k wst;
         m = ts_at (fst wst) (A k)
     in (wst, if ts_matched turbo r m (if cq_prev r then Some (shift chunk_buf (off + 4)) else cq_between r)
              then add_result (sub64 0x3FFE8 (2 * cq_vlen r)) (bytes_at chunk_buf off 4 @ bytes_at m 0 (cq_vlen r)) st
              else st))"

definition turbo_count_chunk ::
    "reader \<Rightarrow> ('o, 'x) turbo_ops \<Rightarrow> bool \<Rightarrow> count_request \<Rightarrow> ptr \<Rightarrow> nat \<Rightarrow> ptr \<Rightarrow> ('x option \<times> 'o) \<times> 'z conn_scheme \<Rightarrow> ptr \<times> ('x option \<times> 'o) \<times> 'z conn_scheme" where
  "turbo_count_chunk rd P turbo r chunk_buf chunk_len mem_buf = (\<lambda>(xw, c).
     let n = chunk_len div cq_entry r;
         (wst, st) = fold (turbo_count_entry rd P turbo r chunk_buf n) [0..<n] ((first_window mem_buf, xw), [], c)
     in (tw_mem (fst wst), end_window P wst, send_all sentinel64 (flush_results st)))"

partial_function (option) turbo_count_chunks ::
    "reader \<Rightarrow> ('o, 'x) turbo_ops \<Rightarrow> bool \<Rightarrow> count_request \<Rightarrow> ptr \<Rightarrow> ptr \<Rightarrow> ('x option \<times> 'o) \<times> 'z conn_scheme \<Rightarrow> (('x option \<times> 'o) \<times> 'z conn_scheme) option" where
  "turbo_count_chunks rd P turbo r chunk_buf mem_buf st =
     (case st of (xw, c) \<Rightarrow>
      let (hdr, c) = recv_all (\<lambda>_. 0) 4 c; chunk_len = ld32 hdr in
      if chunk_len = 0xFFFFFFFF then Some (xw, c)
      else if chunk_len = 0 then turbo_count_chunks rd P turbo r chunk_buf mem_buf (xw, send_all sentinel64 c)
      else if chunk_len > 0x40000 then Some (xw, c)
      else let (chunk_buf, c) = recv_all chunk_buf (c_int chunk_len) c;
               (mem_buf, xw, c) = turbo_count_chunk rd P turbo r chunk_buf (unat chunk_len) mem_buf (xw, c)
           in turbo_count_chunks rd P turbo r chunk_buf mem_buf (xw, c))"

definition turbo_count_request :: "cmd_proc_turboscan_count_packet \<Rightarrow> nat \<Rightarrow> ptr option \<Rightarrow> ptr option \<Rightarrow> count_request" where
  "turbo_count_request cp value_length pattern mk =
     (let includes_prev = (g_cmptype_needs_previous ! unat (tc_compareType cp) \<noteq> 0) in
      \<lparr>cq_pid = tc_pid cp, cq_base = tc_base_address cp, cq_cmp = tc_compareType cp, cq_val = tc_valueType cp,
       cq_vlen = value_length, cq_prev = includes_prev, cq_entry = (if includes_prev then 4 + value_length else 4),
       cq_pattern = pattern,
       cq_between = (if tc_compareType cp = 4 \<and> pattern \<noteq> None \<and> unat (tc_lenData cp) \<ge> 2 * value_length
                     then Some (shift (ptr_of pattern) value_length) else None),
       cq_mask = mk\<rparr>)"

definition turbo_count_run ::
    "reader \<Rightarrow> ('o, 'x) turbo_ops \<Rightarrow> byte \<Rightarrow> cmd_proc_turboscan_count_packet \<Rightarrow> bool \<Rightarrow> count_request \<Rightarrow> ptr \<Rightarrow> ptr
      \<Rightarrow> ('o, 'x) turbo \<times> 'z conn_scheme \<Rightarrow> (('o, 'x) turbo \<times> 'z conn_scheme) option" where
  \<comment> \<open>after the pattern has been received\<close>
  "turbo_count_run rd P idx cp turbo r chunk_buf mem_buf = (\<lambda>(t, c).
     if ts_flag (tc_flags cp) 2 then
       if unat idx < TS_MAX_CLIENTS \<and> ts_in_use (sess_at idx t) \<and> ts_mode (sess_at idx t) = TS_MODE_SNAPSHOT
       then let (nc, t, c) = count_snapshot rd P idx (tc_flags cp) turbo r mem_buf (t, c)
            in Some (t, send64 nc (send_all sentinel64 c))
       else let (nc, t) = count_list rd P idx (tc_flags cp) turbo r mem_buf t
            in Some (t, send64 nc (send_all sentinel64 c))
     else let (actx, t) = count_alias P idx (tc_flags cp) (tc_pid cp) t
          in map_option (\<lambda>((actx, w), c). (put_alias idx actx (t\<lparr>os := w\<rparr>), c))
               (turbo_count_chunks rd P turbo r chunk_buf mem_buf ((actx, os t), c)))"

definition proc_turboscan_count_handle ::
    "reader \<Rightarrow> ('o, 'x) turbo_ops \<Rightarrow> cmd_packet \<Rightarrow> byte \<Rightarrow> ('o, 'x) turbo \<times> 'z auth_scheme \<Rightarrow> (int \<times> ('o, 'x) turbo \<times> 'z auth_scheme) option" where
  "proc_turboscan_count_handle rd P packet idx = (\<lambda>(t, c).
     if \<not> auth_granted c then Some (1, t, send_int32 CMD_DATA_NULL c)
     else case data packet of
       None \<Rightarrow> Some (1, t, send_int32 CMD_DATA_NULL c)
     | Some dp \<Rightarrow>
       let cp = turboscan_count_packet dp in
       if tc_compareType cp > 12 then Some (1, t, send_int32 CMD_DATA_NULL c)
       else
         let needs = (g_cmptype_needs_value ! unat (tc_compareType cp) \<noteq> 0 \<or> g_cmptype_needs_extra ! unat (tc_compareType cp) \<noteq> 0);
             arr = (tc_valueType cp = 10);
             vlen = proc_scan_getSizeOfValueType (tc_valueType cp);
             vlen = (if vlen = 0 then unat (tc_lenData cp) else vlen);
             wants = (needs \<and> tc_lenData cp \<noteq> 0)
         in if vlen = 0 \<or> vlen > 0x1000 then Some (1, t, send_int32 CMD_DATA_NULL c)
            else
              let turbo = scan_point_turbo_supported (tc_compareType cp) (tc_valueType cp);
                  (pattern, c) = (if wants then net_alloc_buffer (unat (tc_lenData cp)) c else (None, c))
              in if wants \<and> pattern = None then Some (1, t, send_int32 CMD_DATA_NULL c)
                 else
                   let (mk, c) = (if arr then net_alloc_buffer vlen c else (None, c)) in
                   if arr \<and> mk = None then Some (1, t, send_int32 CMD_DATA_NULL c)
                   else
                     let (bs, c) = alloc_all [0x40000, 0x40000, 0x100000] c in
                     if None \<in> set bs then Some (1, t, send_int32 CMD_DATA_NULL c)
                     else
                       let c = send_int32 CMD_SUCCESS c;
                           (pattern, c) = recv_opt pattern (c_int (tc_lenData cp)) c;
                           (mk, c) = recv_opt mk (c_int (of_nat vlen)) c
                       in map_option (\<lambda>(t, c). (0, t, send_int32 CMD_SUCCESS c))
                            (turbo_count_run rd P idx cp turbo (turbo_count_request cp vlen pattern mk) (the (bs ! 0)) (the (bs ! 2)) (t, c)))"

section \<open>Fetching survivors\<close>

record cmd_proc_turboscan_get_packet =
  tg_start_index :: u32
  tg_count :: u32

definition turboscan_get_packet :: "ptr \<Rightarrow> cmd_proc_turboscan_get_packet" where
  "turboscan_get_packet p = \<lparr>tg_start_index = ld32 p, tg_count = ld32 (shift p 4)\<rparr>"

definition list_entry :: "turboscan_session \<Rightarrow> nat \<Rightarrow> byte list" where
  "list_entry s i =
     (let vlen = ts_value_length s; rcd = shift (ptr_of (ts_buf s)) (i * ts_rec_size s);
          prev_off = (if ts_has_prev s then 8 + vlen else 8);
          first_off = 8 + vlen + (if ts_has_prev s then vlen else 0)
      in bytes_at rcd 0 8 @ bytes_at rcd 8 vlen @ bytes_at rcd prev_off vlen @ (if ts_has_first s then bytes_at rcd first_off vlen else []))"

definition get_list :: "turboscan_session \<Rightarrow> u32 \<Rightarrow> u32 \<Rightarrow> 'z conn_scheme \<Rightarrow> 'z conn_scheme" where
  "get_list s start_index count c =
     (let total = ts_count s;
          start = (if unat start_index > total then total else unat start_index);
          fin = start + unat count; fin = (if fin > total then total else fin);
          c = send_all (le_bytes 4 ((of_nat (fin - start) :: u32) OR (if ts_has_first s then 0x80000000 else 0))) (send_int32 CMD_SUCCESS c)
      in flush_entries (fold (\<lambda>i. add_entry 0x40000 (list_entry s i)) [start..<fin] ([], c)))"

definition proc_turboscan_get_handle ::
    "('o, 'x) turbo_ops \<Rightarrow> cmd_packet \<Rightarrow> byte \<Rightarrow> ('o, 'x) turbo \<times> 'z auth_scheme \<Rightarrow> int \<times> ('o, 'x) turbo \<times> 'z auth_scheme" where
  "proc_turboscan_get_handle P packet idx = (\<lambda>(t, c).
     if \<not> auth_granted c then (1, t, send_int32 CMD_DATA_NULL c)
     else case data packet of
       None \<Rightarrow> (1, t, send_int32 CMD_DATA_NULL c)
     | Some dp \<Rightarrow>
       let gp = turboscan_get_packet dp; s = sess_at idx t in
       if unat idx \<ge> TS_MAX_CLIENTS \<or> \<not> ts_in_use s \<or> ts_mode s = TS_MODE_LIST \<and> ts_buf s = None
       then (0, t, send_int32 CMD_SUCCESS (send_all (le_bytes 4 (0 :: u32)) (send_int32 CMD_SUCCESS c)))
       else case net_alloc_buffer 0x40000 c of
         (None, c) \<Rightarrow> (1, t, send_int32 CMD_DATA_NULL c)
       | (Some out_buf, c) \<Rightarrow>
         if ts_mode s = TS_MODE_SNAPSHOT
         then let (w, c) = fs_snapshot_get P s (tg_start_index gp) (tg_count gp) out_buf 0x40000 (os t, send_int32 CMD_SUCCESS c)
              in (0, t\<lparr>os := w\<rparr>, send_int32 CMD_SUCCESS c)
         else (0, t, send_int32 CMD_SUCCESS (get_list s (tg_start_index gp) (tg_count gp) c)))"

definition proc_turboscan_end_handle ::
    "('o, 'x) turbo_ops \<Rightarrow> byte \<Rightarrow> ('o, 'x) turbo \<times> 'z auth_scheme \<Rightarrow> int \<times> ('o, 'x) turbo \<times> 'z auth_scheme" where
  "proc_turboscan_end_handle P idx = (\<lambda>(t, c).
     if \<not> auth_granted c then (1, t, send_int32 CMD_DATA_NULL c)
     else (0, turboscan_session_free_idx P idx t, send_int32 CMD_SUCCESS c))"

section \<open>Settings and capabilities\<close>

definition proc_turboscan_config_handle :: "cmd_packet \<Rightarrow> ('o, 'x) turbo \<times> 'z auth_scheme \<Rightarrow> int \<times> ('o, 'x) turbo \<times> 'z auth_scheme" where
  "proc_turboscan_config_handle packet = (\<lambda>(t, c).
     if \<not> auth_granted c then (1, t, send_int32 CMD_DATA_NULL c)
     else case data packet of
       None \<Rightarrow> (1, t, send_int32 CMD_DATA_NULL c)
     | Some p \<Rightarrow>
       if unat (datalen packet) < 8 then (1, t, send_int32 CMD_DATA_NULL c)
       else
         let mb = ld32 p; plen = unat (ld32 (shift p 4)) in
         if plen > 63 \<or> 8 + plen > unat (datalen packet) then (1, t, send_int32 CMD_DATA_NULL c)
         else (0, t\<lparr>g_turboscan_snap_ram_thresh := if mb \<noteq> 0 then unat mb * 2 ^ 20 else TS_SNAP_RAM_DEFAULT,
                     g_turboscan_spill_dir := bytes_at p 8 plen @ [0] @ drop (plen + 1) (g_turboscan_spill_dir t)\<rparr>, send_int32 CMD_SUCCESS c))"

definition proc_turboscan_caps_handle :: "'z conn_scheme \<Rightarrow> int \<times> 'z conn_scheme" where
  "proc_turboscan_caps_handle c =
     (0, send_all (le_bytes 4 (1 :: u32) @ le_bytes 4 (0x1 OR 0x4 OR 0x8 OR 0x10 OR 0x20 OR 0x40 OR 0x80 OR 0x2 OR 0x100 OR 0x200 :: u32)
           @ le_bytes 4 (4 :: u32) @ le_bytes 4 (0 :: u32)) (send_int32 CMD_SUCCESS c))"

end
