(* ===== verification/TurboStoreProps.thy ===== *)
theory TurboStoreProps
  imports TurboHandlers
begin

text \<open>
  The containers of the turbo scanner: the bitmap of survivors as a sorted list of slots, the
  addresses of slots, and the value store that is split between memory and a file.
\<close>

section \<open>The bitmap\<close>

lemma bytes_at_Nil [simp]: "bytes_at p off n = [] \<longleftrightarrow> n = 0"
  using length_bytes_at [of p off n] by (cases n) (auto simp del: length_bytes_at)

text \<open>The slots below \<open>n\<close>, from \<open>i\<close> on, whose bit is set.\<close>

definition slots_from :: "ptr \<Rightarrow> nat \<Rightarrow> nat \<Rightarrow> nat list" where
  "slots_from bm i n = filter (slot_set bm) [i..<n]"

lemma slots_from_Nil [simp]: "n \<le> i \<Longrightarrow> slots_from bm i n = []"
  by (simp add: slots_from_def)

lemma slots_from_Cons: "i < n \<Longrightarrow> slots_from bm i n = (if slot_set bm i then [i] else []) @ slots_from bm (Suc i) n"
  by (simp add: slots_from_def upt_conv_Cons)

lemma slots_from_skip: "i \<le> j \<Longrightarrow> (\<And>k. i \<le> k \<Longrightarrow> k < j \<Longrightarrow> k < n \<Longrightarrow> \<not> slot_set bm k) \<Longrightarrow> slots_from bm i n = slots_from bm j n"
proof (cases "j \<le> n")
  case True
  assume a: "i \<le> j" "\<And>k. i \<le> k \<Longrightarrow> k < j \<Longrightarrow> k < n \<Longrightarrow> \<not> slot_set bm k"
  have "filter (slot_set bm) [i..<j] = []" using a True by (auto simp: filter_empty_conv)
  then show ?thesis using upt_split [OF a(1) True] by (simp add: slots_from_def)
next
  case False
  assume a: "i \<le> j" "\<And>k. i \<le> k \<Longrightarrow> k < j \<Longrightarrow> k < n \<Longrightarrow> \<not> slot_set bm k"
  then show ?thesis using False by (auto simp: slots_from_def filter_empty_conv)
qed

lemma set_slots_from [simp]: "set (slots_from bm i n) = {k. i \<le> k \<and> k < n \<and> slot_set bm k}"
  by (auto simp: slots_from_def)

lemma sorted_slots_from [simp]: "sorted (slots_from bm i n)" "distinct (slots_from bm i n)"
  by (simp_all add: slots_from_def sorted_wrt_filter)

lemma slot_set_word:
  assumes "ld64 (shift bm (i div 8)) = 0" "8 dvd i" "i \<le> k" "k < i + 64"
  shows "\<not> slot_set bm k"
proof -
  have "bm (i div 8 + j) = 0" if "j < 8" for j
  proof -
    have "(0 :: u64) = le_load 8 (\<lambda>_. 0)" by (simp add: le_simps)
    then have "shift bm (i div 8) j = (\<lambda>_. 0) j" using assms(1) that
      using le_load_eq_iff [where 'a = 64, of 8 "shift bm (i div 8)" "\<lambda>_. 0"] by auto
    then show ?thesis by simp
  qed
  moreover have "k div 8 - i div 8 < 8" "i div 8 \<le> k div 8" using assms by (auto elim!: dvdE)
  ultimately have "bm (k div 8) = 0" using le_add_diff_inverse [of "i div 8" "k div 8"] by metis
  then show ?thesis by (simp add: slot_set_def)
qed

lemma skip_words_clear: "8 dvd i \<Longrightarrow> i \<le> k \<Longrightarrow> k < skip_words bm i n \<Longrightarrow> \<not> slot_set bm k"
proof (induction bm i n rule: skip_words.induct)
  case (1 bm i n)
  show ?case
  proof (cases "i + 64 \<le> n \<and> ld64 (shift bm (i div 8)) = 0")
    case True
    then have "skip_words bm i n = skip_words bm (i + 64) n" by (subst skip_words.simps) simp
    then show ?thesis using 1 True slot_set_word [of bm i k] by (cases "k < i + 64") (auto simp: dvd_add)
  next
    case False
    then have "skip_words bm i n = i" by (subst skip_words.simps) auto
    then show ?thesis using 1 by simp
  qed
qed

lemma fs_next_set_slots:
  "slots_from bm i n = (let j = fs_next_set bm i n in if j < n then j # slots_from bm (Suc j) n else [])"
proof (induction bm i n rule: fs_next_set.induct)
  case (1 bm i n)
  show ?case
  proof (cases "i < n")
    case True
    define i' where "i' = (if i mod 64 = 0 then skip_words bm i n else i)"
    have le: "i \<le> i'" using skip_words_ge by (simp add: i'_def)
    have "8 dvd i" if "i mod 64 = 0" using that by (auto elim!: dvdE simp: mod_eq_0_iff_dvd)
    then have clear: "\<not> slot_set bm k" if "i \<le> k" "k < i'" for k
      using that skip_words_clear [of i k bm n] by (auto simp: i'_def split: if_splits)
    have eq: "slots_from bm i n = slots_from bm i' n" using le clear by (rule slots_from_skip)
    have nx: "fs_next_set bm i n = (if i' \<ge> n then n else if slot_set bm i' then i' else fs_next_set bm (i' + 1) n)"
      using True by (subst fs_next_set.simps) (simp add: Let_def i'_def)
    show ?thesis
    proof (cases "n \<le> i' \<or> slot_set bm i'")
      case True
      then show ?thesis using eq nx by (auto simp: Let_def slots_from_Cons)
    next
      case False
      then have "slots_from bm i' n = slots_from bm (i' + 1) n" by (simp add: slots_from_Cons)
      then show ?thesis using eq nx False 1 [OF True i'_def] by (simp add: Let_def)
    qed
  next
    case False
    then show ?thesis by (subst fs_next_set.simps) simp
  qed
qed

lemma fs_next_set_Cons: "slots_from bm i n = j # ks \<Longrightarrow> fs_next_set bm i n = j \<and> j < n \<and> ks = slots_from bm (Suc j) n"
  by (subst (asm) fs_next_set_slots) (auto simp: Let_def split: if_splits)

lemma fs_next_set_Nil: "slots_from bm i n = [] \<Longrightarrow> fs_next_set bm i n = n"
  using fs_next_set_le [of bm i n] by (subst (asm) fs_next_set_slots) (auto simp: Let_def split: if_splits)

lemma slot_set_clear [simp]: "slot_set (fs_bm_clear bm i) k \<longleftrightarrow> slot_set bm k \<and> k \<noteq> i"
proof (cases "k div 8 = i div 8")
  case True
  then have "k = i \<longleftrightarrow> k mod 8 = i mod 8" by (metis div_mult_mod_eq)
  then show ?thesis using True by (auto simp: slot_set_def fs_bm_clear_def bit_and_iff bit_not_iff bit_exp_iff)
next
  case False
  then show ?thesis by (auto simp: slot_set_def fs_bm_clear_def)
qed

lemma slot_set_full: "i < 8 * n \<Longrightarrow> slot_set (memset bm 0 0xFF n) i"
proof -
  assume "i < 8 * n"
  moreover have "bit (0xFF :: byte) j" if "j < 8" for j
  proof -
    have "bit (mask 8 :: byte) j" using that by (subst bit_mask_iff) simp
    then show ?thesis by (simp add: mask_eq_exp_minus_1)
  qed
  ultimately show ?thesis by (simp add: slot_set_def memset_def less_mult_imp_div_less mult.commute)
qed

text \<open>
  C40: \<^verbatim>\<open>fs_next_set\<close>, which skips zero words of the bitmap eight bytes at a time, returns the first
  slot at or after the given one whose bit is set, and the number of slots if there is none.
\<close>

theorem fs_next_set_correct:
  "fs_next_set bm i n = (if \<exists>k. i \<le> k \<and> k < n \<and> slot_set bm k then LEAST k. i \<le> k \<and> k < n \<and> slot_set bm k else n)"
proof (cases "slots_from bm i n")
  case Nil
  then have "\<not> (\<exists>k. i \<le> k \<and> k < n \<and> slot_set bm k)" using set_slots_from [of bm i n] by auto
  then show ?thesis using Nil by (auto dest: fs_next_set_Nil)
next
  case (Cons j ks)
  have "\<And>k. k \<in> set (slots_from bm i n) \<Longrightarrow> j \<le> k" using sorted_slots_from(1) [of bm i n] Cons by auto
  moreover have "j \<in> set (slots_from bm i n)" using Cons by simp
  ultimately show ?thesis using fs_next_set_Cons [OF Cons] by (auto intro!: Least_equality [symmetric])
qed

section \<open>Files\<close>

text \<open>
  What the scanner relies on of the file system: \<open>fs w\<close> gives contents and length of the files that
  are open. A read gives bytes of the file, a write puts some of the bytes given into it; both may
  transfer less than asked for, and nothing when they fail. Bytes after the end count as zero.
\<close>

type_synonym files = "int \<rightharpoonup> ptr \<times> nat"

definition put_bytes :: "nat \<Rightarrow> byte list \<Rightarrow> ptr \<times> nat \<Rightarrow> ptr \<times> nat" where
  "put_bytes off bs = (\<lambda>(f, l). if bs = [] then (f, l) else (blit f off bs, max l (off + length bs)))"

lemma put_bytes_Nil [simp]: "put_bytes off [] x = x"
  by (simp add: put_bytes_def split: prod.splits)

lemma put_bytes_append: "put_bytes (off + length xs) ys (put_bytes off xs x) = put_bytes off (xs @ ys) x"
  by (cases x) (auto simp: put_bytes_def blit_blit)

lemma fst_put_bytes [simp]: "fst (put_bytes off bs x) = blit (fst x) off bs"
  by (cases x) (simp add: put_bytes_def)

lemma snd_put_bytes: "snd (put_bytes off bs x) = (if bs = [] then snd x else max (snd x) (off + length bs))"
  by (cases x) (simp add: put_bytes_def)

locale storage =
  fixes P :: "('o, 'x) turbo_ops" and fs :: "'o \<Rightarrow> files"
  assumes pread: "fs w fd = Some x \<Longrightarrow> o_pread P fd n off w = (bs, w') \<Longrightarrow> fs w' = fs w \<and> bs = bytes_at (fst x) off (length bs)"
    and pwrite: "fs w fd = Some x \<Longrightarrow> o_pwrite P fd bs off w = (k, w') \<Longrightarrow> fs w' = (fs w)(fd \<mapsto> put_bytes off (take k bs) x)"
begin

lemma pread_loop_fs:
  assumes "fs w fd = Some x" "pread_loop P fd p len foff off w = (ok, p', w')" "off \<le> len"
  shows "fs w' = fs w \<and> (ok \<longrightarrow> p' = blit p off (bytes_at (fst x) (foff + off) (len - off)))"
  using assms
proof (induction "len - off" arbitrary: off p w rule: less_induct)
  case less
  obtain bs v where o: "o_pread P fd (len - off) (foff + off) w = (bs, v)" by (cases "o_pread P fd (len - off) (foff + off) w")
  let ?bs = "take (len - off) bs"
  have fs: "fs v = fs w" "?bs = bytes_at (fst x) (foff + off) (length ?bs)"
    using pread [OF less(2) o] by (auto simp: min.commute dest: arg_cong [where f = "take (len - off)"])
  show ?case
  proof (cases "off < len \<and> ?bs \<noteq> []")
    case True
    let ?off = "off + length ?bs"
    have "len - ?off < len - off" "?off \<le> len" using True by (cases bs; auto simp: min_def)+
    moreover have "pread_loop P fd (blit p off ?bs) len foff ?off v = (ok, p', w')"
      using less(3) True o by (subst (asm) pread_loop.simps) (simp add: Let_def)
    moreover have "blit (blit p off ?bs) ?off (bytes_at (fst x) (foff + ?off) (len - ?off)) =
        blit p off (bytes_at (fst x) (foff + off) (len - off))"
    proof -
      have "?bs @ bytes_at (fst x) (foff + ?off) (len - ?off) = bytes_at (fst x) (foff + off) (len - off)"
        by (subst fs(2), subst add.assoc [symmetric], subst bytes_at_add [symmetric]) (use True in \<open>auto simp: min_def intro: arg_cong\<close>)
      then show ?thesis by (simp only: blit_blit)
    qed
    ultimately show ?thesis using less(1) [of ?off v] fs(1) less(2) by metis
  next
    case False
    then show ?thesis using less(2-4) o fs by (subst (asm) pread_loop.simps) (auto simp: Let_def split: if_splits)
  qed
qed

lemma pwrite_loop_fs:
  assumes "fs w fd = Some x" "pwrite_loop P fd bs foff off w = (ok, w')" "off \<le> length bs"
  shows "\<exists>n. (ok \<longrightarrow> off + n = length bs) \<and> off + n \<le> length bs \<and> fs w' = (fs w)(fd \<mapsto> put_bytes (foff + off) (take n (drop off bs)) x)"
  using assms
proof (induction "length bs - off" arbitrary: off w x rule: less_induct)
  case less
  obtain n v where o: "o_pwrite P fd (drop off bs) (foff + off) w = (n, v)" by (cases "o_pwrite P fd (drop off bs) (foff + off) w")
  let ?n = "min n (length bs - off)"
  have fs: "fs v = (fs w)(fd \<mapsto> put_bytes (foff + off) (take ?n (drop off bs)) x)"
    using pwrite [OF less(2) o] by (simp add: min_def)
  show ?case
  proof (cases "off < length bs \<and> ?n \<noteq> 0")
    case True
    let ?off = "off + ?n"
    have "length bs - ?off < length bs - off" "?off \<le> length bs" using True by auto
    moreover have "pwrite_loop P fd bs foff ?off v = (ok, w')"
      using less(3) True o by (subst (asm) pwrite_loop.simps) (simp add: Let_def)
    ultimately obtain m where m: "ok \<longrightarrow> ?off + m = length bs" "?off + m \<le> length bs"
        "fs w' = (fs v)(fd \<mapsto> put_bytes (foff + ?off) (take m (drop ?off bs)) (put_bytes (foff + off) (take ?n (drop off bs)) x))"
      using less(1) [of ?off v] fs by fastforce
    have "put_bytes (foff + ?off) (take m (drop ?off bs)) (put_bytes (foff + off) (take ?n (drop off bs)) x) =
        put_bytes (foff + off) (take (?n + m) (drop off bs)) x"
      using put_bytes_append [of "foff + off" "take ?n (drop off bs)" "take m (drop ?off bs)" x]
      by (simp add: take_add [of ?n m] add.assoc add.commute [of ?n off])
    then show ?thesis using m fs by (intro exI [of _ "?n + m"]) (simp add: add.assoc)
  next
    case False
    then show ?thesis using less(2-4) o fs
      by (subst (asm) pwrite_loop.simps) (auto simp: Let_def min_def fun_upd_idem split: if_splits intro!: exI [of _ 0])
  qed
qed

lemma pread_all_fs:
  "fs w fd = Some x \<Longrightarrow> fs_pread_all P fd p len off w = (ok, p', w') \<Longrightarrow>
   fs w' = fs w \<and> (ok \<longrightarrow> p' = blit p 0 (bytes_at (fst x) off len))"
  using pread_loop_fs [of w fd x p len off 0] by (simp add: fs_pread_all_def)

lemma pwrite_all_fs:
  assumes "fs w fd = Some x" "fs_pwrite_all P fd p len off w = (ok, w')"
  shows "\<exists>n\<le>len. (ok \<longrightarrow> n = len) \<and> fs w' = (fs w)(fd \<mapsto> put_bytes off (bytes_at p 0 n) x)"
  using pwrite_loop_fs [of w fd x "bytes_at p 0 len" off 0] assms by (auto simp: fs_pwrite_all_def min_def)

end

text \<open>The first \<open>sz\<close> bytes of a store are those of \<open>v\<close>: in memory up to \<open>rb\<close>, in a file from there on.\<close>

definition has_store :: "files \<Rightarrow> ptr \<Rightarrow> nat \<Rightarrow> int \<Rightarrow> nat \<Rightarrow> ptr \<Rightarrow> bool" where
  "has_store F ram rb fd sz v \<longleftrightarrow> (\<forall>i. i < sz \<and> i < rb \<longrightarrow> ram i = v i) \<and>
     (rb < sz \<longrightarrow> (\<exists>x. F fd = Some x \<and> sz - rb \<le> snd x \<and> (\<forall>i < sz - rb. v (rb + i) = fst x i)))"

lemma has_store_put:
  assumes "has_store F ram rb fd sz v" "F fd = Some x" "rb \<le> off" "off \<le> sz"
  shows "has_store (F(fd \<mapsto> put_bytes (off - rb) bs x)) ram rb fd (max sz (off + length bs)) (blit v off bs)"
proof (cases "bs = []")
  case True
  then show ?thesis using assms by (auto simp: has_store_def)
next
  case False
  have v: "v (rb + i) = fst x i" if "i < sz - rb" for i using assms that by (auto simp: has_store_def)
  have len: "rb < sz \<Longrightarrow> sz - rb \<le> snd x" using assms by (auto simp: has_store_def)
  have "\<forall>i<max sz (off + length bs) - rb. blit v off bs (rb + i) = blit (fst x) (off - rb) bs i"
    using v assms(3,4) by (auto simp: blit_def max_def add.commute split: if_splits)
  moreover have "max sz (off + length bs) - rb \<le> max (snd x) (off - rb + length bs)" using len assms(3,4) by (cases "rb < sz") auto
  moreover have "\<forall>i. i < max sz (off + length bs) \<and> i < rb \<longrightarrow> ram i = blit v off bs i"
    using assms by (auto simp: has_store_def blit_def max_def split: if_splits)
  ultimately show ?thesis using False by (auto simp: has_store_def snd_put_bytes)
qed

text \<open>No call fails, and no read stops before the end of the file.\<close>

locale reliable_storage = storage +
  assumes pread_some: "fs w fd = Some x \<Longrightarrow> off + n \<le> snd x \<Longrightarrow> 0 < n \<Longrightarrow> fst (o_pread P fd n off w) \<noteq> []"
    and pwrite_some: "fs w fd = Some x \<Longrightarrow> bs \<noteq> [] \<Longrightarrow> fst (o_pwrite P fd bs off w) \<noteq> 0"
begin

lemma pread_loop_ok:
  "fs w fd = Some x \<Longrightarrow> foff + len \<le> snd x \<Longrightarrow> off \<le> len \<Longrightarrow> fst (pread_loop P fd p len foff off w)"
proof (induction "len - off" arbitrary: off p w rule: less_induct)
  case less
  obtain bs v where o: "o_pread P fd (len - off) (foff + off) w = (bs, v)" by (cases "o_pread P fd (len - off) (foff + off) w")
  have v: "fs v = fs w" using pread [OF less(2) o] by simp
  show ?case
  proof (cases "off < len")
    case True
    then have "bs \<noteq> []" using pread_some [OF less(2), of "foff + off" "len - off"] less(3) o by simp
    then have "fst (pread_loop P fd p len foff off w) = fst (pread_loop P fd (blit p off (take (len - off) bs)) len foff (off + length (take (len - off) bs)) v)"
      using True o by (subst pread_loop.simps) (simp add: Let_def)
    moreover have "off + length (take (len - off) bs) \<le> len" "len - (off + length (take (len - off) bs)) < len - off"
      using True \<open>bs \<noteq> []\<close> by (cases bs; auto simp: min_def)+
    ultimately show ?thesis using less(1) [of "off + length (take (len - off) bs)" v] less(2,3) v by simp
  qed (use less(4) in \<open>subst pread_loop.simps, simp\<close>)
qed

lemma pwrite_loop_ok: "fs w fd = Some x \<Longrightarrow> off \<le> length bs \<Longrightarrow> fst (pwrite_loop P fd bs foff off w)"
proof (induction "length bs - off" arbitrary: off w x rule: less_induct)
  case less
  obtain n v where o: "o_pwrite P fd (drop off bs) (foff + off) w = (n, v)" by (cases "o_pwrite P fd (drop off bs) (foff + off) w")
  have v: "\<exists>y. fs v fd = Some y" using pwrite [OF less(2) o] by simp
  show ?case
  proof (cases "off < length bs")
    case True
    then have "n \<noteq> 0" using pwrite_some [OF less(2), of "drop off bs" "foff + off"] o by simp
    then have "fst (pwrite_loop P fd bs foff off w) = fst (pwrite_loop P fd bs foff (off + min n (length bs - off)) v)"
      using True o by (subst pwrite_loop.simps) (auto simp: Let_def min_def)
    moreover have "length bs - (off + min n (length bs - off)) < length bs - off" "off + min n (length bs - off) \<le> length bs"
      using True \<open>n \<noteq> 0\<close> by (auto simp: min_def)
    ultimately show ?thesis using less(1) v by fastforce
  qed (use less(3) in \<open>subst pwrite_loop.simps, simp\<close>)
qed

lemma pread_all_ok:
  assumes "fs w fd = Some x" "off + len \<le> snd x"
  obtains w' where "fs_pread_all P fd p len off w = (True, blit p 0 (bytes_at (fst x) off len), w')" "fs w' = fs w"
proof (cases "fs_pread_all P fd p len off w")
  case (fields ok p' w')
  then have ok using pread_loop_ok [OF assms, of 0 p] by (simp add: fs_pread_all_def)
  then show thesis using pread_all_fs [OF assms(1) fields] fields that by auto
qed

lemma pwrite_all_ok:
  assumes "fs w fd = Some x"
  obtains w' where "fs_pwrite_all P fd p len off w = (True, w')" "fs w' = (fs w)(fd \<mapsto> put_bytes off (bytes_at p 0 len) x)"
proof (cases "fs_pwrite_all P fd p len off w")
  case (Pair ok w')
  then have ok using pwrite_loop_ok [OF assms, of 0 "bytes_at p 0 len" off] by (simp add: fs_pwrite_all_def)
  then show thesis using pwrite_all_fs [OF assms(1) Pair] Pair that by auto
qed

lemma store_read_ok:
  assumes "has_store (fs w) ram rb fd sz v" "off + len \<le> sz"
  obtains w' where "snap_store_read P ram rb fd dst off len w = (True, blit dst 0 (bytes_at v off len), w')" "fs w' = fs w"
proof -
  have ram: "bytes_at ram i n = bytes_at v i n" if "i + n \<le> rb" "i + n \<le> sz" for i n
    using assms(1) that by (auto simp: has_store_def bytes_at_eq_iff)
  have filed: "\<exists>x. fs w fd = Some x \<and> i + n \<le> snd x \<and> bytes_at (fst x) i n = bytes_at v (rb + i) n" if "rb + i + n \<le> sz" "0 < n" for i n
  proof -
    have "rb < sz" using that by simp
    with assms(1) obtain x where x: "fs w fd = Some x" "sz - rb \<le> snd x" "\<forall>i < sz - rb. v (rb + i) = fst x i"
      by (auto simp: has_store_def)
    then show ?thesis using that by (intro exI [of _ x]) (auto simp: bytes_at_eq_iff add.assoc)
  qed
  consider "len = 0" | "rb \<le> off" "0 < len" | "off < rb" "off + len \<le> rb" "0 < len" | "off < rb" "rb < off + len" by linarith
  then show thesis
  proof cases
    case 1
    then show thesis using that by (simp add: snap_store_read_def fs_pread_all_def pread_loop.simps)
  next
    case 2
    then obtain x where x: "fs w fd = Some x" "off - rb + len \<le> snd x" "bytes_at (fst x) (off - rb) len = bytes_at v off len"
      using filed [of "off - rb" len] assms(2) by auto
    from pread_all_ok [OF x(1,2), of dst] obtain w' where
      "fs_pread_all P fd dst len (off - rb) w = (True, blit dst 0 (bytes_at (fst x) (off - rb) len), w')" "fs w' = fs w" by blast
    then show thesis using that x(3) 2 by (simp add: snap_store_read_def)
  next
    case 3
    then show thesis using that ram [of off len] assms(2) by (simp add: snap_store_read_def)
  next
    case 4
    let ?a = "rb - off" and ?dst = "blit dst 0 (bytes_at ram off (rb - off))"
    obtain x where x: "fs w fd = Some x" "0 + (len - ?a) \<le> snd x" "bytes_at (fst x) 0 (len - ?a) = bytes_at v rb (len - ?a)"
      using filed [of 0 "len - ?a"] assms(2) 4 by auto
    from pread_all_ok [OF x(1,2), of "shift ?dst ?a"] obtain w' where
      w': "fs_pread_all P fd (shift ?dst ?a) (len - ?a) 0 w = (True, blit (shift ?dst ?a) 0 (bytes_at (fst x) 0 (len - ?a)), w')" "fs w' = fs w"
      by blast
    have "bytes_at ram off ?a @ bytes_at (fst x) 0 (len - ?a) = bytes_at v off len"
      using bytes_at_add [of v off ?a "len - ?a"] ram [of off ?a] x(3) 4 assms(2) by simp
    then have "blit ?dst ?a (bytes_at (fst x) 0 (len - ?a)) = blit dst 0 (bytes_at v off len)"
      using blit_blit [of dst 0 "bytes_at ram off ?a"] by simp
    then show thesis using that w' 4 by (simp add: snap_store_read_def Let_def)
  qed
qed

lemma store_write_ok:
  assumes "has_store (fs w) ram rb fd sz v" "off \<le> sz" "rb < off + len \<Longrightarrow> fs w fd \<noteq> None"
  obtains ram' w' where "snap_store_write P ram rb fd src off len w = (True, ram', w')"
    "fs w' = (fs w)(fd := fs w' fd)" "has_store (fs w') ram' rb fd (max sz (off + len)) (blit v off (bytes_at src 0 len))"
proof -
  consider "off + len \<le> rb" "off < rb" | "off + len \<le> rb" "rb \<le> off" | "rb < off + len" "rb \<le> off" | "rb < off + len" "off < rb" by linarith
  then show thesis
  proof cases
    case 1
    then have "has_store (fs w) (blit ram off (bytes_at src 0 len)) rb fd (max sz (off + len)) (blit v off (bytes_at src 0 len))"
      using assms(1,2) by (auto simp: has_store_def blit_def max_def split: if_splits)
    then show thesis using that 1 by (simp add: snap_store_write_def)
  next
    case 2
    then have "len = 0" by simp
    with 2 show thesis using that assms(1,2) by (simp add: snap_store_write_def fs_pwrite_all_def pwrite_loop.simps)
  next
    case 3
    then obtain x where x: "fs w fd = Some x" using assms(3) by auto
    from pwrite_all_ok [OF x, of src len "off - rb"] obtain w' where
      w': "fs_pwrite_all P fd src len (off - rb) w = (True, w')" "fs w' = (fs w)(fd \<mapsto> put_bytes (off - rb) (bytes_at src 0 len) x)" by blast
    have "has_store (fs w') ram rb fd (max sz (off + len)) (blit v off (bytes_at src 0 len))"
      using has_store_put [OF assms(1) x, of off "bytes_at src 0 len"] w'(2) assms(2) 3 by simp
    then show thesis using that w' 3 by (simp add: snap_store_write_def)
  next
    case 4
    let ?a = "rb - off"
    obtain x where x: "fs w fd = Some x" using 4 assms(3) by auto
    from pwrite_all_ok [OF x, of "shift src ?a" "len - ?a" 0] obtain w' where
      w': "fs_pwrite_all P fd (shift src ?a) (len - ?a) 0 w = (True, w')" "fs w' = (fs w)(fd \<mapsto> put_bytes 0 (bytes_at src ?a (len - ?a)) x)" by auto
    let ?ram = "blit ram off (bytes_at src 0 ?a)" and ?v = "blit v off (bytes_at src 0 ?a)"
    have s: "has_store (fs w) ?ram rb fd (max sz rb) ?v"
      using assms(1,2) 4 by (auto simp: has_store_def blit_def max_def split: if_splits)
    have "has_store (fs w') ?ram rb fd (max (max sz rb) (rb + (len - ?a))) (blit ?v rb (bytes_at src ?a (len - ?a)))"
      using has_store_put [OF s x, of rb "bytes_at src ?a (len - ?a)"] w'(2) by simp
    moreover have "blit ?v rb (bytes_at src ?a (len - ?a)) = blit v off (bytes_at src 0 len)"
      using blit_blit [of v off "bytes_at src 0 ?a" "bytes_at src ?a (len - ?a)"] bytes_at_add [of src 0 ?a "len - ?a"] 4 by simp
    moreover have "max (max sz rb) (rb + (len - ?a)) = max sz (off + len)" using 4 by (simp add: max_def)
    ultimately show thesis using that w' 4 by (simp add: snap_store_write_def Let_def)
  qed
qed

end

section \<open>A small system\<close>

text \<open>
  A system whose files are kept in memory, whose calls transfer at most three bytes at a time, and
  whose alias contexts, each given by its process, always see the target.
\<close>

record disk =
  dk_files :: files
  dk_next :: int

definition disk_pread :: "int \<Rightarrow> nat \<Rightarrow> nat \<Rightarrow> disk \<Rightarrow> byte list \<times> disk" where
  "disk_pread fd n off w = (case dk_files w fd of None \<Rightarrow> ([], w) | Some x \<Rightarrow> (bytes_at (fst x) off (min n (min 3 (snd x - off))), w))"

definition disk_pwrite :: "int \<Rightarrow> byte list \<Rightarrow> nat \<Rightarrow> disk \<Rightarrow> nat \<times> disk" where
  "disk_pwrite fd bs off w = (case dk_files w fd of None \<Rightarrow> (0, w)
     | Some x \<Rightarrow> (min 3 (length bs), w\<lparr>dk_files := (dk_files w)(fd \<mapsto> put_bytes off (take 3 bs) x)\<rparr>))"

definition disk_ops :: "(u32 \<Rightarrow> u64 \<Rightarrow> byte) \<Rightarrow> (disk, u32) turbo_ops" where
  "disk_ops m = \<lparr>o_pread = disk_pread, o_pwrite = disk_pwrite,
     o_open = (\<lambda>_ w. (dk_next w, w\<lparr>dk_files := (dk_files w)(dk_next w \<mapsto> (\<lambda>_. 0, 0)), dk_next := dk_next w + 1\<rparr>)),
     o_close = (\<lambda>fd w. w\<lparr>dk_files := (dk_files w)(fd := None)\<rparr>), o_unlink = (\<lambda>_ w. w), o_mmap = (\<lambda>_ w. (Some (\<lambda>_. 0), w)),
     o_alias_begin = (\<lambda>pid _ w. (Some pid, w)), o_alias_rebind = (\<lambda>pid _ w. (pid, w)),
     o_alias_map = (\<lambda>a _ x w. (Some (window (m x) a), x, w)), o_alias_release = (\<lambda>x w. (x, w)), o_alias_end = (\<lambda>_ w. w)\<rparr>"

lemma disk_ops_sel [simp]:
  "o_pread (disk_ops m) = disk_pread" "o_pwrite (disk_ops m) = disk_pwrite" "o_mmap (disk_ops m) n w = (Some (\<lambda>_. 0), w)"
  "o_alias_begin (disk_ops m) pid n w = (Some pid, w)" "o_alias_rebind (disk_ops m) pid x w = (pid, w)"
  "o_alias_map (disk_ops m) a n x w = (Some (window (m x) a), x, w)" "o_alias_release (disk_ops m) x w = (x, w)" "o_alias_end (disk_ops m) x w = w"
  "o_open (disk_ops m) p w = (dk_next w, w\<lparr>dk_files := (dk_files w)(dk_next w \<mapsto> (\<lambda>_. 0, 0)), dk_next := dk_next w + 1\<rparr>)"
  "o_close (disk_ops m) fd w = w\<lparr>dk_files := (dk_files w)(fd := None)\<rparr>" "o_unlink (disk_ops m) p w = w"
  by (simp_all add: disk_ops_def)

interpretation disk: reliable_storage "disk_ops m" dk_files for m
  by unfold_locales (auto simp: disk_pread_def disk_pwrite_def min_def split: option.splits)

section \<open>The store keeps what is written\<close>

text \<open>
  C39: the value store of a snapshot, part in memory and part in a file, behaves as one array of bytes.
  After a write of any range, wherever the split lies and however the file system cuts the
  transfers, every range reads as the array with the written bytes in place.
\<close>

theorem snap_store_roundtrip:
  assumes "reliable_storage P fs" "has_store (fs w) ram rb fd sz v" "off + len \<le> sz"
    and "snap_store_write P ram rb fd src off len w = (ok, ram', w')" "off' + len' \<le> sz"
  shows "ok \<and> (\<exists>w''. snap_store_read P ram' rb fd dst off' len' w' =
    (True, blit dst 0 (bytes_at (blit v off (bytes_at src 0 len)) off' len'), w'') \<and> fs w'' = fs w')"
proof -
  have "rb < off + len \<Longrightarrow> fs w fd \<noteq> None" using assms(2,3) by (auto simp: has_store_def)
  moreover have "off \<le> sz" using assms(3) by simp
  ultimately obtain r' x where w: "snap_store_write P ram rb fd src off len w = (True, r', x)"
      "has_store (fs x) r' rb fd (max sz (off + len)) (blit v off (bytes_at src 0 len))"
    using reliable_storage.store_write_ok [OF assms(1,2)] by metis
  then have ok: "ok" and s: "has_store (fs w') ram' rb fd (max sz (off + len)) (blit v off (bytes_at src 0 len))"
    using assms(4) by simp_all
  have "off' + len' \<le> max sz (off + len)" using assms(5) by simp
  from reliable_storage.store_read_ok [OF assms(1) s this, of dst] ok show ?thesis by blast
qed

theorem snap_store_roundtrip_witness:
  "case snap_store_write (disk_ops (\<lambda>_ _. 0)) (of_list [1, 2, 3, 4]) 4 3 (of_list [9, 8, 7, 6]) 2 4
     \<lparr>dk_files = [3 \<mapsto> (of_list [5, 6, 7, 8], 4)], dk_next = 4\<rparr> of (ok, ram', w') \<Rightarrow>
   ok \<and> (\<exists>w''. snap_store_read (disk_ops (\<lambda>_ _. 0)) ram' 4 3 (\<lambda>_. 0) 1 6 w' = (True, blit (\<lambda>_. 0) 0 [2, 9, 8, 7, 6, 7], w''))"
proof -
  let ?w = "\<lparr>dk_files = [3 \<mapsto> (of_list [5, 6, 7, 8], 4)], dk_next = 4\<rparr>" and ?v = "of_list [1, 2, 3, 4, 5, 6, 7, 8]"
  obtain ok ram' w' where wr: "snap_store_write (disk_ops (\<lambda>_ _. 0)) (of_list [1, 2, 3, 4]) 4 3 (of_list [9, 8, 7, 6]) 2 4 ?w = (ok, ram', w')"
    by (cases "snap_store_write (disk_ops (\<lambda>_ _. 0)) (of_list [1, 2, 3, 4]) 4 3 (of_list [9, 8, 7, 6]) 2 4 ?w")
  have "has_store (dk_files ?w) (of_list [1, 2, 3, 4]) 4 3 8 ?v" by (auto simp: has_store_def of_list_def nth_Cons')
  from snap_store_roundtrip [OF disk.reliable_storage_axioms this _ wr, of 1 6 "\<lambda>_. 0"]
  have "ok \<and> (\<exists>w''. snap_store_read (disk_ops (\<lambda>_ _. 0)) ram' 4 3 (\<lambda>_. 0) 1 6 w' =
      (True, blit (\<lambda>_. 0) 0 (bytes_at (blit ?v 2 (bytes_at (of_list [9, 8, 7, 6]) 0 4)) 1 6), w''))" by auto
  moreover have "bytes_at (blit ?v 2 (bytes_at (of_list [9, 8, 7, 6]) 0 4)) 1 6 = [2, 9, 8, 7, 6, 7]"
    by (simp add: bytes_at_def blit_def of_list_def upt_rec)
  ultimately show ?thesis by (simp add: wr)
qed

end
