(* ===== verification/TurboScanProps.thy ===== *)
theory TurboScanProps
  imports TurboStoreProps ScanRescan
begin

text \<open>
  What a turbo scan finds. Whatever way the bytes of a window come, from the aliasing engine or
  from \<^verbatim>\<open>proc_read_mem\<close>, whatever search is used on them and on however many threads, a pass over a range
  hands the aligned matches of the whole range, in order, to the stream or to the session.
\<close>

section \<open>The aliasing engine\<close>

text \<open>
  What the scanner relies on of the aliasing engine (\<^verbatim>\<open>scan_alias.h\<close>): a context is bound to a process;
  where mapping a readable range succeeds, the bytes mapped are those of the process.
\<close>

locale alias_engine = target_reader rd mem readable
  for rd :: reader and mem and readable +
  fixes P :: "('o, 'x) turbo_ops" and bound :: "u32 \<Rightarrow> 'x \<Rightarrow> bool"
  assumes alias_map: "bound pid x \<Longrightarrow> readable pid a n \<Longrightarrow> o_alias_map P a n x w = (ap, x', w') \<Longrightarrow>
      bound pid x' \<and> (\<forall>p i. ap = Some p \<longrightarrow> i < n \<longrightarrow> p i = mem pid (a + of_nat i))"
    and alias_release: "bound pid x \<Longrightarrow> o_alias_release P x w = (x', w') \<Longrightarrow> bound pid x'"
    and alias_begin: "o_alias_begin P pid n w = (Some x, w') \<Longrightarrow> bound pid x"
    and alias_rebind: "bound pid x \<Longrightarrow> o_alias_rebind P pid' x w = (x', w') \<Longrightarrow> bound pid' x'"

text \<open>A context that may be missing.\<close>

definition opt_bound :: "(u32 \<Rightarrow> 'x \<Rightarrow> bool) \<Rightarrow> u32 \<Rightarrow> 'x option \<Rightarrow> bool" where
  "opt_bound bound pid actx \<longleftrightarrow> (\<forall>x. actx = Some x \<longrightarrow> bound pid x)"

context alias_engine
begin

lemma pass_read_ok:
  assumes "opt_bound bound pid actx" "readable pid a n" "pass_read rd P pid a n buf (actx, w) = ((src, aliased, buf'), actx', w')"
  shows "opt_bound bound pid actx'" "i < n \<Longrightarrow> src i = mem pid (a + of_nat i)"
proof -
  consider "actx = None" | x where "actx = Some x" by (cases actx) auto
  then have "opt_bound bound pid actx' \<and> (i < n \<longrightarrow> src i = mem pid (a + of_nat i))"
  proof cases
    case 1
    then show ?thesis using assms rd_read by (auto simp: pass_read_def Let_def opt_bound_def)
  next
    case 2
    obtain ap x' v where m: "o_alias_map P a n x w = (ap, x', v)" by (cases "o_alias_map P a n x w")
    then have "bound pid x'" "ap = Some p \<Longrightarrow> i < n \<Longrightarrow> p i = mem pid (a + of_nat i)" for p
      using alias_map [OF _ assms(2) m] assms(1) 2 by (auto simp: opt_bound_def)
    then show ?thesis using assms 2 m rd_read [OF assms(2)] by (cases ap) (auto simp: pass_read_def Let_def opt_bound_def)
  qed
  then show "opt_bound bound pid actx'" "i < n \<Longrightarrow> src i = mem pid (a + of_nat i)" by blast+
qed

lemma release_bound: "opt_bound bound pid actx \<Longrightarrow> alias_release P (actx, w) = (actx', w') \<Longrightarrow> opt_bound bound pid actx'"
  using alias_release [of pid] by (cases actx) (auto simp: opt_bound_def TurboSnap.alias_release_def Let_def split: prod.splits)

end

section \<open>Windows\<close>

lemma emit_cong: "bytes_at v 0 (rq_vlen r) = bytes_at v' 0 (rq_vlen r) \<Longrightarrow> emit r thr a v = emit r thr a v'"
  by (simp add: emit_def fun_eq_iff split: prod.splits option.splits)

lemma emit_stopped: "\<not> fst k \<Longrightarrow> emit r thr a v k = k" "\<not> fst k \<Longrightarrow> fold (\<lambda>x. emit r thr (f x) (g x)) xs k = k"
proof -
  show 1: "\<not> fst k \<Longrightarrow> emit r thr a v k = k" for a v by (cases k) (simp add: emit_def)
  show "\<not> fst k \<Longrightarrow> fold (\<lambda>x. emit r thr (f x) (g x)) xs k = k" by (induction xs) (simp_all add: 1)
qed

text \<open>Where the vector search is used, it judges like the comparator: integer types.\<close>

definition simd_fits :: "scan_request \<Rightarrow> nat \<Rightarrow> nat option \<Rightarrow> bool" where
  "simd_fits r chunk simd \<longleftrightarrow> (\<forall>mx. simd = Some mx \<longrightarrow> rq_cmp r = 0 \<and> rq_val r \<le> 7 \<and> rq_step r = rq_vlen r \<and> chunk \<le> mx * rq_vlen r)"

lemma exact_hit:
  assumes "wf_request r" "rq_cmp r = 0" "rq_val r \<le> 7"
  shows "scan_point_compare 0 (rq_val r) m (ptr_of (rq_pattern r)) q = rq_match r m"
proof -
  have "scan_point_turbo_supported 0 (rq_val r)" using assms(3) byte_le7_le9 [OF assms(3)] by (simp add: scan_point_turbo_supported_def not_less)
  then have "scan_point_compare 0 (rq_val r) m (ptr_of (rq_pattern r)) q =
      proc_scan_compareValues 0 (rq_val r) (proc_scan_getSizeOfValueType (rq_val r)) (ptr_of (rq_pattern r)) m (Some q) (rq_mask r)"
    by (rule scan_point_compare_agrees)
  then show ?thesis using assms byte_le7_le9 by (simp add: rq_match_def wf_request_def proc_scan_compareValues_def)
qed

lemma length_multiples: "0 < v \<Longrightarrow> length (filter (\<lambda>i. v dvd i \<and> i + v \<le> n \<and> Q i) [0..<n]) \<le> n div v"
proof -
  assume v: "0 < v"
  let ?xs = "filter (\<lambda>i. v dvd i \<and> i + v \<le> n \<and> Q i) [0..<n]"
  have "set ?xs \<subseteq> (\<lambda>j. j * v) ` {..<n div v}"
  proof
    fix i assume "i \<in> set ?xs"
    then obtain j where j: "i = j * v" "Suc j * v \<le> n" by (auto simp: dvd_def mult.commute)
    then have "Suc j \<le> n div v" using v by (simp only: less_eq_div_iff_mult_less_eq)
    then show "i \<in> (\<lambda>j. j * v) ` {..<n div v}" using j(1) by auto
  qed
  then have "card (set ?xs) \<le> card ((\<lambda>j. j * v) ` {..<n div v})" by (rule card_mono [rotated]) simp
  also have "\<dots> \<le> n div v" using card_image_le [of "{..<n div v}"] by simp
  finally show ?thesis by (subst (asm) distinct_card) simp_all
qed

lemma pass_window_emits:
  assumes r: "wf_request r" "simd_fits r chunk simd" and len: "rq_vlen r \<le> to_read" "to_read \<le> chunk" "to_read < 2 ^ 32"
  shows "pass_window r simd thr addr src to_read k =
    fold (\<lambda>j. emit r thr (addr + of_nat j) (shift src j)) (filter (\<lambda>j. rq_match r (shift src j)) (grid (rq_step r) 0 (to_read - rq_vlen r) 0)) k"
proof (cases simd)
  case None
  have *: "fold (\<lambda>j st. if Q j then f j st else st) xs k = fold f (filter Q xs) k" for Q f and xs :: "nat list"
    by (induction xs arbitrary: k) simp_all
  show ?thesis using None r(1) len by (simp add: pass_window_def wf_request_def Let_def grid_loop_fold *)
next
  case (Some mx)
  let ?v = "rq_vlen r" and ?vt = "rq_val r"
  have f: "rq_cmp r = 0" "?vt \<le> 7" "rq_step r = ?v" "to_read \<le> mx * ?v" "0 < ?v" "?v = proc_scan_getSizeOfValueType ?vt"
    using r len(2) Some byte_le7_le9 by (auto simp: simd_fits_def wf_request_def)
  define hits where "hits = filter (\<lambda>j. rq_match r (shift src j)) (grid (rq_step r) 0 (to_read - ?v) 0)"
  have hits: "hits = filter (\<lambda>off. ?v dvd off \<and> off + ?v \<le> to_read \<and> rq_match r (shift src off)) [0..<to_read]"
    using f(3,5) len by (simp add: hits_def filter_grid_conv)
  have v32: "unat (of_nat ?v :: u32) = ?v" "(of_nat ?v :: u32) \<noteq> 0"
    using len f(5) by (auto simp: unat_of_nat word_unat_eq_iff [of _ 0])
  have ex: "exact_hits ?vt src to_read (ptr_of (rq_pattern r)) ?v = hits"
    using exact_hit [OF r(1) f(1,2)] by (simp add: exact_hits_def hits f(6) [symmetric])
  have "length hits \<le> to_read div ?v" using length_multiples [OF f(5)] by (simp add: hits)
  also have "\<dots> \<le> mx * ?v div ?v" using f(4) by (rule div_le_mono)
  finally have mx: "length hits \<le> mx" using f(5) by simp
  have small: "j < 2 ^ 32" if "j \<in> set hits" for j using that len(3) by (simp add: hits)
  have "\<not> 9 < ?vt" using f(2) byte_le7_le9 by (simp add: not_less)
  then have "scan_simd_find_exact ?vt src to_read (ptr_of (rq_pattern r)) (of_nat ?v) mx = (length hits, map of_nat hits)"
    using v32 mx by (simp add: scan_simd_find_exact_hits ex)
  then have "pass_window r simd thr addr src to_read k =
      fold (\<lambda>i. emit r thr (addr + ucast (of_nat (hits ! i) :: u32)) (shift src (unat (of_nat (hits ! i) :: u32)))) [0..<length hits] k"
    using Some by (auto simp: pass_window_def intro!: fold_cong)
  also have "\<dots> = fold (\<lambda>i. emit r thr (addr + of_nat (hits ! i)) (shift src (hits ! i))) [0..<length hits] k"
    using small by (intro fold_cong) (auto simp: unat_of_nat unsigned_of_nat take_bit_nat_eq_self)
  also have "\<dots> = fold (\<lambda>j. emit r thr (addr + of_nat j) (shift src j)) (map ((!) hits) [0..<length hits]) k"
    by (simp add: fold_map comp_def)
  finally show ?thesis by (simp add: map_nth hits_def)
qed

text \<open>A window of a range, whose bytes are those of the region.\<close>

lemma pass_window_region:
  assumes r: "wf_request r" "simd_fits r chunk simd" "rq_vlen r dvd rq_step r" "rq_step r dvd woff" "rq_vlen r dvd to_read"
    and len: "0 < to_read" "to_read \<le> chunk" "to_read < 2 ^ 32" "woff + to_read \<le> len"
    and src: "\<And>i. i < to_read \<Longrightarrow> src i = region (woff + i)"
  shows "pass_window r simd thr (base + of_nat woff) src to_read k =
    fold (\<lambda>off. emit r thr (base + of_nat off) (shift region off)) (scan_offsets r region len woff (woff + to_read)) k"
proof -
  let ?v = "rq_vlen r" and ?s = "rq_step r" and ?P = "\<lambda>j. rq_match r (shift src j)"
  have v: "0 < ?v" "?v \<le> to_read" "0 < ?s" using r len by (auto simp: wf_request_def dest: dvd_imp_le)
  let ?js = "filter ?P (grid ?s 0 (to_read - ?v) 0)"
  have js: "?js = filter (\<lambda>j. ?s dvd j \<and> j + ?v \<le> to_read \<and> ?P j) [0..<to_read]" using v by (intro filter_grid_conv) auto
  have offs: "map (\<lambda>j. woff + j) ?js = scan_offsets r region len woff (woff + to_read)"
  proof -
    have fit: "woff + j + ?v \<le> len \<longleftrightarrow> j + ?v \<le> to_read" if "j < to_read" "?s dvd j" for j
    proof -
      have "?v dvd to_read - j" using r(3,5) that(2) by (meson dvd_diff_nat dvd_trans)
      then have "?v \<le> to_read - j" using that(1) by (simp add: dvd_imp_le)
      then show ?thesis using that(1) len(4) by auto
    qed
    have m: "?P j = rq_match r (shift region (woff + j))" if "j + ?v \<le> to_read" for j
      using that src by (intro rq_match_cong [OF r(1)]) (auto simp: add.assoc)
    have "?js = filter (\<lambda>j. ?s dvd woff + j \<and> woff + j + ?v \<le> len \<and> rq_match r (shift region (woff + j))) [0..<to_read]"
      unfolding js using fit m r(4) by (intro filter_cong) (auto simp: dvd_add_right_iff)
    then show ?thesis
      by (simp only: scan_offsets_def filter_shift [where P = "\<lambda>off. ?s dvd off \<and> off + ?v \<le> len \<and> rq_match r (shift region off)"])
  qed
  have same: "emit r thr (base + of_nat woff + of_nat j) (shift src j) = emit r thr (base + of_nat (woff + j)) (shift region (woff + j))"
    if "j \<in> set ?js" for j
  proof -
    have "bytes_at src j ?v = bytes_at region (woff + j) ?v"
      using that src unfolding js by (auto simp: bytes_at_eq_iff add.assoc)
    then show ?thesis using emit_cong [of "shift src j" r "shift region (woff + j)"] by (simp add: add.assoc)
  qed
  have "pass_window r simd thr (base + of_nat woff) src to_read k
      = fold (\<lambda>j. emit r thr (base + of_nat woff + of_nat j) (shift src j)) ?js k"
    using pass_window_emits [OF r(1,2) v(2) len(2,3)] .
  also have "\<dots> = fold (\<lambda>j. emit r thr (base + of_nat (woff + j)) (shift region (woff + j))) ?js k"
    using same by (rule fold_cong [OF refl refl])
  also have "\<dots> = fold (\<lambda>off. emit r thr (base + of_nat off) (shift region off)) (map (\<lambda>j. woff + j) ?js) k"
    by (simp add: fold_map comp_def)
  finally show ?thesis by (simp only: offs)
qed

section \<open>A pass\<close>

context alias_engine
begin

lemma pass_windows_emits:
  fixes k :: "'z sink"
  assumes r: "wf_request r" "simd_fits r chunk simd" "rq_vlen r dvd rq_step r" "rq_step r dvd chunk" "0 < chunk" "chunk < 2 ^ 32" "rq_step r \<le> chunk"
    and rd: "readable (rq_pid r) base len" and len: "rq_vlen r dvd len"
    and pos: "woff + remaining = len" "rq_step r dvd woff" and b: "opt_bound bound (rq_pid r) actx"
  shows "\<exists>xw. pass_windows rd P r simd chunk thr buf (base + of_nat woff) remaining (k, actx, w) =
      (fold (\<lambda>off. emit r thr (base + of_nat off) (shift (window (mem (rq_pid r)) base) off))
         (scan_offsets r (window (mem (rq_pid r)) base) len woff len) k, xw) \<and> opt_bound bound (rq_pid r) (fst xw)"
  using pos b
proof (induction remaining arbitrary: woff k actx w buf rule: less_induct)
  case (less remaining)
  let ?R = "window (mem (rq_pid r)) base" and ?v = "rq_vlen r" and ?s = "rq_step r"
  show ?case
  proof (cases "remaining = 0 \<or> \<not> fst k")
    case True
    then have "pass_windows rd P r simd chunk thr buf (base + of_nat woff) remaining (k, actx, w) = (k, actx, w)"
      by (subst pass_windows.simps) auto
    moreover have "fold (\<lambda>off. emit r thr (base + of_nat off) (shift ?R off)) (scan_offsets r ?R len woff len) k = k"
      using True less.prems(1) emit_stopped(2) [of k] by (cases "remaining = 0") (auto simp: scan_offsets_def)
    ultimately show ?thesis using less.prems(3) by (simp del: shift_apply)
  next
    case False
    define n where "n = (if remaining > chunk then chunk else remaining)"
    have n: "0 < n" "n \<le> remaining" "n \<le> chunk" "woff + n \<le> len" using False r(5) less.prems(1) by (auto simp: n_def)
    have pos: "0 < ?v" "0 < ?s" using r(1) by (auto simp: wf_request_def)
    have vw: "?v dvd woff" "?v dvd chunk" using r(3,4) less.prems(2) by (auto intro: dvd_trans)
    then have "?v dvd remaining" using less.prems(1) len by (metis dvd_add_right_iff)
    then have vn: "?v dvd n" using vw by (simp add: n_def)
    have adv: "window_advance n ?s ?v = n" using r(3,6,7) pos n by (intro window_advance_full) auto
    have rdn: "readable (rq_pid r) (base + of_nat woff) n" using readable_sub [OF rd n(4)] .
    obtain src al buf' actx1 w1 where 1: "pass_read rd P (rq_pid r) (base + of_nat woff) n buf (actx, w) = ((src, al, buf'), actx1, w1)"
      by (cases "pass_read rd P (rq_pid r) (base + of_nat woff) n buf (actx, w)") auto
    note pr = pass_read_ok [OF less.prems(3) rdn 1]
    have src: "src i = ?R (woff + i)" if "i < n" for i using pr(2) that by (simp add: window_apply add.assoc)
    obtain actx2 w2 where 2: "(if al then alias_release P (actx1, w1) else (actx1, w1)) = (actx2, w2)" by fastforce
    have b2: "opt_bound bound (rq_pid r) actx2" using 2 pr(1) release_bound by (auto split: if_splits)
    define k' where "k' = fold (\<lambda>off. emit r thr (base + of_nat off) (shift ?R off)) (scan_offsets r ?R len woff (woff + n)) k"
    have "n < 2 ^ 32" using n(3) r(6) by simp
    from pass_window_region [where region = ?R and src = src, OF r(1,2,3) less.prems(2) vn n(1,3) this n(4) src]
    have k': "pass_window r simd thr (base + of_nat woff) src n k = k'" by (simp add: k'_def)
    have eq: "pass_windows rd P r simd chunk thr buf (base + of_nat woff) remaining (k, actx, w)
        = pass_windows rd P r simd chunk thr buf' (base + of_nat (woff + n)) (remaining - n) (k', actx2, w2)"
      using False r(5) n(2) 1 2 k' by (subst pass_windows.simps) (simp add: Let_def n_def [symmetric] adv add.assoc)
    have offs: "scan_offsets r ?R len woff len = scan_offsets r ?R len woff (woff + n) @ scan_offsets r ?R len (woff + n) len"
      using n(4) by (simp add: scan_offsets_def upt_split [of woff "woff + n" len])
    show ?thesis
    proof (cases "remaining - n = 0")
      case True
      then have "woff + n = len" using n less.prems(1) by simp
      then show ?thesis unfolding eq using True b2 by (subst pass_windows.simps) (simp add: k'_def del: shift_apply)
    next
      case rest: False
      then have "n = chunk" by (simp add: n_def split: if_splits)
      then have "?s dvd woff + n" using r(4) less.prems(2) by simp
      from less.IH [where y = "remaining - n" and k = k' and buf = buf' and w = w2, OF _ _ this b2] n less.prems(1) show ?thesis
        unfolding eq offs by (simp add: k'_def add.assoc del: shift_apply)
    qed
  qed
qed

lemma scan_pass_range_emits:
  assumes "wf_request r" "simd_fits r chunk simd" "rq_vlen r dvd rq_step r" "rq_step r dvd chunk" "0 < chunk" "chunk < 2 ^ 32" "rq_step r \<le> chunk"
    and "readable (rq_pid r) base len" "rq_vlen r dvd len" "opt_bound bound (rq_pid r) actx"
    and k: "fold (\<lambda>off. emit r (sub64 0x3FFE8 (rq_vlen r)) (base + of_nat off) (shift (window (mem (rq_pid r)) base) off))
         (scan_offsets r (window (mem (rq_pid r)) base) len 0 len) (True, so, [], c) = (ok, so', pend, c')"
  obtains xw where "turboscan_scan_pass_range rd P r base len simd chunk buf so ((actx, w), c) =
      ((ok, so'), xw, if ok \<and> so' = None then flush_results (pend, c') else c')" "opt_bound bound (rq_pid r) (fst xw)"
proof -
  from pass_windows_emits [OF assms(1-9), of 0 len actx "sub64 0x3FFE8 (rq_vlen r)" buf "(True, so, [], c)" w] assms(10) k
  obtain xw where "pass_windows rd P r simd chunk (sub64 0x3FFE8 (rq_vlen r)) buf base len ((True, so, [], c), actx, w) = ((ok, so', pend, c'), xw)"
      "opt_bound bound (rq_pid r) (fst xw)" by auto
  then show thesis using that by (simp add: turboscan_scan_pass_range_def Let_def)
qed

end

section \<open>Where the matches go\<close>

text \<open>To the stream, in runs.\<close>

definition emit_record :: "scan_request \<Rightarrow> u64 \<Rightarrow> ptr \<Rightarrow> nat \<Rightarrow> byte list" where
  "emit_record r base region off = le_bytes 4 (ucast (base + of_nat off - rq_address r) :: u32) @ bytes_at region off (rq_vlen r)"

lemma fold_emit_stream:
  "fold (\<lambda>off. emit r thr (base + of_nat off) (shift region off)) offs (True, None, pend, c) =
     (case fold (\<lambda>off. add_result thr (emit_record r base region off)) offs (pend, c) of (pend, c) \<Rightarrow> (True, None, pend, c))"
proof (induction offs arbitrary: pend c)
  case (Cons off offs)
  obtain pend' c' where a: "add_result thr (emit_record r base region off) (pend, c) = (pend', c')" by fastforce
  then have "emit r thr (base + of_nat off) (shift region off) (True, None, pend, c) = (True, None, pend', c')"
    by (simp add: emit_def emit_record_def)
  then show ?case using Cons a by (simp del: shift_apply)
qed simp

lemma emit_record_base: "emit_record r (rq_address r) region off = scan_record r region off"
  by (simp add: emit_record_def scan_record_def ucast32_of_nat)

text \<open>Or to a session, as records of its buffer.\<close>

definition session_recs :: "turboscan_session \<Rightarrow> (u64 \<times> byte list) list" where
  "session_recs s = map (session_record s) [0..<ts_count s]"

definition list_sess :: "nat \<Rightarrow> turboscan_session \<Rightarrow> bool" where
  "list_sess vlen s \<longleftrightarrow> ts_buf s \<noteq> None \<and> ts_rec_size s = 8 + ts_value_length s \<and> ts_value_length s = vlen \<and> ts_count s * ts_rec_size s \<le> ts_buf_cap s"

definition fits :: "turboscan_session \<Rightarrow> nat \<Rightarrow> bool" where
  "fits s n \<longleftrightarrow> (ts_count s + n) * ts_rec_size s \<le> ts_buf_cap s"

definition same_sess :: "turboscan_session \<Rightarrow> turboscan_session \<Rightarrow> bool" where
  "same_sess s s' \<longleftrightarrow> s' = s\<lparr>ts_buf := ts_buf s', ts_count := ts_count s'\<rparr>"

lemma same_sess_refl [simp]: "same_sess s s"
  by (simp add: same_sess_def)

lemma same_sess_trans: "same_sess s t \<Longrightarrow> same_sess t u \<Longrightarrow> same_sess s u"
  unfolding same_sess_def by (erule ssubst, erule ssubst) simp

lemma same_sess_sel:
  assumes "same_sess s s'"
  shows "ts_rec_size s' = ts_rec_size s" "ts_buf_cap s' = ts_buf_cap s" "ts_value_length s' = ts_value_length s"
    "ts_in_use s' = ts_in_use s" "ts_mode s' = ts_mode s" "ts_has_prev s' = ts_has_prev s" "ts_has_first s' = ts_has_first s"
    "ts_pid s' = ts_pid s" "ts_valueType s' = ts_valueType s"
  by (subst assms [unfolded same_sess_def], simp)+

lemma emit_session:
  assumes s: "list_sess (rq_vlen r) s" and f: "fits s 1"
  obtains s' where "emit r thr a v (True, Some s, pend, c) = (True, Some s', pend, c)" "list_sess (rq_vlen r) s'" "same_sess s s'"
    "session_recs s' = session_recs s @ [(a, bytes_at v 0 (rq_vlen r))]" "ts_count s' = ts_count s + 1"
proof -
  obtain b where b: "ts_buf s = Some b" using s by (auto simp: list_sess_def)
  have sz: "ts_rec_size s = 8 + rq_vlen r" "ts_value_length s = rq_vlen r" using s by (auto simp: list_sess_def)
  let ?n = "ts_count s" and ?rec = "le_bytes 8 a @ bytes_at v 0 (rq_vlen r)"
  let ?b = "blit b (?n * ts_rec_size s) ?rec"
  let ?s = "s\<lparr>ts_buf := Some ?b, ts_count := ?n + 1\<rparr>"
  have "session_record ?s k = session_record s k" if "k < ?n" for k
  proof -
    have end_: "k * ts_rec_size s + ts_rec_size s \<le> ?n * ts_rec_size s" using that mult_le_mono1 [of "Suc k" ?n "ts_rec_size s"] by simp
    have same: "bytes_at ?b (k * ts_rec_size s + i) n = bytes_at b (k * ts_rec_size s + i) n" if "i + n \<le> ts_rec_size s" for i n
      using that end_ by (intro bytes_at_blit_disjoint) auto
    have "?b (k * ts_rec_size s + i) = b (k * ts_rec_size s + i)" if "i < 8" for i
      using that end_ sz by (intro blit_outside) auto
    then have "ld64 (shift ?b (k * ts_rec_size s)) = ld64 (shift b (k * ts_rec_size s))" by (intro le_load_cong) simp
    then show ?thesis using same [of 8 "rq_vlen r"] b sz by (simp add: session_record_def ptr_of_def)
  qed
  moreover have "session_record ?s ?n = (a, bytes_at v 0 (rq_vlen r))"
  proof -
    have "?b = blit (blit b (?n * ts_rec_size s) (le_bytes 8 a)) (?n * ts_rec_size s + 8) (bytes_at v 0 (rq_vlen r))"
      using blit_blit [of b "?n * ts_rec_size s" "le_bytes 8 a"] by simp
    moreover have "ld64 (shift ?b (?n * ts_rec_size s)) = a"
    proof -
      have "shift ?b (?n * ts_rec_size s) i = shift (blit b (?n * ts_rec_size s) (le_bytes 8 a)) (?n * ts_rec_size s) i" if "i < 8" for i
        using that by (simp add: blit_def nth_append)
      then have "ld64 (shift ?b (?n * ts_rec_size s)) = ld64 (shift (blit b (?n * ts_rec_size s) (le_bytes 8 a)) (?n * ts_rec_size s))"
        by (rule le_load_cong)
      then show ?thesis by (simp add: le_load_blit_same)
    qed
    ultimately show ?thesis using sz by (simp add: session_record_def ptr_of_def)
  qed
  ultimately have "session_recs ?s = session_recs s @ [(a, bytes_at v 0 (rq_vlen r))]" by (simp add: session_recs_def)
  moreover have "emit r thr a v (True, Some s, pend, c) = (True, Some ?s, pend, c)"
    using f b by (simp add: emit_def fits_def)
  ultimately show thesis using s f b by (intro that [of ?s]) (auto simp: list_sess_def same_sess_def fits_def)
qed

lemma fold_emit_session:
  assumes "list_sess (rq_vlen r) s"
  shows "\<exists>s'. fold (\<lambda>off. emit r thr (base + of_nat off) (shift region off)) offs (True, Some s, pend, c) = (fits s (length offs), Some s', pend, c)
    \<and> list_sess (rq_vlen r) s' \<and> same_sess s s' \<and> (fits s (length offs) \<longrightarrow>
        session_recs s' = session_recs s @ map (\<lambda>off. (base + of_nat off, bytes_at region off (rq_vlen r))) offs \<and> ts_count s' = ts_count s + length offs)"
  using assms
proof (induction offs arbitrary: s)
  case Nil
  then show ?case by (auto simp: fits_def list_sess_def)
next
  case (Cons off offs)
  show ?case
  proof (cases "fits s 1")
    case True
    from emit_session [OF Cons.prems this, of thr "base + of_nat off" "shift region off" pend c] obtain s' where
      s': "emit r thr (base + of_nat off) (shift region off) (True, Some s, pend, c) = (True, Some s', pend, c)" "list_sess (rq_vlen r) s'" "same_sess s s'"
      "session_recs s' = session_recs s @ [(base + of_nat off, bytes_at region off (rq_vlen r))]" "ts_count s' = ts_count s + 1" by auto
    have "fits s' (length offs) = fits s (length (off # offs))" using s'(5) same_sess_sel [OF s'(3)] by (simp add: fits_def)
    moreover obtain u where u: "fold (\<lambda>off. emit r thr (base + of_nat off) (shift region off)) offs (True, Some s', pend, c) = (fits s' (length offs), Some u, pend, c)"
        "list_sess (rq_vlen r) u" "same_sess s' u" "fits s' (length offs) \<longrightarrow>
        session_recs u = session_recs s' @ map (\<lambda>off. (base + of_nat off, bytes_at region off (rq_vlen r))) offs \<and> ts_count u = ts_count s' + length offs"
      using Cons.IH [OF s'(2)] by blast
    ultimately show ?thesis using s' same_sess_trans [OF s'(3) u(3)] by (intro exI [of _ u]) (simp del: shift_apply)
  next
    case False
    then have "emit r thr (base + of_nat off) (shift region off) (True, Some s, pend, c) = (False, Some s, pend, c)"
      by (simp add: emit_def fits_def)
    moreover have "\<not> fits s (length (off # offs))"
      using False by (auto simp: fits_def algebra_simps)
    ultimately show ?thesis using Cons.prems by (simp add: emit_stopped del: shift_apply)
  qed
qed

section \<open>A streamed scan\<close>

text \<open>The conditions on a request: those of the passes, and that the result buffer holds a record.\<close>

definition pass_ok :: "scan_request \<Rightarrow> nat \<Rightarrow> nat option \<Rightarrow> bool" where
  "pass_ok r chunk simd \<longleftrightarrow> wf_request r \<and> simd_fits r chunk simd \<and> rq_vlen r dvd rq_step r \<and> rq_step r dvd chunk \<and>
     0 < chunk \<and> chunk \<le> 0x100000 \<and> rq_vlen r \<le> 0x3FFE8"

lemma pass_okD:
  assumes "pass_ok r chunk simd"
  shows "wf_request r" "simd_fits r chunk simd" "rq_vlen r dvd rq_step r" "rq_step r dvd chunk" "0 < chunk" "chunk < 2 ^ 32" "rq_step r \<le> chunk"
    "rq_vlen r \<le> 0x3FFE8" "0 < rq_vlen r"
  using assms by (auto simp: pass_ok_def wf_request_def dest: dvd_imp_le)

lemma malloc_io: "malloc c = (p, d) \<Longrightarrow> io c [] [] d"
  using io_nalloc by (auto simp: malloc_def)

lemma stream_records:
  assumes "quiet c" "rq_vlen r \<le> 0x3FFE8"
  obtains bs where "run_stream 0x40000 (map (emit_record r base region) offs) bs"
    "io c [] bs (flush_results (fold (\<lambda>off. add_result (sub64 0x3FFE8 (rq_vlen r)) (emit_record r base region off)) offs ([], c)))"
proof -
  have "sub64 0x3FFE8 (rq_vlen r) = 0x3FFE8 - rq_vlen r" using assms(2) by (simp add: sub64_ge)
  then have "streamed c 0x40000 ([] @ map (emit_record r base region) (filter (\<lambda>_. True) offs))
      (fold (\<lambda>off st. if True then add_result (sub64 0x3FFE8 (rq_vlen r)) (emit_record r base region off) st else st) offs ([], c))"
    using assms by (intro streamed_fold streamed_Nil) (auto simp: emit_record_def)
  then show thesis using streamed_flush [OF _ assms(1)] that by fastforce
qed

abbreviation stream_of :: "(u32 \<Rightarrow> u64 \<Rightarrow> byte) \<Rightarrow> scan_request \<Rightarrow> nat \<Rightarrow> byte list list" where
  "stream_of mem r len \<equiv> map (scan_record r (window (mem (rq_pid r)) (rq_address r))) (scan_offsets r (window (mem (rq_pid r)) (rq_address r)) len 0 len)"

context alias_engine
begin

lemma pass_stream:
  assumes "pass_ok r chunk simd" "readable (rq_pid r) (rq_address r) len" "rq_vlen r dvd len" "opt_bound bound (rq_pid r) actx" "quiet c"
  obtains xw bs c' where "turboscan_scan_pass_range rd P r (rq_address r) len simd chunk buf None ((actx, w), c) = ((True, None), xw, c')"
    "opt_bound bound (rq_pid r) (fst xw)" "run_stream 0x40000 (stream_of mem r len) bs" "io c [] bs c'"
proof -
  note D = pass_okD [OF assms(1)]
  let ?R = "window (mem (rq_pid r)) (rq_address r)" and ?thr = "sub64 0x3FFE8 (rq_vlen r)"
  let ?offs = "scan_offsets r ?R len 0 len"
  obtain pend d where fl: "fold (\<lambda>off. add_result ?thr (emit_record r (rq_address r) ?R off)) ?offs ([], c) = (pend, d)" by fastforce
  then have "fold (\<lambda>off. emit r ?thr (rq_address r + of_nat off) (shift ?R off)) ?offs (True, None, [], c) = (True, None, pend, d)"
    by (simp add: fold_emit_stream del: shift_apply)
  from scan_pass_range_emits [OF D(1-7) assms(2-4) this, of buf w] obtain xw where
    x: "turboscan_scan_pass_range rd P r (rq_address r) len simd chunk buf None ((actx, w), c) = ((True, None), xw, flush_results (pend, d))"
      "opt_bound bound (rq_pid r) (fst xw)" by auto
  from stream_records [OF assms(5) D(8), of "rq_address r" ?R ?offs] obtain bs where
    "run_stream 0x40000 (map (emit_record r (rq_address r) ?R) ?offs) bs" "io c [] bs (flush_results (pend, d))"
    unfolding fl by blast
  moreover have "emit_record r (rq_address r) ?R = scan_record r ?R" by (rule ext) (rule emit_record_base)
  ultimately show thesis using that x by metis
qed

lemma pass_session:
  assumes "pass_ok r chunk simd" "readable (rq_pid r) base len" "rq_vlen r dvd len" "opt_bound bound (rq_pid r) actx" "list_sess (rq_vlen r) s"
  obtains xw s' where "turboscan_scan_pass_range rd P r base len simd chunk buf (Some s) ((actx, w), c) =
      ((fits s (length (scan_offsets r (window (mem (rq_pid r)) base) len 0 len)), Some s'), xw, c)"
    "opt_bound bound (rq_pid r) (fst xw)" "list_sess (rq_vlen r) s'" "same_sess s s'"
    "fits s (length (scan_offsets r (window (mem (rq_pid r)) base) len 0 len)) \<Longrightarrow>
       session_recs s' = session_recs s @ map (\<lambda>off. (base + of_nat off, bytes_at (window (mem (rq_pid r)) base) off (rq_vlen r)))
         (scan_offsets r (window (mem (rq_pid r)) base) len 0 len)"
proof -
  note D = pass_okD [OF assms(1)]
  let ?R = "window (mem (rq_pid r)) base" and ?thr = "sub64 0x3FFE8 (rq_vlen r)"
  let ?offs = "scan_offsets r ?R len 0 len"
  obtain s' where s': "fold (\<lambda>off. emit r ?thr (base + of_nat off) (shift ?R off)) ?offs (True, Some s, [], c) = (fits s (length ?offs), Some s', [], c)"
      "list_sess (rq_vlen r) s'" "same_sess s s'" "fits s (length ?offs) \<longrightarrow>
        session_recs s' = session_recs s @ map (\<lambda>off. (base + of_nat off, bytes_at ?R off (rq_vlen r))) ?offs"
    using fold_emit_session [OF assms(5), of ?thr base ?R ?offs "[]" c] by blast
  from scan_pass_range_emits [OF D(1-7) assms(2-4) s'(1), of buf w] obtain xw where
    "turboscan_scan_pass_range rd P r base len simd chunk buf (Some s) ((actx, w), c) = ((fits s (length ?offs), Some s'), xw, c)"
      "opt_bound bound (rq_pid r) (fst xw)" by (auto split: if_splits)
  then show thesis using that s' by blast
qed

end

section \<open>Two threads\<close>

definition record_bytes :: "scan_request \<Rightarrow> u64 \<times> byte list \<Rightarrow> byte list" where
  "record_bytes r = (\<lambda>(a, v). le_bytes 4 (ucast (a - rq_address r) :: u32) @ v)"

lemma worker_results_conv: "worker_results r thr s st = fold (\<lambda>e. add_result thr (record_bytes r e)) (session_recs s) st"
  by (simp add: worker_results_def session_recs_def fold_map comp_def record_bytes_def case_prod_unfold)

lemma list_sess_worker: "list_sess vlen (worker_session vlen (Some b))" "session_recs (worker_session vlen q) = []"
  by (simp_all add: list_sess_def worker_session_def session_recs_def cleared_session_def)

context alias_engine
begin

lemma par_thread_ok:
  assumes "pass_ok r chunk simd" "readable (rq_pid r) (rq_address r + of_nat (pw_off u)) (pw_len u)" "rq_vlen r dvd pw_len u"
    and "opt_bound bound (rq_pid r) (pw_actx u)" "pw_buf u = Some b"
  obtains ok s x w' where "fs_par_thread rd P r simd chunk u (w, c) = ((ok, s, x), w', c)"
    "ok \<Longrightarrow> session_recs s = map (\<lambda>off. (rq_address r + of_nat (pw_off u) + of_nat off, bytes_at (window (mem (rq_pid r)) (rq_address r + of_nat (pw_off u))) off (rq_vlen r)))
       (scan_offsets r (window (mem (rq_pid r)) (rq_address r + of_nat (pw_off u))) (pw_len u) 0 (pw_len u))"
proof -
  let ?base = "rq_address r + of_nat (pw_off u)"
  let ?s = "worker_session (rq_vlen r) (Some b)" and ?offs = "scan_offsets r (window (mem (rq_pid r)) ?base) (pw_len u) 0 (pw_len u)"
  from pass_session [OF assms(1-4) list_sess_worker(1) [of "rq_vlen r" b], of "ptr_of (pw_read u)" w c] obtain xw s' where
    s': "turboscan_scan_pass_range rd P r ?base (pw_len u) simd chunk (ptr_of (pw_read u)) (Some ?s) ((pw_actx u, w), c) = ((fits ?s (length ?offs), Some s'), xw, c)"
      "fits ?s (length ?offs) \<Longrightarrow> session_recs s' = session_recs ?s @ map (\<lambda>off. (?base + of_nat off, bytes_at (window (mem (rq_pid r)) ?base) off (rq_vlen r))) ?offs"
    by blast
  then show thesis using that [of "fits ?s (length ?offs)" s' "fst xw" "snd xw"] assms(5) list_sess_worker(2)
    by (simp add: fs_par_thread_def Let_def case_prod_unfold)
qed

end

text \<open>What a worker has to find, and that the parts make up the whole.\<close>

definition worker_part :: "(u32 \<Rightarrow> u64 \<Rightarrow> byte) \<Rightarrow> scan_request \<Rightarrow> nat \<Rightarrow> nat \<Rightarrow> (u64 \<times> byte list) list" where
  "worker_part mem r off len = (let base = rq_address r + of_nat off; region = window (mem (rq_pid r)) base
     in map (\<lambda>j. (base + of_nat j, bytes_at region j (rq_vlen r))) (scan_offsets r region len 0 len))"

lemma scan_offsets_part:
  assumes "rq_step r = rq_vlen r" "0 < rq_vlen r" "rq_vlen r dvd off" "rq_vlen r dvd n" "off + n \<le> len"
  shows "map ((+) off) (scan_offsets r (shift region off) n 0 n) = scan_offsets r region len off (off + n)"
proof -
  let ?v = "rq_vlen r"
  have fit: "j + ?v \<le> n \<longleftrightarrow> off + j + ?v \<le> len" if "j < n" "?v dvd j" for j
  proof -
    have "?v dvd n - j" using assms(4) that(2) by (rule dvd_diff_nat)
    then have "?v \<le> n - j" using that(1) by (simp add: dvd_imp_le)
    then show ?thesis using that(1) assms(5) by auto
  qed
  have "scan_offsets r (shift region off) n 0 n =
      filter (\<lambda>j. ?v dvd off + j \<and> off + j + ?v \<le> len \<and> rq_match r (shift region (off + j))) [0..<n]"
    unfolding scan_offsets_def assms(1) using fit assms(3) by (intro filter_cong) (auto simp: dvd_add_right_iff)
  then show ?thesis
    using filter_shift [where P = "\<lambda>j. ?v dvd j \<and> j + ?v \<le> len \<and> rq_match r (shift region j)" and a = off and n = n]
    by (simp add: scan_offsets_def assms(1))
qed

lemma worker_part_records:
  assumes "rq_step r = rq_vlen r" "0 < rq_vlen r" "rq_vlen r dvd off" "rq_vlen r dvd n" "off + n \<le> len"
  shows "map (record_bytes r) (worker_part mem r off n) =
    map (scan_record r (window (mem (rq_pid r)) (rq_address r))) (scan_offsets r (window (mem (rq_pid r)) (rq_address r)) len off (off + n))"
proof -
  let ?R = "window (mem (rq_pid r)) (rq_address r)"
  have R: "window (mem (rq_pid r)) (rq_address r + of_nat off) = shift ?R off" by (simp add: shift_window)
  have "record_bytes r (rq_address r + of_nat off + of_nat j, bytes_at (shift ?R off) j (rq_vlen r)) = scan_record r ?R (off + j)" for j
    by (simp add: record_bytes_def scan_record_def add.assoc ucast32_of_nat flip: of_nat_add)
  then have "map (record_bytes r) (worker_part mem r off n) = map (scan_record r ?R) (map ((+) off) (scan_offsets r (shift ?R off) n 0 n))"
    by (simp add: worker_part_def Let_def R comp_def del: bytes_at_shift)
  then show ?thesis by (simp only: scan_offsets_part [OF assms])
qed

lemma par_span_props:
  assumes "0 < v" "v dvd len" "0 < len"
  shows "v dvd par_span len v" "0 < par_span len v" "len \<le> 2 * par_span len v"
proof -
  let ?h = "(len + 1) div 2"
  show "v dvd par_span len v" by (simp add: par_span_def)
  have "?h \<le> ((?h + v - 1) div v) * v" using assms(1) div_mult_mod_eq [of "?h + v - 1" v] mod_less_divisor [OF assms(1), of "?h + v - 1"] by linarith
  then have h: "?h \<le> par_span len v" by (simp add: par_span_def)
  then show "len \<le> 2 * par_span len v" by linarith
  show "0 < par_span len v" using h assms(3) by linarith
qed

lemma two_workers:
  fixes len span :: nat
  assumes "0 < span" "1 < (len + span - 1) div span" "len \<le> 2 * span"
  shows "(len + span - 1) div span = 2" "span < len" "(if span + span \<le> len then span else len - span) = len - span"
proof -
  have "(len + span - 1) div span \<le> (2 * span + span - 1) div span" using assms(3) by (intro div_le_mono) simp
  also have "\<dots> = 2" by (intro div_nat_eqI) (use assms(1) in \<open>simp_all add: algebra_simps\<close>)
  finally show "(len + span - 1) div span = 2" using assms(2) by simp
  show "span < len"
  proof (rule ccontr)
    assume "\<not> span < len"
    then have "(len + span - 1) div span \<le> (span + span - 1) div span" by (intro div_le_mono) simp
    also have "\<dots> = 1" by (intro div_nat_eqI) (use assms(1) in simp_all)
    finally show False using assms(2) by simp
  qed
  then show "(if span + span \<le> len then span else len - span) = len - span" using assms(3) by auto
qed

lemma make_par_worker_props:
  assumes "make_par_worker P pid off len (w, c) = (u, w', c')"
  shows "io c [] [] c'" "pw_off u = off" "pw_len u = len" "\<exists>v v'. o_alias_begin P pid TS_PAR_ARENA v = (pw_actx u, v')"
proof -
  obtain a c1 where 1: "malloc c = (a, c1)" by fastforce
  obtain b c2 where 2: "malloc c1 = (b, c2)" by fastforce
  obtain d c3 where 3: "malloc c2 = (d, c3)" by fastforce
  have "io c [] [] c3" using io_trans [OF malloc_io [OF 1] io_trans [OF malloc_io [OF 2] malloc_io [OF 3]]] by simp
  then show "io c [] [] c'" "pw_off u = off" "pw_len u = len" "\<exists>v v'. o_alias_begin P pid TS_PAR_ARENA v = (pw_actx u, v')"
    using assms 1 2 3 by (auto simp: make_par_worker_def Let_def split: prod.splits; blast)+
qed

lemma make_par_workers_props:
  assumes "make_par_workers P pid len span js (w, c) = (us, w', c')"
  shows "io c [] [] c'" "length us = length js"
    "\<And>i. i < length js \<Longrightarrow> pw_off (us ! i) = js ! i * span \<and>
       pw_len (us ! i) = (if js ! i * span + span \<le> len then span else len - js ! i * span) \<and> (\<exists>v v'. o_alias_begin P pid TS_PAR_ARENA v = (pw_actx (us ! i), v'))"
  using assms
proof (induction js arbitrary: w c us w' c')
  case Nil
  {
    case 1
    then show ?case by simp
  next
    case 2
    then show ?case by simp
  next
    case 3
    then show ?case by simp
  }
next
  case (Cons j js)
  let ?n = "if j * span + span \<le> len then span else len - j * span"
  have split: "\<exists>u vs v d. make_par_worker P pid (j * span) ?n (w, c) = (u, v, d) \<and> make_par_workers P pid len span js (v, d) = (vs, w', c') \<and> us = u # vs"
    if "make_par_workers P pid len span (j # js) (w, c) = (us, w', c')" for w c us w' c'
    using that by (auto simp: Let_def split: prod.splits)
  {
    case 1
    then obtain u vs v d where u: "make_par_worker P pid (j * span) ?n (w, c) = (u, v, d)" "make_par_workers P pid len span js (v, d) = (vs, w', c')"
      using split by blast
    show ?case using io_trans [OF make_par_worker_props(1) [OF u(1)] Cons(1) [OF u(2)]] by simp
  next
    case 2
    then obtain u vs v d where u: "make_par_workers P pid len span js (v, d) = (vs, w', c')" "us = u # vs" using split by blast
    then show ?case using Cons(2) [OF u(1)] by simp
  next
    case (3 i)
    then obtain u vs v d where u: "make_par_worker P pid (j * span) ?n (w, c) = (u, v, d)" "make_par_workers P pid len span js (v, d) = (vs, w', c')" "us = u # vs"
      using split by blast
    show ?case
    proof (cases i)
      case 0
      then show ?thesis using make_par_worker_props(2,3,4) [OF u(1)] u(3) by simp
    next
      case (Suc k)
      then show ?thesis using Cons(3) [of k, OF _ u(2)] 3(1) u(3) by simp
    qed
  }
qed

context alias_engine
begin

lemma par_thread_part:
  assumes "pass_ok r chunk simd" "readable (rq_pid r) (rq_address r) len" "rq_vlen r dvd pw_len u" "pw_off u + pw_len u \<le> len"
    and "opt_bound bound (rq_pid r) (pw_actx u)" "pw_buf u \<noteq> None"
  obtains ok s x w' where "fs_par_thread rd P r simd chunk u (w, c) = ((ok, s, x), w', c)" "ok \<Longrightarrow> session_recs s = worker_part mem r (pw_off u) (pw_len u)"
proof -
  obtain b where b: "pw_buf u = Some b" using assms(6) by auto
  have "readable (rq_pid r) (rq_address r + of_nat (pw_off u)) (pw_len u)" using readable_sub [OF assms(2,4)] .
  from par_thread_ok [OF assms(1) this assms(3,5) b, of w c] that show thesis unfolding worker_part_def Let_def by blast
qed

lemma begin_bound: "o_alias_begin P pid n v = (x, v') \<Longrightarrow> opt_bound bound pid x"
  using alias_begin by (auto simp: opt_bound_def)

lemma parallel_stream_ok:
  assumes "pass_ok r chunk simd" "readable (rq_pid r) (rq_address r) len" "rq_vlen r dvd len" "quiet c"
    and run: "turboscan_parallel_stream rd P flags r len simd chunk actx (w, c) = (h, w', c')"
  shows "\<exists>bs. (if h then run_stream 0x40000 (stream_of mem r len) bs else bs = []) \<and> io c [] bs c'"
proof -
  let ?v = "rq_vlen r" let ?span = "par_span len ?v" let ?nw = "(len + ?span - 1) div ?span"
  have v: "0 < ?v" using pass_okD [OF assms(1)] by simp
  show ?thesis
  proof (cases "\<not> ts_flag flags 0x80 \<or> simd = None \<or> actx = None \<or> len < ?v * 2 \<or> ?span = 0 \<or> ?nw \<le> 1 \<or> ?nw > 2")
    case True
    then have "h = False" "c' = c" using run by (auto simp: turboscan_parallel_stream_def Let_def)
    then show ?thesis by simp
  next
    case False
    have len: "0 < len" using False v by auto
    note sp = par_span_props [OF v assms(3) len]
    have "1 < ?nw" using False by auto
    note two = two_workers [OF sp(2) this sp(3)]
    have step: "rq_step r = ?v" using False pass_okD(2) [OF assms(1)] by (auto simp: simd_fits_def)
    obtain q c1 where 1: "malloc c = (q, c1)" by fastforce
    obtain us w2 c2 where 2: "make_par_workers P (rq_pid r) len ?span [0..<?nw] (w, c1) = (us, w2, c2)" by (cases "make_par_workers P (rq_pid r) len ?span [0..<?nw] (w, c1)")
    note mk = make_par_workers_props [OF 2, unfolded two(1)]
    have io2: "io c [] [] c2" using io_trans [OF malloc_io [OF 1] mk(1)] by simp
    have "length us = 2" using mk(2) by simp
    then obtain u0 u1 where us: "us = [u0, u1]" by (auto simp: length_Suc_conv numeral_2_eq_2)
    have u0: "pw_off u0 = 0" "pw_len u0 = ?span" "opt_bound bound (rq_pid r) (pw_actx u0)"
      using mk(3) [of 0] two(2) begin_bound by (auto simp: us)
    have u1: "pw_off u1 = ?span" "pw_len u1 = len - ?span" "opt_bound bound (rq_pid r) (pw_actx u1)"
      using mk(3) [of 1] two(3) begin_bound by (auto simp: us)
    define bad where "bad = (\<exists>u\<in>set us. pw_read u = None \<or> pw_offs u = None \<or> pw_buf u = None \<or> pw_actx u = None)"
    have guard: "(\<not> ts_flag flags 0x80 \<or> simd = None \<or> actx = None \<or> len < ?v * 2 \<or> ?span = 0 \<or> ?nw \<le> 1 \<or> ?nw > 2) = False"
      using False by blast
    note eq = run [unfolded turboscan_parallel_stream_def Let_def prod.case guard if_False 1 2 bad_def [symmetric]]
    show ?thesis
    proof (cases "q = None \<or> bad")
      case True
      then have "h = False \<and> io c [] [] c'"
        using eq io2 malloc_io [OF 1] by (cases q) auto
      then show ?thesis by simp
    next
      case ok: False
      then have bufs: "pw_buf u0 \<noteq> None" "pw_buf u1 \<noteq> None" by (auto simp: us bad_def)
      have d1: "?v dvd len - ?span" using sp(1) assms(3) by (simp add: dvd_diff_nat)
      have p0: "?v dvd pw_len u0" "pw_off u0 + pw_len u0 \<le> len" using sp(1) two(2) by (simp_all add: u0)
      have p1: "?v dvd pw_len u1" "pw_off u1 + pw_len u1 \<le> len" using d1 two(2) by (simp_all add: u1)
      obtain ok0 s0 x0 w3 where t0: "fs_par_thread rd P r simd chunk u0 (w2, c2) = ((ok0, s0, x0), w3, c2)"
          "ok0 \<Longrightarrow> session_recs s0 = worker_part mem r 0 ?span"
        using par_thread_part [OF assms(1,2) p0 u0(3) bufs(1), of w2 c2] unfolding u0(1,2) by blast
      obtain ok1 s1 x1 w4 where t1: "fs_par_thread rd P r simd chunk u1 (w3, c2) = ((ok1, s1, x1), w4, c2)"
          "ok1 \<Longrightarrow> session_recs s1 = worker_part mem r ?span (len - ?span)"
        using par_thread_part [OF assms(1,2) p1 u1(3) bufs(2), of w3 c2] unfolding u1(1,2) by blast
      have rw: "run_par_workers rd P r simd chunk us (w2, c2) = ([(ok0, s0, x0), (ok1, s1, x1)], w4, c2)"
        by (simp add: us t0(1) t1(1))
      obtain q3 c3 where 3: "malloc c2 = (q3, c3)" by fastforce
      have io3: "io c [] [] c3" using io_trans [OF io2 malloc_io [OF 3]] by simp
      show ?thesis
      proof (cases "ok0 \<and> ok1 \<and> q3 \<noteq> None")
        case no: False
        then have "h = False \<and> io c [] [] c'"
          using eq ok rw 3 io2 io3 by (cases q; cases q3) (auto split: if_splits)
        then show ?thesis by simp
      next
        case yes: True
        let ?recs = "session_recs s0 @ session_recs s1"
        have h: h "c' = flush_results (fold (\<lambda>e. add_result (sub64 0x3FFE8 ?v) (record_bytes r e)) ?recs ([], c3))"
          using eq ok rw 3 yes by (auto simp: worker_results_conv)
        have all: "map (record_bytes r) ?recs = stream_of mem r len"
          using t0(2) t1(2) yes worker_part_records [OF step v, of 0 ?span len mem] worker_part_records [OF step v sp(1) d1, of len mem] sp(1) two(2)
          by (simp add: scan_offsets_def upt_split [of 0 ?span len])
        have q3: "quiet c3" using io_fields(1) [OF io3] assms(4) by simp
        have "sub64 0x3FFE8 ?v = 0x3FFE8 - ?v" using pass_okD(8) [OF assms(1)] by (simp add: sub64_ge)
        moreover have "length (record_bytes r e) = 4 + ?v" if "e \<in> set ?recs" for e
          using that t0(2) t1(2) yes by (auto simp: worker_part_def Let_def record_bytes_def)
        ultimately have "streamed c3 0x40000 ([] @ map (record_bytes r) (filter (\<lambda>_. True) ?recs))
            (fold (\<lambda>e st. if True then add_result (sub64 0x3FFE8 ?v) (record_bytes r e) st else st) ?recs ([], c3))"
          using q3 pass_okD(8) [OF assms(1)] by (intro streamed_fold streamed_Nil) auto
        then have "streamed c3 0x40000 (stream_of mem r len) (fold (\<lambda>e. add_result (sub64 0x3FFE8 ?v) (record_bytes r e)) ?recs ([], c3))"
          using all by simp
        from streamed_flush [OF this q3] obtain bs where bs: "run_stream 0x40000 (stream_of mem r len) bs" "io c3 [] bs c'"
          using h(2) by auto
        then show ?thesis using h(1) io_trans [OF io3 bs(2)] by (intro exI [of _ bs]) simp
      qed
    qed
  qed
qed

end

section \<open>The command\<close>

text \<open>A turbo request as a request of the plain scan.\<close>

definition plain_start :: "cmd_proc_turboscan_start_packet \<Rightarrow> cmd_proc_scan_start_packet" where
  "plain_start sp = \<lparr>ss_pid = tp_pid sp, ss_address = tp_address sp, ss_length = tp_length sp, ss_valueType = tp_valueType sp,
     ss_compareType = tp_compareType sp, ss_alignment = tp_alignment sp, ss_lenData = tp_lenData sp\<rparr>"

lemma plain_start_sel [simp]:
  "ss_pid (plain_start sp) = tp_pid sp" "ss_address (plain_start sp) = tp_address sp" "ss_length (plain_start sp) = tp_length sp"
  "ss_valueType (plain_start sp) = tp_valueType sp" "ss_compareType (plain_start sp) = tp_compareType sp"
  "ss_alignment (plain_start sp) = tp_alignment sp" "ss_lenData (plain_start sp) = tp_lenData sp"
  by (simp_all add: plain_start_def)

lemma turbo_request_plain: "turbo_request sp vl p m = start_request (plain_start sp) vl p m"
  by (simp add: turbo_request_def start_request_def)

lemma turbo_needs_plain: "turbo_needs_value sp = start_needs_value (plain_start sp)"
  by (simp add: turbo_needs_value_def start_needs_value_def)

text \<open>
  The vector search of an exact scan compares floating point values bit for bit and knows no type
  above ten: it is used for one of these where the steps are as long as the values.
\<close>

definition plain_compare :: "cmd_proc_turboscan_start_packet \<Rightarrow> nat \<Rightarrow> bool" where
  "plain_compare sp vl \<longleftrightarrow> (tp_compareType sp = 0 \<and> tp_valueType sp \<noteq> 10 \<and> (tp_alignment sp = 0 \<or> unat (tp_alignment sp) = vl) \<longrightarrow> tp_valueType sp \<le> 7)"

lemma turbo_pass_ok:
  assumes wf: "wf_client (plain_start sp) vl ps ms" and pc: "plain_compare sp vl" and q: "quiet c"
  obtains simd d where "turbo_simd sp (turbo_request sp vl p m) (window_size vl) c = (simd, d)" "io c [] [] d"
    "pass_ok (turbo_request sp vl p m) (window_size vl) simd"
proof -
  let ?r = "turbo_request sp vl p m" and ?chunk = "window_size vl"
  have vl: "0 < vl" "vl \<le> 0x3FFE8" using wf_client_vl [OF wf] wf_clientD(4) [OF wf] by simp_all
  note ws = window_size_bounds [of vl]
  have sel: "rq_vlen ?r = vl" "rq_cmp ?r = tp_compareType sp" "rq_val ?r = tp_valueType sp"
      "rq_step ?r = (if tp_alignment sp \<noteq> 0 then unat (tp_alignment sp) else vl)"
    by (simp_all add: turbo_request_def)
  have step: "rq_step ?r = rq_step (client_request (plain_start sp) vl ps ms)"
    by (simp add: turbo_request_plain client_request_def start_request_def)
  have w: "wf_request ?r"
    using wf_clientD(5) [OF wf] size_bounds [of "tp_valueType sp"] vl
    by (auto simp: wf_request_def turbo_request_def unat_gt_0)
  have base: "pass_ok ?r ?chunk simd" if "simd_fits ?r ?chunk simd" for simd
    using that w wf_clientD(6,7) [OF wf] ws vl unfolding pass_ok_def step sel(1) by auto
  show thesis
  proof (cases "tp_compareType sp = 0 \<and> tp_valueType sp \<noteq> 10 \<and> rq_step ?r = rq_vlen ?r \<and> rq_pattern ?r \<noteq> None")
    case True
    have "1 \<le> ?chunk div vl" using ws vl div_le_mono [of vl ?chunk vl] by simp
    then obtain b d where b: "net_alloc_buffer (?chunk div vl * 4) c = (Some b, d)" "io c [] [] d"
      using io_alloc [OF q, of "?chunk div vl * 4"] by auto
    have "simd_fits ?r ?chunk (Some (?chunk div vl))"
      using True pc ws(3) vl sel by (auto simp: simd_fits_def plain_compare_def split: if_splits)
    moreover have "turbo_simd sp ?r ?chunk c = (Some (?chunk div vl), d)" using True b(1) by (simp add: turbo_simd_def sel(1))
    ultimately show thesis using that base b(2) by blast
  next
    case False
    then have "turbo_simd sp ?r ?chunk c = (None, c)" by (simp only: turbo_simd_def if_False)
    moreover have "simd_fits ?r ?chunk None" by (simp add: simd_fits_def)
    ultimately show thesis using that base by auto
  qed
qed

abbreviation sent_request :: "cmd_proc_turboscan_start_packet \<Rightarrow> nat \<Rightarrow> byte list \<Rightarrow> byte list \<Rightarrow> ptr option \<Rightarrow> ptr option \<Rightarrow> scan_request" where
  "sent_request sp vl ps ms p m \<equiv> turbo_request sp vl (map_option (\<lambda>q. blit q 0 ps) p) (map_option (\<lambda>q. blit q 0 ms) m)"

lemma start_handle_scan:
  assumes "quiet c" "auth_granted c" "data packet = Some dp"
    and "turboscan_start_packet dp = sp" "wf_client (plain_start sp) vl ps ms" "plain_compare sp vl" "rx c = ps @ ms @ rest"
    and "\<not> ts_flag (tp_flags sp) 4"
  obtains p m rb simd d where "proc_turboscan_start_handle rd P packet idx (t, c) =
      start_scan rd P idx sp (sent_request sp vl ps ms p m) simd (window_size vl) rb (t, d)"
    "io c (ps @ ms) (status CMD_SUCCESS @ status CMD_SUCCESS) d" "rx d = rest"
    "pass_ok (sent_request sp vl ps ms p m) (window_size vl) simd"
    "(p = None) = (\<not> start_needs_value (plain_start sp))" "(m = None) = (tp_valueType sp \<noteq> 10)"
proof -
  let ?L = "unat (tp_lenData sp)" and ?needs = "turbo_needs_value sp \<and> tp_lenData sp \<noteq> 0" and ?arr = "tp_valueType sp = 10"
  note D = wf_clientD [OF assms(5), simplified] and vl = wf_client_vl [OF assms(5)]
  note vl_eq = wf_clientD(5) [OF assms(5), unfolded plain_start_sel, symmetric]
  have L: "0 < ?L" using D(2) by (simp add: unat_gt_0)
  obtain p c1 where 1: "(if ?needs then net_alloc_buffer ?L c else (None, c)) = (p, c1)"
      "(p = None) = (\<not> ?needs)" "io c [] [] c1" using io_opt_alloc [OF assms(1) L] by metis
  have q1: "quiet c1" using io_fields [OF 1(3)] assms(1) by simp
  let ?c2 = "send_int32 CMD_SUCCESS c1"
  have q2: "quiet ?c2" "rx ?c2 = ps @ ms @ rest" using q1 io_fields [OF 1(3)] assms(7) by simp_all
  have pn: "(p = None) = (\<not> start_needs_value (plain_start sp))" using 1(2) D(2) by (simp add: turbo_needs_plain)
  have lp: "length ps = (if p = None then 0 else nat (c_int (tp_lenData sp)))"
    using pn D(9,10) nat_c_int [of "tp_lenData sp"] D(3) by auto
  obtain c3 where 3: "recv_opt p (c_int (tp_lenData sp)) ?c2 = (map_option (\<lambda>q. blit q 0 ps) p, c3)"
      "io ?c2 ps [] c3" "rx c3 = ms @ rest" using io_recv_opt [OF q2 lp] by metis
  have q3: "quiet c3" using io_fields [OF 3(2)] q2 by simp
  obtain m c4 where 4: "(if ?arr then net_alloc_buffer vl c3 else (None, c3)) = (m, c4)"
      "(m = None) = (\<not> ?arr)" "io c3 [] [] c4" using io_opt_alloc [OF q3 vl] by metis
  have q4: "quiet c4" "rx c4 = ms @ rest" using io_fields [OF 4(3)] q3 3(3) by simp_all
  have "unat (of_nat vl :: u32) = vl" using D(4) by (simp add: unat_of_nat)
  then have lm: "length ms = (if m = None then 0 else nat (c_int (of_nat vl)))"
    using 4(2) D(4,11,12) nat_c_int [of "of_nat vl"] by auto
  obtain c5 where 5: "recv_opt m (c_int (of_nat vl)) c4 = (map_option (\<lambda>q. blit q 0 ms) m, c5)" "io c4 ms [] c5" "rx c5 = rest"
    using io_recv_opt [OF q4 lm] by metis
  have q5: "quiet c5" using io_fields [OF 5(2)] q4 by simp
  let ?r = "sent_request sp vl ps ms p m"
  have "0 < window_size vl" using window_size_bounds [of vl] vl D(4) by simp
  then obtain rb c6 where 6: "net_alloc_buffer (window_size vl) c5 = (Some rb, c6)" "io c5 [] [] c6"
    using io_alloc [OF q5] by metis
  have q6: "quiet c6" using io_fields [OF 6(2)] q5 by simp
  obtain sb c7 where 7: "net_alloc_buffer 0x40000 c6 = (Some sb, c7)" "io c6 [] [] c7"
    using io_alloc [OF q6, of "0x40000"] by auto
  have q7: "quiet c7" using io_fields [OF 7(2)] q6 by simp
  obtain simd c8 where 8: "turbo_simd sp ?r (window_size vl) c7 = (simd, c8)" "io c7 [] [] c8" "pass_ok ?r (window_size vl) simd"
    using turbo_pass_ok [OF assms(5,6) q7] by blast
  have q8: "quiet c8" using io_fields [OF 8(2)] q7 by simp
  let ?d = "send_int32 CMD_SUCCESS c8"
  have guards: "(\<not> auth_granted c) = False" "(tp_compareType sp > 12 \<or> tp_lenData sp = 0 \<and> \<not> False) = False"
      "(?needs \<and> p = None) = False" "(?arr \<and> m = None) = False" "(Some rb = None \<or> Some sb = None) = False" "(vl = 0) = False"
      "ts_flag (tp_flags sp) 4 = False"
    using D(1,2) assms(2,8) 1(2) 4(2) vl by auto
  have eq: "proc_turboscan_start_handle rd P packet idx (t, c) = start_scan rd P idx sp ?r simd (window_size vl) rb (t, ?d)"
    unfolding proc_turboscan_start_handle_def Let_def assms(3) option.case assms(4) prod.case
    by (simp only: guards if_False 1(1) prod.case 3(1) vl_eq 4(1) 5(1) 6(1) 7(1) 8(1) option.sel)
  have "io c (ps @ ms) (status CMD_SUCCESS @ status CMD_SUCCESS) ?d"
    using io_trans [OF 1(3) io_trans [OF io_send_int32 [OF q1] io_trans [OF 3(2) io_trans [OF 4(3) io_trans [OF 5(2)
     io_trans [OF 6(2) io_trans [OF 7(2) io_trans [OF 8(2) io_send_int32 [OF q8, of CMD_SUCCESS]]]]]]]]] by simp
  moreover have "rx ?d = rest" using io_fields(2) [OF 6(2)] io_fields(2) [OF 7(2)] io_fields(2) [OF 8(2)] 5(3) by simp
  ultimately show thesis using that eq 8(3) pn 4(2) by blast
qed

section \<open>Scans that stream\<close>

definition turbo_shape :: "(u32 \<Rightarrow> 'x \<Rightarrow> bool) \<Rightarrow> ('o, 'x) turbo \<Rightarrow> bool" where
  \<comment> \<open>a slot for each client, and alias contexts that are bound to some process\<close>
  "turbo_shape bound t \<longleftrightarrow> length (g_turboscan_sess t) = TS_MAX_CLIENTS \<and> length (g_turboscan_alias t) = TS_MAX_CLIENTS \<and>
     (\<forall>x. Some x \<in> set (g_turboscan_alias t) \<longrightarrow> (\<exists>pid. bound pid x))"

lemma turbo_shape_alias: "turbo_shape bound t \<Longrightarrow> opt_bound bound pid actx \<Longrightarrow> turbo_shape bound (t\<lparr>os := w, g_turboscan_alias := (g_turboscan_alias t)[i := actx]\<rparr>)"
  by (auto simp: turbo_shape_def opt_bound_def dest!: subsetD [OF set_update_subset_insert])

lemma turbo_shape_put: "turbo_shape bound t \<Longrightarrow> opt_bound bound pid actx \<Longrightarrow> turbo_shape bound (put_alias idx actx t)"
  using turbo_shape_alias [where w = "os t" and i = "unat idx" and t = t] by (cases actx) (force simp: put_alias_def)+

lemma put_alias_sess [simp]: "g_turboscan_sess (put_alias idx actx t) = g_turboscan_sess t"
  by (simp add: put_alias_def split: option.splits)

lemma turbo_shape_os [simp]: "turbo_shape bound (t\<lparr>os := w\<rparr>) = turbo_shape bound t"
  by (simp add: turbo_shape_def)

context alias_engine
begin

lemma acquire_ok:
  assumes "turbo_shape bound t" "turboscan_alias_acquire P idx pid t = (actx, t')"
  shows "opt_bound bound pid actx" "turbo_shape bound t'" "g_turboscan_sess t' = g_turboscan_sess t"
proof -
  consider "TS_MAX_CLIENTS \<le> unat idx" | x w where "unat idx < TS_MAX_CLIENTS" "actx = x" "opt_bound bound pid x"
      "t' = t\<lparr>os := w, g_turboscan_alias := (g_turboscan_alias t)[unat idx := x]\<rparr>"
  proof (cases "TS_MAX_CLIENTS \<le> unat idx")
    case False
    show thesis
    proof (cases "g_turboscan_alias t ! unat idx")
      case None
      obtain x w where "o_alias_begin P pid 0 (os t) = (x, w)" by fastforce
      then show thesis using None False assms(2) begin_bound that(2) [of x w] by (auto simp: turboscan_alias_acquire_def Let_def)
    next
      case (Some y)
      then have "Some y \<in> set (g_turboscan_alias t)" using False assms(1) nth_mem [of "unat idx" "g_turboscan_alias t"] by (simp add: turbo_shape_def)
      then obtain pid' where y: "bound pid' y" using assms(1) by (auto simp: turbo_shape_def)
      obtain x w where x: "o_alias_rebind P pid y (os t) = (x, w)" by fastforce
      then have "opt_bound bound pid (Some x)" using alias_rebind [OF y] by (auto simp: opt_bound_def)
      then show thesis using Some False assms(2) x that(2) [of "Some x" w] by (auto simp: turboscan_alias_acquire_def Let_def)
    qed
  qed (use that in blast)
  then have "opt_bound bound pid actx \<and> turbo_shape bound t' \<and> g_turboscan_sess t' = g_turboscan_sess t"
  proof cases
    case 1
    then show ?thesis using assms by (auto simp: turboscan_alias_acquire_def opt_bound_def)
  next
    case 2
    then show ?thesis using turbo_shape_alias [OF assms(1)] by auto
  qed
  then show "opt_bound bound pid actx" "turbo_shape bound t'" "g_turboscan_sess t' = g_turboscan_sess t" by blast+
qed

lemma start_stream_ok:
  assumes "pass_ok r chunk simd" "readable (rq_pid r) (rq_address r) (unat (tp_length sp))" "rq_vlen r dvd unat (tp_length sp)" "opt_bound bound (rq_pid r) actx" "quiet c"
    and "tp_address sp = rq_address r"
  obtains bs actx' w c' where "start_stream rd P sp r simd chunk buf actx (t, c) = (actx', t\<lparr>os := w\<rparr>, c')" "opt_bound bound (rq_pid r) actx'"
    "run_stream 0x40000 (stream_of mem r (unat (tp_length sp))) bs" "io c [] (bs @ sentinel64) c'"
proof -
  let ?len = "unat (tp_length sp)"
  obtain h w1 c1 where 1: "turboscan_parallel_stream rd P (tp_flags sp) r ?len simd chunk actx (os t, c) = (h, w1, c1)"
    by (cases "turboscan_parallel_stream rd P (tp_flags sp) r ?len simd chunk actx (os t, c)")
  obtain bs where bs: "if h then run_stream 0x40000 (stream_of mem r ?len) bs else bs = []" "io c [] bs c1"
    using parallel_stream_ok [OF assms(1-3,5) 1] by blast
  have q1: "quiet c1" using io_fields(1) [OF bs(2)] assms(5) by simp
  show thesis
  proof (cases h)
    case True
    have "io c [] (bs @ sentinel64) (send_all sentinel64 c1)" using io_trans [OF bs(2) io_send_all [OF q1]] by simp
    then show thesis using that [of actx w1 "send_all sentinel64 c1" bs] True 1 assms(4) bs(1) by (simp add: start_stream_def Let_def)
  next
    case False
    obtain xw bs2 c2 where 2: "turboscan_scan_pass_range rd P r (rq_address r) ?len simd chunk buf None ((actx, w1), c1) = ((True, None), xw, c2)"
      "opt_bound bound (rq_pid r) (fst xw)" "run_stream 0x40000 (stream_of mem r ?len) bs2" "io c1 [] bs2 c2"
      using pass_stream [OF assms(1-4) q1] by blast
    have q2: "quiet c2" using io_fields(1) [OF 2(4)] q1 by simp
    have "bs = []" using bs(1) False by simp
    then have "io c [] (bs2 @ sentinel64) (send_all sentinel64 c2)" using io_trans [OF bs(2) io_trans [OF 2(4) io_send_all [OF q2]]] by simp
    then show thesis using that [of "fst xw" "snd xw" "send_all sentinel64 c2" bs2] False 1 2(1-3) assms(6)
      by (simp add: start_stream_def Let_def case_prod_unfold)
  qed
qed

lemma finish_scan_ok:
  assumes "opt_bound bound pid actx" "quiet c" "turbo_shape bound t"
  obtains t' where "finish_scan P idx actx (t, c) = (0, t', send_int32 CMD_SUCCESS c)" "turbo_shape bound t'" "g_turboscan_sess t' = g_turboscan_sess t"
proof -
  obtain x w where r: "alias_release P (actx, os t) = (x, w)" by fastforce
  then have "opt_bound bound pid x" using release_bound [OF assms(1)] by blast
  then show thesis using that r turbo_shape_put [of bound "t\<lparr>os := w\<rparr>" pid x idx] assms(3) by (simp add: finish_scan_def)
qed

lemma start_scan_stream:
  assumes "pass_ok r chunk simd" "readable (rq_pid r) (rq_address r) (unat (tp_length sp))" "rq_vlen r dvd unat (tp_length sp)" "quiet c"
    and "tp_address sp = rq_address r" "tp_pid sp = rq_pid r" "turbo_shape bound t" "\<not> ts_flag (tp_flags sp) 2"
  obtains bs t' c' where "start_scan rd P idx sp r simd chunk buf (t, c) = (0, t', c')" "turbo_shape bound t'" "g_turboscan_sess t' = g_turboscan_sess t"
    "run_stream 0x40000 (stream_of mem r (unat (tp_length sp))) bs" "io c [] (bs @ sentinel64 @ status CMD_SUCCESS) c'"
proof -
  obtain actx t1 where 1: "(if ts_flag (tp_flags sp) 1 then turboscan_alias_acquire P idx (tp_pid sp) t else (None, t)) = (actx, t1)" by fastforce
  have a: "opt_bound bound (rq_pid r) actx" "turbo_shape bound t1" "g_turboscan_sess t1 = g_turboscan_sess t"
    using 1 acquire_ok [OF assms(7)] assms(6,7) by (auto simp: opt_bound_def split: if_splits)
  obtain bs actx2 w c2 where 2: "start_stream rd P sp r simd chunk buf actx (t1, c) = (actx2, t1\<lparr>os := w\<rparr>, c2)" "opt_bound bound (rq_pid r) actx2"
    "run_stream 0x40000 (stream_of mem r (unat (tp_length sp))) bs" "io c [] (bs @ sentinel64) c2"
    by (rule start_stream_ok [OF assms(1-3) a(1) assms(4,5), of buf t1]) (rule that)
  have q2: "quiet c2" using io_fields(1) [OF 2(4)] assms(4) by simp
  have sh: "turbo_shape bound (t1\<lparr>os := w\<rparr>)" using a(2) by simp
  obtain t' where 3: "finish_scan P idx actx2 (t1\<lparr>os := w\<rparr>, c2) = (0, t', send_int32 CMD_SUCCESS c2)" "turbo_shape bound t'"
      "g_turboscan_sess t' = g_turboscan_sess (t1\<lparr>os := w\<rparr>)"
    by (rule finish_scan_ok [OF 2(2) q2 sh]) (rule that)
  have "start_scan rd P idx sp r simd chunk buf (t, c) = (0, t', send_int32 CMD_SUCCESS c2)"
    using assms(8) 1 2(1) 3(1) by (simp add: start_scan_def Let_def)
  moreover have "io c [] (bs @ sentinel64 @ status CMD_SUCCESS) (send_int32 CMD_SUCCESS c2)"
    using io_trans [OF 2(4) io_send_int32 [OF q2]] by simp
  moreover have "g_turboscan_sess t' = g_turboscan_sess t" using 3(3) a(3) by simp
  ultimately show thesis using that 2(3) 3(2) by blast
qed

end

lemma client_stream:
  assumes "wf_client (plain_start sp) vl ps ms" "(p = None) = (\<not> start_needs_value (plain_start sp))" "(m = None) = (tp_valueType sp \<noteq> 10)"
  shows "scan_offsets (sent_request sp vl ps ms p m) region len lo hi = scan_offsets (client_request (plain_start sp) vl ps ms) region len lo hi"
    "scan_record (sent_request sp vl ps ms p m) = scan_record (client_request (plain_start sp) vl ps ms)"
proof -
  let ?r = "sent_request sp vl ps ms p m" and ?r' = "client_request (plain_start sp) vl ps ms"
  have m: "rq_match ?r = rq_match ?r'" using client_match [OF assms(1,2)] assms(3) by (simp add: turbo_request_plain)
  have f: "rq_vlen ?r = rq_vlen ?r'" "rq_step ?r = rq_step ?r'" by (simp_all add: turbo_request_plain client_request_def start_request_def)
  show "scan_offsets ?r region len lo hi = scan_offsets ?r' region len lo hi" "scan_record ?r = scan_record ?r'"
    using m f by (simp_all add: scan_offsets_def scan_record_def [abs_def])
qed


end
