(* ===== verification/TurboStart.thy ===== *)
theory TurboStart
  imports TurboScanProps
begin

text \<open>
  Turbo scans that keep their matches on the server, in the session of the client, and examples
  for the start of a scan.
\<close>

section \<open>Segments\<close>

lemma read_segs_enc: "read_segs (blit q 0 (concat (map enc_range segs))) (length segs) = segs"
proof (rule nth_equalityI)
  fix k assume "k < length (read_segs (blit q 0 (concat (map enc_range segs))) (length segs))"
  then have k: "k < length segs" by (simp add: read_segs_def)
  show "read_segs (blit q 0 (concat (map enc_range segs))) (length segs) ! k = segs ! k"
    using enc_range_loads [OF k, of "fst (segs ! k)" "snd (segs ! k)" q] k by (simp add: read_segs_def)
qed (simp add: read_segs_def)

definition enc_segs :: "(u64 \<times> u32) list \<Rightarrow> byte list" where
  "enc_segs segs = le_bytes 4 (of_nat (length segs) :: u32) @ concat (map enc_range segs)"

lemma recv_segments_ok:
  assumes "quiet c" "rx c = enc_segs segs @ rest" "segs \<noteq> []" "length segs \<le> TS_SNAP_MAX_SEGS"
  obtains d where "recv_segments chunk buf c = (Some segs, d)" "io c (enc_segs segs) [] d" "rx d = rest"
proof -
  let ?n = "length segs" and ?body = "concat (map enc_range segs)"
  have "rx c = le_bytes 4 (of_nat ?n :: u32) @ ?body @ rest" using assms(2) by (simp add: enc_segs_def)
  then obtain c1 where 1: "recv_all (\<lambda>_. 0) 4 c = (blit (\<lambda>_. 0) 0 (le_bytes 4 (of_nat ?n :: u32)), c1)" "io c (le_bytes 4 (of_nat ?n :: u32)) [] c1" "rx c1 = ?body @ rest"
    using io_recv [OF assms(1), of "le_bytes 4 (of_nat ?n :: u32)" "?body @ rest" 4 "\<lambda>_. 0"] by auto
  have q1: "quiet c1" using io_fields(1) [OF 1(2)] assms(1) by simp
  have ld: "ld32 (blit (\<lambda>_. 0) 0 (le_bytes 4 (of_nat ?n :: u32))) = (of_nat ?n :: u32)"
    using le_load_blit_same [where 'a = 32, of 4 "\<lambda>_. 0" 0 "of_nat ?n"] by simp
  have n: "unat (of_nat ?n :: u32) = ?n" using assms(4) by (simp add: unat_of_nat TS_SNAP_MAX_SEGS_def)
  obtain q c2 where 2: "malloc c1 = (Some q, c2)" using q1 by (auto simp: malloc_def quiet_def)
  have io2: "io c1 [] [] c2" using malloc_io [OF 2] .
  have q2: "quiet c2" "rx c2 = ?body @ rest" using io_fields [OF io2] q1 1(3) by simp_all
  have len: "nat (int (?n * 12)) = length ?body" by (simp add: length_concat_enc)
  obtain d where 3: "recv_all q (int (?n * 12)) c2 = (blit q 0 ?body, d)" "io c2 ?body [] d" "rx d = rest"
    using io_recv [OF q2 len] by blast
  have "recv_segments chunk buf c = (Some segs, d)"
    using 1(1) 2 3(1) assms(3,4) by (simp add: recv_segments_def Let_def ld n read_segs_enc Suc_le_eq)
  moreover have "io c (enc_segs segs) [] d" using io_trans [OF 1(2) io_trans [OF io2 3(2)]] by (simp add: enc_segs_def)
  ultimately show thesis using that 3(3) by blast
qed

section \<open>The pass over the segments\<close>

definition seg_hits :: "(u64 \<Rightarrow> byte) \<Rightarrow> scan_request \<Rightarrow> u64 \<times> u32 \<Rightarrow> (u64 \<times> byte list) list" where
  "seg_hits m r = (\<lambda>(a, len). map (\<lambda>off. (a + of_nat off, bytes_at (window m a) off (rq_vlen r))) (scan_offsets r (window m a) (unat len) 0 (unat len)))"

abbreviation all_hits :: "(u64 \<Rightarrow> byte) \<Rightarrow> scan_request \<Rightarrow> (u64 \<times> u32) list \<Rightarrow> (u64 \<times> byte list) list" where
  "all_hits m r segs \<equiv> concat (map (seg_hits m r) segs)"

context alias_engine
begin

lemma resident_pass_ok:
  assumes "pass_ok r chunk simd" "opt_bound bound (rq_pid r) actx" "list_sess (rq_vlen r) s"
    and "\<forall>(a, n)\<in>set segs. readable (rq_pid r) a (unat n) \<and> rq_vlen r dvd unat n" "fits s (length (all_hits (mem (rq_pid r)) r segs))"
  shows "\<exists>s' xw. resident_pass rd P r simd chunk buf segs s ((actx, w), c) = ((True, s'), xw, c) \<and> opt_bound bound (rq_pid r) (fst xw)
    \<and> list_sess (rq_vlen r) s' \<and> same_sess s s' \<and> session_recs s' = session_recs s @ all_hits (mem (rq_pid r)) r segs"
  using assms(2-5)
proof (induction segs arbitrary: s actx w)
  case Nil
  then show ?case by simp
next
  case (Cons g segs)
  obtain a n where g: "g = (a, n)" by fastforce
  let ?R = "window (mem (rq_pid r)) a" let ?offs = "scan_offsets r ?R (unat n) 0 (unat n)"
  have rd: "readable (rq_pid r) a (unat n)" "rq_vlen r dvd unat n" using Cons.prems(3) by (auto simp: g)
  have total: "length (all_hits (mem (rq_pid r)) r (g # segs)) = length ?offs + length (all_hits (mem (rq_pid r)) r segs)"
    by (simp add: g seg_hits_def)
  have f: "fits s (length ?offs)" using Cons.prems(4) unfolding total by (auto simp: fits_def algebra_simps)
  obtain xw s1 where 1: "turboscan_scan_pass_range rd P r a (unat n) simd chunk buf (Some s) ((actx, w), c) = ((fits s (length ?offs), Some s1), xw, c)"
      "opt_bound bound (rq_pid r) (fst xw)" "list_sess (rq_vlen r) s1" "same_sess s s1"
      "fits s (length ?offs) \<Longrightarrow> session_recs s1 = session_recs s @ map (\<lambda>off. (a + of_nat off, bytes_at ?R off (rq_vlen r))) ?offs"
    by (rule pass_session [OF assms(1) rd Cons.prems(1,2)]) (rule that)
  have recs: "session_recs s1 = session_recs s @ seg_hits (mem (rq_pid r)) r g" using 1(5) [OF f] by (simp add: g seg_hits_def)
  have "length (session_recs s1) = ts_count s1" "length (session_recs s) = ts_count s" by (simp_all add: session_recs_def)
  then have "ts_count s1 = ts_count s + length ?offs" using recs by (simp add: g seg_hits_def)
  then have f1: "fits s1 (length (all_hits (mem (rq_pid r)) r segs))"
    using Cons.prems(4) same_sess_sel [OF 1(4)] unfolding total by (simp add: fits_def add.assoc)
  obtain s' yw where 2: "resident_pass rd P r simd chunk buf segs s1 (xw, c) = ((True, s'), yw, c)" "opt_bound bound (rq_pid r) (fst yw)"
      "list_sess (rq_vlen r) s'" "same_sess s1 s'" "session_recs s' = session_recs s1 @ all_hits (mem (rq_pid r)) r segs"
    using Cons.IH [OF 1(2,3) _ f1, of "snd xw"] Cons.prems(3) by auto
  show ?case
    using 1(1) f 2 recs same_sess_trans [OF 1(4) 2(4)] by (simp add: g)
qed

lemma start_resident_ok:
  assumes "pass_ok r chunk simd" "opt_bound bound (rq_pid r) actx" "turbo_shape bound t" "unat idx < TS_MAX_CLIENTS" "quiet c" "rq_vlen r \<le> 0x1000"
    and "\<forall>(a, n)\<in>set segs. readable (rq_pid r) a (unat n) \<and> rq_vlen r dvd unat n"
    and cap: "cap = (if g_turboscan_cap_override t \<noteq> 0 then g_turboscan_cap_override t else TS_RESIDENT_CAP)"
    and "\<And>w. fst (o_mmap P cap w) \<noteq> None" "length (all_hits (mem (rq_pid r)) r segs) * (8 + rq_vlen r) \<le> cap"
  obtains actx' t' c' s where "start_resident rd P idx sp r simd chunk buf (Some segs) actx (t, c) = (True, actx', t', c')"
    "opt_bound bound (rq_pid r) actx'" "turbo_shape bound t'" "g_turboscan_sess t' = (g_turboscan_sess t)[unat idx := s]"
    "session_recs s = all_hits (mem (rq_pid r)) r segs" "list_sess (rq_vlen r) s" "ts_in_use s" "ts_mode s = TS_MODE_LIST" "ts_pid s = tp_pid sp"
    "\<not> ts_has_prev s" "\<not> ts_has_first s"
    "io c [] (resident_summary True (length (all_hits (mem (rq_pid r)) r segs))) c'"
proof -
  define t1 where "t1 = turboscan_session_free_idx P idx t"
  have len: "unat idx < length (g_turboscan_sess t)" using assms(3,4) by (simp add: turbo_shape_def)
  have t1: "g_turboscan_sess t1 = (g_turboscan_sess t)[unat idx := cleared_session]" "g_turboscan_alias t1 = g_turboscan_alias t"
      "g_turboscan_cap_override t1 = g_turboscan_cap_override t"
    using assms(4) by (simp_all add: t1_def turboscan_session_free_idx_def set_sess_def Let_def)
  obtain b w where m: "o_mmap P cap (os t1) = (Some b, w)" using assms(9) [of "os t1"] by (cases "o_mmap P cap (os t1)") auto
  define s0 where "s0 = cleared_session\<lparr>ts_in_use := True, ts_mode := TS_MODE_LIST, ts_buf := Some b, ts_buf_cap := cap,
                ts_count := 0, ts_rec_size := 8 + rq_vlen r, ts_value_length := rq_vlen r, ts_pid := tp_pid sp, ts_valueType := tp_valueType sp\<rparr>"
  define t2 where "t2 = set_sess idx s0 (t1\<lparr>os := w\<rparr>)"
  have "(if g_turboscan_cap_override t1 \<noteq> 0 then g_turboscan_cap_override t1 else TS_RESIDENT_CAP) = cap" using cap t1(3) by simp
  then have al: "fs_session_alloc P idx (tp_pid sp) (tp_valueType sp) (rq_vlen r) t = (True, t2)"
    using assms(4) m len t1(1) unfolding fs_session_alloc_def t1_def [symmetric]
    by (simp add: Let_def on_os_def t2_def s0_def sess_at_def set_sess_def)
  have t2: "sess_at idx t2 = s0" "g_turboscan_sess t2 = (g_turboscan_sess t)[unat idx := s0]" "g_turboscan_alias t2 = g_turboscan_alias t" "os t2 = w"
    using len t1 by (simp_all add: t2_def sess_at_def set_sess_def)
  have s0: "list_sess (rq_vlen r) s0" "fits s0 (length (all_hits (mem (rq_pid r)) r segs))" "session_recs s0 = []"
    using assms(10) by (simp_all add: s0_def list_sess_def fits_def session_recs_def)
  obtain s xw where p: "resident_pass rd P r simd chunk buf segs s0 ((actx, w), c) = ((True, s), xw, c)" "opt_bound bound (rq_pid r) (fst xw)"
      "list_sess (rq_vlen r) s" "same_sess s0 s" "session_recs s = all_hits (mem (rq_pid r)) r segs"
    using resident_pass_ok [OF assms(1,2) s0(1) assms(7) s0(2), of buf w c] s0(3) by auto
  have n: "ts_count s = length (all_hits (mem (rq_pid r)) r segs)" using p(5) by (metis length_map map_nth session_recs_def length_upt diff_zero)
  define t3 where "t3 = set_sess idx s (t2\<lparr>os := snd xw\<rparr>)"
  have "start_resident rd P idx sp r simd chunk buf (Some segs) actx (t, c) = (True, fst xw, t3, send_all (resident_summary True (ts_count s)) c)"
    using assms(6) al p(1) by (simp add: start_resident_def t2 t3_def case_prod_unfold Let_def)
  moreover have g: "g_turboscan_sess t3 = (g_turboscan_sess t)[unat idx := s]" "g_turboscan_alias t3 = g_turboscan_alias t"
    by (simp_all add: t3_def set_sess_def t2)
  moreover have "turbo_shape bound t3" using assms(3) g by (simp add: turbo_shape_def)
  moreover have "io c [] (resident_summary True (ts_count s)) (send_all (resident_summary True (ts_count s)) c)" using io_send_all [OF assms(5)] .
  moreover have "ts_in_use s" "ts_mode s = TS_MODE_LIST" "ts_pid s = tp_pid sp" "\<not> ts_has_prev s" "\<not> ts_has_first s"
    using same_sess_sel [OF p(4)] by (simp_all add: s0_def cleared_session_def)
  ultimately show thesis using that p(2,3,5) unfolding n by blast
qed

end

section \<open>Scans that keep their matches\<close>

definition sends_segs :: "cmd_proc_turboscan_start_packet \<Rightarrow> (u64 \<times> u32) list \<Rightarrow> byte list \<Rightarrow> bool" where
  \<comment> \<open>what is scanned, and the bytes the client sends for it\<close>
  "sends_segs sp segs ins \<longleftrightarrow> (if ts_flag (tp_flags sp) 0x10 then segs \<noteq> [] \<and> length segs \<le> TS_SNAP_MAX_SEGS \<and> ins = enc_segs segs
     else segs = [(tp_address sp, tp_length sp)] \<and> ins = [])"

lemma sends_segs_recv:
  assumes "sends_segs sp segs ins" "quiet c" "rx c = ins @ rest"
  obtains d where "(if ts_flag (tp_flags sp) 0x10 then recv_segments chunk buf c else (Some [(tp_address sp, tp_length sp)], c)) = (Some segs, d)"
    "io c ins [] d" "rx d = rest"
proof (cases "ts_flag (tp_flags sp) 0x10")
  case True
  then have s: "rx c = enc_segs segs @ rest" "segs \<noteq> []" "length segs \<le> TS_SNAP_MAX_SEGS" "ins = enc_segs segs"
    using assms(1,3) by (auto simp: sends_segs_def)
  show thesis by (rule recv_segments_ok [OF assms(2) s(1-3), of chunk buf]) (use True s(4) in \<open>auto intro: that\<close>)
next
  case False
  then have "segs = [(tp_address sp, tp_length sp)]" "ins = []" using assms(1) by (auto simp: sends_segs_def)
  with False show thesis using that [of c] assms(3) by simp
qed

lemma seg_hits_cong: "(\<And>region len. scan_offsets r region len 0 len = scan_offsets r' region len 0 len) \<Longrightarrow> rq_vlen r = rq_vlen r' \<Longrightarrow> seg_hits m r = seg_hits m r'"
  by (simp add: seg_hits_def fun_eq_iff)

lemma acquire_cap: "turboscan_alias_acquire P idx pid t = (actx, t') \<Longrightarrow> g_turboscan_cap_override t' = g_turboscan_cap_override t"
  by (auto simp: turboscan_alias_acquire_def Let_def split: if_splits option.splits prod.splits)


section \<open>Examples\<close>

interpretation disk_alias: alias_engine "flat_rd m" m "\<lambda>_ _ _. True" "disk_ops m" "(=)" for m
  by unfold_locales (simp_all add: window_apply)

definition example_turbo :: "(disk, u32) turbo" where
  "example_turbo = \<lparr>g_turboscan_sess = replicate TS_MAX_CLIENTS cleared_session, g_turboscan_alias = replicate TS_MAX_CLIENTS None,
     g_turboscan_cap_override = 0, g_turboscan_snap_ram_thresh = TS_SNAP_RAM_DEFAULT, g_turboscan_spill_dir = replicate 64 0,
     g_turboscan_snap_force_fail = False, g_turboscan_materialize_max = 2 ^ 20, os = \<lparr>dk_files = Map.empty, dk_next = 3\<rparr>\<rparr>"

lemma example_turbo_shape: "turbo_shape (=) example_turbo"
  by (simp add: turbo_shape_def example_turbo_def)

definition example_turbo_data :: "byte \<Rightarrow> ptr" where
  "example_turbo_data flags = of_list [1, 0, 0, 0, 0, 0x10, 0, 0, 0, 0, 0, 0, 8, 0, 0, 0, 2, 0, 0, 2, 0, 0, 0, flags, 0, 0, 0]"

definition example_turbo_packet :: "byte \<Rightarrow> cmd_packet" where
  "example_turbo_packet flags = \<lparr>magic = 0xFFAABBCC, cmd = 0xBDAACC03, datalen = 27, data = Some (example_turbo_data flags)\<rparr>"

lemma example_turbo_fields:
  "plain_start (turboscan_start_packet (example_turbo_data fl)) = scan_start_packet example_start_data"
  "tp_pid (turboscan_start_packet (example_turbo_data fl)) = 1" "tp_address (turboscan_start_packet (example_turbo_data fl)) = 0x1000"
  "tp_length (turboscan_start_packet (example_turbo_data fl)) = 8"
  "plain_compare (turboscan_start_packet (example_turbo_data fl)) 2"
  by (simp_all add: plain_start_def turboscan_start_packet_def example_start_fields example_turbo_data_def of_list_def shift_def plain_compare_def le_simps)

lemma example_turbo_flags:
  "tp_flags (turboscan_start_packet (example_turbo_data 0x81)) = 0x81" "tp_flags (turboscan_start_packet (example_turbo_data 3)) = 3"
  by (simp_all add: turboscan_start_packet_def example_turbo_data_def of_list_def shift_def le_simps)

lemma example_turbo_ready:
  "quiet example_client" "auth_granted example_client" "data (example_turbo_packet fl) = Some (example_turbo_data fl)"
  "wf_client (plain_start (turboscan_start_packet (example_turbo_data fl))) 2 [7, 9] []" "rx example_client = [7, 9] @ [] @ []"
  "tx example_client = []"
  using example_client_ok example_start_wf
  by (simp_all add: example_turbo_packet_def example_turbo_fields example_client_def example_auth_def example_conn_def conn.extend_def)



end
