(* ===== verification/TurboSession.thy ===== *)
theory TurboSession
  imports TurboStart
begin

text \<open>
  What a session of the turbo scanner means: a table of survivors. A rescan keeps the survivors whose
  value now passes the comparison, whether the session is a list or a snapshot.
\<close>

section \<open>The system\<close>

text \<open>The aliasing engine and the file system do not disturb each other.\<close>

locale turbo_system = alias_engine rd mem readable P bound + reliable_storage P fs
  for rd :: reader and mem and readable and P :: "('o, 'x) turbo_ops" and bound and fs +
  assumes map_fs: "o_alias_map P a n x w = (ap, x', w') \<Longrightarrow> fs w' = fs w"
    and release_fs: "o_alias_release P x w = (x', w') \<Longrightarrow> fs w' = fs w"
    and begin_fs: "o_alias_begin P pid n w = (ax, w') \<Longrightarrow> fs w' = fs w"
    and rebind_fs: "o_alias_rebind P pid x w = (x', w') \<Longrightarrow> fs w' = fs w"
    and mmap_fs: "o_mmap P n w = (p, w') \<Longrightarrow> fs w' = fs w"

interpretation disk_system: turbo_system "flat_rd m" m "\<lambda>_ _ _. True" "disk_ops m" "(=)" dk_files for m
  by unfold_locales simp_all

section \<open>Survivors\<close>

record survivor =
  sv_addr :: u64
  sv_cur :: "byte list"
  sv_prev :: "byte list"
  sv_first :: "byte list"

text \<open>
  A rescan on the table. \<open>now\<close> gives the value at an address, \<open>hit\<close> judges a value with the one found
  before; \<open>hp\<close> tells whether the value of the scan before is kept.
\<close>

definition table_rescan :: "bool \<Rightarrow> (u64 \<Rightarrow> byte list) \<Rightarrow> (byte list \<Rightarrow> byte list \<Rightarrow> bool) \<Rightarrow> survivor list \<Rightarrow> survivor list" where
  "table_rescan hp now hit vs = map (\<lambda>v. v\<lparr>sv_cur := now (sv_addr v), sv_prev := if hp then sv_cur v else now (sv_addr v)\<rparr>)
     (filter (\<lambda>v. hit (now (sv_addr v)) (sv_cur v)) vs)"

definition cq_hit :: "bool \<Rightarrow> count_request \<Rightarrow> byte list \<Rightarrow> byte list \<Rightarrow> bool" where
  \<comment> \<open>the verdict of a rescan on the value found and the value before\<close>
  "cq_hit turbo r val old = ts_matched turbo r (of_list val) (if cq_prev r then Some (of_list old) else cq_between r)"

definition wf_rescan :: "bool \<Rightarrow> count_request \<Rightarrow> bool" where
  \<comment> \<open>a comparison looks at no more bytes than a value has\<close>
  "wf_rescan turbo r \<longleftrightarrow> 0 < cq_vlen r \<and> cq_vlen r \<le> 0x1000 \<and> (cq_val r \<le> 9 \<longrightarrow> cq_vlen r = proc_scan_getSizeOfValueType (cq_val r)) \<and>
     (turbo \<longrightarrow> scan_point_turbo_supported (cq_cmp r) (cq_val r))"

lemma ts_matched_cong:
  assumes "wf_rescan turbo r" "\<And>i. i < cq_vlen r \<Longrightarrow> m i = m' i" "rel_option (\<lambda>p p'. \<forall>i<cq_vlen r. p i = p' i) prev prev'"
  shows "ts_matched turbo r m prev = ts_matched turbo r m' prev'"
proof -
  have big: "cq_val r \<le> 9 \<longrightarrow> proc_scan_getSizeOfValueType (cq_val r) \<le> cq_vlen r" using assms(1) by (auto simp: wf_rescan_def)
  have ag: "agree (cq_val r) (cq_vlen r) p p'" if "\<forall>i<cq_vlen r. p i = p' i" for p p' using that big by (simp add: agree_def)
  have rf: "agree (cq_val r) (cq_vlen r) p p" for p by (rule ag) simp
  have pr: "rel_option (agree (cq_val r) (cq_vlen r)) prev prev'" using assms(3) ag by (auto elim!: option.rel_mono_strong)
  have m: "agree (cq_val r) (cq_vlen r) m m'" using assms(2) by (intro ag) simp
  show ?thesis
  proof (cases turbo)
    case True
    then have sup: "scan_point_turbo_supported (cq_cmp r) (cq_val r)" and v: "proc_scan_getSizeOfValueType (cq_val r) = cq_vlen r"
      using assms(1) by (auto simp: wf_rescan_def scan_point_turbo_supported_def split: if_splits)
    have po: "agree (cq_val r) (cq_vlen r) (ptr_of prev) (ptr_of prev')" using pr rf by (cases prev; cases prev') (auto simp: ptr_of_def)
    show ?thesis using True unfolding ts_matched_def scan_point_compare_agrees [OF sup, where msk = None] v
      by (simp add: compareValues_cong [OF m rf _ option.rel_refl] rf po)
  next
    case False
    then show ?thesis unfolding ts_matched_def by (simp add: compareValues_cong [OF m rf pr option.rel_refl] rf)
  qed
qed

lemma ts_matched_hit:
  assumes "wf_rescan turbo r" "bytes_at m 0 (cq_vlen r) = val" "cq_prev r \<Longrightarrow> bytes_at old 0 (cq_vlen r) = prev"
  shows "ts_matched turbo r m (if cq_prev r then Some old else cq_between r) = cq_hit turbo r val prev"
  unfolding cq_hit_def
  by (rule ts_matched_cong [OF assms(1)]) (use assms(2,3) in \<open>auto simp: of_list_def option.rel_refl\<close>)

section \<open>Windows of a rescan\<close>

context turbo_system
begin

lemma window_read_ok:
  assumes "opt_bound bound pid actx" "readable pid a n" "fs_rescan_window_read rd P pid a n buf (actx, w) = ((src, aliased, buf'), actx', w')"
  shows "opt_bound bound pid actx'" "fs w' = fs w" "i < n \<Longrightarrow> src i = mem pid (a + of_nat i)"
proof -
  have "opt_bound bound pid actx' \<and> fs w' = fs w \<and> (i < n \<longrightarrow> src i = mem pid (a + of_nat i))"
  proof (cases actx)
    case None
    then show ?thesis using assms rd_read by (auto simp: fs_rescan_window_read_def Let_def opt_bound_def)
  next
    case (Some x)
    obtain ap x' v where m: "o_alias_map P a n x w = (ap, x', v)" by (cases "o_alias_map P a n x w")
    have al: "bound pid x'" "ap = Some p \<Longrightarrow> i < n \<Longrightarrow> p i = mem pid (a + of_nat i)" "fs v = fs w" for p
      using alias_map [OF _ assms(2) m] assms(1) Some map_fs [OF m] by (auto simp: opt_bound_def)
    show ?thesis using assms Some m al rd_read [OF assms(2)]
      by (cases ap) (auto simp: fs_rescan_window_read_def Let_def opt_bound_def split: if_splits)
  qed
  then show "opt_bound bound pid actx'" "fs w' = fs w" "i < n \<Longrightarrow> src i = mem pid (a + of_nat i)" by blast+
qed

lemma release_ok:
  assumes "opt_bound bound pid actx" "alias_release P (actx, w) = (actx', w')"
  shows "opt_bound bound pid actx'" "fs w' = fs w"
proof -
  show "opt_bound bound pid actx'" using release_bound [OF assms] .
  show "fs w' = fs w" using assms(2) release_fs
    by (cases actx) (auto simp: TurboSnap.alias_release_def Let_def split: prod.splits)
qed

end

text \<open>A range of candidates, from number \<open>i\<close> on: values end before the end of the address space, and
  what lies between two of them that are close is readable.\<close>

definition readable_from :: "(u32 \<Rightarrow> u64 \<Rightarrow> nat \<Rightarrow> bool) \<Rightarrow> u32 \<Rightarrow> nat \<Rightarrow> (nat \<Rightarrow> u64) \<Rightarrow> nat \<Rightarrow> nat \<Rightarrow> bool" where
  "readable_from readable pid vlen A i n \<longleftrightarrow> (\<forall>k. i \<le> k \<and> k < n \<longrightarrow> unat (A k) + vlen < 2 ^ 64) \<and>
     (\<forall>j k. i \<le> j \<and> j < n \<and> i \<le> k \<and> k < n \<and> A j \<le> A k \<and> unat (A k) + vlen - unat (A j) \<le> 0x100000 \<longrightarrow>
        readable pid (A j) (unat (A k) + vlen - unat (A j)))"

lemma readable_from_mono: "readable_from readable pid vlen A i n \<Longrightarrow> i \<le> j \<Longrightarrow> readable_from readable pid vlen A j n"
  unfolding readable_from_def by (meson le_trans)

lemma readable_from_cong: "(\<And>k. i \<le> k \<Longrightarrow> k < n \<Longrightarrow> A k = B k) \<Longrightarrow> readable_from readable pid vlen A i n = readable_from readable pid vlen B i n"
  unfolding readable_from_def by (simp cong: conj_cong)

lemma ts_extend_spec:
  assumes "i < k" "k \<le> n" "\<And>l. i \<le> l \<Longrightarrow> l < n \<Longrightarrow> unat (A l) + vlen < 2 ^ 64"
    and "i \<le> j" "j < n" "A i \<le> A j" "unat (A j) + vlen - unat (A i) \<le> 0x100000"
  shows "\<exists>j'. i \<le> j' \<and> j' < n \<and> A j \<le> A j' \<and> unat (A j') + vlen - unat (A i) \<le> 0x100000 \<and>
    ts_extend A vlen n (A i) k (A j + of_nat vlen) = A j' + of_nat vlen"
  using assms(1,2,4-7)
proof (induction "n - k" arbitrary: k j)
  case 0
  then show ?case by (intro exI [of _ j], subst ts_extend.simps) simp
next
  case (Suc d)
  then have k: "k < n" "i \<le> k" by auto
  note nw = assms(3)
  let ?ne = "A k + of_nat vlen" and ?cov = "A j + of_nat vlen"
  have u: "unat ?ne = unat (A k) + vlen" "unat ?cov = unat (A j) + vlen" using nw k Suc.prems(3,4) by (simp_all add: unat_add_of_nat)
  let ?gap = "(if A k > ?cov then A k - ?cov else 0) > TS_RESCAN_GAP_MAX" and ?big = "?ne - A i > TS_RESCAN_WIN_CAP"
  have unf: "ts_extend A vlen n (A i) k ?cov = (if ?gap \<or> ?big then ?cov else ts_extend A vlen n (A i) (Suc k) (if ?ne > ?cov then ?ne else ?cov))"
    using k by (subst ts_extend.simps) (simp add: Let_def)
  show ?case
  proof (cases "?gap \<or> ?big")
    case True
    then show ?thesis using unf Suc.prems by (intro exI [of _ j]) simp
  next
    case False
    define l where "l = (if ?ne > ?cov then k else j)"
    have "A i \<le> A j" using Suc.prems by simp
    have l: "i \<le> l" "l < n" "A j \<le> A l" "A i \<le> A l" "unat (A l) + vlen - unat (A i) \<le> 0x100000"
    proof -
      show "i \<le> l" "l < n" using k Suc.prems by (auto simp: l_def)
      show jl: "A j \<le> A l" using u by (auto simp: l_def word_le_nat_alt word_less_nat_alt)
      then show il: "A i \<le> A l" using \<open>A i \<le> A j\<close> by simp
      show "unat (A l) + vlen - unat (A i) \<le> 0x100000"
      proof (cases "?ne > ?cov")
        case True
        then have "A i \<le> ?ne" using u il by (auto simp: l_def word_le_nat_alt)
        then have "unat (?ne - A i) = unat (A k) + vlen - unat (A i)" using u by (simp add: unat_diff)
        then show ?thesis using False True by (auto simp: l_def TS_RESCAN_WIN_CAP_def word_less_nat_alt)
      qed (use Suc.prems in \<open>simp add: l_def\<close>)
    qed
    have "(if ?ne > ?cov then ?ne else ?cov) = A l + of_nat vlen" by (simp add: l_def)
    then have eq: "ts_extend A vlen n (A i) k ?cov = ts_extend A vlen n (A i) (Suc k) (A l + of_nat vlen)" using unf False by simp
    have "d = n - Suc k" using Suc.hyps(2) by simp
    from Suc.hyps(1) [OF this, of l] Suc.prems k l obtain j' where
      "i \<le> j'" "j' < n" "A l \<le> A j'" "unat (A j') + vlen - unat (A i) \<le> 0x100000" "ts_extend A vlen n (A i) (Suc k) (A l + of_nat vlen) = A j' + of_nat vlen"
      by auto
    then show ?thesis using eq l(3) by (intro exI [of _ j']) auto
  qed
qed

definition win_ok :: "(u64 \<Rightarrow> byte) \<Rightarrow> ts_window \<Rightarrow> bool" where
  "win_ok m win \<longleftrightarrow> (\<forall>i. unat (tw_start win) + i < unat (tw_end win) \<longrightarrow> tw_base win i = m (tw_start win + of_nat i))"

lemma win_ok_first: "win_ok m (first_window buf)"
  by (simp add: win_ok_def first_window_def)

lemma win_ok_at:
  assumes "win_ok m win" "tw_start win \<le> a" "unat a + vlen \<le> unat (tw_end win)" "x < vlen"
  shows "ts_at win a x = m (a + of_nat x)"
proof -
  have d: "unat (a - tw_start win) = unat a - unat (tw_start win)" using assms(2) by (simp add: unat_diff)
  have "unat (tw_start win) \<le> unat a" using assms(2) by (simp add: word_le_nat_alt)
  then have "tw_base win (unat (a - tw_start win) + x) = m (tw_start win + of_nat (unat (a - tw_start win) + x))"
    using assms(1,3,4) d by (simp add: win_ok_def)
  then show ?thesis by (simp add: ts_at_def add.assoc [symmetric])
qed

context turbo_system
begin

lemma ts_ensure_ok:
  assumes i: "i < n" and A: "readable_from readable pid vlen A i n" and v: "0 < vlen" "vlen \<le> 0x1000"
    and win: "win_ok (mem pid) win" "opt_bound bound pid actx"
    and run: "ts_ensure rd P pid A vlen n i (win, actx, w) = (win', actx', w')"
  shows "win_ok (mem pid) win'" "opt_bound bound pid actx'" "fs w' = fs w" "bytes_at (ts_at win' (A i)) 0 vlen = bytes_at (window (mem pid) (A i)) 0 vlen"
proof -
  have nw: "unat (A k) + vlen < 2 ^ 64" if "i \<le> k" "k < n" for k using A that by (simp add: readable_from_def)
  have ai: "unat (A i + of_nat vlen) = unat (A i) + vlen" using nw [of i] i by (simp add: unat_add_of_nat)
  have "win_ok (mem pid) win' \<and> opt_bound bound pid actx' \<and> fs w' = fs w \<and> tw_start win' \<le> A i \<and> unat (A i) + vlen \<le> unat (tw_end win')"
  proof (cases "A i < tw_start win \<or> A i + of_nat vlen > tw_end win")
    case False
    then have "win' = win" "actx' = actx" "w' = w" using run by (auto simp: ts_ensure_def Let_def)
    then show ?thesis using False win ai by (auto simp: word_less_nat_alt word_le_nat_alt not_less)
  next
    case True
    have "\<exists>j'. i \<le> j' \<and> j' < n \<and> A i \<le> A j' \<and> unat (A j') + vlen - unat (A i) \<le> 0x100000 \<and>
        ts_extend A vlen n (A i) (Suc i) (A i + of_nat vlen) = A j' + of_nat vlen"
      using ts_extend_spec [of i "Suc i" n A vlen i] i nw v by auto
    then obtain j where j: "i \<le> j" "j < n" "A i \<le> A j" "unat (A j) + vlen - unat (A i) \<le> 0x100000"
        "ts_extend A vlen n (A i) (Suc i) (A i + of_nat vlen) = A j + of_nat vlen" by blast
    have uj: "unat (A j + of_nat vlen) = unat (A j) + vlen" using nw j by (simp add: unat_add_of_nat)
    have le: "unat (A i) \<le> unat (A j)" using j(3) by (simp add: word_le_nat_alt)
    define rs where "rs = unat (A j) + vlen - unat (A i)"
    have "A i \<le> A j + of_nat vlen" using uj le by (simp add: word_le_nat_alt)
    then have rs: "unat (A j + of_nat vlen - A i) = rs" using uj by (simp add: unat_diff rs_def)
    have rd: "readable pid (A i) rs" using A i j unfolding readable_from_def rs_def by blast
    obtain actx1 w1 where 1: "(if tw_aliased win then alias_release P (actx, w) else (actx, w)) = (actx1, w1)" by fastforce
    have b1: "opt_bound bound pid actx1" "fs w1 = fs w" using 1 release_ok [OF win(2)] win(2) by (auto split: if_splits)
    obtain base al buf actx2 w2 where 2: "fs_rescan_window_read rd P pid (A i) rs (tw_mem win) (actx1, w1) = ((base, al, buf), actx2, w2)"
      by (cases "fs_rescan_window_read rd P pid (A i) rs (tw_mem win) (actx1, w1)") auto
    note r2 = window_read_ok [OF b1(1) rd 2]
    have eq: "win' = \<lparr>tw_start = A i, tw_end = A i + of_nat rs, tw_base = base, tw_aliased = al, tw_mem = buf\<rparr>" "actx' = actx2" "w' = w2"
      using run True 1 2 by (simp_all add: ts_ensure_def Let_def j(5) rs)
    have "unat (A i) + rs = unat (A j) + vlen" using le by (simp add: rs_def)
    then have "unat (A i + of_nat rs) = unat (A i) + rs" using nw [OF j(1,2)] by (intro unat_add_of_nat) simp
    moreover have "vlen \<le> rs" using le by (simp add: rs_def)
    ultimately show ?thesis using r2 b1(2) by (auto simp: eq win_ok_def)
  qed
  then show "win_ok (mem pid) win'" "opt_bound bound pid actx'" "fs w' = fs w" "bytes_at (ts_at win' (A i)) 0 vlen = bytes_at (window (mem pid) (A i)) 0 vlen"
    using win_ok_at by (auto simp: bytes_at_eq_iff window_apply)
qed

end

section \<open>Lists\<close>

definition rec_surv :: "turboscan_session \<Rightarrow> ptr \<Rightarrow> survivor" where
  \<comment> \<open>the record that starts at \<open>rcd\<close>\<close>
  "rec_surv s rcd = (let vlen = ts_value_length s in
     \<lparr>sv_addr = ld64 rcd, sv_cur = bytes_at rcd 8 vlen, sv_prev = bytes_at rcd (if ts_has_prev s then 8 + vlen else 8) vlen,
      sv_first = if ts_has_first s then bytes_at rcd (8 + vlen + (if ts_has_prev s then vlen else 0)) vlen else []\<rparr>)"

definition recs_survs :: "turboscan_session \<Rightarrow> ptr \<Rightarrow> nat \<Rightarrow> survivor list" where
  "recs_survs s recs n = map (\<lambda>k. rec_surv s (shift recs (k * ts_rec_size s))) [0..<n]"

definition list_survivors :: "turboscan_session \<Rightarrow> survivor list" where
  "list_survivors s = recs_survs s (ptr_of (ts_buf s)) (ts_count s)"

definition wf_list :: "turboscan_session \<Rightarrow> bool" where
  "wf_list s \<longleftrightarrow> ts_buf s \<noteq> None \<and> ts_rec_size s = list_rec_size s \<and> ts_count s * ts_rec_size s \<le> ts_buf_cap s"

lemma rec_surv_cong:
  assumes "\<And>i. i < list_rec_size s \<Longrightarrow> p i = q i"
  shows "rec_surv s p = rec_surv s q"
proof -
  have "bytes_at p i n = bytes_at q i n" if "i + n \<le> list_rec_size s" for i n using that assms by (auto simp: bytes_at_eq_iff)
  moreover have "ld64 p = ld64 q" using assms by (intro le_load_cong) (simp add: list_rec_size_def)
  ultimately show ?thesis by (simp add: rec_surv_def Let_def list_rec_size_def)
qed

lemma length_new_record: "length (new_record s rcd a m) = list_rec_size s"
  by (simp add: new_record_def Let_def list_rec_size_def)

lemma bytes_at_blit_mid:
  "bytes_at (blit p off (xs @ ys @ zs)) (off + length xs) (length ys) = ys"
  using blit_blit [of "blit p off xs" "off + length xs" ys zs] blit_blit [of p off xs "ys @ zs"]
    bytes_at_blit_disjoint [of "off + length xs" "length ys" "off + length xs + length ys" zs "blit (blit p off xs) (off + length xs) ys"] by simp

lemma rec_surv_blit:
  assumes "length val = ts_value_length s" "ts_has_prev s \<Longrightarrow> length prev = ts_value_length s" "ts_has_first s \<Longrightarrow> length first = ts_value_length s"
  shows "rec_surv s (shift (blit p off (le_bytes 8 a @ val @ (if ts_has_prev s then prev else []) @ (if ts_has_first s then first else []))) off) =
     \<lparr>sv_addr = a, sv_cur = val, sv_prev = if ts_has_prev s then prev else val, sv_first = if ts_has_first s then first else []\<rparr>"
proof -
  let ?v = "ts_value_length s" and ?hp = "ts_has_prev s" and ?hf = "ts_has_first s"
  let ?prev = "if ?hp then prev else []" and ?first = "if ?hf then first else []"
  let ?b = "blit p off (le_bytes 8 a @ val @ ?prev @ ?first)"
  have "?b (off + i) = le_bytes 8 a ! i" if "i < 8" for i using that by (simp add: blit_def nth_append)
  then have "ld64 (shift ?b off) = a" by (intro le_load_le_bytes) simp_all
  moreover have "bytes_at ?b (off + 8) ?v = val" using bytes_at_blit_mid [of p off "le_bytes 8 a" val "?prev @ ?first"] assms(1) by simp
  moreover have "bytes_at ?b (off + (8 + ?v)) ?v = prev" if ?hp
    using bytes_at_blit_mid [of p off "le_bytes 8 a @ val" ?prev ?first] that assms(1,2) by simp
  moreover have "bytes_at ?b (off + (8 + ?v + (if ?hp then ?v else 0))) ?v = first" if ?hf
    using bytes_at_blit_mid [of p off "le_bytes 8 a @ val @ ?prev" ?first "[]"] that assms by (cases ?hp) simp_all
  ultimately show ?thesis by (cases ?hp; cases ?hf) (simp_all add: rec_surv_def Let_def)
qed

lemma rec_surv_new:
  "rec_surv s (shift (blit p off (new_record s rcd a m)) off) =
     (let v = rec_surv s rcd; val = bytes_at m 0 (ts_value_length s)
      in v\<lparr>sv_addr := a, sv_cur := val, sv_prev := if ts_has_prev s then sv_cur v else val\<rparr>)"
  using rec_surv_blit [of "bytes_at m 0 (ts_value_length s)" s "bytes_at rcd 8 (ts_value_length s)"
      "bytes_at rcd (8 + ts_value_length s + (if ts_has_prev s then ts_value_length s else 0)) (ts_value_length s)" p off a]
  by (simp add: new_record_def rec_surv_def Let_def)

lemma recs_survs_Suc: "recs_survs s recs (Suc n) = recs_survs s recs n @ [rec_surv s (shift recs (n * ts_rec_size s))]"
  by (simp add: recs_survs_def)

lemma recs_survs_cong:
  assumes "ts_rec_size s = list_rec_size s" "\<And>i. i < n * ts_rec_size s \<Longrightarrow> p i = q i"
  shows "recs_survs s p n = recs_survs s q n"
proof -
  have "rec_surv s (shift p (k * ts_rec_size s)) = rec_surv s (shift q (k * ts_rec_size s))" if "k < n" for k
  proof (rule rec_surv_cong)
    fix i assume "i < list_rec_size s"
    then have "k * ts_rec_size s + i < n * ts_rec_size s" using that mult_le_mono1 [of "Suc k" n "ts_rec_size s"] assms(1) by simp
    then show "shift p (k * ts_rec_size s) i = shift q (k * ts_rec_size s) i" using assms(2) by simp
  qed
  then show ?thesis by (simp add: recs_survs_def)
qed

lemma table_rescan_append: "table_rescan hp now hit (xs @ ys) = table_rescan hp now hit xs @ table_rescan hp now hit ys"
  by (simp add: table_rescan_def)

definition list_inv :: "(turboscan_session) \<Rightarrow> survivor list \<Rightarrow> nat \<Rightarrow> nat \<times> ptr \<Rightarrow> bool" where
  \<comment> \<open>after \<open>i\<close> records, of which \<open>vs\<close> are left\<close>
  "list_inv s vs i = (\<lambda>(cnt, recs). cnt \<le> i \<and> (\<forall>x\<ge>i * ts_rec_size s. recs x = ptr_of (ts_buf s) x) \<and> recs_survs s recs cnt = vs)"

abbreviation mem_value :: "(u64 \<Rightarrow> byte) \<Rightarrow> nat \<Rightarrow> u64 \<Rightarrow> byte list" where
  "mem_value m vlen a \<equiv> bytes_at (window m a) 0 vlen"

context turbo_system
begin

lemma list_entry_step:
  assumes s: "wf_list s" "ts_value_length s = cq_vlen r" "wf_rescan turbo r" and i: "i < ts_count s"
    and A: "readable_from readable (ts_pid s) (cq_vlen r) (rec_addr s (ptr_of (ts_buf s))) 0 (ts_count s)"
    and inv: "list_inv s vs i st" "win_ok (mem (ts_pid s)) win" "opt_bound bound (ts_pid s) actx"
    and run: "list_rescan_entry rd P s turbo r i (st, win, actx, w) = (st', win', actx', w')"
  shows "list_inv s (vs @ table_rescan (ts_has_prev s) (mem_value (mem (ts_pid s)) (cq_vlen r)) (cq_hit turbo r)
            [rec_surv s (shift (ptr_of (ts_buf s)) (i * ts_rec_size s))]) (Suc i) st'"
    "win_ok (mem (ts_pid s)) win'" "opt_bound bound (ts_pid s) actx'" "fs w' = fs w"
proof -
  obtain cnt recs where st: "st = (cnt, recs)" by fastforce
  let ?rs = "ts_rec_size s" and ?v = "cq_vlen r" and ?buf = "ptr_of (ts_buf s)"
  have rs: "?rs = list_rec_size s" using s(1) by (simp add: wf_list_def)
  have I: "cnt \<le> i" "\<And>x. i * ?rs \<le> x \<Longrightarrow> recs x = ?buf x" "recs_survs s recs cnt = vs" using inv(1) by (auto simp: list_inv_def st)
  let ?A = "rec_addr s recs" and ?rcd = "shift recs (i * ?rs)"
  have later: "?A k = rec_addr s ?buf k" if "i \<le> k" for k
  proof -
    have "recs (k * ?rs + x) = ?buf (k * ?rs + x)" for x using that by (intro I(2)) (simp add: trans_le_add1)
    then show ?thesis unfolding rec_addr_def by (intro le_load_cong) simp
  qed
  have A': "readable_from readable (ts_pid s) ?v ?A i (ts_count s)"
    using readable_from_mono [OF A, of i] readable_from_cong [of i "ts_count s" ?A "rec_addr s ?buf"] later by auto
  have v: "0 < ?v" "?v \<le> 0x1000" using s(3) by (auto simp: wf_rescan_def)
  obtain win1 actx1 w1 where en: "ts_ensure rd P (ts_pid s) ?A ?v (ts_count s) i (win, actx, w) = (win1, actx1, w1)"
    by (cases "ts_ensure rd P (ts_pid s) ?A ?v (ts_count s) i (win, actx, w)")
  note E = ts_ensure_ok [OF i A' v inv(2,3) en]
  have old: "rec_surv s ?rcd = rec_surv s (shift ?buf (i * ?rs))" by (rule rec_surv_cong) (simp add: I(2))
  let ?old = "rec_surv s ?rcd" and ?now = "mem_value (mem (ts_pid s)) ?v" and ?m = "ts_at win1 (?A i)"
  have oa: "sv_addr ?old = ?A i" "sv_cur ?old = bytes_at ?rcd 8 ?v" using s(2) by (simp_all add: rec_surv_def rec_addr_def Let_def)
  have hit: "ts_matched turbo r ?m (if cq_prev r then Some (shift ?rcd 8) else cq_between r) = cq_hit turbo r (?now (sv_addr ?old)) (sv_cur ?old)"
    using ts_matched_hit [OF s(3), of ?m "?now (sv_addr ?old)" "shift ?rcd 8" "sv_cur ?old"] E(4) oa by simp
  have run': "(st', win', actx', w') = (if cq_hit turbo r (?now (sv_addr ?old)) (sv_cur ?old)
      then (cnt + 1, blit recs (cnt * ?rs) (new_record s ?rcd (?A i) ?m)) else (cnt, recs), win1, actx1, w1)"
    by (rule run [unfolded st list_rescan_entry_def Let_def prod.case en fst_conv hit, symmetric])
  then show "win_ok (mem (ts_pid s)) win'" "opt_bound bound (ts_pid s) actx'" "fs w' = fs w" using E by auto
  let ?new = "?old\<lparr>sv_cur := ?now (sv_addr ?old), sv_prev := if ts_has_prev s then sv_cur ?old else ?now (sv_addr ?old)\<rparr>"
  show "list_inv s (vs @ table_rescan (ts_has_prev s) ?now (cq_hit turbo r) [rec_surv s (shift ?buf (i * ?rs))]) (Suc i) st'"
  proof (cases "cq_hit turbo r (?now (sv_addr ?old)) (sv_cur ?old)")
    case True
    let ?recs = "blit recs (cnt * ?rs) (new_record s ?rcd (?A i) ?m)"
    have len: "length (new_record s ?rcd (?A i) ?m) = ?rs" by (simp add: length_new_record rs)
    have far: "?recs x = ?buf x" if "Suc i * ?rs \<le> x" for x
    proof -
      have "cnt * ?rs \<le> i * ?rs" using I(1) by (rule mult_le_mono1)
      then have "cnt * ?rs + ?rs \<le> x" "i * ?rs \<le> x" using that unfolding mult_Suc by linarith+
      then show ?thesis using len I(2) [of x] by (simp add: blit_outside)
    qed
    have near: "recs_survs s ?recs cnt = vs"
      using recs_survs_cong [OF rs, of cnt ?recs recs] I(3) by (simp add: blit_outside)
    have "rec_surv s (shift ?recs (cnt * ?rs)) = ?new"
      using rec_surv_new [of s recs "cnt * ?rs" ?rcd "?A i" ?m] E(4) oa s(2) by (simp add: Let_def)
    then have "recs_survs s ?recs (Suc cnt) = vs @ [?new]" using near by (simp add: recs_survs_Suc)
    then show ?thesis using True run' I(1) far by (simp add: list_inv_def table_rescan_def old [symmetric])
  next
    case False
    then show ?thesis using run' I by (simp add: list_inv_def table_rescan_def old [symmetric])
  qed
qed

lemma list_rescan_ok:
  assumes s: "wf_list s" "ts_value_length s = cq_vlen r" "wf_rescan turbo r"
    and A: "readable_from readable (ts_pid s) (cq_vlen r) (rec_addr s (ptr_of (ts_buf s))) 0 (ts_count s)"
    and b: "opt_bound bound (ts_pid s) actx" and run: "list_rescan rd P s turbo r mem_buf (actx, w) = (s', actx', w')"
  shows "list_survivors s' = table_rescan (ts_has_prev s) (mem_value (mem (ts_pid s)) (cq_vlen r)) (cq_hit turbo r) (list_survivors s)"
    "same_sess s s'" "wf_list s'" "ts_count s' \<le> ts_count s" "opt_bound bound (ts_pid s) actx'" "fs w' = fs w"
proof -
  let ?T = "table_rescan (ts_has_prev s) (mem_value (mem (ts_pid s)) (cq_vlen r)) (cq_hit turbo r)"
  let ?buf = "ptr_of (ts_buf s)"
  have "\<exists>st win actx' w'. fold (list_rescan_entry rd P s turbo r) [0..<n] ((0, ?buf), first_window mem_buf, actx, w) = (st, win, actx', w') \<and>
      list_inv s (?T (recs_survs s ?buf n)) n st \<and> win_ok (mem (ts_pid s)) win \<and> opt_bound bound (ts_pid s) actx' \<and> fs w' = fs w" if "n \<le> ts_count s" for n
    using that
  proof (induction n)
    case 0
    then show ?case using b win_ok_first by (simp add: list_inv_def recs_survs_def table_rescan_def)
  next
    case (Suc n)
    then obtain st win actx1 w1 where f: "fold (list_rescan_entry rd P s turbo r) [0..<n] ((0, ?buf), first_window mem_buf, actx, w) = (st, win, actx1, w1)"
        "list_inv s (?T (recs_survs s ?buf n)) n st" "win_ok (mem (ts_pid s)) win" "opt_bound bound (ts_pid s) actx1" "fs w1 = fs w" by auto
    obtain st2 win2 actx2 w2 where e: "list_rescan_entry rd P s turbo r n (st, win, actx1, w1) = (st2, win2, actx2, w2)"
      by (cases "list_rescan_entry rd P s turbo r n (st, win, actx1, w1)")
    have "n < ts_count s" using Suc.prems by simp
    note S = list_entry_step [OF s this A f(2-4) e]
    then show ?case using f(1,5) e by (auto simp: recs_survs_Suc table_rescan_append)
  qed
  from this [of "ts_count s"] obtain cnt recs win actx1 w1 where
    f: "fold (list_rescan_entry rd P s turbo r) [0..<ts_count s] ((0, ?buf), first_window mem_buf, actx, w) = ((cnt, recs), win, actx1, w1)"
      "list_inv s (?T (list_survivors s)) (ts_count s) (cnt, recs)" "opt_bound bound (ts_pid s) actx1" "fs w1 = fs w"
    by (auto simp: list_survivors_def)
  have s': "s' = s\<lparr>ts_buf := Some recs, ts_count := cnt\<rparr>" and ew: "end_window P (win, actx1, w1) = (actx', w')"
    using run f(1) by (simp_all add: list_rescan_def)
  have I: "cnt \<le> ts_count s" "recs_survs s recs cnt = ?T (list_survivors s)" using f(2) by (auto simp: list_inv_def)
  have "recs_survs s' recs cnt = recs_survs s recs cnt" by (simp add: s' recs_survs_def rec_surv_def Let_def)
  then show "list_survivors s' = ?T (list_survivors s)" using I(2) by (simp add: list_survivors_def s' ptr_of_def)
  show "same_sess s s'" by (simp add: s' same_sess_def)
  show "ts_count s' \<le> ts_count s" using I(1) by (simp add: s')
  have "cnt * ts_rec_size s \<le> ts_buf_cap s" using le_trans [OF mult_le_mono1 [OF I(1)]] s(1) unfolding wf_list_def by blast
  moreover have "list_rec_size s' = list_rec_size s" by (simp add: s' list_rec_size_def)
  ultimately show "wf_list s'" using s(1) by (auto simp: s' wf_list_def)
  show "opt_bound bound (ts_pid s) actx'" "fs w' = fs w"
    using ew release_ok [OF f(3)] f(3,4) by (auto simp: end_window_def split: if_splits)
qed

end

end
