(* ===== verification/TurboTable.thy ===== *)
theory TurboTable
  imports TurboSession
begin

text \<open>
  Snapshots as tables of survivors: what a rescan makes of the table, what fetching it sends, and that
  turning a snapshot into a list keeps it.
\<close>

section \<open>The slots of a window\<close>

definition val_at :: "ptr \<Rightarrow> nat \<Rightarrow> nat \<Rightarrow> byte list" where
  \<comment> \<open>the value of slot \<open>k\<close>\<close>
  "val_at v vlen k = bytes_at v (k * vlen) vlen"

lemma length_val_at [simp]: "length (val_at v vlen k) = vlen"
  by (simp add: val_at_def)

lemma slot_end: "k < n \<Longrightarrow> k * vlen + vlen \<le> n * (vlen :: nat)"
  using mult_le_mono1 [of "Suc k" n vlen] by simp

lemma val_at_blit: "length bs = vlen \<Longrightarrow> val_at (blit v (k * vlen) bs) vlen j = (if j = k then bs else val_at v vlen j)"
proof -
  assume l: "length bs = vlen"
  consider "j = k" | "j < k" | "k < j" by linarith
  then show ?thesis
  proof cases
    case 2
    then show ?thesis using slot_end [of j k vlen] l by (simp add: val_at_def bytes_at_blit_disjoint)
  next
    case 3
    then show ?thesis using slot_end [of k j vlen] l by (simp add: val_at_def bytes_at_blit_disjoint)
  qed (use l in \<open>simp add: val_at_def\<close>)
qed

definition rescan_step :: "turboscan_session \<Rightarrow> bool \<Rightarrow> count_request \<Rightarrow> u64 \<Rightarrow> ptr \<Rightarrow> nat \<Rightarrow> nat \<Rightarrow> rescan_acc \<Rightarrow> rescan_acc" where
  \<comment> \<open>one slot of the loop\<close>
  "rescan_step s turbo r start win i k a =
     (let m = shift win (unat (fs_slot_addr s k - start)); base = shift (ra_bl a) ((k - i) * cq_vlen r)
      in if ts_matched turbo r m (if cq_prev r then Some base else cq_between r)
         then a\<lparr>ra_bl := blit (ra_bl a) ((k - i) * cq_vlen r) (bytes_at m 0 (cq_vlen r)), ra_dirty := True, ra_surv := ra_surv a + 1\<rparr>
         else a\<lparr>ra_bitmap := fs_bm_clear (ra_bitmap a) k\<rparr>)"

lemma slots_from_cong: "(\<And>k. i \<le> k \<Longrightarrow> k < n \<Longrightarrow> slot_set bm k = slot_set bm' k) \<Longrightarrow> slots_from bm i n = slots_from bm' i n"
  unfolding slots_from_def by (intro filter_cong) auto

lemma rescan_step_later: "k < j \<Longrightarrow> slot_set (ra_bitmap (rescan_step s turbo r start win i k a)) j = slot_set (ra_bitmap a) j"
  by (auto simp: rescan_step_def Let_def)

lemma fs_next_set_upto:
  assumes "lst < n" "fs_next_set bm k0 n = k"
  shows "slots_from bm k0 (Suc lst) = (if k \<le> lst then k # slots_from bm (Suc k) (Suc lst) else [])"
proof (cases "slots_from bm k0 n")
  case Nil
  then have "k = n" using fs_next_set_Nil assms(2) by blast
  moreover have "slots_from bm k0 (Suc lst) = []" using Nil assms(1) by (auto simp: slots_from_def filter_empty_conv)
  ultimately show ?thesis using assms(1) by simp
next
  case (Cons j ks)
  then have j: "j = k" "k < n" using fs_next_set_Cons assms(2) by blast+
  have "k \<in> set (slots_from bm k0 n)" using Cons j by simp
  then have k: "k0 \<le> k" "slot_set bm k" by simp_all
  have before: "\<not> slot_set bm x" if "k0 \<le> x" "x < k" for x
  proof
    assume "slot_set bm x"
    then have "x \<in> set (slots_from bm k0 n)" using that j by simp
    then show False using sorted_slots_from(1) [of bm k0 n] Cons j that by auto
  qed
  have "slots_from bm k0 (Suc lst) = slots_from bm k (Suc lst)" using k(1) before by (intro slots_from_skip) auto
  then show ?thesis using k(2) by (simp add: slots_from_Cons)
qed

lemma rescan_slots_fold:
  assumes "lst < ts_slot_count s" "k = fs_next_set (ra_bitmap a) k0 (ts_slot_count s)"
  shows "rescan_slots s turbo r start win i lst k a = fold (rescan_step s turbo r start win i) (slots_from (ra_bitmap a) k0 (Suc lst)) a"
  using assms(2)
proof (induction "ts_slot_count s - k" arbitrary: k k0 a rule: less_induct)
  case less
  let ?n = "ts_slot_count s"
  show ?case
  proof (cases "k \<le> lst")
    case True
    let ?a = "rescan_step s turbo r start win i k a"
    define k' where "k' = fs_next_set (ra_bitmap ?a) (Suc k) ?n"
    have "k < ?n" using True assms(1) by simp
    then have "k < k'" by (simp add: k'_def fs_next_set_later)
    then have IH: "rescan_slots s turbo r start win i lst k' ?a = fold (rescan_step s turbo r start win i) (slots_from (ra_bitmap ?a) (Suc k) (Suc lst)) ?a"
      using \<open>k < ?n\<close> by (intro less.hyps) (auto simp: k'_def)
    have "rescan_slots s turbo r start win i lst k a = rescan_slots s turbo r start win i lst k' ?a"
      using True \<open>k < ?n\<close> by (subst rescan_slots.simps) (simp add: rescan_step_def Let_def k'_def del: shift_apply)
    moreover have "slots_from (ra_bitmap ?a) (Suc k) (Suc lst) = slots_from (ra_bitmap a) (Suc k) (Suc lst)"
      by (intro slots_from_cong rescan_step_later) simp
    ultimately show ?thesis using IH True fs_next_set_upto [OF assms(1) less.prems [symmetric]] by simp
  next
    case False
    then show ?thesis using fs_next_set_upto [OF assms(1) less.prems [symmetric]] by (subst rescan_slots.simps) simp
  qed
qed

text \<open>What the loop does to bitmap and values, for a verdict \<open>hit\<close> and values \<open>now\<close>.\<close>

lemma rescan_fold_effect:
  assumes "distinct ks" "\<forall>k\<in>set ks. i \<le> k" "\<forall>k\<in>set ks. bytes_at win (unat (fs_slot_addr s k - start)) (cq_vlen r) = now k"
    and "\<forall>k\<in>set ks. val_at (ra_bl a) (cq_vlen r) (k - i) = old k" "wf_rescan turbo r"
    and "a' = fold (rescan_step s turbo r start win i) ks a"
  shows "slot_set (ra_bitmap a') j = (slot_set (ra_bitmap a) j \<and> (j \<in> set ks \<longrightarrow> cq_hit turbo r (now j) (old j)))"
    "i \<le> j \<Longrightarrow> val_at (ra_bl a') (cq_vlen r) (j - i) = (if j \<in> set ks \<and> cq_hit turbo r (now j) (old j) then now j else val_at (ra_bl a) (cq_vlen r) (j - i))"
    "ra_surv a' = ra_surv a + length (filter (\<lambda>k. cq_hit turbo r (now k) (old k)) ks)"
    "\<not> ra_dirty a' \<Longrightarrow> ra_bl a' = ra_bl a \<and> \<not> ra_dirty a"
proof -
  let ?v = "cq_vlen r" and ?hit = "\<lambda>k. cq_hit turbo r (now k) (old k)"
  have "slot_set (ra_bitmap a') j = (slot_set (ra_bitmap a) j \<and> (j \<in> set ks \<longrightarrow> ?hit j)) \<and>
    (i \<le> j \<longrightarrow> val_at (ra_bl a') ?v (j - i) = (if j \<in> set ks \<and> ?hit j then now j else val_at (ra_bl a) ?v (j - i))) \<and>
    ra_surv a' = ra_surv a + length (filter ?hit ks) \<and> (\<not> ra_dirty a' \<longrightarrow> ra_bl a' = ra_bl a \<and> \<not> ra_dirty a)"
    using assms(1-4,6)
  proof (induction ks arbitrary: a)
    case (Cons k ks)
    let ?m = "shift win (unat (fs_slot_addr s k - start))" and ?b = "rescan_step s turbo r start win i k a"
    have n1: "bytes_at ?m 0 ?v = now k" using Cons.prems(3) by simp
    have "length (bytes_at ?m 0 ?v) = ?v" by simp
    then have now: "bytes_at ?m 0 ?v = now k" "length (now k) = ?v" unfolding n1 by simp_all
    have "ts_matched turbo r ?m (if cq_prev r then Some (shift (ra_bl a) ((k - i) * ?v)) else cq_between r) = ?hit k"
      using now(1) Cons.prems(4) by (intro ts_matched_hit [OF assms(5)]) (auto simp: val_at_def)
    then have b: "?b = (if ?hit k then a\<lparr>ra_bl := blit (ra_bl a) ((k - i) * ?v) (now k), ra_dirty := True, ra_surv := ra_surv a + 1\<rparr>
        else a\<lparr>ra_bitmap := fs_bm_clear (ra_bitmap a) k\<rparr>)"
      unfolding rescan_step_def Let_def now(1) by (simp only:)
    have val: "val_at (ra_bl ?b) ?v (l - i) = (if l = k \<and> ?hit k then now k else val_at (ra_bl a) ?v (l - i))" if "i \<le> l" for l
      using that Cons.prems(2) now(2) by (auto simp: b val_at_blit)
    have "\<forall>l\<in>set ks. val_at (ra_bl ?b) ?v (l - i) = old l" using Cons.prems(1,2,4) val by auto
    then have IH: "slot_set (ra_bitmap a') j = (slot_set (ra_bitmap ?b) j \<and> (j \<in> set ks \<longrightarrow> ?hit j))"
      "i \<le> j \<longrightarrow> val_at (ra_bl a') ?v (j - i) = (if j \<in> set ks \<and> ?hit j then now j else val_at (ra_bl ?b) ?v (j - i))"
      "ra_surv a' = ra_surv ?b + length (filter ?hit ks)" "\<not> ra_dirty a' \<longrightarrow> ra_bl a' = ra_bl ?b \<and> \<not> ra_dirty ?b"
      using Cons.IH [of ?b] Cons.prems by auto
    show ?case
    proof (intro conjI)
      show "slot_set (ra_bitmap a') j = (slot_set (ra_bitmap a) j \<and> (j \<in> set (k # ks) \<longrightarrow> ?hit j))"
        using IH(1) Cons.prems(1) by (auto simp: b)
      show "i \<le> j \<longrightarrow> val_at (ra_bl a') ?v (j - i) = (if j \<in> set (k # ks) \<and> ?hit j then now j else val_at (ra_bl a) ?v (j - i))"
        using IH(2) val Cons.prems(1) by auto
      show "ra_surv a' = ra_surv a + length (filter ?hit (k # ks))" using IH(3) by (simp add: b)
      show "\<not> ra_dirty a' \<longrightarrow> ra_bl a' = ra_bl a \<and> \<not> ra_dirty a" using IH(4) by (auto simp: b split: if_splits)
    qed
  qed simp
  then show "slot_set (ra_bitmap a') j = (slot_set (ra_bitmap a) j \<and> (j \<in> set ks \<longrightarrow> cq_hit turbo r (now j) (old j)))"
    "i \<le> j \<Longrightarrow> val_at (ra_bl a') (cq_vlen r) (j - i) = (if j \<in> set ks \<and> cq_hit turbo r (now j) (old j) then now j else val_at (ra_bl a) (cq_vlen r) (j - i))"
    "ra_surv a' = ra_surv a + length (filter (\<lambda>k. cq_hit turbo r (now k) (old k)) ks)"
    "\<not> ra_dirty a' \<Longrightarrow> ra_bl a' = ra_bl a \<and> \<not> ra_dirty a" by blast+
qed

section \<open>A window\<close>

definition ascending :: "(nat \<Rightarrow> u64) \<Rightarrow> nat \<Rightarrow> bool" where
  "ascending A n \<longleftrightarrow> (\<forall>j k. j \<le> k \<and> k < n \<longrightarrow> A j \<le> A k)"

lemma rescan_extend_spec:
  assumes "ascending (fs_slot_addr s) (ts_slot_count s)" "\<And>k. k < ts_slot_count s \<Longrightarrow> unat (fs_slot_addr s k) + vlen < 2 ^ 64"
    and "i \<le> lst" "lst < ts_slot_count s" "lst < j" "unat (fs_slot_addr s lst) + vlen - unat (fs_slot_addr s i) \<le> 0x100000"
  shows "\<exists>l. rescan_extend s bm vlen (fs_slot_addr s i) j (fs_slot_addr s lst + of_nat vlen) lst = (fs_slot_addr s l + of_nat vlen, l)
    \<and> lst \<le> l \<and> l < ts_slot_count s \<and> unat (fs_slot_addr s l) + vlen - unat (fs_slot_addr s i) \<le> 0x100000"
  using assms(3-6)
proof (induction "ts_slot_count s - j" arbitrary: j lst rule: less_induct)
  case less
  let ?n = "ts_slot_count s" and ?A = "fs_slot_addr s"
  let ?ne = "?A j + of_nat vlen" and ?cov = "?A lst + of_nat vlen"
  let ?stop = "(if ?A j > ?cov then ?A j - ?cov else 0) > TS_RESCAN_GAP_MAX \<or> ?ne - ?A i > TS_RESCAN_WIN_CAP"
  show ?case
  proof (cases "j < ?n \<and> \<not> ?stop")
    case True
    have "?A i \<le> ?A j" using assms(1) less.prems True by (auto simp: ascending_def)
    moreover have "unat ?ne = unat (?A j) + vlen" using assms(2) True by (simp add: unat_add_of_nat)
    ultimately have "unat (?ne - ?A i) = unat (?A j) + vlen - unat (?A i)" by (simp add: unat_diff word_le_nat_alt)
    then have sz: "unat (?A j) + vlen - unat (?A i) \<le> 0x100000" using True by (auto simp: TS_RESCAN_WIN_CAP_def word_less_nat_alt)
    let ?j = "fs_next_set bm (Suc j) ?n"
    have nx: "j < ?j" using True by (simp add: fs_next_set_later)
    have "rescan_extend s bm vlen (?A i) j ?cov lst = rescan_extend s bm vlen (?A i) ?j ?ne j"
      using True by (subst rescan_extend.simps) (simp add: Let_def)
    moreover have "?n - ?j < ?n - j" using nx conjunct1 [OF True] by simp
    ultimately show ?thesis using less.hyps [of ?j j] nx sz less.prems True by fastforce
  next
    case False
    then show ?thesis using less.prems by (subst rescan_extend.simps) (auto simp: Let_def)
  qed
qed

lemma val_at_blit_range:
  assumes "i \<le> lst"
  shows "val_at (blit v (i * vlen) (bytes_at b 0 ((lst - i + 1) * vlen))) vlen k = (if i \<le> k \<and> k \<le> lst then val_at b vlen (k - i) else val_at v vlen k)"
proof -
  have e: "i * vlen + (lst - i + 1) * vlen = Suc lst * vlen" using assms by (simp flip: add_mult_distrib)
  consider "k < i" | "lst < k" | "i \<le> k" "k \<le> lst" by linarith
  then show ?thesis
  proof cases
    case 1
    then show ?thesis using slot_end [of k i vlen] by (simp add: val_at_def bytes_at_blit_disjoint)
  next
    case 2
    then have "Suc lst * vlen \<le> k * vlen" by (intro mult_le_mono1) simp
    then have "i * vlen + (lst - i + 1) * vlen \<le> k * vlen" by (simp only: e)
    then show ?thesis using 2 by (simp add: val_at_def bytes_at_blit_disjoint del: add_mult_distrib)
  next
    case 3
    have k: "k * vlen = i * vlen + (k - i) * vlen" using 3 by (simp flip: add_mult_distrib)
    have lt: "(k - i) * vlen + vlen \<le> (lst - i + 1) * vlen" using 3 by (intro slot_end) simp
    have "bytes_at (blit v q (bytes_at b 0 l)) (q + x) n = bytes_at b x n" if "x + n \<le> l" for q x l n
      using that by (intro nth_equalityI) (simp_all add: blit_def add.assoc)
    from this [OF lt, of "i * vlen"] show ?thesis using 3 by (simp only: val_at_def k simp_thms if_True)
  qed
qed

definition snap_size :: "turboscan_session \<Rightarrow> nat" where
  "snap_size s = ts_slot_count s * ts_value_length s"

text \<open>What a snapshot holds: the values \<open>v\<close>, and where they are kept those of the scan before and the first ones.\<close>

definition snap_view :: "files \<Rightarrow> turboscan_session \<Rightarrow> ptr \<Rightarrow> ptr \<Rightarrow> ptr \<Rightarrow> bool" where
  "snap_view F s v pv fv \<longleftrightarrow> (0 < ts_slot_count s \<longrightarrow> ts_bitmap s \<noteq> None) \<and> (0 < ts_snap_bytes s \<longrightarrow> ts_snap_ram s \<noteq> None)
     \<and> has_store F (ptr_of (ts_snap_ram s)) (ts_snap_bytes s) (ts_snap_fd s) (snap_size s) v
     \<and> (ts_has_prev s \<longrightarrow> (\<exists>l\<ge>snap_size s. F (ts_prev_fd s) = Some (pv, l))) \<and> (ts_has_first s \<longrightarrow> (\<exists>l\<ge>snap_size s. F (ts_first_fd s) = Some (fv, l)))
     \<and> (ts_snap_bytes s < snap_size s \<longrightarrow> (ts_has_prev s \<longrightarrow> ts_prev_fd s \<noteq> ts_snap_fd s) \<and> (ts_has_first s \<longrightarrow> ts_first_fd s \<noteq> ts_snap_fd s))
     \<and> (ts_has_prev s \<and> ts_has_first s \<longrightarrow> ts_prev_fd s \<noteq> ts_first_fd s)"

lemma has_store_cong: "F fd = G fd \<Longrightarrow> has_store F ram rb fd sz v = has_store G ram rb fd sz v"
  by (simp add: has_store_def)

lemma has_store_same: "(\<And>i. i < sz \<Longrightarrow> v i = v' i) \<Longrightarrow> has_store F ram rb fd sz v \<Longrightarrow> has_store F ram rb fd sz v'"
  by (auto simp: has_store_def)

lemma val_at_cong: "(\<And>i. i < n * vlen \<Longrightarrow> v i = v' i) \<Longrightarrow> k < n \<Longrightarrow> val_at v vlen k = val_at v' vlen k"
  using slot_end [of k n vlen] by (auto simp: val_at_def bytes_at_eq_iff)

context turbo_system
begin

lemma window_values:
  assumes "snap_view (fs w) s v pv fv" "ts_value_length s = vlen" "i \<le> lst" "lst < ts_slot_count s"
    and run: "(if i * vlen + (lst - i + 1) * vlen > ts_snap_bytes s
      then (let (_, bl, w) = snap_store_read P (ptr_of (ts_snap_ram s)) (ts_snap_bytes s) (ts_snap_fd s) blbuf (i * vlen) ((lst - i + 1) * vlen) w in (bl, w))
      else (shift (ptr_of (ts_snap_ram s)) (i * vlen), w)) = (bl, w')"
  shows "fs w' = fs w" "bytes_at bl 0 ((lst - i + 1) * vlen) = bytes_at v (i * vlen) ((lst - i + 1) * vlen)"
proof -
  let ?len = "(lst - i + 1) * vlen"
  have "i * vlen + ?len = Suc lst * vlen" using assms(3) by (simp flip: add_mult_distrib)
  also have "\<dots> \<le> snap_size s" unfolding snap_size_def assms(2) using assms(4) by (intro mult_le_mono1) simp
  finally have le: "i * vlen + ?len \<le> snap_size s" .
  have st: "has_store (fs w) (ptr_of (ts_snap_ram s)) (ts_snap_bytes s) (ts_snap_fd s) (snap_size s) v" using assms(1) by (simp add: snap_view_def)
  have "fs w' = fs w \<and> bytes_at bl 0 ?len = bytes_at v (i * vlen) ?len"
  proof (cases "i * vlen + ?len > ts_snap_bytes s")
    case True
    obtain w1 where "snap_store_read P (ptr_of (ts_snap_ram s)) (ts_snap_bytes s) (ts_snap_fd s) blbuf (i * vlen) ?len w =
        (True, blit blbuf 0 (bytes_at v (i * vlen) ?len), w1)" "fs w1 = fs w"
      by (rule store_read_ok [OF st le]) (rule that)
    then show ?thesis using run True by auto
  next
    case False
    then show ?thesis using run st le by (auto simp: has_store_def bytes_at_eq_iff)
  qed
  then show "fs w' = fs w" "bytes_at bl 0 ?len = bytes_at v (i * vlen) ?len" by blast+
qed

end

context turbo_system
begin

text \<open>Writing back the values of a window: to the file part if there is one in it, else in place.\<close>

lemma window_store:
  assumes sv: "snap_view (fs w) s v pv fv" "ts_value_length s = vlen" "i \<le> lst" "lst < ts_slot_count s"
    and bl: "dirty \<or> bytes_at bl 0 ((lst - i + 1) * vlen) = bytes_at v (i * vlen) ((lst - i + 1) * vlen)"
    and run: "(if i * vlen + (lst - i + 1) * vlen > ts_snap_bytes s \<and> dirty
        then (let (_, ram, w) = snap_store_write P (ptr_of (ts_snap_ram s)) (ts_snap_bytes s) (ts_snap_fd s) bl (i * vlen) ((lst - i + 1) * vlen) w in (ram, w))
        else if i * vlen + (lst - i + 1) * vlen > ts_snap_bytes s then (ptr_of (ts_snap_ram s), w)
        else (blit (ptr_of (ts_snap_ram s)) (i * vlen) (bytes_at bl 0 ((lst - i + 1) * vlen)), w)) = (ram, w')"
  shows "snap_view (fs w') (s\<lparr>ts_bitmap := Some bm, ts_snap_ram := map_option (\<lambda>_. ram) (ts_snap_ram s)\<rparr>)
    (blit v (i * vlen) (bytes_at bl 0 ((lst - i + 1) * vlen))) pv fv"
proof -
  define len where "len = (lst - i + 1) * vlen"
  note run = run [folded len_def] and bl = bl [folded len_def]
  define v' where "v' = blit v (i * vlen) (bytes_at bl 0 len)"
  let ?ram = "ptr_of (ts_snap_ram s)" and ?rb = "ts_snap_bytes s" and ?fd = "ts_snap_fd s" and ?sz = "snap_size s"
  have "i * vlen + len = Suc lst * vlen" using sv(3) unfolding len_def by (simp flip: add_mult_distrib)
  also have "\<dots> \<le> ?sz" unfolding snap_size_def sv(2) using sv(4) by (intro mult_le_mono1) simp
  finally have le: "i * vlen + len \<le> ?sz" .
  have st: "has_store (fs w) ?ram ?rb ?fd ?sz v" using sv(1) by (simp add: snap_view_def)
  have "fs w' = (fs w)(?fd := fs w' ?fd) \<and> (?sz \<le> ?rb \<longrightarrow> fs w' = fs w) \<and> has_store (fs w') ram ?rb ?fd ?sz v'"
  proof (cases "i * vlen + len > ?rb")
    case True
    show ?thesis
    proof (cases dirty)
      case d: True
      have "?rb < i * vlen + len \<Longrightarrow> fs w ?fd \<noteq> None" using st le by (auto simp: has_store_def)
      then obtain ram1 w1 where "snap_store_write P ?ram ?rb ?fd bl (i * vlen) len w = (True, ram1, w1)" "fs w1 = (fs w)(?fd := fs w1 ?fd)"
          "has_store (fs w1) ram1 ?rb ?fd (max ?sz (i * vlen + len)) (blit v (i * vlen) (bytes_at bl 0 len))"
        using store_write_ok [OF st, of "i * vlen" len bl] le by (metis add_leD1)
      moreover have "max ?sz (i * vlen + len) = ?sz" using le by simp
      ultimately show ?thesis using run True d le by (auto simp: v'_def)
    next
      case d: False
      then have "v' = v" using bl unfolding v'_def by (auto simp: blit_def fun_eq_iff)
      then show ?thesis using run True d st by auto
    qed
  next
    case False
    then have r: "ram = blit ?ram (i * vlen) (bytes_at bl 0 len)" "w' = w" using run by auto
    have "has_store (fs w) (blit ?ram (i * vlen) (bytes_at bl 0 len)) ?rb ?fd ?sz v'"
      using st False by (auto simp: has_store_def blit_def v'_def)
    then show ?thesis using r by simp
  qed
  then have new: "fs w' = (fs w)(?fd := fs w' ?fd)" "?sz \<le> ?rb \<Longrightarrow> fs w' = fs w" "has_store (fs w') ram ?rb ?fd ?sz v'" by blast+
  have other: "fs w' fd = fs w fd" if "?rb < ?sz \<longrightarrow> fd \<noteq> ?fd" for fd
    using that new(1) new(2) by (cases "?rb < ?sz") (metis fun_upd_other, simp)
  let ?s = "s\<lparr>ts_bitmap := Some bm, ts_snap_ram := map_option (\<lambda>_. ram) (ts_snap_ram s)\<rparr>"
  have "has_store (fs w') (ptr_of (ts_snap_ram ?s)) ?rb ?fd ?sz v'"
  proof (cases "ts_snap_ram s")
    case None
    then have "?rb = 0" using sv(1) by (auto simp: snap_view_def)
    then show ?thesis using new(3) by (simp add: has_store_def)
  qed (use new(3) in \<open>simp add: ptr_of_def\<close>)
  moreover have "snap_size ?s = ?sz" by (simp add: snap_size_def)
  moreover have "ts_has_prev s \<longrightarrow> fs w' (ts_prev_fd s) = fs w (ts_prev_fd s)" "ts_has_first s \<longrightarrow> fs w' (ts_first_fd s) = fs w (ts_first_fd s)"
    using sv(1) other by (auto simp: snap_view_def)
  ultimately show ?thesis
    using sv(1) unfolding v'_def [symmetric] len_def [symmetric] snap_view_def by auto
qed

end

definition snap_hit :: "bool \<Rightarrow> count_request \<Rightarrow> (u64 \<Rightarrow> byte) \<Rightarrow> turboscan_session \<Rightarrow> ptr \<Rightarrow> nat \<Rightarrow> bool" where
  "snap_hit turbo r m s v k = cq_hit turbo r (mem_value m (cq_vlen r) (fs_slot_addr s k)) (val_at v (cq_vlen r) k)"

text \<open>What is known of the result of a rescan up to slot \<open>hi\<close>, with bitmap \<open>bm\<close> and values \<open>v\<close> before.\<close>

definition rescanned ::
    "bool \<Rightarrow> count_request \<Rightarrow> (u64 \<Rightarrow> byte) \<Rightarrow> turboscan_session \<Rightarrow> nat \<Rightarrow> nat \<Rightarrow> ptr \<Rightarrow> ptr \<Rightarrow> ptr \<Rightarrow> ptr \<Rightarrow> ptr \<Rightarrow> bool" where
  "rescanned turbo r m s lo hi bm v bm' v' pv' \<longleftrightarrow>
     (\<forall>k. slot_set bm' k = (slot_set bm k \<and> (lo \<le> k \<and> k < hi \<longrightarrow> snap_hit turbo r m s v k))) \<and>
     (\<forall>k<ts_slot_count s. val_at v' (cq_vlen r) k =
        (if lo \<le> k \<and> k < hi \<and> slot_set bm k \<and> snap_hit turbo r m s v k then mem_value m (cq_vlen r) (fs_slot_addr s k) else val_at v (cq_vlen r) k)) \<and>
     (ts_has_prev s \<longrightarrow> (\<forall>k. lo \<le> k \<and> k < hi \<and> slot_set bm k \<longrightarrow> val_at pv' (cq_vlen r) k = val_at v (cq_vlen r) k))"

context turbo_system
begin

lemma prev_write:
  assumes "snap_view (fs w) s v pv fv" "off + len \<le> snap_size s"
    and "w' = (if ts_has_prev s then snd (fs_pwrite_all P (ts_prev_fd s) bl len off w) else w)"
  obtains pv' where "snap_view (fs w') s v pv' fv" "pv' = (if ts_has_prev s then blit pv off (bytes_at bl 0 len) else pv)"
proof (cases "ts_has_prev s")
  case True
  then obtain l where l: "snap_size s \<le> l" "fs w (ts_prev_fd s) = Some (pv, l)" using assms(1) by (auto simp: snap_view_def)
  obtain w1 where w1: "fs_pwrite_all P (ts_prev_fd s) bl len off w = (True, w1)" "fs w1 = (fs w)(ts_prev_fd s \<mapsto> put_bytes off (bytes_at bl 0 len) (pv, l))"
    by (rule pwrite_all_ok [OF l(2)]) (rule that)
  have x: "put_bytes off (bytes_at bl 0 len) (pv, l) = (blit pv off (bytes_at bl 0 len), l)"
    using l(1) assms(2) by (auto simp: put_bytes_def)
  have "w' = w1" using assms(3) True w1(1) by simp
  have same: "has_store (fs w1) (ptr_of (ts_snap_ram s)) (ts_snap_bytes s) (ts_snap_fd s) (snap_size s) v"
    using assms(1) True w1(2) by (auto simp: snap_view_def has_store_def)
  have "snap_view (fs w1) s v (blit pv off (bytes_at bl 0 len)) fv"
    using assms(1) True l(1) same unfolding snap_view_def w1(2) x by auto
  then show thesis using that True \<open>w' = w1\<close> by simp
qed (use assms that in auto)

lemma rescan_window_ok:
  assumes sv: "snap_view (fs w) s v pv fv" "rr_sess R = s" "ts_value_length s = cq_vlen r" "ts_bitmap s = Some bm" and wf: "wf_rescan turbo r"
    and i: "i \<le> lst" "lst < ts_slot_count s" "slot_set bm i"
    and A: "ascending (fs_slot_addr s) (ts_slot_count s)" "readable_from readable (ts_pid s) (cq_vlen r) (fs_slot_addr s) 0 (ts_slot_count s)"
    and cov: "covered = fs_slot_addr s lst + of_nat (cq_vlen r)" "unat (fs_slot_addr s lst) + cq_vlen r - unat (fs_slot_addr s i) \<le> 0x100000"
    and b: "opt_bound bound (ts_pid s) actx"
    and run: "rescan_window rd P turbo r i lst covered R (actx, w) = (R', actx', w')"
  shows "\<exists>bm' ram v' pv'. rr_sess R' = s\<lparr>ts_bitmap := Some bm', ts_snap_ram := ram\<rparr> \<and> snap_view (fs w') (rr_sess R') v' pv' fv \<and>
      rescanned turbo r (mem (ts_pid s)) s i (Suc lst) bm v bm' v' pv' \<and>
      (ts_has_prev s \<longrightarrow> (\<forall>k. k < i \<longrightarrow> val_at pv' (cq_vlen r) k = val_at pv (cq_vlen r) k)) \<and>
      rr_surv R' = rr_surv R + length (filter (snap_hit turbo r (mem (ts_pid s)) s v) (slots_from bm i (Suc lst))) \<and> opt_bound bound (ts_pid s) actx'"
proof -
  let ?A = "fs_slot_addr s" and ?v = "cq_vlen r" and ?n = "ts_slot_count s" and ?M = "mem (ts_pid s)"
  let ?now = "\<lambda>k. mem_value ?M ?v (?A k)" and ?old = "\<lambda>k. val_at v ?v k"
  define len where "len = (lst - i + 1) * ?v"
  define rs where "rs = unat (?A lst) + ?v - unat (?A i)"
  have nw: "unat (?A k) + ?v < 2 ^ 64" if "k < ?n" for k using A(2) that by (simp add: readable_from_def)
  have il: "?A i \<le> ?A lst" using A(1) i by (auto simp: ascending_def)
  have uc: "unat covered = unat (?A lst) + ?v" using nw i by (simp add: cov(1) unat_add_of_nat)
  then have rs: "unat (covered - ?A i) = rs" using il by (simp add: unat_diff word_le_nat_alt rs_def)
  have rdy: "readable (ts_pid s) (?A i) rs" using A(2) i il cov(2) unfolding readable_from_def rs_def by auto
  obtain win al buf actx1 w1 where 1: "fs_rescan_window_read rd P (ts_pid s) (?A i) rs (rr_mem R) (actx, w) = ((win, al, buf), actx1, w1)"
    by (cases "fs_rescan_window_read rd P (ts_pid s) (?A i) rs (rr_mem R) (actx, w)") auto
  note W = window_read_ok [OF b rdy 1]
  have sv1: "snap_view (fs w1) s v pv fv" using sv(1) W(2) by simp
  obtain bl w2 where 2: "(if i * ?v + len > ts_snap_bytes s
      then (let (_, bl, w) = snap_store_read P (ptr_of (ts_snap_ram s)) (ts_snap_bytes s) (ts_snap_fd s) (rr_blbuf R) (i * ?v) len w1 in (bl, w))
      else (shift (ptr_of (ts_snap_ram s)) (i * ?v), w1)) = (bl, w2)" by fastforce
  note B = window_values [OF sv1 sv(3) i(1,2) 2 [unfolded len_def], folded len_def]
  have sv2: "snap_view (fs w2) s v pv fv" using sv1 B(1) by simp
  have "i * ?v + len = Suc lst * ?v" using i(1) unfolding len_def by (simp flip: add_mult_distrib)
  also have "\<dots> \<le> snap_size s" unfolding snap_size_def sv(3) using i(2) by (intro mult_le_mono1) simp
  finally have le: "i * ?v + len \<le> snap_size s" .
  define w3 where "w3 = (if ts_has_prev s then snd (fs_pwrite_all P (ts_prev_fd s) bl len (i * ?v) w2) else w2)"
  obtain pv' where pv': "snap_view (fs w3) s v pv' fv" "pv' = (if ts_has_prev s then blit pv (i * ?v) (bytes_at bl 0 len) else pv)"
    by (rule prev_write [OF sv2 le w3_def]) (rule that)
  define a0 where "a0 = \<lparr>ra_bitmap = bm, ra_bl = bl, ra_dirty = False, ra_surv = rr_surv R\<rparr>"
  define a where "a = rescan_slots s turbo r (?A i) win i lst i a0"
  have "fs_next_set bm i ?n = i" using i fs_next_set_Cons [of bm i ?n i] by (simp add: slots_from_Cons)
  then have fold: "a = fold (rescan_step s turbo r (?A i) win i) (slots_from bm i (Suc lst)) a0"
    unfolding a_def using rescan_slots_fold [OF i(2), of i a0 i] by (simp add: a0_def)
  have win: "\<forall>k\<in>set (slots_from bm i (Suc lst)). bytes_at win (unat (?A k - ?A i)) ?v = ?now k"
  proof
    fix k assume "k \<in> set (slots_from bm i (Suc lst))"
    then have k: "i \<le> k" "k \<le> lst" by auto
    then have ord: "?A i \<le> ?A k" "?A k \<le> ?A lst" using A(1) i(2) by (auto simp: ascending_def)
    have d: "unat (?A k - ?A i) = unat (?A k) - unat (?A i)" using ord(1) by (simp add: unat_diff)
    have u: "unat (?A i) \<le> unat (?A k)" "unat (?A k) \<le> unat (?A lst)" using ord by (simp_all add: word_le_nat_alt)
    have "win (unat (?A k - ?A i) + x) = ?M (?A k + of_nat x)" if "x < ?v" for x
    proof -
      have "unat (?A k - ?A i) + x < rs" using d u that by (simp add: rs_def)
      from W(3) [OF this] show ?thesis by (simp add: add.assoc [symmetric])
    qed
    then show "bytes_at win (unat (?A k - ?A i)) ?v = ?now k" by (simp add: bytes_at_eq_iff window_apply)
  qed
  have blv: "val_at bl ?v (k - i) = ?old k" if "i \<le> k" "k \<le> lst" for k
  proof -
    have "val_at (blit v (i * ?v) (bytes_at bl 0 len)) ?v k = val_at bl ?v (k - i)" 
      using that unfolding len_def by (subst val_at_blit_range [OF i(1)]) simp
    moreover have "blit v (i * ?v) (bytes_at bl 0 len) = v" unfolding B(2) by (auto simp: blit_def fun_eq_iff)
    ultimately show ?thesis by simp
  qed
  then have old: "\<forall>k\<in>set (slots_from bm i (Suc lst)). val_at (ra_bl a0) ?v (k - i) = ?old k" by (simp add: a0_def)
  have ge: "\<forall>k\<in>set (slots_from bm i (Suc lst)). i \<le> k" by simp
  note RE = rescan_fold_effect [OF sorted_slots_from(2) ge win old wf fold]
  have E: "slot_set (ra_bitmap a) j = (slot_set bm j \<and> (i \<le> j \<and> j < Suc lst \<longrightarrow> snap_hit turbo r ?M s v j))"
      "i \<le> j \<Longrightarrow> val_at (ra_bl a) ?v (j - i) = (if i \<le> j \<and> j < Suc lst \<and> slot_set bm j \<and> snap_hit turbo r ?M s v j then ?now j else val_at bl ?v (j - i))"
      "ra_surv a = rr_surv R + length (filter (snap_hit turbo r ?M s v) (slots_from bm i (Suc lst)))"
      "\<not> ra_dirty a \<Longrightarrow> ra_bl a = bl" for j
    using RE(1) [of j] RE(2) [of j] RE(3,4) by (auto simp: a0_def snap_hit_def [abs_def])
  obtain actx4 w4 where 4: "(if al then alias_release P (actx1, w3) else (actx1, w3)) = (actx4, w4)" by fastforce
  have R4: "opt_bound bound (ts_pid s) actx4" "fs w4 = fs w3" using 4 release_ok [OF W(1)] W(1) by (auto split: if_splits)
  have sv4: "snap_view (fs w4) s v pv' fv" using pv'(1) R4(2) by simp
  obtain ram w5 where 5: "(if i * ?v + len > ts_snap_bytes s \<and> ra_dirty a
        then (let (_, ram, w) = snap_store_write P (ptr_of (ts_snap_ram s)) (ts_snap_bytes s) (ts_snap_fd s) (ra_bl a) (i * ?v) len w4 in (ram, w))
        else if i * ?v + len > ts_snap_bytes s then (ptr_of (ts_snap_ram s), w4)
        else (blit (ptr_of (ts_snap_ram s)) (i * ?v) (bytes_at (ra_bl a) 0 len), w4)) = (ram, w5)" by fastforce
  have dl: "ra_dirty a \<or> bytes_at (ra_bl a) 0 len = bytes_at v (i * ?v) len" using E(4) B(2) by auto
  define v' where "v' = blit v (i * ?v) (bytes_at (ra_bl a) 0 len)"
  let ?s = "s\<lparr>ts_bitmap := Some (ra_bitmap a), ts_snap_ram := map_option (\<lambda>_. ram) (ts_snap_ram s)\<rparr>"
  have sv5: "snap_view (fs w5) ?s v' pv' fv"
    using window_store [OF sv4 sv(3) i(1,2) dl [unfolded len_def] 5 [unfolded len_def]] by (simp add: v'_def len_def)
  have eq: "(R', actx', w') = (R\<lparr>rr_sess := ?s, rr_mem := buf, rr_blbuf := if i * ?v + len > ts_snap_bytes s then ra_bl a else rr_blbuf R, rr_surv := ra_surv a\<rparr>, actx4, w5)"
    by (rule run [unfolded rescan_window_def Let_def sv(2) rs 1 prod.case len_def [symmetric] 2 [unfolded Let_def] w3_def [symmetric] sv(4) ptr_of_def [of "Some bm"]
      option.case a0_def [symmetric] a_def [symmetric] 4 5 [unfolded Let_def], symmetric])
  have val': "val_at v' ?v k = (if i \<le> k \<and> k < Suc lst \<and> slot_set bm k \<and> snap_hit turbo r ?M s v k then ?now k else ?old k)" for k
    unfolding v'_def len_def val_at_blit_range [OF i(1)] using E(2) [of k] blv [of k] by (auto simp: less_Suc_eq_le)
  have pval: "ts_has_prev s \<Longrightarrow> val_at pv' ?v k = (if i \<le> k \<and> k \<le> lst then ?old k else val_at pv ?v k)" for k
    unfolding pv'(2) len_def using val_at_blit_range [OF i(1)] blv [of k] by auto
  have "rescanned turbo r ?M s i (Suc lst) bm v (ra_bitmap a) v' pv'"
    using E(1) val' pval by (auto simp: rescanned_def less_Suc_eq_le)
  moreover have "rr_sess R' = ?s" "rr_surv R' = ra_surv a" "actx' = actx4" "w' = w5" using eq by simp_all
  ultimately show ?thesis using sv5 E(3) R4(1) pval
    by (intro exI [of _ "ra_bitmap a"] exI [of _ "map_option (\<lambda>_. ram) (ts_snap_ram s)"] exI [of _ v'] exI [of _ pv']) (simp add: not_le)
qed

end

section \<open>All windows\<close>

lemma fs_slot_addr_update [simp]: "fs_slot_addr (s\<lparr>ts_bitmap := b, ts_snap_ram := x\<rparr>) = fs_slot_addr s"
  by (simp add: fs_slot_addr_def fun_eq_iff)

lemma snap_hit_update [simp]: "snap_hit turbo r m (s\<lparr>ts_bitmap := b, ts_snap_ram := x\<rparr>) = snap_hit turbo r m s"
  by (simp add: snap_hit_def fun_eq_iff)

lemma rescanned_update [simp]: "rescanned turbo r m (s\<lparr>ts_bitmap := b, ts_snap_ram := x\<rparr>) = rescanned turbo r m s"
  by (simp add: rescanned_def fun_eq_iff)

lemma rescanned_trans:
  assumes 1: "rescanned turbo r m s 0 lo bm v bm1 v1 pv1" and 2: "rescanned turbo r m s i hi bm1 v1 bm2 v2 pv2"
    and gap: "lo \<le> i" "i \<le> hi" "hi \<le> ts_slot_count s" "\<And>k. lo \<le> k \<Longrightarrow> k < i \<Longrightarrow> \<not> slot_set bm1 k"
    and pv: "ts_has_prev s \<longrightarrow> (\<forall>k<i. val_at pv2 (cq_vlen r) k = val_at pv1 (cq_vlen r) k)"
  shows "rescanned turbo r m s 0 hi bm v bm2 v2 pv2"
proof -
  let ?n = "ts_slot_count s" and ?hit = "snap_hit turbo r m s v"
  have hit: "snap_hit turbo r m s v1 k = ?hit k" if "lo \<le> k" "k < ?n" for k
    using 1 that by (auto simp: rescanned_def snap_hit_def)
  have bm1: "slot_set bm1 k = slot_set bm k" if "lo \<le> k" for k using 1 that by (auto simp: rescanned_def)
  show ?thesis unfolding rescanned_def
  proof (intro conjI allI impI)
    fix k
    show "slot_set bm2 k = (slot_set bm k \<and> (0 \<le> k \<and> k < hi \<longrightarrow> ?hit k))"
    proof (cases "k < lo")
      case True
      then show ?thesis using 1 2 gap(1,2) by (auto simp: rescanned_def)
    next
      case False
      then show ?thesis using 2 gap hit [of k] bm1 [of k] by (cases "k < i") (auto simp: rescanned_def)
    qed
  next
    fix k assume k: "k < ?n"
    show "val_at v2 (cq_vlen r) k = (if 0 \<le> k \<and> k < hi \<and> slot_set bm k \<and> ?hit k then mem_value m (cq_vlen r) (fs_slot_addr s k) else val_at v (cq_vlen r) k)"
    proof (cases "k < lo")
      case True
      then show ?thesis using 1 2 gap(1,2) k by (auto simp: rescanned_def)
    next
      case False
      then show ?thesis using 1 2 gap hit [of k] bm1 [of k] k by (cases "k < i") (auto simp: rescanned_def)
    qed
  next
    fix k assume hp: "ts_has_prev s" and k: "0 \<le> k \<and> k < hi \<and> slot_set bm k"
    show "val_at pv2 (cq_vlen r) k = val_at v (cq_vlen r) k"
    proof (cases "k < lo")
      case True
      then show ?thesis using 1 pv hp k gap(1) by (auto simp: rescanned_def)
    next
      case False
      then have "i \<le> k" using gap(4) [of k] bm1 [of k] k by (meson not_less)
      then show ?thesis using 1 2 hp k False bm1 [of k] gap(3) by (auto simp: rescanned_def)
    qed
  qed
qed

lemma rescanned_further:
  assumes "rescanned turbo r m s 0 lo bm v bm1 v1 pv1" "lo \<le> hi" "\<And>k. lo \<le> k \<Longrightarrow> k < hi \<Longrightarrow> \<not> slot_set bm k"
  shows "rescanned turbo r m s 0 hi bm v bm1 v1 pv1"
proof -
  have e: "k < hi \<and> slot_set bm k \<longleftrightarrow> k < lo \<and> slot_set bm k" for k using assms(2) assms(3) [of k] by (cases "k < lo") auto
  show ?thesis unfolding rescanned_def
  proof (intro conjI allI impI)
    fix k
    show "slot_set bm1 k = (slot_set bm k \<and> (0 \<le> k \<and> k < hi \<longrightarrow> snap_hit turbo r m s v k))"
      using assms(1) e [of k] by (auto simp: rescanned_def)
  next
    fix k assume "k < ts_slot_count s"
    then show "val_at v1 (cq_vlen r) k = (if 0 \<le> k \<and> k < hi \<and> slot_set bm k \<and> snap_hit turbo r m s v k
        then mem_value m (cq_vlen r) (fs_slot_addr s k) else val_at v (cq_vlen r) k)"
      using assms(1) e [of k] by (auto simp: rescanned_def)
  next
    fix k assume "ts_has_prev s" "0 \<le> k \<and> k < hi \<and> slot_set bm k"
    then show "val_at pv1 (cq_vlen r) k = val_at v (cq_vlen r) k" using assms(1) e [of k] by (auto simp: rescanned_def)
  qed
qed

definition progress_msgs :: "nat \<Rightarrow> byte list \<Rightarrow> bool" where
  \<comment> \<open>progress messages, each the number of a slot\<close>
  "progress_msgs n bs \<longleftrightarrow> (\<exists>ps. bs = concat (map (\<lambda>p. le_bytes 8 (of_nat p :: u64)) ps) \<and> (\<forall>p\<in>set ps. p < n))"

lemma progress_msgs_Nil: "progress_msgs n []"
  by (auto simp: progress_msgs_def intro: exI [of _ "[]"])

lemma progress_msgs_append: "progress_msgs n xs \<Longrightarrow> progress_msgs n ys \<Longrightarrow> progress_msgs n (xs @ ys)"
  unfolding progress_msgs_def by (metis (no_types, lifting) Un_iff concat_append map_append set_append)

lemma progress_msgs_one: "p < n \<Longrightarrow> progress_msgs n (le_bytes 8 (of_nat p :: u64))"
  unfolding progress_msgs_def by (intro exI [of _ "[p]"]) simp

context turbo_system
begin

lemma rescan_windows_ok:
  assumes s: "ts_value_length s = cq_vlen r" "wf_rescan turbo r"
    and A: "ascending (fs_slot_addr s) (ts_slot_count s)" "readable_from readable (ts_pid s) (cq_vlen r) (fs_slot_addr s) 0 (ts_slot_count s)"
    and "n = ts_slot_count s"
    and st: "rr_sess R = s\<lparr>ts_bitmap := Some bm1, ts_snap_ram := ram1\<rparr>" "snap_view (fs w) (rr_sess R) v1 pv1 fv"
      "rescanned turbo r (mem (ts_pid s)) s 0 lo bm v bm1 v1 pv1" "lo \<le> n" "i = fs_next_set bm1 lo n"
      "rr_surv R = length (filter (snap_hit turbo r (mem (ts_pid s)) s v) (slots_from bm 0 lo))"
      "opt_bound bound (ts_pid s) actx" "quiet c"
    and run: "rescan_windows rd P turbo r n prog_step i R ((actx, w), c) = (R', (actx', w'), c')"
  shows "\<exists>bm2 ram2 v2 pv2 bs. rr_sess R' = s\<lparr>ts_bitmap := Some bm2, ts_snap_ram := ram2\<rparr> \<and> snap_view (fs w') (rr_sess R') v2 pv2 fv \<and>
      rescanned turbo r (mem (ts_pid s)) s 0 n bm v bm2 v2 pv2 \<and>
      rr_surv R' = length (filter (snap_hit turbo r (mem (ts_pid s)) s v) (slots_from bm 0 n)) \<and> opt_bound bound (ts_pid s) actx' \<and>
      progress_msgs n bs \<and> io c [] bs c'"
  using st run
proof (induction "n - i" arbitrary: i R bm1 ram1 v1 pv1 lo actx w c rule: less_induct)
  case less
  let ?M = "mem (ts_pid s)" and ?hit = "snap_hit turbo r (mem (ts_pid s)) s v" and ?v = "cq_vlen r" and ?A = "fs_slot_addr s"
  note n = assms(5)
  have low: "slot_set bm1 k = slot_set bm k" "k < n \<Longrightarrow> val_at v1 ?v k = val_at v ?v k" if "lo \<le> k" for k
    using less.prems(3) that n by (auto simp: rescanned_def)
  show ?case
  proof (cases "i < n")
    case False
    then have "i = n" using fs_next_set_le [of bm1 lo n] less.prems(5) by simp
    then have none: "slots_from bm1 lo n = []" using less.prems(5) fs_next_set_slots [of bm1 lo n] by (simp add: Let_def)
    have "\<not> slot_set bm1 k" if "lo \<le> k" "k < n" for k
    proof
      assume "slot_set bm1 k"
      then have "k \<in> set (slots_from bm1 lo n)" using that by simp
      then show False by (simp add: none)
    qed
    then have empty: "\<not> slot_set bm k" if "lo \<le> k" "k < n" for k using low(1) that by blast
    have "slots_from bm lo n = []" using empty by (auto simp: slots_from_def filter_empty_conv)
    then have "slots_from bm 0 n = slots_from bm 0 lo" using less.prems(4) by (simp add: slots_from_def upt_split [of 0 lo n])
    moreover have "rescanned turbo r ?M s 0 n bm v bm1 v1 pv1"
      using rescanned_further [OF less.prems(3,4)] empty by blast
    moreover have "R' = R" "actx' = actx" "w' = w" "c' = c" using less.prems(9) False by (auto simp: rescan_windows.simps [of rd P turbo r n prog_step i])
    ultimately show ?thesis using less.prems(1,2,6,7) progress_msgs_Nil io_refl
      by (intro exI [of _ bm1] exI [of _ ram1] exI [of _ v1] exI [of _ pv1] exI [of _ "[]"]) simp
  next
    case True
    let ?s = "s\<lparr>ts_bitmap := Some bm1, ts_snap_ram := ram1\<rparr>"
    obtain R1 c1 where 1: "(if i \<ge> rr_prog R then (R\<lparr>rr_prog := i + prog_step\<rparr>, send64 i c) else (R, c)) = (R1, c1)" by fastforce
    have sl: "slots_from bm1 lo n = i # slots_from bm1 (Suc i) n" using less.prems(5) True fs_next_set_slots [of bm1 lo n] by (simp add: Let_def)
    then have i_in: "i \<in> set (slots_from bm1 lo n)" by simp
    then have i: "lo \<le> i" "slot_set bm1 i" by simp_all
    have before: "\<not> slot_set bm1 k" if "lo \<le> k" "k < i" for k
    proof
      assume "slot_set bm1 k"
      then have "k \<in> set (slots_from bm1 lo n)" using that True by simp
      then show False using sorted_slots_from(1) [of bm1 lo n] sl that by auto
    qed
    have nw: "unat (?A k) + ?v < 2 ^ 64" if "k < n" for k using A(2) that n by (simp add: readable_from_def)
    have vl: "?v \<le> 0x100000" using s(2) by (simp add: wf_rescan_def)
    obtain l where l: "rescan_extend ?s bm1 ?v (?A i) (fs_next_set bm1 (Suc i) n) (?A i + of_nat ?v) i = (?A l + of_nat ?v, l)"
        "i \<le> l" "l < n" "unat (?A l) + ?v - unat (?A i) \<le> 0x100000"
      using rescan_extend_spec [of ?s ?v i i "fs_next_set bm1 (Suc i) n" bm1] A(1) nw True vl by (auto simp: n fs_next_set_later)
    obtain R2 actx2 w2 where 2: "rescan_window rd P turbo r i l (?A l + of_nat ?v) R1 (actx, w) = (R2, actx2, w2)"
      by (cases "rescan_window rd P turbo r i l (?A l + of_nat ?v) R1 (actx, w)") auto
    have R1: "rr_sess R1 = ?s" "rr_surv R1 = rr_surv R" using 1 less.prems(1) by (auto split: if_splits)
    have view: "snap_view (fs w) ?s v1 pv1 fv" using less.prems(1,2) by simp
    have pre: "ts_value_length ?s = cq_vlen r" "ts_bitmap ?s = Some bm1" "l < ts_slot_count ?s" "ascending (fs_slot_addr ?s) (ts_slot_count ?s)"
        "readable_from readable (ts_pid ?s) (cq_vlen r) (fs_slot_addr ?s) 0 (ts_slot_count ?s)" "?A l + of_nat ?v = fs_slot_addr ?s l + of_nat ?v"
        "unat (fs_slot_addr ?s l) + ?v - unat (fs_slot_addr ?s i) \<le> 0x100000" "opt_bound bound (ts_pid ?s) actx"
      using s(1) l(3,4) A less.prems(7) by (simp_all add: n)
    note win = rescan_window_ok [OF view R1(1) pre(1,2) s(2) l(2) pre(3) i(2) pre(4-8) 2]
    from win obtain bm2 ram2 v2 pv2 where 3: "rr_sess R2 = s\<lparr>ts_bitmap := Some bm2, ts_snap_ram := ram2\<rparr>" "snap_view (fs w2) (rr_sess R2) v2 pv2 fv"
      "rescanned turbo r ?M s i (Suc l) bm1 v1 bm2 v2 pv2" "ts_has_prev s \<longrightarrow> (\<forall>k. k < i \<longrightarrow> val_at pv2 ?v k = val_at pv1 ?v k)"
      "rr_surv R2 = rr_surv R1 + length (filter (snap_hit turbo r ?M s v1) (slots_from bm1 i (Suc l)))" "opt_bound bound (ts_pid s) actx2"
      by (elim exE conjE) (rule that, simp_all)
    have whole: "rescanned turbo r ?M s 0 (Suc l) bm v bm2 v2 pv2"
      using rescanned_trans [OF less.prems(3) 3(3) i(1) _ _ before 3(4)] l(2,3) by (simp add: n)
    have surv: "rr_surv R2 = length (filter ?hit (slots_from bm 0 (Suc l)))"
    proof -
      have "slots_from bm1 i (Suc l) = slots_from bm1 lo (Suc l)" using i(1) before by (intro slots_from_skip [symmetric]) auto
      also have "\<dots> = slots_from bm lo (Suc l)" using low(1) by (intro slots_from_cong) auto
      finally have eq: "slots_from bm1 i (Suc l) = slots_from bm lo (Suc l)" .
      have "filter (snap_hit turbo r ?M s v1) (slots_from bm lo (Suc l)) = filter ?hit (slots_from bm lo (Suc l))"
        using low(2) l(3) by (intro filter_cong) (auto simp: snap_hit_def)
      moreover have "slots_from bm 0 (Suc l) = slots_from bm 0 lo @ slots_from bm lo (Suc l)"
        using i(1) l(2) by (simp add: slots_from_def upt_split [of 0 lo "Suc l"] del: upt_Suc)
      ultimately show ?thesis using 3(5) R1(2) less.prems(6) by (simp add: eq)
    qed
    define i2 where "i2 = fs_next_set bm2 (Suc l) n"
    have i2: "i < i2" using l(2,3) fs_next_set_later(2) [of i l n bm2] True by (simp add: i2_def)
    have q1: "quiet c1" using 1 less.prems(8) by (auto split: if_splits)
    have "rescan_windows rd P turbo r n prog_step i R ((actx, w), c) = rescan_windows rd P turbo r n prog_step i2 R2 ((actx2, w2), c1)"
      using True l(2) by (subst rescan_windows.simps) (simp add: Let_def less.prems(1) 1 l(1) 2 3(1) ptr_of_def i2_def max_absorb2)
    then have run2: "rescan_windows rd P turbo r n prog_step i2 R2 ((actx2, w2), c1) = (R', (actx', w'), c')" using less.prems(9) by simp
    have "n - i2 < n - i" "Suc l \<le> n" using i2 True l(3) by auto
    note IH = less.hyps [OF this(1) 3(1,2) whole this(2) i2_def surv 3(6) q1 run2]
    let ?bs = "if rr_prog R \<le> i then le_bytes 8 (of_nat i :: u64) else []"
    have p0: "progress_msgs n ?bs" "io c [] ?bs c1" using 1 True less.prems(8) progress_msgs_one progress_msgs_Nil by (auto simp: io_send_all split: if_splits)
    have join: "progress_msgs n (?bs @ bs) \<and> io c [] (?bs @ bs) c'" if "progress_msgs n bs" "io c1 [] bs c'" for bs
      using that progress_msgs_append [OF p0(1)] io_trans [OF p0(2), of "[]" bs c'] by simp
    obtain bm3 ram3 v3 pv3 bs where "rr_sess R' = s\<lparr>ts_bitmap := Some bm3, ts_snap_ram := ram3\<rparr>" "snap_view (fs w') (rr_sess R') v3 pv3 fv"
      "rescanned turbo r ?M s 0 n bm v bm3 v3 pv3" "rr_surv R' = length (filter ?hit (slots_from bm 0 n))" "opt_bound bound (ts_pid s) actx'"
      "progress_msgs n bs" "io c1 [] bs c'" using IH by (elim exE conjE) (rule that)
    then show ?thesis using join [of bs]
      by (intro exI [of _ bm3] exI [of _ ram3] exI [of _ v3] exI [of _ pv3] exI [of _ "?bs @ bs"]) simp
  qed
qed

end

section \<open>The table of a session\<close>

definition snap_surv :: "turboscan_session \<Rightarrow> ptr \<Rightarrow> ptr \<Rightarrow> ptr \<Rightarrow> nat \<Rightarrow> survivor" where
  "snap_surv s v pv fv k = (let vlen = ts_value_length s in \<lparr>sv_addr = fs_slot_addr s k, sv_cur = val_at v vlen k,
     sv_prev = val_at (if ts_has_prev s then pv else v) vlen k, sv_first = if ts_has_first s then val_at fv vlen k else []\<rparr>)"

definition snap_survs :: "turboscan_session \<Rightarrow> ptr \<Rightarrow> ptr \<Rightarrow> ptr \<Rightarrow> survivor list" where
  "snap_survs s v pv fv = map (snap_surv s v pv fv) (slots_from (ptr_of (ts_bitmap s)) 0 (ts_slot_count s))"

text \<open>A well-formed session, with the files as \<open>F\<close>, and its table.\<close>

definition session_table :: "files \<Rightarrow> turboscan_session \<Rightarrow> survivor list \<Rightarrow> bool" where
  "session_table F s vs \<longleftrightarrow> (case ts_mode s of
       TS_MODE_NONE \<Rightarrow> vs = []
     | TS_MODE_LIST \<Rightarrow> wf_list s \<and> vs = list_survivors s
     | TS_MODE_SNAPSHOT \<Rightarrow> 0 < ts_value_length s \<and> ts_value_length s \<le> 8 \<and> ts_value_length s dvd ts_snap_bytes s \<and> ts_survivors s = length vs
         \<and> (\<exists>v pv fv. snap_view F s v pv fv \<and> vs = snap_survs s v pv fv))"

lemma session_table_snapI:
  assumes "ts_mode s = TS_MODE_SNAPSHOT" "0 < ts_value_length s" "ts_value_length s \<le> 8" "ts_value_length s dvd ts_snap_bytes s"
    and "snap_view F s v pv fv" "vs = snap_survs s v pv fv" "ts_survivors s = length vs"
  shows "session_table F s vs"
  unfolding session_table_def assms(1) ts_mode.case
  using assms(2-7) by (intro conjI exI [of _ v] exI [of _ pv] exI [of _ fv]) simp_all

lemma snap_survs_rescanned:
  assumes "rescanned turbo r m s 0 (ts_slot_count s) bm v bm' v' pv'" "ts_bitmap s = Some bm" "ts_value_length s = cq_vlen r"
  shows "snap_survs (s\<lparr>ts_bitmap := Some bm', ts_snap_ram := ram, ts_survivors := x\<rparr>) v' pv' fv =
    table_rescan (ts_has_prev s) (mem_value m (cq_vlen r)) (cq_hit turbo r) (snap_survs s v pv fv)"
    "length (table_rescan (ts_has_prev s) (mem_value m (cq_vlen r)) (cq_hit turbo r) (snap_survs s v pv fv)) =
       length (filter (snap_hit turbo r m s v) (slots_from bm 0 (ts_slot_count s)))"
proof -
  let ?n = "ts_slot_count s" and ?s = "s\<lparr>ts_bitmap := Some bm', ts_snap_ram := ram, ts_survivors := x\<rparr>"
  let ?hit = "snap_hit turbo r m s v" and ?now = "mem_value m (cq_vlen r)"
  have slots: "slots_from bm' 0 ?n = filter ?hit (slots_from bm 0 ?n)"
    unfolding slots_from_def filter_filter using assms(1) by (intro filter_cong) (auto simp: rescanned_def)
  have addr: "fs_slot_addr ?s = fs_slot_addr s" by (simp add: fs_slot_addr_def fun_eq_iff)
  have hit: "filter (\<lambda>u. cq_hit turbo r (?now (sv_addr u)) (sv_cur u)) (map (snap_surv s v pv fv) ks) = map (snap_surv s v pv fv) (filter ?hit ks)" for ks
    by (simp add: filter_map comp_def snap_surv_def Let_def snap_hit_def [abs_def] assms(3))
  have tab: "table_rescan (ts_has_prev s) ?now (cq_hit turbo r) (snap_survs s v pv fv) =
      map (\<lambda>k. (snap_surv s v pv fv k)\<lparr>sv_cur := ?now (fs_slot_addr s k), sv_prev := if ts_has_prev s then val_at v (cq_vlen r) k else ?now (fs_slot_addr s k)\<rparr>)
        (filter ?hit (slots_from bm 0 ?n))"
    by (simp add: table_rescan_def snap_survs_def assms(2) ptr_of_def hit comp_def) (simp add: snap_surv_def Let_def assms(3))
  show "length (table_rescan (ts_has_prev s) ?now (cq_hit turbo r) (snap_survs s v pv fv)) = length (filter ?hit (slots_from bm 0 ?n))"
    by (simp only: tab length_map)
  have "snap_surv ?s v' pv' fv k = (snap_surv s v pv fv k)\<lparr>sv_cur := ?now (fs_slot_addr s k), sv_prev := if ts_has_prev s then val_at v (cq_vlen r) k else ?now (fs_slot_addr s k)\<rparr>"
    if "k \<in> set (filter ?hit (slots_from bm 0 ?n))" for k
    using that assms(1) by (auto simp: snap_surv_def Let_def addr assms(3) rescanned_def)
  then show "snap_survs ?s v' pv' fv = table_rescan (ts_has_prev s) ?now (cq_hit turbo r) (snap_survs s v pv fv)"
    unfolding tab by (simp add: slots snap_survs_def ptr_of_def)
qed

context turbo_system
begin

lemma snapshot_rescan_ok:
  assumes s: "ts_mode s = TS_MODE_SNAPSHOT" "session_table (fs w) s vs" "ts_value_length s = cq_vlen r" "wf_rescan turbo r"
    and A: "ascending (fs_slot_addr s) (ts_slot_count s)" "readable_from readable (ts_pid s) (cq_vlen r) (fs_slot_addr s) 0 (ts_slot_count s)"
    and b: "opt_bound bound (ts_pid s) actx" "quiet c"
    and run: "fs_snapshot_rescan rd P s turbo r mem_buf bl_buf ((actx, w), c) = ((nc, s'), (actx', w'), c')"
  shows "session_table (fs w') s' (table_rescan (ts_has_prev s) (mem_value (mem (ts_pid s)) (cq_vlen r)) (cq_hit turbo r) vs)
    \<and> nc = length (table_rescan (ts_has_prev s) (mem_value (mem (ts_pid s)) (cq_vlen r)) (cq_hit turbo r) vs)
    \<and> (\<exists>bm ram. s' = s\<lparr>ts_bitmap := bm, ts_snap_ram := ram, ts_survivors := nc\<rparr>) \<and> opt_bound bound (ts_pid s) actx'
    \<and> (\<exists>bs. progress_msgs (ts_slot_count s) bs \<and> io c [] bs c')"
proof -
  let ?n = "ts_slot_count s" and ?now = "mem_value (mem (ts_pid s)) (cq_vlen r)"
  obtain v pv fv where v: "snap_view (fs w) s v pv fv" "vs = snap_survs s v pv fv" using s(1,2) by (auto simp: session_table_def)
  have wf: "0 < ts_value_length s" "ts_value_length s \<le> 8" "ts_value_length s dvd ts_snap_bytes s" using s(1,2) by (auto simp: session_table_def)
  show ?thesis
  proof (cases "?n = 0")
    case True
    then have e: "s' = s\<lparr>ts_survivors := 0\<rparr>" "nc = 0" "actx' = actx" "w' = w" "c' = c" "vs = []"
      using run v by (simp_all add: fs_snapshot_rescan_def snap_survs_def)
    have "snap_view (fs w) s' v pv fv" "snap_survs s' v pv fv = []" using v True by (simp_all add: e(1) snap_view_def snap_size_def snap_survs_def)
    then have "session_table (fs w) s' []" using s(1) wf by (intro session_table_snapI [of s' _ v pv fv]) (simp_all add: e(1))
    moreover have "s' = s\<lparr>ts_bitmap := ts_bitmap s, ts_snap_ram := ts_snap_ram s, ts_survivors := nc\<rparr>" by (simp add: e)
    ultimately show ?thesis using b(1) e(2-6) progress_msgs_Nil [of ?n] io_refl [of c]
      by (intro conjI exI [of _ "[]"] exI [of _ "ts_bitmap s"] exI [of _ "ts_snap_ram s"]) (simp_all add: table_rescan_def)
  next
    case False
    then obtain bm where bm: "ts_bitmap s = Some bm" using v(1) by (auto simp: snap_view_def)
    define step where "step = (if ?n div 256 = 0 then 1 else ?n div 256)"
    let ?R = "\<lparr>rr_sess = s, rr_mem = mem_buf, rr_blbuf = bl_buf, rr_surv = 0, rr_prog = step\<rparr>"
    obtain R actx2 w2 c2 where R: "rescan_windows rd P turbo r ?n step (fs_next_set bm 0 ?n) ?R ((actx, w), c) = (R, (actx2, w2), c2)"
      by (cases "rescan_windows rd P turbo r ?n step (fs_next_set bm 0 ?n) ?R ((actx, w), c)") auto
    have e: "nc = rr_surv R" "s' = (rr_sess R)\<lparr>ts_survivors := rr_surv R\<rparr>" "actx' = actx2" "w' = w2" "c' = c2"
      using run False R bm by (auto simp: fs_snapshot_rescan_def Let_def ptr_of_def step_def [symmetric])
    have 0: "rr_sess ?R = s\<lparr>ts_bitmap := Some bm, ts_snap_ram := ts_snap_ram s\<rparr>" "snap_view (fs w) (rr_sess ?R) v pv fv"
        "rescanned turbo r (mem (ts_pid s)) s 0 0 bm v bm v pv" "0 \<le> ?n"
        "rr_surv ?R = length (filter (snap_hit turbo r (mem (ts_pid s)) s v) (slots_from bm 0 0))"
      using v(1) bm by (simp_all add: rescanned_def)
    obtain bm2 ram2 v2 pv2 bs where 2: "rr_sess R = s\<lparr>ts_bitmap := Some bm2, ts_snap_ram := ram2\<rparr>" "snap_view (fs w2) (rr_sess R) v2 pv2 fv"
      "rescanned turbo r (mem (ts_pid s)) s 0 ?n bm v bm2 v2 pv2" "rr_surv R = length (filter (snap_hit turbo r (mem (ts_pid s)) s v) (slots_from bm 0 ?n))"
      "opt_bound bound (ts_pid s) actx2" "progress_msgs ?n bs" "io c [] bs c2"
      using rescan_windows_ok [OF s(3,4) A refl 0(1-4) refl 0(5) b R] by (elim exE conjE) (rule that)
    note tab = snap_survs_rescanned(1) [OF 2(3) bm s(3), where ram = ram2 and x = nc and fv = fv and pv = pv]
      snap_survs_rescanned(2) [OF 2(3) bm s(3), where fv = fv and pv = pv]
    have s': "s' = s\<lparr>ts_bitmap := Some bm2, ts_snap_ram := ram2, ts_survivors := nc\<rparr>" by (simp add: e 2(1))
    have view: "snap_view (fs w2) s' v2 pv2 fv" using 2(1,2) by (simp add: s' snap_view_def snap_size_def)
    have nc: "nc = length (table_rescan (ts_has_prev s) ?now (cq_hit turbo r) vs)" using tab(2) 2(4) e(1) v(2) by simp
    let ?tab = "table_rescan (ts_has_prev s) ?now (cq_hit turbo r) vs"
    have "?tab = snap_survs s' v2 pv2 fv" using tab(1) by (simp add: s' v(2))
    then have "session_table (fs w2) s' ?tab" using view wf s(1) nc by (intro session_table_snapI [of s' _ v2 pv2 fv]) (simp_all add: s')
    then show ?thesis unfolding e(3-5) using nc s' 2(5-7)
      by (intro conjI exI [of _ bs] exI [of _ "Some bm2"] exI [of _ ram2]) simp_all
  qed
qed

end

end
