(* ===== verification/TurboGet.thy ===== *)
theory TurboGet
  imports TurboTable
begin

text \<open>
  What a client gets of a session is a stretch of its table, and turning a snapshot into a list does
  not change the table.
\<close>

section \<open>Reading one survivor of a snapshot\<close>

definition surv_entry :: "survivor \<Rightarrow> byte list" where
  \<comment> \<open>a survivor on the wire\<close>
  "surv_entry u = le_bytes 8 (sv_addr u) @ sv_cur u @ sv_prev u @ sv_first u"

context reliable_storage
begin

lemma read_value_ok:
  assumes "fs w fd = Some (p, l)" "off + vlen \<le> l"
  obtains w' where "read_value P fd vlen off w = (Some (bytes_at p off vlen), w')" "fs w' = fs w"
proof -
  obtain w' where "fs_pread_all P fd (\<lambda>_. 0) vlen off w = (True, blit (\<lambda>_. 0) 0 (bytes_at (fst (p, l)) off vlen), w')" "fs w' = fs w"
    by (rule pread_all_ok [OF assms(1), of off vlen "\<lambda>_. 0"]) (use assms(2) in simp, rule that)
  then show thesis using that by (simp add: read_value_def)
qed

lemma opt_read_value:
  assumes "has \<Longrightarrow> \<exists>l\<ge>off + vlen. fs w fd = Some (p, l)"
  obtains w' where "(if has then read_value P fd vlen off w else (Some [], w)) = (Some (if has then bytes_at p off vlen else []), w')" "fs w' = fs w"
proof (cases has)
  case True
  then obtain l where "off + vlen \<le> l" "fs w fd = Some (p, l)" using assms by auto
  then show thesis using read_value_ok [of w fd p l off vlen] that True by auto
qed (use that in simp)

lemma slot_in: "k < ts_slot_count s \<Longrightarrow> k * ts_value_length s + ts_value_length s \<le> snap_size s"
  using mult_le_mono1 [of "Suc k" "ts_slot_count s" "ts_value_length s"] by (simp add: snap_size_def)

lemma snap_entry_ok:
  assumes v: "snap_view (fs w) s v pv fv" "k < ts_slot_count s"
  obtains w' where "snap_entry P s k old w = (surv_entry (snap_surv s v pv fv k), w')" "fs w' = fs w"
proof -
  let ?v = "ts_value_length s" and ?off = "k * ts_value_length s"
  note le = slot_in [OF v(2)]
  have st: "has_store (fs w) (ptr_of (ts_snap_ram s)) (ts_snap_bytes s) (ts_snap_fd s) (snap_size s) v" using v(1) by (simp add: snap_view_def)
  obtain w1 where 1: "snap_store_read P (ptr_of (ts_snap_ram s)) (ts_snap_bytes s) (ts_snap_fd s) (shift old 8) ?off ?v w =
      (True, blit (shift old 8) 0 (bytes_at v ?off ?v), w1)" "fs w1 = fs w"
    by (rule store_read_ok [OF st le]) (rule that)
  have "\<exists>p w2. (if ts_has_prev s then (let (_, p, w) = fs_pread_all P (ts_prev_fd s) (shift old (8 + ?v)) ?v ?off w1 in (p, w))
      else (blit (shift old 8) 0 (bytes_at v ?off ?v), w1)) = (p, w2) \<and> fs w2 = fs w \<and> bytes_at p 0 ?v = bytes_at (if ts_has_prev s then pv else v) ?off ?v"
  proof (cases "ts_has_prev s")
    case True
    then obtain l where l: "snap_size s \<le> l" "fs w1 (ts_prev_fd s) = Some (pv, l)" using v(1) 1(2) by (auto simp: snap_view_def)
    obtain w2 where "fs_pread_all P (ts_prev_fd s) (shift old (8 + ?v)) ?v ?off w1 = (True, blit (shift old (8 + ?v)) 0 (bytes_at (fst (pv, l)) ?off ?v), w2)" "fs w2 = fs w1"
      by (rule pread_all_ok [OF l(2), of ?off ?v "shift old (8 + ?v)"]) (use l(1) le in simp, rule that)
    then show ?thesis using True 1(2) by simp
  qed (use 1(2) in simp)
  then obtain p w2 where 2: "(if ts_has_prev s then (let (_, p, w) = fs_pread_all P (ts_prev_fd s) (shift old (8 + ?v)) ?v ?off w1 in (p, w))
      else (blit (shift old 8) 0 (bytes_at v ?off ?v), w1)) = (p, w2)" "fs w2 = fs w" "bytes_at p 0 ?v = bytes_at (if ts_has_prev s then pv else v) ?off ?v"
    by blast
  have "\<exists>w3. (if ts_has_first s then (let (_, p, w) = fs_pread_all P (ts_first_fd s) (shift old (8 + 2 * ?v)) ?v ?off w2 in (bytes_at p 0 ?v, w)) else ([], w2)) =
      (if ts_has_first s then bytes_at fv ?off ?v else [], w3) \<and> fs w3 = fs w"
  proof (cases "ts_has_first s")
    case True
    then obtain l where l: "snap_size s \<le> l" "fs w2 (ts_first_fd s) = Some (fv, l)" using v(1) 2(2) by (auto simp: snap_view_def)
    obtain w3 where "fs_pread_all P (ts_first_fd s) (shift old (8 + 2 * ?v)) ?v ?off w2 = (True, blit (shift old (8 + 2 * ?v)) 0 (bytes_at (fst (fv, l)) ?off ?v), w3)" "fs w3 = fs w2"
      by (rule pread_all_ok [OF l(2), of ?off ?v "shift old (8 + 2 * ?v)"]) (use l(1) le in simp, rule that)
    then show ?thesis using True 2(2) by simp
  qed (use 2(2) in simp)
  then obtain w3 where 3: "(if ts_has_first s then (let (_, p, w) = fs_pread_all P (ts_first_fd s) (shift old (8 + 2 * ?v)) ?v ?off w2 in (bytes_at p 0 ?v, w)) else ([], w2)) =
      (if ts_has_first s then bytes_at fv ?off ?v else [], w3)" "fs w3 = fs w" by blast
  have "snap_entry P s k old w = (surv_entry (snap_surv s v pv fv k), w3)"
    unfolding snap_entry_def Let_def 1(1) prod.case
    by (subst 2(1) [unfolded Let_def], unfold prod.case, subst 3(1) [unfolded Let_def])
      (simp add: surv_entry_def snap_surv_def Let_def val_at_def 2(3))
  then show thesis using that 3(2) by blast
qed

lemma list_record_ok:
  assumes v: "snap_view (fs w) s v pv fv" "k < ts_slot_count s" "ts_value_length s dvd ts_snap_bytes s"
  obtains w' where "list_record P s k w = (Some (le_bytes 8 (fs_slot_addr s k) @ val_at v (ts_value_length s) k @
      (if ts_has_prev s then val_at pv (ts_value_length s) k else []) @ (if ts_has_first s then val_at fv (ts_value_length s) k else [])), w')" "fs w' = fs w"
proof -
  let ?v = "ts_value_length s" and ?off = "k * ts_value_length s" and ?rb = "ts_snap_bytes s"
  note le = slot_in [OF v(2)]
  have st: "has_store (fs w) (ptr_of (ts_snap_ram s)) ?rb (ts_snap_fd s) (snap_size s) v" using v(1) by (simp add: snap_view_def)
  have "\<exists>w1. (if ?off \<ge> ?rb then read_value P (ts_snap_fd s) ?v (?off - ?rb) w else (Some (bytes_at (ptr_of (ts_snap_ram s)) ?off ?v), w)) =
      (Some (val_at v ?v k), w1) \<and> fs w1 = fs w"
  proof (cases "?off \<ge> ?rb \<and> 0 < ?v")
    case True
    then have "?rb < snap_size s" using le by simp
    then obtain q l where x: "fs w (ts_snap_fd s) = Some (q, l)" "snap_size s - ?rb \<le> l" "\<forall>i < snap_size s - ?rb. v (?rb + i) = q i"
      using st by (fastforce simp: has_store_def)
    obtain w1 where "read_value P (ts_snap_fd s) ?v (?off - ?rb) w = (Some (bytes_at q (?off - ?rb) ?v), w1)" "fs w1 = fs w"
      by (rule read_value_ok [OF x(1), of "?off - ?rb" ?v]) (use x(2) le True in simp, rule that)
    moreover have "bytes_at q (?off - ?rb) ?v = val_at v ?v k"
      unfolding val_at_def bytes_at_eq_iff
    proof (intro allI impI)
      fix i assume "i < ?v"
      then have "?off - ?rb + i < snap_size s - ?rb" using le True by simp
      then show "q (?off - ?rb + i) = v (?off + i)" using x(3) True by (metis add.assoc le_add_diff_inverse)
    qed
    ultimately show ?thesis using True by simp
  next
    case zero: False
    show ?thesis
    proof (cases "?v = 0")
      case False
      with zero have "?off < ?rb" by simp
      then have "k < ?rb div ?v" using v(3) False by (metis dvd_div_mult_self mult_less_cancel2)
      then have "?off + ?v \<le> ?rb" using mult_le_mono1 [of "Suc k" "?rb div ?v" ?v] v(3) by simp
      then have "bytes_at (ptr_of (ts_snap_ram s)) ?off ?v = val_at v ?v k"
        using st le by (auto simp: val_at_def bytes_at_eq_iff has_store_def)
      then show ?thesis using \<open>?off < ?rb\<close> by simp
    qed (simp add: read_value_def fs_pread_all_def pread_loop.simps val_at_def)
  qed
  then obtain w1 where 1: "(if ?off \<ge> ?rb then read_value P (ts_snap_fd s) ?v (?off - ?rb) w else (Some (bytes_at (ptr_of (ts_snap_ram s)) ?off ?v), w)) =
      (Some (val_at v ?v k), w1)" "fs w1 = fs w" by blast
  have kept: "ts_has_prev s \<Longrightarrow> \<exists>l\<ge>?off + ?v. fs w1 (ts_prev_fd s) = Some (pv, l)" "ts_has_first s \<Longrightarrow> \<exists>l\<ge>?off + ?v. fs w1 (ts_first_fd s) = Some (fv, l)"
    using v(1) 1(2) le order_trans unfolding snap_view_def by metis+
  obtain w2 where 2: "(if ts_has_prev s then read_value P (ts_prev_fd s) ?v ?off w1 else (Some [], w1)) = (Some (if ts_has_prev s then bytes_at pv ?off ?v else []), w2)" "fs w2 = fs w1"
    by (rule opt_read_value [OF kept(1)]) (assumption, rule that)
  obtain w3 where 3: "(if ts_has_first s then read_value P (ts_first_fd s) ?v ?off w2 else (Some [], w2)) = (Some (if ts_has_first s then bytes_at fv ?off ?v else []), w3)" "fs w3 = fs w2"
    by (rule opt_read_value [OF kept(2) [folded 2(2)]]) (assumption, rule that)
  have w3: "fs w3 = fs w" using 1(2) 2(2) 3(2) by simp
  show thesis
    by (rule that [OF _ w3]) (simp only: list_record_def Let_def 1(1) 2(1) 3(1) prod.case option.case option.map val_at_def)
qed

end

section \<open>A stretch of the table on the wire\<close>

lemma entries_io:
  assumes "quiet c"
  shows "\<exists>c'. flush_entries (fold (add_entry cap) es (pend, c)) = c' \<and> io c [] (pend @ concat es) c'"
  using assms
proof (induction es arbitrary: pend c)
  case Nil
  then show ?case by (auto simp: flush_entries_def intro: io_send_all)
next
  case (Cons e es)
  show ?case
  proof (cases "cap < length pend + length e")
    case True
    have io: "io c [] pend (send_all pend c)" using Cons.prems by (rule io_send_all)
    then have "quiet (send_all pend c)" using io_fields(1) Cons.prems by blast
    from Cons.IH [OF this, of e] show ?thesis using True io_trans [OF io] by (fastforce simp: add_entry_def)
  next
    case False
    then show ?thesis using Cons.IH [OF Cons.prems, of "pend @ e"] by (simp add: add_entry_def)
  qed
qed

context reliable_storage
begin

lemma snap_get_loop_ok:
  assumes "snap_view (fs w) s v pv fv" "bm = ptr_of (ts_bitmap s)" "n = ts_slot_count s" "i = fs_next_set bm lo n"
  shows "\<exists>w'. snap_get_loop P s start actual cap i seen emitted out_buf w st =
      (w', fold (add_entry cap) (map (surv_entry \<circ> snap_surv s v pv fv) (take (actual - emitted) (drop (start - seen) (slots_from bm lo n)))) st) \<and> fs w' = fs w"
  using assms(1,4)
proof (induction "n - i" arbitrary: i lo seen emitted out_buf w st rule: less_induct)
  case less
  show ?case
  proof (cases "i < n \<and> emitted < actual")
    case False
    then have "slots_from bm lo n = [] \<or> actual - emitted = 0" using less.prems(2) fs_next_set_slots [of bm lo n] by (auto simp: Let_def)
    then show ?thesis using False by (subst snap_get_loop.simps) (auto simp: assms(2,3))
  next
    case True
    then have sl: "slots_from bm lo n = i # slots_from bm (Suc i) n" using less.prems(2) fs_next_set_slots [of bm lo n] by (simp add: Let_def)
    define j where "j = fs_next_set bm (Suc i) n"
    have lt: "n - j < n - i" using True by (auto simp: j_def fs_next_set_later intro!: diff_less_mono2)
    show ?thesis
    proof (cases "seen < start")
      case skip: True
      have "snap_get_loop P s start actual cap i seen emitted out_buf w st = snap_get_loop P s start actual cap j (seen + 1) emitted out_buf w st"
        using True skip by (subst snap_get_loop.simps) (simp add: Let_def j_def assms(2,3))
      then show ?thesis using less.hyps [OF lt less.prems(1) j_def, of "seen + 1" emitted out_buf st] skip
        by (simp add: sl drop_Cons' Suc_diff_Suc)
    next
      case here: False
      define at where "at = (if length (fst st) + (8 + ts_value_length s * (if ts_has_first s then 3 else 2)) > cap then 0 else length (fst st))"
      let ?e = "surv_entry (snap_surv s v pv fv i)"
      obtain w1 where 1: "snap_entry P s i (shift out_buf at) w = (?e, w1)" "fs w1 = fs w"
        by (rule snap_entry_ok [OF less.prems(1), of i "shift out_buf at"]) (use True assms(3) in simp, rule that)
      have "snap_get_loop P s start actual cap i seen emitted out_buf w st =
          snap_get_loop P s start actual cap j (seen + 1) (emitted + 1) (blit out_buf at ?e) w1 (add_entry cap ?e st)"
        using True here 1(1) by (subst snap_get_loop.simps) (simp add: Let_def j_def assms(2,3) at_def [symmetric])
      moreover have "take (actual - emitted) (drop (start - seen) (slots_from bm lo n)) =
          i # take (actual - (emitted + 1)) (drop (start - (seen + 1)) (slots_from bm (Suc i) n))"
        using True here by (simp add: sl take_Cons' Suc_diff_Suc)
      ultimately show ?thesis
        using less.hyps [OF lt _ j_def, of w1 "seen + 1" "emitted + 1" "blit out_buf at ?e" "add_entry cap ?e st"] less.prems(1) 1(2) by simp
    qed
  qed
qed

end

definition table_part :: "survivor list \<Rightarrow> u32 \<Rightarrow> u32 \<Rightarrow> survivor list" where
  "table_part vs start cnt = take (unat cnt) (drop (unat start) vs)"

definition part_bytes :: "bool \<Rightarrow> survivor list \<Rightarrow> byte list" where
  \<comment> \<open>the reply: how many survivors follow, whether they have a first value, and the survivors\<close>
  "part_bytes has_first part = le_bytes 4 ((of_nat (length part) :: u32) OR (if has_first then 0x80000000 else 0)) @ concat (map surv_entry part)"

lemma list_entry_surv: "list_entry s i = surv_entry (rec_surv s (shift (ptr_of (ts_buf s)) (i * ts_rec_size s)))"
proof -
  let ?p = "shift (ptr_of (ts_buf s)) (i * ts_rec_size s)"
  have "bytes_at ?p 0 8 = le_bytes 8 (ld64 ?p)" by (simp add: le_bytes_le_load)
  then show ?thesis by (simp add: list_entry_def surv_entry_def rec_surv_def Let_def)
qed

lemma get_list_ok:
  assumes "quiet c" "part = table_part (list_survivors s) start cnt"
  shows "io c [] (status CMD_SUCCESS @ part_bytes (ts_has_first s) part) (get_list s start cnt c)"
proof -
  let ?n = "ts_count s" define lo where "lo = min (unat start) ?n" define hi where "hi = min (lo + unat cnt) ?n"
  have part: "map surv_entry part = map (list_entry s) [lo..<hi]"
  proof -
    have "take (unat cnt) [unat start..<?n] = [lo..<hi]"
      by (rule nth_equalityI) (auto simp: lo_def hi_def min_def)
    then show ?thesis
      by (simp add: assms(2) table_part_def list_survivors_def recs_survs_def list_entry_surv take_map drop_map comp_def)
  qed
  then have len: "length part = hi - lo" by (metis length_map length_upt)
  let ?d = "send_all (le_bytes 4 ((of_nat (hi - lo) :: u32) OR (if ts_has_first s then 0x80000000 else 0))) (send_int32 CMD_SUCCESS c)"
  have io: "io c [] (status CMD_SUCCESS @ le_bytes 4 ((of_nat (hi - lo) :: u32) OR (if ts_has_first s then 0x80000000 else 0))) ?d"
    using io_trans [OF io_send_int32 [OF assms(1)] io_send_all] assms(1) by simp
  then have q: "quiet ?d" using io_fields(1) assms(1) by blast
  have "get_list s start cnt c = flush_entries (fold (add_entry 0x40000) (map surv_entry part) ([], ?d))"
  proof -
    have *: "(if unat start > ?n then ?n else unat start) = lo" "(if lo + unat cnt > ?n then ?n else lo + unat cnt) = hi" by (auto simp: lo_def hi_def)
    show ?thesis unfolding part get_list_def Let_def fold_map * by (simp add: comp_def)
  qed
  then show ?thesis using entries_io [OF q, of "0x40000" "map surv_entry part" "[]"] io_trans [OF io] by (auto simp: part_bytes_def len)
qed

context reliable_storage
begin

lemma snapshot_get_ok:
  assumes "session_table (fs w) s vs" "ts_mode s = TS_MODE_SNAPSHOT" "quiet c" "part = table_part vs start cnt"
    and "fs_snapshot_get P s start cnt out_buf cap (w, c) = (w', c')"
  shows "fs w' = fs w" "io c [] (part_bytes (ts_has_first s) part) c'"
proof -
  obtain v pv fv where v: "snap_view (fs w) s v pv fv" "vs = snap_survs s v pv fv" "ts_survivors s = length vs"
    using assms(1,2) by (auto simp: session_table_def)
  define actual where "actual = (if unat start < ts_survivors s then min (unat cnt) (ts_survivors s - unat start) else 0)"
  have len: "length part = actual" by (auto simp: assms(4) table_part_def actual_def v(3))
  let ?h = "le_bytes 4 ((of_nat actual :: u32) OR (if ts_has_first s then 0x80000000 else 0))" let ?d = "send_all ?h c"
  have io: "io c [] ?h ?d" using assms(3) by (rule io_send_all)
  then have q: "quiet ?d" using io_fields(1) assms(3) by blast
  have "fs w' = fs w \<and> io ?d [] (concat (map surv_entry part)) c'"
  proof (cases "actual = 0")
    case True
    then show ?thesis using assms(5) len by (auto simp: fs_snapshot_get_def Let_def actual_def [symmetric])
  next
    case False
    then have "0 < ts_slot_count s" using v by (cases "ts_slot_count s") (auto simp: actual_def snap_survs_def slots_from_def split: if_splits)
    then have bm: "ts_bitmap s \<noteq> None" using v(1) by (auto simp: snap_view_def)
    let ?ks = "slots_from (ptr_of (ts_bitmap s)) 0 (ts_slot_count s)"
    obtain w1 where 1: "snap_get_loop P s (unat start) actual cap (fs_next_set (ptr_of (ts_bitmap s)) 0 (ts_slot_count s)) 0 0 out_buf w ([], ?d) =
        (w1, fold (add_entry cap) (map (surv_entry \<circ> snap_surv s v pv fv) (take actual (drop (unat start) ?ks))) ([], ?d))" "fs w1 = fs w"
      using snap_get_loop_ok [OF v(1) refl refl refl, of "unat start" actual cap 0 0 0 out_buf "([], ?d)"] by auto
    have "part = take (length part) (drop (unat start) vs)" by (simp add: assms(4) table_part_def min_def)
    then have "part = take actual (drop (unat start) vs)" by (simp add: len)
    then have "map surv_entry part = map (surv_entry \<circ> snap_surv s v pv fv) (take actual (drop (unat start) ?ks))"
      by (simp add: v(2) snap_survs_def take_map drop_map)
    then have "w' = w1" "c' = flush_entries (fold (add_entry cap) (map surv_entry part) ([], ?d))"
      using assms(5) False bm 1(1) by (simp_all add: fs_snapshot_get_def Let_def actual_def [symmetric])
    then show ?thesis using entries_io [OF q, of cap "map surv_entry part" "[]"] 1(2) by simp
  qed
  then show "fs w' = fs w" "io c [] (part_bytes (ts_has_first s) part) c'" using io_trans [OF io] by (auto simp: part_bytes_def len)
qed

lemma get_handle_ok:
  assumes "quiet c" "auth_granted c" "data packet = Some dp" "unat idx < TS_MAX_CLIENTS" "s = sess_at idx t" "ts_in_use s"
    and "session_table (fs (os t)) s vs" "ts_mode s \<noteq> TS_MODE_NONE" "part = table_part vs (tg_start_index (turboscan_get_packet dp)) (tg_count (turboscan_get_packet dp))"
  shows "\<exists>w c'. proc_turboscan_get_handle P packet idx (t, c) = (0, t\<lparr>os := w\<rparr>, c') \<and> fs w = fs (os t)
    \<and> io c [] (status CMD_SUCCESS @ part_bytes (ts_has_first s) part @ status CMD_SUCCESS) c'"
proof -
  obtain out_buf d where 1: "net_alloc_buffer 0x40000 c = (Some out_buf, d)" "io c [] [] d" by (rule io_alloc [OF assms(1), of "0x40000"]) (simp, rule that)
  have qd: "quiet d" using io_fields(1) [OF 1(2)] assms(1) by simp
  have no: "\<not> (ts_mode s = TS_MODE_LIST \<and> ts_buf s = None)" using assms(7) by (auto simp: session_table_def wf_list_def)
  let ?gp = "turboscan_get_packet dp"
  show ?thesis
  proof (cases "ts_mode s = TS_MODE_SNAPSHOT")
    case True
    obtain w e where 2: "fs_snapshot_get P s (tg_start_index ?gp) (tg_count ?gp) out_buf 0x40000 (os t, send_int32 CMD_SUCCESS d) = (w, e)" by fastforce
    have q2: "quiet (send_int32 CMD_SUCCESS d)" using qd by simp
    note g = snapshot_get_ok [OF assms(7) True q2 assms(9) 2]
    have "io c [] (status CMD_SUCCESS @ part_bytes (ts_has_first s) part @ status CMD_SUCCESS) (send_int32 CMD_SUCCESS e)"
      using io_trans [OF 1(2) io_trans [OF io_send_int32 [OF qd] io_trans [OF g(2) io_send_int32]]] io_fields(1) [OF g(2)] q2 by simp
    moreover have "proc_turboscan_get_handle P packet idx (t, c) = (0, t\<lparr>os := w\<rparr>, send_int32 CMD_SUCCESS e)"
      using assms(2-6) True 1(1) 2 by (simp add: proc_turboscan_get_handle_def)
    ultimately show ?thesis using g(1) by blast
  next
    case False
    then have m: "ts_mode s = TS_MODE_LIST" using assms(8) by (cases "ts_mode s") auto
    then have vs: "vs = list_survivors s" using assms(7) by (simp add: session_table_def)
    have g: "io d [] (status CMD_SUCCESS @ part_bytes (ts_has_first s) part) (get_list s (tg_start_index ?gp) (tg_count ?gp) d)"
      using get_list_ok [OF qd] assms(9) vs by blast
    have "io c [] (status CMD_SUCCESS @ part_bytes (ts_has_first s) part @ status CMD_SUCCESS) (send_int32 CMD_SUCCESS (get_list s (tg_start_index ?gp) (tg_count ?gp) d))"
      using io_trans [OF 1(2) io_trans [OF g io_send_int32]] io_fields(1) [OF g] qd by simp
    moreover have "proc_turboscan_get_handle P packet idx (t, c) = (0, t\<lparr>os := os t\<rparr>, send_int32 CMD_SUCCESS (get_list s (tg_start_index ?gp) (tg_count ?gp) d))"
      using assms(2-6) m no 1(1) by (auto simp: proc_turboscan_get_handle_def Let_def)
    ultimately show ?thesis by blast
  qed
qed

end

text \<open>
  C9: fetching survivors. For a session with a table, list or snapshot, an authorised client receives
  the number of survivors in the range it asks for, cut at the end of the table, and then for each of
  them, in the order of the table, its address, its current value, the value before and where it is
  kept the first one. The files are not changed.
\<close>

theorem turboscan_get_sends_table:
  assumes "reliable_storage P fs" "quiet c" "auth_granted c" "data packet = Some dp" "unat idx < TS_MAX_CLIENTS" "s = sess_at idx t" "ts_in_use s"
    and "session_table (fs (os t)) s vs" "ts_mode s \<noteq> TS_MODE_NONE"
    and "part = take (unat (tg_count (turboscan_get_packet dp))) (drop (unat (tg_start_index (turboscan_get_packet dp))) vs)"
  shows "\<exists>w c'. proc_turboscan_get_handle P packet idx (t, c) = (0, t\<lparr>os := w\<rparr>, c') \<and> fs w = fs (os t)
    \<and> io c [] (status CMD_SUCCESS @ le_bytes 4 ((of_nat (length part) :: u32) OR (if ts_has_first s then 0x80000000 else 0)) @
        concat (map surv_entry part) @ status CMD_SUCCESS) c'"
  using reliable_storage.get_handle_ok [OF assms(1-9) refl] unfolding table_part_def part_bytes_def assms(10) [symmetric] by simp

section \<open>An example\<close>

text \<open>Three slots of two bytes from \<open>0x1000\<close>, of which two are left; the last one is in a file.\<close>

definition example_snap :: turboscan_session where
  "example_snap = cleared_session\<lparr>ts_in_use := True, ts_mode := TS_MODE_SNAPSHOT, ts_bitmap := Some (of_list [5]), ts_slot_count := 3, ts_survivors := 2,
     ts_stride := 2, ts_snap_ram := Some (of_list [1, 0, 2, 0]), ts_snap_fd := 3, ts_snap_bytes := 4, ts_prev_fd := 4, ts_has_prev := True,
     ts_seg := [\<lparr>sg_addr = 0x1000, sg_slot_start = 0, sg_nslots = 3\<rparr>], ts_value_length := 2, ts_pid := 1, ts_valueType := 2\<rparr>"

definition example_disk :: disk where
  "example_disk = \<lparr>dk_files = [3 \<mapsto> (of_list [7, 8], 2), 4 \<mapsto> (of_list [0, 0, 0, 0, 6, 8], 6)], dk_next = 5\<rparr>"

definition example_session :: "(disk, u32) turbo" where
  "example_session = set_sess 0 example_snap (example_turbo\<lparr>os := example_disk\<rparr>)"

definition example_table :: "survivor list" where
  "example_table = [\<lparr>sv_addr = 0x1000, sv_cur = [1, 0], sv_prev = [0, 0], sv_first = []\<rparr>,
     \<lparr>sv_addr = 0x1004, sv_cur = [7, 8], sv_prev = [6, 8], sv_first = []\<rparr>]"

lemma example_session_sel:
  "sess_at 0 example_session = example_snap" "os example_session = example_disk" "turbo_shape (=) example_session"
  by (simp_all add: example_session_def sess_at_def set_sess_def example_turbo_def turbo_shape_def TS_MAX_CLIENTS_def)

lemma example_slot_addr: "fs_slot_addr example_snap k = 0x1000 + of_nat k * 2"
  by (simp add: fs_slot_addr_def example_snap_def seg_search.simps)

lemma example_session_table: "session_table (dk_files example_disk) example_snap example_table"
proof (rule session_table_snapI [of _ _ "of_list [1, 0, 2, 0, 7, 8]" "of_list [0, 0, 0, 0, 6, 8]" "\<lambda>_. 0"])
  show "snap_view (dk_files example_disk) example_snap (of_list [1, 0, 2, 0, 7, 8]) (of_list [0, 0, 0, 0, 6, 8]) (\<lambda>_. 0)"
    by (auto simp: snap_view_def has_store_def example_snap_def example_disk_def snap_size_def ptr_of_def of_list_def less_2_cases_iff nth_Cons' cleared_session_def)
  have "slots_from (of_list [5]) 0 3 = [0, 2]"
  proof -
    have "slot_set (of_list [5]) 0" "\<not> slot_set (of_list [5]) 1" "slot_set (of_list [5]) 2"
      by (simp_all add: slot_set_def of_list_def bit_iff_odd)
    then show ?thesis by (simp add: slots_from_def upt_rec numeral_2_eq_2)
  qed
  then have ks: "slots_from (ptr_of (ts_bitmap example_snap)) 0 (ts_slot_count example_snap) = [0, 2]" by (simp add: example_snap_def ptr_of_def)
  have f: "ts_value_length example_snap = 2" "ts_has_prev example_snap" "\<not> ts_has_first example_snap" by (simp_all add: example_snap_def cleared_session_def)
  have b: "bytes_at p k 2 = [p k, p (Suc k)]" for p k by (simp add: bytes_at_def upt_rec numeral_2_eq_2)
  show "example_table = snap_survs example_snap (of_list [1, 0, 2, 0, 7, 8]) (of_list [0, 0, 0, 0, 6, 8]) (\<lambda>_. 0)"
    unfolding snap_survs_def ks snap_surv_def f Let_def example_table_def by (simp add: example_slot_addr f val_at_def b of_list_def)
qed (simp_all add: example_snap_def example_table_def)

definition example_turbo_get_packet :: cmd_packet where
  "example_turbo_get_packet = \<lparr>magic = 0xFFAABBCC, cmd = 0xBDAACC06, datalen = 8, data = Some (of_list [1, 0, 0, 0, 9, 0, 0, 0])\<rparr>"

theorem turboscan_get_sends_table_witness:
  "\<exists>w c'. proc_turboscan_get_handle (disk_ops example_scan_mem) example_turbo_get_packet 0 (example_session, example_client) = (0, example_session\<lparr>os := w\<rparr>, c')
     \<and> dk_files w = dk_files example_disk
     \<and> tx c' = status CMD_SUCCESS @ [1, 0, 0, 0] @ [4, 0x10, 0, 0, 0, 0, 0, 0, 7, 8, 6, 8] @ status CMD_SUCCESS"
proof -
  have s: "example_snap = sess_at 0 example_session" "session_table (dk_files (os example_session)) example_snap example_table"
    by (simp_all add: example_session_sel example_session_table)
  have m: "ts_in_use example_snap" "ts_mode example_snap \<noteq> TS_MODE_NONE" "unat (0 :: byte) < TS_MAX_CLIENTS"
    by (simp_all add: example_snap_def TS_MAX_CLIENTS_def)
  have d: "data example_turbo_get_packet = Some (of_list [1, 0, 0, 0, 9, 0, 0, 0])" by (simp add: example_turbo_get_packet_def)
  let ?gp = "turboscan_get_packet (of_list [1, 0, 0, 0, 9, 0, 0, 0])"
  have g: "tg_start_index ?gp = 1" "tg_count ?gp = 9" by (simp_all add: turboscan_get_packet_def of_list_def shift_def le_simps)
  have part: "[example_table ! 1] = take (unat (tg_count ?gp)) (drop (unat (tg_start_index ?gp)) example_table)"
    by (simp add: g example_table_def)
  have bytes: "le_bytes 4 ((of_nat (length [example_table ! 1]) :: u32) OR (if ts_has_first example_snap then 0x80000000 else 0)) = [1, 0, 0, 0]"
      "concat (map surv_entry [example_table ! 1]) = [4, 0x10, 0, 0, 0, 0, 0, 0, 7, 8, 6, 8]"
    by (simp_all add: example_snap_def cleared_session_def example_table_def surv_entry_def le_bytes_def upt_rec)
  obtain w c' where "proc_turboscan_get_handle (disk_ops example_scan_mem) example_turbo_get_packet 0 (example_session, example_client) = (0, example_session\<lparr>os := w\<rparr>, c')"
      "dk_files w = dk_files (os example_session)" "io example_client [] (status CMD_SUCCESS @ [1, 0, 0, 0] @ [4, 0x10, 0, 0, 0, 0, 0, 0, 7, 8, 6, 8] @ status CMD_SUCCESS) c'"
    using turboscan_get_sends_table [OF disk.reliable_storage_axioms [of example_scan_mem] example_turbo_ready(1,2) d m(3) s(1) m(1) s(2) m(2) part]
    unfolding bytes by blast
  then show ?thesis using io_fields(3) [of example_client] example_turbo_ready(6) by (auto simp: example_session_sel)
qed

section \<open>From a snapshot to a list\<close>

context reliable_storage
begin

lemma materialize_loop_ok:
  assumes v: "snap_view (fs w) s v pv fv" "ts_value_length s dvd ts_snap_bytes s" "bm = ptr_of (ts_bitmap s)" "n = ts_slot_count s"
    and l: "ts_rec_size l = list_rec_size s" "ts_value_length l = ts_value_length s" "ts_has_prev l = ts_has_prev s" "ts_has_first l = ts_has_first s"
    and "i = fs_next_set bm lo n" "records = k + length (slots_from bm lo n)"
  shows "\<exists>recs' w'. materialize_loop P s records i k recs w = (Some (records, recs'), w') \<and> fs w' = fs w
    \<and> recs_survs l recs' records = recs_survs l recs k @ map (snap_surv s v pv fv) (slots_from bm lo n)"
  using v(1) assms(9,10)
proof (induction "n - i" arbitrary: i lo k recs w rule: less_induct)
  case less
  have ll: "ts_rec_size l = list_rec_size l" using l by (simp add: list_rec_size_def)
  show ?case
  proof (cases "i < n")
    case False
    then have "slots_from bm lo n = []" using less.prems(2) fs_next_set_slots [of bm lo n] by (auto simp: Let_def)
    then show ?thesis using False less.prems(3) by (subst materialize_loop.simps) (auto simp: v(4))
  next
    case True
    then have sl: "slots_from bm lo n = i # slots_from bm (Suc i) n" using less.prems(2) fs_next_set_slots [of bm lo n] by (simp add: Let_def)
    define j where "j = fs_next_set bm (Suc i) n"
    have lt: "n - j < n - i" using True by (auto simp: j_def fs_next_set_later intro!: diff_less_mono2)
    let ?v = "ts_value_length s"
    define e where "e = le_bytes 8 (fs_slot_addr s i) @ val_at v ?v i @ (if ts_has_prev s then val_at pv ?v i else []) @ (if ts_has_first s then val_at fv ?v i else [])"
    obtain w1 where 1: "list_record P s i w = (Some e, w1)" "fs w1 = fs w"
      by (rule list_record_ok [OF less.prems(1) _ v(2), of i]) (use True v(4) in simp, rule that, unfold e_def, assumption, assumption)
    let ?recs = "blit recs (k * list_rec_size s) e"
    have len: "length (val_at q m x) = m" for q m x by (simp add: val_at_def)
    have rec: "rec_surv l (shift ?recs (k * list_rec_size s)) = snap_surv s v pv fv i"
      using rec_surv_blit [of "val_at v ?v i" l "val_at pv ?v i" "val_at fv ?v i" recs "k * list_rec_size s" "fs_slot_addr s i"]
      by (cases "ts_has_prev s") (simp_all add: len l e_def snap_surv_def Let_def split del: if_split)
    have "recs_survs l ?recs k = recs_survs l recs k" using ll l(1) by (intro recs_survs_cong) (auto simp: blit_def)
    then have step: "recs_survs l ?recs (Suc k) = recs_survs l recs k @ [snap_surv s v pv fv i]" using rec by (simp add: recs_survs_Suc l(1))
    have "k < records" using less.prems(3) sl by simp
    then have eq: "materialize_loop P s records i k recs w = materialize_loop P s records j (Suc k) ?recs w1"
      using True 1(1) by (subst materialize_loop.simps) (simp add: j_def v(3,4))
    have "snap_view (fs w1) s v pv fv" "records = Suc k + length (slots_from bm (Suc i) n)" using less.prems(1,3) 1(2) sl by simp_all
    from less.hyps [OF lt this(1) j_def this(2), of ?recs] show ?thesis unfolding eq using step sl 1(2) by auto
  qed
qed

end

text \<open>What a session keeps of another one.\<close>

definition same_scan :: "turboscan_session \<Rightarrow> turboscan_session \<Rightarrow> bool" where
  "same_scan s s' \<longleftrightarrow> ts_in_use s' = ts_in_use s \<and> ts_pid s' = ts_pid s \<and> ts_valueType s' = ts_valueType s \<and> ts_value_length s' = ts_value_length s \<and>
     ts_has_prev s' = ts_has_prev s \<and> ts_has_first s' = ts_has_first s \<and> (ts_mode s' = TS_MODE_NONE) = (ts_mode s = TS_MODE_NONE)"

context turbo_system
begin

lemma materialize_ok:
  assumes "session_table (fs w) s vs" "ts_mode s = TS_MODE_SNAPSHOT" "ts_in_use s" "fs_snapshot_materialize P dir idx s w = (s', w')"
  shows "session_table (fs w') s' vs" "same_scan s s'"
proof -
  obtain v pv fv where v: "snap_view (fs w) s v pv fv" "vs = snap_survs s v pv fv" "ts_survivors s = length vs" "ts_value_length s dvd ts_snap_bytes s"
    using assms(1,2) by (auto simp: session_table_def)
  let ?bytes = "length vs * list_rec_size s" let ?ks = "slots_from (ptr_of (ts_bitmap s)) 0 (ts_slot_count s)"
  have "session_table (fs w') s' vs \<and> same_scan s s'"
  proof (cases "length vs = 0 \<or> ?bytes > TS_RESIDENT_CAP")
    case True
    then show ?thesis using assms by (auto simp: fs_snapshot_materialize_def Let_def v(3) same_scan_def)
  next
    case False
    obtain q w1 where 1: "o_mmap P ?bytes w = (q, w1)" by fastforce
    note fs1 = mmap_fs [OF 1]
    show ?thesis
    proof (cases q)
      case None
      then show ?thesis using assms False 1 fs1 by (auto simp: fs_snapshot_materialize_def Let_def v(3) same_scan_def)
    next
      case (Some buf)
      let ?l = "\<lambda>recs. cleared_session\<lparr>ts_in_use := True, ts_mode := TS_MODE_LIST, ts_buf := Some recs, ts_buf_cap := ?bytes, ts_count := length vs,
                   ts_rec_size := list_rec_size s, ts_value_length := ts_value_length s, ts_pid := ts_pid s, ts_valueType := ts_valueType s,
                   ts_has_first := ts_has_first s, ts_first_fd := -1, ts_has_prev := ts_has_prev s, ts_prev_fd := -1\<rparr>"
      have "snap_view (fs w1) s v pv fv" "length vs = 0 + length ?ks" using v(1,2) fs1 by (simp_all add: snap_survs_def)
      from materialize_loop_ok [OF this(1) v(4) refl refl, of "?l buf", OF _ _ _ _ refl this(2), of buf]
      obtain recs w2 where 2: "materialize_loop P s (length vs) (fs_next_set (ptr_of (ts_bitmap s)) 0 (ts_slot_count s)) 0 buf w1 = (Some (length vs, recs), w2)"
          "recs_survs (?l buf) recs (length vs) = vs"
        by (auto simp: recs_survs_def v(2) snap_survs_def)
      have s': "s' = ?l recs" using assms(4) False 1 Some 2(1) by (auto simp: fs_snapshot_materialize_def Let_def v(3))
      have "recs_survs (?l recs) = recs_survs (?l buf)" by (simp add: fun_eq_iff recs_survs_def rec_surv_def Let_def)
      then have "list_survivors (?l recs) = vs" using 2(2) by (simp add: list_survivors_def ptr_of_def)
      moreover have "wf_list (?l recs)" by (simp add: wf_list_def list_rec_size_def)
      ultimately have "session_table (fs w') s' vs" by (simp add: s' session_table_def)
      moreover have "same_scan s s'" using assms(2,3) by (simp add: s' same_scan_def)
      ultimately show ?thesis by blast
    qed
  qed
  then show "session_table (fs w') s' vs" "same_scan s s'" by blast+
qed

end

end
