(* ===== verification/TurboCount.thy ===== *)
theory TurboCount
  imports TurboGet
begin

text \<open>
  The rescan command of the turbo scanner on a session: its table is filtered by the comparison the
  plain scanner makes.
\<close>

section \<open>The comparison\<close>

definition plain_count :: "cmd_proc_turboscan_count_packet \<Rightarrow> cmd_proc_scan_count_packet" where
  \<comment> \<open>the same request to the plain scanner\<close>
  "plain_count cp = \<lparr>cn_pid = tc_pid cp, cn_base_address = tc_base_address cp, cn_valueType = tc_valueType cp,
     cn_compareType = tc_compareType cp, cn_lenData = tc_lenData cp\<rparr>"

lemma plain_count_sel [simp]:
  "cn_pid (plain_count cp) = tc_pid cp" "cn_base_address (plain_count cp) = tc_base_address cp" "cn_valueType (plain_count cp) = tc_valueType cp"
  "cn_compareType (plain_count cp) = tc_compareType cp" "cn_lenData (plain_count cp) = tc_lenData cp"
  by (simp_all add: plain_count_def)

lemma turbo_count_request_conv: "turbo_count_request cp vl p m = client_count (plain_count cp) vl p m"
  by (simp add: turbo_count_request_def client_count_def)

definition value_hit :: "count_request \<Rightarrow> byte list \<Rightarrow> byte list \<Rightarrow> bool" where
  \<comment> \<open>the plain scanner's verdict on the value found and the value before\<close>
  "value_hit r val old = proc_scan_compareValues (cq_cmp r) (cq_val r) (cq_vlen r) (ptr_of (cq_pattern r)) (of_list val)
     (if cq_prev r then Some (of_list old) else cq_between r) (cq_mask r)"

lemma turbo_needs_prev: "scan_point_turbo_supported ct vt \<Longrightarrow> ct \<noteq> 0 \<Longrightarrow> g_cmptype_needs_previous ! unat ct \<noteq> 0"
  by (auto simp: scan_point_turbo_supported_def g_cmptype_needs_previous_def split: if_splits)

lemma cq_hit_value:
  assumes "wf_count_client cp vl" "r = client_count cp vl p m" "turbo \<longrightarrow> scan_point_turbo_supported (cq_cmp r) (cq_val r)"
  shows "cq_hit turbo r val old = value_hit r val old" "wf_rescan turbo r"
proof -
  have "cn_valueType cp \<le> 9 \<Longrightarrow> proc_scan_getSizeOfValueType (cn_valueType cp) \<noteq> 0" using size_bounds [of "cn_valueType cp"] by auto
  then show wf: "wf_rescan turbo r" using assms by (auto simp: wf_rescan_def wf_count_client_def client_count_def)
  show "cq_hit turbo r val old = value_hit r val old"
  proof (cases turbo)
    case True
    let ?prev = "if cq_prev r then Some (of_list old) else cq_between r"
    have sup: "scan_point_turbo_supported (cq_cmp r) (cq_val r)" using True assms(3) by simp
    have "proc_scan_getSizeOfValueType (cq_val r) = cq_vlen r"
      using wf sup by (auto simp: wf_rescan_def scan_point_turbo_supported_def split: if_splits)
    then have "cq_hit turbo r val old = proc_scan_compareValues (cq_cmp r) (cq_val r) (cq_vlen r) (ptr_of (cq_pattern r)) (of_list val) (Some (ptr_of ?prev)) (cq_mask r)"
      using True scan_point_compare_agrees [OF sup, where msk = "cq_mask r"] by (simp add: cq_hit_def ts_matched_def)
    also have "\<dots> = value_hit r val old"
    proof (cases "cq_prev r")
      case False
      then have "cq_cmp r = 0" using turbo_needs_prev [OF sup] assms(2) by (auto simp: client_count_def)
      moreover have "cq_val r \<noteq> 10" using sup by (auto simp: scan_point_turbo_supported_def split: if_splits)
      ultimately show ?thesis using False by (simp add: value_hit_def proc_scan_compareValues_def)
    qed (simp add: value_hit_def ptr_of_def)
    finally show ?thesis .
  qed (simp add: cq_hit_def value_hit_def ts_matched_def)
qed

text \<open>What the client sends and what the buffers held before.\<close>

lemma value_hit_received:
  assumes wf: "wf_count_client cp vl" and p: "(p = None) = (\<not> count_wants cp)" "(m = None) = (cn_valueType cp \<noteq> 10)"
    and len: "count_wants cp \<Longrightarrow> length ps = unat (cn_lenData cp) \<and> vl \<le> length ps" "cn_valueType cp = 10 \<Longrightarrow> length ms = vl"
  shows "value_hit (client_count cp vl (map_option (\<lambda>q. blit q 0 ps) p) (map_option (\<lambda>q. blit q 0 ms) m)) val old
    = value_hit (client_count cp vl (if count_wants cp then Some (of_list ps) else None) (if cn_valueType cp = 10 then Some (of_list ms) else None)) val old"
proof -
  have hit: "value_hit (client_count cp vl q k) val old = cand_hit (client_count cp vl q k) (\<lambda>a. of_list val (unat (a - cn_base_address cp))) (0, old)" for q k
  proof -
    have big: "cn_valueType cp \<le> 9 \<longrightarrow> proc_scan_getSizeOfValueType (cn_valueType cp) \<le> vl" "vl \<le> 0x1000"
      using wf size_bounds [of "cn_valueType cp"] by (auto simp: wf_count_client_def)
    have self: "agree (cn_valueType cp) vl x x" for x using big by (simp add: agree_def)
    have "of_list val i = of_list val (unat (of_nat i :: u64))" if "i < vl" for i using that big(2) by (simp add: unat_of_nat)
    then have mem: "agree (cn_valueType cp) vl (of_list val) (window (\<lambda>a. of_list val (unat (a - cn_base_address cp))) (cn_base_address cp + ucast (0 :: u32)))"
      using big(1) by (simp add: agree_def window_apply)
    show ?thesis unfolding value_hit_def cand_hit_def cand_addr_def client_count_def count_request.simps fst_conv snd_conv
      by (rule compareValues_cong [OF mem self option.rel_refl option.rel_refl]) (rule self)+
  qed
  show ?thesis unfolding hit by (subst cand_hit_count [OF wf p]) (use len in auto)
qed

section \<open>Rescanning a session\<close>

definition session_readable :: "(u32 \<Rightarrow> u64 \<Rightarrow> nat \<Rightarrow> bool) \<Rightarrow> turboscan_session \<Rightarrow> bool" where
  \<comment> \<open>the values of a session, and what lies between close ones, can be read\<close>
  "session_readable readable s \<longleftrightarrow> (case ts_mode s of TS_MODE_NONE \<Rightarrow> True
     | TS_MODE_LIST \<Rightarrow> readable_from readable (ts_pid s) (ts_value_length s) (rec_addr s (ptr_of (ts_buf s))) 0 (ts_count s)
     | TS_MODE_SNAPSHOT \<Rightarrow> ascending (fs_slot_addr s) (ts_slot_count s) \<and>
         readable_from readable (ts_pid s) (ts_value_length s) (fs_slot_addr s) 0 (ts_slot_count s))"

lemma turbo_shape_sess: "turbo_shape bound (set_sess idx s t) = turbo_shape bound t"
  by (simp add: turbo_shape_def set_sess_def)

lemma put_alias_os [simp]: "os (put_alias idx actx t) = os t"
  by (simp add: put_alias_def split: option.splits)

context turbo_system
begin

lemma count_alias_ok:
  assumes "turbo_shape bound t" "count_alias P idx flags pid t = (actx, t')"
  shows "opt_bound bound pid actx" "turbo_shape bound t'" "g_turboscan_sess t' = g_turboscan_sess t" "fs (os t') = fs (os t)"
proof -
  have "fs (os t') = fs (os t)" if "turboscan_alias_acquire P idx pid t = (actx, t')"
    using that begin_fs rebind_fs by (fastforce simp: turboscan_alias_acquire_def Let_def split: if_splits option.splits prod.splits)
  then show "opt_bound bound pid actx" "turbo_shape bound t'" "g_turboscan_sess t' = g_turboscan_sess t" "fs (os t') = fs (os t)"
    using assms acquire_ok [OF assms(1)] by (auto simp: count_alias_def opt_bound_def split: if_splits)
qed

lemma count_snapshot_ok:
  assumes t: "turbo_shape bound t" "unat idx < TS_MAX_CLIENTS" "s = sess_at idx t" "quiet c"
    and s: "ts_in_use s" "ts_mode s = TS_MODE_SNAPSHOT" "session_table (fs (os t)) s vs" "ts_value_length s = cq_vlen r" "wf_rescan turbo r" "session_readable readable s"
    and run: "count_snapshot rd P idx flags turbo r mem_buf (t, c) = (nc, t', c')"
    and new: "vs' = table_rescan (ts_has_prev s) (mem_value (mem (ts_pid s)) (cq_vlen r)) (cq_hit turbo r) vs"
  shows "\<exists>s' bs. g_turboscan_sess t' = (g_turboscan_sess t)[unat idx := s'] \<and> session_table (fs (os t')) s' vs' \<and> same_scan s s' \<and> turbo_shape bound t'
    \<and> nc = length vs' \<and> progress_msgs (ts_slot_count s) bs \<and> io c [] bs c'"
proof -
  obtain bl d where 1: "net_alloc_buffer 0x100000 c = (Some bl, d)" "io c [] [] d" by (rule io_alloc [OF t(4), of "0x100000"]) (simp, rule that)
  have qd: "quiet d" using io_fields(1) [OF 1(2)] t(4) by simp
  obtain actx t1 where 2: "count_alias P idx flags (ts_pid s) t = (actx, t1)" by fastforce
  note a = count_alias_ok [OF t(1) 2]
  obtain s1 actx2 w2 d2 n1 where 3: "fs_snapshot_rescan rd P s turbo r mem_buf bl ((actx, os t1), d) = ((n1, s1), (actx2, w2), d2)"
    by (cases "fs_snapshot_rescan rd P s turbo r mem_buf bl ((actx, os t1), d)") auto
  have tab: "session_table (fs (os t1)) s vs" using s(3) a(4) by simp
  have A: "ascending (fs_slot_addr s) (ts_slot_count s)" "readable_from readable (ts_pid s) (cq_vlen r) (fs_slot_addr s) 0 (ts_slot_count s)"
    using s(2,4,6) by (simp_all add: session_readable_def)
  note R = snapshot_rescan_ok [OF s(2) tab s(4,5) A a(1) qd 3, folded new]
  then obtain bm ram where s1: "s1 = s\<lparr>ts_bitmap := bm, ts_snap_ram := ram, ts_survivors := n1\<rparr>" by auto
  have m1: "ts_mode s1 = TS_MODE_SNAPSHOT" "ts_in_use s1" "same_scan s s1" using s(1,2) by (simp_all add: s1 same_scan_def)
  let ?dir = "g_turboscan_spill_dir t1"
  let ?small = "n1 > 0 \<and> n1 \<le> g_turboscan_materialize_max t1 \<and> n1 * TS_MATERIALIZE_DENSITY \<le> ts_slot_count s1 \<and> n1 * list_rec_size s1 \<le> TS_RESIDENT_CAP"
  obtain s2 w3 where 4: "(if ?small then fs_snapshot_materialize P ?dir idx s1 w2 else (s1, w2)) = (s2, w3)" by fastforce
  have tab2: "session_table (fs w3) s2 vs' \<and> same_scan s s2"
  proof (cases ?small)
    case True
    then have "fs_snapshot_materialize P ?dir idx s1 w2 = (s2, w3)" using 4 by simp
    from materialize_ok [OF _ m1(1,2) this, of vs'] show ?thesis using R m1(3) by (auto simp: same_scan_def)
  qed (use 4 R m1(3) in auto)
  have e: "nc = n1" "t' = put_alias idx actx2 (set_sess idx s2 (t1\<lparr>os := w3\<rparr>))" "c' = d2"
    using run 1(1) 2 3 4 s(4) by (auto simp: count_snapshot_def Let_def t(3) [symmetric])
  have shape: "turbo_shape bound t'" using a(2) R turbo_shape_put [of bound "set_sess idx s2 (t1\<lparr>os := w3\<rparr>)"] by (auto simp: e turbo_shape_sess)
  obtain bs where bs: "progress_msgs (ts_slot_count s) bs" "io d [] bs d2" using R by blast
  have "g_turboscan_sess t' = (g_turboscan_sess t)[unat idx := s2]" "os t' = w3" by (simp_all add: e set_sess_def a(3))
  then show ?thesis using tab2 shape R e(1,3) bs io_trans [OF 1(2) bs(2)] by (intro exI [of _ s2] exI [of _ bs]) simp
qed

lemma count_list_ok:
  assumes t: "turbo_shape bound t" "unat idx < TS_MAX_CLIENTS" "s = sess_at idx t"
    and s: "ts_in_use s" "ts_mode s = TS_MODE_LIST" "session_table (fs (os t)) s vs" "ts_value_length s = cq_vlen r" "wf_rescan turbo r" "session_readable readable s"
    and run: "count_list rd P idx flags turbo r mem_buf t = (nc, t')"
    and new: "vs' = table_rescan (ts_has_prev s) (mem_value (mem (ts_pid s)) (cq_vlen r)) (cq_hit turbo r) vs"
  shows "\<exists>s'. g_turboscan_sess t' = (g_turboscan_sess t)[unat idx := s'] \<and> session_table (fs (os t')) s' vs' \<and> same_scan s s' \<and> turbo_shape bound t' \<and> nc = length vs'"
proof -
  have wf: "wf_list s" "vs = list_survivors s" using s(2,3) by (simp_all add: session_table_def)
  obtain actx t1 where 2: "count_alias P idx flags (ts_pid s) t = (actx, t1)" by fastforce
  note a = count_alias_ok [OF t(1) 2]
  obtain s1 actx2 w2 where 3: "list_rescan rd P s turbo r mem_buf (actx, os t1) = (s1, actx2, w2)" by (cases "list_rescan rd P s turbo r mem_buf (actx, os t1)") auto
  have A: "readable_from readable (ts_pid s) (cq_vlen r) (rec_addr s (ptr_of (ts_buf s))) 0 (ts_count s)" using s(2,4,6) by (simp add: session_readable_def)
  note R = list_rescan_ok [OF wf(1) s(4,5) A a(1) 3, folded wf(2), folded new]
  have e: "nc = ts_count s1" "t' = put_alias idx actx2 (set_sess idx s1 (t1\<lparr>os := w2\<rparr>))"
    using run 2 3 t(2) s(1,4) wf(1) by (auto simp: count_list_def Let_def t(3) [symmetric] wf_list_def)
  have "\<exists>bf n. s1 = s\<lparr>ts_buf := bf, ts_count := n\<rparr>" using 3 by (auto simp: list_rescan_def Let_def split: prod.splits)
  then have same: "same_scan s s1" "ts_mode s1 = TS_MODE_LIST" using s(2) by (auto simp: same_scan_def)
  then have "session_table (fs (os t')) s1 vs'" using R(1,3) by (simp add: session_table_def)
  moreover have "turbo_shape bound t'" using a(2) R(5) turbo_shape_put [of bound "set_sess idx s1 (t1\<lparr>os := w2\<rparr>)"] by (simp add: e turbo_shape_sess)
  moreover have "nc = length vs'" using R(1) [symmetric] by (simp add: e(1) list_survivors_def recs_survs_def)
  moreover have "g_turboscan_sess t' = (g_turboscan_sess t)[unat idx := s1]" by (simp add: e set_sess_def a(3))
  ultimately show ?thesis using same(1) by blast
qed

end

section \<open>The command\<close>

lemma turbo_count_unfold:
  assumes "quiet c" "auth_granted c" "data packet = Some dp" "turboscan_count_packet dp = cp" "wf_count_client (plain_count cp) vl"
  obtains p m cb mb d where "io c [] [] d" "(p = None) = (\<not> count_wants (plain_count cp))" "(m = None) = (tc_valueType cp \<noteq> 10)"
    "proc_turboscan_count_handle rd P packet idx (t, c) =
       (let (p, c) = recv_opt p (c_int (tc_lenData cp)) (send_int32 CMD_SUCCESS d); (m, c) = recv_opt m (c_int (of_nat vl)) c
        in map_option (\<lambda>(t, c). (0, t, send_int32 CMD_SUCCESS c))
             (turbo_count_run rd P idx cp (scan_point_turbo_supported (tc_compareType cp) (tc_valueType cp)) (client_count (plain_count cp) vl p m) cb mb (t, c)))"
proof -
  let ?L = "unat (tc_lenData cp)" and ?wants = "count_wants (plain_count cp)" and ?arr = "tc_valueType cp = 10"
  have vl: "0 < vl" "vl \<le> 0x1000" "(if proc_scan_getSizeOfValueType (tc_valueType cp) = 0 then ?L else proc_scan_getSizeOfValueType (tc_valueType cp)) = vl"
      "\<not> tc_compareType cp > 12"
    using assms(5) by (auto simp: wf_count_client_def)
  have wants: "((g_cmptype_needs_value ! unat (tc_compareType cp) \<noteq> 0 \<or> g_cmptype_needs_extra ! unat (tc_compareType cp) \<noteq> 0) \<and> tc_lenData cp \<noteq> 0) = ?wants"
    by (simp add: count_wants_def)
  have "0 < ?L \<or> \<not> ?wants" by (auto simp: count_wants_def unat_gt_0)
  then obtain p c1 where 1: "(if ?wants then net_alloc_buffer ?L c else (None, c)) = (p, c1)" "(p = None) = (\<not> ?wants)" "io c [] [] c1"
    using io_opt_alloc [OF assms(1), of ?L ?wants] by (cases ?wants) auto
  have q1: "quiet c1" using io_fields(1) [OF 1(3)] assms(1) by simp
  obtain m c2 where 2: "(if ?arr then net_alloc_buffer vl c1 else (None, c1)) = (m, c2)" "(m = None) = (\<not> ?arr)" "io c1 [] [] c2"
    using io_opt_alloc [OF q1 vl(1)] .
  have q2: "quiet c2" using io_fields(1) [OF 2(3)] q1 by simp
  have pos: "\<forall>sz\<in>set [0x40000, 0x40000, 0x100000 :: nat]. 0 < sz mod 2 ^ 32" by simp
  obtain bs d where 3: "alloc_all [0x40000, 0x40000, 0x100000] c2 = (map Some bs, d)" "io c2 [] [] d" using io_alloc_all [OF q2 pos] by metis
  have io: "io c [] [] d" using io_trans [OF 1(3) io_trans [OF 2(3) 3(2)]] by simp
  have none: "None \<notin> set (map Some bs)" by auto
  have ok: "\<not> (?wants \<and> p = None)" "\<not> (?arr \<and> m = None)" "\<not> (vl = 0 \<or> vl > 0x1000)" using 1(2) 2(2) vl by auto
  show thesis
    by (rule that [OF io 1(2) _, of m "the (map Some bs ! 0)" "the (map Some bs ! 2)"])
      (use 2(2) in simp, simp only: proc_turboscan_count_handle_def prod.case assms(2,3,4) option.case Let_def not_True_eq_False if_False wants vl(3,4) ok 1(1) 2(1) 3(1) none turbo_count_request_conv)
qed

abbreviation received_count :: "cmd_proc_turboscan_count_packet \<Rightarrow> nat \<Rightarrow> byte list \<Rightarrow> byte list \<Rightarrow> count_request" where
  \<comment> \<open>the request as the client means it\<close>
  "received_count cp vl ps ms \<equiv> client_count (plain_count cp) vl (if count_wants (plain_count cp) then Some (of_list ps) else None)
     (if tc_valueType cp = 10 then Some (of_list ms) else None)"

context turbo_system
begin

lemma session_rescan_ok:
  assumes t: "turbo_shape bound t" "unat idx < TS_MAX_CLIENTS" "s = sess_at idx t" "quiet c" "ts_flag (tc_flags cp) 2"
    and s: "ts_in_use s" "ts_mode s \<noteq> TS_MODE_NONE" "session_table (fs (os t)) s vs" "ts_value_length s = cq_vlen r" "wf_rescan turbo r" "session_readable readable s"
    and new: "vs' = table_rescan (ts_has_prev s) (mem_value (mem (ts_pid s)) (cq_vlen r)) (cq_hit turbo r) vs"
  shows "\<exists>t' c' s' bs. turbo_count_run rd P idx cp turbo r cb mb (t, c) = Some (t', c') \<and> g_turboscan_sess t' = (g_turboscan_sess t)[unat idx := s']
    \<and> session_table (fs (os t')) s' vs' \<and> same_scan s s' \<and> turbo_shape bound t' \<and> progress_msgs (ts_slot_count s) bs
    \<and> io c [] (bs @ sentinel64 @ le_bytes 8 (of_nat (length vs') :: u64)) c'"
proof (cases "ts_mode s = TS_MODE_SNAPSHOT")
  case True
  obtain nc t' d where 1: "count_snapshot rd P idx (tc_flags cp) turbo r mb (t, c) = (nc, t', d)" by (cases "count_snapshot rd P idx (tc_flags cp) turbo r mb (t, c)")
  obtain s' bs where 2: "g_turboscan_sess t' = (g_turboscan_sess t)[unat idx := s']" "session_table (fs (os t')) s' vs'" "same_scan s s'" "turbo_shape bound t'"
      "nc = length vs'" "progress_msgs (ts_slot_count s) bs" "io c [] bs d"
    using count_snapshot_ok [OF t(1-4) s(1) True s(3-6) 1 new] by (elim exE conjE) (rule that)
  have q: "quiet d" using io_fields(1) [OF 2(7)] t(4) by simp
  have "turbo_count_run rd P idx cp turbo r cb mb (t, c) = Some (t', send64 nc (send_all sentinel64 d))"
    using t(2,3,5) s(1) True 1 by (simp add: turbo_count_run_def)
  moreover have "io c [] (bs @ sentinel64 @ le_bytes 8 (of_nat (length vs') :: u64)) (send64 nc (send_all sentinel64 d))"
    using io_trans [OF 2(7) io_trans [OF io_send_all io_send_all]] q by (simp add: 2(5))
  ultimately show ?thesis using 2(1-4,6) by (intro exI conjI)
next
  case False
  then have m: "ts_mode s = TS_MODE_LIST" using s(2) by (cases "ts_mode s") auto
  obtain nc t' where 1: "count_list rd P idx (tc_flags cp) turbo r mb t = (nc, t')" by fastforce
  obtain s' where 2: "g_turboscan_sess t' = (g_turboscan_sess t)[unat idx := s']" "session_table (fs (os t')) s' vs'" "same_scan s s'" "turbo_shape bound t'" "nc = length vs'"
    using count_list_ok [OF t(1-3) s(1) m s(3-6) 1 new] by (elim exE conjE) (rule that)
  have "turbo_count_run rd P idx cp turbo r cb mb (t, c) = Some (t', send64 nc (send_all sentinel64 c))"
    using t(2,3,5) s(1) m 1 by (simp add: turbo_count_run_def)
  moreover have "io c [] ([] @ sentinel64 @ le_bytes 8 (of_nat (length vs') :: u64)) (send64 nc (send_all sentinel64 c))"
    using io_trans [OF io_send_all io_send_all] t(4) by (simp add: 2(5))
  ultimately show ?thesis using 2(1-4) progress_msgs_Nil by (intro exI conjI)
qed

end


definition example_rescan_data :: ptr where
  "example_rescan_data = of_list [1, 0, 0, 0, 0, 0x10, 0, 0, 0, 0, 0, 0, 2, 0, 2, 0, 0, 0, 2, 1, 0, 0]"

definition example_rescan_packet :: cmd_packet where
  "example_rescan_packet = \<lparr>magic = 0xFFAABBCC, cmd = 0xBDAACC05, datalen = 22, data = Some example_rescan_data\<rparr>"

lemma example_rescan_fields:
  "turboscan_count_packet example_rescan_data =
     \<lparr>tc_pid = 1, tc_base_address = 0x1000, tc_valueType = 2, tc_compareType = 0, tc_lenData = 2, tc_flags = 0x102\<rparr>"
  by (simp add: turboscan_count_packet_def example_rescan_data_def of_list_def shift_def le_simps)


end
