(* ===== verification/Spec2Isabelle.thy ===== *)
theory Spec2Isabelle
  imports ScanSimd ScanAob ScanRescan KernRw PtWalkMap ProcMemProps ProcHandlersProps ProcInfoProps KernDbregProps KernCmds DebugSystem TurboCount
begin

text \<open>
  A verification of the payload of ps5debug: the server that runs on the console, takes commands
  over TCP and inspects, searches and changes the memory of other processes. The sources are C,
  under \<^verbatim>\<open>src/debugger\<close> and \<^verbatim>\<open>src/common\<close>.

  \<^bold>\<open>How the program is put together.\<close> \<^verbatim>\<open>main.c\<close> accepts connections and gives each a slot of the
  client table and a thread (\<open>Clients\<close>). A thread receives request headers and bodies over the
  transport (\<^verbatim>\<open>net.c\<close>) and hands each to the handler of its command. The memory commands of
  \<^verbatim>\<open>proc.c\<close> and the scans of \<^verbatim>\<open>scan.c\<close> reach the target process through \<^verbatim>\<open>proc_read_mem\<close> and
  \<^verbatim>\<open>proc_write_mem\<close>, which use a privileged system call (\<^verbatim>\<open>sys_proc_rw.c\<close>) or the page tables of the
  process (\<^verbatim>\<open>proc_ptwalk.c\<close>). Both rest on reads and writes of kernel memory (\<^verbatim>\<open>kern_rw_fast.c\<close>),
  as do the registers of threads (\<^verbatim>\<open>kern_dbreg.c\<close>) and the lists of processes, modules and mappings.
  The turbo scans (\<^verbatim>\<open>scan_turbo.c\<close>) keep what they find in a session of the client, a list of records
  or a snapshot of values with a bitmap of survivors, and read through an aliasing engine if it is
  there.

  \<^bold>\<open>Theories and sources.\<close>
  \<^item> \<open>Prelude\<close>: bytes, little-endian loads, buffers as functions from offsets, loops over positions.
  \<^item> \<open>Net\<close>, \<open>Protocol\<close>, \<open>Reader\<close>: \<^verbatim>\<open>net.c\<close>, \<^verbatim>\<open>protocol.h\<close>; the relation \<open>io\<close> that says what a handler
    received and sent.
  \<^item> \<open>Auth\<close>: \<^verbatim>\<open>auth.c\<close>, generator, keystream and challenge.
  \<^item> \<open>SoftFloat\<close>, \<open>ScanCompare\<close>, \<open>ScanSimd\<close>: \<^verbatim>\<open>scan_compare.c\<close> and \<^verbatim>\<open>scan_compare_simd.c\<close>, with IEEE
    arithmetic on bit patterns.
  \<^item> \<open>AobScan\<close>, \<open>ScanAob\<close>: \<^verbatim>\<open>aob_scan.h\<close> and the pattern commands of \<^verbatim>\<open>scan.c\<close>.
  \<^item> \<open>ScanHandlers\<close>, \<open>ScanRescan\<close>: the value scans of \<^verbatim>\<open>scan.c\<close>.
  \<^item> \<open>TurboStore\<close>, \<open>TurboSnap\<close>, \<open>TurboScan\<close>, \<open>TurboHandlers\<close>: \<^verbatim>\<open>scan_turbo.c\<close>, in the order sessions and value
    stores, snapshots, scan passes with the start command, rescans with the other commands.
    \<open>TurboStoreProps\<close> and \<open>TurboScanProps\<close> have the contracts of what lies below (locales \<open>storage\<close>,
    \<open>reliable_storage\<close>, \<open>alias_engine\<close>), met there by a small system with files in memory. \<open>TurboStart\<close>: what
    the start command finds. \<open>TurboSession\<close>, \<open>TurboTable\<close>, \<open>TurboGet\<close>, \<open>TurboCount\<close>: a session as a table of
    survivors, which rescans filter and fetches send, whatever form the session has.
  \<^item> \<open>Kernel\<close>, \<open>KernRw\<close>, \<open>KernProc\<close>: the contract of kernel memory (locale \<open>reliable_kernel\<close>),
    \<^verbatim>\<open>kern_rw_fast.c\<close> with its process cache and list walks.
  \<^item> \<open>PtWalk\<close>, \<open>PtWalkProps\<close>, \<open>PtWalkMap\<close>: \<^verbatim>\<open>proc_ptwalk.c\<close>, translation, transfers and enumeration.
  \<^item> \<open>Target\<close>, \<open>ProcMem\<close>, \<open>ProcMemProps\<close>: the contract of process memory (locales \<open>target_read\<close> and
    \<open>target_access\<close>) and its implementation in \<^verbatim>\<open>sys_proc_rw.c\<close> and \<^verbatim>\<open>proc.c\<close>.
  \<^item> \<open>ProcHandlers\<close>, \<open>ProcHandlersProps\<close>, \<open>ProcInfo\<close>, \<open>ProcInfoProps\<close>: the commands of \<^verbatim>\<open>proc.c\<close>.
  \<^item> \<open>KernDbreg\<close>, \<open>KernDbregProps\<close>: \<^verbatim>\<open>kern_dbreg.c\<close>, thread cache and registers.
  \<^item> \<open>Clients\<close>, \<open>Server\<close>: \<^verbatim>\<open>meta.c\<close>, the threads of \<^verbatim>\<open>main.c\<close> and their request loop, the dispatch of
    commands. \<open>KernCmds\<close>: \<^verbatim>\<open>kern.c\<close>.
  \<^item> \<open>DebugOps\<close>, \<open>Debug\<close>, \<open>DebugRegs\<close>, \<open>DebugEvents\<close>: \<^verbatim>\<open>debug.c\<close>, in the order of the file: state and
    caches, sessions with their breakpoints and watchpoints, registers and stepping, the event
    monitor. \<open>DebugProps\<close>, \<open>DebugEventsProps\<close>, \<open>DebugSession\<close>: what a session promises its client, from
    the contracts \<open>debug_target\<close> and \<open>debug_monitor\<close> of what lies below the core.
  \<^item> \<open>Elev\<close>: the elevation of \<^verbatim>\<open>proc_remote.c\<close>. \<open>DebugSystem\<close>: the core on top of \<open>ProcMem\<close>, \<open>KernDbreg\<close>
    and \<open>Elev\<close>, which meet those contracts on a kernel with the locale \<open>debug_system\<close>.

  \<^bold>\<open>State.\<close> A handler is a function on the state of the memory access and a connection record,
  which holds the bytes still to be received, the bytes sent, and what the operating system
  decides: how transfers are cut up, which allocations fail, what fresh blocks contain. Kernel
  state is a record that grows with the components: process cache, page-table walker, memory
  access, thread cache. Kernel memory itself is a parameter behind \<open>copyout\<close> and \<open>copyin\<close>.

  \<^bold>\<open>What the lemmas show.\<close> For each command the exact reply and effect for every length, split and
  boundary; for the pattern search the equality of the parallel search with a sequential one; for
  the kernel copies, the page-table transfers and the process memory that they refine flat memory;
  for the caches their invariants; for the client table that slots are exclusive under a condition
  and that without it they are not. For the debugger core the abstract state is a program and a
  table of breakpoints: commands refine updates of the table, and the event monitor, with its steps
  over breakpoints and watchpoints, keeps it. For the turbo scanner the abstract state of a session is
  its table of survivors; scans equal the plain ones, and a rescan of either form refines a filter of
  the table. Two theorems go through all layers: a read request
  (below) and a breakpoint (\<open>DebugSystem\<close>).

  \<^bold>\<open>Loops and bounds.\<close> Loops with a decreasing length are recursive functions with a measure. Walks
  of lists in kernel memory, which may be cyclic, are \<^verbatim>\<open>partial_function (option)\<close>: \<open>None\<close> is a walk
  that does not end, and termination on finite lists is a theorem. The counts in the sources are
  kept: 4096 processes, 22 attempts to read the mappings, 64 stack frames, 12 clients, 8 cache slots.

  \<^bold>\<open>Not modelled.\<close> The aliasing engine (\<^verbatim>\<open>scan_alias.c\<close>, a parameter of the turbo scans), the command that
  measures the reading speed of regions with the clock (\<^verbatim>\<open>proc_turboscan_regions_handle\<close>), the mutexes of
  the debugger core (a command and an event run one after the other), remote calls and the ELF loader, the console and assembler commands, the
  disassembler commands (driven by the vendored decoder), the installer and the SDK.
\<close>

section \<open>A read, end to end\<close>

text \<open>A command on the memory of processes as a command of the server, whose state carries the
  state of the memory access.\<close>

definition on_memory :: "('s, 'c) handler \<Rightarrow> ('s server_scheme, 'c) handler" where
  "on_memory h packet = (\<lambda>(s, c). map_option (\<lambda>(rc, m, c). (rc, server.more_update (\<lambda>_. m) s, c)) (h packet (server.more s, c)))"

definition read_body :: "u32 \<Rightarrow> u64 \<Rightarrow> u32 \<Rightarrow> byte list" where
  "read_body pid a n = le_bytes 4 pid @ le_bytes 8 a @ le_bytes 4 n"

lemma length_read_body [simp]: "length (read_body pid a n) = 16" "read_body pid a n \<noteq> []"
  by (simp_all add: read_body_def flip: length_greater_0_conv)

lemma read_packet_body:
  assumes "bytes_at p 0 16 = read_body pid a n"
  shows "read_packet p = \<lparr>rw_pid = pid, rw_address = a, rw_length = n\<rparr>"
proof -
  have b: "p i = read_body pid a n ! i" if "i < 16" for i using nth_bytes_at [OF that, of p 0] assms by simp
  have "ld32 p = pid" by (rule le_load_le_bytes) (simp_all add: b read_body_def nth_append)
  moreover have "ld64 (shift p 4) = a" by (rule le_load_le_bytes) (simp_all add: shift_def b read_body_def nth_append)
  moreover have "ld32 (shift p 12) = n" by (rule le_load_le_bytes) (simp_all add: shift_def b read_body_def nth_append)
  ultimately show ?thesis by (simp add: read_packet_def)
qed

lemma answers_read:
  assumes tr: "target_read rdm tv able" and tv: "tv (server.more s) t" and ab: "able pid a (unat n)"
    and H: "h_proc H = proc_handle P" "p_read P = on_memory (proc_read_handle rdm)"
  shows "answers (cmd_handler H) idx (0xBDAA0002, read_body pid a n) s [] (status CMD_SUCCESS @ peek (t pid) a (unat n))
    (\<lambda>s'. tv (server.more s') t \<and> g_clients s' = g_clients s)"
  unfolding answers_def
proof (intro allI impI)
  fix c :: "'b conn_scheme" and d rest
  let ?pkt = "\<lparr>magic = PACKET_MAGIC, cmd = fst (0xBDAA0002 :: u32, read_body pid a n), datalen = of_nat (length (snd (0xBDAA0002 :: u32, read_body pid a n))), data = d\<rparr>"
  assume "quiet c \<and> rx c = [] @ rest \<and> carries d (snd (0xBDAA0002 :: u32, read_body pid a n))"
  then have q: "quiet c" and "carries d (read_body pid a n)" by simp_all
  then obtain p where p: "d = Some p" "bytes_at p 0 16 = read_body pid a n"
    by (cases d) (auto simp: carries_def)
  note f = read_packet_body [OF p(2)]
  obtain m c' where r: "proc_read_handle rdm ?pkt (server.more s, c) = Some (0, m, c')" "tv m t"
      "io c [] (status CMD_SUCCESS @ peek (t pid) a (unat n)) c'"
    using target_read.proc_read [OF tr q tv, of ?pkt p "read_packet p"] p(1) ab by (auto simp: f)
  have "cmd_handler H ?pkt idx (s, c) = on_memory (proc_read_handle rdm) ?pkt (s, c)"
    using H by (simp add: cmd_handler_def VALID_CMD_def VALID_PROC_CMD_def proc_handle_def proc_table_def drop_bit_eq_div Let_def)
  then have "cmd_handler H ?pkt idx (s, c) = Some (0, server.more_update (\<lambda>_. m) s, c')" using r(1) by (simp add: on_memory_def)
  with r show "\<exists>s' c'. cmd_handler H ?pkt idx (s, c) = Some (0, s', c') \<and> (tv (server.more s') t \<and> g_clients s' = g_clients s)
      \<and> io c [] (status CMD_SUCCESS @ peek (t pid) a (unat n)) c'" by auto
qed

text \<open>
  C1: from the socket to the target process and back. A client that connects, sends a read request
  and closes the connection gets the success word and exactly the bytes of the range in the target
  process, through the request loop, the dispatch of commands and the chunked transfer; the loop
  ends, and neither the target's memory nor the client table has changed.
\<close>

theorem server_reads_memory:
  assumes "target_read rdm tv able" "tv (server.more s) t" "able pid a (unat n)"
    and "h_proc H = proc_handle P" "p_read P = on_memory (proc_read_handle rdm)"
    and "quiet c" "rx c = request_wire (0xBDAA0002, read_body pid a n)" "debugging (g_clients s ! i) = 0" "\<forall>k. ready k" "\<forall>k. \<not> reset k"
  shows "\<exists>s' c'. handle_client (cmd_handler H) dde ready reset i k s c = Some (0, s', c') \<and> tv (server.more s') t
    \<and> g_clients s' = g_clients s \<and> io c (rx c) (status CMD_SUCCESS @ peek (t pid) a (unat n)) c'"
proof -
  let ?R = "\<lambda>s'. tv (server.more s') t \<and> g_clients s' = g_clients s"
  have n: "note_attach i 0xBDAA0002 s = s" by (simp add: note_attach_def CMD_DEBUG_ATTACH_def)
  have "session (cmd_handler H) i ?R [((0xBDAA0002, read_body pid a n), [], status CMD_SUCCESS @ peek (t pid) a (unat n))] s"
    by (rule session.request [where R = ?R and ?s0.0 = s])
       (simp_all add: n answers_read [OF assms(1-5)] assms(8) session.closed)
  from serves [OF this assms(6) _ assms(9,10), of dde k] assms(7) show ?thesis by auto
qed

definition read_only_ops :: "('s, 'c) handler \<Rightarrow> ('s, 'c) proc_ops" where
  \<comment> \<open>a server that only knows the read command\<close>
  "read_only_ops h = \<lparr>p_list = \<lambda>_ _. None, p_read = h, p_read_stack = \<lambda>_ _. None, p_assemble = \<lambda>_ _. None,
     p_write = \<lambda>_ _. None, p_write_multi = \<lambda>_ _. None, p_maps = \<lambda>_ _. None, p_install =
     \<lambda>_ _. None, p_call = \<lambda>_ _. None, p_elf = \<lambda>_ _. None, p_protect = \<lambda>_ _. None,
     p_scan = \<lambda>_ _. None, p_info = \<lambda>_ _. None, p_alloc = \<lambda>_ _. None, p_free = \<lambda>_ _.
     None, p_unknown_d = \<lambda>_ _. None, p_alloc_hinted = \<lambda>_ _. None, p_elf_rpc = \<lambda>_ _. None,
     p_disasm = \<lambda>_ _. None, p_xrefs = \<lambda>_ _. None, p_xrefs_to = \<lambda>_ _. None, p_scan_aob =
     \<lambda>_ _. None, p_scan_aob_multi = \<lambda>_ _. None, p_auth = \<lambda>_ _. None, p_scan_start =
     \<lambda>_ _. None, p_scan_count = \<lambda>_ _. None, p_scan_get = \<lambda>_ _. None, p_turbo_caps =
     \<lambda>_ _. None, p_turbo_start = \<lambda>_ _ _. None, p_turbo_count = \<lambda>_ _ _. None, p_turbo_get =
     \<lambda>_ _ _. None, p_turbo_end = \<lambda>_ _ _. None, p_turbo_config = \<lambda>_ _. None, p_turbo_regions
     = \<lambda>_ _. None, p_arena = \<lambda>_ _. None\<rparr>"

theorem server_reads_memory_witness:
  "\<exists>s' c'. handle_client (cmd_handler \<lparr>h_fw = 0, h_proc = proc_handle (read_only_ops (on_memory (proc_read_handle flat_rdm))),
        h_debug = None, h_kern = \<lambda>_ _. None, h_console = \<lambda>_ _. None\<rparr>) (\<lambda>_. None) (\<lambda>_. True) (\<lambda>_. False) 0 0
      (server.extend (example_server (taken 1 5)) example_memory)
      (example_conn\<lparr>rx := request_wire (0xBDAA0002, read_body 1 0x20000 2)\<rparr>) = Some (0, s', c')
    \<and> tx c' = status CMD_SUCCESS @ [0, 0x2A]"
proof -
  let ?P = "read_only_ops (on_memory (proc_read_handle flat_rdm))"
  let ?H = "\<lparr>h_fw = 0, h_proc = proc_handle ?P, h_debug = None, h_kern = \<lambda>_ _. None, h_console = \<lambda>_ _. None\<rparr>"
  let ?s = "server.extend (example_server (taken 1 5)) example_memory"
  have "server.more ?s = example_memory" "debugging (g_clients ?s ! 0) = 0"
    by (simp_all add: server.defs example_server_def taken_def cleared_client_def)
  moreover have "peek (example_memory 1) 0x20000 2 = [0, 0x2A]"
    by (simp add: peek_def bytes_at_def window_apply example_memory_def numeral_2_eq_2)
  ultimately show ?thesis
    using server_reads_memory [OF flat_target.target_read_axioms, where s = ?s and t = example_memory and pid = 1 and a = "0x20000" and n = 2 and H = ?H and P = ?P
        and c = "example_conn\<lparr>rx := request_wire (0xBDAA0002, read_body 1 0x20000 2)\<rparr>" and i = 0 and ready = "\<lambda>_. True" and reset = "\<lambda>_. False"
        and dde = "\<lambda>_. None" and k = 0] quiet_example_rx
    by (auto dest!: io_fields(3) simp: example_conn_def read_only_ops_def)
qed

end
